(* ===== verification/Rust_Prelude.thy ===== *)
theory Rust_Prelude
  imports Main "HOL-Library.Word" "HOL-Library.Sublist"
begin

text \<open>
  Shared vocabulary of the development: the parts of the Rust standard library the modelled
  crates use, on a byte model of strings.

  A Rust \<^verbatim>\<open>&[u8]\<close> is a \<^typ>\<open>string\<close>, that is a list of the 8-bit values \<^typ>\<open>char\<close>; a Rust
  \<^verbatim>\<open>&str\<close> is the same list under the invariant \<open>utf8_valid\<close>.  Every character the modelled
  code looks for is ASCII, so the searches, splits and prefix tests of \<^verbatim>\<open>str\<close> act on the bytes
  exactly as on the characters: a byte below 128 never occurs inside a longer UTF-8 sequence
  (lemma \<open>utf8_valid_ascii_split\<close>).  The one operation that looks at non-ASCII characters,
  \<^verbatim>\<open>str::trim\<close>, is modelled on the UTF-8 encodings of the white-space characters.

  The theory also holds the named collections and the generic lemmas the components share.
\<close>

section \<open>Collections\<close>

named_theorems rust_eval \<open>definitions unfolded when a closed instance is evaluated\<close>
named_theorems ascii_class \<open>definitions of the ASCII character classes\<close>

named_theorems result_inv \<open>inversion of a successful or failing Result computation\<close>

section \<open>Results\<close>

text \<open>
  A Rust \<^verbatim>\<open>Result<T, E>\<close> is \<open>'e + 'a\<close> with \<^term>\<open>Inl\<close> for \<^verbatim>\<open>Err\<close> and \<^term>\<open>Inr\<close> for \<^verbatim>\<open>Ok\<close>.
  The operator \<^verbatim>\<open>?\<close> is \<open>and_then\<close>, and \<open>ensure b e\<close> is the early return \<^verbatim>\<open>if !b { return Err(e) }\<close>.
\<close>

definition and_then :: "'e + 'a \<Rightarrow> ('a \<Rightarrow> 'e + 'b) \<Rightarrow> 'e + 'b" where
  "and_then m f = (case m of Inl e \<Rightarrow> Inl e | Inr a \<Rightarrow> f a)"

definition ensure :: "bool \<Rightarrow> 'e \<Rightarrow> 'e + unit" where
  "ensure b e = (if b then Inr () else Inl e)"

definition map_err :: "('e \<Rightarrow> 'f) \<Rightarrow> 'e + 'a \<Rightarrow> 'f + 'a" where
  "map_err f m = (case m of Inl e \<Rightarrow> Inl (f e) | Inr a \<Rightarrow> Inr a)"

definition ok_or :: "'e \<Rightarrow> 'a option \<Rightarrow> 'e + 'a" where
  "ok_or e m = (case m of None \<Rightarrow> Inl e | Some a \<Rightarrow> Inr a)"

definition is_ok :: "'e + 'a \<Rightarrow> bool" where
  "is_ok m \<longleftrightarrow> (\<exists>a. m = Inr a)"

lemma and_then_simps [simp]:
  "and_then (Inl e) f = Inl e"
  "and_then (Inr a) f = f a"
  by (simp_all add: and_then_def)

lemma ensure_simps [simp]:
  "ensure True e = Inr ()"
  "ensure False e = Inl e"
  by (simp_all add: ensure_def)

lemma map_err_simps [simp]:
  "map_err h (Inl e) = Inl (h e)"
  "map_err h (Inr a) = Inr a"
  by (simp_all add: map_err_def)

lemma ok_or_simps [simp]:
  "ok_or e None = Inl e"
  "ok_or e (Some a) = Inr a"
  by (simp_all add: ok_or_def)

lemma is_ok_simps [simp]:
  "\<not> is_ok (Inl e)"
  "is_ok (Inr a)"
  by (simp_all add: is_ok_def)

lemma and_then_Inr [result_inv]: "and_then m f = Inr b \<longleftrightarrow> (\<exists>a. m = Inr a \<and> f a = Inr b)"
  by (cases m) auto

lemma and_then_Inl [result_inv]:
  "and_then m f = Inl e \<longleftrightarrow> m = Inl e \<or> (\<exists>a. m = Inr a \<and> f a = Inl e)"
  by (cases m) auto

lemma ensure_Inr [result_inv]: "ensure b e = Inr u \<longleftrightarrow> b"
  by (cases b) auto

lemma ensure_Inl [result_inv]: "ensure b e = Inl e' \<longleftrightarrow> \<not> b \<and> e' = e"
  by (cases b) auto

lemma map_err_Inr [result_inv]: "map_err h m = Inr a \<longleftrightarrow> m = Inr a"
  by (cases m) auto

lemma map_err_Inl [result_inv]: "map_err h m = Inl e \<longleftrightarrow> (\<exists>e'. m = Inl e' \<and> e = h e')"
  by (cases m) auto

lemma ok_or_Inr [result_inv]: "ok_or e m = Inr a \<longleftrightarrow> m = Some a"
  by (cases m) auto

lemma ok_or_Inl [result_inv]: "ok_or e m = Inl e' \<longleftrightarrow> m = None \<and> e' = e"
  by (cases m) auto

section \<open>Numbers\<close>

type_synonym u8 = "8 word"
type_synonym u16 = "16 word"
type_synonym u64 = "64 word"
type_synonym bytes = string

abbreviation u64_max :: u64 where
  "u64_max \<equiv> 18446744073709551615"

text \<open>\<^verbatim>\<open>u64::saturating_sub\<close> and \<^verbatim>\<open>u64::saturating_add\<close>.\<close>

definition saturating_sub :: "'a::len word \<Rightarrow> 'a word \<Rightarrow> 'a word" where
  [rust_eval]: "saturating_sub a b = (if a < b then 0 else a - b)"

definition saturating_add :: "'a::len word \<Rightarrow> 'a word \<Rightarrow> 'a word" where
  [rust_eval]: "saturating_add a b =
     (if unat a + unat b < 2 ^ LENGTH('a) then a + b else - 1)"

text \<open>\<^verbatim>\<open>checked_add\<close>: \<open>None\<close> is the overflow.\<close>

definition checked_add :: "'a::len word \<Rightarrow> 'a word \<Rightarrow> 'a word option" where
  [rust_eval]: "checked_add a b = (if unat a + unat b < 2 ^ LENGTH('a) then Some (a + b) else None)"

section \<open>Bytes and ASCII classes\<close>

abbreviation byte :: "char \<Rightarrow> nat" where
  "byte c \<equiv> of_char c"

definition is_ascii :: "char \<Rightarrow> bool" where
  [rust_eval, ascii_class]: "is_ascii c \<longleftrightarrow> byte c < 128"

definition is_ascii_control :: "char \<Rightarrow> bool" where
  [rust_eval, ascii_class]: "is_ascii_control c \<longleftrightarrow> byte c < 32 \<or> byte c = 127"

text \<open>\<^verbatim>\<open>u8::is_ascii_whitespace\<close>: TAB, LF, FF, CR and SPACE, but not VT.\<close>

definition is_ascii_whitespace :: "char \<Rightarrow> bool" where
  [rust_eval, ascii_class]: "is_ascii_whitespace c \<longleftrightarrow> byte c \<in> {9, 10, 12, 13, 32}"

definition is_ascii_digit :: "char \<Rightarrow> bool" where
  [rust_eval, ascii_class]: "is_ascii_digit c \<longleftrightarrow> 48 \<le> byte c \<and> byte c \<le> 57"

definition is_ascii_uppercase :: "char \<Rightarrow> bool" where
  [rust_eval, ascii_class]: "is_ascii_uppercase c \<longleftrightarrow> 65 \<le> byte c \<and> byte c \<le> 90"

definition is_ascii_lowercase :: "char \<Rightarrow> bool" where
  [rust_eval, ascii_class]: "is_ascii_lowercase c \<longleftrightarrow> 97 \<le> byte c \<and> byte c \<le> 122"

definition is_ascii_alphabetic :: "char \<Rightarrow> bool" where
  [rust_eval, ascii_class]: "is_ascii_alphabetic c \<longleftrightarrow> is_ascii_uppercase c \<or> is_ascii_lowercase c"

definition is_ascii_alphanumeric :: "char \<Rightarrow> bool" where
  [rust_eval, ascii_class]: "is_ascii_alphanumeric c \<longleftrightarrow> is_ascii_alphabetic c \<or> is_ascii_digit c"

definition to_ascii_lowercase_char :: "char \<Rightarrow> char" where
  [rust_eval]: "to_ascii_lowercase_char c = (if is_ascii_uppercase c then char_of (byte c + 32) else c)"

definition to_ascii_uppercase_char :: "char \<Rightarrow> char" where
  [rust_eval]: "to_ascii_uppercase_char c = (if is_ascii_lowercase c then char_of (byte c - 32) else c)"

definition to_ascii_lowercase :: "string \<Rightarrow> string" where
  [rust_eval]: "to_ascii_lowercase s = map to_ascii_lowercase_char s"

definition to_ascii_uppercase :: "string \<Rightarrow> string" where
  [rust_eval]: "to_ascii_uppercase s = map to_ascii_uppercase_char s"

definition eq_ignore_ascii_case :: "string \<Rightarrow> string \<Rightarrow> bool" where
  [rust_eval]: "eq_ignore_ascii_case a b \<longleftrightarrow> to_ascii_lowercase a = to_ascii_lowercase b"

section \<open>Searching and splitting\<close>

text \<open>
  \<^verbatim>\<open>starts_with\<close>, \<^verbatim>\<open>ends_with\<close> and \<^verbatim>\<open>contains\<close> with a string pattern are the library relations
  \<^const>\<open>prefix\<close> (on the reversed strings for \<^verbatim>\<open>ends_with\<close>) and \<^const>\<open>sublist\<close>; with a character pattern \<^verbatim>\<open>contains\<close> is list
  membership.
\<close>

definition starts_with :: "string \<Rightarrow> string \<Rightarrow> bool" where
  [rust_eval]: "starts_with s pat \<longleftrightarrow> prefix pat s"

definition ends_with :: "string \<Rightarrow> string \<Rightarrow> bool" where
  [rust_eval]: "ends_with s pat \<longleftrightarrow> prefix (rev pat) (rev s)"

definition contains_str :: "string \<Rightarrow> string \<Rightarrow> bool" where
  [rust_eval]: "contains_str s pat \<longleftrightarrow> sublist pat s"

definition contains_char :: "string \<Rightarrow> char \<Rightarrow> bool" where
  [rust_eval]: "contains_char s c \<longleftrightarrow> c \<in> set s"

text \<open>\<^verbatim>\<open>str::find(char)\<close>: the byte offset of the first occurrence.\<close>

fun find_char :: "string \<Rightarrow> char \<Rightarrow> nat option" where
  "find_char [] d = None"
| "find_char (c # s) d = (if c = d then Some 0 else map_option Suc (find_char s d))"

text \<open>\<^verbatim>\<open>str::split(char)\<close>: one piece more than there are separators.\<close>

fun split_char :: "char \<Rightarrow> string \<Rightarrow> string list" where
  "split_char d [] = [[]]"
| "split_char d (c # s) =
     (if c = d then [] # split_char d s
      else (c # hd (split_char d s)) # tl (split_char d s))"

text \<open>\<^verbatim>\<open>str::split_once(char)\<close>, which is also \<^verbatim>\<open>splitn(2, char)\<close>.\<close>

fun split_once_char :: "char \<Rightarrow> string \<Rightarrow> (string \<times> string) option" where
  "split_once_char d [] = None"
| "split_once_char d (c # s) =
     (if c = d then Some ([], s)
      else map_option (\<lambda>(a, b). (c # a, b)) (split_once_char d s))"

definition trim_start_matches :: "char \<Rightarrow> string \<Rightarrow> string" where
  [rust_eval]: "trim_start_matches d s = dropWhile (\<lambda>c. c = d) s"

definition trim_end_matches :: "char \<Rightarrow> string \<Rightarrow> string" where
  [rust_eval]: "trim_end_matches d s = rev (dropWhile (\<lambda>c. c = d) (rev s))"

text \<open>\<^verbatim>\<open>strip_prefix(char)\<close>.\<close>

fun strip_prefix_char :: "char \<Rightarrow> string \<Rightarrow> string option" where
  "strip_prefix_char d [] = None"
| "strip_prefix_char d (c # s) = (if c = d then Some s else None)"

definition strip_suffix_char :: "char \<Rightarrow> string \<Rightarrow> string option" where
  [rust_eval]: "strip_suffix_char d s = map_option rev (strip_prefix_char d (rev s))"

definition rsplit_once_char :: "char \<Rightarrow> string \<Rightarrow> (string \<times> string) option" where
  [rust_eval]: "rsplit_once_char d s =
     map_option (\<lambda>(a, b). (rev b, rev a)) (split_once_char d (rev s))"

section \<open>Decimal numbers\<close>

definition digit_char :: "nat \<Rightarrow> char" where
  [rust_eval]: "digit_char d = char_of (48 + d)"

text \<open>\<^verbatim>\<open>to_string\<close> of an unsigned integer.\<close>

fun dec :: "nat \<Rightarrow> string" where
  "dec n = (if n < 10 then [digit_char n] else dec (n div 10) @ [digit_char (n mod 10)])"

declare dec.simps [simp del]

text \<open>The value of a digit string, most significant digit first.\<close>

fun dec_value_from :: "nat \<Rightarrow> string \<Rightarrow> nat" where
  "dec_value_from acc [] = acc"
| "dec_value_from acc (c # s) = dec_value_from (10 * acc + (byte c - 48)) s"

definition dec_value :: "string \<Rightarrow> nat" where
  [rust_eval]: "dec_value s = dec_value_from 0 s"

text \<open>
  \<^verbatim>\<open>str::parse\<close> into an unsigned integer of \<open>n\<close> bits: an optional leading \<^verbatim>\<open>+\<close>, then at least one
  digit, and the value has to fit.
\<close>

definition parse_unsigned :: "nat \<Rightarrow> string \<Rightarrow> nat option" where
  [rust_eval]: "parse_unsigned n s =
     (let t = (case s of c # r \<Rightarrow> if c = CHR ''+'' then r else s | [] \<Rightarrow> s)
      in if t \<noteq> [] \<and> list_all is_ascii_digit t \<and> dec_value t < 2 ^ n
         then Some (dec_value t) else None)"

definition parse_u64 :: "string \<Rightarrow> u64 option" where
  [rust_eval]: "parse_u64 s = map_option of_nat (parse_unsigned 64 s)"

section \<open>UTF-8\<close>

abbreviation is_cont :: "char \<Rightarrow> bool" where
  "is_cont c \<equiv> 128 \<le> byte c \<and> byte c \<le> 191"

text \<open>
  The first two bytes of a multi-byte sequence, with the ranges of the Unicode standard (no
  overlong form, no surrogate, nothing above U+10FFFF).  The result is the number of further
  continuation bytes.
\<close>

definition utf8_lead :: "char \<Rightarrow> char \<Rightarrow> nat option" where
  [rust_eval]: "utf8_lead a b =
     (if 194 \<le> byte a \<and> byte a \<le> 223 \<and> is_cont b then Some 0
      else if byte a = 224 \<and> 160 \<le> byte b \<and> byte b \<le> 191 then Some 1
      else if 225 \<le> byte a \<and> byte a \<le> 239 \<and> byte a \<noteq> 237 \<and> is_cont b then Some 1
      else if byte a = 237 \<and> 128 \<le> byte b \<and> byte b \<le> 159 then Some 1
      else if byte a = 240 \<and> 144 \<le> byte b \<and> byte b \<le> 191 then Some 2
      else if 241 \<le> byte a \<and> byte a \<le> 243 \<and> is_cont b then Some 2
      else if byte a = 244 \<and> 128 \<le> byte b \<and> byte b \<le> 143 then Some 2
      else None)"

text \<open>The string after \<open>k\<close> leading continuation bytes.\<close>

fun strip_cont :: "nat \<Rightarrow> bytes \<Rightarrow> bytes option" where
  "strip_cont 0 s = Some s"
| "strip_cont (Suc k) [] = None"
| "strip_cont (Suc k) (c # s) = (if is_cont c then strip_cont k s else None)"

lemma strip_cont_length: "strip_cont k s = Some r \<Longrightarrow> length r \<le> length s"
  by (induction k s rule: strip_cont.induct) (auto split: if_splits)

text \<open>\<^verbatim>\<open>String::from_utf8\<close> succeeds exactly on these byte strings.\<close>

function utf8_valid :: "bytes \<Rightarrow> bool" where
  "utf8_valid [] = True"
| "utf8_valid (a # s) =
     (if byte a < 128 then utf8_valid s
      else case s of [] \<Rightarrow> False
      | b # s1 \<Rightarrow>
        (case utf8_lead a b of None \<Rightarrow> False
         | Some k \<Rightarrow> (case strip_cont k s1 of None \<Rightarrow> False | Some r \<Rightarrow> utf8_valid r)))"
  by pat_completeness auto
termination
  by (relation "measure length") (auto dest!: strip_cont_length)

text \<open>
  \<^verbatim>\<open>String::from_utf8_lossy\<close>: every maximal prefix of an ill-formed sequence becomes one replacement
  character.
\<close>

definition replacement_char :: bytes where
  [rust_eval]: "replacement_char = [CHR 0xEF, CHR 0xBF, CHR 0xBD]"

text \<open>The continuation bytes at the front, at most \<open>k\<close> of them, and the rest.\<close>

fun take_cont :: "nat \<Rightarrow> bytes \<Rightarrow> bytes \<times> bytes" where
  "take_cont 0 s = ([], s)"
| "take_cont (Suc k) [] = ([], [])"
| "take_cont (Suc k) (c # s) =
     (if is_cont c then (let (a, r) = take_cont k s in (c # a, r)) else ([], c # s))"

lemma take_cont_length: "take_cont k s = (a, r) \<Longrightarrow> length r \<le> length s"
proof (induction k s arbitrary: a r rule: take_cont.induct)
  case (3 k c s)
  then show ?case by (cases "take_cont k s") (fastforce split: if_splits)
qed auto

function utf8_lossy :: "bytes \<Rightarrow> bytes" where
  "utf8_lossy [] = []"
| "utf8_lossy (a # s) =
     (if byte a < 128 then a # utf8_lossy s
      else case s of
        [] \<Rightarrow> replacement_char
      | b # s1 \<Rightarrow>
        (case utf8_lead a b of
           None \<Rightarrow> replacement_char @ utf8_lossy s
         | Some k \<Rightarrow>
             (case take_cont k s1 of (conts, r) \<Rightarrow>
                if length conts = k then a # b # conts @ utf8_lossy r
                else replacement_char @ utf8_lossy r)))"
  by pat_completeness auto
termination
  by (relation "measure length") (auto dest!: take_cont_length [OF sym])

section \<open>White space\<close>

text \<open>The UTF-8 encodings of three bytes among the characters with the property White\_Space.\<close>

definition is_ws3 :: "nat \<Rightarrow> nat \<Rightarrow> nat \<Rightarrow> bool" where
  [rust_eval]: "is_ws3 a b c \<longleftrightarrow>
     (a = 225 \<and> b = 154 \<and> c = 128)
     \<or> (a = 226 \<and> b = 128 \<and> (128 \<le> c \<and> c \<le> 138 \<or> c = 168 \<or> c = 169 \<or> c = 175))
     \<or> (a = 226 \<and> b = 129 \<and> c = 159)
     \<or> (a = 227 \<and> b = 128 \<and> c = 128)"

definition is_ws1 :: "nat \<Rightarrow> bool" where
  [rust_eval]: "is_ws1 a \<longleftrightarrow> 9 \<le> a \<and> a \<le> 13 \<or> a = 32"

definition is_ws2 :: "nat \<Rightarrow> nat \<Rightarrow> bool" where
  [rust_eval]: "is_ws2 a b \<longleftrightarrow> a = 194 \<and> (b = 133 \<or> b = 160)"

text \<open>The string after one leading white-space character, if there is one.\<close>

fun strip_ws :: "string \<Rightarrow> string option" where
  "strip_ws [] = None"
| "strip_ws [a] = (if is_ws1 (byte a) then Some [] else None)"
| "strip_ws [a, b] =
     (if is_ws1 (byte a) then Some [b]
      else if is_ws2 (byte a) (byte b) then Some [] else None)"
| "strip_ws (a # b # c # s) =
     (if is_ws1 (byte a) then Some (b # c # s)
      else if is_ws2 (byte a) (byte b) then Some (c # s)
      else if is_ws3 (byte a) (byte b) (byte c) then Some s else None)"

text \<open>The same on the reversed string, so for one trailing white-space character.\<close>

fun strip_ws_rev :: "string \<Rightarrow> string option" where
  "strip_ws_rev [] = None"
| "strip_ws_rev [a] = (if is_ws1 (byte a) then Some [] else None)"
| "strip_ws_rev [b, a] =
     (if is_ws1 (byte b) then Some [a]
      else if is_ws2 (byte a) (byte b) then Some [] else None)"
| "strip_ws_rev (c # b # a # s) =
     (if is_ws1 (byte c) then Some (b # a # s)
      else if is_ws2 (byte b) (byte c) then Some (a # s)
      else if is_ws3 (byte a) (byte b) (byte c) then Some s else None)"

lemma strip_ws_shorter: "strip_ws s = Some t \<Longrightarrow> length t < length s"
  by (cases s rule: strip_ws.cases) (auto split: if_splits)

lemma strip_ws_rev_shorter: "strip_ws_rev s = Some t \<Longrightarrow> length t < length s"
  by (cases s rule: strip_ws_rev.cases) (auto split: if_splits)

function trim_start :: "string \<Rightarrow> string" where
  "trim_start s = (case strip_ws s of None \<Rightarrow> s | Some t \<Rightarrow> trim_start t)"
  by pat_completeness auto
termination
  by (relation "measure length") (auto dest: strip_ws_shorter)

function trim_start_rev :: "string \<Rightarrow> string" where
  "trim_start_rev s = (case strip_ws_rev s of None \<Rightarrow> s | Some t \<Rightarrow> trim_start_rev t)"
  by pat_completeness auto
termination
  by (relation "measure length") (auto dest: strip_ws_rev_shorter)

declare trim_start.simps [simp del, rust_eval] trim_start_rev.simps [simp del, rust_eval]
  dec.simps [rust_eval] sublist_Cons_right [rust_eval]

text \<open>\<^verbatim>\<open>str::trim\<close>.\<close>

definition trim :: "string \<Rightarrow> string" where
  [rust_eval]: "trim s = rev (trim_start_rev (rev (trim_start s)))"

section \<open>Generic lemmas: bytes\<close>

lemma char_of_eq_Char [simp]:
  "char_of (n::nat) = Char b0 b1 b2 b3 b4 b5 b6 b7 \<longleftrightarrow> n mod 256 = of_char (Char b0 b1 b2 b3 b4 b5 b6 b7)"
  by (simp only: char_of_eq_iff take_bit_eq_mod) simp

lemma Char_eq_char_of [simp]:
  "Char b0 b1 b2 b3 b4 b5 b6 b7 = char_of (n::nat) \<longleftrightarrow> n mod 256 = of_char (Char b0 b1 b2 b3 b4 b5 b6 b7)"
  by (metis char_of_eq_Char)

text \<open>Equality of characters as equality of byte values, for arithmetic on classes.\<close>

lemma char_eq_byte: "c = d \<longleftrightarrow> byte c = byte d"
  by (metis char_of_char)

lemma to_ascii_lowercase_char_idem [simp]:
  "to_ascii_lowercase_char (to_ascii_lowercase_char c) = to_ascii_lowercase_char c"
  by (simp add: to_ascii_lowercase_char_def is_ascii_uppercase_def)

lemma to_ascii_lowercase_idem [simp]:
  "to_ascii_lowercase (to_ascii_lowercase s) = to_ascii_lowercase s"
  by (simp add: to_ascii_lowercase_def)

lemma eq_ignore_ascii_case_refl [simp]: "eq_ignore_ascii_case a a"
  by (simp add: eq_ignore_ascii_case_def)

lemma eq_ignore_ascii_case_sym: "eq_ignore_ascii_case a b \<longleftrightarrow> eq_ignore_ascii_case b a"
  by (auto simp: eq_ignore_ascii_case_def)

lemma eq_ignore_ascii_case_trans:
  "eq_ignore_ascii_case a b \<Longrightarrow> eq_ignore_ascii_case b c \<Longrightarrow> eq_ignore_ascii_case a c"
  by (simp add: eq_ignore_ascii_case_def)

lemma eq_ignore_ascii_case_lower [simp]: "eq_ignore_ascii_case (to_ascii_lowercase a) b \<longleftrightarrow> eq_ignore_ascii_case a b"
  by (simp add: eq_ignore_ascii_case_def)

section \<open>Generic lemmas: splitting and joining\<close>

lemma list_all2_in_set_left:
  "list_all2 P xs ys \<Longrightarrow> x \<in> set xs \<Longrightarrow> \<exists>y. y \<in> set ys \<and> P x y"
  by (induction rule: list_all2_induct) auto

fun join_char :: "char \<Rightarrow> string list \<Rightarrow> string" where
  "join_char d [] = []"
| "join_char d [w] = w"
| "join_char d (w # ws) = w @ d # join_char d ws"

lemma split_char_not_Nil [simp]: "split_char d s \<noteq> []"
  by (cases s) auto

lemma split_char_piece: "w \<in> set (split_char d s) \<Longrightarrow> d \<notin> set w"
proof (induction s arbitrary: w)
  case (Cons c s)
  then show ?case
    by (cases "split_char d s") (auto split: if_splits)
qed simp

lemma split_char_subset: "w \<in> set (split_char d s) \<Longrightarrow> set w \<subseteq> set s"
proof (induction s arbitrary: w)
  case (Cons c s)
  then show ?case
    by (cases "split_char d s") (fastforce split: if_splits)+
qed simp

lemma split_char_no_sep: "d \<notin> set s \<Longrightarrow> split_char d s = [s]"
  by (induction s) auto

lemma split_char_append:
  "split_char d (a @ d # b) = split_char d a @ split_char d b"
proof (induction a)
  case (Cons c a)
  then show ?case by (cases "split_char d a") auto
qed simp

lemma split_char_no_sep_Cons:
  "d \<notin> set w \<Longrightarrow> split_char d (w @ d # b) = w # split_char d b"
  by (simp add: split_char_append split_char_no_sep)

lemma join_char_Cons_tail: "ws \<noteq> [] \<Longrightarrow> join_char d (w # ws) = w @ d # join_char d ws"
  by (cases ws) auto

lemma join_split_char: "join_char d (split_char d s) = s"
proof (induction s)
  case (Cons c s)
  show ?case
  proof (cases "c = d")
    case True
    with Cons show ?thesis by (simp add: join_char_Cons_tail)
  next
    case False
    obtain w ws where split: "split_char d s = w # ws"
      by (cases "split_char d s") auto
    with Cons False show ?thesis by (cases ws) auto
  qed
qed simp

lemma split_join_char:
  "ws \<noteq> [] \<Longrightarrow> (\<And>w. w \<in> set ws \<Longrightarrow> d \<notin> set w) \<Longrightarrow> split_char d (join_char d ws) = ws"
proof (induction ws)
  case (Cons w ws)
  then show ?case
    by (cases ws) (simp_all add: split_char_no_sep split_char_no_sep_Cons)
qed simp

lemma set_join_char: "set (join_char d ws) \<subseteq> insert d (\<Union>w\<in>set ws. set w)"
  by (induction d ws rule: join_char.induct) auto

lemma split_once_char_SomeD:
  "split_once_char d s = Some (a, b) \<Longrightarrow> s = a @ d # b \<and> d \<notin> set a"
  by (induction s arbitrary: a b) (auto split: if_splits)

lemma split_once_char_None: "split_once_char d s = None \<longleftrightarrow> d \<notin> set s"
  by (induction s) auto

lemma split_once_char_append: "d \<notin> set a \<Longrightarrow> split_once_char d (a @ d # b) = Some (a, b)"
  by (induction a) auto

lemma find_char_SomeD:
  "find_char s d = Some i \<Longrightarrow> i < length s \<and> s ! i = d \<and> d \<notin> set (take i s)"
  by (induction s arbitrary: i) (auto split: if_splits)

lemma find_char_None: "find_char s d = None \<longleftrightarrow> d \<notin> set s"
  by (induction s) auto

section \<open>Generic lemmas: decimal numbers\<close>

lemma byte_digit_char [simp]: "d < 10 \<Longrightarrow> byte (digit_char d) = 48 + d"
  by (simp add: digit_char_def)

lemma is_ascii_digit_digit_char [simp]: "d < 10 \<Longrightarrow> is_ascii_digit (digit_char d)"
  by (simp add: is_ascii_digit_def)

lemma dec_not_Nil [simp]: "dec n \<noteq> []"
  by (subst dec.simps) simp

lemma dec_digits: "list_all is_ascii_digit (dec n)"
proof (induction n rule: dec.induct)
  case (1 n)
  then show ?case by (subst dec.simps) simp
qed

lemma dec_no_char: "\<not> is_ascii_digit c \<Longrightarrow> c \<notin> set (dec n)"
  using dec_digits [of n] by (auto simp: list_all_iff)

lemma dec_value_from_append:
  "dec_value_from acc (s @ t) = dec_value_from (dec_value_from acc s) t"
  by (induction s arbitrary: acc) auto

lemma dec_value_dec [simp]: "dec_value (dec n) = n"
proof (induction n rule: dec.induct)
  case (1 n)
  show ?case
  proof (cases "n < 10")
    case True
    then show ?thesis by (simp add: dec.simps [of n] dec_value_def)
  next
    case False
    with 1 show ?thesis
      by (simp add: dec.simps [of n] dec_value_def dec_value_from_append)
  qed
qed

lemma dec_inject [simp]: "dec m = dec n \<longleftrightarrow> m = n"
  by (metis dec_value_dec)

lemma is_ascii_digit_plus [simp]: "\<not> is_ascii_digit CHR ''+''"
  by (simp add: is_ascii_digit_def)

lemma parse_unsigned_digits:
  assumes "s \<noteq> []" and "list_all is_ascii_digit s"
  shows "parse_unsigned n s = (if dec_value s < 2 ^ n then Some (dec_value s) else None)"
proof -
  obtain c r where s: "s = c # r" using assms(1) by (cases s) auto
  with assms(2) have "c \<noteq> CHR ''+''" by auto
  with assms s show ?thesis by (simp add: parse_unsigned_def)
qed

lemma parse_unsigned_dec: "m < 2 ^ n \<Longrightarrow> parse_unsigned n (dec m) = Some m"
  using parse_unsigned_digits [OF dec_not_Nil dec_digits] by simp

section \<open>Generic lemmas: UTF-8\<close>

lemma utf8_valid_ascii: "list_all is_ascii s \<Longrightarrow> utf8_valid s"
  by (induction s) (auto simp: is_ascii_def)

lemma utf8_lead_cont: "utf8_lead a b = Some k \<Longrightarrow> 128 \<le> byte b"
  by (auto simp: utf8_lead_def split: if_splits)

lemma strip_cont_append_ascii:
  "byte d < 128 \<Longrightarrow>
   strip_cont k (s @ d # t) = map_option (\<lambda>r. r @ d # t) (strip_cont k s)"
  by (induction k s rule: strip_cont.induct) (auto elim: strip_cont.elims)

text \<open>Cutting a valid string at an ASCII byte gives two valid strings, and conversely.\<close>

lemma utf8_valid_ascii_split:
  assumes "byte d < 128"
  shows "utf8_valid (s @ d # t) \<longleftrightarrow> utf8_valid s \<and> utf8_valid t"
proof (induction s rule: utf8_valid.induct)
  case 1
  with assms show ?case by simp
next
  case (2 a s)
  show ?case
  proof (cases "byte a < 128")
    case True
    with 2 show ?thesis by simp
  next
    case False
    then show ?thesis
      using 2(2) assms
      by (cases s)
        (auto simp: strip_cont_append_ascii split: option.splits dest!: utf8_lead_cont)
  qed
qed

lemma utf8_valid_join_char:
  assumes "byte d < 128" and "ws \<noteq> []"
  shows "utf8_valid (join_char d ws) \<longleftrightarrow> (\<forall>w\<in>set ws. utf8_valid w)"
  using assms(2)
proof (induction ws)
  case (Cons w ws)
  then show ?case
    by (cases "ws = []") (simp_all add: join_char_Cons_tail utf8_valid_ascii_split [OF assms(1)])
qed simp

lemma utf8_valid_split_char:
  assumes "byte d < 128" and "utf8_valid s" and "w \<in> set (split_char d s)"
  shows "utf8_valid w"
proof -
  have "utf8_valid (join_char d (split_char d s))"
    by (simp add: join_split_char assms(2))
  then show ?thesis
    by (simp add: utf8_valid_join_char [OF assms(1)] assms(3))
qed

section \<open>Generic lemmas: trimming\<close>

text \<open>A visible ASCII byte is no white space and starts or ends no encoding of one.\<close>

definition visible :: "char \<Rightarrow> bool" where
  "visible c \<longleftrightarrow> 33 \<le> byte c \<and> byte c \<le> 126"

lemma strip_ws_visible: "visible a \<Longrightarrow> strip_ws (a # s) = None"
  by (cases "a # s" rule: strip_ws.cases) (auto simp: visible_def is_ws1_def is_ws2_def is_ws3_def)

lemma strip_ws_rev_visible: "visible z \<Longrightarrow> strip_ws_rev (z # s) = None"
  by (cases "z # s" rule: strip_ws_rev.cases) (auto simp: visible_def is_ws1_def is_ws2_def is_ws3_def)

lemma trim_visible:
  assumes "s \<noteq> []" and "visible (hd s)" and "visible (last s)"
  shows "trim s = s"
proof -
  obtain a t where s: "s = a # t" using assms(1) by (cases s) auto
  have "trim_start s = s"
    using assms(2) s by (simp add: trim_start.simps strip_ws_visible)
  moreover have "strip_ws_rev (rev s) = None"
    using assms(1,3) strip_ws_rev_visible [of "last s" "rev (butlast s)"]
    by (metis append_butlast_last_id rev.simps(2) rev_rev_ident)
  ultimately show ?thesis
    by (simp add: trim_def trim_start_rev.simps)
qed

lemma visible_digit: "is_ascii_digit c \<Longrightarrow> visible c"
  by (simp add: is_ascii_digit_def visible_def)

text \<open>Trimming removes no visible character.\<close>

lemma strip_ws_keeps: "strip_ws s = Some t \<Longrightarrow> visible c \<Longrightarrow> c \<in> set s \<Longrightarrow> c \<in> set t"
  by (cases s rule: strip_ws.cases) (auto simp: visible_def is_ws1_def is_ws2_def is_ws3_def split: if_splits)

lemma strip_ws_rev_keeps: "strip_ws_rev s = Some t \<Longrightarrow> visible c \<Longrightarrow> c \<in> set s \<Longrightarrow> c \<in> set t"
  by (cases s rule: strip_ws_rev.cases) (auto simp: visible_def is_ws1_def is_ws2_def is_ws3_def split: if_splits)

lemma trim_keeps:
  assumes "visible c" and "c \<in> set s"
  shows "c \<in> set (trim s)"
proof -
  have "c \<in> set (trim_start s)" using assms(2)
    by (induction s rule: trim_start.induct)
      (subst trim_start.simps, auto split: option.splits dest: strip_ws_keeps [OF _ assms(1)])
  moreover have "c \<in> set (trim_start_rev r)" if "c \<in> set r" for r using that
    by (induction r rule: trim_start_rev.induct)
      (subst trim_start_rev.simps, auto split: option.splits dest: strip_ws_rev_keeps [OF _ assms(1)])
  ultimately show ?thesis by (simp add: trim_def)
qed

lemma trim_space: "trim (CHR '' '' # s) = trim s"
proof -
  have "strip_ws (CHR '' '' # s) = Some s"
    by (cases "CHR '' '' # s" rule: strip_ws.cases) (simp_all add: is_ws1_def)
  then show ?thesis by (simp add: trim_def trim_start.simps [of "CHR '' '' # s"])
qed

text \<open>Lengths are \<^verbatim>\<open>usize\<close> values of a 64-bit target; sums of them saturate.\<close>

definition usize_max :: nat where
  [rust_eval]: "usize_max = 18446744073709551615"

definition usize_saturating_add :: "nat \<Rightarrow> nat \<Rightarrow> nat" where
  [rust_eval]: "usize_saturating_add a b = min (a + b) usize_max"

text \<open>\<^verbatim>\<open>a.checked_add(len as u64)\<close> for a length.\<close>

definition checked_add_len :: "u64 \<Rightarrow> nat \<Rightarrow> u64 option" where
  [rust_eval]: "checked_add_len a n = (if unat a + n < 2 ^ 64 then Some (of_nat (unat a + n)) else None)"

lemma checked_add_len_SomeD: "checked_add_len a n = Some b \<Longrightarrow> unat b = unat a + n"
  by (auto simp: checked_add_len_def unat_of_nat simp del: of_nat_add split: if_splits)

end
