(* ===== verification/Request_Target.thy ===== *)
theory Request_Target
  imports Rust_Prelude
begin

text \<open>
  The request target and the request authority: \<^verbatim>\<open>request_target.rs\<close> and \<^verbatim>\<open>authority.rs\<close> of
  \<^verbatim>\<open>eggserve-primitives\<close>.

  A \<open>request_target\<close> keeps the raw text and byte offsets into it, as the source does; the accessors
  are slices.  The invariant \<open>target_wf\<close> says that every slice is in bounds, so that no accessor can
  panic, and that the path starts with a slash; both constructors establish it.  The absolute form
  is rebuilt by the code from a scheme, an authority and a path, and the theorems show that these
  parts can be read back from the raw text.
\<close>

section \<open>Authority\<close>

datatype authority = Authority (authority_str: string)

datatype authority_error = AuthorityInvalid

definition is_ows :: "char \<Rightarrow> bool" where
  [rust_eval]: "is_ows c \<longleftrightarrow> c = CHR '' '' \<or> c = CHR 0x09"

definition trim_matches_ows :: "string \<Rightarrow> string" where
  [rust_eval]: "trim_matches_ows s = rev (dropWhile is_ows (rev (dropWhile is_ows s)))"

text \<open>\<^verbatim>\<open>parse_port\<close>: digits only, so without the leading plus that \<^verbatim>\<open>u16::from_str\<close> accepts.\<close>

definition parse_port :: "string \<Rightarrow> authority_error + nat" where
  [rust_eval]: "parse_port value =
     (if value = [] \<or> \<not> list_all is_ascii_digit value then Inl AuthorityInvalid
      else ok_or AuthorityInvalid (parse_unsigned 16 value))"

definition authority_forbidden :: "char \<Rightarrow> bool" where
  [rust_eval]: "authority_forbidden c \<longleftrightarrow>
     is_ascii_control c
     \<or> c = CHR ''/'' \<or> c = CHR ''?'' \<or> c = CHR ''#'' \<or> c = CHR 0x5C \<or> c = CHR ''@''"

definition bracket_host_char :: "char \<Rightarrow> bool" where
  [rust_eval]: "bracket_host_char c \<longleftrightarrow>
     is_ascii_digit c \<or> (97 \<le> byte c \<and> byte c \<le> 102) \<or> (65 \<le> byte c \<and> byte c \<le> 70)
     \<or> c = CHR '':'' \<or> c = CHR ''.'' \<or> c = CHR ''%''"

definition host_char :: "char \<Rightarrow> bool" where
  [rust_eval]: "host_char c \<longleftrightarrow>
     is_ascii_alphanumeric c \<or> c = CHR ''.'' \<or> c = CHR ''-'' \<or> c = CHR ''_'' \<or> c = CHR ''%''"

text \<open>\<^verbatim>\<open>Option::map(parse_port).transpose()\<close>.\<close>

definition parse_opt_port :: "string option \<Rightarrow> authority_error + nat option" where
  [rust_eval]: "parse_opt_port p =
     (case p of None \<Rightarrow> Inr None | Some v \<Rightarrow> and_then (parse_port v) (\<lambda>n. Inr (Some n)))"

text \<open>The bracketed branch: \<^verbatim>\<open>[host]\<close> or \<^verbatim>\<open>[host]:port\<close>.\<close>

definition parse_bracketed :: "string \<Rightarrow> authority_error + (string \<times> nat option)" where
  [rust_eval]: "parse_bracketed value =
     and_then (ok_or AuthorityInvalid (find_char value CHR '']'')) (\<lambda>close.
       let host = drop 1 (take close value); suffix = drop (close + 1) value in
       if host = [] \<or> contains_char host CHR ''['' \<or> contains_char host CHR '']''
          \<or> \<not> list_all bracket_host_char host
       then Inl AuthorityInvalid
       else and_then (parse_opt_port (strip_prefix_char CHR '':'' suffix)) (\<lambda>port.
         if suffix \<noteq> [] \<and> \<not> starts_with suffix '':'' then Inl AuthorityInvalid
         else Inr (host, port)))"

text \<open>The plain branch: \<^verbatim>\<open>host\<close> or \<^verbatim>\<open>host:port\<close>; a third colon-separated part is an error.\<close>

definition parse_plain :: "string \<Rightarrow> authority_error + (string \<times> nat option)" where
  [rust_eval]: "parse_plain value =
     (let parts = split_char CHR '':'' value; host = hd parts in
      and_then (parse_opt_port (case tl parts of [] \<Rightarrow> None | p # _ \<Rightarrow> Some p)) (\<lambda>port.
        if 3 \<le> length parts \<or> host = [] \<or> \<not> list_all host_char host
        then Inl AuthorityInvalid else Inr (host, port)))"

definition parse_authority :: "string \<Rightarrow> authority_error + authority" where
  [rust_eval]: "parse_authority v =
     (let value = trim_matches_ows v in
      if value = [] \<or> \<not> list_all is_ascii value \<or> list_ex authority_forbidden value
      then Inl AuthorityInvalid
      else and_then (if starts_with value ''['' then parse_bracketed value else parse_plain value)
             (\<lambda>(host, port). Inr (Authority value)))"

section \<open>Request target\<close>

datatype request_target_error =
    TargetEmpty | NotOriginForm | ContainsWhitespace | AbsoluteUri | AuthorityForm | AsteriskForm

datatype request_target_form = OriginForm | AbsoluteForm

record request_target =
  rt_raw :: string
  rt_form :: request_target_form
  rt_scheme :: "string option"
  rt_authority :: "authority option"
  rt_path_start :: nat
  rt_path_end :: nat
  rt_query_start :: "nat option"

definition target_byte_bad :: "char \<Rightarrow> bool" where
  [rust_eval]: "target_byte_bad c \<longleftrightarrow> is_ascii_control c \<or> is_ascii_whitespace c"

text \<open>\<^verbatim>\<open>(path_end < len && path_end + 1 < len).then_some(path_end + 1)\<close>.\<close>

definition query_start_of :: "nat \<Rightarrow> nat \<Rightarrow> nat option" where
  [rust_eval]: "query_start_of path_end len =
     (if path_end < len \<and> path_end + 1 < len then Some (path_end + 1) else None)"

definition find_or_len :: "string \<Rightarrow> char \<Rightarrow> nat" where
  [rust_eval]: "find_or_len s c = (case find_char s c of Some i \<Rightarrow> i | None \<Rightarrow> length s)"

definition parse_origin_form :: "string \<Rightarrow> request_target" where
  [rust_eval]: "parse_origin_form raw =
     (let path_end = find_or_len raw CHR ''?'' in
      \<lparr>rt_raw = raw, rt_form = OriginForm, rt_scheme = None, rt_authority = None,
       rt_path_start = 0, rt_path_end = path_end,
       rt_query_start = query_start_of path_end (length raw)\<rparr>)"

definition parse_target :: "string \<Rightarrow> request_target_error + request_target" where
  [rust_eval]: "parse_target raw =
     (if raw = [] then Inl TargetEmpty
      else if raw = ''*'' then Inl AsteriskForm
      else if list_ex target_byte_bad raw then Inl ContainsWhitespace
      else if starts_with raw ''/'' then
        (if starts_with raw ''//'' then Inl AuthorityForm else Inr (parse_origin_form raw))
      else if contains_str raw ''://'' then Inl AbsoluteUri
      else if contains_char raw CHR ''@'' \<or> contains_char raw CHR '':'' then Inl AuthorityForm
      else Inl NotOriginForm)"

text \<open>\<^verbatim>\<open>scheme.bytes().enumerate().all(..)\<close>, with the index of the byte.\<close>

fun scheme_chars :: "nat \<Rightarrow> string \<Rightarrow> bool" where
  "scheme_chars i [] = True"
| "scheme_chars i (b # s) =
     ((is_ascii_alphabetic b
       \<or> (i > 0 \<and> (is_ascii_digit b \<or> b = CHR ''+'' \<or> b = CHR ''-'' \<or> b = CHR ''.'')))
      \<and> scheme_chars (Suc i) s)"

definition from_absolute_components ::
  "string \<Rightarrow> authority \<Rightarrow> string \<Rightarrow> request_target_error + request_target" where
  [rust_eval]: "from_absolute_components scheme authority pq =
     (if scheme = [] \<or> \<not> scheme_chars 0 scheme \<or> \<not> is_ascii_alphabetic (hd scheme)
         \<or> starts_with pq ''//''
      then Inl AbsoluteUri
      else if list_ex target_byte_bad pq then Inl ContainsWhitespace
      else
        let path = (if pq = [] then ''/'' else pq) in
        if \<not> starts_with path ''/'' then Inl NotOriginForm
        else
          let raw = scheme @ ''://'' @ authority_str authority @ path;
              path_start = length scheme + 3 + length (authority_str authority);
              path_end = path_start + find_or_len path CHR ''?''
          in Inr \<lparr>rt_raw = raw, rt_form = AbsoluteForm, rt_scheme = Some scheme,
                  rt_authority = Some authority, rt_path_start = path_start,
                  rt_path_end = path_end,
                  rt_query_start = query_start_of path_end (length raw)\<rparr>)"

definition rt_path :: "request_target \<Rightarrow> string" where
  [rust_eval]: "rt_path t = drop (rt_path_start t) (take (rt_path_end t) (rt_raw t))"

definition rt_query :: "request_target \<Rightarrow> string option" where
  [rust_eval]: "rt_query t = map_option (\<lambda>start. drop start (rt_raw t)) (rt_query_start t)"

definition rt_path_and_query :: "request_target \<Rightarrow> string" where
  [rust_eval]: "rt_path_and_query t = drop (rt_path_start t) (rt_raw t)"

section \<open>Invariant\<close>

text \<open>Every accessor slices in bounds, and the slices are what their names say.\<close>

definition target_wf :: "request_target \<Rightarrow> bool" where
  "target_wf t \<longleftrightarrow>
     rt_path_start t \<le> rt_path_end t \<and> rt_path_end t \<le> length (rt_raw t)
     \<and> (case rt_query_start t of None \<Rightarrow> True | Some q \<Rightarrow> q < length (rt_raw t))
     \<and> starts_with (rt_path t) ''/'' \<and> CHR ''?'' \<notin> set (rt_path t)
     \<and> list_all (\<lambda>c. \<not> target_byte_bad c) (rt_path_and_query t)
     \<and> (case rt_query t of
          None \<Rightarrow> rt_path_and_query t \<in> {rt_path t, rt_path t @ ''?''}
        | Some q \<Rightarrow> q \<noteq> [] \<and> rt_path_and_query t = rt_path t @ ''?'' @ q)"

lemma find_or_len_le: "find_or_len s c \<le> length s"
  by (auto simp: find_or_len_def split: option.splits dest: find_char_SomeD)

lemma find_or_len_take: "c \<notin> set (take (find_or_len s c) s)"
  by (auto simp: find_or_len_def find_char_None split: option.splits dest: find_char_SomeD)

lemma find_or_len_drop:
  "find_or_len s c < length s \<Longrightarrow> drop (find_or_len s c) s = c # drop (Suc (find_or_len s c)) s"
  by (auto simp: find_or_len_def split: option.splits dest!: find_char_SomeD
      simp flip: Cons_nth_drop_Suc)

text \<open>The slices at the first question mark of a path-and-query string behind a prefix.\<close>

lemma query_split:
  fixes pre pq :: string
  defines "e \<equiv> length pre + find_or_len pq CHR ''?''"
  defines "raw \<equiv> pre @ pq"
  shows "case query_start_of e (length raw) of
           None \<Rightarrow> pq \<in> {take (e - length pre) pq, take (e - length pre) pq @ ''?''}
         | Some q \<Rightarrow> q < length raw \<and> drop q raw \<noteq> []
                    \<and> pq = take (e - length pre) pq @ ''?'' @ drop q raw"
proof -
  let ?i = "find_or_len pq CHR ''?''"
  have le: "?i \<le> length pq" by (rule find_or_len_le)
  consider (none) "?i = length pq" | (bare) "Suc ?i = length pq" | (some) "Suc ?i < length pq"
    using le by linarith
  then show ?thesis
  proof cases
    case none
    then show ?thesis by (simp add: query_start_of_def e_def raw_def)
  next
    case bare
    then have "drop ?i pq = ''?''" using find_or_len_drop [of pq "CHR ''?''"] by simp
    then have "pq = take ?i pq @ ''?''" by (metis append_take_drop_id)
    with bare show ?thesis by (simp add: query_start_of_def e_def raw_def)
  next
    case some
    then have "drop ?i pq = CHR ''?'' # drop (Suc ?i) pq"
      using find_or_len_drop [of pq "CHR ''?''"] by simp
    then have "pq = take ?i pq @ CHR ''?'' # drop (Suc ?i) pq" by (metis append_take_drop_id)
    with some show ?thesis
      by (simp add: query_start_of_def e_def raw_def)
  qed
qed

lemma path_slash: "starts_with pq ''/'' \<Longrightarrow> starts_with (take (find_or_len pq CHR ''?'') pq) ''/''"
  by (cases pq) (auto simp: starts_with_def find_or_len_def split: option.splits)

text \<open>The common shape of both constructors: a prefix and a path-and-query string.\<close>

lemma target_wf_prefix:
  assumes "starts_with pq ''/''" and "\<not> list_ex target_byte_bad pq"
    and "rt_raw t = pre @ pq" and "rt_path_start t = length pre"
    and "rt_path_end t = length pre + find_or_len pq CHR ''?''"
    and "rt_query_start t = query_start_of (rt_path_end t) (length (rt_raw t))"
  shows "target_wf t \<and> rt_path_and_query t = pq"
proof -
  have path: "rt_path t = take (find_or_len pq CHR ''?'') pq"
    using assms by (simp add: rt_path_def)
  have pq: "rt_path_and_query t = pq"
    using assms by (simp add: rt_path_and_query_def)
  have bad: "list_all (\<lambda>c. \<not> target_byte_bad c) pq"
    using assms(2) by (simp add: list_all_iff list_ex_iff)
  have bounds: "rt_path_end t \<le> length (rt_raw t)"
    using assms find_or_len_le [of pq] by simp
  show ?thesis
    unfolding target_wf_def path pq
    using path_slash [OF assms(1)] find_or_len_take [of "CHR ''?''" pq] bad bounds assms
      query_split [where pre = pre and pq = pq]
    by (simp add: rt_query_def split: option.splits)
qed

section \<open>Properties\<close>

lemma not_bad_slash: "\<not> target_byte_bad CHR ''/''"
  by (simp add: target_byte_bad_def is_ascii_control_def is_ascii_whitespace_def)

lemma parse_target_InrD:
  "parse_target raw = Inr t \<Longrightarrow>
   starts_with raw ''/'' \<and> \<not> starts_with raw ''//'' \<and> \<not> list_ex target_byte_bad raw
   \<and> t = parse_origin_form raw"
  by (auto simp: parse_target_def split: if_splits)

lemma parse_target_wf:
  assumes "parse_target raw = Inr t"
  shows "target_wf t \<and> rt_path_and_query t = raw"
  using parse_target_InrD [OF assms]
  by (intro target_wf_prefix [where pre = "[]"]) (auto simp: parse_origin_form_def Let_def)

lemma absolute_components_wf:
  assumes "from_absolute_components scheme auth pq = Inr t"
  shows "target_wf t \<and> rt_path_and_query t = (if pq = [] then ''/'' else pq)
     \<and> rt_raw t = scheme @ ''://'' @ authority_str auth @ rt_path_and_query t"
proof -
  let ?pq = "if pq = [] then ''/'' else pq"
  have "target_wf t \<and> rt_path_and_query t = ?pq"
    using assms not_bad_slash
    by (intro target_wf_prefix [where pre = "scheme @ ''://'' @ authority_str auth"])
      (auto simp: from_absolute_components_def Let_def split: if_splits)
  moreover have "rt_raw t = scheme @ ''://'' @ authority_str auth @ ?pq"
    using assms by (auto simp: from_absolute_components_def Let_def split: if_splits)
  ultimately show ?thesis by simp
qed

lemma parse_authority_InrD:
  assumes "parse_authority v = Inr a"
  shows "authority_str a = trim_matches_ows v \<and> authority_str a \<noteq> []
    \<and> list_all is_ascii (authority_str a) \<and> \<not> list_ex authority_forbidden (authority_str a)"
  using assms by (auto simp: parse_authority_def Let_def result_inv split: if_splits)

lemma authority_no_slash:
  assumes "parse_authority v = Inr a"
  shows "CHR ''/'' \<notin> set (authority_str a)"
proof
  assume "CHR ''/'' \<in> set (authority_str a)"
  moreover have "authority_forbidden CHR ''/''" by (simp add: authority_forbidden_def)
  ultimately show False using parse_authority_InrD [OF assms] by (metis list_ex_iff)
qed

lemma dropWhile_hd_rev:
  "dropWhile P (rev (dropWhile P s)) = rev s' \<Longrightarrow> s' \<noteq> [] \<Longrightarrow> \<not> P (hd s') \<and> \<not> P (last s')"
proof -
  assume eq: "dropWhile P (rev (dropWhile P s)) = rev s'" and ne: "s' \<noteq> []"
  have "\<not> P (last s')"
    using hd_dropWhile [of P "rev (dropWhile P s)"] eq ne by (simp add: hd_rev)
  moreover have "hd s' = hd (dropWhile P s)"
  proof -
    have "suffix (rev s') (rev (dropWhile P s))"
      by (metis eq suffix_dropWhile)
    then have "prefix s' (dropWhile P s)" by (simp add: suffix_to_prefix)
    then show ?thesis using ne by (auto simp: prefix_def)
  qed
  moreover have "dropWhile P s \<noteq> []"
    by (metis Nil_is_rev_conv dropWhile.simps(1) eq ne)
  ultimately show ?thesis using hd_dropWhile [of P s] by simp
qed

lemma trim_matches_ows_idem: "trim_matches_ows (trim_matches_ows v) = trim_matches_ows v"
proof (cases "trim_matches_ows v = []")
  case True
  then show ?thesis by (simp only: True) (simp add: trim_matches_ows_def)
next
  case False
  let ?w = "trim_matches_ows v"
  have "\<not> is_ows (hd ?w) \<and> \<not> is_ows (last ?w)"
    by (rule dropWhile_hd_rev [OF _ False, of is_ows v]) (simp add: trim_matches_ows_def)
  then have "dropWhile is_ows ?w = ?w" and "dropWhile is_ows (rev ?w) = rev ?w"
    using False by (auto simp: dropWhile_eq_self_iff hd_rev)
  then show ?thesis by (simp add: trim_matches_ows_def [of ?w])
qed

lemma parse_authority_idem:
  assumes "parse_authority v = Inr a"
  shows "parse_authority (authority_str a) = Inr a"
  using assms by (auto simp: parse_authority_def Let_def trim_matches_ows_idem result_inv split: if_splits)

lemma find_char_append_notin: "c \<notin> set s \<Longrightarrow> find_char (s @ c # t) c = Some (length s)"
  by (induction s) auto

text \<open>
  C33: the accessors of a parsed target cannot panic and lose nothing.  Every slice of an origin-form
  target is in bounds, the path starts with a slash and contains no question mark, no byte is a
  control or white-space byte, and path and query together are the raw text.
\<close>

theorem parse_target_sound:
  assumes "parse_target raw = Inr t"
  shows "target_wf t \<and> rt_path_and_query t = raw \<and> rt_raw t = raw
    \<and> \<not> starts_with raw ''//'' \<and> rt_authority t = None"
  using parse_target_wf [OF assms] parse_target_InrD [OF assms]
  by (simp add: parse_origin_form_def Let_def)

theorem parse_target_sound_witness:
  "parse_target ''/a?b=c'' = Inr (parse_origin_form ''/a?b=c'')
   \<and> rt_path (parse_origin_form ''/a?b=c'') = ''/a''
   \<and> rt_query (parse_origin_form ''/a?b=c'') = Some ''b=c''
   \<and> target_wf (parse_origin_form ''/a?b=c'')"
proof -
  have h: "parse_target ''/a?b=c'' = Inr (parse_origin_form ''/a?b=c'')"
    by (simp add: parse_target_def target_byte_bad_def ascii_class starts_with_def)
  show ?thesis using parse_target_sound [OF h] h by (simp add: rust_eval)
qed

text \<open>
  an absolute-form target is unambiguous.  Built from a scheme, a parsed authority and a
  path-and-query text, its raw text is the three parts in order, the first slash after the scheme
  separator is where the path starts, so the authority can be read back, and the path accessors
  are in bounds.
\<close>

lemma absolute_target_sound:
  assumes "parse_authority v = Inr auth" and "from_absolute_components scheme auth pq = Inr t"
  shows "target_wf t
    \<and> rt_raw t = scheme @ ''://'' @ authority_str auth @ rt_path_and_query t
    \<and> find_char (drop (length scheme + 3) (rt_raw t)) CHR ''/'' = Some (length (authority_str auth))
    \<and> rt_path_start t = length scheme + 3 + length (authority_str auth)
    \<and> parse_authority (authority_str auth) = Inr auth"
proof -
  note wf = absolute_components_wf [OF assms(2)]
  have "CHR ''/'' \<notin> set (authority_str auth)"
    by (rule authority_no_slash [OF assms(1)])
  moreover obtain p where "rt_path_and_query t = CHR ''/'' # p"
    using assms(2) wf by (auto simp: from_absolute_components_def Let_def starts_with_def prefix_def
        split: if_splits)
  ultimately have "find_char (drop (length scheme + 3) (rt_raw t)) CHR ''/''
      = Some (length (authority_str auth))"
    using wf by (simp add: find_char_append_notin)
  moreover have "rt_path_start t = length scheme + 3 + length (authority_str auth)"
    using assms(2) by (auto simp: from_absolute_components_def Let_def split: if_splits)
  ultimately show ?thesis using wf parse_authority_idem [OF assms(1)] by blast
qed

lemma absolute_target_sound_witness:
  "\<exists>t. from_absolute_components ''http'' (Authority ''[::1]:80'') ''/x?y'' = Inr t
     \<and> rt_path t = ''/x'' \<and> rt_raw t = ''http://[::1]:80/x?y'' \<and> target_wf t"
proof -
  have a: "parse_authority '' [::1]:80'' = Inr (Authority ''[::1]:80'')"
    by (simp add: rust_eval)
  let ?t = "\<lparr>rt_raw = ''http://[::1]:80/x?y'', rt_form = AbsoluteForm, rt_scheme = Some ''http'',
    rt_authority = Some (Authority ''[::1]:80''), rt_path_start = 15, rt_path_end = 17,
    rt_query_start = Some 18\<rparr>"
  have t: "from_absolute_components ''http'' (Authority ''[::1]:80'') ''/x?y'' = Inr ?t"
    by (simp add: rust_eval)
  have p: "rt_path ?t = ''/x''" by (simp add: rt_path_def)
  have w: "target_wf ?t" using absolute_target_sound [OF a t] by (rule conjunct1)
  show ?thesis by (intro exI [of _ ?t] conjI t p w) simp
qed

end
