(* ===== verification/Confined_Path.thy ===== *)
theory Confined_Path
  imports Request_Target
begin

text \<open>
  Path confinement: \<^verbatim>\<open>eggserve-static/src/path\<close>.

  A request target is percent-decoded, normalised, split at slashes and every component is
  validated; only then does a \<open>confined_path\<close> exist.  The definitions follow the files
  \<^verbatim>\<open>rejected.rs\<close>, \<^verbatim>\<open>policy.rs\<close>, \<^verbatim>\<open>decode.rs\<close>, \<^verbatim>\<open>platform.rs\<close>, \<^verbatim>\<open>components.rs\<close> and \<^verbatim>\<open>mod.rs\<close>, in this
  order.  A \<^verbatim>\<open>&str\<close> argument is a byte string with \<^const>\<open>utf8_valid\<close>.

  The theorems state what the layer promises to the filesystem layer below it: the components of
  an admitted path cannot leave the directory they are resolved in, decoding never creates or
  removes a separator, the fast path for already normalised targets agrees with the general one,
  and the stored text and the stored components describe the same path.
\<close>

section \<open>Rejections and policy\<close>

datatype path_rejection =
    PathEmpty | TooLong | UnsupportedUriForm | MalformedPercentEncoding | InvalidUtf8 | NulByte
  | ControlCharacter | AbsolutePath | ParentComponent | CurrentComponent | SeparatorAmbiguity
  | DotfileDenied | WindowsPrefixDenied | WindowsReservedNameDenied
  | WindowsAlternateStreamDenied | SymlinkDenied | RootEscapeDenied

datatype path_dotfile_policy = DotfilesDenied | DotfilesAllow

record path_policy =
  dotfiles :: path_dotfile_policy
  reject_backslash :: bool

definition default_path_policy :: path_policy where
  [rust_eval]: "default_path_policy = \<lparr>dotfiles = DotfilesDenied, reject_backslash = True\<rparr>"

definition check_dotfile :: "path_policy \<Rightarrow> string \<Rightarrow> path_rejection + unit" where
  [rust_eval]: "check_dotfile policy component =
     (if dotfiles policy = DotfilesDenied \<and> starts_with component ''.''
      then Inl DotfileDenied else Inr ())"

definition check_backslash :: "path_policy \<Rightarrow> string \<Rightarrow> path_rejection + unit" where
  [rust_eval]: "check_backslash policy component =
     (if reject_backslash policy \<and> contains_char component CHR 0x5C
      then Inl SeparatorAmbiguity else Inr ())"

section \<open>Percent decoding\<close>

definition hex_digit :: "char \<Rightarrow> nat option" where
  [rust_eval]: "hex_digit b =
     (if 48 \<le> byte b \<and> byte b \<le> 57 then Some (byte b - 48)
      else if 97 \<le> byte b \<and> byte b \<le> 102 then Some (byte b - 97 + 10)
      else if 65 \<le> byte b \<and> byte b \<le> 70 then Some (byte b - 65 + 10)
      else None)"

text \<open>The \<^verbatim>\<open>match byte\<close> on a decoded octet.\<close>

definition check_decoded_octet :: "nat \<Rightarrow> path_rejection + unit" where
  [rust_eval]: "check_decoded_octet b =
     (if b = 0 then Inl NulByte
      else if (1 \<le> b \<and> b \<le> 31) \<or> b = 127 then Inl ControlCharacter
      else if b = 47 \<or> b = 92 then Inl SeparatorAmbiguity
      else Inr ())"

text \<open>The loop of \<^verbatim>\<open>percent_decode\<close>, on the bytes from index \<open>i\<close> on.\<close>

fun decode_bytes :: "bytes \<Rightarrow> path_rejection + bytes" where
  "decode_bytes [] = Inr []"
| "decode_bytes (b # s) =
     (if b = CHR ''%'' then
        (case s of
           h # l # rest \<Rightarrow>
             and_then (ok_or MalformedPercentEncoding (hex_digit h)) (\<lambda>hi.
             and_then (ok_or MalformedPercentEncoding (hex_digit l)) (\<lambda>lo.
             and_then (check_decoded_octet (16 * hi + lo)) (\<lambda>_.
             and_then (decode_bytes rest) (\<lambda>result.
             Inr (char_of (16 * hi + lo) # result)))))
         | _ \<Rightarrow> Inl MalformedPercentEncoding)
      else if is_ascii_control b then Inl (if byte b = 0 then NulByte else ControlCharacter)
      else and_then (decode_bytes s) (\<lambda>result. Inr (b # result)))"

definition percent_decode :: "string \<Rightarrow> path_rejection + string" where
  [rust_eval]: "percent_decode input =
     and_then (decode_bytes input) (\<lambda>result.
       if utf8_valid result then Inr result else Inl InvalidUtf8)"

section \<open>Platform hazards\<close>

definition has_windows_drive_prefix :: "string \<Rightarrow> bool" where
  [rust_eval]: "has_windows_drive_prefix component =
     (case component of a # b # _ \<Rightarrow> is_ascii_alphabetic a \<and> b = CHR '':'' | _ \<Rightarrow> False)"

definition strip_trailing_dots :: "string \<Rightarrow> string" where
  [rust_eval]: "strip_trailing_dots s = trim_end_matches CHR ''.'' s"

definition windows_reserved_names :: "string list" where
  [rust_eval]: "windows_reserved_names =
     [''CON'', ''PRN'', ''AUX'', ''NUL'',
      ''COM1'', ''COM2'', ''COM3'', ''COM4'', ''COM5'', ''COM6'', ''COM7'', ''COM8'', ''COM9'',
      ''LPT1'', ''LPT2'', ''LPT3'', ''LPT4'', ''LPT5'', ''LPT6'', ''LPT7'', ''LPT8'', ''LPT9'']"

definition is_windows_reserved_name :: "string \<Rightarrow> bool" where
  [rust_eval]: "is_windows_reserved_name component =
     (let name = strip_trailing_dots (hd (split_char CHR ''.'' component)) in
      name \<noteq> [] \<and> to_ascii_uppercase name \<in> set windows_reserved_names)"

definition check_component :: "string \<Rightarrow> path_rejection + unit" where
  [rust_eval]: "check_component component =
     (if has_windows_drive_prefix component then Inl WindowsPrefixDenied
      else if contains_char component CHR '':'' then Inl WindowsAlternateStreamDenied
      else if is_windows_reserved_name component then Inl WindowsReservedNameDenied
      else if ends_with component ''.'' \<or> ends_with component '' '' then Inl WindowsReservedNameDenied
      else Inr ())"

section \<open>Components\<close>

text \<open>The second decode attempt on a component that still contains a percent sign.\<close>

definition check_double_encoding :: "string \<Rightarrow> path_rejection + unit" where
  [rust_eval]: "check_double_encoding component =
     (if contains_char component CHR ''%'' then
        (case percent_decode component of
           Inr decoded \<Rightarrow>
             (if decoded = ''.'' then Inl CurrentComponent
              else if decoded = ''..'' then Inl ParentComponent else Inr ())
         | Inl _ \<Rightarrow> Inr ())
      else Inr ())"

text \<open>One iteration of the loop of \<^verbatim>\<open>validate_components\<close>.\<close>

definition validate_component :: "path_policy \<Rightarrow> string \<Rightarrow> path_rejection + unit" where
  [rust_eval]: "validate_component policy component =
     (if component = [] then Inl PathEmpty
      else if contains_char component CHR 0x00 then Inl NulByte
      else if list_ex is_ascii_control component then Inl ControlCharacter
      else if contains_char component CHR ''/'' then Inl SeparatorAmbiguity
      else if component = ''.'' then Inl CurrentComponent
      else if component = ''..'' then Inl ParentComponent
      else if reject_backslash policy \<and> contains_char component CHR 0x5C then Inl SeparatorAmbiguity
      else if dotfiles policy = DotfilesDenied \<and> starts_with component ''.'' then Inl DotfileDenied
      else and_then (check_double_encoding component) (\<lambda>_. check_component component))"

fun validate_components :: "path_policy \<Rightarrow> string list \<Rightarrow> path_rejection + unit" where
  "validate_components policy [] = Inr ()"
| "validate_components policy (c # cs) =
     and_then (validate_component policy c) (\<lambda>_. validate_components policy cs)"

definition split_components :: "string \<Rightarrow> string list" where
  [rust_eval]: "split_components path = filter (\<lambda>s. s \<noteq> []) (split_char CHR ''/'' path)"

text \<open>The loop of \<^verbatim>\<open>normalize_path\<close>, with its flag \<^verbatim>\<open>prev_was_slash\<close>.\<close>

fun collapse_slashes :: "bool \<Rightarrow> string \<Rightarrow> string" where
  "collapse_slashes prev_was_slash [] = []"
| "collapse_slashes prev_was_slash (c # s) =
     (if c = CHR ''/'' then
        (if prev_was_slash then collapse_slashes True s else c # collapse_slashes True s)
      else c # collapse_slashes False s)"

definition normalize_path :: "string \<Rightarrow> string" where
  [rust_eval]: "normalize_path path =
     (if path = ''/'' then [] else collapse_slashes False (trim_start_matches CHR ''/'' path))"

section \<open>Confined paths\<close>

record confined_path =
  cp_decoded :: string
  cp_components :: "string list"
  cp_policy :: path_policy

text \<open>The first branch of \<^verbatim>\<open>from_path_component\<close>: the target is kept as it is.\<close>

definition fast_path :: "string \<Rightarrow> path_policy \<Rightarrow> path_rejection + confined_path" where
  [rust_eval]: "fast_path path policy =
     (let components = split_components path in
      and_then (validate_components policy components) (\<lambda>_.
        Inr \<lparr>cp_decoded = path, cp_components = components, cp_policy = policy\<rparr>))"

text \<open>The rest of \<^verbatim>\<open>from_path_component\<close>: decode, normalise, split, validate.\<close>

definition general_path :: "string \<Rightarrow> path_policy \<Rightarrow> path_rejection + confined_path" where
  [rust_eval]: "general_path path policy =
     and_then (percent_decode path) (\<lambda>decoded.
       let normalized = normalize_path decoded;
           normalized_path = (if normalized = [] then ''/'' else CHR ''/'' # normalized);
           parts = split_components normalized
       in and_then (validate_components policy parts) (\<lambda>_.
            Inr \<lparr>cp_decoded = normalized_path, cp_components = parts, cp_policy = policy\<rparr>))"

definition already_normalized :: "string \<Rightarrow> bool" where
  [rust_eval]: "already_normalized path \<longleftrightarrow>
     starts_with path ''/'' \<and> \<not> contains_char path CHR ''%'' \<and> \<not> contains_str path ''//''"

definition from_path_component :: "string \<Rightarrow> path_policy \<Rightarrow> path_rejection + confined_path" where
  [rust_eval]: "from_path_component path policy =
     (if already_normalized path then fast_path path policy else general_path path policy)"

definition target_rejection :: "request_target_error \<Rightarrow> path_rejection" where
  [rust_eval]: "target_rejection e =
     (case e of TargetEmpty \<Rightarrow> PathEmpty | ContainsWhitespace \<Rightarrow> UnsupportedUriForm
      | _ \<Rightarrow> UnsupportedUriForm)"

definition parse_confined :: "string \<Rightarrow> path_policy \<Rightarrow> path_rejection + confined_path" where
  [rust_eval]: "parse_confined raw policy =
     (if 8192 < length raw then Inl TooLong
      else if contains_char raw CHR 0x00 then Inl NulByte
      else and_then (map_err target_rejection (parse_target raw)) (\<lambda>target.
        from_path_component (rt_path target) policy))"

section \<open>What a component has to satisfy\<close>

definition safe_component :: "path_policy \<Rightarrow> string \<Rightarrow> bool" where
  "safe_component policy c \<longleftrightarrow>
     c \<noteq> [] \<and> CHR ''/'' \<notin> set c \<and> \<not> list_ex is_ascii_control c \<and> c \<noteq> ''.'' \<and> c \<noteq> ''..''
     \<and> (reject_backslash policy \<longrightarrow> CHR 0x5C \<notin> set c)
     \<and> (dotfiles policy = DotfilesDenied \<longrightarrow> \<not> starts_with c ''.'')
     \<and> (\<forall>d. percent_decode c = Inr d \<longrightarrow> d \<noteq> ''.'' \<and> d \<noteq> ''..'')
     \<and> CHR '':'' \<notin> set c \<and> \<not> is_windows_reserved_name c
     \<and> \<not> ends_with c ''.'' \<and> \<not> ends_with c '' ''"

text \<open>
  The lexical meaning of a list of names relative to a directory, with the two names that every
  filesystem gives a special meaning.  This is the specification the confinement theorem is
  stated against; the code never computes it.
\<close>

fun lexical_walk :: "string list \<Rightarrow> string list \<Rightarrow> string list" where
  "lexical_walk cwd [] = cwd"
| "lexical_walk cwd (c # cs) =
     lexical_walk (if c = ''.'' then cwd else if c = ''..'' then butlast cwd else cwd @ [c]) cs"

section \<open>Decoding lemmas\<close>

lemma decode_bytes_plain:
  "CHR ''%'' \<notin> set s \<Longrightarrow> \<not> list_ex is_ascii_control s \<Longrightarrow> decode_bytes s = Inr s"
  by (induction s) auto

lemma decode_bytes_control:
  "CHR ''%'' \<notin> set s \<Longrightarrow> list_ex is_ascii_control s \<Longrightarrow> \<exists>e. decode_bytes s = Inl e"
  by (induction s) auto

lemma check_decoded_octet_ok:
  "check_decoded_octet b = Inr u \<Longrightarrow> 32 \<le> b \<and> b \<noteq> 127 \<and> b \<noteq> 47 \<and> b \<noteq> 92"
  by (auto simp: check_decoded_octet_def split: if_splits)

lemma hex_digit_less: "hex_digit b = Some n \<Longrightarrow> n < 16"
  by (auto simp: hex_digit_def split: if_splits)

lemma hex_digit_slash [simp]: "hex_digit CHR ''/'' = None"
  by (simp add: hex_digit_def)

lemma byte_hex_pair:
  assumes "hex_digit h = Some hi" and "hex_digit l = Some lo"
  shows "byte (char_of (16 * hi + lo)) = 16 * hi + lo"
  using hex_digit_less [OF assms(1)] hex_digit_less [OF assms(2)] by simp

text \<open>What one step of the decoder does on a well-formed escape.\<close>

lemma decode_bytes_escape_Inr:
  "decode_bytes (CHR ''%'' # h # l # rest) = Inr d \<longleftrightarrow>
   (\<exists>hi lo r. hex_digit h = Some hi \<and> hex_digit l = Some lo
      \<and> check_decoded_octet (16 * hi + lo) = Inr () \<and> decode_bytes rest = Inr r
      \<and> d = char_of (16 * hi + lo) # r)"
  by (auto simp: result_inv)

lemma decode_bytes_literal_Inr:
  "b \<noteq> CHR ''%'' \<Longrightarrow> decode_bytes (b # s) = Inr d \<longleftrightarrow>
   \<not> is_ascii_control b \<and> (\<exists>r. decode_bytes s = Inr r \<and> d = b # r)"
  by (auto simp: result_inv)

lemma decode_bytes_percent_short:
  "decode_bytes [CHR ''%''] = Inl MalformedPercentEncoding"
  "decode_bytes [CHR ''%'', h] = Inl MalformedPercentEncoding"
  by simp_all

lemmas decode_bytes_inv = decode_bytes_escape_Inr decode_bytes_literal_Inr decode_bytes_percent_short

text \<open>Induction along the decoder: the end, a literal byte, an escape, a truncated escape.\<close>

lemma decode_induct [case_names Nil Literal Escape Short]:
  assumes "P []"
    and "\<And>b s. b \<noteq> CHR ''%'' \<Longrightarrow> P s \<Longrightarrow> P (b # s)"
    and "\<And>h l rest. P rest \<Longrightarrow> P (CHR ''%'' # h # l # rest)"
    and "\<And>s. length s < 2 \<Longrightarrow> P (CHR ''%'' # s)"
  shows "P s"
proof (induction s rule: length_induct)
  case (1 s)
  then have IH: "length t < length s \<Longrightarrow> P t" for t by blast
  show ?case
  proof (cases s)
    case Nil
    then show ?thesis using assms(1) by simp
  next
    case (Cons b t)
    show ?thesis
    proof (cases "b = CHR ''%''")
      case False
      with Cons IH show ?thesis using assms(2) by simp
    next
      case True
      with Cons IH show ?thesis
        using assms(3) [of "tl (tl t)" "hd t" "hd (tl t)"] assms(4) [of t]
        by (cases t rule: strip_ws.cases) auto
    qed
  qed
qed

lemma decode_bytes_no_control: "decode_bytes s = Inr d \<Longrightarrow> \<not> list_ex is_ascii_control d"
proof (induction s arbitrary: d rule: decode_induct)
  case (Escape h l rest)
  then show ?case
    by (auto simp: decode_bytes_inv is_ascii_control_def byte_hex_pair simp del: decode_bytes.simps of_char_of
        dest!: check_decoded_octet_ok)
next
  case (Short s)
  then show ?case by (cases s) (auto simp: decode_bytes_inv simp del: decode_bytes.simps)
qed (auto simp: decode_bytes_inv simp del: decode_bytes.simps(2))

text \<open>An escape never decodes to a slash, so a slash of the result is a slash of the input.\<close>

lemma decode_bytes_no_slash:
  "decode_bytes s = Inr d \<Longrightarrow> CHR ''/'' \<notin> set s \<Longrightarrow> CHR ''/'' \<notin> set d"
proof (induction s arbitrary: d rule: decode_induct)
  case (Escape h l rest)
  then obtain hi lo r where d: "d = char_of (16 * hi + lo) # r" and "decode_bytes rest = Inr r"
    and "hex_digit h = Some hi" "hex_digit l = Some lo"
    and ok: "check_decoded_octet (16 * hi + lo) = Inr ()"
    by (auto simp: decode_bytes_inv simp del: decode_bytes.simps)
  then have "byte (char_of (16 * hi + lo)) \<noteq> 47"
    using check_decoded_octet_ok [OF ok] by (simp only: byte_hex_pair) simp
  then have "char_of (16 * hi + lo) \<noteq> CHR ''/''" by auto
  with Escape d \<open>decode_bytes rest = Inr r\<close> show ?case by auto
next
  case (Short s)
  then show ?case by (cases s) (auto simp: decode_bytes_inv simp del: decode_bytes.simps)
qed (auto simp: decode_bytes_inv simp del: decode_bytes.simps(2))

lemma decode_bytes_at_slash:
  "decode_bytes (a @ CHR ''/'' # b) = Inr d \<Longrightarrow>
   \<exists>x y. decode_bytes a = Inr x \<and> decode_bytes b = Inr y \<and> d = x @ CHR ''/'' # y"
proof (induction a arbitrary: d rule: decode_induct)
  case Nil
  then show ?case by (auto simp: result_inv split: if_splits)
next
  case (Literal c s)
  then obtain r where "\<not> is_ascii_control c" and "decode_bytes (s @ CHR ''/'' # b) = Inr r"
    and "d = c # r"
    by (auto simp: decode_bytes_inv simp del: decode_bytes.simps)
  with Literal show ?case by fastforce
next
  case (Escape h l rest)
  then obtain hi lo r where "hex_digit h = Some hi" "hex_digit l = Some lo"
    "check_decoded_octet (16 * hi + lo) = Inr ()" "decode_bytes (rest @ CHR ''/'' # b) = Inr r"
    "d = char_of (16 * hi + lo) # r"
    by (auto simp: decode_bytes_inv simp del: decode_bytes.simps)
  with Escape.IH [of r] show ?case by auto
next
  case (Short s)
  then show ?case
    by (cases s; cases b) (auto simp: result_inv split: if_splits list.splits)
qed

lemma decode_bytes_pieces:
  "decode_bytes s = Inr d \<Longrightarrow>
   list_all2 (\<lambda>p q. decode_bytes p = Inr q) (split_char CHR ''/'' s) (split_char CHR ''/'' d)"
proof (induction s arbitrary: d rule: length_induct)
  case (1 s)
  show ?case
  proof (cases "split_once_char CHR ''/'' s")
    case None
    then have "CHR ''/'' \<notin> set s" by (simp add: split_once_char_None)
    moreover from this "1.prems" have "CHR ''/'' \<notin> set d" by (rule decode_bytes_no_slash [rotated])
    ultimately show ?thesis using "1.prems" by (simp add: split_char_no_sep)
  next
    case (Some ab)
    then obtain a b where s: "s = a @ CHR ''/'' # b" and a: "CHR ''/'' \<notin> set a"
      by (metis split_once_char_SomeD surj_pair)
    with "1.prems" obtain x y where xy: "decode_bytes a = Inr x" "decode_bytes b = Inr y"
      and d: "d = x @ CHR ''/'' # y"
      using decode_bytes_at_slash by blast
    have "CHR ''/'' \<notin> set x" using xy(1) a by (rule decode_bytes_no_slash)
    then show ?thesis
      using 1(1) s a d xy by (simp add: split_char_no_sep_Cons)
  qed
qed

lemma percent_decode_InrD: "percent_decode s = Inr d \<Longrightarrow> decode_bytes s = Inr d \<and> utf8_valid d"
  by (auto simp: percent_decode_def result_inv split: if_splits)

section \<open>Validation lemmas\<close>

lemma percent_decode_plain:
  "CHR ''%'' \<notin> set c \<Longrightarrow> \<not> list_ex is_ascii_control c \<Longrightarrow> percent_decode c = Inr d \<Longrightarrow> d = c"
  by (auto simp: percent_decode_def decode_bytes_plain split: if_splits)

lemma check_double_encoding_ok:
  assumes "\<not> list_ex is_ascii_control c" and "c \<noteq> ''.''" and "c \<noteq> ''..''"
  shows "check_double_encoding c = Inr () \<longleftrightarrow>
     (\<forall>d. percent_decode c = Inr d \<longrightarrow> d \<noteq> ''.'' \<and> d \<noteq> ''..'')"
  using assms
  by (auto simp: check_double_encoding_def contains_char_def split: sum.splits
      dest!: percent_decode_plain [rotated 2])

lemma check_component_ok:
  "check_component c = Inr () \<longleftrightarrow>
   CHR '':'' \<notin> set c \<and> \<not> is_windows_reserved_name c \<and> \<not> ends_with c ''.'' \<and> \<not> ends_with c '' ''"
  by (auto simp: check_component_def contains_char_def has_windows_drive_prefix_def split: list.splits)

lemma nul_is_control: "CHR 0x00 \<in> set c \<Longrightarrow> list_ex is_ascii_control c"
  by (force simp: list_ex_iff is_ascii_control_def)

text \<open>Validation accepts exactly the safe components.\<close>

lemma validate_component_iff: "validate_component policy c = Inr () \<longleftrightarrow> safe_component policy c"
  using check_double_encoding_ok [of c] nul_is_control [of c]
  by (auto simp: validate_component_def safe_component_def contains_char_def check_component_ok
      result_inv)

lemma validate_components_iff:
  "validate_components policy cs = Inr () \<longleftrightarrow> list_all (safe_component policy) cs"
  by (induction cs) (auto simp: result_inv validate_component_iff)

section \<open>Normalisation lemmas\<close>

lemma split_components_Cons_slash [simp]:
  "split_components (CHR ''/'' # s) = split_components s"
  by (simp add: split_components_def)

lemma split_components_piece:
  "c \<in> set (split_components s) \<Longrightarrow> c \<noteq> [] \<and> CHR ''/'' \<notin> set c \<and> set c \<subseteq> set s"
  by (auto simp: split_components_def dest: split_char_piece split_char_subset)

lemma split_components_covers:
  "x \<in> set s \<Longrightarrow> x \<noteq> CHR ''/'' \<Longrightarrow> \<exists>c\<in>set (split_components s). x \<in> set c"
proof -
  assume x: "x \<in> set s" and ne: "x \<noteq> CHR ''/''"
  have "set s \<subseteq> insert (CHR ''/'') (\<Union>w\<in>set (split_char CHR ''/'' s). set w)"
    using set_join_char [of "CHR ''/''" "split_char CHR ''/'' s"] by (simp add: join_split_char)
  with x ne obtain w where "w \<in> set (split_char CHR ''/'' s)" and "x \<in> set w" by auto
  then show ?thesis by (auto simp: split_components_def)
qed

lemma split_components_trim: "split_components (trim_start_matches CHR ''/'' s) = split_components s"
  by (induction s) (auto simp: trim_start_matches_def)

lemma split_char_collapse:
  fixes s :: string
  defines "ne \<equiv> filter (\<lambda>w. w \<noteq> [])"
  shows "hd (split_char CHR ''/'' (collapse_slashes False s)) = hd (split_char CHR ''/'' s)
    \<and> ne (tl (split_char CHR ''/'' (collapse_slashes False s))) = ne (tl (split_char CHR ''/'' s))
    \<and> ne (split_char CHR ''/'' (collapse_slashes True s)) = ne (split_char CHR ''/'' s)"
  by (induction s) (auto simp: ne_def)

lemma split_components_collapse: "split_components (collapse_slashes p s) = split_components s"
proof (cases p)
  case True
  then show ?thesis using split_char_collapse [of s] by (simp add: split_components_def)
next
  case False
  obtain w ws where s: "split_char CHR ''/'' s = w # ws"
    by (cases "split_char CHR ''/'' s") auto
  obtain v vs where c: "split_char CHR ''/'' (collapse_slashes False s) = v # vs"
    by (cases "split_char CHR ''/'' (collapse_slashes False s)") auto
  show ?thesis
    using split_char_collapse [of s] False s c by (simp add: split_components_def)
qed

lemma split_components_normalize: "split_components (normalize_path d) = split_components d"
  by (simp add: normalize_path_def split_components_collapse split_components_trim)

lemma collapse_slashes_id:
  "\<not> sublist ''//'' (if p then CHR ''/'' # s else s) \<Longrightarrow> collapse_slashes p s = s"
proof (induction s arbitrary: p)
  case (Cons c s)
  then show ?case by (cases p) (auto simp: sublist_Cons_right)
qed simp

lemma collapse_slashes_no_double:
  "\<not> sublist ''//'' (if p then CHR ''/'' # collapse_slashes p s else collapse_slashes p s)"
proof (induction s arbitrary: p)
  case Nil
  then show ?case by (simp add: sublist_Cons_right)
next
  case (Cons c s)
  show ?case
    using Cons.IH [of True] Cons.IH [of False]
    by (auto simp: sublist_Cons_right)
qed

lemma trim_start_matches_hd: "\<not> starts_with (trim_start_matches d s) [d]"
  by (induction s) (auto simp: trim_start_matches_def starts_with_def)

lemma normalize_path_shape:
  "\<not> contains_str (CHR ''/'' # normalize_path d) ''//'' \<and> \<not> starts_with (normalize_path d) ''/''"
proof (cases "d = ''/''")
  case True
  then show ?thesis
    by (simp add: normalize_path_def contains_str_def starts_with_def sublist_Cons_right)
next
  case False
  let ?t = "trim_start_matches CHR ''/'' d"
  have hd: "\<not> starts_with ?t ''/''" by (rule trim_start_matches_hd)
  then have eq: "collapse_slashes False ?t = collapse_slashes True ?t"
    by (cases ?t) (auto simp: starts_with_def)
  have "\<not> starts_with (collapse_slashes False ?t) ''/''"
    using hd by (cases ?t) (auto simp: starts_with_def)
  with False eq show ?thesis
    using collapse_slashes_no_double [of True ?t]
    by (simp add: normalize_path_def contains_str_def)
qed

section \<open>Admitted paths\<close>

lemma fast_path_Inr:
  "fast_path path policy = Inr cp \<longleftrightarrow>
   list_all (safe_component policy) (split_components path)
   \<and> cp = \<lparr>cp_decoded = path, cp_components = split_components path, cp_policy = policy\<rparr>"
  by (auto simp: fast_path_def Let_def result_inv validate_components_iff)

lemma general_path_Inr:
  "general_path path policy = Inr cp \<longleftrightarrow>
   (\<exists>d. percent_decode path = Inr d \<and> list_all (safe_component policy) (split_components d)
     \<and> cp = \<lparr>cp_decoded = CHR ''/'' # normalize_path d, cp_components = split_components d,
             cp_policy = policy\<rparr>)"
  by (auto simp: general_path_def Let_def result_inv validate_components_iff
      split_components_normalize)

lemma from_path_component_cases:
  assumes "from_path_component path policy = Inr cp"
  obtains "already_normalized path" "fast_path path policy = Inr cp"
  | "\<not> already_normalized path" "general_path path policy = Inr cp"
  using assms by (auto simp: from_path_component_def split: if_splits)

lemma from_path_component_safe:
  assumes "from_path_component path policy = Inr cp"
  shows "list_all (safe_component policy) (cp_components cp) \<and> cp_policy cp = policy"
  using assms by (cases rule: from_path_component_cases) (auto simp: fast_path_Inr general_path_Inr)

lemma parse_confined_InrD:
  assumes "parse_confined raw policy = Inr cp"
  obtains t where "parse_target raw = Inr t" and "from_path_component (rt_path t) policy = Inr cp"
    and "length raw \<le> 8192"
  using assms by (auto simp: parse_confined_def result_inv split: if_splits)

lemma lexical_walk_safe:
  "list_all (safe_component policy) cs \<Longrightarrow> lexical_walk cwd cs = cwd @ cs"
  by (induction cs arbitrary: cwd) (auto simp: safe_component_def)

lemma safe_components_no_control:
  assumes "list_all (safe_component policy) (split_components path)"
  shows "\<not> list_ex is_ascii_control path"
proof
  assume "list_ex is_ascii_control path"
  then obtain x where x: "x \<in> set path" "is_ascii_control x" by (auto simp: list_ex_iff)
  then have "x \<noteq> CHR ''/''" by (auto simp: is_ascii_control_def)
  then obtain c where "c \<in> set (split_components path)" "x \<in> set c"
    using split_components_covers [OF x(1)] by blast
  with assms x(2) show False by (auto simp: list_all_iff list_ex_iff safe_component_def)
qed

lemma already_normalized_tail:
  assumes "already_normalized path"
  obtains p where "path = CHR ''/'' # p" and "normalize_path path = p" and "CHR ''%'' \<notin> set path"
proof -
  obtain p where path: "path = CHR ''/'' # p"
    using assms by (auto simp: already_normalized_def starts_with_def prefix_def)
  have no: "\<not> sublist ''//'' (CHR ''/'' # p)"
    using assms path by (simp add: already_normalized_def contains_str_def)
  then have "trim_start_matches CHR ''/'' path = p"
    using path by (cases p) (auto simp: trim_start_matches_def sublist_Cons_right)
  moreover have "collapse_slashes False p = p"
    using no by (intro collapse_slashes_id) (auto simp: sublist_Cons_right)
  ultimately have "normalize_path path = p"
    using path by (auto simp: normalize_path_def)
  moreover have "CHR ''%'' \<notin> set path"
    using assms by (simp add: already_normalized_def contains_char_def)
  ultimately show ?thesis using that path by blast
qed

lemma already_normalized_decode:
  assumes "already_normalized path" and "utf8_valid path"
  shows "percent_decode path = Inr d \<longleftrightarrow> \<not> list_ex is_ascii_control path \<and> d = path"
proof (cases "list_ex is_ascii_control path")
  case True
  then obtain e where "decode_bytes path = Inl e"
    using decode_bytes_control assms(1) by (auto simp: already_normalized_def contains_char_def)
  with True show ?thesis by (simp add: percent_decode_def)
next
  case False
  then have "decode_bytes path = Inr path"
    using decode_bytes_plain assms(1) by (auto simp: already_normalized_def contains_char_def)
  with False assms(2) show ?thesis by (auto simp: percent_decode_def)
qed

lemma fast_path_equiv_general:
  assumes "already_normalized path" and "utf8_valid path"
  shows "fast_path path policy = Inr cp \<longleftrightarrow> general_path path policy = Inr cp"
proof -
  obtain p where "path = CHR ''/'' # p" "normalize_path path = p"
    using already_normalized_tail [OF assms(1)] by metis
  then show ?thesis
    unfolding fast_path_Inr general_path_Inr already_normalized_decode [OF assms]
    using safe_components_no_control [of policy path] by auto
qed

lemma from_path_component_consistent:
  assumes "from_path_component path policy = Inr cp"
  shows "starts_with (cp_decoded cp) ''/'' \<and> \<not> contains_str (cp_decoded cp) ''//''
    \<and> split_components (cp_decoded cp) = cp_components cp"
  using assms
proof (cases rule: from_path_component_cases)
  case 1
  then show ?thesis by (simp add: fast_path_Inr already_normalized_def)
next
  case 2
  then obtain d where "cp_decoded cp = CHR ''/'' # normalize_path d"
    "cp_components cp = split_components d"
    by (auto simp: general_path_Inr)
  then show ?thesis
    using normalize_path_shape [of d]
    by (simp add: split_components_normalize starts_with_def)
qed

lemma split_components_utf8:
  "utf8_valid s \<Longrightarrow> c \<in> set (split_components s) \<Longrightarrow> utf8_valid c"
  using utf8_valid_split_char [of "CHR ''/''" s c] by (auto simp: split_components_def)

lemma from_path_component_utf8:
  assumes "from_path_component path policy = Inr cp" and "utf8_valid path"
  shows "list_all utf8_valid (cp_components cp)"
  using assms(1)
proof (cases rule: from_path_component_cases)
  case 1
  then show ?thesis using assms(2) by (auto simp: fast_path_Inr list_all_iff split_components_utf8)
next
  case 2
  then show ?thesis
    by (auto simp: general_path_Inr list_all_iff split_components_utf8 dest: percent_decode_InrD)
qed

lemma already_normalized_readmitted:
  assumes "from_path_component path policy = Inr cp" and "CHR ''%'' \<notin> set (cp_decoded cp)"
  shows "from_path_component (cp_decoded cp) policy = Inr cp"
proof -
  note consistent = from_path_component_consistent [OF assms(1)]
  note safe = from_path_component_safe [OF assms(1)]
  have "already_normalized (cp_decoded cp)"
    using consistent assms(2) by (simp add: already_normalized_def contains_char_def)
  moreover have "fast_path (cp_decoded cp) policy = Inr cp"
    using consistent safe by (simp add: fast_path_Inr)
  ultimately show ?thesis by (simp add: from_path_component_def)
qed

lemma percent_decode_pieces:
  assumes "percent_decode s = Inr d"
  shows "list_all2 (\<lambda>p q. percent_decode p = Inr q) (split_char CHR ''/'' s) (split_char CHR ''/'' d)"
proof -
  have dec: "decode_bytes s = Inr d" and "utf8_valid d"
    using percent_decode_InrD [OF assms] by auto
  then have "utf8_valid q" if "q \<in> set (split_char CHR ''/'' d)" for q
    using that utf8_valid_split_char [of "CHR ''/''" d q] by simp
  then show ?thesis
    using decode_bytes_pieces [OF dec]
    by (auto simp: list_all2_conv_all_nth percent_decode_def)
qed

lemma split_components_self: "c \<noteq> [] \<Longrightarrow> c \<in> set (split_char CHR ''/'' s) \<Longrightarrow> c \<in> set (split_components s)"
  by (simp add: split_components_def)

text \<open>A segment that decodes to a dot segment is a component of the decoded path.\<close>

lemma encoded_dot_segment_refused:
  assumes "seg \<in> set (split_char CHR ''/'' path)" and "percent_decode seg = Inr dot"
    and "dot \<in> {''.'', ''..''}"
  shows "\<not> is_ok (from_path_component path policy)"
proof
  assume "is_ok (from_path_component path policy)"
  then obtain cp where cp: "from_path_component path policy = Inr cp" by (auto simp: is_ok_def)
  then have safe: "list_all (safe_component policy) (cp_components cp)"
    using from_path_component_safe by blast
  from cp show False
  proof (cases rule: from_path_component_cases)
    case 1
    have "seg \<noteq> []" using assms(2,3) by (auto simp: percent_decode_def)
    then have "seg \<in> set (cp_components cp)"
      using 1 assms(1) by (simp add: fast_path_Inr split_components_self)
    with safe assms(2,3) show ?thesis by (auto simp: list_all_iff safe_component_def)
  next
    case 2
    then obtain d where d: "percent_decode path = Inr d" "cp_components cp = split_components d"
      by (auto simp: general_path_Inr)
    have "\<exists>q. q \<in> set (split_char CHR ''/'' d) \<and> percent_decode seg = Inr q"
      using percent_decode_pieces [OF d(1)] assms(1) by (rule list_all2_in_set_left)
    then obtain q where "q \<in> set (split_char CHR ''/'' d)" "percent_decode seg = Inr q"
      by blast
    then have "dot \<in> set (cp_components cp)"
      using assms(2,3) d by (auto intro: split_components_self)
    with safe assms(3) show ?thesis by (auto simp: list_all_iff safe_component_def)
  qed
qed

section \<open>Properties\<close>

text \<open>
  C28: confinement.  Whatever prefix of the components of an admitted request target is walked from
  a directory, the walk ends below that directory, at the directory extended by exactly these
  components; each of them passed every check of the policy, and none decodes once more to a
  dot segment.
\<close>

theorem parse_confined_below_root:
  assumes "parse_confined raw policy = Inr cp"
  shows "lexical_walk root (take k (cp_components cp)) = root @ take k (cp_components cp)
    \<and> list_all (safe_component policy) (cp_components cp)"
proof -
  have safe: "list_all (safe_component policy) (cp_components cp)"
    using parse_confined_InrD [OF assms] from_path_component_safe by metis
  then have "list_all (safe_component policy) (take k (cp_components cp))"
    by (auto simp: list_all_iff dest: in_set_takeD)
  then show ?thesis using safe lexical_walk_safe by blast
qed

theorem parse_confined_below_root_witness:
  "parse_confined ''/a%41/b.txt?q'' default_path_policy =
     Inr \<lparr>cp_decoded = ''/aA/b.txt'', cp_components = [''aA'', ''b.txt''],
          cp_policy = default_path_policy\<rparr>
   \<and> lexical_walk [''srv''] [''aA'', ''b.txt''] = [''srv'', ''aA'', ''b.txt'']"
proof -
  have h: "parse_confined ''/a%41/b.txt?q'' default_path_policy =
     Inr \<lparr>cp_decoded = ''/aA/b.txt'', cp_components = [''aA'', ''b.txt''],
          cp_policy = default_path_policy\<rparr>"
    by (simp add: rust_eval)
  show ?thesis using parse_confined_below_root [OF h, of "[''srv'']" 2] h by simp
qed

text \<open>
  decoding and splitting commute.  When a path decodes, its slash-separated segments decode one
  by one, and they decode to the segments of the decoded path: no escape creates a separator and
  none is lost, so two targets with different segments cannot alias.
\<close>

lemma percent_decode_segments:
  assumes "percent_decode s = Inr d"
  shows "list_all2 (\<lambda>p q. percent_decode p = Inr q) (split_char CHR ''/'' s) (split_char CHR ''/'' d)
    \<and> \<not> list_ex is_ascii_control d"
  using percent_decode_pieces [OF assms] percent_decode_InrD [OF assms] decode_bytes_no_control
  by blast

lemma percent_decode_segments_witness:
  "percent_decode ''/x%20y/z'' = Inr ''/x y/z''
   \<and> length (split_char CHR ''/'' ''/x%20y/z'') = length (split_char CHR ''/'' ''/x y/z'')"
proof -
  have h: "percent_decode ''/x%20y/z'' = Inr ''/x y/z''"
    by (simp add: rust_eval)
  show ?thesis using percent_decode_segments [OF h] h by (auto dest: list_all2_lengthD)
qed

text \<open>
  the fast path is an optimisation only.  On an already normalised target the constructor
  accepts exactly what the general decode-normalise-validate pipeline accepts, with the same
  stored text, components and policy.
\<close>

lemma from_path_component_fast_equiv:
  assumes "already_normalized path" and "utf8_valid path"
  shows "from_path_component path policy = Inr cp \<longleftrightarrow> general_path path policy = Inr cp"
  using fast_path_equiv_general [OF assms] assms(1) by (simp add: from_path_component_def)

lemma from_path_component_fast_equiv_witness:
  "already_normalized ''/a/b/'' \<and> utf8_valid ''/a/b/''
   \<and> general_path ''/a/b/'' default_path_policy =
       Inr \<lparr>cp_decoded = ''/a/b/'', cp_components = [''a'', ''b''], cp_policy = default_path_policy\<rparr>"
proof -
  have h: "already_normalized ''/a/b/''" "utf8_valid ''/a/b/''"
    by (simp_all add: rust_eval)
  have "from_path_component ''/a/b/'' default_path_policy =
       Inr \<lparr>cp_decoded = ''/a/b/'', cp_components = [''a'', ''b''], cp_policy = default_path_policy\<rparr>"
    by (simp add: rust_eval)
  then show ?thesis using from_path_component_fast_equiv [OF h] h by blast
qed

text \<open>
  an encoded traversal is refused.  If some segment of the path of a target percent-decodes to
  a dot segment, no confined path is built from that target, whatever the policy.
\<close>

lemma encoded_traversal_refused:
  assumes "parse_target raw = Inr t" and "seg \<in> set (split_char CHR ''/'' (rt_path t))"
    and "percent_decode seg = Inr dot" and "dot \<in> {''.'', ''..''}"
  shows "\<exists>e. parse_confined raw policy = Inl e"
proof (cases "parse_confined raw policy")
  case (Inr cp)
  then show ?thesis
    using encoded_dot_segment_refused [OF assms(2-4), of policy] assms(1)
    by (auto elim!: parse_confined_InrD)
qed blast

lemma encoded_traversal_refused_witness:
  "\<exists>e. parse_confined ''/pub/%2e%2E/etc'' \<lparr>dotfiles = DotfilesAllow, reject_backslash = False\<rparr> = Inl e"
proof (rule encoded_traversal_refused)
  show "parse_target ''/pub/%2e%2E/etc'' = Inr (parse_origin_form ''/pub/%2e%2E/etc'')"
    by (simp add: parse_target_def target_byte_bad_def ascii_class starts_with_def)
  show "''%2e%2E'' \<in> set (split_char CHR ''/'' (rt_path (parse_origin_form ''/pub/%2e%2E/etc'')))"
    by (simp add: rust_eval)
  show "percent_decode ''%2e%2E'' = Inr ''..''"
    by (simp add: rust_eval)
qed simp

text \<open>
  the text and the components of a confined path describe the same path.  The text is absolute,
  has no empty segment inside, splits into exactly the stored components, every component is valid
  UTF-8, and (unless a literal percent sign was decoded) parsing the text again gives the same
  confined path.
\<close>

lemma confined_path_canonical:
  assumes "from_path_component path policy = Inr cp" and "utf8_valid path"
  shows "starts_with (cp_decoded cp) ''/'' \<and> \<not> contains_str (cp_decoded cp) ''//''
    \<and> split_components (cp_decoded cp) = cp_components cp
    \<and> list_all utf8_valid (cp_components cp)
    \<and> (CHR ''%'' \<notin> set (cp_decoded cp) \<longrightarrow> from_path_component (cp_decoded cp) policy = Inr cp)"
  using from_path_component_consistent [OF assms(1)] from_path_component_utf8 [OF assms]
    already_normalized_readmitted [OF assms(1)]
  by blast

lemma confined_path_canonical_witness:
  "from_path_component ''//a///b%2Dc'' default_path_policy =
     Inr \<lparr>cp_decoded = ''/a/b-c'', cp_components = [''a'', ''b-c''], cp_policy = default_path_policy\<rparr>
   \<and> from_path_component ''/a/b-c'' default_path_policy =
     Inr \<lparr>cp_decoded = ''/a/b-c'', cp_components = [''a'', ''b-c''], cp_policy = default_path_policy\<rparr>"
proof -
  have h: "from_path_component ''//a///b%2Dc'' default_path_policy =
     Inr \<lparr>cp_decoded = ''/a/b-c'', cp_components = [''a'', ''b-c''], cp_policy = default_path_policy\<rparr>"
    by (simp add: rust_eval)
  have u: "utf8_valid ''//a///b%2Dc''" by simp
  show ?thesis using confined_path_canonical [OF h u] h by simp
qed

end
