(* ===== verification/Interfaces.thy ===== *)
theory Interfaces
  imports Rust_Prelude
begin

text \<open>
  The contracts several components share, as locales.  Each is interpreted on the model's own
  definitions in the theory that provides them:
  \<^item> \<open>canonical_text\<close>: a validated text type (authority, method, header name, header value,
    trailer declaration, protocol name), interpreted in \<open>Header_Block\<close>, \<open>Trailers\<close> and \<open>Tunnel_Intent\<close>;
  \<^item> \<open>header_store\<close>: an ordered header collection with case-insensitive lookup, interpreted on the
    header block and on the response plan;
  \<^item> \<open>one_shot\<close>: a state that leaves its initial value at most once, interpreted on the
    request-body lifecycle and on its cancellation.
\<close>

section \<open>Validated text\<close>

locale canonical_text =
  fixes parse :: "string \<Rightarrow> 'e + 'a"
    and view :: "'a \<Rightarrow> string"
  assumes parse_view: "parse s = Inr a \<Longrightarrow> parse (view a) = Inr a"
begin

text \<open>The text of a value determines the value.\<close>

lemma view_inject: "parse s = Inr a \<Longrightarrow> parse t = Inr b \<Longrightarrow> view a = view b \<longleftrightarrow> a = b"
  by (metis parse_view sum.inject(2))

text \<open>Validating twice is validating once.\<close>

lemma parse_idem: "and_then (parse s) (\<lambda>a. parse (view a)) = parse s"
  using parse_view by (cases "parse s") auto

end

section \<open>Header collections\<close>

locale header_store =
  fixes empty :: "'h"
    and push :: "'h \<Rightarrow> 'n \<Rightarrow> 'v \<Rightarrow> 'h"
    and get_first :: "'h \<Rightarrow> string \<Rightarrow> 'v option"
    and contains :: "'h \<Rightarrow> string \<Rightarrow> bool"
    and fields :: "'h \<Rightarrow> (string \<times> 'v) list"
    and name_str :: "'n \<Rightarrow> string"
  assumes fields_empty: "fields empty = []"
    and fields_push: "fields (push h n v) = fields h @ [(name_str n, v)]"
    and get_first_fields:
      "get_first h m = map_option snd (find (\<lambda>f. eq_ignore_ascii_case (fst f) m) (fields h))"
    and contains_fields:
      "contains h m \<longleftrightarrow> (\<exists>f\<in>set (fields h). eq_ignore_ascii_case (fst f) m)"
begin

lemma get_first_empty: "get_first empty m = None"
  by (simp add: get_first_fields fields_empty)

lemma find_append: "find P (xs @ ys) = (case find P xs of None \<Rightarrow> find P ys | Some x \<Rightarrow> Some x)"
  by (induction xs) auto

text \<open>The first value of a name is what was pushed first under any spelling of that name.\<close>

lemma get_first_push:
  "get_first (push h n v) m =
   (case get_first h m of
      Some w \<Rightarrow> Some w
    | None \<Rightarrow> if eq_ignore_ascii_case (name_str n) m then Some v else None)"
  by (simp add: get_first_fields fields_push find_append split: option.splits)

lemma contains_get_first: "contains h m \<longleftrightarrow> get_first h m \<noteq> None"
  by (force simp: contains_fields get_first_fields find_None_iff)

lemma contains_push:
  "contains (push h n v) m \<longleftrightarrow> contains h m \<or> eq_ignore_ascii_case (name_str n) m"
  by (auto simp: contains_fields fields_push)

text \<open>Lookup does not see the case of the name asked for.\<close>

lemma get_first_cong_case:
  "eq_ignore_ascii_case m m' \<Longrightarrow> get_first h m = get_first h m'"
  by (simp add: get_first_fields eq_ignore_ascii_case_def)

lemma get_first_in_fields: "get_first h m = Some v \<Longrightarrow> \<exists>n. (n, v) \<in> set (fields h) \<and> eq_ignore_ascii_case n m"
  by (auto simp: get_first_fields find_Some_iff) (metis fst_conv nth_mem)

end

section \<open>One-shot state\<close>

text \<open>
  A component whose state starts in one value and moves to some terminal value at most once; each
  operation reports whether it was the one that moved it.
\<close>

locale one_shot =
  fixes step :: "'op \<Rightarrow> 's \<Rightarrow> 's \<times> bool"
    and active :: "'s \<Rightarrow> bool"
  assumes step_terminal: "\<not> active s \<Longrightarrow> \<not> active (fst (step op s)) \<and> \<not> snd (step op s)"
    and step_wins: "active s \<Longrightarrow> snd (step op s) \<longleftrightarrow> \<not> active (fst (step op s))"
begin

fun run :: "'op list \<Rightarrow> 's \<Rightarrow> 's \<times> nat" where
  "run [] s = (s, 0)"
| "run (op # ops) s =
     (let (s', won) = step op s; (s'', n) = run ops s' in (s'', n + (if won then 1 else 0)))"

lemma run_terminal: "\<not> active s \<Longrightarrow> \<not> active (fst (run ops s)) \<and> snd (run ops s) = 0"
proof (induction ops arbitrary: s)
  case (Cons op ops)
  then show ?case
    using step_terminal [OF Cons.prems, of op] Cons.IH [of "fst (step op s)"]
    by (simp add: case_prod_beta Let_def)
qed simp

text \<open>In any sequence of operations at most one wins, and one wins exactly when the state moved.\<close>

lemma run_one_winner:
  "active s \<Longrightarrow> snd (run ops s) = (if active (fst (run ops s)) then 0 else 1)"
proof (induction ops arbitrary: s)
  case (Cons op ops)
  show ?case
  proof (cases "active (fst (step op s))")
    case True
    then show ?thesis
      using step_wins [OF Cons.prems, of op] Cons.IH [OF True] by (simp add: case_prod_beta Let_def)
  next
    case False
    then show ?thesis
      using step_wins [OF Cons.prems, of op] run_terminal [OF False]
      by (simp add: case_prod_beta Let_def)
  qed
qed simp

end

end
