(* ===== verification/Http_Types.thy ===== *)
theory Http_Types
  imports Rust_Prelude
begin

text \<open>
  The value types of \<^verbatim>\<open>eggserve-primitives\<close> that the planner and the runtime exchange:
  \<^verbatim>\<open>method.rs\<close>, \<^verbatim>\<open>version.rs\<close>, \<^verbatim>\<open>http.rs\<close> (request validation for read-only serving), \<^verbatim>\<open>policy.rs\<close> and
  \<^verbatim>\<open>response.rs\<close> (response plans and byte ranges).

  A \<open>file_range\<close> is a pair of \<^typ>\<open>u64\<close> values; its length is computed with the checked operations
  of the source.  The constructor that panics on an unrepresentable length returns \<open>None\<close> there, so
  a theorem that a caller never panics is a theorem that the result is not \<open>None\<close>.
\<close>

section \<open>Methods\<close>

datatype method_error = MethodEmpty | MethodInvalidToken

datatype http_method = Method (method_str: string)

text \<open>The token byte class, written as the ranges of the source.\<close>

definition is_token_byte :: "char \<Rightarrow> bool" where
  [rust_eval]: "is_token_byte c \<longleftrightarrow>
     (let b = byte c in
      b = 0x21 \<or> (0x23 \<le> b \<and> b \<le> 0x27) \<or> b = 0x2A \<or> b = 0x2B \<or> (0x2D \<le> b \<and> b \<le> 0x2E)
      \<or> (0x30 \<le> b \<and> b \<le> 0x39) \<or> (0x41 \<le> b \<and> b \<le> 0x5A) \<or> (0x5E \<le> b \<and> b \<le> 0x7A)
      \<or> b = 0x7C \<or> b = 0x7E)"

definition is_http_token :: "string \<Rightarrow> bool" where
  [rust_eval]: "is_http_token s \<longleftrightarrow> s \<noteq> [] \<and> list_all is_token_byte s"

definition method_new :: "string \<Rightarrow> method_error + http_method" where
  [rust_eval]: "method_new s =
     (if s = [] then Inl MethodEmpty
      else if \<not> is_http_token s then Inl MethodInvalidToken
      else Inr (Method s))"

definition method_is_safe :: "http_method \<Rightarrow> bool" where
  [rust_eval]: "method_is_safe m \<longleftrightarrow> method_str m \<in> {''GET'', ''HEAD'', ''OPTIONS'', ''TRACE''}"

definition method_is_idempotent :: "http_method \<Rightarrow> bool" where
  [rust_eval]: "method_is_idempotent m \<longleftrightarrow>
     method_str m \<in> {''GET'', ''HEAD'', ''PUT'', ''DELETE'', ''OPTIONS'', ''TRACE''}"

definition permits_static_resolution :: "http_method \<Rightarrow> bool" where
  [rust_eval]: "permits_static_resolution m \<longleftrightarrow> method_str m = ''GET'' \<or> method_str m = ''HEAD''"

section \<open>Versions\<close>

datatype http_version = Http10 | Http11 | Http2 | Http3

datatype http_version_error = VersionUnsupported

definition parse_version :: "string \<Rightarrow> http_version_error + http_version" where
  [rust_eval]: "parse_version s =
     (if s = ''HTTP/1.0'' then Inr Http10
      else if s = ''HTTP/1.1'' then Inr Http11
      else if s = ''HTTP/2'' then Inr Http2
      else if s = ''HTTP/3'' then Inr Http3
      else Inl VersionUnsupported)"

fun version_str :: "http_version \<Rightarrow> string" where
  "version_str Http10 = ''HTTP/1.0''"
| "version_str Http11 = ''HTTP/1.1''"
| "version_str Http2 = ''HTTP/2''"
| "version_str Http3 = ''HTTP/3''"

fun version_major :: "http_version \<Rightarrow> nat" where
  "version_major Http10 = 1"
| "version_major Http11 = 1"
| "version_major Http2 = 2"
| "version_major Http3 = 3"

fun version_minor :: "http_version \<Rightarrow> nat" where
  "version_minor Http10 = 0"
| "version_minor Http11 = 1"
| "version_minor _ = 0"

section \<open>Request validation for read-only serving\<close>

datatype read_only_method = Get | Head

fun read_only_method_str :: "read_only_method \<Rightarrow> string" where
  "read_only_method_str Get = ''GET''"
| "read_only_method_str Head = ''HEAD''"

datatype request_validation_error =
    MethodNotAllowed | InvalidContentLength | BodyTooLarge | UnsupportedTransferEncoding
  | ConflictingBodyHeaders | InvalidRequestTarget

definition validate_method :: "string \<Rightarrow> request_validation_error + read_only_method" where
  [rust_eval]: "validate_method m =
     (if m = ''GET'' then Inr Get else if m = ''HEAD'' then Inr Head else Inl MethodNotAllowed)"

definition validate_request_body ::
  "string option \<Rightarrow> string option \<Rightarrow> u64 \<Rightarrow> request_validation_error + unit" where
  [rust_eval]: "validate_request_body content_length transfer_encoding max_body_bytes =
     (if content_length \<noteq> None \<and> transfer_encoding \<noteq> None then Inl ConflictingBodyHeaders
      else if transfer_encoding \<noteq> None then Inl UnsupportedTransferEncoding
      else case content_length of
        None \<Rightarrow> Inr ()
      | Some cl \<Rightarrow>
          let trimmed = trim cl in
          if trimmed = [] then Inl InvalidContentLength
          else if \<not> list_all is_ascii_digit trimmed then Inl InvalidContentLength
          else and_then (ok_or InvalidContentLength (parse_u64 trimmed)) (\<lambda>len.
            if len > max_body_bytes then Inl BodyTooLarge else Inr ()))"

definition validate_request_target :: "string \<Rightarrow> request_validation_error + unit" where
  [rust_eval]: "validate_request_target target =
     (if target = [] \<or> \<not> starts_with target ''/'' then Inl InvalidRequestTarget
      else if list_ex is_ascii_control target then Inl InvalidRequestTarget
      else if list_ex is_ascii_whitespace target then Inl InvalidRequestTarget
      else Inr ())"

section \<open>Policies\<close>

datatype directory_listing_policy = ListingDisabled | ListingEnabled
datatype symlink_policy = SymlinkPolicyDenied | SymlinkPolicyFollow
datatype serve_dotfile_policy = ServeDotfilesDenied | ServeDotfiles

record static_metadata_policy =
  emit_etag :: bool
  emit_last_modified :: bool

definition metadata_policy_standard :: static_metadata_policy where
  [rust_eval]: "metadata_policy_standard = \<lparr>emit_etag = True, emit_last_modified = True\<rparr>"

definition metadata_policy_minimal :: static_metadata_policy where
  [rust_eval]: "metadata_policy_minimal = \<lparr>emit_etag = False, emit_last_modified = False\<rparr>"

text \<open>The derived \<^verbatim>\<open>Default\<close>: both fields are \<^verbatim>\<open>bool::default()\<close>, so \<^verbatim>\<open>false\<close>.\<close>

definition metadata_policy_default :: static_metadata_policy where
  [rust_eval]: "metadata_policy_default = \<lparr>emit_etag = False, emit_last_modified = False\<rparr>"

datatype error_representation_policy = ErrorMinimal | ErrorEmpty

record static_policy =
  sp_directory_listing :: directory_listing_policy
  sp_symlinks :: symlink_policy
  sp_dotfiles :: serve_dotfile_policy
  sp_static_metadata :: static_metadata_policy

definition static_policy_safe_default :: static_policy where
  [rust_eval]: "static_policy_safe_default =
     \<lparr>sp_directory_listing = ListingDisabled, sp_symlinks = SymlinkPolicyDenied,
      sp_dotfiles = ServeDotfilesDenied, sp_static_metadata = metadata_policy_standard\<rparr>"

section \<open>Response plans\<close>

type_synonym response_status = nat

definition STATUS_OK :: response_status where [rust_eval]: "STATUS_OK = 200"
definition NOT_MODIFIED :: response_status where [rust_eval]: "NOT_MODIFIED = 304"
definition PARTIAL_CONTENT :: response_status where [rust_eval]: "PARTIAL_CONTENT = 206"
definition NOT_RANGE_SATISFIABLE :: response_status where [rust_eval]: "NOT_RANGE_SATISFIABLE = 416"
definition PRECONDITION_FAILED :: response_status where [rust_eval]: "PRECONDITION_FAILED = 412"

record response_header =
  rh_name :: string
  rh_value :: string

type_synonym header_map_plan = "response_header list"

definition plan_new :: header_map_plan where
  [rust_eval]: "plan_new = []"

definition plan_push :: "header_map_plan \<Rightarrow> string \<Rightarrow> string \<Rightarrow> header_map_plan" where
  [rust_eval]: "plan_push hs name v = hs @ [\<lparr>rh_name = name, rh_value = v\<rparr>]"

definition plan_get :: "header_map_plan \<Rightarrow> string \<Rightarrow> string option" where
  [rust_eval]: "plan_get hs name =
     map_option rh_value (find (\<lambda>h. eq_ignore_ascii_case (rh_name h) name) hs)"

definition plan_contains :: "header_map_plan \<Rightarrow> string \<Rightarrow> bool" where
  [rust_eval]: "plan_contains hs name \<longleftrightarrow> list_ex (\<lambda>h. eq_ignore_ascii_case (rh_name h) name) hs"

section \<open>Byte ranges\<close>

record file_range =
  fr_start :: u64
  fr_end_inclusive :: u64

definition range_is_empty :: "file_range \<Rightarrow> bool" where
  [rust_eval]: "range_is_empty r \<longleftrightarrow> fr_end_inclusive r < fr_start r"

text \<open>\<^verbatim>\<open>u64::checked_sub\<close>.\<close>

definition checked_sub :: "'a::len word \<Rightarrow> 'a word \<Rightarrow> 'a word option" where
  [rust_eval]: "checked_sub a b = (if a < b then None else Some (a - b))"

definition checked_len :: "file_range \<Rightarrow> u64 option" where
  [rust_eval]: "checked_len r =
     (if range_is_empty r then Some 0
      else Option.bind (checked_sub (fr_end_inclusive r) (fr_start r)) (\<lambda>len. checked_add len 1))"

text \<open>\<^verbatim>\<open>FileRange::new\<close> and \<^verbatim>\<open>FileRange::try_new\<close>: \<open>None\<close> is the panic of the former, the \<^verbatim>\<open>None\<close> of the latter.\<close>

definition file_range_new :: "u64 \<Rightarrow> u64 \<Rightarrow> file_range option" where
  [rust_eval]: "file_range_new start end_inclusive =
     (let range = \<lparr>fr_start = start, fr_end_inclusive = end_inclusive\<rparr> in
      if checked_len range \<noteq> None then Some range else None)"

definition file_range_try_new :: "u64 \<Rightarrow> u64 \<Rightarrow> file_range option" where
  [rust_eval]: "file_range_try_new start end_inclusive =
     (let range = \<lparr>fr_start = start, fr_end_inclusive = end_inclusive\<rparr> in
      Option.bind (checked_len range) (\<lambda>_. Some range))"

text \<open>\<^verbatim>\<open>FileRange::len\<close>; \<open>None\<close> is the panic of \<^verbatim>\<open>expect\<close>.\<close>

definition range_len :: "file_range \<Rightarrow> u64 option" where
  [rust_eval]: "range_len r = checked_len r"

datatype body_plan = BodyEmpty | FullBytes bytes | FileFull | FileRange u64 u64

record static_response_plan =
  plan_status :: response_status
  plan_headers :: header_map_plan
  plan_body :: body_plan

datatype conditional_request_outcome = NotModified header_map_plan | FullResponse | Malformed

datatype range_request_outcome =
  Satisfiable file_range | NotSatisfiable | MalformedOrUnsupported | MultipleRanges

section \<open>Lemmas\<close>

lemma unat_u64_less: "unat (w :: u64) < 18446744073709551616"
  using unsigned_less [of w, where ?'a = nat] by simp

lemma unat_u64_max [simp]: "unat u64_max = 18446744073709551615"
  by simp

lemma u64_eq_max: "b = u64_max \<longleftrightarrow> unat b = 18446744073709551615"
  by (simp add: word_unat_eq_iff)

text \<open>
  The only pair of endpoints without a representable length is the whole \<^verbatim>\<open>u64\<close> range, as the
  comments of the source say.
\<close>

lemma checked_len_cases:
  "checked_len r =
   (if fr_end_inclusive r < fr_start r then Some 0
    else if fr_start r = 0 \<and> fr_end_inclusive r = u64_max then None
    else Some (fr_end_inclusive r - fr_start r + 1))"
proof (cases "fr_end_inclusive r < fr_start r")
  case False
  let ?a = "fr_start r" and ?b = "fr_end_inclusive r"
  have diff: "unat (?b - ?a) = unat ?b - unat ?a"
    using False by (simp add: unat_sub word_less_nat_alt word_le_nat_alt)
  have "unat (?b - ?a) + 1 < 2 ^ 64 \<longleftrightarrow> \<not> (unat ?a = 0 \<and> unat ?b = 18446744073709551615)"
    unfolding diff using unat_u64_less [of ?b] False by (simp add: word_less_nat_alt) linarith
  then show ?thesis
    using False
    by (simp add: checked_len_def range_is_empty_def checked_sub_def checked_add_def
        u64_eq_max unat_eq_zero)
qed (simp add: checked_len_def range_is_empty_def)

lemma file_range_new_eq_try_new: "file_range_new a b = file_range_try_new a b"
  by (cases "checked_len \<lparr>fr_start = a, fr_end_inclusive = b\<rparr>")
    (simp_all add: file_range_new_def file_range_try_new_def Let_def)

lemma file_range_new_Some:
  "file_range_new a b = Some \<lparr>fr_start = a, fr_end_inclusive = b\<rparr> \<longleftrightarrow> \<not> (a = 0 \<and> b = u64_max)"
  by (auto simp: file_range_new_def Let_def checked_len_cases)

lemma unat_range_len:
  assumes "fr_start r \<le> fr_end_inclusive r" and "range_len r = Some n"
  shows "unat n = unat (fr_end_inclusive r) - unat (fr_start r) + 1"
proof -
  have n: "n = fr_end_inclusive r - fr_start r + 1"
    and ne: "\<not> (fr_start r = 0 \<and> fr_end_inclusive r = u64_max)"
    using assms by (auto simp: range_len_def checked_len_cases split: if_splits)
  have diff: "unat (fr_end_inclusive r - fr_start r) = unat (fr_end_inclusive r) - unat (fr_start r)"
    using assms(1) by (simp add: unat_sub)
  moreover have "unat (fr_start r) \<noteq> 0 \<or> unat (fr_end_inclusive r) \<noteq> 18446744073709551615"
    using ne by (auto simp: u64_eq_max unat_eq_zero)
  then have "unat (fr_end_inclusive r - fr_start r) + 1 < 2 ^ 64"
    using unat_u64_less [of "fr_end_inclusive r"] assms(1)
    unfolding diff by (simp add: word_le_nat_alt) linarith
  ultimately show ?thesis unfolding n by (simp add: unat_word_ariths)
qed

end
