(* ===== verification/Header_Block.thy ===== *)
theory Header_Block
  imports Interfaces Http_Types Request_Target
begin

text \<open>
  The duplicate-preserving header block of \<^verbatim>\<open>header_block.rs\<close>: validated names, octet-preserving
  values with their optional white space removed, and the ordered list of fields with
  case-insensitive lookup.

  The header block and the response plan of \<open>Http_Types\<close> both interpret the interface
  \<open>header_store\<close>; the names, the values, the methods and the authorities interpret
  \<open>canonical_text\<close>.
\<close>

section \<open>Names and values\<close>

datatype header_error = InvalidName | InvalidValue | NameTooLong

datatype header_name = HeaderName (name_str: string)
datatype header_value = HeaderValue (value_bytes: bytes)

record duplicate_header_error =
  dup_name :: string
  dup_count :: nat

definition is_valid_header_name :: "string \<Rightarrow> bool" where
  [rust_eval]: "is_valid_header_name s \<longleftrightarrow> list_all is_token_byte s"

definition header_name_new :: "string \<Rightarrow> header_error + header_name" where
  [rust_eval]: "header_name_new s =
     (if s = [] then Inl InvalidName
      else if 256 < length s then Inl NameTooLong
      else if \<not> is_valid_header_name s then Inl InvalidName
      else Inr (HeaderName s))"

definition value_byte_ok :: "char \<Rightarrow> bool" where
  [rust_eval]: "value_byte_ok b \<longleftrightarrow> (32 \<le> byte b \<and> byte b \<noteq> 127) \<or> b = CHR 0x09"

definition validate_header_value_bytes :: "bytes \<Rightarrow> header_error + unit" where
  [rust_eval]: "validate_header_value_bytes bs =
     (if list_all value_byte_ok bs then Inr () else Inl InvalidValue)"

text \<open>
  \<^verbatim>\<open>trim_ows\<close>: the first loop moves \<^verbatim>\<open>start\<close> over leading blanks, the second moves \<^verbatim>\<open>end\<close> back over
  trailing ones; the result is the slice between them.
\<close>

fun trim_ows_start :: "bytes \<Rightarrow> bytes" where
  "trim_ows_start [] = []"
| "trim_ows_start (b # bs) = (if is_ows b then trim_ows_start bs else b # bs)"

definition trim_ows :: "bytes \<Rightarrow> bytes" where
  [rust_eval]: "trim_ows bs = rev (trim_ows_start (rev (trim_ows_start bs)))"

definition header_value_from_bytes :: "bytes \<Rightarrow> header_error + header_value" where
  [rust_eval]: "header_value_from_bytes raw =
     and_then (validate_header_value_bytes raw) (\<lambda>_. Inr (HeaderValue (trim_ows raw)))"

definition header_value_to_str :: "header_value \<Rightarrow> unit + string" where
  [rust_eval]: "header_value_to_str v =
     (if utf8_valid (value_bytes v) then Inr (value_bytes v) else Inl ())"

section \<open>Header blocks\<close>

record header_field =
  hf_name :: header_name
  hf_value :: header_value

type_synonym header_block = "header_field list"

definition block_new :: header_block where
  [rust_eval]: "block_new = []"

definition block_push :: "header_block \<Rightarrow> header_name \<Rightarrow> header_value \<Rightarrow> header_block" where
  [rust_eval]: "block_push b n v = b @ [\<lparr>hf_name = n, hf_value = v\<rparr>]"

text \<open>\<^verbatim>\<open>push_bytes\<close>, and \<^verbatim>\<open>push_str\<close>, which differs only in the type of its argument.\<close>

definition block_push_bytes :: "header_block \<Rightarrow> string \<Rightarrow> bytes \<Rightarrow> header_error + header_block" where
  [rust_eval]: "block_push_bytes b name v =
     and_then (header_name_new name) (\<lambda>n.
     and_then (header_value_from_bytes v) (\<lambda>w. Inr (block_push b n w)))"

definition field_matches :: "string \<Rightarrow> header_field \<Rightarrow> bool" where
  [rust_eval]: "field_matches name f \<longleftrightarrow> eq_ignore_ascii_case (name_str (hf_name f)) name"

definition block_get_first :: "header_block \<Rightarrow> string \<Rightarrow> header_value option" where
  [rust_eval]: "block_get_first b name = map_option hf_value (find (field_matches name) b)"

definition block_get_all :: "header_block \<Rightarrow> string \<Rightarrow> header_value list" where
  [rust_eval]: "block_get_all b name = map hf_value (filter (field_matches name) b)"

text \<open>The loop of \<^verbatim>\<open>get_unique\<close> with its two variables \<^verbatim>\<open>first\<close> and \<^verbatim>\<open>count\<close>.\<close>

fun get_unique_loop ::
  "string \<Rightarrow> header_block \<Rightarrow> header_value option \<Rightarrow> nat \<Rightarrow> header_value option \<times> nat" where
  "get_unique_loop name [] first count = (first, count)"
| "get_unique_loop name (f # fs) first count =
     (if field_matches name f
      then get_unique_loop name fs (if first = None then Some (hf_value f) else first) (count + 1)
      else get_unique_loop name fs first count)"

definition block_get_unique :: "header_block \<Rightarrow> string \<Rightarrow> duplicate_header_error + header_value option" where
  [rust_eval]: "block_get_unique b name =
     (let (first, count) = get_unique_loop name b None 0 in
      if count = 0 then Inr None
      else if count = 1 then Inr first
      else Inl \<lparr>dup_name = name, dup_count = count\<rparr>)"

definition block_contains :: "header_block \<Rightarrow> string \<Rightarrow> bool" where
  [rust_eval]: "block_contains b name \<longleftrightarrow> list_ex (field_matches name) b"

definition block_retain :: "(header_field \<Rightarrow> bool) \<Rightarrow> header_block \<Rightarrow> header_block" where
  [rust_eval]: "block_retain P b = filter P b"

definition block_fields :: "header_block \<Rightarrow> (string \<times> header_value) list" where
  "block_fields b = map (\<lambda>f. (name_str (hf_name f), hf_value f)) b"

definition plan_fields :: "header_map_plan \<Rightarrow> (string \<times> string) list" where
  "plan_fields hs = map (\<lambda>h. (rh_name h, rh_value h)) hs"

section \<open>The interfaces\<close>

lemma find_map: "find P (map f xs) = map_option f (find (P \<circ> f) xs)"
  by (induction xs) auto

interpretation hb: header_store block_new block_push block_get_first block_contains block_fields name_str
proof unfold_locales
  fix h m
  show "block_get_first h m =
      map_option snd (find (\<lambda>f. eq_ignore_ascii_case (fst f) m) (block_fields h))"
    by (simp add: block_get_first_def block_fields_def find_map comp_def field_matches_def [abs_def]
        option.map_comp)
qed (auto simp: block_new_def block_push_def block_contains_def block_fields_def field_matches_def
    list_ex_iff)

interpretation hp: header_store plan_new plan_push plan_get plan_contains plan_fields "\<lambda>n. n"
proof unfold_locales
  fix h m
  show "plan_get h m =
      map_option snd (find (\<lambda>f. eq_ignore_ascii_case (fst f) m) (plan_fields h))"
    by (simp add: plan_get_def plan_fields_def find_map comp_def option.map_comp)
qed (auto simp: plan_new_def plan_push_def plan_contains_def plan_fields_def list_ex_iff)

lemma header_name_new_Inr:
  "header_name_new s = Inr n \<longleftrightarrow>
   n = HeaderName s \<and> s \<noteq> [] \<and> length s \<le> 256 \<and> list_all is_token_byte s"
  by (auto simp: header_name_new_def is_valid_header_name_def)

interpretation header_name: canonical_text header_name_new name_str
  by unfold_locales (auto simp: header_name_new_Inr)

interpretation method_text: canonical_text method_new method_str
  by unfold_locales (auto simp: method_new_def split: if_splits)

interpretation authority_text: canonical_text parse_authority authority_str
  by unfold_locales (rule parse_authority_idem)

lemma trim_ows_start_dropWhile: "trim_ows_start bs = dropWhile is_ows bs"
  by (induction bs) auto

lemma trim_ows_eq: "trim_ows bs = trim_matches_ows bs"
  by (simp add: trim_ows_def trim_matches_ows_def trim_ows_start_dropWhile)

lemma trim_ows_idem [simp]: "trim_ows (trim_ows bs) = trim_ows bs"
  by (simp add: trim_ows_eq trim_matches_ows_idem)

lemma trim_ows_subset: "set (trim_ows bs) \<subseteq> set bs"
  by (auto simp: trim_ows_def trim_ows_start_dropWhile dest!: set_dropWhileD)

lemma header_value_from_bytes_Inr:
  "header_value_from_bytes raw = Inr v \<longleftrightarrow>
   list_all value_byte_ok raw \<and> v = HeaderValue (trim_ows raw)"
  by (auto simp: header_value_from_bytes_def validate_header_value_bytes_def)

interpretation header_value: canonical_text header_value_from_bytes value_bytes
proof unfold_locales
  fix s a
  assume "header_value_from_bytes s = Inr a"
  then show "header_value_from_bytes (value_bytes a) = Inr a"
    using trim_ows_subset [of s] by (auto simp: header_value_from_bytes_Inr list_all_iff)
qed

section \<open>Invariant\<close>

text \<open>Every field of a block was validated, and validating it again gives the same field.\<close>

definition field_wf :: "header_field \<Rightarrow> bool" where
  "field_wf f \<longleftrightarrow>
     header_name_new (name_str (hf_name f)) = Inr (hf_name f)
     \<and> header_value_from_bytes (value_bytes (hf_value f)) = Inr (hf_value f)"

definition block_wf :: "header_block \<Rightarrow> bool" where
  "block_wf b \<longleftrightarrow> list_all field_wf b"

lemma block_push_bytes_Inr:
  "block_push_bytes b name v = Inr b' \<longleftrightarrow>
   (\<exists>n w. header_name_new name = Inr n \<and> header_value_from_bytes v = Inr w \<and> b' = block_push b n w)"
  by (auto simp: block_push_bytes_def result_inv)

lemma pushed_field_wf:
  assumes "header_name_new name = Inr n" and "header_value_from_bytes v = Inr w"
  shows "field_wf \<lparr>hf_name = n, hf_value = w\<rparr>"
  using header_name.parse_view [OF assms(1)] header_value.parse_view [OF assms(2)]
  by (simp add: field_wf_def)

lemma block_wf_push_bytes:
  "block_wf b \<Longrightarrow> block_push_bytes b name v = Inr b' \<Longrightarrow> block_wf b'"
  by (auto simp: block_push_bytes_Inr block_wf_def block_push_def pushed_field_wf)

lemma block_wf_retain: "block_wf b \<Longrightarrow> block_wf (block_retain P b)"
  by (auto simp: block_wf_def block_retain_def list_all_iff)

text \<open>The line a field becomes on the wire.\<close>

definition field_line :: "header_field \<Rightarrow> bytes" where
  "field_line f = name_str (hf_name f) @ '': '' @ value_bytes (hf_value f)"

lemma token_not_colon: "\<not> is_token_byte CHR '':''"
  by (simp add: is_token_byte_def)

lemma token_printable: "is_token_byte c \<Longrightarrow> value_byte_ok c"
  by (auto simp: is_token_byte_def value_byte_ok_def Let_def)

lemma field_wf_name: "field_wf f \<Longrightarrow> CHR '':'' \<notin> set (name_str (hf_name f))"
  using token_not_colon by (auto simp: field_wf_def header_name_new_Inr list_all_iff)

lemma trim_ows_Cons: "is_ows c \<Longrightarrow> trim_ows (c # bs) = trim_ows bs"
  by (simp add: trim_ows_def)

lemma field_wf_value:
  assumes "field_wf f"
  shows "trim_ows (value_bytes (hf_value f)) = value_bytes (hf_value f)"
    and "list_all value_byte_ok (value_bytes (hf_value f))"
  using assms by (auto simp: field_wf_def header_value_from_bytes_Inr) (metis header_value.sel)

lemma field_line_bytes_ok: "field_wf f \<Longrightarrow> list_all value_byte_ok (field_line f)"
  using field_wf_value(2) [of f] token_printable
  by (auto simp: field_wf_def header_name_new_Inr field_line_def list_all_iff value_byte_ok_def)

lemma line_break_not_ok: "\<not> value_byte_ok CHR 0x0D" "\<not> value_byte_ok CHR 0x0A" "\<not> value_byte_ok CHR 0x00"
  by (simp_all add: value_byte_ok_def)

lemma field_line_no_breaks:
  assumes "field_wf f"
  shows "CHR 0x0D \<notin> set (field_line f)" "CHR 0x0A \<notin> set (field_line f)" "CHR 0x00 \<notin> set (field_line f)"
proof -
  have ok: "c \<in> set (field_line f) \<Longrightarrow> value_byte_ok c" for c
    using field_line_bytes_ok [OF assms] by (simp add: list_all_iff)
  show "CHR 0x0D \<notin> set (field_line f)" "CHR 0x0A \<notin> set (field_line f)" "CHR 0x00 \<notin> set (field_line f)"
    using ok line_break_not_ok by blast+
qed

lemma get_unique_loop_spec:
  "get_unique_loop name b first count =
   (case first of
      Some v \<Rightarrow> (Some v, count + length (block_get_all b name))
    | None \<Rightarrow> (case block_get_all b name of [] \<Rightarrow> (None, count)
               | v # vs \<Rightarrow> (Some v, count + length (v # vs))))"
  by (induction name b first count rule: get_unique_loop.induct)
    (auto simp: block_get_all_def split: option.splits list.splits)

section \<open>Properties\<close>

text \<open>
  header injection is impossible.  A field accepted by the block becomes a line that holds no
  carriage return, line feed or NUL, splits at its first colon into exactly the name given, and
  gives back the stored value when its optional white space is trimmed; the block invariant is
  kept.
\<close>

lemma header_push_roundtrip:
  assumes "block_wf b" and "block_push_bytes b name v = Inr b'"
  shows "block_wf b' \<and> (\<exists>f. b' = b @ [f]
    \<and> split_once_char CHR '':'' (field_line f) = Some (name, '' '' @ value_bytes (hf_value f))
    \<and> trim_ows ('' '' @ value_bytes (hf_value f)) = trim_ows v \<and> value_bytes (hf_value f) = trim_ows v
    \<and> CHR 0x0D \<notin> set (field_line f) \<and> CHR 0x0A \<notin> set (field_line f) \<and> CHR 0x00 \<notin> set (field_line f))"
proof -
  obtain n w where nw: "header_name_new name = Inr n" "header_value_from_bytes v = Inr w"
    and b': "b' = b @ [\<lparr>hf_name = n, hf_value = w\<rparr>]"
    using assms(2) by (auto simp: block_push_bytes_Inr block_push_def)
  let ?f = "\<lparr>hf_name = n, hf_value = w\<rparr>"
  have wf: "field_wf ?f" by (rule pushed_field_wf [OF nw])
  have name: "name_str n = name" and w: "value_bytes w = trim_ows v"
    using nw by (auto simp: header_name_new_Inr header_value_from_bytes_Inr)
  have "split_once_char CHR '':'' (field_line ?f) = Some (name, '' '' @ value_bytes w)"
    using field_wf_name [OF wf] name by (simp add: field_line_def split_once_char_append)
  moreover have "trim_ows ('' '' @ value_bytes w) = trim_ows v"
    using w by (simp add: trim_ows_Cons is_ows_def)
  moreover have "CHR 0x0D \<notin> set (field_line ?f) \<and> CHR 0x0A \<notin> set (field_line ?f)
      \<and> CHR 0x00 \<notin> set (field_line ?f)"
    by (simp only: field_line_no_breaks [OF wf]) simp
  ultimately show ?thesis
    using b' w block_wf_push_bytes [OF assms] by (intro conjI exI [of _ ?f]) simp_all
qed

lemma header_push_roundtrip_witness:
  "\<exists>b'. block_push_bytes block_new ''X-Tag'' '' a b '' = Inr b' \<and> block_wf b'
     \<and> block_get_first b' ''x-tag'' = Some (HeaderValue ''a b'')"
proof -
  let ?b = "[\<lparr>hf_name = HeaderName ''X-Tag'', hf_value = HeaderValue ''a b''\<rparr>]"
  have h: "block_push_bytes block_new ''X-Tag'' '' a b '' = Inr ?b"
    by (simp add: rust_eval)
  have wf: "block_wf block_new" by (simp add: block_wf_def block_new_def)
  have "block_get_first ?b ''x-tag'' = Some (HeaderValue ''a b'')"
    by (simp add: rust_eval)
  then show ?thesis using header_push_roundtrip [OF wf h] h by blast
qed

text \<open>
  C16: \<^verbatim>\<open>get_unique\<close> agrees with \<^verbatim>\<open>get_all\<close>.  Its one-pass loop returns nothing for an absent header,
  the value for a single one and the number of values as an error otherwise.
\<close>

lemma get_unique_agrees_get_all:
  "block_get_unique b name =
   (case block_get_all b name of
      [] \<Rightarrow> Inr None
    | [v] \<Rightarrow> Inr (Some v)
    | vs \<Rightarrow> Inl \<lparr>dup_name = name, dup_count = length vs\<rparr>)"
  by (auto simp: block_get_unique_def get_unique_loop_spec split: list.splits)

text \<open>
  The laws of the two header collections.  In the header block, as in the response plan, a
  push changes the lookup of a name only when the name was absent and the pushed name is the same
  up to ASCII case, and containment is the existence of a first value.
\<close>

lemma header_collections_lookup:
  "block_get_first (block_push b n v) m =
     (case block_get_first b m of Some w \<Rightarrow> Some w
      | None \<Rightarrow> if eq_ignore_ascii_case (name_str n) m then Some v else None)
   \<and> (block_contains b m \<longleftrightarrow> block_get_first b m \<noteq> None)
   \<and> block_get_all (block_push b n v) m =
       block_get_all b m @ (if eq_ignore_ascii_case (name_str n) m then [v] else [])
   \<and> plan_get (plan_push h k x) m =
       (case plan_get h m of Some w \<Rightarrow> Some w
        | None \<Rightarrow> if eq_ignore_ascii_case k m then Some x else None)
   \<and> (plan_contains h m \<longleftrightarrow> plan_get h m \<noteq> None)"
  using hb.get_first_push [of b n v m] hb.contains_get_first [of b m]
    hp.get_first_push [of h k x m] hp.contains_get_first [of h m]
  by (simp add: block_get_all_def block_push_def field_matches_def)

end
