(* ===== verification/Planner.thy ===== *)
theory Planner
  imports Header_Block
begin

text \<open>
  The response planner: \<^verbatim>\<open>eggserve-static/src/planner.rs\<close>.

  The planner is a pure function from a method, the metadata of a file and the conditional and
  range headers to a response plan.  It calls the crate \<^verbatim>\<open>httpdate\<close>, which is not part of the
  repository: its two functions are the fields of the parameter \<open>dt\<close>, and a property that depends
  on them names what it relies on.  A time is the number of nanoseconds since the Unix epoch
  (negative before it), which is the resolution and the order of \<^verbatim>\<open>SystemTime\<close>.

  The functions that can panic in the source make the results of their callers an option.  \<^verbatim>\<open>FileRange::new\<close>
  and \<^verbatim>\<open>FileRange::len\<close> never do; \<^verbatim>\<open>httpdate::fmt_http_date\<close> documents a panic for a time from the year 10000
  on, and \<open>plan_total\<close> shows that this is the only one.
\<close>

section \<open>External date functions and file metadata\<close>

type_synonym system_time = int

record httpdate =
  hd_parse :: "string \<Rightarrow> system_time option"
  hd_fmt :: "system_time \<Rightarrow> string"

record metadata =
  md_len :: u64
  md_modified :: "system_time option"

abbreviation nanos_per_sec :: int where
  "nanos_per_sec \<equiv> 1000000000"

text \<open>The first second that \<^verbatim>\<open>fmt_http_date\<close> cannot format.\<close>

definition http_date_end :: int where
  [rust_eval]: "http_date_end = 253402300800"

definition fmt_http_date :: "httpdate \<Rightarrow> system_time \<Rightarrow> string option" where
  [rust_eval]: "fmt_http_date dt t =
     (if 0 \<le> t \<and> t div nanos_per_sec < http_date_end then Some (hd_fmt dt t) else None)"

definition parse_http_date :: "httpdate \<Rightarrow> string \<Rightarrow> system_time option" where
  [rust_eval]: "parse_http_date dt s = hd_parse dt s"

section \<open>Entity tags\<close>

text \<open>
  \<^verbatim>\<open>mtime.duration_since(UNIX_EPOCH)\<close> gives the elapsed time, or as its error the time missing to the
  epoch; either is split into whole seconds and nanoseconds.
\<close>

definition generate_etag :: "metadata \<Rightarrow> string option" where
  [rust_eval]: "generate_etag m =
     (case md_modified m of
        None \<Rightarrow> None
      | Some mtime \<Rightarrow>
          let sign = (if 0 \<le> mtime then [] else ''-'');
              elapsed = (if 0 \<le> mtime then mtime else - mtime)
          in Some (''W/'' @ [CHR 0x22] @ dec (unat (md_len m)) @ ''-'' @ sign
                   @ dec (nat (elapsed div nanos_per_sec)) @ ''-''
                   @ dec (nat (elapsed mod nanos_per_sec)) @ [CHR 0x22]))"

definition weak_prefix :: string where
  [rust_eval]: "weak_prefix = ''W/''"

definition strip_weak :: "string \<Rightarrow> string" where
  [rust_eval]: "strip_weak tag = (if starts_with tag weak_prefix then drop 2 tag else tag)"

text \<open>The loop over the listed tags of \<^verbatim>\<open>evaluate_if_none_match\<close>.\<close>

fun if_none_match_loop :: "string \<Rightarrow> string list \<Rightarrow> bool" where
  "if_none_match_loop current_inner [] = False"
| "if_none_match_loop current_inner (part # parts) =
     (let etag = trim part in
      if etag = [] then if_none_match_loop current_inner parts
      else if current_inner = strip_weak etag then True
      else if_none_match_loop current_inner parts)"

definition evaluate_if_none_match :: "string \<Rightarrow> string \<Rightarrow> bool" where
  [rust_eval]: "evaluate_if_none_match if_none_match current_etag =
     (let trimmed = trim if_none_match in
      trimmed = ''*''
      \<or> if_none_match_loop (strip_weak current_etag) (split_char CHR '','' trimmed))"

definition evaluate_if_match :: "string \<Rightarrow> string option \<Rightarrow> bool" where
  [rust_eval]: "evaluate_if_match if_match current_etag =
     (let trimmed = trim if_match in
      if trimmed = ''*'' then current_etag \<noteq> None
      else case current_etag of
        None \<Rightarrow> False
      | Some current \<Rightarrow>
          if starts_with current weak_prefix then False
          else list_ex (\<lambda>part. let candidate = trim part in candidate \<noteq> [] \<and> candidate = current)
                 (split_char CHR '','' trimmed))"

section \<open>Ranges\<close>

definition parse_u64_digits :: "string \<Rightarrow> u64 option" where
  [rust_eval]: "parse_u64_digits s =
     (if s = [] \<or> \<not> list_all is_ascii_digit s then None else parse_u64 s)"

text \<open>A range outcome whose constructor may panic.\<close>

definition satisfiable :: "u64 \<Rightarrow> u64 \<Rightarrow> range_request_outcome option" where
  [rust_eval]: "satisfiable start end_inclusive = map_option Satisfiable (file_range_new start end_inclusive)"

definition parse_single_range :: "string \<Rightarrow> u64 \<Rightarrow> range_request_outcome option" where
  [rust_eval]: "parse_single_range rng file_size =
     (if file_size = 0 then Some NotSatisfiable
      else case strip_prefix_char CHR ''-'' rng of
        Some suffix_len_str \<Rightarrow>
          (case parse_u64_digits suffix_len_str of
             None \<Rightarrow> Some MalformedOrUnsupported
           | Some suffix_len \<Rightarrow>
               if suffix_len = 0 then Some NotSatisfiable
               else let start = saturating_sub file_size suffix_len in
                 if start \<ge> file_size then Some NotSatisfiable
                 else satisfiable start (file_size - 1))
      | None \<Rightarrow>
          (case split_once_char CHR ''-'' rng of
             None \<Rightarrow> Some MalformedOrUnsupported
           | Some (part0, part1) \<Rightarrow>
               (case parse_u64_digits part0 of
                  None \<Rightarrow> Some MalformedOrUnsupported
                | Some start \<Rightarrow>
                    if part1 = [] then
                      (if start \<ge> file_size then Some NotSatisfiable
                       else satisfiable start (file_size - 1))
                    else
                      (case parse_u64_digits part1 of
                         None \<Rightarrow> Some MalformedOrUnsupported
                       | Some end_pos \<Rightarrow>
                           if start > end_pos then Some MalformedOrUnsupported
                           else if start \<ge> file_size then Some NotSatisfiable
                           else satisfiable start (min end_pos (file_size - 1))))))"

definition evaluate_range_header :: "string \<Rightarrow> u64 \<Rightarrow> range_request_outcome option" where
  [rust_eval]: "evaluate_range_header header file_size =
     (let rng = trim header in
      if length rng < 6 \<or> \<not> eq_ignore_ascii_case (take 6 rng) ''bytes='' then
        Some MalformedOrUnsupported
      else
        let range_value = drop 6 rng in
        if range_value = [] then Some MalformedOrUnsupported
        else
          let ranges = split_char CHR '','' range_value; first = hd ranges in
          if tl ranges \<noteq> [] then Some MultipleRanges
          else parse_single_range (trim first) file_size)"

section \<open>Conditional headers\<close>

definition evaluate_conditional_headers ::
  "httpdate \<Rightarrow> string \<Rightarrow> string option \<Rightarrow> string option \<Rightarrow> string option
   \<Rightarrow> conditional_request_outcome" where
  [rust_eval]: "evaluate_conditional_headers dt current_etag last_modified if_none_match if_modified_since =
     (case if_none_match of
        Some inm \<Rightarrow>
          if evaluate_if_none_match inm current_etag then
            let headers = plan_push plan_new ''etag'' current_etag in
            NotModified (case last_modified of Some lm \<Rightarrow> plan_push headers ''last-modified'' lm
                         | None \<Rightarrow> headers)
          else FullResponse
      | None \<Rightarrow>
          (case if_modified_since of
             Some ims \<Rightarrow>
               (case parse_http_date dt ims of
                  Some ims_time \<Rightarrow>
                    (case last_modified of
                       Some lm \<Rightarrow>
                         (case parse_http_date dt lm of
                            Some lm_time \<Rightarrow>
                              if lm_time \<le> ims_time then
                                NotModified (plan_push (plan_push plan_new ''etag'' current_etag)
                                              ''last-modified'' lm)
                              else FullResponse
                          | None \<Rightarrow> FullResponse)
                     | None \<Rightarrow> FullResponse)
                | None \<Rightarrow> Malformed)
           | None \<Rightarrow> FullResponse))"

definition evaluate_cache_validation ::
  "httpdate \<Rightarrow> string option \<Rightarrow> string option \<Rightarrow> string option \<Rightarrow> string option
   \<Rightarrow> header_map_plan option" where
  [rust_eval]: "evaluate_cache_validation dt etag last_modified if_none_match if_modified_since =
     (case etag of
        Some etag_val \<Rightarrow>
          (case evaluate_conditional_headers dt etag_val last_modified if_none_match if_modified_since of
             NotModified headers \<Rightarrow> Some headers
           | _ \<Rightarrow> None)
      | None \<Rightarrow>
          if (case if_none_match of Some inm \<Rightarrow> trim inm = ''*'' | None \<Rightarrow> False) then
            Some (case last_modified of Some lm \<Rightarrow> plan_push plan_new ''last-modified'' lm
                  | None \<Rightarrow> plan_new)
          else if if_none_match \<noteq> None then None
          else
            (case if_modified_since of
               Some ims \<Rightarrow>
                 (case parse_http_date dt ims of
                    Some ims_time \<Rightarrow>
                      (case last_modified of
                         Some lm \<Rightarrow>
                           (case parse_http_date dt lm of
                              Some lm_time \<Rightarrow>
                                if lm_time \<le> ims_time
                                then Some (plan_push plan_new ''last-modified'' lm) else None
                            | None \<Rightarrow> None)
                       | None \<Rightarrow> None)
                  | None \<Rightarrow> None)
             | None \<Rightarrow> None))"

definition evaluate_if_range ::
  "httpdate \<Rightarrow> string \<Rightarrow> string option \<Rightarrow> string option \<Rightarrow> conditional_request_outcome" where
  [rust_eval]: "evaluate_if_range dt if_range current_etag last_modified =
     (let trimmed = trim if_range in
      if trimmed = [] then Malformed
      else if starts_with trimmed [CHR 0x22] then
        (case current_etag of
           Some current \<Rightarrow>
             if \<not> starts_with current weak_prefix \<and> current = trimmed then NotModified plan_new
             else FullResponse
         | None \<Rightarrow> FullResponse)
      else if starts_with trimmed weak_prefix then FullResponse
      else
        (case last_modified of
           Some lm \<Rightarrow>
             (case (parse_http_date dt trimmed, parse_http_date dt lm) of
                (Some if_range_time, Some lm_time) \<Rightarrow>
                  if lm_time \<le> if_range_time then NotModified plan_new else FullResponse
              | _ \<Rightarrow> FullResponse)
         | None \<Rightarrow> FullResponse))"

definition if_range_allows_range ::
  "httpdate \<Rightarrow> string \<Rightarrow> string option \<Rightarrow> string option \<Rightarrow> bool" where
  [rust_eval]: "if_range_allows_range dt if_range current_etag last_modified =
     (case evaluate_if_range dt if_range current_etag last_modified of
        NotModified _ \<Rightarrow> True | _ \<Rightarrow> False)"

section \<open>Response builders\<close>

definition build_precondition_failed :: static_response_plan where
  [rust_eval]: "build_precondition_failed =
     \<lparr>plan_status = PRECONDITION_FAILED,
      plan_headers = plan_push plan_new ''content-length'' ''0'', plan_body = BodyEmpty\<rparr>"

text \<open>The two trailing validators that every representation carries, in the order of the source.\<close>

definition push_validators :: "header_map_plan \<Rightarrow> string option \<Rightarrow> string option \<Rightarrow> header_map_plan" where
  [rust_eval]: "push_validators headers last_modified etag =
     (let h1 = (case last_modified of Some lm \<Rightarrow> plan_push headers ''last-modified'' lm | None \<Rightarrow> headers)
      in case etag of Some tag \<Rightarrow> plan_push h1 ''etag'' tag | None \<Rightarrow> h1)"

definition build_full_response ::
  "read_only_method \<Rightarrow> u64 \<Rightarrow> string \<Rightarrow> string option \<Rightarrow> string option \<Rightarrow> static_response_plan" where
  [rust_eval]: "build_full_response meth len content_type etag last_modified =
     (let h = plan_push plan_new ''content-length'' (dec (unat len));
          h = plan_push h ''content-type'' content_type;
          h = plan_push h ''accept-ranges'' ''bytes'';
          h = plan_push h ''x-content-type-options'' ''nosniff''
      in \<lparr>plan_status = STATUS_OK, plan_headers = push_validators h last_modified etag,
          plan_body = (if meth = Head then BodyEmpty else FileFull)\<rparr>)"

definition build_range_response ::
  "read_only_method \<Rightarrow> file_range \<Rightarrow> u64 \<Rightarrow> string \<Rightarrow> string option \<Rightarrow> string option
   \<Rightarrow> static_response_plan option" where
  [rust_eval]: "build_range_response meth rng file_size content_type etag last_modified =
     map_option (\<lambda>content_length.
       (let h = plan_push plan_new ''content-length'' (dec (unat content_length));
            h = plan_push h ''content-type'' content_type;
            h = plan_push h ''accept-ranges'' ''bytes'';
            h = plan_push h ''content-range''
                  (''bytes '' @ dec (unat (fr_start rng)) @ ''-'' @ dec (unat (fr_end_inclusive rng))
                   @ ''/'' @ dec (unat file_size));
            h = plan_push h ''x-content-type-options'' ''nosniff''
        in \<lparr>plan_status = PARTIAL_CONTENT, plan_headers = push_validators h last_modified etag,
            plan_body = (if meth = Head then BodyEmpty
                         else FileRange (fr_start rng) (fr_end_inclusive rng))\<rparr>))
       (range_len rng)"

definition build_not_range_satisfiable :: "u64 \<Rightarrow> static_response_plan" where
  [rust_eval]: "build_not_range_satisfiable file_size =
     (let h = plan_push plan_new ''content-length'' ''0'';
          h = plan_push h ''accept-ranges'' ''bytes'';
          h = plan_push h ''content-range'' (''bytes */'' @ dec (unat file_size))
      in \<lparr>plan_status = NOT_RANGE_SATISFIABLE, plan_headers = h, plan_body = BodyEmpty\<rparr>)"

section \<open>The planner\<close>

record conditionals =
  c_if_match :: "string option"
  c_if_unmodified_since :: "string option"
  c_if_none_match :: "string option"
  c_if_modified_since :: "string option"
  c_range :: "string option"
  c_if_range :: "string option"

definition plan_etag :: "metadata \<Rightarrow> static_metadata_policy \<Rightarrow> string option" where
  [rust_eval]: "plan_etag m policy = (if emit_etag policy then generate_etag m else None)"

text \<open>
  Modification times before the epoch give no \<^verbatim>\<open>Last-Modified\<close>; one that cannot be formatted panics, which is
  the outer \<open>None\<close>.
\<close>

definition format_last_modified :: "httpdate \<Rightarrow> metadata \<Rightarrow> static_metadata_policy \<Rightarrow> string option option" where
  [rust_eval]: "format_last_modified dt m policy =
     (if emit_last_modified policy then
        (case md_modified m of
           Some t \<Rightarrow> if 0 \<le> t then map_option Some (fmt_http_date dt t) else Some None
         | None \<Rightarrow> Some None)
      else Some None)"

text \<open>Steps 1 and 2: whether a lost-update precondition fails.\<close>

definition lost_update_fails ::
  "httpdate \<Rightarrow> conditionals \<Rightarrow> string option \<Rightarrow> string option \<Rightarrow> bool" where
  [rust_eval]: "lost_update_fails dt c etag last_modified =
     (case c_if_match c of
        Some ifm \<Rightarrow>
          trim ifm \<noteq> ''*''
          \<and> \<not> (case etag of Some current \<Rightarrow> evaluate_if_match ifm (Some current) | None \<Rightarrow> False)
      | None \<Rightarrow>
          (case c_if_unmodified_since c of
             Some ius \<Rightarrow>
               (case parse_http_date dt ius of
                  Some ius_time \<Rightarrow>
                    (case Option.bind last_modified (parse_http_date dt) of
                       Some lm_time \<Rightarrow> lm_time > ius_time
                     | None \<Rightarrow> False)
                | None \<Rightarrow> False)
           | None \<Rightarrow> False))"

text \<open>Step 4: the range headers; \<open>None\<close> inside the outer option means that the full response is served.\<close>

definition plan_range ::
  "httpdate \<Rightarrow> read_only_method \<Rightarrow> u64 \<Rightarrow> string \<Rightarrow> conditionals \<Rightarrow> string option \<Rightarrow> string option
   \<Rightarrow> static_response_plan option option" where
  [rust_eval]: "plan_range dt meth len content_type c etag last_modified =
     (case c_range c of
        None \<Rightarrow> Some None
      | Some rng \<Rightarrow>
          Option.bind (evaluate_range_header rng len) (\<lambda>outcome.
            case outcome of
              Satisfiable file_range \<Rightarrow>
                if (case c_if_range c of
                      Some if_range \<Rightarrow> if_range_allows_range dt if_range etag last_modified
                    | None \<Rightarrow> True)
                then map_option Some
                       (build_range_response meth file_range len content_type etag last_modified)
                else Some None
            | NotSatisfiable \<Rightarrow>
                if (case c_if_range c of
                      Some v \<Rightarrow> \<not> if_range_allows_range dt v etag last_modified
                    | None \<Rightarrow> False)
                then Some None
                else Some (Some (build_not_range_satisfiable len))
            | _ \<Rightarrow> Some None))"

definition plan_validated ::
  "httpdate \<Rightarrow> read_only_method \<Rightarrow> u64 \<Rightarrow> string \<Rightarrow> conditionals \<Rightarrow> string option \<Rightarrow> string option
   \<Rightarrow> static_response_plan option" where
  [rust_eval]: "plan_validated dt meth len content_type c etag last_modified =
     (if lost_update_fails dt c etag last_modified then Some build_precondition_failed
      else case evaluate_cache_validation dt etag last_modified (c_if_none_match c)
                  (c_if_modified_since c) of
        Some headers \<Rightarrow>
          Some \<lparr>plan_status = NOT_MODIFIED, plan_headers = headers, plan_body = BodyEmpty\<rparr>
      | None \<Rightarrow>
          Option.bind (plan_range dt meth len content_type c etag last_modified) (\<lambda>ranged.
            case ranged of
              Some plan \<Rightarrow> Some plan
            | None \<Rightarrow> Some (build_full_response meth len content_type etag last_modified)))"

definition plan_with_metadata ::
  "httpdate \<Rightarrow> read_only_method \<Rightarrow> metadata \<Rightarrow> string \<Rightarrow> conditionals \<Rightarrow> static_metadata_policy
   \<Rightarrow> static_response_plan option" where
  [rust_eval]: "plan_with_metadata dt meth m content_type c policy =
     Option.bind (format_last_modified dt m policy) (\<lambda>last_modified.
       plan_validated dt meth (md_len m) content_type c (plan_etag m policy) last_modified)"

definition plan_with_preconditions ::
  "httpdate \<Rightarrow> read_only_method \<Rightarrow> metadata \<Rightarrow> string \<Rightarrow> conditionals \<Rightarrow> static_response_plan option" where
  [rust_eval]: "plan_with_preconditions dt meth m content_type c =
     plan_with_metadata dt meth m content_type c metadata_policy_standard"

definition plan_file_response ::
  "httpdate \<Rightarrow> read_only_method \<Rightarrow> metadata \<Rightarrow> string \<Rightarrow> conditionals \<Rightarrow> static_response_plan option" where
  [rust_eval]: "plan_file_response dt meth m content_type c =
     plan_with_preconditions dt meth m content_type
       (c\<lparr>c_if_match := None, c_if_unmodified_since := None\<rparr>)"

definition plan_directory_listing :: "nat \<Rightarrow> bool \<Rightarrow> static_response_plan" where
  [rust_eval]: "plan_directory_listing content_length is_head =
     (let h = plan_push plan_new ''content-type'' ''text/html; charset=utf-8'';
          h = (if is_head then plan_push h ''content-length'' (dec content_length) else h);
          h = plan_push h ''x-content-type-options'' ''nosniff'';
          h = plan_push h ''content-security-policy''
                (''default-src '' @ [CHR 0x27] @ ''none'' @ [CHR 0x27] @ ''; base-uri '' @ [CHR 0x27]
                 @ ''none'' @ [CHR 0x27] @ ''; form-action '' @ [CHR 0x27] @ ''none'' @ [CHR 0x27]);
          h = plan_push h ''referrer-policy'' ''no-referrer''
      in \<lparr>plan_status = STATUS_OK, plan_headers = h,
          plan_body = (if is_head then BodyEmpty else FullBytes [])\<rparr>)"

section \<open>Range lemmas\<close>

lemma unat_u64_pred: "(sz :: u64) \<noteq> 0 \<Longrightarrow> unat (sz - 1) = unat sz - 1"
  by (simp add: unat_sub word_le_nat_alt unat_gt_0 Suc_le_eq)

lemma unat_u64_pos: "(sz :: u64) \<noteq> 0 \<Longrightarrow> 0 < unat sz"
  by (simp add: unat_gt_0)

lemma u64_pred_less: "(sz :: u64) \<noteq> 0 \<Longrightarrow> sz - 1 < sz"
  using unat_u64_pos [of sz] by (simp add: word_less_nat_alt unat_u64_pred)

lemma u64_less_pred:
  fixes a sz :: u64
  assumes "a < sz"
  shows "a \<le> sz - 1"
proof -
  have "sz \<noteq> 0" using assms by auto
  then show ?thesis using assms by (simp add: word_less_nat_alt word_le_nat_alt unat_u64_pred)
qed

lemma satisfiable_below:
  assumes "b < sz"
  shows "satisfiable a b = Some (Satisfiable \<lparr>fr_start = a, fr_end_inclusive = b\<rparr>)"
proof -
  have "b \<noteq> u64_max"
    using assms by (auto simp: word_less_nat_alt) (use unat_u64_less [of sz] in simp)
  then show ?thesis
    using file_range_new_Some [of a b] by (simp add: satisfiable_def)
qed

text \<open>
  A single range never panics, and a satisfiable one is non-empty and lies inside the file.
\<close>

lemma parse_single_range_sound:
  "\<exists>outcome. parse_single_range spec sz = Some outcome \<and>
     (\<forall>fr. outcome = Satisfiable fr \<longrightarrow> fr_start fr \<le> fr_end_inclusive fr \<and> fr_end_inclusive fr < sz)"
proof (cases "sz = 0")
  case False
  have pred: "sz - 1 < sz" using False by (rule u64_pred_less)
  have sat: "satisfiable a (sz - 1) =
      Some (Satisfiable \<lparr>fr_start = a, fr_end_inclusive = sz - 1\<rparr>)" for a
    using pred by (rule satisfiable_below)
  have sat_min: "satisfiable a (min b (sz - 1)) =
      Some (Satisfiable \<lparr>fr_start = a, fr_end_inclusive = min b (sz - 1)\<rparr>)" for a b
    using pred by (intro satisfiable_below [where sz = sz]) (auto simp: min_def)
  have inside: "min b (sz - 1) < sz \<and> a \<le> min b (sz - 1)" if "a \<le> b" "a < sz" for a b
    using that pred u64_less_pred [of a sz] by (auto simp: min_def)
  show ?thesis
    using False pred u64_less_pred [of _ sz] inside
    by (auto simp: parse_single_range_def Let_def sat sat_min not_le not_less
        split: option.splits)
qed (simp add: parse_single_range_def)

lemma evaluate_range_header_sound:
  "\<exists>outcome. evaluate_range_header header sz = Some outcome \<and>
     (\<forall>fr. outcome = Satisfiable fr \<longrightarrow> fr_start fr \<le> fr_end_inclusive fr \<and> fr_end_inclusive fr < sz)"
  using parse_single_range_sound
  by (auto simp: evaluate_range_header_def Let_def)

lemma evaluate_range_header_SatisfiableD:
  assumes "evaluate_range_header header sz = Some (Satisfiable fr)"
  shows "fr_start fr \<le> fr_end_inclusive fr" and "fr_end_inclusive fr < sz"
  using evaluate_range_header_sound [of header sz] assms by auto

lemma range_len_below:
  assumes "fr_start fr \<le> fr_end_inclusive fr" and "fr_end_inclusive fr < sz"
  shows "\<exists>n. range_len fr = Some n
    \<and> unat n = unat (fr_end_inclusive fr) - unat (fr_start fr) + 1 \<and> n \<le> sz \<and> 0 < n"
proof -
  have "fr_end_inclusive fr \<noteq> u64_max"
    using assms(2) by (auto simp: word_less_nat_alt) (use unat_u64_less [of sz] in simp)
  then have "range_len fr \<noteq> None"
    by (simp add: range_len_def checked_len_cases)
  then obtain n where n: "range_len fr = Some n" by blast
  have "unat n = unat (fr_end_inclusive fr) - unat (fr_start fr) + 1"
    using assms(1) n by (rule unat_range_len)
  with n assms show ?thesis
    by (intro exI [of _ n]) (auto simp: word_less_nat_alt word_le_nat_alt)
qed

section \<open>Printed ranges\<close>

lemma visible_last_dec: "visible (last (dec n))"
  using dec_digits [of n] last_in_set [OF dec_not_Nil, of n]
  by (auto simp: list_all_iff intro: visible_digit)

lemma visible_hd_dec: "visible (hd (dec n))"
  using dec_digits [of n] hd_in_set [OF dec_not_Nil, of n]
  by (auto simp: list_all_iff intro: visible_digit)

lemma parse_u64_digits_dec: "parse_u64_digits (dec (unat (w :: u64))) = Some w"
  using parse_unsigned_dec [of "unat w" 64] unat_u64_less [of w] dec_digits [of "unat w"]
  by (simp add: parse_u64_digits_def parse_u64_def)

lemma dec_minus [simp]: "CHR ''-'' \<notin> set (dec n)" and dec_comma [simp]: "CHR '','' \<notin> set (dec n)"
  by (rule dec_no_char, simp add: is_ascii_digit_def)+

lemma strip_prefix_dec [simp]: "strip_prefix_char CHR ''-'' (dec n @ s) = None"
proof -
  obtain c r where "dec n = c # r" by (cases "dec n") auto
  moreover from this have "c \<noteq> CHR ''-''" using dec_minus [of n] by auto
  ultimately show ?thesis by simp
qed

lemma evaluate_range_header_bytes:
  assumes "v \<noteq> []" and "visible (hd v)" and "visible (last v)" and "CHR '','' \<notin> set v"
  shows "evaluate_range_header (''bytes='' @ v) sz = parse_single_range v sz"
proof -
  have "trim (''bytes='' @ v) = ''bytes='' @ v"
    using assms(1,3) by (intro trim_visible) (auto simp: visible_def)
  moreover have "trim v = v" using assms by (intro trim_visible)
  ultimately show ?thesis
    using assms by (simp add: evaluate_range_header_def Let_def split_char_no_sep)
qed

lemma parse_closed_range:
  assumes "a < sz" and "a \<le> b"
  shows "parse_single_range (dec (unat a) @ ''-'' @ dec (unat b)) sz =
    Some (Satisfiable \<lparr>fr_start = a, fr_end_inclusive = min b (sz - 1)\<rparr>)"
proof -
  have "sz \<noteq> 0" using assms(1) by auto
  then have "min b (sz - 1) < sz" using u64_pred_less [of sz] by (auto simp: min_def)
  then have "satisfiable a (min b (sz - 1)) =
      Some (Satisfiable \<lparr>fr_start = a, fr_end_inclusive = min b (sz - 1)\<rparr>)"
    by (rule satisfiable_below)
  with \<open>sz \<noteq> 0\<close> assms show ?thesis
    by (simp add: parse_single_range_def split_once_char_append parse_u64_digits_dec not_le not_less)
qed

lemma parse_open_range:
  assumes "a < sz"
  shows "parse_single_range (dec (unat a) @ ''-'') sz =
    Some (Satisfiable \<lparr>fr_start = a, fr_end_inclusive = sz - 1\<rparr>)"
proof -
  have "sz \<noteq> 0" using assms by auto
  then have "satisfiable a (sz - 1) = Some (Satisfiable \<lparr>fr_start = a, fr_end_inclusive = sz - 1\<rparr>)"
    by (intro satisfiable_below [where sz = sz] u64_pred_less)
  with \<open>sz \<noteq> 0\<close> assms show ?thesis
    by (simp add: parse_single_range_def split_once_char_append parse_u64_digits_dec not_le)
qed

lemma saturating_sub_less:
  fixes sz n :: u64
  assumes "sz \<noteq> 0" and "n \<noteq> 0"
  shows "saturating_sub sz n < sz \<and> saturating_sub sz n = sz - min n sz"
proof (cases "sz < n")
  case True
  then show ?thesis
    using assms by (auto simp: saturating_sub_def min_def word_neq_0_conv)
next
  case False
  then have "unat (sz - n) = unat sz - unat n" by (simp add: unat_sub not_less)
  then show ?thesis
    using False unat_u64_pos [OF assms(1)] unat_u64_pos [OF assms(2)]
    by (simp add: saturating_sub_def word_less_nat_alt min_def word_le_nat_alt)
qed

lemma parse_suffix_range:
  assumes "sz \<noteq> 0" and "n \<noteq> 0"
  shows "parse_single_range (''-'' @ dec (unat n)) sz =
    Some (Satisfiable \<lparr>fr_start = sz - min n sz, fr_end_inclusive = sz - 1\<rparr>)"
proof -
  have "satisfiable (sz - min n sz) (sz - 1) =
      Some (Satisfiable \<lparr>fr_start = sz - min n sz, fr_end_inclusive = sz - 1\<rparr>)"
    using assms(1) by (intro satisfiable_below [where sz = sz] u64_pred_less)
  then show ?thesis
    using assms saturating_sub_less [OF assms]
    by (auto simp: parse_single_range_def parse_u64_digits_dec Let_def not_le)
qed

section \<open>Planner lemmas\<close>

text \<open>The five ways a plan can come about, each with what is known of it.\<close>

lemma plan_range_cases:
  obtains (Full) "plan_range dt meth len ct c etag lm = Some None"
  | (Partial) fr where "fr_start fr \<le> fr_end_inclusive fr" "fr_end_inclusive fr < len"
      "plan_range dt meth len ct c etag lm = map_option Some (build_range_response meth fr len ct etag lm)"
      "case c_if_range c of Some v \<Rightarrow> if_range_allows_range dt v etag lm | None \<Rightarrow> True"
  | (Unsatisfiable) "plan_range dt meth len ct c etag lm = Some (Some (build_not_range_satisfiable len))"
      "case c_if_range c of Some v \<Rightarrow> if_range_allows_range dt v etag lm | None \<Rightarrow> True"
proof (cases "c_range c")
  case None
  then show ?thesis by (intro Full) (simp add: plan_range_def)
next
  case (Some rng)
  obtain outcome where o: "evaluate_range_header rng len = Some outcome"
    using evaluate_range_header_sound by blast
  show ?thesis
  proof (cases outcome)
    case (Satisfiable fr)
    with o have "fr_start fr \<le> fr_end_inclusive fr" "fr_end_inclusive fr < len"
      using evaluate_range_header_SatisfiableD by blast+
    note inside = this
    show ?thesis
    proof (cases "case c_if_range c of Some v \<Rightarrow> if_range_allows_range dt v etag lm | None \<Rightarrow> True")
      case True
      then show ?thesis
        using Some o Satisfiable inside by (intro Partial [of fr]) (simp_all add: plan_range_def)
    next
      case False
      then show ?thesis
        using Some o Satisfiable by (intro Full) (simp add: plan_range_def)
    qed
  next
    case NotSatisfiable
    note unsat = this
    show ?thesis
    proof (cases "case c_if_range c of Some v \<Rightarrow> \<not> if_range_allows_range dt v etag lm | None \<Rightarrow> False")
      case True
      then show ?thesis using Some o unsat by (intro Full) (simp add: plan_range_def)
    next
      case False
      then show ?thesis
        using Some o unsat by (intro Unsatisfiable) (simp_all add: plan_range_def split: option.splits)
    qed
  qed (use Some o Full in \<open>simp_all add: plan_range_def\<close>)
qed

lemma plan_range_cong:
  assumes "c_range c = c_range c'" and "c_if_range c = c_if_range c'"
  shows "plan_range dt meth len ct c etag lm = plan_range dt meth len ct c' etag lm"
  unfolding plan_range_def assms by (rule refl)

lemma plan_with_metadata_cong:
  assumes "\<And>e l. lost_update_fails dt c e l = lost_update_fails dt c' e l"
    and "\<And>e l. evaluate_cache_validation dt e l (c_if_none_match c) (c_if_modified_since c) =
           evaluate_cache_validation dt e l (c_if_none_match c') (c_if_modified_since c')"
    and "\<And>len e l. plan_range dt meth len ct c e l = plan_range dt meth len ct c' e l"
  shows "plan_with_metadata dt meth m ct c policy = plan_with_metadata dt meth m ct c' policy"
  unfolding plan_with_metadata_def plan_validated_def assms by (rule refl)

text \<open>A modification time that the date library can format, or none that is asked for.\<close>

definition date_formattable :: "metadata \<Rightarrow> static_metadata_policy \<Rightarrow> bool" where
  [rust_eval]: "date_formattable m policy \<longleftrightarrow>
     (emit_last_modified policy \<longrightarrow>
        (case md_modified m of Some t \<Rightarrow> t div nanos_per_sec < http_date_end | None \<Rightarrow> True))"

definition plan_last_modified :: "httpdate \<Rightarrow> metadata \<Rightarrow> static_metadata_policy \<Rightarrow> string option" where
  [rust_eval]: "plan_last_modified dt m policy =
     (if emit_last_modified policy then
        (case md_modified m of
           Some t \<Rightarrow> if 0 \<le> t then Some (hd_fmt dt t) else None
         | None \<Rightarrow> None)
      else None)"

lemma format_last_modified_eq:
  "format_last_modified dt m policy = (if date_formattable m policy then Some (plan_last_modified dt m policy) else None)"
proof -
  have "t div nanos_per_sec < http_date_end" if "t < 0" for t :: int
    using that div_neg_pos_less0 [of t nanos_per_sec] by (simp add: http_date_end_def)
  then show ?thesis
    by (auto simp: format_last_modified_def fmt_http_date_def date_formattable_def plan_last_modified_def
        split: option.splits)
qed

lemma plan_with_metadata_eq:
  "plan_with_metadata dt meth m ct c policy =
     (if date_formattable m policy
      then plan_validated dt meth (md_len m) ct c (plan_etag m policy) (plan_last_modified dt m policy) else None)"
  by (simp add: plan_with_metadata_def format_last_modified_eq)

lemma bind_map_Some: "Option.bind (map_option Some p) (case_option d Some) = p"
  by (cases p) auto

lemma plan_cases:
  fixes dt meth m ct c policy
  defines "etag \<equiv> plan_etag m policy" and "lm \<equiv> plan_last_modified dt m policy"
  defines "plan \<equiv> plan_validated dt meth (md_len m) ct c etag lm"
  obtains (Failed) "lost_update_fails dt c etag lm" "plan = Some build_precondition_failed"
  | (NotMod) headers where
      "evaluate_cache_validation dt etag lm (c_if_none_match c) (c_if_modified_since c) = Some headers"
      "plan = Some \<lparr>plan_status = NOT_MODIFIED, plan_headers = headers, plan_body = BodyEmpty\<rparr>"
  | (Partial) fr where "fr_start fr \<le> fr_end_inclusive fr" "fr_end_inclusive fr < md_len m"
      "plan = build_range_response meth fr (md_len m) ct etag lm"
      "case c_if_range c of Some v \<Rightarrow> if_range_allows_range dt v etag lm | None \<Rightarrow> True"
  | (Unsatisfiable) "plan = Some (build_not_range_satisfiable (md_len m))"
      "case c_if_range c of Some v \<Rightarrow> if_range_allows_range dt v etag lm | None \<Rightarrow> True"
  | (Full) "plan = Some (build_full_response meth (md_len m) ct etag lm)"
proof (cases "lost_update_fails dt c etag lm")
  case True
  then show ?thesis
    by (intro Failed) (simp_all add: plan_def plan_validated_def)
next
  case False
  note ok = this
  show ?thesis
  proof (cases "evaluate_cache_validation dt etag lm (c_if_none_match c) (c_if_modified_since c)")
    case (Some headers)
    then show ?thesis using ok
      by (intro NotMod) (simp_all add: plan_def plan_validated_def)
  next
    case None
    then have eq: "plan = Option.bind (plan_range dt meth (md_len m) ct c etag lm)
        (case_option (Some (build_full_response meth (md_len m) ct etag lm)) Some)"
      using ok by (simp add: plan_def plan_validated_def)
    show ?thesis
      by (rule plan_range_cases [of dt meth "md_len m" ct c etag lm])
        (use eq Full Partial Unsatisfiable in \<open>simp_all add: bind_map_Some\<close>)
  qed
qed

lemmas header_eval =
  hp.get_first_push hp.get_first_empty eq_ignore_ascii_case_def to_ascii_lowercase_def
  to_ascii_lowercase_char_def is_ascii_uppercase_def

lemma push_validators_other:
  assumes "\<not> eq_ignore_ascii_case ''last-modified'' name" and "\<not> eq_ignore_ascii_case ''etag'' name"
  shows "plan_get (push_validators h lm etag) name = plan_get h name"
  using assms by (auto simp: push_validators_def Let_def hp.get_first_push split: option.splits)

lemma full_response_content_length:
  "plan_get (plan_headers (build_full_response meth len ct etag lm)) ''content-length'' = Some (dec (unat len))"
  by (simp add: build_full_response_def Let_def push_validators_other header_eval)

lemma range_response_SomeD:
  assumes "fr_start fr \<le> fr_end_inclusive fr" and "fr_end_inclusive fr < len"
  shows "\<exists>p. build_range_response meth fr len ct etag lm = Some p
    \<and> plan_status p = PARTIAL_CONTENT
    \<and> plan_body p = (if meth = Head then BodyEmpty else FileRange (fr_start fr) (fr_end_inclusive fr))
    \<and> plan_get (plan_headers p) ''content-length''
        = Some (dec (unat (fr_end_inclusive fr) - unat (fr_start fr) + 1))
    \<and> plan_get (plan_headers p) ''content-range'' = Some (''bytes '' @ dec (unat (fr_start fr)) @ ''-''
        @ dec (unat (fr_end_inclusive fr)) @ ''/'' @ dec (unat len))"
proof -
  obtain n where "range_len fr = Some n"
    and "unat n = unat (fr_end_inclusive fr) - unat (fr_start fr) + 1"
    using range_len_below [OF assms] by blast
  then show ?thesis
    by (simp add: build_range_response_def Let_def push_validators_other header_eval)
qed

text \<open>What every plan promises about its status, length headers and body.\<close>

definition plan_consistent :: "read_only_method \<Rightarrow> metadata \<Rightarrow> static_response_plan \<Rightarrow> bool" where
  "plan_consistent meth m p \<longleftrightarrow>
     (meth = Head \<longrightarrow> plan_body p = BodyEmpty)
     \<and> (plan_status p = 200 \<longrightarrow>
          plan_get (plan_headers p) ''content-length'' = Some (dec (unat (md_len m))))
     \<and> (plan_status p \<in> {412, 416} \<longrightarrow> plan_get (plan_headers p) ''content-length'' = Some ''0'')
     \<and> (case plan_body p of
          FileFull \<Rightarrow> plan_status p = 200
        | FileRange a b \<Rightarrow>
            plan_status p = 206 \<and> a \<le> b \<and> b < md_len m
            \<and> plan_get (plan_headers p) ''content-length'' = Some (dec (unat b - unat a + 1))
            \<and> plan_get (plan_headers p) ''content-range'' =
                Some (''bytes '' @ dec (unat a) @ ''-'' @ dec (unat b) @ ''/'' @ dec (unat (md_len m)))
        | BodyEmpty \<Rightarrow> meth = Head \<or> plan_status p \<in> {304, 412, 416}
        | FullBytes _ \<Rightarrow> False)"

lemma full_response_consistent: "plan_consistent meth m (build_full_response meth (md_len m) ct etag lm)"
  using full_response_content_length [of meth "md_len m" ct etag lm]
  by (cases meth) (simp_all add: plan_consistent_def build_full_response_def Let_def STATUS_OK_def)

lemma fixed_plans_consistent:
  "plan_consistent meth m build_precondition_failed"
  "plan_consistent meth m (build_not_range_satisfiable (md_len m))"
  "plan_consistent meth m \<lparr>plan_status = NOT_MODIFIED, plan_headers = headers, plan_body = BodyEmpty\<rparr>"
  by (simp_all add: plan_consistent_def build_precondition_failed_def build_not_range_satisfiable_def
      Let_def header_eval PRECONDITION_FAILED_def NOT_RANGE_SATISFIABLE_def NOT_MODIFIED_def)

lemma range_response_consistent:
  assumes "fr_start fr \<le> fr_end_inclusive fr" and "fr_end_inclusive fr < md_len m"
  shows "\<exists>p. build_range_response meth fr (md_len m) ct etag lm = Some p \<and> plan_consistent meth m p"
proof -
  obtain p where p: "build_range_response meth fr (md_len m) ct etag lm = Some p"
    and "plan_status p = PARTIAL_CONTENT"
    and "plan_body p = (if meth = Head then BodyEmpty else FileRange (fr_start fr) (fr_end_inclusive fr))"
    and "plan_get (plan_headers p) ''content-length''
        = Some (dec (unat (fr_end_inclusive fr) - unat (fr_start fr) + 1))"
    and "plan_get (plan_headers p) ''content-range'' = Some (''bytes '' @ dec (unat (fr_start fr)) @ ''-''
        @ dec (unat (fr_end_inclusive fr)) @ ''/'' @ dec (unat (md_len m)))"
    using range_response_SomeD [OF assms] by metis
  then have "plan_consistent meth m p"
    using assms by (simp add: plan_consistent_def PARTIAL_CONTENT_def)
  with p show ?thesis by blast
qed

lemma evaluate_if_match_weak:
  "trim ifm \<noteq> ''*'' \<Longrightarrow> starts_with tag weak_prefix \<Longrightarrow> \<not> evaluate_if_match ifm (Some tag)"
  by (simp add: evaluate_if_match_def Let_def)

lemma generate_etag_weak: "generate_etag m = Some tag \<Longrightarrow> starts_with tag weak_prefix"
  by (auto simp: generate_etag_def Let_def starts_with_def weak_prefix_def split: option.splits)

lemma plan_etag_weak: "plan_etag m policy = Some tag \<Longrightarrow> starts_with tag weak_prefix"
  by (auto simp: plan_etag_def generate_etag_weak split: if_splits)

lemma if_range_tag_denied:
  assumes "etag = None \<or> (\<exists>tag. etag = Some tag \<and> starts_with tag weak_prefix)"
    and "starts_with (trim v) [CHR 0x22] \<or> starts_with (trim v) weak_prefix"
  shows "\<not> if_range_allows_range dt v etag lm"
  using assms by (auto simp: if_range_allows_range_def evaluate_if_range_def Let_def)

lemma plan_total:
  assumes "date_formattable m policy"
  shows "\<exists>p. plan_with_metadata dt meth m ct c policy = Some p"
  unfolding plan_with_metadata_eq if_P [OF assms]
proof (cases rule: plan_cases [of dt c m policy meth ct])
  case (Partial fr)
  then show "\<exists>p. plan_validated dt meth (md_len m) ct c (plan_etag m policy) (plan_last_modified dt m policy) = Some p"
    using range_response_SomeD by metis
qed blast+

text \<open>Planning for HEAD is planning for GET with the body removed.\<close>

definition strip_body :: "static_response_plan \<Rightarrow> static_response_plan" where
  "strip_body p = p\<lparr>plan_body := BodyEmpty\<rparr>"

lemma strip_body_builders:
  "build_full_response Head len ct etag lm = strip_body (build_full_response Get len ct etag lm)"
  "build_range_response Head fr len ct etag lm =
     map_option strip_body (build_range_response Get fr len ct etag lm)"
  "strip_body (build_not_range_satisfiable len) = build_not_range_satisfiable len"
  "strip_body build_precondition_failed = build_precondition_failed"
  "strip_body \<lparr>plan_status = st, plan_headers = headers, plan_body = BodyEmpty\<rparr> =
     \<lparr>plan_status = st, plan_headers = headers, plan_body = BodyEmpty\<rparr>"
  by (simp_all add: strip_body_def build_full_response_def build_range_response_def Let_def
      option.map_comp comp_def build_not_range_satisfiable_def build_precondition_failed_def)

lemma plan_range_strip:
  "plan_range dt Head len ct c etag lm =
   map_option (map_option strip_body) (plan_range dt Get len ct c etag lm)"
  by (simp add: plan_range_def strip_body_builders option.map_comp comp_def
      split: option.splits range_request_outcome.splits Option.bind_splits)

lemma plan_head_strip:
  "plan_with_metadata dt Head m ct c policy = map_option strip_body (plan_with_metadata dt Get m ct c policy)"
  by (auto simp: plan_with_metadata_eq plan_validated_def plan_range_strip strip_body_builders
      split: option.splits Option.bind_splits)

section \<open>Entity tags identify a version\<close>

text \<open>The characters between the quotes of a generated tag: length, sign and modification time.\<close>

definition tag_inner :: "u64 \<Rightarrow> int \<Rightarrow> string" where
  "tag_inner len t =
     dec (unat len) @ CHR ''-'' # ((if 0 \<le> t then [] else ''-'') @
       dec (nat (\<bar>t\<bar> div nanos_per_sec)) @ CHR ''-'' # dec (nat (\<bar>t\<bar> mod nanos_per_sec)))"

lemma generate_etag_inner:
  "generate_etag m = map_option (\<lambda>t. ''W/'' @ [CHR 0x22] @ tag_inner (md_len m) t @ [CHR 0x22]) (md_modified m)"
  by (auto simp: generate_etag_def tag_inner_def Let_def split: option.splits)

lemma dec_sep_inject:
  "dec a @ CHR ''-'' # r = dec b @ CHR ''-'' # s \<longleftrightarrow> a = b \<and> r = s"
  using split_once_char_append [OF dec_minus, of a r] split_once_char_append [OF dec_minus, of b s]
  by (metis dec_inject option.inject prod.inject)

lemma dec_head_not_minus: "CHR ''-'' # r \<noteq> dec b @ s"
  using dec_minus [of b] by (cases "dec b") auto

lemma tag_inner_inject: "tag_inner len t = tag_inner len' t' \<longleftrightarrow> len = len' \<and> t = t'"
proof
  let ?s = "\<lambda>t :: int. dec (nat (\<bar>t\<bar> div nanos_per_sec)) @ CHR ''-'' # dec (nat (\<bar>t\<bar> mod nanos_per_sec))"
  assume "tag_inner len t = tag_inner len' t'"
  then have len: "len = len'" and "(if 0 \<le> t then ?s t else CHR ''-'' # ?s t) =
      (if 0 \<le> t' then ?s t' else CHR ''-'' # ?s t')"
    by (simp_all add: tag_inner_def dec_sep_inject word_unat_eq_iff if_distrib [where f = "\<lambda>x. x @ _"]
        cong: if_cong)
  then have sgn: "0 \<le> t \<longleftrightarrow> 0 \<le> t'" and "?s t = ?s t'"
    by (simp_all add: dec_head_not_minus dec_head_not_minus [symmetric] split: if_splits)
  then have "nat (\<bar>t\<bar> div nanos_per_sec) = nat (\<bar>t'\<bar> div nanos_per_sec)"
    and "nat (\<bar>t\<bar> mod nanos_per_sec) = nat (\<bar>t'\<bar> mod nanos_per_sec)"
    by (simp_all only: dec_sep_inject dec_inject)
  then have "\<bar>t\<bar> div nanos_per_sec = \<bar>t'\<bar> div nanos_per_sec"
    and "\<bar>t\<bar> mod nanos_per_sec = \<bar>t'\<bar> mod nanos_per_sec"
    by (simp_all add: eq_nat_nat_iff pos_imp_zdiv_nonneg_iff)
  then have "\<bar>t\<bar> = \<bar>t'\<bar>"
    by (metis div_mult_mod_eq)
  with len sgn show "len = len' \<and> t = t'" by auto
qed simp

lemma tag_inner_comma: "CHR '','' \<notin> set (tag_inner len t)"
  by (simp add: tag_inner_def)

text \<open>A generated tag sent back as the whole header value matches the tag of the same version only.\<close>

lemma if_none_match_generated:
  assumes "generate_etag m = Some tag" and "generate_etag m' = Some tag'"
  shows "evaluate_if_none_match tag' tag \<longleftrightarrow> md_len m = md_len m' \<and> md_modified m = md_modified m'"
proof -
  obtain t t' where t: "md_modified m = Some t" "tag = ''W/'' @ [CHR 0x22] @ tag_inner (md_len m) t @ [CHR 0x22]"
    and t': "md_modified m' = Some t'" "tag' = ''W/'' @ [CHR 0x22] @ tag_inner (md_len m') t' @ [CHR 0x22]"
    using assms by (auto simp: generate_etag_inner)
  have "trim tag' = tag'"
    by (rule trim_visible) (simp_all add: t' visible_def)
  moreover have "split_char CHR '','' tag' = [tag']"
    by (rule split_char_no_sep) (simp add: t' tag_inner_comma)
  moreover have "tag' \<noteq> ''*''" and "strip_weak tag' = drop 2 tag'" and "strip_weak tag = drop 2 tag"
    by (simp_all add: t t' strip_weak_def starts_with_def weak_prefix_def)
  ultimately show ?thesis
    using tag_inner_inject [of "md_len m" t "md_len m'" t']
    by (auto simp: evaluate_if_none_match_def t t')
qed

lemma lost_update_fails_none:
  "c_if_match c = None \<Longrightarrow> c_if_unmodified_since c = None \<Longrightarrow> \<not> lost_update_fails dt c e l"
  by (simp add: lost_update_fails_def)

lemma plan_consistent_total:
  assumes "date_formattable m policy"
  shows "\<exists>p. plan_with_metadata dt meth m ct c policy = Some p \<and> plan_consistent meth m p"
  unfolding plan_with_metadata_eq if_P [OF assms]
proof (cases rule: plan_cases [of dt c m policy meth ct])
  case (Partial fr)
  then show "\<exists>p. plan_validated dt meth (md_len m) ct c (plan_etag m policy) (plan_last_modified dt m policy) = Some p
      \<and> plan_consistent meth m p"
    using range_response_consistent by metis
qed (use full_response_consistent fixed_plans_consistent in blast)+

section \<open>Properties\<close>

text \<open>
  C34: the planner panics on exactly one input, and otherwise its answer is consistent.  For every method,
  file and set of headers a plan is produced (no arithmetic overflow, no unrepresentable range) unless the
  modification time is to be shown and lies in the year 10000 or later, where the date library panics; a
  HEAD plan has no body; a full body goes with status 200 and the file's length; a range body lies inside
  the file and its length and position headers say exactly which bytes are sent; every other status sends
  no body.
\<close>

theorem plan_total_and_consistent:
  "case plan_with_metadata dt meth m ct c policy of
     None \<Rightarrow> emit_last_modified policy \<and> (\<exists>t. md_modified m = Some t \<and> http_date_end \<le> t div nanos_per_sec)
   | Some p \<Rightarrow> \<not> (emit_last_modified policy \<and> (\<exists>t. md_modified m = Some t \<and> http_date_end \<le> t div nanos_per_sec))
       \<and> plan_consistent meth m p"
proof (cases "date_formattable m policy")
  case True
  then show ?thesis
    using plan_consistent_total [OF True, of dt meth ct c] by (auto simp: date_formattable_def)
next
  case False
  then show ?thesis by (auto simp: plan_with_metadata_eq date_formattable_def split: option.splits)
qed

text \<open>
  HEAD mirrors GET.  For the same file and headers both methods give the same status and the
  same header list, and HEAD never has a body.
\<close>

lemma head_matches_get:
  assumes "date_formattable m policy"
  shows "\<exists>p q. plan_with_metadata dt Head m ct c policy = Some p
     \<and> plan_with_metadata dt Get m ct c policy = Some q
     \<and> plan_status p = plan_status q \<and> plan_headers p = plan_headers q \<and> plan_body p = BodyEmpty"
proof -
  obtain q where q: "plan_with_metadata dt Get m ct c policy = Some q"
    using plan_total [OF assms] by blast
  then have "plan_with_metadata dt Head m ct c policy = Some (strip_body q)"
    by (simp add: plan_head_strip)
  with q show ?thesis by (auto simp: strip_body_def)
qed

text \<open>
  a satisfiable range is inside the file.  Whatever the \<^verbatim>\<open>Range\<close> header says, the evaluation
  does not panic, and a satisfiable range is non-empty, ends before the end of the file and has a
  length that is representable and at most the size of the file.
\<close>

lemma range_inside_file:
  assumes "evaluate_range_header header sz = Some (Satisfiable fr)"
  shows "fr_start fr \<le> fr_end_inclusive fr \<and> fr_end_inclusive fr < sz
    \<and> (\<exists>n. range_len fr = Some n \<and> 0 < n \<and> n \<le> sz
        \<and> unat n = unat (fr_end_inclusive fr) - unat (fr_start fr) + 1)"
  using evaluate_range_header_SatisfiableD [OF assms]
    range_len_below [OF evaluate_range_header_SatisfiableD [OF assms]]
  by blast

lemma range_inside_file_witness:
  "evaluate_range_header ''bytes=-5'' 3 = Some (Satisfiable \<lparr>fr_start = 0, fr_end_inclusive = 2\<rparr>)
   \<and> (\<exists>n. range_len \<lparr>fr_start = 0, fr_end_inclusive = 2\<rparr> = Some n \<and> n \<le> (3 :: u64))"
proof -
  have h: "evaluate_range_header ''bytes=-5'' 3 = Some (Satisfiable \<lparr>fr_start = 0, fr_end_inclusive = 2\<rparr>)"
    by (simp add: rust_eval)
  show ?thesis using range_inside_file [OF h] h by blast
qed

text \<open>
  the three forms of a byte range mean what they should.  A printed \<^verbatim>\<open>bytes=a-b\<close>, \<^verbatim>\<open>bytes=a-\<close> or
  \<^verbatim>\<open>bytes=-n\<close> selects the bytes from \<open>a\<close> to \<open>b\<close> cut at the end of the file, the bytes from \<open>a\<close> on,
  and the last \<open>n\<close> bytes (the whole file if it is shorter).
\<close>

lemma range_forms:
  assumes "a < sz" and "a \<le> b" and "n \<noteq> 0"
  shows "evaluate_range_header (''bytes='' @ dec (unat a) @ ''-'' @ dec (unat b)) sz =
      Some (Satisfiable \<lparr>fr_start = a, fr_end_inclusive = min b (sz - 1)\<rparr>)
    \<and> evaluate_range_header (''bytes='' @ dec (unat a) @ ''-'') sz =
      Some (Satisfiable \<lparr>fr_start = a, fr_end_inclusive = sz - 1\<rparr>)
    \<and> evaluate_range_header (''bytes='' @ ''-'' @ dec (unat n)) sz =
      Some (Satisfiable \<lparr>fr_start = sz - min n sz, fr_end_inclusive = sz - 1\<rparr>)"
proof (intro conjI)
  show "evaluate_range_header (''bytes='' @ dec (unat a) @ ''-'' @ dec (unat b)) sz =
      Some (Satisfiable \<lparr>fr_start = a, fr_end_inclusive = min b (sz - 1)\<rparr>)"
    using parse_closed_range [OF assms(1,2)] visible_hd_dec visible_last_dec
    by (subst evaluate_range_header_bytes) (simp_all add: hd_append)
  show "evaluate_range_header (''bytes='' @ dec (unat a) @ ''-'') sz =
      Some (Satisfiable \<lparr>fr_start = a, fr_end_inclusive = sz - 1\<rparr>)"
    using parse_open_range [OF assms(1)] visible_hd_dec
    by (subst evaluate_range_header_bytes) (simp_all add: hd_append visible_def)
  have "sz \<noteq> 0" using assms(1) by auto
  then show "evaluate_range_header (''bytes='' @ ''-'' @ dec (unat n)) sz =
      Some (Satisfiable \<lparr>fr_start = sz - min n sz, fr_end_inclusive = sz - 1\<rparr>)"
    using parse_suffix_range [OF _ assms(3)] visible_last_dec
    by (subst evaluate_range_header_bytes) (simp_all add: visible_def)
qed

lemma range_forms_witness:
  "evaluate_range_header (''bytes='' @ dec (unat (2 :: u64)) @ ''-'' @ dec (unat (99 :: u64))) 10 =
     Some (Satisfiable \<lparr>fr_start = 2, fr_end_inclusive = 9\<rparr>)"
  using range_forms [of 2 10 99 1] by simp

text \<open>
  the precedence of the preconditions.  \<^verbatim>\<open>If-Unmodified-Since\<close> is ignored when \<^verbatim>\<open>If-Match\<close> is
  present, \<^verbatim>\<open>If-Modified-Since\<close> when \<^verbatim>\<open>If-None-Match\<close> is present and \<^verbatim>\<open>If-Range\<close> when \<^verbatim>\<open>Range\<close> is
  absent; a failed lost-update precondition is answered before any other header is looked at.
\<close>

lemma precondition_precedence:
  "(c_if_match c \<noteq> None \<longrightarrow>
      plan_with_metadata dt meth m ct (c\<lparr>c_if_unmodified_since := x\<rparr>) policy =
      plan_with_metadata dt meth m ct c policy)
   \<and> (c_if_none_match c \<noteq> None \<longrightarrow>
      plan_with_metadata dt meth m ct (c\<lparr>c_if_modified_since := x\<rparr>) policy =
      plan_with_metadata dt meth m ct c policy)
   \<and> (c_range c = None \<longrightarrow>
      plan_with_metadata dt meth m ct (c\<lparr>c_if_range := x\<rparr>) policy =
      plan_with_metadata dt meth m ct c policy)
   \<and> (date_formattable m policy \<and> lost_update_fails dt c (plan_etag m policy) (plan_last_modified dt m policy) \<longrightarrow>
      plan_with_metadata dt meth m ct c policy = Some build_precondition_failed)"
proof (intro conjI impI)
  assume "c_if_match c \<noteq> None"
  then show "plan_with_metadata dt meth m ct (c\<lparr>c_if_unmodified_since := x\<rparr>) policy =
      plan_with_metadata dt meth m ct c policy"
    by (intro plan_with_metadata_cong plan_range_cong) (auto simp: lost_update_fails_def)
next
  assume "c_if_none_match c \<noteq> None"
  then show "plan_with_metadata dt meth m ct (c\<lparr>c_if_modified_since := x\<rparr>) policy =
      plan_with_metadata dt meth m ct c policy"
    by (intro plan_with_metadata_cong plan_range_cong)
      (auto simp: lost_update_fails_def evaluate_cache_validation_def evaluate_conditional_headers_def
        split: option.splits)
next
  assume "c_range c = None"
  then show "plan_with_metadata dt meth m ct (c\<lparr>c_if_range := x\<rparr>) policy =
      plan_with_metadata dt meth m ct c policy"
    by (intro plan_with_metadata_cong)
      (simp_all add: lost_update_fails_def plan_range_def cong: option.case_cong)
next
  assume "date_formattable m policy \<and> lost_update_fails dt c (plan_etag m policy) (plan_last_modified dt m policy)"
  then show "plan_with_metadata dt meth m ct c policy = Some build_precondition_failed"
    by (simp add: plan_with_metadata_eq plan_validated_def)
qed

text \<open>The header sets used by the witnesses.\<close>

definition no_conditionals :: conditionals where
  "no_conditionals = \<lparr>c_if_match = None, c_if_unmodified_since = None, c_if_none_match = None,
     c_if_modified_since = None, c_range = None, c_if_range = None\<rparr>"

definition sample_dates :: httpdate where
  "sample_dates = \<lparr>hd_parse = (\<lambda>s. if s = ''T'' then Some 7 else None), hd_fmt = (\<lambda>_. ''T'')\<rparr>"

lemma precondition_precedence_witness:
  "plan_with_metadata sample_dates Get \<lparr>md_len = 3, md_modified = Some 7\<rparr> ''text/plain''
      (no_conditionals\<lparr>c_if_match := Some ''x'', c_if_unmodified_since := Some ''T''\<rparr>) metadata_policy_standard =
   Some build_precondition_failed"
proof -
  let ?m = "\<lparr>md_len = 3, md_modified = Some 7\<rparr>"
  let ?c = "no_conditionals\<lparr>c_if_match := Some ''x''\<rparr>"
  have "lost_update_fails sample_dates ?c (plan_etag ?m metadata_policy_standard)
      (plan_last_modified sample_dates ?m metadata_policy_standard)"
    by (simp add: no_conditionals_def sample_dates_def rust_eval)
  moreover have "c_if_match ?c \<noteq> None" "date_formattable ?m metadata_policy_standard" by (simp_all add: rust_eval)
  ultimately show ?thesis
    using precondition_precedence [of ?c sample_dates Get ?m "''text/plain''" "Some ''T''" metadata_policy_standard]
    by simp
qed

text \<open>
  an entity tag identifies a version of a file.  A client that revalidates with the tag it was
  given for the metadata \<open>m'\<close> gets 304 for the present metadata \<open>m\<close> exactly if length and
  modification time (to the nanosecond, on either side of the epoch) are unchanged.
\<close>

lemma etag_revalidation_exact:
  assumes "generate_etag m = Some tag" and "generate_etag m' = Some tag'"
    and "c_if_match c = None" and "c_if_unmodified_since c = None" and "c_if_none_match c = Some tag'"
    and "c_range c = None" and "emit_etag policy" and "date_formattable m policy"
  shows "\<exists>p. plan_with_metadata dt meth m ct c policy = Some p
    \<and> (plan_status p = NOT_MODIFIED \<longleftrightarrow> md_len m = md_len m' \<and> md_modified m = md_modified m')
    \<and> plan_get (plan_headers p) ''etag'' = Some tag"
proof (cases "evaluate_if_none_match tag' tag")
  case True
  with assms if_none_match_generated [OF assms(1,2)] show ?thesis
    by (auto simp: plan_with_metadata_eq plan_validated_def lost_update_fails_none plan_etag_def
        evaluate_cache_validation_def evaluate_conditional_headers_def header_eval Let_def split: option.splits)
next
  case False
  with assms if_none_match_generated [OF assms(1,2)] show ?thesis
    by (auto simp: plan_with_metadata_eq plan_validated_def lost_update_fails_none plan_etag_def plan_range_def
        evaluate_cache_validation_def evaluate_conditional_headers_def build_full_response_def
        push_validators_def header_eval NOT_MODIFIED_def STATUS_OK_def Let_def split: option.splits)
qed

lemma etag_revalidation_exact_witness:
  "\<exists>p. plan_with_metadata sample_dates Get \<lparr>md_len = 3, md_modified = Some 7\<rparr> ''text/plain''
      (no_conditionals\<lparr>c_if_none_match := generate_etag \<lparr>md_len = 3, md_modified = Some (- 7)\<rparr>\<rparr>)
      metadata_policy_standard = Some p \<and> plan_status p \<noteq> NOT_MODIFIED"
proof -
  let ?m = "\<lparr>md_len = 3, md_modified = Some 7\<rparr>" and ?m' = "\<lparr>md_len = 3, md_modified = Some (- 7)\<rparr>"
  obtain tag tag' where "generate_etag ?m = Some tag" and "generate_etag ?m' = Some tag'"
    by (simp add: generate_etag_inner)
  from etag_revalidation_exact [OF this, of "no_conditionals\<lparr>c_if_none_match := Some tag'\<rparr>"
      metadata_policy_standard sample_dates Get "''text/plain''"] this
  show ?thesis by (auto simp: no_conditionals_def rust_eval)
qed

text \<open>
  strong comparison never succeeds on the weak tags that the server generates.  An \<^verbatim>\<open>If-Match\<close>
  other than \<^verbatim>\<open>*\<close> always fails the request with 412, and an entity tag in \<^verbatim>\<open>If-Range\<close>, weak or
  strong, always gives the full response instead of the requested range.
\<close>

lemma strong_comparison_never_matches:
  assumes "starts_with (trim v) [CHR 0x22] \<or> starts_with (trim v) weak_prefix" and "date_formattable m policy"
  shows "plan_with_metadata dt meth m ct (c\<lparr>c_if_match := Some v\<rparr>) policy = Some build_precondition_failed
    \<and> plan_range dt meth (md_len m) ct (c\<lparr>c_if_range := Some v\<rparr>) (plan_etag m policy) lm = Some None"
proof
  have "trim v \<noteq> ''*''" using assms by (auto simp: starts_with_def weak_prefix_def)
  then have "lost_update_fails dt (c\<lparr>c_if_match := Some v\<rparr>) (plan_etag m policy) l" for l
    using evaluate_if_match_weak plan_etag_weak
    by (auto simp: lost_update_fails_def split: option.splits)
  then show "plan_with_metadata dt meth m ct (c\<lparr>c_if_match := Some v\<rparr>) policy = Some build_precondition_failed"
    using assms(2) by (simp add: plan_with_metadata_eq plan_validated_def)
  have "\<not> if_range_allows_range dt v (plan_etag m policy) lm"
    using assms plan_etag_weak by (intro if_range_tag_denied) (cases "plan_etag m policy"; auto)+
  then show "plan_range dt meth (md_len m) ct (c\<lparr>c_if_range := Some v\<rparr>) (plan_etag m policy) lm = Some None"
  proof (cases "c_range c")
    case (Some rng)
    with \<open>\<not> if_range_allows_range dt v (plan_etag m policy) lm\<close> show ?thesis
      using evaluate_range_header_sound [of rng "md_len m"]
      by (auto simp: plan_range_def split: range_request_outcome.splits)
  qed (simp add: plan_range_def)
qed

lemma strong_comparison_never_matches_witness:
  "plan_with_metadata sample_dates Get \<lparr>md_len = 3, md_modified = Some 7\<rparr> ''text/plain''
      (no_conditionals\<lparr>c_if_match := Some [CHR 0x22, CHR ''a'', CHR 0x22]\<rparr>) metadata_policy_standard =
   Some build_precondition_failed"
proof -
  have "starts_with (trim [CHR 0x22, CHR ''a'', CHR 0x22]) [CHR 0x22]"
    "date_formattable \<lparr>md_len = 3, md_modified = Some 7\<rparr> metadata_policy_standard" by (simp_all add: rust_eval)
  then show ?thesis using strong_comparison_never_matches by blast
qed

text \<open>
  The comment before the suffix branch of \<^verbatim>\<open>parse_single_range\<close> says that an invalid specifier is
  ignored, but the test for an empty file comes first.
\<close>

lemma malformed_range_on_empty_file:
  "evaluate_range_header ''bytes=abc'' 0 = Some NotSatisfiable
   \<and> evaluate_range_header ''bytes=abc'' 1 = Some MalformedOrUnsupported"
  by (simp add: rust_eval)

end
