(* ===== verification/Body_Source.thy ===== *)
theory Body_Source
  imports Http_Types
begin

text \<open>
  Response body sources: \<^verbatim>\<open>eggserve-primitives/src/primitives/body.rs\<close>.

  A body source owns a descriptor opened by the resolver, so it never names a path.  The content
  of an open file is the parameter \<open>content\<close>: the bytes a descriptor reads at the time of the
  operation, or the error of the system.  The lemmas show that a range source reads exactly its
  range, whatever sub-range is asked of it, and never past it.
\<close>

section \<open>Sources\<close>

type_synonym fd = nat

datatype errno = LOOP | MLINK | OtherErrno nat

datatype body_source_error = SourceInvalidRange | SourceAlreadyConsumed

datatype body_kind = KindEmpty | KindBytes | KindFileFull | KindFileRange

text \<open>The file variants carry the descriptor, the length or the range and the length, and the media type.\<close>

datatype body_source =
    SourceEmpty
  | SourceBytes bytes
  | SourceFileFull fd u64 string
  | SourceFileRange fd file_range u64 string

fun source_kind :: "body_source \<Rightarrow> body_kind" where
  "source_kind SourceEmpty = KindEmpty"
| "source_kind (SourceBytes _) = KindBytes"
| "source_kind (SourceFileFull _ _ _) = KindFileFull"
| "source_kind (SourceFileRange _ _ _ _) = KindFileRange"

text \<open>\<open>None\<close> is the panic of \<^verbatim>\<open>FileRange::len\<close>.\<close>

definition source_len :: "body_source \<Rightarrow> u64 option" where
  [rust_eval]: "source_len s =
     (case s of SourceEmpty \<Rightarrow> Some 0
      | SourceBytes b \<Rightarrow> Some (of_nat (length b))
      | SourceFileFull _ len _ \<Rightarrow> Some len
      | SourceFileRange _ rng _ _ \<Rightarrow> range_len rng)"

definition source_is_empty :: "body_source \<Rightarrow> bool option" where
  [rust_eval]: "source_is_empty s = map_option (\<lambda>n. n = 0) (source_len s)"

fun source_range :: "body_source \<Rightarrow> file_range option" where
  "source_range (SourceFileRange _ rng _ _) = Some rng"
| "source_range _ = None"

section \<open>Reading\<close>

datatype read_error = InvalidInput string | UnexpectedEof | ReadOs errno

text \<open>\<^verbatim>\<open>seek(Start(pos))\<close> followed by \<^verbatim>\<open>read_exact\<close> of \<open>n\<close> bytes, or by \<^verbatim>\<open>read_to_end\<close>.\<close>

definition read_exact_at :: "errno + bytes \<Rightarrow> nat \<Rightarrow> nat \<Rightarrow> read_error + bytes" where
  [rust_eval]: "read_exact_at content pos n =
     and_then (map_err ReadOs content) (\<lambda>data.
       if pos + n \<le> length data then Inr (take n (drop pos data))
       else if n = 0 then Inr [] else Inl UnexpectedEof)"

definition read_to_end_at :: "errno + bytes \<Rightarrow> nat \<Rightarrow> read_error + bytes" where
  [rust_eval]: "read_to_end_at content pos = and_then (map_err ReadOs content) (\<lambda>data. Inr (drop pos data))"

text \<open>On the 64-bit platforms the crate supports, \<^verbatim>\<open>usize::try_from\<close> of a \<^verbatim>\<open>u64\<close> succeeds.\<close>

definition source_read_all :: "(fd \<Rightarrow> errno + bytes) \<Rightarrow> body_source \<Rightarrow> (read_error + bytes) option" where
  [rust_eval]: "source_read_all content s =
     (case s of
        SourceEmpty \<Rightarrow> Some (Inr [])
      | SourceBytes b \<Rightarrow> Some (Inr b)
      | SourceFileFull f _ _ \<Rightarrow> Some (read_to_end_at (content f) 0)
      | SourceFileRange f rng _ _ \<Rightarrow>
          map_option (\<lambda>len. read_exact_at (content f) (unat (fr_start rng)) (unat len)) (range_len rng))"

definition read_all_bounded ::
  "(fd \<Rightarrow> errno + bytes) \<Rightarrow> nat \<Rightarrow> body_source \<Rightarrow> (read_error + bytes) option" where
  [rust_eval]: "read_all_bounded content max_bytes s =
     (case s of
        SourceEmpty \<Rightarrow> Some (Inr [])
      | SourceBytes b \<Rightarrow> Some (Inr (take (min (length b) max_bytes) b))
      | SourceFileFull f _ _ \<Rightarrow>
          Some (and_then (map_err ReadOs (content f)) (\<lambda>data. Inr (take max_bytes data)))
      | SourceFileRange f rng _ _ \<Rightarrow>
          map_option (\<lambda>len. read_exact_at (content f) (unat (fr_start rng)) (min (unat len) max_bytes))
            (range_len rng))"

definition read_range_full ::
  "errno + bytes \<Rightarrow> u64 \<Rightarrow> u64 \<Rightarrow> u64 \<Rightarrow> read_error + bytes" where
  [rust_eval]: "read_range_full content len start end_inclusive =
     (if start \<ge> len then Inl (InvalidInput ''read start exceeds file length'')
      else if end_inclusive \<ge> len then Inl (InvalidInput ''read end exceeds file length'')
      else and_then (ok_or (InvalidInput ''invalid range'')
             (Option.bind (checked_sub end_inclusive start) (\<lambda>v. checked_add v 1))) (\<lambda>request_len.
        read_exact_at content (unat start) (unat (min request_len (len - start)))))"

definition read_range_sub ::
  "errno + bytes \<Rightarrow> file_range \<Rightarrow> u64 \<Rightarrow> u64 \<Rightarrow> (read_error + bytes) option" where
  [rust_eval]: "read_range_sub content rng start end_inclusive =
     (case Option.bind (checked_sub end_inclusive start) (\<lambda>v. checked_add v 1) of
        None \<Rightarrow> Some (Inl (InvalidInput ''invalid range''))
      | Some sub_len \<Rightarrow>
          map_option (\<lambda>range_length.
            if sub_len > range_length then Inl (InvalidInput ''sub-range exceeds body range'')
            else and_then (ok_or (InvalidInput ''absolute offset overflow'')
                   (checked_add (fr_start rng) start)) (\<lambda>absolute_start.
              and_then (ok_or (InvalidInput ''absolute offset overflow'')
                  (Option.bind (checked_add absolute_start sub_len) (\<lambda>e. checked_sub e 1))) (\<lambda>absolute_end.
                if absolute_end > fr_end_inclusive rng
                then Inl (InvalidInput ''sub-range exceeds body range'')
                else read_exact_at content (unat absolute_start) (unat sub_len))))
            (range_len rng))"

definition read_range ::
  "(fd \<Rightarrow> errno + bytes) \<Rightarrow> u64 \<Rightarrow> u64 \<Rightarrow> body_source \<Rightarrow> (read_error + bytes) option" where
  [rust_eval]: "read_range content start end_inclusive s =
     (if end_inclusive < start then Some (Inr [])
      else case s of
        SourceEmpty \<Rightarrow> Some (Inr [])
      | SourceBytes b \<Rightarrow>
          Some (and_then (ok_or (InvalidInput ''end offset too large'') (checked_add end_inclusive 1))
            (\<lambda>e_plus_1. let e = min (unat e_plus_1) (length b) in
               if unat start \<ge> length b then Inr []
               else Inr (drop (unat start) (take e b))))
      | SourceFileFull f len _ \<Rightarrow> Some (read_range_full (content f) len start end_inclusive)
      | SourceFileRange f rng _ _ \<Rightarrow> read_range_sub (content f) rng start end_inclusive)"

section \<open>What is read\<close>

lemma read_exact_at_Inr:
  "read_exact_at content pos n = Inr d \<Longrightarrow> \<exists>data. content = Inr data \<and> d = take n (drop pos data) \<and> length d = n"
  by (cases content) (auto simp: read_exact_at_def split: if_splits)

text \<open>The whole of a range source is the range of the file, and has the announced length.\<close>

lemma read_all_range:
  assumes "source_read_all content (SourceFileRange f rng len m) = Some (Inr d)"
  shows "\<exists>data n. content f = Inr data \<and> range_len rng = Some n \<and> length d = unat n
    \<and> d = take (unat n) (drop (unat (fr_start rng)) data)"
  using assms by (auto simp: source_read_all_def dest!: read_exact_at_Inr)

lemma checked_word_SomeD:
  "checked_add a b = Some c \<Longrightarrow> unat c = unat a + unat b"
  "checked_sub a b = Some c \<Longrightarrow> unat b + unat c = unat a"
  by (auto simp: checked_add_def checked_sub_def unat_word_ariths split: if_splits)
    (simp add: unat_sub word_le_nat_alt word_less_nat_alt not_less)

text \<open>
  A read of a sub-range of a range source stays inside the range: its result is the corresponding
  slice of the file and never reaches past the last byte of the range.
\<close>

lemma read_range_sub_inside:
  assumes "read_range content a b (SourceFileRange f rng len m) = Some (Inr d)" and "a \<le> b"
  shows "\<exists>data. content f = Inr data
    \<and> d = take (unat b - unat a + 1) (drop (unat (fr_start rng) + unat a) data)
    \<and> length d = unat b - unat a + 1
    \<and> unat (fr_start rng) + unat b \<le> unat (fr_end_inclusive rng)"
proof -
  from assms(2) have ab: "unat a \<le> unat b" and nle: "\<not> b < a" by (simp_all add: word_le_nat_alt not_less)
  obtain v sub_len abs_start e abs_end where
    s: "checked_sub b a = Some v" "checked_add v 1 = Some sub_len"
      "checked_add (fr_start rng) a = Some abs_start"
      "checked_add abs_start sub_len = Some e" "checked_sub e 1 = Some abs_end"
    and le: "\<not> abs_end > fr_end_inclusive rng"
    and r: "read_exact_at (content f) (unat abs_start) (unat sub_len) = Inr d"
    using assms(1) nle
    by (auto simp: read_range_def read_range_sub_def result_inv bind_eq_Some_conv split: option.splits if_splits)
  have n: "unat sub_len = unat b - unat a + 1" "unat abs_start = unat (fr_start rng) + unat a"
    "unat abs_end + 1 = unat abs_start + unat sub_len"
    using checked_word_SomeD(2) [OF s(1)] checked_word_SomeD(1) [OF s(2)]
      checked_word_SomeD(1) [OF s(3)] checked_word_SomeD(1) [OF s(4)] checked_word_SomeD(2) [OF s(5)] ab
    by auto
  moreover have "unat abs_end \<le> unat (fr_end_inclusive rng)" using le by (simp add: word_less_nat_alt)
  ultimately show ?thesis using read_exact_at_Inr [OF r] ab by auto
qed

end
