(* ===== verification/Static_Fs.thy ===== *)
theory Static_Fs
  imports Confined_Path Planner Body_Source "HOL-Library.Char_ord" "HOL-Library.List_Lexorder"
begin

text \<open>
  Confined resolution on the filesystem: \<^verbatim>\<open>eggserve-static/src/fs/mod.rs\<close>, \<^verbatim>\<open>fs/unix.rs\<close>,
  \<^verbatim>\<open>secure_root.rs\<close> and \<^verbatim>\<open>mime.rs\<close>, in their Unix build (\<^verbatim>\<open>cfg(unix)\<close>).

  The operating system is not part of the repository.  It is the parameter \<open>os\<close>, a record with one
  field per system call the code makes; every call takes the current state \<open>w\<close> of the world and
  returns a result and the next state, so that anything another process does between two calls is
  part of what a call may do to the world.  Nothing is assumed of these functions in the
  definitions.  The properties name what they rely on: \<open>openat_nofollow\<close> is what \<^verbatim>\<open>openat\<close> with
  \<^verbatim>\<open>O_NOFOLLOW\<close> documents for a name that is a single component, whatever else happens to the
  filesystem at the same time; \<open>at_rest\<close> describes a filesystem that nobody changes.

  A descriptor is a number; closing it when a \<^verbatim>\<open>File\<close> is dropped is not modelled.  A \<^verbatim>\<open>PathBuf\<close> is
  its text, \<open>path_push\<close> and \<open>path_components\<close> are \<^verbatim>\<open>PathBuf::push\<close> and \<^verbatim>\<open>Path::components\<close>.
\<close>

section \<open>The operating system\<close>

type_synonym u32 = "32 word"

datatype oflag = RDONLY | DIRECTORY | CLOEXEC | NOFOLLOW | NONBLOCK

text \<open>\<^verbatim>\<open>fs::Metadata\<close>: what the planner reads of it, and the mode.\<close>

record fs_metadata = metadata +
  md_mode :: u32

record 'w os =
  os_statat :: "'w \<Rightarrow> fd \<Rightarrow> bytes \<Rightarrow> (errno + u32) \<times> 'w"
  os_openat :: "'w \<Rightarrow> fd \<Rightarrow> bytes \<Rightarrow> oflag list \<Rightarrow> (errno + fd) \<times> 'w"
  os_fstat :: "'w \<Rightarrow> fd \<Rightarrow> (errno + fs_metadata) \<times> 'w"
  os_dup :: "'w \<Rightarrow> fd \<Rightarrow> (errno + fd) \<times> 'w"
  os_readdir :: "'w \<Rightarrow> fd \<Rightarrow> (errno + (errno + bytes) list) \<times> 'w"
  os_canonicalize :: "'w \<Rightarrow> string \<Rightarrow> (errno + string) \<times> 'w"
  os_metadata :: "'w \<Rightarrow> string \<Rightarrow> (errno + fs_metadata) \<times> 'w"
  os_symlink_metadata :: "'w \<Rightarrow> string \<Rightarrow> (errno + fs_metadata) \<times> 'w"
  os_open :: "'w \<Rightarrow> string \<Rightarrow> oflag list \<Rightarrow> (errno + fd) \<times> 'w"
  os_read_dir :: "'w \<Rightarrow> string \<Rightarrow> (errno + (errno + bytes) list) \<times> 'w"

text \<open>\<^verbatim>\<open>match call { Ok(a) => k(a), Err(e) => return h(e) }\<close>, threading the world.\<close>

definition on_ok :: "('e + 'a) \<times> 'w \<Rightarrow> ('e \<Rightarrow> 'r) \<Rightarrow> ('a \<Rightarrow> 'w \<Rightarrow> 'r \<times> 'w) \<Rightarrow> 'r \<times> 'w" where
  [rust_eval]: "on_ok r h k = (case r of (Inl e, w) \<Rightarrow> (h e, w) | (Inr a, w) \<Rightarrow> k a w)"

text \<open>The octal constants \<^verbatim>\<open>0o170000\<close>, \<^verbatim>\<open>0o040000\<close>, \<^verbatim>\<open>0o120000\<close> and \<^verbatim>\<open>0o100000\<close>.\<close>

definition S_IFMT :: u32 where [rust_eval]: "S_IFMT = 0xF000"
definition S_IFDIR :: u32 where [rust_eval]: "S_IFDIR = 0x4000"
definition S_IFLNK :: u32 where [rust_eval]: "S_IFLNK = 0xA000"
definition S_IFREG :: u32 where [rust_eval]: "S_IFREG = 0x8000"

definition file_type :: "u32 \<Rightarrow> u32" where
  [rust_eval]: "file_type mode = and mode S_IFMT"

definition md_is_dir :: "fs_metadata \<Rightarrow> bool" where
  [rust_eval]: "md_is_dir m \<longleftrightarrow> file_type (md_mode m) = S_IFDIR"

definition md_is_file :: "fs_metadata \<Rightarrow> bool" where
  [rust_eval]: "md_is_file m \<longleftrightarrow> file_type (md_mode m) = S_IFREG"

definition md_is_symlink :: "fs_metadata \<Rightarrow> bool" where
  [rust_eval]: "md_is_symlink m \<longleftrightarrow> file_type (md_mode m) = S_IFLNK"

section \<open>Paths\<close>

definition is_absolute :: "string \<Rightarrow> bool" where
  [rust_eval]: "is_absolute p \<longleftrightarrow> starts_with p ''/''"

definition path_push :: "string \<Rightarrow> string \<Rightarrow> string" where
  [rust_eval]: "path_push p c =
     (if is_absolute c then c
      else if p = [] \<or> ends_with p ''/'' then p @ c else p @ ''/'' @ c)"

text \<open>
  The components of a path: the root, if it is absolute, and the names; empty names and single
  dots are dropped, except that a relative path keeps a leading dot.
\<close>

definition path_components :: "string \<Rightarrow> string list" where
  [rust_eval]: "path_components p =
     (let names = split_char CHR ''/'' p;
          keep = filter (\<lambda>c. c \<noteq> [] \<and> c \<noteq> ''.'')
      in if is_absolute p then ''/'' # keep names
         else if hd names = ''.'' then ''.'' # keep (tl names) else keep names)"

definition path_starts_with :: "string \<Rightarrow> string \<Rightarrow> bool" where
  [rust_eval]: "path_starts_with p base \<longleftrightarrow> prefix (path_components base) (path_components p)"

definition path_file_name :: "string \<Rightarrow> string option" where
  [rust_eval]: "path_file_name p =
     (case rev (path_components p) of
        [] \<Rightarrow> None
      | c # _ \<Rightarrow> if c = ''/'' \<or> c = ''.'' \<or> c = ''..'' then None else Some c)"

text \<open>\<^verbatim>\<open>Path::extension\<close>: what follows the last dot of the file name, unless the name starts there.\<close>

definition path_extension :: "string \<Rightarrow> string option" where
  [rust_eval]: "path_extension p =
     (case path_file_name p of
        None \<Rightarrow> None
      | Some name \<Rightarrow>
          (case rsplit_once_char CHR ''.'' name of
             None \<Rightarrow> None
           | Some (stem, ext) \<Rightarrow> if stem = [] then None else Some ext))"

definition construct_path :: "string \<Rightarrow> string list \<Rightarrow> string" where
  [rust_eval]: "construct_path base components = foldl path_push base components"

section \<open>Media types\<close>

definition MIME_MAP :: "(string \<times> string) list" where
  [rust_eval]: "MIME_MAP =
     [(''html'', ''text/html; charset=utf-8''), (''htm'', ''text/html; charset=utf-8''),
      (''css'', ''text/css; charset=utf-8''), (''js'', ''application/javascript; charset=utf-8''),
      (''mjs'', ''application/javascript; charset=utf-8''),
      (''json'', ''application/json; charset=utf-8''),
      (''xml'', ''application/xml; charset=utf-8''), (''txt'', ''text/plain; charset=utf-8''),
      (''csv'', ''text/csv; charset=utf-8''),
      (''tsv'', ''text/tab-separated-values; charset=utf-8''),
      (''png'', ''image/png''), (''jpg'', ''image/jpeg''), (''jpeg'', ''image/jpeg''),
      (''gif'', ''image/gif''), (''svg'', ''image/svg+xml''), (''ico'', ''image/x-icon''),
      (''webp'', ''image/webp''), (''avif'', ''image/avif''), (''bmp'', ''image/bmp''),
      (''tiff'', ''image/tiff''), (''tif'', ''image/tiff''),
      (''woff'', ''font/woff''), (''woff2'', ''font/woff2''), (''ttf'', ''font/ttf''),
      (''otf'', ''font/otf''), (''eot'', ''application/vnd.ms-fontobject''),
      (''mp3'', ''audio/mpeg''), (''mp4'', ''video/mp4''), (''webm'', ''video/webm''),
      (''ogg'', ''audio/ogg''), (''wav'', ''audio/wav''), (''flac'', ''audio/flac''),
      (''aac'', ''audio/aac''), (''m4a'', ''audio/mp4''),
      (''zip'', ''application/zip''), (''gz'', ''application/gzip''),
      (''tar'', ''application/x-tar''), (''bz2'', ''application/x-bzip2''),
      (''xz'', ''application/x-xz''), (''zst'', ''application/zstd''),
      (''pdf'', ''application/pdf''), (''doc'', ''application/msword''),
      (''docx'', ''application/vnd.openxmlformats-officedocument.wordprocessingml.document''),
      (''xls'', ''application/vnd.ms-excel''),
      (''xlsx'', ''application/vnd.openxmlformats-officedocument.spreadsheetml.sheet''),
      (''ppt'', ''application/vnd.ms-powerpoint''),
      (''pptx'', ''application/vnd.openxmlformats-officedocument.presentationml.presentation''),
      (''wasm'', ''application/wasm''), (''manifest'', ''text/cache-manifest''),
      (''yaml'', ''text/yaml; charset=utf-8''), (''yml'', ''text/yaml; charset=utf-8''),
      (''toml'', ''text/plain; charset=utf-8''), (''ini'', ''text/plain; charset=utf-8''),
      (''md'', ''text/markdown; charset=utf-8''), (''rtf'', ''application/rtf'')]"

definition mime_for_extension :: "string \<Rightarrow> string option" where
  [rust_eval]: "mime_for_extension extension =
     (case map_of MIME_MAP extension of
        Some v \<Rightarrow> Some v
      | None \<Rightarrow>
          if list_ex is_ascii_uppercase extension
          then map_of MIME_MAP (to_ascii_lowercase extension) else None)"

definition octet_stream :: string where
  [rust_eval]: "octet_stream = ''application/octet-stream''"

text \<open>\<^verbatim>\<open>OsStr::to_str\<close> succeeds on valid UTF-8 only.\<close>

definition mime_for_path :: "string \<Rightarrow> string" where
  [rust_eval]: "mime_for_path path =
     (case path_extension path of
        None \<Rightarrow> octet_stream
      | Some ext \<Rightarrow>
          if utf8_valid ext
          then (case mime_for_extension ext of Some v \<Rightarrow> v | None \<Rightarrow> octet_stream)
          else octet_stream)"

section \<open>Listing entries\<close>

definition hex_upper :: "nat \<Rightarrow> char" where
  [rust_eval]: "hex_upper n = (if n < 10 then char_of (48 + n) else char_of (55 + n))"

definition is_unreserved :: "char \<Rightarrow> bool" where
  [rust_eval]: "is_unreserved b \<longleftrightarrow>
     is_ascii_uppercase b \<or> is_ascii_lowercase b \<or> is_ascii_digit b
     \<or> b = CHR ''-'' \<or> b = CHR ''_'' \<or> b = CHR ''.'' \<or> b = CHR 0x7E"

fun percent_encode_bytes :: "bytes \<Rightarrow> string" where
  "percent_encode_bytes [] = []"
| "percent_encode_bytes (b # bs) =
     (if is_unreserved b then b # percent_encode_bytes bs
      else CHR ''%'' # hex_upper (byte b div 16) # hex_upper (byte b mod 16)
             # percent_encode_bytes bs)"

record listing_entry =
  le_name :: string
  le_href :: string
  le_is_dir :: bool

definition from_raw_bytes :: "bytes \<Rightarrow> bool \<Rightarrow> listing_entry" where
  [rust_eval]: "from_raw_bytes raw is_dir =
     \<lparr>le_name = utf8_lossy raw, le_href = percent_encode_bytes raw, le_is_dir = is_dir\<rparr>"

definition from_name :: "string \<Rightarrow> bool \<Rightarrow> listing_entry" where
  [rust_eval]: "from_name name is_dir =
     \<lparr>le_name = name, le_href = percent_encode_bytes name, le_is_dir = is_dir\<rparr>"

section \<open>Resolved resources\<close>

record resolved_file =
  rf_file :: fd
  rf_metadata :: fs_metadata
  rf_components :: "string list"

record resolved_directory =
  rd_dir_fd :: fd
  rd_canonical_path :: string
  rd_components :: "string list"
  rd_reject_backslash :: bool

datatype resolved_resource =
    RFile resolved_file
  | RDirectory resolved_directory
  | RNotFound
  | RDenied path_rejection
  | RIoError errno

text \<open>\<^verbatim>\<open>components.iter().collect::<PathBuf>()\<close>\<close>

definition relative_path :: "string list \<Rightarrow> string" where
  [rust_eval]: "relative_path components = construct_path [] components"

definition rf_content_type :: "resolved_file \<Rightarrow> string" where
  [rust_eval]: "rf_content_type f = mime_for_path (relative_path (rf_components f))"

definition into_range_body :: "resolved_file \<Rightarrow> u64 \<Rightarrow> u64 \<Rightarrow> body_source_error + body_source" where
  [rust_eval]: "into_range_body f start end_inclusive =
     (let total_len = md_len (rf_metadata f) in
      if end_inclusive < start \<or> end_inclusive \<ge> total_len then Inl SourceInvalidRange
      else and_then (ok_or SourceInvalidRange (file_range_try_new start end_inclusive)) (\<lambda>rng.
        Inr (SourceFileRange (rf_file f) rng total_len (rf_content_type f))))"

definition into_body :: "resolved_file \<Rightarrow> static_response_plan \<Rightarrow> body_source_error + body_source" where
  [rust_eval]: "into_body f plan =
     (case plan_body plan of
        BodyEmpty \<Rightarrow> Inr SourceEmpty
      | FullBytes b \<Rightarrow> Inr (SourceBytes b)
      | FileFull \<Rightarrow>
          Inr (SourceFileFull (rf_file f) (md_len (rf_metadata f)) (rf_content_type f))
      | FileRange start end_inclusive \<Rightarrow>
          (let total_len = md_len (rf_metadata f) in
           if end_inclusive < start \<or> end_inclusive \<ge> total_len then Inl SourceInvalidRange
           else and_then (ok_or SourceInvalidRange (file_range_try_new start end_inclusive)) (\<lambda>rng.
             Inr (SourceFileRange (rf_file f) rng total_len (rf_content_type f)))))"

section \<open>Validation of one component\<close>

definition validate_child_component_with_policy ::
  "string \<Rightarrow> bool \<Rightarrow> bool \<Rightarrow> path_rejection + unit" where
  [rust_eval]: "validate_child_component_with_policy child dotfiles_denied reject_bs =
     (if child = [] then Inl PathEmpty
      else if child = ''.'' then Inl CurrentComponent
      else if child = ''..'' then Inl ParentComponent
      else if contains_char child CHR ''/'' then Inl SeparatorAmbiguity
      else if contains_char child CHR 0x00 then Inl NulByte
      else if list_ex is_ascii_control child then Inl ControlCharacter
      else if reject_bs \<and> contains_char child CHR 0x5C then Inl SeparatorAmbiguity
      else if dotfiles_denied \<and> starts_with child ''.'' then Inl DotfileDenied
      else and_then
        (if contains_char child CHR ''%'' then
           (case percent_decode child of
              Inr decoded \<Rightarrow>
                (if decoded = ''.'' then Inl CurrentComponent
                 else if decoded = ''..'' then Inl ParentComponent else Inr ())
            | Inl _ \<Rightarrow> Inr ())
         else Inr ())
        (\<lambda>_. check_component child))"

fun may_be_short_name_alias :: "bytes \<Rightarrow> bool" where
  "may_be_short_name_alias (a # b # s) =
     ((a = CHR 0x7E \<and> is_ascii_digit b) \<or> may_be_short_name_alias (b # s))"
| "may_be_short_name_alias _ = False"

abbreviation denies_dotfiles :: "static_policy \<Rightarrow> bool" where
  "denies_dotfiles policy \<equiv> sp_dotfiles policy = ServeDotfilesDenied"

abbreviation denies_symlinks :: "static_policy \<Rightarrow> bool" where
  "denies_symlinks policy \<equiv> sp_symlinks policy = SymlinkPolicyDenied"

section \<open>Descriptor-relative resolution\<close>

text \<open>
  The \<^verbatim>\<open>statat\<close> check before a component is opened; \<open>Some r\<close> is the early return of \<open>r\<close>.
\<close>

definition stat_precheck ::
  "'w os \<Rightarrow> static_policy \<Rightarrow> bool \<Rightarrow> fd \<Rightarrow> string \<Rightarrow> 'w \<Rightarrow> resolved_resource option \<times> 'w" where
  [rust_eval]: "stat_precheck os policy is_final dir_fd component w =
     (if denies_symlinks policy then
        on_ok (os_statat os w dir_fd component) (\<lambda>_. Some RNotFound) (\<lambda>mode w.
          (if file_type mode = S_IFLNK then Some (RDenied SymlinkDenied)
           else if is_final \<and> file_type mode \<noteq> S_IFREG \<and> file_type mode \<noteq> S_IFDIR
                then Some RNotFound
           else None, w))
      else (None, w))"

definition open_flags :: "bool \<Rightarrow> oflag list" where
  [rust_eval]: "open_flags is_final =
     (if is_final then [RDONLY, CLOEXEC, NOFOLLOW, NONBLOCK]
      else [RDONLY, DIRECTORY, CLOEXEC, NOFOLLOW])"

definition open_error :: "errno \<Rightarrow> resolved_resource" where
  [rust_eval]: "open_error e =
     (case e of LOOP \<Rightarrow> RDenied SymlinkDenied | MLINK \<Rightarrow> RDenied SymlinkDenied | _ \<Rightarrow> RNotFound)"

text \<open>What is made of the descriptor of the last component.\<close>

definition classify_fd ::
  "'w os \<Rightarrow> string \<Rightarrow> string list \<Rightarrow> bool \<Rightarrow> fd \<Rightarrow> 'w \<Rightarrow> resolved_resource \<times> 'w" where
  [rust_eval]: "classify_fd os canonical_root components reject_bs f w =
     on_ok (os_fstat os w f) (\<lambda>_. RNotFound) (\<lambda>md w.
       (if md_is_dir md then
          RDirectory \<lparr>rd_dir_fd = f, rd_canonical_path = construct_path canonical_root components,
                      rd_components = components, rd_reject_backslash = reject_bs\<rparr>
        else if file_type (md_mode md) \<noteq> S_IFREG then RNotFound
        else RFile \<lparr>rf_file = f, rf_metadata = md, rf_components = components\<rparr>, w))"

text \<open>The loop over the components; \<open>cur\<close> is \<^verbatim>\<open>current_owned.as_ref().unwrap_or(root_fd)\<close>.\<close>

fun walk_fds ::
  "'w os \<Rightarrow> string \<Rightarrow> string list \<Rightarrow> static_policy \<Rightarrow> bool \<Rightarrow> fd \<Rightarrow> string list \<Rightarrow> 'w
   \<Rightarrow> resolved_resource \<times> 'w" where
  "walk_fds os canonical_root components policy reject_bs cur [] w = (RNotFound, w)"
| "walk_fds os canonical_root components policy reject_bs cur (c # rest) w =
     (if denies_dotfiles policy \<and> starts_with c ''.'' then (RDenied DotfileDenied, w)
      else case check_component c of
        Inl rejection \<Rightarrow> (RDenied rejection, w)
      | Inr _ \<Rightarrow>
          (case stat_precheck os policy (rest = []) cur c w of
             (Some r, w) \<Rightarrow> (r, w)
           | (None, w) \<Rightarrow>
               on_ok (os_openat os w cur c (open_flags (rest = []))) open_error (\<lambda>new_fd w.
                 if rest = [] then classify_fd os canonical_root components reject_bs new_fd w
                 else walk_fds os canonical_root components policy reject_bs new_fd rest w)))"

definition resolve_root :: "'w os \<Rightarrow> fd \<Rightarrow> string \<Rightarrow> bool \<Rightarrow> 'w \<Rightarrow> resolved_resource \<times> 'w" where
  [rust_eval]: "resolve_root os root_fd canonical_root reject_bs w =
     on_ok (os_dup os w root_fd) RIoError (\<lambda>f w.
       (RDirectory \<lparr>rd_dir_fd = f, rd_canonical_path = canonical_root, rd_components = [],
                    rd_reject_backslash = reject_bs\<rparr>, w))"

definition resolve_fd_relative ::
  "'w os \<Rightarrow> fd \<Rightarrow> string \<Rightarrow> string list \<Rightarrow> static_policy \<Rightarrow> bool \<Rightarrow> 'w
   \<Rightarrow> resolved_resource \<times> 'w" where
  [rust_eval]: "resolve_fd_relative os root_fd canonical_root components policy reject_bs w =
     (if components = [] then resolve_root os root_fd canonical_root reject_bs w
      else walk_fds os canonical_root components policy reject_bs root_fd components w)"

definition resolve_child_fd ::
  "'w os \<Rightarrow> fd \<Rightarrow> string list \<Rightarrow> string \<Rightarrow> string \<Rightarrow> static_policy \<Rightarrow> bool \<Rightarrow> 'w
   \<Rightarrow> resolved_resource \<times> 'w" where
  [rust_eval]: "resolve_child_fd os dir_fd dir_components canonical_root child policy reject_bs w =
     (case validate_child_component_with_policy child (denies_dotfiles policy) reject_bs of
        Inl rejection \<Rightarrow> (RDenied rejection, w)
      | Inr _ \<Rightarrow>
          (case stat_precheck os policy True dir_fd child w of
             (Some r, w) \<Rightarrow> (r, w)
           | (None, w) \<Rightarrow>
               on_ok (os_openat os w dir_fd child (open_flags True)) open_error (\<lambda>new_fd w.
                 classify_fd os canonical_root (dir_components @ [child]) reject_bs new_fd w)))"

text \<open>The loop of \<^verbatim>\<open>list_directory_fd\<close> over the directory stream, with the entries pushed so far.\<close>

fun list_fd_loop ::
  "'w os \<Rightarrow> static_policy \<Rightarrow> nat \<Rightarrow> fd \<Rightarrow> (errno + bytes) list \<Rightarrow> listing_entry list \<Rightarrow> 'w
   \<Rightarrow> (errno + listing_entry list) \<times> 'w" where
  "list_fd_loop os policy max_entries dir_fd [] entries w = (Inr entries, w)"
| "list_fd_loop os policy max_entries dir_fd (Inl e # stream) entries w = (Inl e, w)"
| "list_fd_loop os policy max_entries dir_fd (Inr raw # stream) entries w =
     (if raw = ''.'' \<or> raw = ''..'' then list_fd_loop os policy max_entries dir_fd stream entries w
      else if denies_dotfiles policy \<and> starts_with raw ''.''
        then list_fd_loop os policy max_entries dir_fd stream entries w
      else case os_statat os w dir_fd raw of
        (Inl _, w) \<Rightarrow> list_fd_loop os policy max_entries dir_fd stream entries w
      | (Inr mode, w) \<Rightarrow>
          if denies_symlinks policy \<and> file_type mode = S_IFLNK
          then list_fd_loop os policy max_entries dir_fd stream entries w
          else let entries = entries @ [from_raw_bytes raw (file_type mode = S_IFDIR)] in
            if length entries \<ge> max_entries then (Inr entries, w)
            else list_fd_loop os policy max_entries dir_fd stream entries w)"

text \<open>\<^verbatim>\<open>sort_by(|a, b| a.name.cmp(&b.name))\<close>: a stable sort by the bytes of the display names.\<close>

definition sort_entries :: "listing_entry list \<Rightarrow> listing_entry list" where
  [rust_eval]: "sort_entries entries = sort_key le_name entries"

definition list_directory_fd ::
  "'w os \<Rightarrow> fd \<Rightarrow> static_policy \<Rightarrow> nat \<Rightarrow> 'w \<Rightarrow> (errno + listing_entry list) \<times> 'w" where
  [rust_eval]: "list_directory_fd os dir_fd policy max_entries w =
     on_ok (os_readdir os w dir_fd) Inl (\<lambda>stream w.
       on_ok (list_fd_loop os policy max_entries dir_fd stream [] w) Inl (\<lambda>entries w.
         (Inr (sort_entries entries), w)))"

section \<open>The pinned root\<close>

record pinned_root =
  pr_canonical_root :: string
  pr_root_fd :: fd

text \<open>Error values: an error of the system, or the explicit \<^verbatim>\<open>NotADirectory\<close>.\<close>

datatype io_error = OsError errno | NotADirectory

text \<open>\<^verbatim>\<open>Path::is_dir\<close>: an error counts as no.\<close>

definition os_is_dir :: "'w os \<Rightarrow> string \<Rightarrow> 'w \<Rightarrow> bool \<times> 'w" where
  [rust_eval]: "os_is_dir os p w =
     (case os_metadata os w p of (Inl _, w) \<Rightarrow> (False, w) | (Inr md, w) \<Rightarrow> (md_is_dir md, w))"

definition pinned_root_new :: "'w os \<Rightarrow> string \<Rightarrow> 'w \<Rightarrow> (io_error + pinned_root) \<times> 'w" where
  [rust_eval]: "pinned_root_new os root w =
     on_ok (os_canonicalize os w root) (\<lambda>e. Inl (OsError e)) (\<lambda>canonical_root w.
       (case os_is_dir os canonical_root w of
          (False, w) \<Rightarrow> (Inl NotADirectory, w)
        | (True, w) \<Rightarrow>
            on_ok (os_open os w canonical_root [RDONLY, DIRECTORY, CLOEXEC, NOFOLLOW])
              (\<lambda>e. Inl (OsError e)) (\<lambda>f w.
              (Inr \<lparr>pr_canonical_root = canonical_root, pr_root_fd = f\<rparr>, w))))"

definition pinned_root_try_clone :: "'w os \<Rightarrow> pinned_root \<Rightarrow> 'w \<Rightarrow> (io_error + pinned_root) \<times> 'w" where
  [rust_eval]: "pinned_root_try_clone os pinned w =
     on_ok (os_dup os w (pr_root_fd pinned)) (\<lambda>e. Inl (OsError e)) (\<lambda>f w.
       (Inr \<lparr>pr_canonical_root = pr_canonical_root pinned, pr_root_fd = f\<rparr>, w))"

section \<open>Resolution by pathname, when links are followed\<close>

text \<open>The first loop of \<^verbatim>\<open>resolve_fallback\<close>: validate each component and push it.\<close>

fun push_validated :: "static_policy \<Rightarrow> bool \<Rightarrow> string \<Rightarrow> string list \<Rightarrow> path_rejection + string" where
  "push_validated policy reject_bs candidate [] = Inr candidate"
| "push_validated policy reject_bs candidate (c # cs) =
     and_then (validate_child_component_with_policy c (denies_dotfiles policy) reject_bs) (\<lambda>_.
       push_validated policy reject_bs (path_push candidate c) cs)"

text \<open>
  The loop over aliases of the 8.3 form; \<open>alias_candidate\<close> is the root extended by the components
  before the current one.
\<close>

fun alias_loop ::
  "'w os \<Rightarrow> string \<Rightarrow> string \<Rightarrow> string list \<Rightarrow> 'w \<Rightarrow> resolved_resource option \<times> 'w" where
  "alias_loop os canonical_root alias_candidate [] w = (None, w)"
| "alias_loop os canonical_root alias_candidate (c # cs) w =
     (let alias_candidate = path_push alias_candidate c in
      if may_be_short_name_alias c then
        on_ok (os_canonicalize os w alias_candidate) (\<lambda>_. Some RNotFound) (\<lambda>alias_canonical w.
          if \<not> path_starts_with alias_canonical canonical_root
          then (Some (RDenied RootEscapeDenied), w)
          else if (case path_file_name alias_canonical of
                     Some name \<Rightarrow> starts_with (utf8_lossy name) ''.'' | None \<Rightarrow> False)
          then (Some (RDenied DotfileDenied), w)
          else alias_loop os canonical_root alias_candidate cs w)
      else alias_loop os canonical_root alias_candidate cs w)"

definition fallback_reverify :: "'w os \<Rightarrow> string \<Rightarrow> string \<Rightarrow> 'w \<Rightarrow> unit option \<times> 'w" where
  [rust_eval]: "fallback_reverify os candidate canonical_root w =
     (case os_canonicalize os w candidate of
        (Inr p, w) \<Rightarrow> (if path_starts_with p canonical_root then Some () else None, w)
      | (Inl _, w) \<Rightarrow> (None, w))"

text \<open>The final \<^verbatim>\<open>match fs::metadata(&canonical)\<close>: open by pathname, then verify the pathname again.\<close>

definition open_canonical ::
  "'w os \<Rightarrow> string \<Rightarrow> string list \<Rightarrow> bool \<Rightarrow> string \<Rightarrow> string \<Rightarrow> 'w \<Rightarrow> resolved_resource \<times> 'w" where
  [rust_eval]: "open_canonical os canonical_root components reject_bs candidate canonical w =
     on_ok (os_metadata os w canonical) (\<lambda>_. RNotFound) (\<lambda>md w.
       if md_is_dir md then
         on_ok (os_open os w canonical [RDONLY, CLOEXEC]) (\<lambda>_. RNotFound) (\<lambda>dir_fd w.
           (case fallback_reverify os candidate canonical_root w of
              (None, w) \<Rightarrow> (RNotFound, w)
            | (Some _, w) \<Rightarrow>
                (RDirectory \<lparr>rd_dir_fd = dir_fd, rd_canonical_path = canonical,
                   rd_components = components, rd_reject_backslash = reject_bs\<rparr>, w)))
       else if \<not> md_is_file md then (RNotFound, w)
       else
         on_ok (os_open os w canonical [RDONLY, CLOEXEC]) (\<lambda>_. RNotFound) (\<lambda>f w.
           (case fallback_reverify os candidate canonical_root w of
              (None, w) \<Rightarrow> (RNotFound, w)
            | (Some _, w) \<Rightarrow>
                (RFile \<lparr>rf_file = f, rf_metadata = md, rf_components = components\<rparr>, w))))"

definition resolve_fallback ::
  "'w os \<Rightarrow> pinned_root \<Rightarrow> string list \<Rightarrow> static_policy \<Rightarrow> bool \<Rightarrow> 'w
   \<Rightarrow> resolved_resource \<times> 'w" where
  [rust_eval]: "resolve_fallback os pinned components policy reject_bs w =
     (case push_validated policy reject_bs (pr_canonical_root pinned) components of
        Inl rejection \<Rightarrow> (RDenied rejection, w)
      | Inr candidate \<Rightarrow>
          on_ok (os_canonicalize os w candidate) (\<lambda>_. RNotFound) (\<lambda>canonical w.
            if \<not> path_starts_with canonical (pr_canonical_root pinned)
            then (RDenied RootEscapeDenied, w)
            else
              (case (if denies_dotfiles policy
                     then alias_loop os (pr_canonical_root pinned) (pr_canonical_root pinned)
                            components w
                     else (None, w)) of
                 (Some r, w) \<Rightarrow> (r, w)
               | (None, w) \<Rightarrow>
                   open_canonical os (pr_canonical_root pinned) components reject_bs
                     candidate canonical w)))"

text \<open>The loop of \<^verbatim>\<open>build_listing_entries_fallback\<close>.\<close>

fun list_path_loop ::
  "'w os \<Rightarrow> static_policy \<Rightarrow> nat \<Rightarrow> string \<Rightarrow> (errno + bytes) list \<Rightarrow> listing_entry list \<Rightarrow> 'w
   \<Rightarrow> (errno + listing_entry list) \<times> 'w" where
  "list_path_loop os policy max_entries dir [] entries w = (Inr entries, w)"
| "list_path_loop os policy max_entries dir (Inl e # stream) entries w = (Inl e, w)"
| "list_path_loop os policy max_entries dir (Inr raw # stream) entries w =
     (let listed = from_raw_bytes raw False in
      if denies_dotfiles policy \<and> starts_with (le_name listed) ''.''
        then list_path_loop os policy max_entries dir stream entries w
      else case os_symlink_metadata os w (path_push dir raw) of
        (Inl _, w) \<Rightarrow> list_path_loop os policy max_entries dir stream entries w
      | (Inr md, w) \<Rightarrow>
          if denies_symlinks policy \<and> md_is_symlink md
          then list_path_loop os policy max_entries dir stream entries w
          else let entries = entries @ [listed\<lparr>le_is_dir := md_is_dir md\<rparr>] in
            if length entries \<ge> max_entries then (Inr entries, w)
            else list_path_loop os policy max_entries dir stream entries w)"

definition build_listing_entries_fallback ::
  "'w os \<Rightarrow> string \<Rightarrow> static_policy \<Rightarrow> nat \<Rightarrow> 'w \<Rightarrow> (errno + listing_entry list) \<times> 'w" where
  [rust_eval]: "build_listing_entries_fallback os dir policy max_entries w =
     on_ok (os_read_dir os w dir) Inl (\<lambda>stream w.
       on_ok (list_path_loop os policy max_entries dir stream [] w) Inl (\<lambda>entries w.
         (Inr (sort_entries entries), w)))"

section \<open>The root guard and the secure root\<close>

definition guard_resolve ::
  "'w os \<Rightarrow> pinned_root \<Rightarrow> confined_path \<Rightarrow> static_policy \<Rightarrow> 'w \<Rightarrow> resolved_resource \<times> 'w" where
  [rust_eval]: "guard_resolve os pinned confined policy w =
     (let reject_bs = reject_backslash (cp_policy confined) in
      if denies_symlinks policy then
        resolve_fd_relative os (pr_root_fd pinned) (pr_canonical_root pinned)
          (cp_components confined) policy reject_bs w
      else resolve_fallback os pinned (cp_components confined) policy reject_bs w)"

definition guard_resolve_child ::
  "'w os \<Rightarrow> pinned_root \<Rightarrow> resolved_directory \<Rightarrow> string \<Rightarrow> static_policy \<Rightarrow> 'w
   \<Rightarrow> resolved_resource \<times> 'w" where
  [rust_eval]: "guard_resolve_child os pinned dir child policy w =
     (case validate_child_component_with_policy child (denies_dotfiles policy)
             (rd_reject_backslash dir) of
        Inl rejection \<Rightarrow> (RDenied rejection, w)
      | Inr _ \<Rightarrow>
          if denies_symlinks policy then
            resolve_child_fd os (rd_dir_fd dir) (rd_components dir) (pr_canonical_root pinned)
              child policy (rd_reject_backslash dir) w
          else resolve_fallback os pinned (rd_components dir @ [child]) policy
                 (rd_reject_backslash dir) w)"

definition guard_list_directory ::
  "'w os \<Rightarrow> resolved_directory \<Rightarrow> static_policy \<Rightarrow> nat \<Rightarrow> 'w
   \<Rightarrow> (errno + listing_entry list) \<times> 'w" where
  [rust_eval]: "guard_list_directory os dir policy max_entries w =
     (if denies_symlinks policy then list_directory_fd os (rd_dir_fd dir) policy max_entries w
      else build_listing_entries_fallback os (rd_canonical_path dir) policy max_entries w)"

record secure_root =
  sr_pinned :: pinned_root
  sr_policy :: static_policy

definition secure_root_new ::
  "'w os \<Rightarrow> string \<Rightarrow> static_policy \<Rightarrow> 'w \<Rightarrow> (io_error + secure_root) \<times> 'w" where
  [rust_eval]: "secure_root_new os root policy w =
     on_ok (pinned_root_new os root w) Inl (\<lambda>pinned w.
       (Inr \<lparr>sr_pinned = pinned, sr_policy = policy\<rparr>, w))"

datatype resource_denied_reason =
    ReasonSymlinkDenied | ReasonDotfileDenied | ReasonRootEscapeDenied | PolicyDenied path_rejection

definition denied_reason :: "path_rejection \<Rightarrow> resource_denied_reason" where
  [rust_eval]: "denied_reason rejection =
     (case rejection of
        SymlinkDenied \<Rightarrow> ReasonSymlinkDenied
      | DotfileDenied \<Rightarrow> ReasonDotfileDenied
      | RootEscapeDenied \<Rightarrow> ReasonRootEscapeDenied
      | other \<Rightarrow> PolicyDenied other)"

definition secure_resolve ::
  "'w os \<Rightarrow> secure_root \<Rightarrow> confined_path \<Rightarrow> 'w \<Rightarrow> resolved_resource \<times> 'w" where
  [rust_eval]: "secure_resolve os root path w = guard_resolve os (sr_pinned root) path (sr_policy root) w"

definition secure_resolve_child ::
  "'w os \<Rightarrow> secure_root \<Rightarrow> resolved_directory \<Rightarrow> string \<Rightarrow> 'w \<Rightarrow> resolved_resource \<times> 'w" where
  [rust_eval]: "secure_resolve_child os root dir child w =
     guard_resolve_child os (sr_pinned root) dir child (sr_policy root) w"

definition secure_list ::
  "'w os \<Rightarrow> secure_root \<Rightarrow> resolved_directory \<Rightarrow> nat \<Rightarrow> 'w \<Rightarrow> (errno + listing_entry list) \<times> 'w" where
  [rust_eval]: "secure_list os root dir max_entries w =
     guard_list_directory os dir (sr_policy root) max_entries w"

definition uri_path_policy :: "static_policy \<Rightarrow> path_policy" where
  [rust_eval]: "uri_path_policy policy =
     \<lparr>dotfiles = (case sp_dotfiles policy of
                    ServeDotfilesDenied \<Rightarrow> dotfiles default_path_policy
                  | ServeDotfiles \<Rightarrow> DotfilesAllow),
      reject_backslash = True\<rparr>"

definition resolve_uri ::
  "'w os \<Rightarrow> secure_root \<Rightarrow> string \<Rightarrow> 'w \<Rightarrow> (path_rejection + resolved_resource) \<times> 'w" where
  [rust_eval]: "resolve_uri os root uri w =
     (case parse_confined uri (uri_path_policy (sr_policy root)) of
        Inl rejection \<Rightarrow> (Inl rejection, w)
      | Inr confined \<Rightarrow> (case secure_resolve os root confined w of (r, w) \<Rightarrow> (Inr r, w)))"

datatype resolve_and_plan_error =
    PlanNotFound | IsDirectory | PlanDenied resource_denied_reason | PlanBody body_source_error
  | PlanIo errno

text \<open>\<open>None\<close> stands for a panic of the planner.\<close>

definition resolve_and_plan ::
  "'w os \<Rightarrow> httpdate \<Rightarrow> secure_root \<Rightarrow> confined_path \<Rightarrow> read_only_method \<Rightarrow> conditionals \<Rightarrow> 'w
   \<Rightarrow> (resolve_and_plan_error + static_response_plan \<times> body_source) option \<times> 'w" where
  [rust_eval]: "resolve_and_plan os dt root path meth c w =
     (case secure_resolve os root path w of (resource, w) \<Rightarrow>
       ((case resource of
           RFile f \<Rightarrow>
             map_option (\<lambda>plan.
                 and_then (map_err PlanBody (into_body f plan)) (\<lambda>body. Inr (plan, body)))
               (plan_with_preconditions dt meth (metadata.truncate (rf_metadata f))
                  (rf_content_type f) c)
         | RDirectory _ \<Rightarrow> Some (Inl IsDirectory)
         | RNotFound \<Rightarrow> Some (Inl PlanNotFound)
         | RDenied reason \<Rightarrow> Some (Inl (PlanDenied (denied_reason reason)))
         | RIoError e \<Rightarrow> Some (Inl (PlanIo e))), w))"

section \<open>What the system calls are relied on for\<close>

text \<open>A name that is a single path component and not one of the two special names.\<close>

definition plain_name :: "bytes \<Rightarrow> bool" where
  "plain_name c \<longleftrightarrow>
     c \<noteq> [] \<and> c \<noteq> ''.'' \<and> c \<noteq> ''..'' \<and> CHR ''/'' \<notin> set c \<and> CHR 0x00 \<notin> set c"

text \<open>
  \<open>entry w d c f\<close>: in the state \<open>w\<close>, descriptor \<open>f\<close> was opened on the object that directory \<open>d\<close>
  itself lists under the name \<open>c\<close>, and this object is not a symbolic link.  That a successful
  \<^verbatim>\<open>openat\<close> with \<^verbatim>\<open>O_NOFOLLOW\<close> and a single component gives such a descriptor is all that
  confinement needs; it holds under any concurrent change of the filesystem.
\<close>

definition openat_nofollow :: "'w os \<Rightarrow> ('w \<Rightarrow> fd \<Rightarrow> bytes \<Rightarrow> fd \<Rightarrow> bool) \<Rightarrow> bool" where
  "openat_nofollow os entry \<longleftrightarrow>
     (\<forall>w d c flags f w'. os_openat os w d c flags = (Inr f, w') \<longrightarrow> NOFOLLOW \<in> set flags \<longrightarrow>
        plain_name c \<longrightarrow> entry w d c f)"

text \<open>The descriptors reached from a directory by opening one entry after the other.\<close>

inductive reached :: "('w \<Rightarrow> fd \<Rightarrow> bytes \<Rightarrow> fd \<Rightarrow> bool) \<Rightarrow> fd \<Rightarrow> bytes list \<Rightarrow> fd \<Rightarrow> bool"
  for entry root where
  here: "reached entry root [] root"
| step: "reached entry root cs d \<Longrightarrow> entry w d c f \<Longrightarrow> reached entry root (cs @ [c]) f"

inductive_simps reached_Nil [simp]: "reached entry root [] f"

text \<open>
  A filesystem nobody changes: every descriptor denotes a node, a node has metadata and, if it is a
  directory, entries; everything is readable.
\<close>

record fs_tree =
  ft_md :: "nat \<Rightarrow> fs_metadata"
  ft_entry :: "nat \<Rightarrow> bytes \<Rightarrow> nat option"

definition tree_wf :: "fs_tree \<Rightarrow> bool" where
  "tree_wf t \<longleftrightarrow> (\<forall>i c. ft_entry t i c \<noteq> None \<longrightarrow> md_is_dir (ft_md t i))"

definition at_rest :: "'w os \<Rightarrow> (fd \<Rightarrow> nat) \<Rightarrow> fs_tree \<Rightarrow> bool" where
  "at_rest os node t \<longleftrightarrow> tree_wf t
     \<and> (\<forall>w d c. case ft_entry t (node d) c of
          None \<Rightarrow> \<exists>e. fst (os_statat os w d c) = Inl e
        | Some i \<Rightarrow> fst (os_statat os w d c) = Inr (md_mode (ft_md t i)))
     \<and> (\<forall>w d c flags. NOFOLLOW \<in> set flags \<longrightarrow> (case ft_entry t (node d) c of
          None \<Rightarrow> \<exists>n. fst (os_openat os w d c flags) = Inl (OtherErrno n)
        | Some i \<Rightarrow>
            if md_is_symlink (ft_md t i) then fst (os_openat os w d c flags) = Inl LOOP
            else if DIRECTORY \<in> set flags \<and> \<not> md_is_dir (ft_md t i)
            then \<exists>n. fst (os_openat os w d c flags) = Inl (OtherErrno n)
            else \<exists>f. fst (os_openat os w d c flags) = Inr f \<and> node f = i))
     \<and> (\<forall>w f. fst (os_fstat os w f) = Inr (ft_md t (node f)))"

text \<open>The specification: follow the entries, and stop at a symbolic link.\<close>

datatype lookup_result = Found nat | Missing | Blocked

fun tree_lookup :: "fs_tree \<Rightarrow> nat \<Rightarrow> bytes list \<Rightarrow> lookup_result" where
  "tree_lookup t i [] = Found i"
| "tree_lookup t i (c # cs) =
     (case ft_entry t i c of
        None \<Rightarrow> Missing
      | Some j \<Rightarrow> if md_is_symlink (ft_md t j) then Blocked else tree_lookup t j cs)"

section \<open>Lemmas on validation\<close>

text \<open>The child check and the parse-level check accept the same components.\<close>

abbreviation child_path_policy :: "bool \<Rightarrow> bool \<Rightarrow> path_policy" where
  "child_path_policy denied bs \<equiv>
     \<lparr>dotfiles = (if denied then DotfilesDenied else DotfilesAllow), reject_backslash = bs\<rparr>"

lemma validate_child_iff:
  "validate_child_component_with_policy c denied bs = Inr () \<longleftrightarrow>
   safe_component (child_path_policy denied bs) c"
  using check_double_encoding_ok [of c] nul_is_control [of c]
  by (auto simp: validate_child_component_with_policy_def safe_component_def contains_char_def
      check_component_ok check_double_encoding_def result_inv)

lemma safe_component_plain: "safe_component policy c \<Longrightarrow> plain_name c"
  using nul_is_control by (auto simp: safe_component_def plain_name_def)

lemma safe_component_check: "safe_component policy c \<Longrightarrow> check_component c = Inr ()"
  by (simp add: safe_component_def check_component_ok)

lemma on_ok_cases:
  assumes "on_ok r h k = (x, w')"
  obtains (Err) e where "r = (Inl e, w')" "x = h e"
  | (Ok) a w where "r = (Inr a, w)" "k a w = (x, w')"
  using assms by (cases r; cases "fst r") (auto simp: on_ok_def)

section \<open>Confinement of the descriptor walk\<close>

text \<open>
  A resource that carries a descriptor carries one that was reached through exactly the listed
  components, and it has the type it is presented as.
\<close>

definition located :: "('w \<Rightarrow> fd \<Rightarrow> bytes \<Rightarrow> fd \<Rightarrow> bool) \<Rightarrow> fd \<Rightarrow> string list \<Rightarrow> string list
    \<Rightarrow> resolved_resource \<Rightarrow> bool" where
  "located entry root route components r \<longleftrightarrow>
     (case r of
        RFile f \<Rightarrow> reached entry root route (rf_file f) \<and> rf_components f = components
                  \<and> md_is_file (rf_metadata f)
      | RDirectory d \<Rightarrow> reached entry root route (rd_dir_fd d) \<and> rd_components d = components
      | _ \<Rightarrow> True)"

lemma located_simps [simp]:
  "located entry root route components RNotFound"
  "located entry root route components (RDenied e)"
  "located entry root route components (RIoError err)"
  "located entry root route components (open_error err)"
  by (auto simp: located_def open_error_def split: errno.splits)

lemma open_flags_nofollow [simp]: "NOFOLLOW \<in> set (open_flags final)"
  by (simp add: open_flags_def)

lemma openat_reached:
  assumes "openat_nofollow os entry" and "plain_name c" and "reached entry root cs d"
    and "os_openat os w d c (open_flags final) = (Inr f, w')"
  shows "reached entry root (cs @ [c]) f"
proof -
  have "entry w d c f" using assms(1,2,4) open_flags_nofollow unfolding openat_nofollow_def by blast
  with assms(3) show ?thesis by (rule reached.step)
qed

lemma stat_precheck_located:
  "stat_precheck os policy final d c w = (Some r, w') \<Longrightarrow> located entry root route components r"
  by (auto simp: stat_precheck_def elim!: on_ok_cases split: if_splits)

lemma classify_fd_located:
  assumes "classify_fd os canonical_root components bs f w = (r, w')" and "reached entry root route f"
  shows "located entry root route components r"
  using assms by (auto simp: classify_fd_def located_def md_is_file_def elim!: on_ok_cases split: if_splits)

lemma walk_fds_located:
  assumes "openat_nofollow os entry" and "list_all plain_name rest" and "reached entry root pre cur"
    and "walk_fds os canonical_root components policy bs cur rest w = (r, w')"
  shows "located entry root (pre @ rest) components r"
  using assms(2-4)
proof (induction rest arbitrary: cur pre w)
  case (Cons c rest)
  note plain = Cons.prems(1) and cur = Cons.prems(2)
  show ?case
  proof (cases "(denies_dotfiles policy \<and> starts_with c ''.'') \<or> check_component c \<noteq> Inr ()")
    case True
    then show ?thesis using Cons.prems(3) by (cases "check_component c") (auto split: if_splits)
  next
    case False
    then obtain early w1 where pre: "stat_precheck os policy (rest = []) cur c w = (early, w1)"
      by (cases "stat_precheck os policy (rest = []) cur c w")
    show ?thesis
    proof (cases early)
      case (Some r')
      then show ?thesis
        using Cons.prems(3) False pre by (auto intro: stat_precheck_located)
    next
      case None
      then have "on_ok (os_openat os w1 cur c (open_flags (rest = []))) open_error (\<lambda>new_fd w.
          if rest = [] then classify_fd os canonical_root components bs new_fd w
          else walk_fds os canonical_root components policy bs new_fd rest w) = (r, w')"
        using Cons.prems(3) False pre by auto
      then show ?thesis
      proof (cases rule: on_ok_cases)
        case (Ok f w2)
        have "reached entry root (pre @ [c]) f"
          using openat_reached [OF assms(1) _ cur Ok(1)] plain by simp
        then show ?thesis
          using Ok(2) Cons.IH [of "pre @ [c]" f w2] plain classify_fd_located
          by (cases "rest = []") fastforce+
      qed simp
    qed
  qed
qed simp

lemma resolve_fd_relative_located:
  assumes "openat_nofollow os entry" and "list_all plain_name components" and "components \<noteq> []"
    and "resolve_fd_relative os root_fd canonical_root components policy bs w = (r, w')"
  shows "located entry root_fd components components r"
  using walk_fds_located [OF assms(1,2) reached.here] assms(3,4)
  by (simp add: resolve_fd_relative_def)

lemma resolve_child_fd_located:
  assumes "openat_nofollow os entry"
    and "resolve_child_fd os d comps canonical_root child policy bs w = (r, w')"
  shows "located entry d [child] (comps @ [child]) r"
proof (cases "validate_child_component_with_policy child (denies_dotfiles policy) bs")
  case (Inl e)
  then show ?thesis using assms(2) by (auto simp: resolve_child_fd_def)
next
  case (Inr u)
  then have plain: "plain_name child"
    using validate_child_iff safe_component_plain by (cases u) blast
  obtain early w1 where pre: "stat_precheck os policy True d child w = (early, w1)"
    by (cases "stat_precheck os policy True d child w")
  show ?thesis
  proof (cases early)
    case (Some r')
    then show ?thesis
      using assms(2) Inr pre by (auto simp: resolve_child_fd_def intro: stat_precheck_located)
  next
    case None
    then have "on_ok (os_openat os w1 d child (open_flags True)) open_error (\<lambda>new_fd w.
        classify_fd os canonical_root (comps @ [child]) bs new_fd w) = (r, w')"
      using assms(2) Inr pre by (simp add: resolve_child_fd_def)
    then show ?thesis
    proof (cases rule: on_ok_cases)
      case (Ok f w2)
      have "reached entry d ([] @ [child]) f"
        using openat_reached [OF assms(1) plain reached.here Ok(1)] by simp
      then show ?thesis using Ok(2) classify_fd_located by fastforce
    qed simp
  qed
qed

section \<open>Resolution on a filesystem at rest\<close>

lemma at_rest_statat:
  assumes "at_rest os node t"
  shows "ft_entry t (node d) c = None \<Longrightarrow> \<exists>e w'. os_statat os w d c = (Inl e, w')"
    and "ft_entry t (node d) c = Some i \<Longrightarrow> \<exists>w'. os_statat os w d c = (Inr (md_mode (ft_md t i)), w')"
proof -
  have "case ft_entry t (node d) c of
      None \<Rightarrow> \<exists>e. fst (os_statat os w d c) = Inl e
    | Some i \<Rightarrow> fst (os_statat os w d c) = Inr (md_mode (ft_md t i))"
    using assms by (simp add: at_rest_def)
  then show "ft_entry t (node d) c = None \<Longrightarrow> \<exists>e w'. os_statat os w d c = (Inl e, w')"
    and "ft_entry t (node d) c = Some i \<Longrightarrow> \<exists>w'. os_statat os w d c = (Inr (md_mode (ft_md t i)), w')"
    by (cases "os_statat os w d c"; auto)+
qed

lemma at_rest_openat:
  assumes "at_rest os node t" and "ft_entry t (node d) c = Some i" and "\<not> md_is_symlink (ft_md t i)"
  shows "final \<or> md_is_dir (ft_md t i) \<Longrightarrow>
      \<exists>f w'. os_openat os w d c (open_flags final) = (Inr f, w') \<and> node f = i"
    and "\<not> final \<Longrightarrow> \<not> md_is_dir (ft_md t i) \<Longrightarrow>
      \<exists>n w'. os_openat os w d c (open_flags final) = (Inl (OtherErrno n), w')"
proof -
  have "if DIRECTORY \<in> set (open_flags final) \<and> \<not> md_is_dir (ft_md t i)
      then \<exists>n. fst (os_openat os w d c (open_flags final)) = Inl (OtherErrno n)
      else \<exists>f. fst (os_openat os w d c (open_flags final)) = Inr f \<and> node f = i"
    using assms open_flags_nofollow [of final] by (auto simp: at_rest_def split: option.splits if_splits)
  moreover have "DIRECTORY \<in> set (open_flags final) \<longleftrightarrow> \<not> final" by (simp add: open_flags_def)
  ultimately show "final \<or> md_is_dir (ft_md t i) \<Longrightarrow>
      \<exists>f w'. os_openat os w d c (open_flags final) = (Inr f, w') \<and> node f = i"
    and "\<not> final \<Longrightarrow> \<not> md_is_dir (ft_md t i) \<Longrightarrow>
      \<exists>n w'. os_openat os w d c (open_flags final) = (Inl (OtherErrno n), w')"
    by (cases "os_openat os w d c (open_flags final)"; auto)+
qed

lemma at_rest_fstat:
  assumes "at_rest os node t" obtains w' where "os_fstat os w f = (Inr (ft_md t (node f)), w')"
proof -
  have "fst (os_fstat os w f) = Inr (ft_md t (node f))" using assms by (simp add: at_rest_def)
  then show ?thesis using that by (cases "os_fstat os w f") simp
qed

lemma at_rest_entry_dir: "at_rest os node t \<Longrightarrow> \<not> md_is_dir (ft_md t i) \<Longrightarrow> ft_entry t i c = None"
  unfolding at_rest_def tree_wf_def by blast

lemma type_constants_distinct:
  "S_IFDIR \<noteq> S_IFREG" "S_IFDIR \<noteq> S_IFLNK" "S_IFREG \<noteq> S_IFLNK"
  "S_IFREG \<noteq> S_IFDIR" "S_IFLNK \<noteq> S_IFDIR" "S_IFLNK \<noteq> S_IFREG"
  by (simp_all add: S_IFDIR_def S_IFREG_def S_IFLNK_def)

lemmas kind_defs = md_is_dir_def md_is_file_def md_is_symlink_def

text \<open>How the outcome of the specification is presented as a resource.\<close>

definition presents :: "(fd \<Rightarrow> nat) \<Rightarrow> fs_tree \<Rightarrow> string \<Rightarrow> string list \<Rightarrow> bool \<Rightarrow> lookup_result
    \<Rightarrow> resolved_resource \<Rightarrow> bool" where
  "presents node t canonical_root components bs res r \<longleftrightarrow>
     (case res of
        Missing \<Rightarrow> r = RNotFound
      | Blocked \<Rightarrow> r = RDenied SymlinkDenied
      | Found i \<Rightarrow>
          if md_is_dir (ft_md t i) then
            (\<exists>f. node f = i \<and> r = RDirectory \<lparr>rd_dir_fd = f,
               rd_canonical_path = construct_path canonical_root components,
               rd_components = components, rd_reject_backslash = bs\<rparr>)
          else if md_is_file (ft_md t i) then
            (\<exists>f. node f = i \<and> r = RFile \<lparr>rf_file = f, rf_metadata = ft_md t i,
               rf_components = components\<rparr>)
          else r = RNotFound)"

lemma classify_fd_presents:
  assumes "at_rest os node t"
  shows "presents node t canonical_root components bs (Found (node f))
    (fst (classify_fd os canonical_root components bs f w))"
proof -
  obtain w' where "os_fstat os w f = (Inr (ft_md t (node f)), w')" by (rule at_rest_fstat [OF assms])
  then show ?thesis by (auto simp: classify_fd_def on_ok_def presents_def kind_defs)
qed

lemma stat_precheck_at_rest:
  assumes "at_rest os node t" and "denies_symlinks policy" and "ft_entry t (node d) c = Some i"
  obtains w' where "stat_precheck os policy final d c w =
    (if md_is_symlink (ft_md t i) then Some (RDenied SymlinkDenied)
     else if final \<and> \<not> md_is_file (ft_md t i) \<and> \<not> md_is_dir (ft_md t i) then Some RNotFound
     else None, w')"
  using at_rest_statat(2) [OF assms(1,3), of w] assms(2)
  by (auto simp: stat_precheck_def on_ok_def kind_defs)

text \<open>One iteration of the loop on an entry that exists and is not a link.\<close>

lemma walk_step_at_rest:
  assumes "at_rest os node t" and "denies_symlinks policy"
    and "\<not> (denies_dotfiles policy \<and> starts_with c ''.'')" and "check_component c = Inr ()"
    and "ft_entry t (node cur) c = Some i" and "\<not> md_is_symlink (ft_md t i)"
    and "\<And>f w. node f = i \<Longrightarrow> rest \<noteq> [] \<Longrightarrow> presents node t canonical_root components bs
          (tree_lookup t i rest) (fst (walk_fds os canonical_root components policy bs f rest w))"
  shows "presents node t canonical_root components bs (tree_lookup t i rest)
    (fst (walk_fds os canonical_root components policy bs cur (c # rest) w))"
proof -
  obtain w1 where pre: "stat_precheck os policy (rest = []) cur c w =
    (if rest = [] \<and> \<not> md_is_file (ft_md t i) \<and> \<not> md_is_dir (ft_md t i) then Some RNotFound
     else None, w1)"
    using stat_precheck_at_rest [OF assms(1,2,5), of "rest = []" w] assms(6) by auto
  show ?thesis
  proof (cases "rest = [] \<or> md_is_dir (ft_md t i)")
    case True
    then obtain f w2 where f: "os_openat os w1 cur c (open_flags (rest = [])) = (Inr f, w2)" "node f = i"
      using at_rest_openat(1) [OF assms(1,5,6)] by metis
    show ?thesis
    proof (cases "rest = []")
      case True
      with pre f assms(3,4) classify_fd_presents [OF assms(1), of canonical_root components bs f w2]
      show ?thesis
        by (auto simp: on_ok_def presents_def)
    next
      case False
      with pre f assms(3,4) assms(7) [of f w2] show ?thesis by (auto simp: on_ok_def)
    qed
  next
    case False
    then obtain n w2 where "os_openat os w1 cur c (open_flags (rest = [])) = (Inl (OtherErrno n), w2)"
      using at_rest_openat(2) [OF assms(1,5,6)] by metis
    moreover have "tree_lookup t i rest = Missing"
    proof -
      obtain c' cs' where "rest = c' # cs'" using False by (cases rest) auto
      moreover have "ft_entry t i c' = None"
        using False assms(1) by (simp add: at_rest_entry_dir)
      ultimately show ?thesis by simp
    qed
    ultimately show ?thesis
      using pre False assms(3,4) by (auto simp: on_ok_def presents_def open_error_def)
  qed
qed

lemma walk_at_rest:
  assumes "at_rest os node t" and "denies_symlinks policy"
    and "list_all (\<lambda>c. \<not> (denies_dotfiles policy \<and> starts_with c ''.'') \<and> check_component c = Inr ()) rest"
    and "rest \<noteq> []"
  shows "presents node t canonical_root components bs (tree_lookup t (node cur) rest)
    (fst (walk_fds os canonical_root components policy bs cur rest w))"
  using assms(3,4)
proof (induction rest arbitrary: cur w)
  case (Cons c rest)
  have ok: "\<not> (denies_dotfiles policy \<and> starts_with c ''.'')" "check_component c = Inr ()"
    using Cons.prems(1) by simp_all
  show ?case
  proof (cases "ft_entry t (node cur) c")
    case None
    then obtain e w' where "os_statat os w cur c = (Inl e, w')"
      using at_rest_statat(1) [OF assms(1)] by blast
    with None ok assms(2) show ?thesis by (simp add: stat_precheck_def on_ok_def presents_def)
  next
    case (Some i)
    show ?thesis
    proof (cases "md_is_symlink (ft_md t i)")
      case True
      then obtain w' where "stat_precheck os policy (rest = []) cur c w = (Some (RDenied SymlinkDenied), w')"
        by (auto intro: stat_precheck_at_rest [OF assms(1,2) Some, of "rest = []" w])
      with Some True ok show ?thesis by (simp add: presents_def)
    next
      case False
      have "presents node t canonical_root components bs (tree_lookup t i rest)
          (fst (walk_fds os canonical_root components policy bs f rest w))"
        if "node f = i" and "rest \<noteq> []" for f w
        using Cons.IH [of f w] Cons.prems(1) that by simp
      then have "presents node t canonical_root components bs (tree_lookup t i rest)
          (fst (walk_fds os canonical_root components policy bs cur (c # rest) w))"
        by (rule walk_step_at_rest [OF assms(1,2) ok Some False])
      with Some False show ?thesis by (simp del: walk_fds.simps)
    qed
  qed
qed simp

section \<open>Links of a listing\<close>

text \<open>The bytes the decoder lets through; the name of a directory entry has neither slash nor NUL.\<close>

definition link_byte :: "char \<Rightarrow> bool" where
  "link_byte b \<longleftrightarrow> \<not> is_ascii_control b \<and> b \<noteq> CHR ''/'' \<and> b \<noteq> CHR 0x5C"

lemma byte_less_256: "byte c < (256 :: nat)"
  by (simp add: of_char_def)

lemma byte_div_16 [simp]: "byte c div 16 < (16 :: nat)"
  using byte_less_256 [of c] less_mult_imp_div_less [of "byte c" 16 16] by simp

lemma hex_digit_upper: "n < 16 \<Longrightarrow> hex_digit (hex_upper n) = Some n"
  by (simp add: hex_digit_def hex_upper_def)

lemma hex_pair_byte: "16 * (byte b div 16) + byte b mod 16 = (byte b :: nat)"
  by (simp add: mult.commute)

lemma check_decoded_octet_link_byte: "link_byte b \<Longrightarrow> check_decoded_octet (byte b) = Inr ()"
  unfolding link_byte_def is_ascii_control_def check_decoded_octet_def char_eq_byte by auto

lemma unreserved_link_byte:
  "is_unreserved b \<Longrightarrow> link_byte b \<and> b \<noteq> CHR ''%'' \<and> is_ascii b"
  unfolding link_byte_def is_unreserved_def char_eq_byte ascii_class by auto

lemma decode_encode:
  assumes "list_all link_byte raw"
  shows "decode_bytes (percent_encode_bytes raw) = Inr raw"
  using assms
proof (induction raw)
  case (Cons b raw)
  then have b: "link_byte b" and IH: "decode_bytes (percent_encode_bytes raw) = Inr raw" by auto
  show ?case
  proof (cases "is_unreserved b")
    case True
    then show ?thesis using IH unreserved_link_byte [OF True] by (simp add: link_byte_def)
  next
    case False
    have "hex_digit (hex_upper (byte b div 16)) = Some (byte b div 16)"
      by (intro hex_digit_upper) simp
    moreover have "hex_digit (hex_upper (byte b mod 16)) = Some (byte b mod 16)"
      by (intro hex_digit_upper) simp
    ultimately show ?thesis
      using False IH check_decoded_octet_link_byte [OF b] by (simp add: hex_pair_byte)
  qed
qed simp

text \<open>Whatever an encoded name decodes to is the name.\<close>

lemma decode_encode_Inr: "decode_bytes (percent_encode_bytes raw) = Inr y \<Longrightarrow> y = raw"
proof (induction raw arbitrary: y)
  case (Cons b raw)
  have "char_of (16 * (byte b div 16) + byte b mod 16 :: nat) = b" by (simp add: hex_pair_byte)
  then show ?case
    using Cons hex_digit_upper [of "byte b div 16"] hex_digit_upper [of "byte b mod 16"]
      unreserved_link_byte [of b]
    by (cases "is_unreserved b") (auto simp: result_inv split: if_splits)
qed simp

lemma decode_bytes_append:
  "decode_bytes a = Inr x \<Longrightarrow> decode_bytes b = Inr y \<Longrightarrow> decode_bytes (a @ b) = Inr (x @ y)"
proof (induction a arbitrary: x rule: decode_induct)
  case (Short s)
  then show ?case by (cases s) (auto simp: decode_bytes_inv simp del: decode_bytes.simps)
qed (auto simp: result_inv split: if_splits)

lemma percent_encode_ascii: "list_all is_ascii (percent_encode_bytes raw)"
proof (induction raw)
  case (Cons b raw)
  have "is_ascii (hex_upper n)" if "n < 16" for n using that by (simp add: hex_upper_def is_ascii_def)
  moreover have "byte b div 16 < (16 :: nat)" "byte b mod 16 < (16 :: nat)" by simp_all
  ultimately show ?case using Cons unreserved_link_byte [of b] by (auto simp: is_ascii_def [of "CHR ''%''"])
qed simp

lemma from_path_component_general:
  "utf8_valid path \<Longrightarrow> from_path_component path policy = Inr cp \<longleftrightarrow> general_path path policy = Inr cp"
  using fast_path_equiv_general by (cases "already_normalized path") (auto simp: from_path_component_def)

lemma safe_component_link_bytes:
  assumes "safe_component policy raw" and "reject_backslash policy"
  shows "list_all link_byte raw"
  using assms by (auto simp: safe_component_def link_byte_def list_all_iff list_ex_iff)

lemma split_components_extend:
  assumes "raw \<noteq> []" and "CHR ''/'' \<notin> set raw"
  shows "split_components (x @ CHR ''/'' # raw) = split_components (x @ ''/'') @ [raw]"
  using assms by (simp add: split_components_def split_char_append split_char_no_sep)

text \<open>The decoded text of a directory path and of the path of one of its entries.\<close>

lemma decode_link:
  assumes "decode_bytes (p @ ''/'') = Inr d" and "list_all link_byte raw"
  obtains x where "d = x @ ''/''" and "decode_bytes (p @ CHR ''/'' # percent_encode_bytes raw) = Inr (x @ CHR ''/'' # raw)"
proof -
  obtain x y where xy: "decode_bytes p = Inr x" "decode_bytes [] = Inr y" "d = x @ CHR ''/'' # y"
    using decode_bytes_at_slash [of p "[]" d] assms(1) by auto
  have "decode_bytes (CHR ''/'' # percent_encode_bytes raw) = Inr (CHR ''/'' # raw)"
    using decode_encode [OF assms(2)] by (simp add: is_ascii_control_def)
  then have "decode_bytes (p @ CHR ''/'' # percent_encode_bytes raw) = Inr (x @ CHR ''/'' # raw)"
    by (rule decode_bytes_append [OF xy(1)])
  then show ?thesis using that xy by simp
qed

lemma link_admitted:
  assumes "from_path_component (p @ ''/'') policy = Inr cp" and "utf8_valid (p @ ''/'')"
    and "utf8_valid raw" and "safe_component policy raw" and "reject_backslash policy"
  shows "\<exists>cp'. from_path_component (p @ CHR ''/'' # percent_encode_bytes raw) policy = Inr cp'
    \<and> cp_components cp' = cp_components cp @ [raw]"
proof -
  have ne: "raw \<noteq> []" "CHR ''/'' \<notin> set raw" using assms(4) by (auto simp: safe_component_def)
  obtain d where d: "percent_decode (p @ ''/'') = Inr d"
    "list_all (safe_component policy) (split_components d)" "cp_components cp = split_components d"
    using assms(1,2) by (auto simp: from_path_component_general general_path_Inr)
  obtain x where x: "d = x @ ''/''"
    and dec: "decode_bytes (p @ CHR ''/'' # percent_encode_bytes raw) = Inr (x @ CHR ''/'' # raw)"
    using decode_link percent_decode_InrD [OF d(1)] safe_component_link_bytes [OF assms(4,5)] by metis
  have "utf8_valid x" using percent_decode_InrD [OF d(1)] x utf8_valid_ascii_split [of "CHR ''/''" x "[]"] by simp
  then have "percent_decode (p @ CHR ''/'' # percent_encode_bytes raw) = Inr (x @ CHR ''/'' # raw)"
    using dec assms(3) utf8_valid_ascii_split [of "CHR ''/''" x raw] by (simp add: percent_decode_def)
  moreover have "split_components (x @ CHR ''/'' # raw) = split_components d @ [raw]"
    using split_components_extend [OF ne] x by simp
  moreover have "utf8_valid (p @ CHR ''/'' # percent_encode_bytes raw)"
    using assms(2) utf8_valid_ascii_split [of "CHR ''/''" p] utf8_valid_ascii [OF percent_encode_ascii]
    by simp
  ultimately show ?thesis
    using d assms(4) by (auto simp: from_path_component_general general_path_Inr)
qed

lemma hex_upper_inject: "m < 16 \<Longrightarrow> n < 16 \<Longrightarrow> hex_upper m = hex_upper n \<longleftrightarrow> m = n"
  using hex_digit_upper by (metis option.inject)

lemma hex_pair_inject:
  "hex_upper (byte x div 16) = hex_upper (byte y div 16)
   \<and> hex_upper (byte x mod 16) = hex_upper (byte y mod 16) \<longleftrightarrow> x = y"
proof -
  have "x = y" if "byte x div 16 = (byte y div 16 :: nat)" "byte x mod 16 = (byte y mod 16 :: nat)"
  proof -
    have "byte x = (byte y :: nat)" using that hex_pair_byte [of x] hex_pair_byte [of y] by metis
    then show ?thesis by (rule iffD2 [OF char_eq_byte])
  qed
  then show ?thesis by (auto simp: hex_upper_inject)
qed

text \<open>Two names never share a link target, whatever their bytes.\<close>

lemma percent_encode_inject: "percent_encode_bytes a = percent_encode_bytes b \<Longrightarrow> a = b"
proof (induction a arbitrary: b)
  case Nil
  then show ?case by (cases b) (auto split: if_splits)
next
  case (Cons x a)
  then obtain y b' where b: "b = y # b'" by (cases b) (auto split: if_splits)
  have no: "is_unreserved z \<Longrightarrow> z \<noteq> CHR ''%''" for z using unreserved_link_byte by blast
  show ?case
  proof (cases "is_unreserved x \<or> is_unreserved y")
    case True
    then show ?thesis using Cons b no [of x] no [of y] by (auto split: if_splits)
  next
    case False
    then show ?thesis using Cons b hex_pair_inject [of x y] by simp
  qed
qed

text \<open>
  Where the entries of a listing come from: each was read from the directory stream, is not hidden
  by the policy and was not a link when it was looked at.
\<close>

definition listed_from :: "'w os \<Rightarrow> static_policy \<Rightarrow> fd \<Rightarrow> bytes \<Rightarrow> listing_entry \<Rightarrow> bool" where
  "listed_from os policy d raw e \<longleftrightarrow>
     raw \<noteq> ''.'' \<and> raw \<noteq> ''..'' \<and> \<not> (denies_dotfiles policy \<and> starts_with raw ''.'')
     \<and> (\<exists>w w' mode. os_statat os w d raw = (Inr mode, w')
          \<and> \<not> (denies_symlinks policy \<and> file_type mode = S_IFLNK)
          \<and> e = from_raw_bytes raw (file_type mode = S_IFDIR))"

lemma list_fd_loop_listed:
  assumes "list_fd_loop os policy n d stream entries w = (Inr es, w')"
    and "\<And>e. e \<in> set entries \<Longrightarrow> P e"
    and "\<And>raw e. Inr raw \<in> set stream \<Longrightarrow> listed_from os policy d raw e \<Longrightarrow> P e"
  shows "e \<in> set es \<Longrightarrow> P e"
  using assms
proof (induction stream arbitrary: entries w)
  case (Cons item stream)
  note IH = Cons.IH and prems = Cons.prems
  have later: "\<And>raw e. Inr raw \<in> set stream \<Longrightarrow> listed_from os policy d raw e \<Longrightarrow> P e"
    by (rule prems(4)) simp_all
  show ?case
  proof (cases item)
    case (Inr raw)
    have skip: ?thesis if "list_fd_loop os policy n d stream entries w1 = (Inr es, w')" for w1
      by (rule IH [OF prems(1) that prems(3) later])
    show ?thesis
    proof (cases "raw = ''.'' \<or> raw = ''..'' \<or> (denies_dotfiles policy \<and> starts_with raw ''.'')")
      case True
      then show ?thesis using prems(2) Inr skip by (auto split: if_splits)
    next
      case False
      obtain r w1 where stat: "os_statat os w d raw = (r, w1)" by (cases "os_statat os w d raw")
      show ?thesis
      proof (cases "\<exists>mode. r = Inr mode \<and> \<not> (denies_symlinks policy \<and> file_type mode = S_IFLNK)")
        case False': False
        then show ?thesis using prems(2) Inr False stat skip by (cases r) (auto split: if_splits)
      next
        case True
        then obtain mode where mode: "r = Inr mode" "\<not> (denies_symlinks policy \<and> file_type mode = S_IFLNK)"
          by blast
        let ?e = "from_raw_bytes raw (file_type mode = S_IFDIR)"
        have "listed_from os policy d raw ?e" using False stat mode by (auto simp: listed_from_def)
        then have new: "P x" if "x \<in> set (entries @ [?e])" for x
          using that prems(3,4) Inr by auto
        have "if n \<le> Suc (length entries) then es = entries @ [?e]
              else list_fd_loop os policy n d stream (entries @ [?e]) w1 = (Inr es, w')"
          using prems(2) Inr False stat mode by (auto simp: Let_def split: if_splits)
        then consider "es = entries @ [?e]"
          | "list_fd_loop os policy n d stream (entries @ [?e]) w1 = (Inr es, w')"
          by (auto split: if_splits)
        then show ?thesis
        proof cases
          case 1
          then show ?thesis using new prems(1) by simp
        next
          case 2
          show ?thesis by (rule IH [OF prems(1) 2 new later])
        qed
      qed
    qed
  qed (use prems in simp)
qed auto

lemma list_fd_loop_length:
  "list_fd_loop os policy n d stream entries w = (Inr es, w') \<Longrightarrow> length entries < max 1 n
   \<Longrightarrow> length es \<le> max 1 n"
  by (induction os policy n d stream entries w rule: list_fd_loop.induct)
    (auto simp: Let_def split: if_splits sum.splits prod.splits)

section \<open>Planning on a resolved file\<close>

lemma range_try_new_below:
  assumes "a \<le> b" and "b < (len :: u64)"
  shows "file_range_try_new a b = Some \<lparr>fr_start = a, fr_end_inclusive = b\<rparr>"
    and "\<exists>n. range_len \<lparr>fr_start = a, fr_end_inclusive = b\<rparr> = Some n \<and> unat n = unat b - unat a + 1"
proof -
  obtain n where "range_len \<lparr>fr_start = a, fr_end_inclusive = b\<rparr> = Some n" "unat n = unat b - unat a + 1"
    using range_len_below [of "\<lparr>fr_start = a, fr_end_inclusive = b\<rparr>" len] assms by auto
  then show "\<exists>n. range_len \<lparr>fr_start = a, fr_end_inclusive = b\<rparr> = Some n \<and> unat n = unat b - unat a + 1"
    and "file_range_try_new a b = Some \<lparr>fr_start = a, fr_end_inclusive = b\<rparr>"
    using assms(1) by (auto simp: file_range_try_new_def range_len_def)
qed

lemma into_body_consistent:
  assumes "plan_consistent meth (metadata.truncate (rf_metadata f)) plan"
  shows "\<exists>src n. into_body f plan = Inr src \<and> source_len src = Some n
    \<and> (plan_body plan = BodyEmpty \<and> src = SourceEmpty
       \<or> plan_get (plan_headers plan) ''content-length'' = Some (dec (unat n))
         \<and> (plan_body plan = FileFull
              \<and> src = SourceFileFull (rf_file f) (md_len (rf_metadata f)) (rf_content_type f)
            \<or> (\<exists>a b. plan_body plan = FileRange a b \<and> a \<le> b \<and> b < md_len (rf_metadata f)
                \<and> src = SourceFileRange (rf_file f) \<lparr>fr_start = a, fr_end_inclusive = b\<rparr>
                          (md_len (rf_metadata f)) (rf_content_type f))))"
proof (cases "plan_body plan")
  case (FileRange a b)
  then have ab: "a \<le> b" "b < md_len (rf_metadata f)"
    and cl: "plan_get (plan_headers plan) ''content-length'' = Some (dec (unat b - unat a + 1))"
    using assms by (auto simp: plan_consistent_def metadata.truncate_def)
  obtain n where "range_len \<lparr>fr_start = a, fr_end_inclusive = b\<rparr> = Some n" "unat n = unat b - unat a + 1"
    using range_try_new_below(2) [OF ab] by blast
  with FileRange ab cl range_try_new_below(1) [OF ab] show ?thesis
    by (simp add: into_body_def source_len_def Let_def not_less not_le)
qed (use assms in \<open>auto simp: plan_consistent_def into_body_def source_len_def metadata.truncate_def\<close>)

section \<open>Resolution by pathname\<close>

lemma push_validated_Inr:
  "push_validated policy bs base cs = Inr candidate \<Longrightarrow>
   candidate = construct_path base cs
   \<and> list_all (safe_component (child_path_policy (denies_dotfiles policy) bs)) cs"
  by (induction cs arbitrary: base) (auto simp: result_inv construct_path_def validate_child_iff)

lemma fallback_reverify_Some:
  assumes "fallback_reverify os candidate root w = (Some u, w')"
  obtains p where "os_canonicalize os w candidate = (Inr p, w')" and "path_starts_with p root"
  using assms by (auto simp: fallback_reverify_def split: sum.splits prod.splits if_splits)

lemma alias_loop_refuses: "fst (alias_loop os root base cs w) \<noteq> Some (RFile f)"
proof (induction cs arbitrary: base w)
  case (Cons c cs)
  then show ?case
    by (cases "os_canonicalize os w (path_push base c)"; cases "fst (os_canonicalize os w (path_push base c))")
      (auto simp: Let_def on_ok_def)
qed simp

lemma open_canonical_File:
  assumes "open_canonical os root comps bs candidate canonical w = (RFile f, w')"
  obtains w2 w3 p where "os_open os w2 canonical [RDONLY, CLOEXEC] = (Inr (rf_file f), w3)"
    "os_canonicalize os w3 candidate = (Inr p, w')" "path_starts_with p root" "rf_components f = comps"
proof -
  obtain md w2 f' w3 u where "os_open os w2 canonical [RDONLY, CLOEXEC] = (Inr f', w3)"
    and re: "fallback_reverify os candidate root w3 = (Some u, w')"
    and "f = \<lparr>rf_file = f', rf_metadata = md, rf_components = comps\<rparr>"
    using assms unfolding open_canonical_def
    by (auto elim!: on_ok_cases split: if_splits prod.splits option.splits)
  then show ?thesis using that by (auto elim: fallback_reverify_Some)
qed

text \<open>
  When links are followed nothing is assumed of the system: a file is handed out only if its
  pathname resolved below the root before the open and again after it.
\<close>

lemma fallback_checked_twice:
  assumes "resolve_fallback os pinned comps policy bs w = (RFile f, w')"
  obtains canonical w1 w2 w3 p where
    "os_canonicalize os w (construct_path (pr_canonical_root pinned) comps) = (Inr canonical, w1)"
    "path_starts_with canonical (pr_canonical_root pinned)"
    "os_open os w2 canonical [RDONLY, CLOEXEC] = (Inr (rf_file f), w3)"
    "os_canonicalize os w3 (construct_path (pr_canonical_root pinned) comps) = (Inr p, w')"
    "path_starts_with p (pr_canonical_root pinned)"
    "rf_components f = comps"
    "list_all (safe_component (child_path_policy (denies_dotfiles policy) bs)) comps"
proof -
  obtain candidate where cand: "push_validated policy bs (pr_canonical_root pinned) comps = Inr candidate"
    using assms by (auto simp: resolve_fallback_def split: sum.splits)
  note c = push_validated_Inr [OF cand]
  obtain canonical w1 where can: "os_canonicalize os w candidate = (Inr canonical, w1)"
    and below: "path_starts_with canonical (pr_canonical_root pinned)"
    using assms cand by (auto simp: resolve_fallback_def elim!: on_ok_cases split: if_splits)
  let ?aliased = "if denies_dotfiles policy
      then alias_loop os (pr_canonical_root pinned) (pr_canonical_root pinned) comps w1 else (None, w1)"
  obtain early w2 where early: "?aliased = (early, w2)" by (cases ?aliased)
  have eq: "resolve_fallback os pinned comps policy bs w = (case early of
      Some r \<Rightarrow> (r, w2)
    | None \<Rightarrow> open_canonical os (pr_canonical_root pinned) comps bs candidate canonical w2)"
    using cand can below early by (simp add: resolve_fallback_def on_ok_def split: option.splits)
  have "early \<noteq> Some (RFile f)"
    using early alias_loop_refuses [of os "pr_canonical_root pinned" "pr_canonical_root pinned" comps w1 f]
    by (auto split: if_splits)
  then have "open_canonical os (pr_canonical_root pinned) comps bs candidate canonical w2 = (RFile f, w')"
    using eq assms by (auto split: option.splits)
  then show ?thesis
    by (rule open_canonical_File) (use that can below c in blast)
qed

section \<open>Admitted paths and the serving policy\<close>

lemma parse_confined_safe:
  assumes "parse_confined raw policy = Inr cp"
  shows "list_all (safe_component policy) (cp_components cp)" and "cp_policy cp = policy"
  using parse_confined_InrD [OF assms] from_path_component_safe by metis+

lemma safe_component_served:
  assumes "safe_component (uri_path_policy policy) c"
  shows "\<not> (denies_dotfiles policy \<and> starts_with c ''.'')" and "check_component c = Inr ()"
proof -
  have "denies_dotfiles policy \<Longrightarrow> dotfiles (uri_path_policy policy) = DotfilesDenied"
    by (simp add: uri_path_policy_def default_path_policy_def)
  then show "\<not> (denies_dotfiles policy \<and> starts_with c ''.'')"
    using assms by (auto simp: safe_component_def)
  show "check_component c = Inr ()" by (rule safe_component_check [OF assms])
qed

section \<open>An instance of the assumptions\<close>

text \<open>
  A filesystem at rest as a value: descriptors are nodes and no call changes anything.  It shows
  that the assumptions above can hold, and the witnesses below run on it.
\<close>

definition tree_openat :: "fs_tree \<Rightarrow> fd \<Rightarrow> bytes \<Rightarrow> oflag list \<Rightarrow> errno + fd" where
  [rust_eval]: "tree_openat t d c flags =
     (case ft_entry t d c of
        None \<Rightarrow> Inl (OtherErrno 2)
      | Some i \<Rightarrow>
          if md_is_symlink (ft_md t i) then Inl LOOP
          else if DIRECTORY \<in> set flags \<and> \<not> md_is_dir (ft_md t i) then Inl (OtherErrno 20)
          else Inr i)"

definition tree_os :: "fs_tree \<Rightarrow> (fd \<Rightarrow> bytes list) \<Rightarrow> unit os" where
  [rust_eval]: "tree_os t names =
     \<lparr>os_statat = \<lambda>w d c. (case ft_entry t d c of
        None \<Rightarrow> Inl (OtherErrno 2) | Some i \<Rightarrow> Inr (md_mode (ft_md t i)), w),
      os_openat = \<lambda>w d c flags. (tree_openat t d c flags, w),
      os_fstat = \<lambda>w f. (Inr (ft_md t f), w),
      os_dup = \<lambda>w f. (Inr f, w),
      os_readdir = \<lambda>w f. (Inr (map Inr (names f)), w),
      os_canonicalize = \<lambda>w p. (Inl (OtherErrno 38), w),
      os_metadata = \<lambda>w p. (Inl (OtherErrno 38), w),
      os_symlink_metadata = \<lambda>w p. (Inl (OtherErrno 38), w),
      os_open = \<lambda>w p flags. (Inl (OtherErrno 38), w),
      os_read_dir = \<lambda>w p. (Inl (OtherErrno 38), w)\<rparr>"

definition tree_entry :: "fs_tree \<Rightarrow> unit \<Rightarrow> fd \<Rightarrow> bytes \<Rightarrow> fd \<Rightarrow> bool" where
  "tree_entry t w d c f \<longleftrightarrow> ft_entry t d c = Some f \<and> \<not> md_is_symlink (ft_md t f)"

lemma tree_os_nofollow: "openat_nofollow (tree_os t names) (tree_entry t)"
  by (auto simp: openat_nofollow_def tree_os_def tree_openat_def tree_entry_def
      split: option.splits if_splits)

lemma tree_os_at_rest: "tree_wf t \<Longrightarrow> at_rest (tree_os t names) id t"
  by (auto simp: at_rest_def tree_os_def tree_openat_def split: option.splits)

text \<open>A root (0) with a directory (1) holding a file (2), and a link (3).\<close>

definition sample_tree :: fs_tree where
  [rust_eval]: "sample_tree =
     \<lparr>ft_md = \<lambda>i. \<lparr>md_len = 5, md_modified = Some 0,
        md_mode = (if i = 2 then 0x81A4 else if i = 3 then 0xA1FF else 0x41ED)\<rparr>,
      ft_entry = \<lambda>i c.
        if i = 0 \<and> c = ''pub'' then Some 1
        else if i = 0 \<and> c = ''link'' then Some 3
        else if i = 1 \<and> c = ''a.txt'' then Some 2 else None\<rparr>"

definition sample_root :: secure_root where
  [rust_eval]: "sample_root =
     \<lparr>sr_pinned = \<lparr>pr_canonical_root = ''/srv'', pr_root_fd = 0\<rparr>,
      sr_policy = static_policy_safe_default\<lparr>sp_directory_listing := ListingEnabled\<rparr>\<rparr>"

definition sample_os :: "unit os" where
  [rust_eval]: "sample_os = tree_os sample_tree (\<lambda>i. if i = 0 then [''.'', ''..'', ''pub'', ''link''] else [''a.txt''])"

lemma sample_tree_wf: "tree_wf sample_tree"
  by (auto simp: tree_wf_def sample_tree_def md_is_dir_def file_type_def S_IFMT_def S_IFDIR_def)

section \<open>Two corner cases of listings\<close>

text \<open>The check of the entry limit comes after the push, so a limit of zero still lists one entry.\<close>

lemma zero_limit_lists_one:
  "\<exists>es. list_directory_fd sample_os 0 static_policy_safe_default 0 () = (Inr es, ()) \<and> length es = 1"
  by (simp add: rust_eval)

text \<open>
  The link of an entry whose name is not UTF-8 keeps the exact bytes, but requesting it is always
  refused: decoded targets have to be UTF-8.
\<close>

lemma non_utf8_link_refused:
  assumes "\<not> utf8_valid raw"
  shows "\<exists>e. from_path_component (CHR ''/'' # percent_encode_bytes raw) policy = Inl e"
proof (cases "from_path_component (CHR ''/'' # percent_encode_bytes raw) policy")
  case (Inr cp)
  have "utf8_valid (CHR ''/'' # percent_encode_bytes raw)"
    using utf8_valid_ascii [OF percent_encode_ascii] by simp
  then obtain d where d: "percent_decode (CHR ''/'' # percent_encode_bytes raw) = Inr d"
    using Inr by (auto simp: from_path_component_general general_path_Inr)
  then obtain y where y: "decode_bytes (percent_encode_bytes raw) = Inr y" "utf8_valid y"
    by (auto simp: percent_decode_def result_inv split: if_splits)
  have "y = raw" using decode_encode_Inr [OF y(1)] .
  with y assms show ?thesis by simp
qed blast

section \<open>Confined resolution of a target\<close>

lemma secure_resolve_child_located:
  assumes "openat_nofollow os entry" and "sp_symlinks (sr_policy root) = SymlinkPolicyDenied"
    and "secure_resolve_child os root d child w = (r, w')"
  shows "located entry (rd_dir_fd d) [child] (rd_components d @ [child]) r"
  using assms resolve_child_fd_located [OF assms(1)]
  by (auto simp: secure_resolve_child_def guard_resolve_child_def split: sum.splits)

text \<open>A resolved target: either below the root, or a duplicate of the root itself.\<close>

lemma resolve_uri_located:
  assumes "openat_nofollow os entry" and "sp_symlinks (sr_policy root) = SymlinkPolicyDenied"
    and "resolve_uri os root uri w = (Inr r, w')"
  obtains cp where "parse_confined uri (uri_path_policy (sr_policy root)) = Inr cp"
    and "list_all (safe_component (uri_path_policy (sr_policy root))) (cp_components cp)"
    and "cp_components cp \<noteq> [] \<Longrightarrow>
      located entry (pr_root_fd (sr_pinned root)) (cp_components cp) (cp_components cp) r"
    and "cp_components cp = [] \<Longrightarrow> (\<exists>e. r = RIoError e) \<or>
      (\<exists>d. r = RDirectory d \<and> rd_components d = []
         \<and> os_dup os w (pr_root_fd (sr_pinned root)) = (Inr (rd_dir_fd d), w'))"
proof -
  obtain cp where cp: "parse_confined uri (uri_path_policy (sr_policy root)) = Inr cp"
    and res: "secure_resolve os root cp w = (r, w')"
    using assms(3) by (auto simp: resolve_uri_def split: sum.splits prod.splits)
  have safe: "list_all (safe_component (uri_path_policy (sr_policy root))) (cp_components cp)"
    by (rule parse_confined_safe [OF cp])
  then have plain: "list_all plain_name (cp_components cp)"
    by (auto simp: list_all_iff safe_component_plain)
  have "cp_components cp \<noteq> [] \<Longrightarrow>
      located entry (pr_root_fd (sr_pinned root)) (cp_components cp) (cp_components cp) r"
    using resolve_fd_relative_located [OF assms(1) plain] res assms(2)
    by (auto simp: secure_resolve_def guard_resolve_def Let_def)
  moreover have "cp_components cp = [] \<Longrightarrow> (\<exists>e. r = RIoError e) \<or>
      (\<exists>d. r = RDirectory d \<and> rd_components d = []
         \<and> os_dup os w (pr_root_fd (sr_pinned root)) = (Inr (rd_dir_fd d), w'))"
    using res assms(2)
    by (auto simp: secure_resolve_def guard_resolve_def Let_def resolve_fd_relative_def resolve_root_def
        elim!: on_ok_cases)
  ultimately show ?thesis using that cp safe by blast
qed

section \<open>Properties\<close>

text \<open>
  C2: confinement on the filesystem.  With symbolic links denied, and whatever else happens to the
  filesystem during the walk, a request target resolves to a file or directory only if the path
  layer admitted it, and then the descriptor was reached from the pinned root by opening exactly
  the admitted components one after the other, none of them through a link; a file is a regular
  file.  The same holds for a child resolved from an already resolved directory.
\<close>

theorem resolve_uri_confined:
  assumes "openat_nofollow os entry" and "sp_symlinks (sr_policy root) = SymlinkPolicyDenied"
    and "resolve_uri os root uri w = (Inr r, w')"
  shows "\<exists>cp. parse_confined uri (uri_path_policy (sr_policy root)) = Inr cp
    \<and> list_all (safe_component (uri_path_policy (sr_policy root))) (cp_components cp)
    \<and> (cp_components cp \<noteq> [] \<longrightarrow>
         located entry (pr_root_fd (sr_pinned root)) (cp_components cp) (cp_components cp) r)
    \<and> (\<forall>d child w1 r' w2. secure_resolve_child os root d child w1 = (r', w2) \<longrightarrow>
         located entry (rd_dir_fd d) [child] (rd_components d @ [child]) r')"
  using resolve_uri_located [OF assms] secure_resolve_child_located [OF assms(1,2)] by metis

theorem resolve_uri_confined_witness:
  "resolve_uri sample_os sample_root ''/pub/a.txt'' () =
     (Inr (RFile \<lparr>rf_file = 2, rf_metadata = \<lparr>md_len = 5, md_modified = Some 0, md_mode = 0x81A4\<rparr>,
                  rf_components = [''pub'', ''a.txt'']\<rparr>), ())
   \<and> reached (tree_entry sample_tree) 0 [''pub'', ''a.txt''] 2"
proof -
  have h: "resolve_uri sample_os sample_root ''/pub/a.txt'' () =
     (Inr (RFile \<lparr>rf_file = 2, rf_metadata = \<lparr>md_len = 5, md_modified = Some 0, md_mode = 0x81A4\<rparr>,
                  rf_components = [''pub'', ''a.txt'']\<rparr>), ())"
    by (simp add: rust_eval)
  have cp: "parse_confined ''/pub/a.txt'' (uri_path_policy (sr_policy sample_root)) =
     Inr \<lparr>cp_decoded = ''/pub/a.txt'', cp_components = [''pub'', ''a.txt''],
          cp_policy = uri_path_policy (sr_policy sample_root)\<rparr>"
    by (simp add: rust_eval)
  have "openat_nofollow sample_os (tree_entry sample_tree)"
    unfolding sample_os_def by (rule tree_os_nofollow)
  moreover have "sp_symlinks (sr_policy sample_root) = SymlinkPolicyDenied" by (simp add: rust_eval)
  ultimately have "reached (tree_entry sample_tree) (pr_root_fd (sr_pinned sample_root)) [''pub'', ''a.txt''] 2"
    using resolve_uri_confined [OF _ _ h] cp by (auto simp: located_def)
  then show ?thesis using h by (simp add: sample_root_def)
qed

text \<open>
  C3: resolution refines lookup in a tree.  On a filesystem that nobody changes, the descriptor walk
  returns exactly what following the entries of the tree gives: the file or directory at the end of
  the admitted components, with its metadata; "not found" when an entry is missing or the object is
  neither file nor directory; and a denial when an entry on the way, or the last one, is a link.
\<close>

theorem resolve_refines_lookup:
  assumes "at_rest os node t" and "sp_symlinks (sr_policy root) = SymlinkPolicyDenied"
    and "parse_confined uri (uri_path_policy (sr_policy root)) = Inr cp" and "cp_components cp \<noteq> []"
  shows "\<exists>r w'. resolve_uri os root uri w = (Inr r, w')
    \<and> presents node t (pr_canonical_root (sr_pinned root)) (cp_components cp) True
        (tree_lookup t (node (pr_root_fd (sr_pinned root))) (cp_components cp)) r"
proof -
  have safe: "list_all (safe_component (uri_path_policy (sr_policy root))) (cp_components cp)"
    and policy: "cp_policy cp = uri_path_policy (sr_policy root)"
    using parse_confined_safe [OF assms(3)] by simp_all
  then have "list_all (\<lambda>c. \<not> (denies_dotfiles (sr_policy root) \<and> starts_with c ''.'')
      \<and> check_component c = Inr ()) (cp_components cp)"
    by (auto simp: list_all_iff dest: safe_component_served)
  note walk = walk_at_rest [OF assms(1,2) this assms(4)]
  let ?walk = "walk_fds os (pr_canonical_root (sr_pinned root)) (cp_components cp) (sr_policy root)
      True (pr_root_fd (sr_pinned root)) (cp_components cp) w"
  have "resolve_uri os root uri w = (Inr (fst ?walk), snd ?walk)"
    using assms(2-4) policy
    by (simp add: resolve_uri_def secure_resolve_def guard_resolve_def resolve_fd_relative_def
        uri_path_policy_def case_prod_beta del: walk_fds.simps)
  with walk show ?thesis by blast
qed

theorem resolve_refines_lookup_witness:
  "\<exists>r w'. resolve_uri sample_os sample_root ''/link'' () = (Inr r, w')
    \<and> tree_lookup sample_tree 0 [''link''] = Blocked \<and> r = RDenied SymlinkDenied"
proof -
  have rest: "at_rest sample_os id sample_tree"
    unfolding sample_os_def by (rule tree_os_at_rest [OF sample_tree_wf])
  have cp: "parse_confined ''/link'' (uri_path_policy (sr_policy sample_root)) =
     Inr \<lparr>cp_decoded = ''/link'', cp_components = [''link''],
          cp_policy = uri_path_policy (sr_policy sample_root)\<rparr>"
    by (simp add: rust_eval)
  have link: "tree_lookup sample_tree 0 [''link''] = Blocked"
    by (simp add: sample_tree_def md_is_symlink_def file_type_def S_IFMT_def S_IFLNK_def)
  show ?thesis
    using resolve_refines_lookup [OF rest _ cp, of "()"] link
    by (auto simp: presents_def sample_root_def static_policy_safe_default_def)
qed

text \<open>
  the links of a listing lead back to the listed entries.  Every entry of a listing was read from
  the open directory, is not hidden by the policy and was not a link; no other file name has the
  same link target; and if its name is text the server can serve at all, requesting the link
  relative to the directory's own path is admitted and names the directory's components followed by
  exactly this entry.  The listing is bounded and sorted by display name.
\<close>

lemma listing_links_resolve:
  assumes "list_directory_fd os d policy n w = (Inr es, w')"
    and "from_path_component (p @ ''/'') pp = Inr cp" and "utf8_valid (p @ ''/'')"
    and "reject_backslash pp"
  shows "length es \<le> max 1 n \<and> sorted (map le_name es)
    \<and> (\<forall>e\<in>set es. \<exists>raw. listed_from os policy d raw e
        \<and> (\<forall>raw'. percent_encode_bytes raw' = le_href e \<longleftrightarrow> raw' = raw)
        \<and> (utf8_valid raw \<longrightarrow> safe_component pp raw \<longrightarrow>
            (\<exists>cp'. from_path_component (p @ CHR ''/'' # le_href e) pp = Inr cp'
               \<and> cp_components cp' = cp_components cp @ [raw])))"
proof -
  obtain stream es0 w1 w2 where loop: "list_fd_loop os policy n d stream [] w1 = (Inr es0, w2)"
    and es: "es = sort_key le_name es0"
    using assms(1) unfolding list_directory_fd_def sort_entries_def by (auto elim!: on_ok_cases)
  have "\<exists>raw. listed_from os policy d raw e" if "e \<in> set es0" for e
    by (rule list_fd_loop_listed [where P = "\<lambda>e. \<exists>raw. listed_from os policy d raw e", OF loop _ _ that]) auto
  moreover have "le_href e = percent_encode_bytes raw" if "listed_from os policy d raw e" for raw e
    using that by (auto simp: listed_from_def from_raw_bytes_def)
  moreover have "length es0 \<le> max 1 n" by (rule list_fd_loop_length [OF loop]) simp
  ultimately show ?thesis
    using es link_admitted [OF assms(2,3) _ _ assms(4)] percent_encode_inject by fastforce
qed

lemma listing_links_resolve_witness:
  "\<exists>es. list_directory_fd sample_os 0 static_policy_safe_default 10 () = (Inr es, ())
     \<and> map le_href es = [''pub'']
     \<and> (\<exists>cp'. from_path_component ''/x%20y/pub'' default_path_policy = Inr cp'
          \<and> cp_components cp' = [''x y'', ''pub''])"
proof -
  let ?e = "\<lparr>le_name = ''pub'', le_href = ''pub'', le_is_dir = True\<rparr>"
  have l: "list_directory_fd sample_os 0 static_policy_safe_default 10 () = (Inr [?e], ())"
    by (simp add: rust_eval)
  have c: "from_path_component (''/x%20y'' @ ''/'') default_path_policy =
     Inr \<lparr>cp_decoded = ''/x y/'', cp_components = [''x y''], cp_policy = default_path_policy\<rparr>"
    by (simp add: rust_eval)
  have u: "utf8_valid (''/x%20y'' @ ''/'')" by simp
  have s: "safe_component default_path_policy ''pub''"
    unfolding validate_component_iff [symmetric] by (simp add: rust_eval)
  have b: "reject_backslash default_path_policy" by (simp add: rust_eval)
  from listing_links_resolve [OF l c u b] obtain raw where
    "\<forall>raw'. percent_encode_bytes raw' = ''pub'' \<longleftrightarrow> raw' = raw"
    and imp: "utf8_valid raw \<longrightarrow> safe_component default_path_policy raw \<longrightarrow>
        (\<exists>cp'. from_path_component (''/x%20y'' @ CHR ''/'' # ''pub'') default_path_policy = Inr cp'
          \<and> cp_components cp' = [''x y''] @ [raw])"
    by auto
  moreover have "percent_encode_bytes ''pub'' = ''pub''" by (simp add: rust_eval)
  ultimately have "raw = ''pub''" by metis
  with imp s have "\<exists>cp'. from_path_component ''/x%20y/pub'' default_path_policy = Inr cp'
          \<and> cp_components cp' = [''x y'', ''pub'']" by simp
  with l show ?thesis by simp
qed

text \<open>
  a resolved file is planned and turned into a body.  For every method and set of request headers, the
  combined operation on a path that resolves to a file whose modification time can be formatted returns a consistent plan and a
  body source that owns the resolved descriptor; its length is what the Content-Length header says,
  and a range source lies inside the file.
\<close>

lemma resolve_and_plan_total:
  assumes "secure_resolve os root path w = (RFile f, w')"
    and "date_formattable (metadata.truncate (rf_metadata f)) metadata_policy_standard"
  shows "\<exists>plan src n. resolve_and_plan os dt root path meth c w = (Some (Inr (plan, src)), w')
    \<and> plan_consistent meth (metadata.truncate (rf_metadata f)) plan \<and> source_len src = Some n
    \<and> (plan_body plan = BodyEmpty \<and> src = SourceEmpty
       \<or> plan_get (plan_headers plan) ''content-length'' = Some (dec (unat n))
         \<and> (plan_body plan = FileFull
              \<and> src = SourceFileFull (rf_file f) (md_len (rf_metadata f)) (rf_content_type f)
            \<or> (\<exists>a b. plan_body plan = FileRange a b \<and> a \<le> b \<and> b < md_len (rf_metadata f)
                \<and> src = SourceFileRange (rf_file f) \<lparr>fr_start = a, fr_end_inclusive = b\<rparr>
                          (md_len (rf_metadata f)) (rf_content_type f))))"
proof -
  obtain plan where plan: "plan_with_preconditions dt meth (metadata.truncate (rf_metadata f))
      (rf_content_type f) c = Some plan"
    and ok: "plan_consistent meth (metadata.truncate (rf_metadata f)) plan"
    using plan_consistent_total [OF assms(2)] unfolding plan_with_preconditions_def by blast
  obtain src where "into_body f plan = Inr src" using into_body_consistent [OF ok] by blast
  with plan assms(1) have "resolve_and_plan os dt root path meth c w = (Some (Inr (plan, src)), w')"
    by (simp add: resolve_and_plan_def)
  with ok \<open>into_body f plan = Inr src\<close> show ?thesis using into_body_consistent [OF ok] by auto
qed

lemma resolve_and_plan_total_witness:
  "\<exists>plan src. resolve_and_plan sample_os sample_dates sample_root
      \<lparr>cp_decoded = ''/pub/a.txt'', cp_components = [''pub'', ''a.txt''], cp_policy = default_path_policy\<rparr>
      Get no_conditionals () = (Some (Inr (plan, src)), ())"
proof -
  have "secure_resolve sample_os sample_root
      \<lparr>cp_decoded = ''/pub/a.txt'', cp_components = [''pub'', ''a.txt''], cp_policy = default_path_policy\<rparr> ()
    = (RFile \<lparr>rf_file = 2, rf_metadata = \<lparr>md_len = 5, md_modified = Some 0, md_mode = 0x81A4\<rparr>,
              rf_components = [''pub'', ''a.txt'']\<rparr>, ())"
    by (simp add: rust_eval)
  moreover have "date_formattable (metadata.truncate \<lparr>md_len = 5, md_modified = Some 0, md_mode = 0x81A4\<rparr>) metadata_policy_standard"
    by (simp add: date_formattable_def http_date_end_def metadata.defs)
  ultimately show ?thesis
    using resolve_and_plan_total [of sample_os sample_root _ "()" "\<lparr>rf_file = 2,
      rf_metadata = \<lparr>md_len = 5, md_modified = Some 0, md_mode = 0x81A4\<rparr>, rf_components = [''pub'', ''a.txt'']\<rparr>" "()"]
    by fastforce
qed

end
