(* ===== verification/Ip_Address.thy ===== *)
theory Ip_Address
  imports Rust_Prelude
begin

text \<open>
  What the proxy code uses of \<^verbatim>\<open>std::net\<close>: addresses as words in network order, the parsers behind
  \<^verbatim>\<open>str::parse\<close> for addresses, their textual form for IPv4, and numbers in big-endian bytes.
\<close>

unbundle bit_operations_syntax

section \<open>Addresses\<close>

type_synonym ipv4 = "32 word"
type_synonym ipv6 = "128 word"

datatype ip_addr = V4 ipv4 | V6 ipv6

record socket_addr =
  sa_ip :: ip_addr
  sa_port :: u16

section \<open>Big-endian bytes\<close>

definition be_value :: "bytes \<Rightarrow> nat" where
  [rust_eval]: "be_value bs = foldl (\<lambda>acc b. acc * 256 + byte b) 0 bs"

fun be_bytes :: "nat \<Rightarrow> nat \<Rightarrow> bytes" where
  "be_bytes 0 n = []"
| "be_bytes (Suc k) n = be_bytes k (n div 256) @ [char_of (n mod 256)]"

lemma length_be_bytes [simp]: "length (be_bytes k n) = k"
  by (induction k arbitrary: n) auto

lemma be_value_snoc: "be_value (bs @ [b]) = be_value bs * 256 + byte b"
  by (simp add: be_value_def)

lemma be_value_be_bytes: "n < 256 ^ k \<Longrightarrow> be_value (be_bytes k n) = n"
proof (induction k arbitrary: n)
  case (Suc k)
  then have "n div 256 < 256 ^ k" by (simp add: less_mult_imp_div_less mult.commute)
  then show ?case by (simp add: be_value_snoc Suc.IH)
qed (simp add: be_value_def)

lemma be_value_word:
  assumes "256 ^ k = (2 ^ LENGTH('a) :: nat)"
  shows "of_nat (be_value (be_bytes k (unat (w :: 'a::len word)))) = w"
  using assms unsigned_less [of w, where 'a = nat] by (simp add: be_value_be_bytes)

section \<open>The parser of \<^verbatim>\<open>std::net\<close>\<close>

text \<open>\<^verbatim>\<open>char::to_digit\<close> for the radixes 10 and 16.\<close>

definition to_digit :: "nat \<Rightarrow> char \<Rightarrow> nat option" where
  [rust_eval]: "to_digit radix c =
     (let d = (if 48 \<le> byte c \<and> byte c \<le> 57 then byte c - 48
               else if 97 \<le> byte c \<and> byte c \<le> 122 then byte c - 87
               else if 65 \<le> byte c \<and> byte c \<le> 90 then byte c - 55
               else radix)
      in if d < radix then Some d else None)"

text \<open>The digits at the front, as a value, their number and the rest.\<close>

fun read_digits :: "nat \<Rightarrow> nat \<Rightarrow> nat \<Rightarrow> string \<Rightarrow> nat \<times> nat \<times> string" where
  "read_digits radix v n [] = (v, n, [])"
| "read_digits radix v n (c # s) =
     (case to_digit radix c of
        Some d \<Rightarrow> read_digits radix (v * radix + d) (Suc n) s
      | None \<Rightarrow> (v, n, c # s))"

text \<open>\<^verbatim>\<open>Parser::read_number\<close> with at most \<open>max_digits\<close> digits and a result of \<open>bits\<close> bits.\<close>

definition read_number :: "nat \<Rightarrow> nat \<Rightarrow> bool \<Rightarrow> nat \<Rightarrow> string \<Rightarrow> (nat \<times> string) option" where
  [rust_eval]: "read_number radix max_digits allow_zero_prefix bits s =
     (let (v, n, rest) = read_digits radix 0 0 s in
      if n > max_digits then None
      else if n = 0 then None
      else if \<not> allow_zero_prefix \<and> hd s = CHR ''0'' \<and> n > 1 then None
      else if v < 2 ^ bits then Some (v, rest) else None)"

definition read_char :: "char \<Rightarrow> string \<Rightarrow> string option" where
  [rust_eval]: "read_char d s = strip_prefix_char d s"

text \<open>Four decimal octets separated by dots.\<close>

fun read_octets :: "nat \<Rightarrow> string \<Rightarrow> (nat list \<times> string) option" where
  "read_octets 0 s = Some ([], s)"
| "read_octets (Suc k) s =
     Option.bind (read_number 10 3 False 8 s) (\<lambda>(v, s).
       if k = 0 then Some ([v], s)
       else Option.bind (read_char CHR ''.'' s) (\<lambda>s.
         Option.bind (read_octets k s) (\<lambda>(vs, s). Some (v # vs, s))))"

definition octets_value :: "nat list \<Rightarrow> nat" where
  [rust_eval]: "octets_value vs = foldl (\<lambda>acc v. acc * 256 + v) 0 vs"

definition read_ipv4 :: "string \<Rightarrow> (ipv4 \<times> string) option" where
  [rust_eval]: "read_ipv4 s =
     map_option (\<lambda>(vs, rest). (of_nat (octets_value vs), rest)) (read_octets 4 s)"

text \<open>\<^verbatim>\<open>read_separator\<close>: the separator is required before every element but the first.\<close>

definition read_separator ::
  "char \<Rightarrow> nat \<Rightarrow> (string \<Rightarrow> ('a \<times> string) option) \<Rightarrow> string \<Rightarrow> ('a \<times> string) option" where
  [rust_eval]: "read_separator sep index inner s =
     (if index > 0 then Option.bind (read_char sep s) inner else inner s)"

text \<open>
  \<^verbatim>\<open>read_groups\<close>: up to \<open>limit\<close> groups of 16 bits, the last two possibly as an embedded IPv4 address;
  \<open>i\<close> is the number of groups already read.
\<close>

function read_groups :: "nat \<Rightarrow> nat \<Rightarrow> nat list \<Rightarrow> string \<Rightarrow> nat list \<times> bool \<times> string" where
  "read_groups limit i gs s =
     (if limit \<le> i then (gs, False, s)
      else
        let v4 = (if i < limit - 1 then read_separator CHR '':'' i read_ipv4 s else None) in
        case v4 of
          Some (a, s') \<Rightarrow> (gs @ [unat a div 65536, unat a mod 65536], True, s')
        | None \<Rightarrow>
            (case read_separator CHR '':'' i (read_number 16 4 True 16) s of
               Some (g, s') \<Rightarrow> read_groups limit (Suc i) (gs @ [g]) s'
             | None \<Rightarrow> (gs, False, s)))"
  by pat_completeness auto
termination
  by (relation "measure (\<lambda>(limit, i, gs, s). limit - i)") auto

declare read_groups.simps [simp del, rust_eval]

definition groups_value :: "nat list \<Rightarrow> nat" where
  [rust_eval]: "groups_value gs = foldl (\<lambda>acc g. acc * 65536 + g) 0 gs"

definition read_ipv6 :: "string \<Rightarrow> (ipv6 \<times> string) option" where
  [rust_eval]: "read_ipv6 s =
     (let (head, head_v4, s) = read_groups 8 0 [] s in
      if length head = 8 then Some (of_nat (groups_value head), s)
      else if head_v4 then None
      else Option.bind (read_char CHR '':'' s) (\<lambda>s.
        Option.bind (read_char CHR '':'' s) (\<lambda>s.
          let (tail, _, s) = read_groups (8 - (length head + 1)) 0 [] s in
          Some (of_nat (groups_value (head @ replicate (8 - length head - length tail) 0 @ tail)), s))))"

text \<open>\<^verbatim>\<open>parse_with\<close>: everything must be consumed.\<close>

definition parse_with :: "(string \<Rightarrow> ('a \<times> string) option) \<Rightarrow> string \<Rightarrow> 'a option" where
  [rust_eval]: "parse_with inner s =
     (case inner s of Some (a, []) \<Rightarrow> Some a | _ \<Rightarrow> None)"

definition parse_ipv4 :: "string \<Rightarrow> ipv4 option" where
  [rust_eval]: "parse_ipv4 s = (if length s > 15 then None else parse_with read_ipv4 s)"

definition parse_ipv6 :: "string \<Rightarrow> ipv6 option" where
  [rust_eval]: "parse_ipv6 s = parse_with read_ipv6 s"

definition parse_ip :: "string \<Rightarrow> ip_addr option" where
  [rust_eval]: "parse_ip s =
     parse_with (\<lambda>s. case read_ipv4 s of
        Some (a, r) \<Rightarrow> Some (V4 a, r)
      | None \<Rightarrow> map_option (\<lambda>(a, r). (V6 a, r)) (read_ipv6 s)) s"

text \<open>The \<^verbatim>\<open>Display\<close> form of an IPv4 address.\<close>

definition ipv4_octets :: "ipv4 \<Rightarrow> nat list" where
  [rust_eval]: "ipv4_octets a = map byte (be_bytes 4 (unat a))"

definition ipv4_str :: "ipv4 \<Rightarrow> string" where
  [rust_eval]: "ipv4_str a =
     (case ipv4_octets a of
        [o0, o1, o2, o3] \<Rightarrow> dec o0 @ ''.'' @ dec o1 @ ''.'' @ dec o2 @ ''.'' @ dec o3
      | _ \<Rightarrow> [])"

section \<open>Reading back a printed IPv4 address\<close>

lemma to_digit_10: "is_ascii_digit c \<Longrightarrow> to_digit 10 c = Some (byte c - 48)"
  by (auto simp: to_digit_def is_ascii_digit_def Let_def)

lemma to_digit_10_None: "\<not> is_ascii_digit c \<Longrightarrow> to_digit 10 c = None"
  by (auto simp: to_digit_def is_ascii_digit_def Let_def)

lemma read_digits_append:
  assumes "list_all is_ascii_digit ds" and "s = [] \<or> \<not> is_ascii_digit (hd s)"
  shows "read_digits 10 v n (ds @ s) = (dec_value_from v ds, n + length ds, s)"
  using assms(1)
proof (induction ds arbitrary: v n)
  case Nil
  then show ?case using assms(2) by (cases s) (simp_all add: to_digit_10_None)
next
  case (Cons d ds)
  then show ?case by (simp add: to_digit_10 mult.commute [of v])
qed

lemma dec_leading_zero: "0 < n \<Longrightarrow> hd (dec n) \<noteq> CHR ''0''"
proof (induction n rule: dec.induct)
  case (1 n)
  then show ?case
    by (cases "n < 10") (auto simp: dec.simps [of n] digit_char_def hd_append)
qed

lemma length_dec_less_1000: "n < 1000 \<Longrightarrow> length (dec n) \<le> 3"
  by (simp add: dec.simps [of n] dec.simps [of "n div 10"] dec.simps [of "n div 10 div 10"])

lemma read_number_dec:
  assumes "v < 256" and "s = [] \<or> \<not> is_ascii_digit (hd s)"
  shows "read_number 10 3 False 8 (dec v @ s) = Some (v, s)"
proof -
  have "read_digits 10 0 0 (dec v @ s) = (v, length (dec v), s)"
    using read_digits_append [OF dec_digits assms(2), of 0 0 v] dec_value_dec [of v]
    by (simp add: dec_value_def)
  moreover have "hd (dec v @ s) = CHR ''0'' \<Longrightarrow> length (dec v) = 1"
    using dec_leading_zero [of v] by (cases "v = 0") (auto simp: dec.simps [of 0])
  ultimately show ?thesis
    using assms(1) length_dec_less_1000 [of v] by (auto simp: read_number_def)
qed

lemma ipv4_octets_value: "of_nat (octets_value (ipv4_octets a)) = a"
proof -
  have "octets_value (map byte bs) = be_value bs" for bs
    by (simp add: octets_value_def be_value_def foldl_map)
  then show ?thesis
    using be_value_word [of 4 a] by (simp add: ipv4_octets_def)
qed

lemma four: "(4 :: nat) = Suc (Suc (Suc (Suc 0)))"
  by simp

lemma ipv4_octets_four:
  obtains o0 o1 o2 o3 where "ipv4_octets a = [o0, o1, o2, o3]" "o0 < 256" "o1 < 256" "o2 < 256" "o3 < 256"
proof -
  obtain c0 c1 c2 c3 where "be_bytes 4 (unat a) = [c0, c1, c2, c3]"
    unfolding four by simp
  then show thesis using that [of "byte c0" "byte c1" "byte c2" "byte c3"] by (simp add: ipv4_octets_def)
qed

lemma read_ipv4_str:
  assumes "s = [] \<or> \<not> is_ascii_digit (hd s)"
  shows "read_ipv4 (ipv4_str a @ s) = Some (a, s)"
proof -
  obtain o0 o1 o2 o3 where o: "ipv4_octets a = [o0, o1, o2, o3]" "o0 < 256" "o1 < 256" "o2 < 256" "o3 < 256"
    by (rule ipv4_octets_four)
  have dot: "\<not> is_ascii_digit CHR ''.''" by (simp add: is_ascii_digit_def)
  have "read_octets 4 (ipv4_str a @ s) = Some ([o0, o1, o2, o3], s)"
    using o assms dot
    unfolding four by (simp add: ipv4_str_def read_number_dec read_char_def)
  then show ?thesis using ipv4_octets_value [of a] o(1) by (simp add: read_ipv4_def)
qed

lemma ipv4_str_length: "length (ipv4_str a) \<le> 15"
proof -
  obtain o0 o1 o2 o3 where o: "ipv4_octets a = [o0, o1, o2, o3]" "o0 < 256" "o1 < 256" "o2 < 256" "o3 < 256"
    by (rule ipv4_octets_four)
  then have "length (dec o0) \<le> 3" "length (dec o1) \<le> 3" "length (dec o2) \<le> 3" "length (dec o3) \<le> 3"
    using length_dec_less_1000 by simp_all
  then show ?thesis using o(1) by (simp add: ipv4_str_def)
qed

lemma parse_ipv4_str: "parse_ipv4 (ipv4_str a) = Some a"
  using read_ipv4_str [of "[]" a] ipv4_str_length [of a]
  by (simp add: parse_ipv4_def parse_with_def not_less)

lemma parse_ip_ipv4_str: "parse_ip (ipv4_str a) = Some (V4 a)"
  using read_ipv4_str [of "[]" a] by (simp add: parse_ip_def parse_with_def)

lemma ipv4_str_chars: "set (ipv4_str a) \<subseteq> {c. is_ascii_digit c \<or> c = CHR ''.''}"
proof -
  obtain o0 o1 o2 o3 where "ipv4_octets a = [o0, o1, o2, o3]"
    by (rule ipv4_octets_four) blast
  then show ?thesis
    using dec_digits by (auto simp: ipv4_str_def list_all_iff)
qed

lemma ipv4_str_not_Nil [simp]: "ipv4_str a \<noteq> []"
proof -
  obtain o0 o1 o2 o3 where "ipv4_octets a = [o0, o1, o2, o3]"
    by (rule ipv4_octets_four) blast
  then show ?thesis by (simp add: ipv4_str_def)
qed

section \<open>Reading back a printed IPv6 address\<close>

text \<open>The eight groups of an address and its form without compression, in lower-case hexadecimal.\<close>

definition hex_char :: "nat \<Rightarrow> char" where
  [rust_eval]: "hex_char d = (if d < 10 then char_of (48 + d) else char_of (87 + d))"

fun hex_text :: "nat \<Rightarrow> string" where
  "hex_text n = (if n < 16 then [hex_char n] else hex_text (n div 16) @ [hex_char (n mod 16)])"

declare hex_text.simps [simp del]

fun segments_text :: "nat list \<Rightarrow> string" where
  "segments_text [] = []"
| "segments_text [s] = hex_text s"
| "segments_text (s # ss) = hex_text s @ '':'' @ segments_text ss"

definition ipv6_segments :: "ipv6 \<Rightarrow> nat list" where
  [rust_eval]: "ipv6_segments a = map (\<lambda>i. unat a div 2 ^ (16 * (7 - i)) mod 2 ^ 16) [0..<8]"

definition ipv6_full :: "ipv6 \<Rightarrow> string" where
  [rust_eval]: "ipv6_full a = segments_text (ipv6_segments a)"

lemma byte_hex_char: "d < 16 \<Longrightarrow> byte (hex_char d) = (if d < 10 then 48 + d else 87 + d)"
  by (simp add: hex_char_def)

lemma to_digit_hex_char:
  "d < 16 \<Longrightarrow> to_digit 16 (hex_char d) = Some d"
  "d < 16 \<Longrightarrow> to_digit 10 (hex_char d) = (if d < 10 then Some d else None)"
  by (auto simp: to_digit_def byte_hex_char Let_def)

lemma hex_text_not_Nil [simp]: "hex_text n \<noteq> []"
  by (simp add: hex_text.simps [of n])

lemma hex_text_chars: "c \<in> set (hex_text n) \<Longrightarrow> \<exists>d<16. c = hex_char d"
proof (induction n rule: hex_text.induct)
  case (1 n)
  have "\<exists>d<16. hex_char (n mod 16) = hex_char d" by (rule exI [of _ "n mod 16"]) simp
  with 1 show ?case by (cases "n < 16") (auto simp: hex_text.simps [of n])
qed

lemma length_hex_text: "n < 65536 \<Longrightarrow> length (hex_text n) \<le> 4"
  by (simp add: hex_text.simps [of n] hex_text.simps [of "n div 16"] hex_text.simps [of "n div 16 div 16"]
      hex_text.simps [of "n div 16 div 16 div 16"])

lemma read_digits_prefix:
  assumes "\<And>c. c \<in> set s \<Longrightarrow> \<exists>d. to_digit r c = Some d"
  shows "read_digits r v k (s @ t) = (let (v', k', _) = read_digits r v k s in read_digits r v' k' t)"
  using assms
proof (induction s arbitrary: v k)
  case (Cons c s)
  obtain d where "to_digit r c = Some d" using Cons.prems by fastforce
  then show ?case using Cons by simp
qed simp

lemma read_digits_hex_text: "read_digits 16 0 0 (hex_text n) = (n, length (hex_text n), [])"
proof (induction n rule: hex_text.induct)
  case (1 n)
  show ?case
  proof (cases "n < 16")
    case False
    have "\<And>c. c \<in> set (hex_text (n div 16)) \<Longrightarrow> \<exists>d. to_digit 16 c = Some d"
      using hex_text_chars to_digit_hex_char(1) by blast
    then show ?thesis
      using False 1 read_digits_prefix [of "hex_text (n div 16)" 16 0 0 "[hex_char (n mod 16)]"]
      by (simp add: hex_text.simps [of n] to_digit_hex_char mult.commute)
  qed (simp add: hex_text.simps [of n] to_digit_hex_char)
qed

lemma read_group_hex_text:
  assumes "n < 65536" and "s = [] \<or> hd s = CHR '':''"
  shows "read_number 16 4 True 16 (hex_text n @ s) = Some (n, s)"
proof -
  have "\<And>c. c \<in> set (hex_text n) \<Longrightarrow> \<exists>d. to_digit 16 c = Some d"
    using hex_text_chars to_digit_hex_char(1) by blast
  moreover have "read_digits 16 n k s = (n, k, s)" for k
    using assms(2) by (cases s) (auto simp: to_digit_def)
  ultimately have "read_digits 16 0 0 (hex_text n @ s) = (n, length (hex_text n), s)"
    using read_digits_prefix [of "hex_text n" 16 0 0 s] by (simp add: read_digits_hex_text)
  then show ?thesis using length_hex_text [OF assms(1)] assms(1) by (simp add: read_number_def)
qed

text \<open>A group that a colon follows is not the start of a dotted address.\<close>

lemma read_digits_stops:
  assumes "\<And>c. c \<in> set s \<Longrightarrow> c \<noteq> CHR ''.''"
  shows "\<exists>v' k' c r. read_digits 10 v k (s @ CHR '':'' # t) = (v', k', c # r) \<and> c \<noteq> CHR ''.''"
  using assms
proof (induction s arbitrary: v k)
  case Nil
  then show ?case by (simp add: to_digit_def)
next
  case (Cons c s)
  then show ?case by (cases "to_digit 10 c") auto
qed

lemma not_dotted:
  assumes "\<And>c. c \<in> set s \<Longrightarrow> c \<noteq> CHR ''.''"
  shows "read_ipv4 (s @ CHR '':'' # t) = None"
proof -
  obtain v k c r where "read_digits 10 0 0 (s @ CHR '':'' # t) = (v, k, c # r)" "c \<noteq> CHR ''.''"
    using read_digits_stops [OF assms] by blast
  then show ?thesis by (auto simp: read_ipv4_def four read_number_def read_char_def Let_def bind_eq_None_conv)
qed

lemma hex_text_no_dot: "c \<in> set (hex_text n) \<Longrightarrow> c \<noteq> CHR ''.''"
  using hex_text_chars [of c n] byte_hex_char by (fastforce split: if_splits)

text \<open>The groups of a full address are read one by one; \<open>i\<close> of them have been read.\<close>

lemma read_groups_full:
  assumes "list_all (\<lambda>g. g < 65536) ss" and "i + length ss = 8" and "ss \<noteq> []"
  shows "read_groups 8 i gs ((if i = 0 then [] else '':'') @ segments_text ss) = (gs @ ss, False, [])"
  using assms
proof (induction ss arbitrary: i gs)
  case (Cons g ss)
  show ?case
  proof (cases ss)
    case Nil
    then have "i = 7" using Cons.prems(2) by simp
    then show ?thesis
      using Nil Cons.prems(1) read_group_hex_text [of g "[]"]
      by (simp add: read_groups.simps [of 8 7] read_groups.simps [of 8 8] read_separator_def read_char_def)
  next
    case (Cons g' ss')
    let ?rest = "'':'' @ segments_text ss"
    have rest: "segments_text (g # g' # ss') = hex_text g @ CHR '':'' # segments_text (g' # ss')" by simp
    have "read_ipv4 (hex_text g @ ?rest) = None" using not_dotted hex_text_no_dot by fastforce
    moreover have "read_number 16 4 True 16 (hex_text g @ ?rest) = Some (g, ?rest)"
      using Cons.prems(1) by (intro read_group_hex_text) simp_all
    moreover have "read_groups 8 (Suc i) (gs @ [g]) ?rest = ((gs @ [g]) @ ss, False, [])"
      using Cons.IH [of "Suc i" "gs @ [g]"] Cons.prems Cons by simp
    ultimately show ?thesis
      using Cons.prems(2) Cons
      by (cases "i = 0")
        (simp_all add: read_groups.simps [of 8 i] read_groups.simps [of 8 0] rest read_separator_def read_char_def del: segments_text.simps)
  qed
qed simp

lemma ipv6_segments_value: "of_nat (groups_value (ipv6_segments a)) = a"
proof -
  have digits: "k \<le> 8 \<Longrightarrow> groups_value (map (\<lambda>i. n div 2 ^ (16 * (7 - i)) mod 2 ^ 16) [0..<k]) =
      n div 2 ^ (16 * (8 - k)) mod 2 ^ (16 * k)" for n k :: nat
  proof (induction k)
    case 0
    then show ?case by (simp add: groups_value_def)
  next
    case (Suc k)
    define m where "m = n div 2 ^ (16 * (7 - k))"
    have "(2 :: nat) ^ (16 * (8 - k)) = 2 ^ (16 * (7 - k)) * 65536"
    proof -
      have "16 * (8 - k) = 16 * (7 - k) + 16" using Suc.prems by simp
      then show ?thesis by (simp only: power_add) simp
    qed
    then have "n div 2 ^ (16 * (8 - k)) = m div 65536" by (simp add: m_def div_mult2_eq)
    moreover have "m mod (65536 * 2 ^ (16 * k)) = 65536 * (m div 65536 mod 2 ^ (16 * k)) + m mod 65536"
      by (rule mod_mult2_eq)
    ultimately show ?case using Suc by (simp add: groups_value_def m_def power_add)
  qed
  have "unat a < 2 ^ 128" using unsigned_less [of a, where 'a = nat] by simp
  then show ?thesis using digits [of 8 "unat a"] by (simp add: ipv6_segments_def)
qed

lemma parse_ipv6_full: "parse_ipv6 (ipv6_full a) = Some a"
proof -
  have "read_groups 8 0 [] (segments_text (ipv6_segments a)) = (ipv6_segments a, False, [])"
    using read_groups_full [of "ipv6_segments a" 0 "[]"] by (simp add: ipv6_segments_def list_all_iff)
  moreover have "length (ipv6_segments a) = 8" by (simp add: ipv6_segments_def)
  ultimately show ?thesis
    using ipv6_segments_value [of a] by (simp add: parse_ipv6_def parse_with_def read_ipv6_def ipv6_full_def)
qed

lemma hex_text_ascii: "c \<in> set (hex_text n) \<Longrightarrow> is_ascii c \<and> c \<noteq> CHR '' ''"
  using hex_text_chars [of c n] byte_hex_char by (fastforce simp: is_ascii_def split: if_splits)

end
