(* ===== verification/Proxy.thy ===== *)
theory Proxy
  imports Header_Block Ip_Address
begin

text \<open>
  Trusted proxy metadata, \<^verbatim>\<open>proxy.rs\<close>: address prefixes and the trusted-peer policy, the PROXY protocol
  preambles of version 1 and 2, and the \<^verbatim>\<open>Forwarded\<close> and \<^verbatim>\<open>X-Forwarded-*\<close> headers.  Texts of error
  messages are left out; durations are numbers of nanoseconds.
\<close>

section \<open>Constants\<close>

definition PROXY_V1_MAX_BYTES :: nat where
  [rust_eval]: "PROXY_V1_MAX_BYTES = 107"
definition PROXY_V2_SIGNATURE :: bytes where
  [rust_eval]: "PROXY_V2_SIGNATURE =
     [CHR 0x0D, CHR 0x0A, CHR 0x0D, CHR 0x0A, CHR 0x00, CHR 0x0D, CHR 0x0A,
      CHR 0x51, CHR 0x55, CHR 0x49, CHR 0x54, CHR 0x0A]"
definition PROXY_V2_HEADER_LEN :: nat where
  [rust_eval]: "PROXY_V2_HEADER_LEN = 16"
definition PROXY_V2_MAX_LEN :: nat where
  [rust_eval]: "PROXY_V2_MAX_LEN = 1024"

datatype proxy_source_kind = ProxyV1 | ProxyV2 | ForwardedKind | LegacyForwarded

section \<open>Address prefixes\<close>

datatype trusted_proxy_config_error = InvalidPeer | InvalidProxyProtocol | InvalidForwarded

record ip_prefix =
  ipp_network :: ip_addr
  ipp_len :: u8

definition mask_word :: "nat \<Rightarrow> u8 \<Rightarrow> 'a::len word \<Rightarrow> 'a word" where
  [rust_eval]: "mask_word width prefix_len a =
     (if prefix_len = 0 then 0
      else let shift = width - unat prefix_len in push_bit shift (drop_bit shift a))"

fun mask_addr :: "ip_addr \<Rightarrow> u8 \<Rightarrow> ip_addr" where
  "mask_addr (V4 a) prefix_len = V4 (mask_word 32 prefix_len a)"
| "mask_addr (V6 a) prefix_len = V6 (mask_word 128 prefix_len a)"

fun max_prefix_len :: "ip_addr \<Rightarrow> u8" where
  "max_prefix_len (V4 _) = 32"
| "max_prefix_len (V6 _) = 128"

definition parse_u8 :: "string \<Rightarrow> u8 option" where
  [rust_eval]: "parse_u8 s = map_option of_nat (parse_unsigned 8 s)"

definition ip_prefix_parse :: "string \<Rightarrow> trusted_proxy_config_error + ip_prefix" where
  [rust_eval]: "ip_prefix_parse value =
     (let value = trim value in
      if value = [] then Inl InvalidPeer
      else case split_once_char CHR ''/'' value of
        Some (addr_part, prefix_part) \<Rightarrow>
          and_then (ok_or InvalidPeer (parse_ip (trim addr_part))) (\<lambda>addr.
            and_then (ok_or InvalidPeer (parse_u8 (trim prefix_part))) (\<lambda>prefix_len.
              if prefix_len > max_prefix_len addr then Inl InvalidPeer
              else Inr \<lparr>ipp_network = mask_addr addr prefix_len, ipp_len = prefix_len\<rparr>))
      | None \<Rightarrow>
          and_then (ok_or InvalidPeer (parse_ip value)) (\<lambda>addr.
            Inr \<lparr>ipp_network = addr, ipp_len = max_prefix_len addr\<rparr>))"

definition same_prefix :: "nat \<Rightarrow> u8 \<Rightarrow> 'a::len word \<Rightarrow> 'a word \<Rightarrow> bool" where
  [rust_eval]: "same_prefix width prefix_len net addr \<longleftrightarrow>
     prefix_len = 0
     \<or> (let shift = width - unat prefix_len in drop_bit shift net = drop_bit shift addr)"

fun prefix_matches :: "ip_prefix \<Rightarrow> ip_addr \<Rightarrow> bool" where
  "prefix_matches p ip =
     (case (ipp_network p, ip) of
        (V4 net, V4 addr) \<Rightarrow> same_prefix 32 (ipp_len p) net addr
      | (V6 net, V6 addr) \<Rightarrow> same_prefix 128 (ipp_len p) net addr
      | _ \<Rightarrow> False)"

section \<open>Configuration\<close>

record proxy_protocol_config =
  pp_enabled :: bool
  pp_timeout :: nat

definition proxy_protocol_validate :: "proxy_protocol_config \<Rightarrow> trusted_proxy_config_error + unit" where
  [rust_eval]: "proxy_protocol_validate c =
     (if pp_timeout c = 0 then Inl InvalidProxyProtocol
      else if pp_timeout c > 60 * 1000000000 then Inl InvalidProxyProtocol else Inr ())"

record forwarded_config =
  fc_standard :: bool
  fc_legacy :: bool
  fc_max_bytes :: nat
  fc_max_elements :: nat

definition default_forwarded_config :: forwarded_config where
  [rust_eval]: "default_forwarded_config =
     \<lparr>fc_standard = False, fc_legacy = False, fc_max_bytes = 4096, fc_max_elements = 16\<rparr>"

definition forwarded_is_disabled :: "forwarded_config \<Rightarrow> bool" where
  [rust_eval]: "forwarded_is_disabled c \<longleftrightarrow> \<not> fc_standard c \<and> \<not> fc_legacy c"

definition forwarded_validate :: "forwarded_config \<Rightarrow> trusted_proxy_config_error + unit" where
  [rust_eval]: "forwarded_validate c =
     (if fc_max_bytes c < 256 \<or> fc_max_bytes c > 16384 then Inl InvalidForwarded
      else if fc_max_elements c < 1 \<or> fc_max_elements c > 64 then Inl InvalidForwarded
      else Inr ())"

record trusted_proxy_config =
  tp_peers :: "ip_prefix list"
  tp_trust_unix :: bool
  tp_proxy_protocol :: proxy_protocol_config
  tp_forwarded :: forwarded_config

definition is_trusted_peer :: "trusted_proxy_config \<Rightarrow> socket_addr \<Rightarrow> bool" where
  [rust_eval]: "is_trusted_peer c peer \<longleftrightarrow> list_ex (\<lambda>p. prefix_matches p (sa_ip peer)) (tp_peers c)"

definition push_peer ::
  "trusted_proxy_config \<Rightarrow> string \<Rightarrow> trusted_proxy_config_error + trusted_proxy_config" where
  [rust_eval]: "push_peer c value =
     and_then (ip_prefix_parse value) (\<lambda>p. Inr (c\<lparr>tp_peers := tp_peers c @ [p]\<rparr>))"

definition trusted_proxy_validate :: "trusted_proxy_config \<Rightarrow> trusted_proxy_config_error + unit" where
  [rust_eval]: "trusted_proxy_validate c =
     and_then (proxy_protocol_validate (tp_proxy_protocol c)) (\<lambda>_. forwarded_validate (tp_forwarded c))"

section \<open>PROXY preambles\<close>

record proxy_endpoints =
  pe_source :: "socket_addr option"
  pe_destination :: "socket_addr option"
  pe_kind :: proxy_source_kind

datatype proxy_parse_error = PreambleIncomplete | PreambleTooLong | PreambleInvalid

definition no_endpoints :: "proxy_source_kind \<Rightarrow> proxy_endpoints" where
  [rust_eval]: "no_endpoints k = \<lparr>pe_source = None, pe_destination = None, pe_kind = k\<rparr>"

definition parse_port_strict :: "string \<Rightarrow> proxy_parse_error + u16" where
  [rust_eval]: "parse_port_strict value =
     (if value = [] \<or> length value > 5 \<or> \<not> list_all is_ascii_digit value then Inl PreambleInvalid
      else ok_or PreambleInvalid (map_option of_nat (parse_unsigned 16 value)))"

definition parse_v1_ip :: "bool \<Rightarrow> string \<Rightarrow> proxy_parse_error + ip_addr" where
  [rust_eval]: "parse_v1_ip is_v4 s =
     (if is_v4 then ok_or PreambleInvalid (map_option V4 (parse_ipv4 s))
      else ok_or PreambleInvalid (map_option V6 (parse_ipv6 s)))"

definition parse_v1_parts :: "string list \<Rightarrow> proxy_parse_error + proxy_endpoints" where
  [rust_eval]: "parse_v1_parts parts =
     (if length parts \<noteq> 6 \<or> list_ex (\<lambda>p. p = []) parts then Inl PreambleInvalid
      else if parts ! 0 \<noteq> ''PROXY'' then Inl PreambleInvalid
      else if parts ! 1 \<noteq> ''TCP4'' \<and> parts ! 1 \<noteq> ''TCP6'' then Inl PreambleInvalid
      else
        let is_v4 = (parts ! 1 = ''TCP4'') in
        and_then (parse_v1_ip is_v4 (parts ! 2)) (\<lambda>src_ip.
        and_then (parse_v1_ip is_v4 (parts ! 3)) (\<lambda>dst_ip.
        and_then (parse_port_strict (parts ! 4)) (\<lambda>src_port.
        and_then (parse_port_strict (parts ! 5)) (\<lambda>dst_port.
          Inr \<lparr>pe_source = Some \<lparr>sa_ip = src_ip, sa_port = src_port\<rparr>,
               pe_destination = Some \<lparr>sa_ip = dst_ip, sa_port = dst_port\<rparr>,
               pe_kind = ProxyV1\<rparr>)))))"

definition parse_proxy_v1_line :: "bytes \<Rightarrow> proxy_parse_error + proxy_endpoints" where
  [rust_eval]: "parse_proxy_v1_line line =
     (if length line > PROXY_V1_MAX_BYTES then Inl PreambleTooLong
      else if length line < 8 \<or> \<not> ends_with line [CHR 0x0D, CHR 0x0A] then Inl PreambleInvalid
      else if \<not> starts_with line ''PROXY '' then Inl PreambleInvalid
      else if \<not> list_all is_ascii line then Inl PreambleInvalid
      else
        let text = take (length line - 2) line in
        if text = ''PROXY UNKNOWN'' \<or> starts_with text ''PROXY UNKNOWN '' then Inr (no_endpoints ProxyV1)
        else parse_v1_parts (split_char CHR '' '' text))"

text \<open>The branches of the PROXY command of version 2 on the framed body.\<close>

definition parse_v2_body :: "nat \<Rightarrow> nat \<Rightarrow> bytes \<Rightarrow> proxy_parse_error + proxy_endpoints" where
  [rust_eval]: "parse_v2_body family protocol body =
     (if family = 0 \<and> protocol = 0 then Inr (no_endpoints ProxyV2)
      else if family = 1 \<and> protocol = 1 then
        (if length body < 12 then Inl PreambleInvalid
         else Inr
           \<lparr>pe_source = Some \<lparr>sa_ip = V4 (of_nat (be_value (take 4 body))),
                             sa_port = of_nat (be_value (take 2 (drop 8 body)))\<rparr>,
            pe_destination = Some \<lparr>sa_ip = V4 (of_nat (be_value (take 4 (drop 4 body)))),
                                  sa_port = of_nat (be_value (take 2 (drop 10 body)))\<rparr>,
            pe_kind = ProxyV2\<rparr>)
      else if family = 2 \<and> protocol = 1 then
        (if length body < 36 then Inl PreambleInvalid
         else Inr
           \<lparr>pe_source = Some \<lparr>sa_ip = V6 (of_nat (be_value (take 16 body))),
                             sa_port = of_nat (be_value (take 2 (drop 32 body)))\<rparr>,
            pe_destination = Some \<lparr>sa_ip = V6 (of_nat (be_value (take 16 (drop 16 body)))),
                                  sa_port = of_nat (be_value (take 2 (drop 34 body)))\<rparr>,
            pe_kind = ProxyV2\<rparr>)
      else if family = 3 \<and> protocol = 1 then
        (if length body < 216 then Inl PreambleInvalid else Inr (no_endpoints ProxyV2))
      else Inl PreambleInvalid)"

definition parse_proxy_v2_header :: "bytes \<Rightarrow> proxy_parse_error + proxy_endpoints \<times> nat" where
  [rust_eval]: "parse_proxy_v2_header buf =
     (if length buf < PROXY_V2_HEADER_LEN then Inl PreambleIncomplete
      else if take 12 buf \<noteq> PROXY_V2_SIGNATURE then Inl PreambleInvalid
      else
        let ver_cmd = byte (buf ! 12); command = ver_cmd mod 16 in
        if ver_cmd div 16 \<noteq> 2 then Inl PreambleInvalid
        else if command \<noteq> 0 \<and> command \<noteq> 1 then Inl PreambleInvalid
        else
          let fam_proto = byte (buf ! 13); family = fam_proto div 16; protocol = fam_proto mod 16 in
          if family > 3 then Inl PreambleInvalid
          else if protocol > 2 then Inl PreambleInvalid
          else
            let len = be_value (take 2 (drop 14 buf)) in
            if len > PROXY_V2_MAX_LEN then Inl PreambleTooLong
            else
              let total_len = PROXY_V2_HEADER_LEN + len in
              if length buf < total_len then Inl PreambleIncomplete
              else if command = 0 then Inr (no_endpoints ProxyV2, total_len)
              else and_then (parse_v2_body family protocol (take len (drop PROXY_V2_HEADER_LEN buf)))
                     (\<lambda>e. Inr (e, total_len)))"

section \<open>Forwarded headers\<close>

datatype scheme = Http | Https

datatype forwarded_rejection =
  UntrustedPeer | ForwardingDisabled | ForwardedConflict | ForwardedTooLarge | ForwardedTooMany | ForwardedInvalid

record forwarded_effective =
  fe_client :: "socket_addr option"
  fe_scheme :: "scheme option"
  fe_authority :: "authority option"
  fe_provenance :: proxy_source_kind

datatype forwarded_for = ForUnknown | ForObfuscated | ForIp ip_addr "u16 option"

record forwarded_element =
  el_for :: forwarded_for
  el_proto :: "scheme option"
  el_host :: "authority option"

text \<open>The loop over the characters inside the quotes.\<close>

fun unescape :: "string \<Rightarrow> string option" where
  "unescape [] = Some []"
| "unescape (c # s) =
     (if c = CHR 0x5C then
        (case s of
           d # t \<Rightarrow> if d = CHR 0x22 \<or> d = CHR 0x5C then map_option ((#) d) (unescape t) else None
         | [] \<Rightarrow> None)
      else if c = CHR 0x22 then None
      else map_option ((#) c) (unescape s))"

definition unquote_forwarded_value :: "string \<Rightarrow> forwarded_rejection + string" where
  [rust_eval]: "unquote_forwarded_value value =
     (let value = trim value in
      if length value \<ge> 2 \<and> starts_with value [CHR 0x22] \<and> ends_with value [CHR 0x22] then
        ok_or ForwardedInvalid (unescape (take (length value - 2) (drop 1 value)))
      else if contains_char value (CHR 0x22) \<or> contains_char value (CHR 0x5C) then Inl ForwardedInvalid
      else Inr value)"

definition port_or_invalid :: "string \<Rightarrow> forwarded_rejection + u16" where
  [rust_eval]: "port_or_invalid s = map_err (\<lambda>_. ForwardedInvalid) (parse_port_strict s)"

text \<open>A bracketed IPv6 address with an optional port, shared by both header families.\<close>

definition parse_bracketed_ip :: "string \<Rightarrow> forwarded_rejection + ipv6 \<times> u16 option" where
  [rust_eval]: "parse_bracketed_ip value =
     (case find_char value CHR '']'' of
        None \<Rightarrow> Inl ForwardedInvalid
      | Some close \<Rightarrow>
          and_then (ok_or ForwardedInvalid (parse_ipv6 (take (close - 1) (drop 1 value)))) (\<lambda>ip.
            let rest = drop (close + 1) value in
            if rest = [] then Inr (ip, None)
            else and_then (ok_or ForwardedInvalid (strip_prefix_char CHR '':'' rest)) (\<lambda>port_str.
              and_then (port_or_invalid port_str) (\<lambda>port. Inr (ip, Some port)))))"

definition parse_forwarded_for_identifier :: "string \<Rightarrow> forwarded_rejection + forwarded_for" where
  [rust_eval]: "parse_forwarded_for_identifier value =
     (let value = trim value in
      if value = [] then Inl ForwardedInvalid
      else if eq_ignore_ascii_case value ''unknown'' then Inr ForUnknown
      else if starts_with value ''_'' then
        (if length value = 1
            \<or> \<not> list_all (\<lambda>b. is_ascii_alphanumeric b \<or> b = CHR ''_'' \<or> b = CHR ''-'' \<or> b = CHR ''.'') value
         then Inl ForwardedInvalid else Inr ForObfuscated)
      else if starts_with value ''['' then
        and_then (parse_bracketed_ip value) (\<lambda>(ip, port). Inr (ForIp (V6 ip) port))
      else
        let colon_count = length (filter (\<lambda>b. b = CHR '':'') value) in
        if colon_count > 1 then
          and_then (ok_or ForwardedInvalid (parse_ipv6 value)) (\<lambda>ip. Inr (ForIp (V6 ip) None))
        else if colon_count = 1 then
          (case rsplit_once_char CHR '':'' value of
             Some (host_part, port_part) \<Rightarrow>
               (case parse_ipv4 host_part of
                  Some ipv4 \<Rightarrow> and_then (port_or_invalid port_part) (\<lambda>port. Inr (ForIp (V4 ipv4) (Some port)))
                | None \<Rightarrow> Inl ForwardedInvalid)
           | None \<Rightarrow> Inl ForwardedInvalid)
        else
          (case parse_ipv4 value of
             Some ipv4 \<Rightarrow> Inr (ForIp (V4 ipv4) None)
           | None \<Rightarrow> Inl ForwardedInvalid))"

definition scheme_of :: "string \<Rightarrow> scheme option" where
  [rust_eval]: "scheme_of s =
     (let s = to_ascii_lowercase s in
      if s = ''http'' then Some Http else if s = ''https'' then Some Https else None)"

text \<open>The loop over the pairs of an element with its three variables.\<close>

fun element_pairs ::
  "string list \<Rightarrow> forwarded_for option \<Rightarrow> scheme option \<Rightarrow> authority option
   \<Rightarrow> forwarded_rejection + forwarded_element" where
  "element_pairs [] forward_for proto host =
     and_then (ok_or ForwardedInvalid forward_for) (\<lambda>f.
       Inr \<lparr>el_for = f, el_proto = proto, el_host = host\<rparr>)"
| "element_pairs (pair # pairs) forward_for proto host =
     (let pair = trim pair in
      if pair = [] then Inl ForwardedInvalid
      else and_then (ok_or ForwardedInvalid (split_once_char CHR ''='' pair)) (\<lambda>(key, value).
        let key = to_ascii_lowercase (trim key) in
        and_then (unquote_forwarded_value (trim value)) (\<lambda>value.
          if key = ''for'' then
            and_then (parse_forwarded_for_identifier value) (\<lambda>f. element_pairs pairs (Some f) proto host)
          else if key = ''proto'' then
            element_pairs pairs forward_for
              (case scheme_of value of Some s \<Rightarrow> Some s | None \<Rightarrow> proto) host
          else if key = ''host'' then
            element_pairs pairs forward_for proto
              (case parse_authority value of Inr a \<Rightarrow> Some a | Inl _ \<Rightarrow> host)
          else element_pairs pairs forward_for proto host)))"

definition parse_forwarded_element :: "string \<Rightarrow> forwarded_rejection + forwarded_element" where
  [rust_eval]: "parse_forwarded_element raw = element_pairs (split_char CHR '';'' raw) None None None"

fun parse_elements :: "string list \<Rightarrow> forwarded_rejection + forwarded_element list" where
  "parse_elements [] = Inr []"
| "parse_elements (raw # raws) =
     and_then (parse_forwarded_element raw) (\<lambda>e.
       and_then (parse_elements raws) (\<lambda>es. Inr (e # es)))"

text \<open>The rightmost defined value, starting from the last element.\<close>

definition rightmost :: "(forwarded_element \<Rightarrow> 'a option) \<Rightarrow> forwarded_element list \<Rightarrow> 'a option" where
  [rust_eval]: "rightmost f elements =
     fold (\<lambda>e acc. case acc of None \<Rightarrow> f e | Some x \<Rightarrow> Some x) (rev elements) (f (last elements))"

fun forwarded_client :: "forwarded_for \<Rightarrow> socket_addr option" where
  "forwarded_client ForUnknown = None"
| "forwarded_client ForObfuscated = None"
| "forwarded_client (ForIp ip port) =
     Some \<lparr>sa_ip = ip, sa_port = (case port of Some p \<Rightarrow> p | None \<Rightarrow> 0)\<rparr>"

text \<open>The non-empty trimmed pieces of a comma-separated list.\<close>

definition comma_parts :: "string \<Rightarrow> string list" where
  [rust_eval]: "comma_parts s = filter (\<lambda>p. p \<noteq> []) (map trim (split_char CHR '','' s))"

definition parse_forwarded_chain ::
  "string \<Rightarrow> forwarded_config \<Rightarrow> forwarded_rejection + forwarded_effective" where
  [rust_eval]: "parse_forwarded_chain joined config =
     (if length joined > fc_max_bytes config then Inl ForwardedTooLarge
      else
        let raw_elements = comma_parts joined in
        if raw_elements = [] then Inl ForwardedInvalid
        else if length raw_elements > fc_max_elements config then Inl ForwardedTooMany
        else and_then (parse_elements raw_elements) (\<lambda>elements.
          Inr \<lparr>fe_client = forwarded_client (el_for (last elements)),
               fe_scheme = rightmost el_proto elements, fe_authority = rightmost el_host elements,
               fe_provenance = ForwardedKind\<rparr>))"

fun join_values :: "header_value list \<Rightarrow> string" where
  "join_values [] = []"
| "join_values [v] = utf8_lossy (value_bytes v)"
| "join_values (v # w # vs) = utf8_lossy (value_bytes v) @ '', '' @ join_values (w # vs)"

definition unquote_loose :: "string \<Rightarrow> string" where
  [rust_eval]: "unquote_loose value =
     (case Option.bind (strip_prefix_char (CHR 0x22) value) (strip_suffix_char (CHR 0x22)) of
        Some s \<Rightarrow> s | None \<Rightarrow> value)"

definition parse_x_forwarded_for_entry :: "string \<Rightarrow> forwarded_rejection + socket_addr" where
  [rust_eval]: "parse_x_forwarded_for_entry value =
     (let value = trim value in
      if value = [] then Inl ForwardedInvalid
      else
        let unquoted = unquote_loose value in
        if starts_with unquoted ''['' then
          and_then (parse_bracketed_ip unquoted) (\<lambda>(ip, port).
            Inr \<lparr>sa_ip = V6 ip, sa_port = (case port of Some p \<Rightarrow> p | None \<Rightarrow> 0)\<rparr>)
        else case parse_ipv4 unquoted of
          Some ipv4 \<Rightarrow> Inr \<lparr>sa_ip = V4 ipv4, sa_port = 0\<rparr>
        | None \<Rightarrow>
            (case parse_ipv6 unquoted of
               Some ipv6 \<Rightarrow> Inr \<lparr>sa_ip = V6 ipv6, sa_port = 0\<rparr>
             | None \<Rightarrow>
                 (case rsplit_once_char CHR '':'' unquoted of
                    Some (host_part, port_part) \<Rightarrow>
                      if contains_char host_part CHR '':'' then Inl ForwardedInvalid
                      else (case parse_ipv4 host_part of
                        Some ipv4 \<Rightarrow>
                          and_then (port_or_invalid port_part) (\<lambda>port. Inr \<lparr>sa_ip = V4 ipv4, sa_port = port\<rparr>)
                      | None \<Rightarrow> Inl ForwardedInvalid)
                  | None \<Rightarrow> Inl ForwardedInvalid)))"

fun each_part :: "(string \<Rightarrow> forwarded_rejection + 'a) \<Rightarrow> string list \<Rightarrow> forwarded_rejection + 'a list" where
  "each_part f [] = Inr []"
| "each_part f (p # ps) = and_then (f p) (\<lambda>x. and_then (each_part f ps) (\<lambda>xs. Inr (x # xs)))"

text \<open>One legacy header: absent if blank, else every part has to parse and the last one wins.\<close>

definition legacy_list ::
  "(string \<Rightarrow> forwarded_rejection + 'a) \<Rightarrow> forwarded_config \<Rightarrow> string
   \<Rightarrow> forwarded_rejection + 'a option" where
  [rust_eval]: "legacy_list f config joined =
     (if trim joined = [] then Inr None
      else
        let parts = comma_parts joined in
        if parts = [] then Inl ForwardedInvalid
        else if length parts > fc_max_elements config then Inl ForwardedTooMany
        else and_then (each_part f parts) (\<lambda>xs. Inr (Some (last xs))))"

definition parse_legacy_forwarded ::
  "header_value list \<Rightarrow> header_value list \<Rightarrow> header_value list \<Rightarrow> forwarded_config
   \<Rightarrow> forwarded_rejection + forwarded_effective option" where
  [rust_eval]: "parse_legacy_forwarded xff xfp xfh config =
     and_then (legacy_list parse_x_forwarded_for_entry config (join_values xff)) (\<lambda>client.
     and_then (legacy_list (\<lambda>p. ok_or ForwardedInvalid (scheme_of p)) config (join_values xfp)) (\<lambda>scheme.
     and_then (legacy_list (\<lambda>p. map_err (\<lambda>_. ForwardedInvalid) (parse_authority (unquote_loose p)))
                 config (join_values xfh)) (\<lambda>authority.
       if client = None \<and> scheme = None \<and> authority = None then Inr None
       else Inr (Some \<lparr>fe_client = client, fe_scheme = scheme, fe_authority = authority,
                       fe_provenance = LegacyForwarded\<rparr>))))"

definition values_bytes :: "header_value list \<Rightarrow> nat" where
  [rust_eval]: "values_bytes vs = fold (\<lambda>v acc. usize_saturating_add acc (length (value_bytes v))) vs 0"

definition derive_forwarded_effective ::
  "header_block \<Rightarrow> forwarded_config \<Rightarrow> bool \<Rightarrow> forwarded_rejection + forwarded_effective option" where
  [rust_eval]: "derive_forwarded_effective headers config trusted_peer =
     (let forwarded = block_get_all headers ''forwarded'';
          xff = block_get_all headers ''x-forwarded-for'';
          xfp = block_get_all headers ''x-forwarded-proto'';
          xfh = block_get_all headers ''x-forwarded-host'';
          has_standard = (forwarded \<noteq> []);
          has_legacy = (xff \<noteq> [] \<or> xfp \<noteq> [] \<or> xfh \<noteq> [])
      in if \<not> (has_standard \<and> fc_standard config) \<and> \<not> (has_legacy \<and> fc_legacy config) then Inr None
         else if \<not> trusted_peer then Inl UntrustedPeer
         else if forwarded_is_disabled config then Inl ForwardingDisabled
         else if has_standard \<and> has_legacy \<and> fc_standard config \<and> fc_legacy config then Inl ForwardedConflict
         else
           let total_bytes = values_bytes ((if fc_standard config then forwarded else [])
                 @ (if fc_legacy config then xff @ xfp @ xfh else []))
           in if total_bytes > fc_max_bytes config then Inl ForwardedTooLarge
              else if has_standard \<and> fc_standard config then
                (case parse_forwarded_chain (join_values forwarded) config of
                   Inr e \<Rightarrow> Inr (Some e)
                 | Inl ForwardedTooMany \<Rightarrow> Inl ForwardedTooMany
                 | Inl _ \<Rightarrow> Inl ForwardedInvalid)
              else if has_legacy \<and> fc_legacy config then parse_legacy_forwarded xff xfp xfh config
              else Inr None)"

section \<open>Lemmas on prefixes\<close>

text \<open>The bits of an address from the most significant one on.\<close>

fun addr_width :: "ip_addr \<Rightarrow> nat" where
  "addr_width (V4 _) = 32"
| "addr_width (V6 _) = 128"

fun addr_bit :: "ip_addr \<Rightarrow> nat \<Rightarrow> bool" where
  "addr_bit (V4 a) i = bit a (31 - i)"
| "addr_bit (V6 a) i = bit a (127 - i)"

lemma drop_bit_eq_iff:
  fixes a b :: "'a::len word"
  shows "drop_bit s a = drop_bit s b \<longleftrightarrow> (\<forall>k. s \<le> k \<longrightarrow> k < LENGTH('a) \<longrightarrow> bit a k = bit b k)"
proof
  assume eq: "drop_bit s a = drop_bit s b"
  show "\<forall>k. s \<le> k \<longrightarrow> k < LENGTH('a) \<longrightarrow> bit a k = bit b k"
  proof (intro allI impI)
    fix k
    assume "s \<le> k"
    then show "bit a k = bit b k"
      using arg_cong [OF eq, of "\<lambda>w. bit w (k - s)"] by (simp add: bit_drop_bit_eq)
  qed
next
  assume "\<forall>k. s \<le> k \<longrightarrow> k < LENGTH('a) \<longrightarrow> bit a k = bit b k"
  then show "drop_bit s a = drop_bit s b"
    by (intro bit_word_eqI) (metis bit_drop_bit_eq bit_imp_le_length comp_apply le_add1 not_le)
qed

lemma same_prefix_bits:
  fixes net addr :: "'a::len word"
  assumes "w = LENGTH('a)" and "unat n \<le> w"
  shows "same_prefix w n net addr \<longleftrightarrow> (\<forall>i<unat n. bit net (w - 1 - i) = bit addr (w - 1 - i))"
proof -
  have "same_prefix w n net addr \<longleftrightarrow> (\<forall>k. w - unat n \<le> k \<longrightarrow> k < w \<longrightarrow> bit net k = bit addr k)"
    using assms(1) by (cases "n = 0") (auto simp: same_prefix_def Let_def drop_bit_eq_iff)
  also have "\<dots> \<longleftrightarrow> (\<forall>i<unat n. bit net (w - 1 - i) = bit addr (w - 1 - i))"
  proof (rule iffI; intro allI impI)
    fix i
    assume "\<forall>k. w - unat n \<le> k \<longrightarrow> k < w \<longrightarrow> bit net k = bit addr k" and "i < unat n"
    then show "bit net (w - 1 - i) = bit addr (w - 1 - i)" using assms(2) by auto
  next
    fix k
    assume *: "\<forall>i<unat n. bit net (w - 1 - i) = bit addr (w - 1 - i)" and "w - unat n \<le> k" and "k < w"
    then have "w - 1 - k < unat n" and "w - 1 - (w - 1 - k) = k" by auto
    with * show "bit net k = bit addr k" by metis
  qed
  finally show ?thesis .
qed

lemma mask_word_bit:
  fixes a :: "'a::len word"
  assumes "w = LENGTH('a)" and "unat n \<le> w" and "i < w"
  shows "bit (mask_word w n a) (w - 1 - i) \<longleftrightarrow> i < unat n \<and> bit a (w - 1 - i)"
proof (cases "n = 0")
  case False
  then have "0 < unat n" by (simp add: unat_gt_0)
  then show ?thesis
    using assms False by (auto simp: mask_word_def Let_def bit_push_bit_iff bit_drop_bit_eq)
qed (simp add: mask_word_def)

lemma mask_addr_bit:
  "unat n \<le> addr_width a \<Longrightarrow> i < addr_width a \<Longrightarrow> addr_bit (mask_addr a n) i \<longleftrightarrow> i < unat n \<and> addr_bit a i"
  by (cases a)
    (use mask_word_bit [where 'a = 32 and w = 32] mask_word_bit [where 'a = 128 and w = 128] in auto)

lemma addr_width_mask [simp]: "addr_width (mask_addr a n) = addr_width a"
  by (cases a) simp_all

lemma max_prefix_len_width: "unat (max_prefix_len a) = addr_width a"
  by (cases a) simp_all

lemma prefix_matches_bits:
  assumes "unat (ipp_len p) \<le> addr_width (ipp_network p)"
  shows "prefix_matches p ip \<longleftrightarrow> addr_width ip = addr_width (ipp_network p)
    \<and> (\<forall>i<unat (ipp_len p). addr_bit (ipp_network p) i = addr_bit ip i)"
  using assms same_prefix_bits [where 'a = 32 and w = 32 and n = "ipp_len p"]
    same_prefix_bits [where 'a = 128 and w = 128 and n = "ipp_len p"]
  by (cases "ipp_network p"; cases ip) simp_all

text \<open>A parsed prefix: the length is in range and the bits after it are zero.\<close>

lemma ip_prefix_parse_Inr:
  assumes "ip_prefix_parse s = Inr p"
  shows "unat (ipp_len p) \<le> addr_width (ipp_network p)"
    and "unat (ipp_len p) \<le> i \<Longrightarrow> i < addr_width (ipp_network p) \<Longrightarrow> \<not> addr_bit (ipp_network p) i"
proof -
  consider (masked) a n where "p = \<lparr>ipp_network = mask_addr a n, ipp_len = n\<rparr>" "unat n \<le> addr_width a"
    | (exact) a where "p = \<lparr>ipp_network = a, ipp_len = max_prefix_len a\<rparr>"
    using assms max_prefix_len_width
    by (auto simp: ip_prefix_parse_def Let_def result_inv word_less_nat_alt not_less split: if_splits option.splits)
  note p = this
  show "unat (ipp_len p) \<le> addr_width (ipp_network p)"
    by (cases rule: p) (simp_all add: max_prefix_len_width)
  show "\<not> addr_bit (ipp_network p) i" if "unat (ipp_len p) \<le> i" "i < addr_width (ipp_network p)"
    using that by (cases rule: p) (simp_all add: max_prefix_len_width mask_addr_bit)
qed

section \<open>Lemmas on preambles\<close>

text \<open>The verdict on a version 2 header depends only on the framed bytes.\<close>

lemma v2_append:
  assumes "parse_proxy_v2_header buf \<noteq> Inl PreambleIncomplete"
  shows "parse_proxy_v2_header (buf @ later) = parse_proxy_v2_header buf"
proof -
  have len: "16 \<le> length buf"
    using assms by (auto simp: parse_proxy_v2_header_def PROXY_V2_HEADER_LEN_def split: if_splits)
  have parts: "take 12 (buf @ later) = take 12 buf" "(buf @ later) ! 12 = buf ! 12" "(buf @ later) ! 13 = buf ! 13"
    "take 2 (drop 14 (buf @ later)) = take 2 (drop 14 buf)"
    using len by (simp_all add: nth_append)
  let ?n = "be_value (take 2 (drop 14 buf))"
  show ?thesis
  proof (cases "16 + ?n \<le> length buf")
    case True
    then have "take ?n (drop 16 (buf @ later)) = take ?n (drop 16 buf)" by simp
    with True len parts show ?thesis
      by (simp add: parse_proxy_v2_header_def PROXY_V2_HEADER_LEN_def Let_def)
  next
    case False
    have "parse_proxy_v2_header (buf @ later) = parse_proxy_v2_header buf"
      if "?n > PROXY_V2_MAX_LEN \<or> take 12 buf \<noteq> PROXY_V2_SIGNATURE \<or> byte (buf ! 12) div 16 \<noteq> 2
        \<or> byte (buf ! 12) mod 16 > 1 \<or> byte (buf ! 13) div 16 > 3 \<or> byte (buf ! 13) mod 16 > 2"
      using that len parts by (auto simp: parse_proxy_v2_header_def PROXY_V2_HEADER_LEN_def Let_def)
    moreover have "parse_proxy_v2_header buf = Inl PreambleIncomplete"
      if "\<not> (?n > PROXY_V2_MAX_LEN \<or> take 12 buf \<noteq> PROXY_V2_SIGNATURE \<or> byte (buf ! 12) div 16 \<noteq> 2
        \<or> byte (buf ! 12) mod 16 > 1 \<or> byte (buf ! 13) div 16 > 3 \<or> byte (buf ! 13) mod 16 > 2)"
      using that len False by (auto simp: parse_proxy_v2_header_def PROXY_V2_HEADER_LEN_def Let_def)
    ultimately show ?thesis using assms by blast
  qed
qed

lemma v2_consumed:
  assumes "parse_proxy_v2_header buf = Inr (e, n)"
  shows "n \<le> length buf \<and> 16 \<le> n \<and> n \<le> 16 + 1024 \<and> pe_kind e = ProxyV2"
proof -
  have "pe_kind e = ProxyV2" if "parse_v2_body f p b = Inr e" for f p b
    using that by (auto simp: parse_v2_body_def no_endpoints_def split: if_splits)
  then show ?thesis
    using assms by (auto simp: parse_proxy_v2_header_def PROXY_V2_HEADER_LEN_def PROXY_V2_MAX_LEN_def
        Let_def result_inv no_endpoints_def split: if_splits)
qed

text \<open>A version 2 preamble for two IPv4 endpoints followed by further fields.\<close>

definition v2_tcp4 :: "ipv4 \<Rightarrow> u16 \<Rightarrow> ipv4 \<Rightarrow> u16 \<Rightarrow> bytes \<Rightarrow> bytes" where
  "v2_tcp4 a p b q tlv =
     PROXY_V2_SIGNATURE @ [CHR 0x21, CHR 0x11] @ be_bytes 2 (12 + length tlv)
     @ be_bytes 4 (unat a) @ be_bytes 4 (unat b) @ be_bytes 2 (unat p) @ be_bytes 2 (unat q) @ tlv"

definition v2_tcp6 :: "ipv6 \<Rightarrow> u16 \<Rightarrow> ipv6 \<Rightarrow> u16 \<Rightarrow> bytes \<Rightarrow> bytes" where
  "v2_tcp6 a p b q tlv =
     PROXY_V2_SIGNATURE @ [CHR 0x21, CHR 0x21] @ be_bytes 2 (36 + length tlv)
     @ be_bytes 16 (unat a) @ be_bytes 16 (unat b) @ be_bytes 2 (unat p) @ be_bytes 2 (unat q) @ tlv"

lemma signature_length: "length PROXY_V2_SIGNATURE = 12"
  by (simp add: PROXY_V2_SIGNATURE_def)

lemma v2_frame:
  assumes "n = length body" and "n \<le> 1024"
  shows "parse_proxy_v2_header (PROXY_V2_SIGNATURE @ [c, f] @ be_bytes 2 n @ body) =
    (if byte c div 16 \<noteq> 2 then Inl PreambleInvalid
     else if byte c mod 16 \<noteq> 0 \<and> byte c mod 16 \<noteq> 1 then Inl PreambleInvalid
     else if byte f div 16 > 3 then Inl PreambleInvalid
     else if byte f mod 16 > 2 then Inl PreambleInvalid
     else if byte c mod 16 = 0 then Inr (no_endpoints ProxyV2, 16 + n)
     else and_then (parse_v2_body (byte f div 16) (byte f mod 16) body) (\<lambda>e. Inr (e, 16 + n)))"
proof -
  let ?buf = "PROXY_V2_SIGNATURE @ [c, f] @ be_bytes 2 n @ body"
  have parts: "length ?buf = 16 + n" "take 12 ?buf = PROXY_V2_SIGNATURE" "?buf ! 12 = c" "?buf ! 13 = f"
    "take 2 (drop 14 ?buf) = be_bytes 2 n" "take n (drop 16 ?buf) = body"
    using assms(1) by (simp_all add: signature_length nth_append drop_Cons')
  have "be_value (be_bytes 2 n) = n" using assms(2) by (simp add: be_value_be_bytes)
  then show ?thesis
    using assms(2) parts unfolding parse_proxy_v2_header_def PROXY_V2_HEADER_LEN_def PROXY_V2_MAX_LEN_def
    by (simp only: parts Let_def) simp
qed

lemma v2_tcp4_parse:
  assumes "length tlv \<le> 1012"
  shows "parse_proxy_v2_header (v2_tcp4 a p b q tlv) =
    Inr (\<lparr>pe_source = Some \<lparr>sa_ip = V4 a, sa_port = p\<rparr>, pe_destination = Some \<lparr>sa_ip = V4 b, sa_port = q\<rparr>,
          pe_kind = ProxyV2\<rparr>, 28 + length tlv)"
  using assms be_value_word [of 4 a] be_value_word [of 4 b] be_value_word [of 2 p] be_value_word [of 2 q]
  unfolding v2_tcp4_def by (subst v2_frame) (simp_all add: parse_v2_body_def)

lemma v2_tcp6_parse:
  assumes "length tlv \<le> 988"
  shows "parse_proxy_v2_header (v2_tcp6 a p b q tlv) =
    Inr (\<lparr>pe_source = Some \<lparr>sa_ip = V6 a, sa_port = p\<rparr>, pe_destination = Some \<lparr>sa_ip = V6 b, sa_port = q\<rparr>,
          pe_kind = ProxyV2\<rparr>, 52 + length tlv)"
  using assms be_value_word [of 16 a] be_value_word [of 16 b] be_value_word [of 2 p] be_value_word [of 2 q]
  unfolding v2_tcp6_def by (subst v2_frame) (simp_all add: parse_v2_body_def)

text \<open>A version 1 line for two IPv4 endpoints.\<close>

definition v1_tcp4 :: "ipv4 \<Rightarrow> u16 \<Rightarrow> ipv4 \<Rightarrow> u16 \<Rightarrow> bytes" where
  "v1_tcp4 a p b q =
     join_char CHR '' '' [''PROXY'', ''TCP4'', ipv4_str a, ipv4_str b, dec (unat p), dec (unat q)]
     @ [CHR 0x0D, CHR 0x0A]"

definition v1_tcp6 :: "ipv6 \<Rightarrow> u16 \<Rightarrow> ipv6 \<Rightarrow> u16 \<Rightarrow> bytes" where
  "v1_tcp6 a p b q =
     join_char CHR '' '' [''PROXY'', ''TCP6'', ipv6_full a, ipv6_full b, dec (unat p), dec (unat q)]
     @ [CHR 0x0D, CHR 0x0A]"

lemma parse_port_dec: "parse_port_strict (dec (unat (p :: u16))) = Inr p"
proof -
  have p: "unat p < 65536" using unsigned_less [of p, where 'a = nat] by simp
  have "length (dec n) \<le> 5" if "n < 100000" for n
    using that by (simp add: dec.simps [of n] dec.simps [of "n div 10"] dec.simps [of "n div 10 div 10"]
        dec.simps [of "n div 10 div 10 div 10"] dec.simps [of "n div 10 div 10 div 10 div 10"])
  then have "length (dec (unat p)) \<le> 5" using p by simp
  then show ?thesis
    using p dec_digits [of "unat p"] parse_unsigned_dec [of "unat p" 16] by (simp add: parse_port_strict_def)
qed

lemma length_dec_u16: "length (dec (unat (p :: u16))) \<le> 5"
  using parse_port_dec [of p] by (auto simp: parse_port_strict_def split: if_splits)

lemma digit_ascii: "is_ascii_digit c \<Longrightarrow> is_ascii c \<and> c \<noteq> CHR '' '' \<and> c \<noteq> CHR '',''"
  by (auto simp: is_ascii_digit_def is_ascii_def)

lemma ipv4_str_ascii: "c \<in> set (ipv4_str a) \<Longrightarrow> is_ascii c \<and> c \<noteq> CHR '' '' \<and> c \<noteq> CHR '','' \<and> visible c"
  using ipv4_str_chars [of a] digit_ascii visible_digit
  by (fastforce simp: is_ascii_def visible_def)

lemma dec_ascii: "c \<in> set (dec n) \<Longrightarrow> is_ascii c \<and> c \<noteq> CHR '' '' \<and> c \<noteq> CHR '',''"
  using dec_digits [of n] digit_ascii by (auto simp: list_all_iff)

text \<open>A line of version 1 with addresses that the reader of the family accepts.\<close>

definition v1_address :: "string \<Rightarrow> bool" where
  "v1_address s \<longleftrightarrow> s \<noteq> [] \<and> length s \<le> 39 \<and> (\<forall>c\<in>set s. is_ascii c \<and> c \<noteq> CHR '' '')"

lemma v1_parts_parse:
  assumes "fam = ''TCP4'' \<or> fam = ''TCP6''" and "v1_address s" and "v1_address t"
    and "parse_v1_ip (fam = ''TCP4'') s = Inr a" and "parse_v1_ip (fam = ''TCP4'') t = Inr b"
  shows "parse_v1_parts [''PROXY'', fam, s, t, dec (unat p), dec (unat q)] =
    Inr \<lparr>pe_source = Some \<lparr>sa_ip = a, sa_port = p\<rparr>, pe_destination = Some \<lparr>sa_ip = b, sa_port = q\<rparr>, pe_kind = ProxyV1\<rparr>"
proof -
  have "fam \<noteq> []" "s \<noteq> []" "t \<noteq> []" using assms(1-3) by (auto simp: v1_address_def)
  then show ?thesis
    using assms(1,4,5) unfolding parse_v1_parts_def
    by (simp add: parse_port_dec numeral_nat del: dec.simps)
qed

lemma v1_framed:
  assumes "length msg \<le> 105" and "6 \<le> length msg" and "list_all is_ascii msg" and "starts_with msg ''PROXY ''"
    and "\<not> (msg = ''PROXY UNKNOWN'' \<or> starts_with msg ''PROXY UNKNOWN '')"
  shows "parse_proxy_v1_line (msg @ [CHR 0x0D, CHR 0x0A]) = parse_v1_parts (split_char CHR '' '' msg)"
proof -
  have "list_all is_ascii (msg @ [CHR 0x0D, CHR 0x0A])" using assms(3) by (simp add: is_ascii_def)
  moreover have "starts_with (msg @ [CHR 0x0D, CHR 0x0A]) ''PROXY ''" using assms(4) by (auto simp: starts_with_def prefix_def)
  moreover have "ends_with (msg @ [CHR 0x0D, CHR 0x0A]) [CHR 0x0D, CHR 0x0A]" by (simp add: ends_with_def)
  ultimately show ?thesis
    using assms(1,2,5) unfolding parse_proxy_v1_line_def PROXY_V1_MAX_BYTES_def by (simp add: Let_def)
qed

lemma v1_line_parse:
  assumes "fam = ''TCP4'' \<or> fam = ''TCP6''" and "v1_address s" and "v1_address t"
    and "parse_v1_ip (fam = ''TCP4'') s = Inr a" and "parse_v1_ip (fam = ''TCP4'') t = Inr b"
  shows "parse_proxy_v1_line (join_char CHR '' '' [''PROXY'', fam, s, t, dec (unat p), dec (unat q)] @ [CHR 0x0D, CHR 0x0A]) =
    Inr \<lparr>pe_source = Some \<lparr>sa_ip = a, sa_port = p\<rparr>, pe_destination = Some \<lparr>sa_ip = b, sa_port = q\<rparr>, pe_kind = ProxyV1\<rparr>"
proof -
  let ?parts = "[''PROXY'', fam, s, t, dec (unat p), dec (unat q)]"
  define rest where "rest = '' '' @ s @ '' '' @ t @ '' '' @ dec (unat p) @ '' '' @ dec (unat q)"
  have msg: "join_char CHR '' '' ?parts = ''PROXY '' @ fam @ rest" by (simp add: rest_def)
  have fam: "list_all is_ascii fam" "CHR '' '' \<notin> set fam" "length fam = 4" "fam \<noteq> []"
    using assms(1) by (elim disjE; simp add: is_ascii_def)+
  have addr: "list_all is_ascii s" "list_all is_ascii t" "CHR '' '' \<notin> set s" "CHR '' '' \<notin> set t" "length s \<le> 39" "length t \<le> 39"
    using assms(2,3) by (auto simp: v1_address_def list_all_iff)
  have dec: "list_all is_ascii (dec n)" "CHR '' '' \<notin> set (dec n)" for n using dec_ascii by (auto simp: list_all_iff)
  have split: "split_char CHR '' '' (join_char CHR '' '' ?parts) = ?parts"
    using fam(2) addr(3,4) dec(2) by (intro split_join_char) (simp, auto)
  have "length rest \<le> 92" using addr length_dec_u16 [of p] length_dec_u16 [of q] by (simp add: rest_def)
  moreover have "list_all is_ascii rest" using addr dec by (simp add: rest_def is_ascii_def [of "CHR '' ''"])
  moreover have "\<not> (''PROXY '' @ fam @ rest = ''PROXY UNKNOWN'' \<or> starts_with (''PROXY '' @ fam @ rest) ''PROXY UNKNOWN '')"
    using assms(1) unfolding starts_with_def by (elim disjE) simp_all
  ultimately have "parse_proxy_v1_line ((''PROXY '' @ fam @ rest) @ [CHR 0x0D, CHR 0x0A]) =
      parse_v1_parts (split_char CHR '' '' (''PROXY '' @ fam @ rest))"
    using fam by (intro v1_framed) (simp_all add: starts_with_def is_ascii_def)
  then show ?thesis unfolding msg [symmetric] split v1_parts_parse [OF assms] .
qed

lemma v1_tcp4_parse:
  "parse_proxy_v1_line (v1_tcp4 a p b q) =
    Inr \<lparr>pe_source = Some \<lparr>sa_ip = V4 a, sa_port = p\<rparr>, pe_destination = Some \<lparr>sa_ip = V4 b, sa_port = q\<rparr>,
         pe_kind = ProxyV1\<rparr>"
proof -
  have "v1_address (ipv4_str x)" "parse_v1_ip True (ipv4_str x) = Inr (V4 x)" for x
    using ipv4_str_ascii ipv4_str_length [of x] by (auto simp: v1_address_def parse_v1_ip_def parse_ipv4_str)
  then show ?thesis using v1_line_parse [of "''TCP4''" "ipv4_str a" "ipv4_str b" "V4 a" "V4 b" p q] by (simp add: v1_tcp4_def)
qed

lemma ipv6_full_address: "v1_address (ipv6_full a)"
proof -
  have shape: "length (segments_text ss) \<le> 5 * length ss - 1 \<and> (ss \<noteq> [] \<longrightarrow> segments_text ss \<noteq> [])
      \<and> (\<forall>c\<in>set (segments_text ss). is_ascii c \<and> c \<noteq> CHR '' '')"
    if "list_all (\<lambda>g. g < 65536) ss" for ss
    using that
  proof (induction ss rule: segments_text.induct)
    case (2 s)
    then show ?case using length_hex_text [of s] hex_text_ascii by auto
  next
    case (3 s s' ss)
    then show ?case using length_hex_text [of s] hex_text_ascii by (auto simp: is_ascii_def)
  qed simp
  have eight: "list_all (\<lambda>g. g < 65536) (ipv6_segments a)" "length (ipv6_segments a) = 8"
    by (simp_all add: ipv6_segments_def list_all_iff)
  then have "ipv6_segments a \<noteq> []" by auto
  then show ?thesis
    using shape [OF eight(1)] eight(2) unfolding v1_address_def ipv6_full_def by simp
qed

lemma v1_tcp6_parse:
  "parse_proxy_v1_line (v1_tcp6 a p b q) =
    Inr \<lparr>pe_source = Some \<lparr>sa_ip = V6 a, sa_port = p\<rparr>, pe_destination = Some \<lparr>sa_ip = V6 b, sa_port = q\<rparr>,
         pe_kind = ProxyV1\<rparr>"
  using v1_line_parse [of "''TCP6''" "ipv6_full a" "ipv6_full b" "V6 a" "V6 b" p q] ipv6_full_address
  by (simp add: v1_tcp6_def parse_v1_ip_def parse_ipv6_full ok_or_def)

section \<open>Lemmas on forwarded headers\<close>

lemma utf8_lossy_ascii: "list_all is_ascii s \<Longrightarrow> utf8_lossy s = s"
  by (induction s) (auto simp: is_ascii_def)

lemma take_cont_ascii:
  "is_ascii c \<Longrightarrow> take_cont k (x @ c # y) = (fst (take_cont k x), snd (take_cont k x) @ c # y)"
proof (induction k x rule: take_cont.induct)
  case (3 k a x)
  then show ?case by (cases "take_cont k x") simp
qed (simp_all add: is_ascii_def)

lemma utf8_lossy_append_ascii:
  "is_ascii c \<Longrightarrow> utf8_lossy (x @ c # y) = utf8_lossy x @ c # utf8_lossy y"
proof (induction x rule: utf8_lossy.induct)
  case 1
  then show ?case by (simp add: is_ascii_def)
next
  case (2 a s)
  show ?case
  proof (cases "byte a < 128")
    case True
    then show ?thesis using 2 by simp
  next
    case high: False
    show ?thesis
    proof (cases s)
      case Nil
      have "utf8_lead a c = None" using "2.prems" high by (auto simp: utf8_lead_def is_ascii_def)
      then show ?thesis using high Nil "2.prems" by (simp add: is_ascii_def)
    next
      case (Cons b s1)
      show ?thesis
      proof (cases "utf8_lead a b")
        case None
        then show ?thesis using 2 high Cons by simp
      next
        case (Some k)
        obtain conts r where cr: "take_cont k s1 = (conts, r)" by fastforce
        have "utf8_lossy (r @ c # y) = utf8_lossy r @ c # utf8_lossy y"
          using "2.IH"(3,4) high Cons Some cr "2.prems" by (cases "length conts = k") auto
        then show ?thesis
          using high Cons Some cr take_cont_ascii [OF "2.prems", of k s1 y] by simp
      qed
    qed
  qed
qed

text \<open>The list ends in the entry \<open>e\<close>, alone or after earlier entries.\<close>

definition ends_in_entry :: "string \<Rightarrow> string \<Rightarrow> bool" where
  "ends_in_entry joined e \<longleftrightarrow> joined = e \<or> (\<exists>x. joined = x @ '', '' @ e)"

definition plain_entry :: "string \<Rightarrow> bool" where
  "plain_entry e \<longleftrightarrow> e \<noteq> [] \<and> trim e = e \<and> CHR '','' \<notin> set e \<and> list_all is_ascii e"

lemma comma_parts_entry:
  assumes "ends_in_entry joined e" and "plain_entry e"
  shows "\<exists>ps. comma_parts joined = ps @ [e]"
proof -
  have e: "e \<noteq> []" "trim e = e" "CHR '','' \<notin> set e" using assms(2) by (simp_all add: plain_entry_def)
  have "comma_parts (x @ '', '' @ e) = comma_parts x @ [e]" for x
    using e split_char_append [of "CHR '',''" x "CHR '' '' # e"] split_char_no_sep [of "CHR '',''" "CHR '' '' # e"]
    by (simp add: comma_parts_def trim_space del: split_char.simps)
  moreover have "comma_parts e = [e]" using e by (simp add: comma_parts_def split_char_no_sep)
  ultimately show ?thesis using assms(1) unfolding ends_in_entry_def by (metis append_Nil)
qed

lemma join_values_snoc:
  "vs \<noteq> [] \<Longrightarrow> join_values (vs @ [v]) = join_values vs @ '', '' @ utf8_lossy (value_bytes v)"
  by (induction vs rule: join_values.induct) auto

lemma utf8_lossy_entry:
  assumes "ends_in_entry s e" and "list_all is_ascii e"
  shows "ends_in_entry (utf8_lossy s) e"
proof -
  have "utf8_lossy (x @ '', '' @ e) = utf8_lossy x @ '', '' @ e" for x
    using assms(2) utf8_lossy_append_ascii [of "CHR '',''" x "CHR '' '' # e"]
    by (simp add: is_ascii_def utf8_lossy_ascii)
  then show ?thesis using assms utf8_lossy_ascii [of e] by (auto simp: ends_in_entry_def)
qed

lemma join_values_entry:
  assumes "ends_in_entry (value_bytes v) e" and "list_all is_ascii e"
  shows "ends_in_entry (join_values (vs @ [v])) e"
proof (cases "vs = []")
  case True
  then show ?thesis using utf8_lossy_entry [OF assms] by simp
next
  case False
  from utf8_lossy_entry [OF assms] have "utf8_lossy (value_bytes v) = e \<or> (\<exists>x. utf8_lossy (value_bytes v) = x @ '', '' @ e)"
    by (simp add: ends_in_entry_def)
  then show ?thesis
    unfolding ends_in_entry_def join_values_snoc [OF False] by (metis append.assoc)
qed

lemma each_part_snoc:
  "each_part f (ps @ [p]) = Inr xs \<Longrightarrow> xs \<noteq> [] \<and> f p = Inr (last xs)"
  by (induction ps arbitrary: xs) (auto simp: result_inv)

lemma parse_elements_snoc:
  "parse_elements (ps @ [p]) = Inr es \<Longrightarrow> es \<noteq> [] \<and> parse_forwarded_element p = Inr (last es)"
  by (induction ps arbitrary: es) (auto simp: result_inv)

lemma legacy_list_entry:
  assumes "ends_in_entry joined e" and "plain_entry e" and "visible (last e)" and "legacy_list f c joined = Inr r"
  shows "\<exists>v. r = Some v \<and> f e = Inr v"
proof -
  have "last e \<in> set joined"
    using assms(1,2) by (auto simp: ends_in_entry_def plain_entry_def)
  then have "trim joined \<noteq> []" using trim_keeps [OF assms(3), of joined] by auto
  with comma_parts_entry [OF assms(1,2)] assms(4) show ?thesis
    by (auto simp: legacy_list_def Let_def result_inv dest!: each_part_snoc split: if_splits)
qed

lemma ipv4_str_plain: "plain_entry (ipv4_str a)"
  using ipv4_str_ascii [of _ a] hd_in_set [OF ipv4_str_not_Nil, of a] last_in_set [OF ipv4_str_not_Nil, of a]
  by (auto simp: plain_entry_def list_all_iff intro!: trim_visible)

lemma ipv4_str_no_char: "\<not> is_ascii_digit c \<Longrightarrow> c \<noteq> CHR ''.'' \<Longrightarrow> c \<notin> set (ipv4_str a)"
  using ipv4_str_chars [of a] by auto

lemma ipv4_str_not_start: "\<not> is_ascii_digit c \<Longrightarrow> c \<noteq> CHR ''.'' \<Longrightarrow> \<not> starts_with (ipv4_str a) [c]"
  using ipv4_str_no_char [of c a] by (auto simp: starts_with_def prefix_def)

lemma xff_entry_ipv4: "parse_x_forwarded_for_entry (ipv4_str a) = Inr \<lparr>sa_ip = V4 a, sa_port = 0\<rparr>"
proof -
  have "strip_prefix_char (CHR 0x22) (ipv4_str a) = None"
    using ipv4_str_no_char [of "CHR 0x22" a] by (cases "ipv4_str a") (auto simp: is_ascii_digit_def)
  moreover have "\<not> starts_with (ipv4_str a) ''[''" by (rule ipv4_str_not_start) (simp_all add: is_ascii_digit_def)
  ultimately show ?thesis
    using ipv4_str_plain [of a]
    by (simp add: parse_x_forwarded_for_entry_def unquote_loose_def plain_entry_def parse_ipv4_str)
qed

lemma ipv4_str_visible: "visible (last (ipv4_str a))"
  using ipv4_str_ascii last_in_set [OF ipv4_str_not_Nil, of a] by blast

lemma for_identifier_ipv4: "parse_forwarded_for_identifier (ipv4_str a) = Inr (ForIp (V4 a) None)"
proof -
  have no: "\<not> is_ascii_digit c \<Longrightarrow> c \<noteq> CHR ''.'' \<Longrightarrow> c \<notin> set (ipv4_str a)" for c
    by (rule ipv4_str_no_char)
  have "to_ascii_lowercase (ipv4_str a) = ipv4_str a"
    using ipv4_str_chars [of a]
    by (auto simp: to_ascii_lowercase_def to_ascii_lowercase_char_def is_ascii_uppercase_def is_ascii_digit_def
        intro!: map_idI)
  then have "\<not> eq_ignore_ascii_case (ipv4_str a) ''unknown''"
    using no [of "CHR ''u''"]
    by (auto simp: eq_ignore_ascii_case_def to_ascii_lowercase_def to_ascii_lowercase_char_def
        is_ascii_uppercase_def is_ascii_digit_def)
  moreover have "\<not> starts_with (ipv4_str a) ''_''" "\<not> starts_with (ipv4_str a) ''[''"
    by (rule ipv4_str_not_start; simp add: is_ascii_digit_def)+
  moreover have "filter (\<lambda>b. b = CHR '':'') (ipv4_str a) = []"
    using no [of "CHR '':''"] by (auto simp: filter_empty_conv is_ascii_digit_def)
  ultimately show ?thesis
    using ipv4_str_plain [of a]
    by (simp add: parse_forwarded_for_identifier_def plain_entry_def parse_ipv4_str Let_def)
qed

lemma for_element_plain: "plain_entry (''for='' @ ipv4_str a)"
  using ipv4_str_plain [of a] ipv4_str_visible [of a]
  by (auto simp: plain_entry_def is_ascii_def visible_def intro!: trim_visible)

lemma for_element_ipv4:
  "parse_forwarded_element (''for='' @ ipv4_str a) = Inr \<lparr>el_for = ForIp (V4 a) None, el_proto = None, el_host = None\<rparr>"
proof -
  have no: "CHR '';'' \<notin> set (ipv4_str a)" "CHR 0x22 \<notin> set (ipv4_str a)" "CHR 0x5C \<notin> set (ipv4_str a)"
    by (rule ipv4_str_no_char; simp add: is_ascii_digit_def)+
  have "split_char CHR '';'' (''for='' @ ipv4_str a) = [''for='' @ ipv4_str a]"
    using no(1) by (intro split_char_no_sep) simp
  moreover have "trim (''for='' @ ipv4_str a) = ''for='' @ ipv4_str a"
    using for_element_plain [of a] by (simp only: plain_entry_def)
  moreover have "unquote_forwarded_value (ipv4_str a) = Inr (ipv4_str a)"
    using ipv4_str_plain [of a] no
    by (auto simp: unquote_forwarded_value_def plain_entry_def contains_char_def starts_with_def prefix_def Let_def)
  moreover have "trim (ipv4_str a) = ipv4_str a" "trim ''for'' = ''for''"
    using ipv4_str_plain [of a] by (simp add: plain_entry_def, simp add: trim_visible visible_def)
  moreover have "to_ascii_lowercase ''for'' = ''for''" by (simp add: rust_eval)
  ultimately show ?thesis
    by (simp add: parse_forwarded_element_def for_identifier_ipv4)
qed

text \<open>
  A byte that is not UTF-8 is replaced, not refused: the comment in \<^verbatim>\<open>join_header_values\<close> says that
  invalid UTF-8 fails closed, but in a pair that is ignored the replacement character is ignored too.
\<close>

lemma invalid_utf8_accepted:
  "parse_forwarded_element (utf8_lossy (''for='' @ ipv4_str a @ '';x='' @ [CHR 0xFF])) =
     Inr \<lparr>el_for = ForIp (V4 a) None, el_proto = None, el_host = None\<rparr>"
proof -
  let ?x = "''x='' @ replacement_char"
  have no: "CHR '';'' \<notin> set (ipv4_str a)"
    by (rule ipv4_str_no_char; simp add: is_ascii_digit_def)
  have "utf8_lossy (ipv4_str a @ '';x='' @ [CHR 0xFF]) = ipv4_str a @ '';'' @ ?x"
    using utf8_lossy_append_ascii [of "CHR '';''" "ipv4_str a" "''x='' @ [CHR 0xFF]"] ipv4_str_plain [of a]
    by (simp add: is_ascii_def utf8_lossy_ascii plain_entry_def)
  then have "utf8_lossy (''for='' @ ipv4_str a @ '';x='' @ [CHR 0xFF]) = (''for='' @ ipv4_str a) @ CHR '';'' # ?x"
    by simp
  moreover have "split_char CHR '';'' ((''for='' @ ipv4_str a) @ CHR '';'' # ?x) = [''for='' @ ipv4_str a, ?x]"
    using no by (subst split_char_no_sep_Cons) (simp_all add: replacement_char_def)
  moreover have "element_pairs [?x] (Some f) None None = Inr \<lparr>el_for = f, el_proto = None, el_host = None\<rparr>" for f
    by (simp add: rust_eval)
  ultimately show ?thesis
    using for_element_ipv4 [of a] no
    by (auto simp: parse_forwarded_element_def split_char_no_sep Let_def result_inv
        simp del: split_char.simps split: if_splits)
qed

section \<open>Properties\<close>

text \<open>
  a trusted-peer entry covers exactly its prefix.  A parsed entry has a length within the width
  of its family and no bit set after the prefix, and an address matches it if and only if it is of
  the same family and agrees with it on all leading bits of the prefix.
\<close>

lemma ip_prefix_covers:
  assumes "ip_prefix_parse s = Inr p"
  shows "unat (ipp_len p) \<le> addr_width (ipp_network p)
    \<and> (\<forall>i. unat (ipp_len p) \<le> i \<longrightarrow> i < addr_width (ipp_network p) \<longrightarrow> \<not> addr_bit (ipp_network p) i)
    \<and> (prefix_matches p ip \<longleftrightarrow> addr_width ip = addr_width (ipp_network p)
        \<and> (\<forall>i<unat (ipp_len p). addr_bit (ipp_network p) i = addr_bit ip i))"
  using ip_prefix_parse_Inr [OF assms] prefix_matches_bits [OF ip_prefix_parse_Inr(1) [OF assms]] by blast

lemma ip_prefix_covers_witness:
  "\<exists>p. ip_prefix_parse ''10.1.2.3/8'' = Inr p
     \<and> unat (ipp_len p) \<le> addr_width (ipp_network p) \<and> prefix_matches p (V4 0x0AFF0000)"
proof -
  have "trim ''10.1.2.3/8'' = ''10.1.2.3/8''" "trim ''10.1.2.3'' = ''10.1.2.3''" "trim ''8'' = ''8''"
    by (simp_all add: trim_visible visible_def)
  moreover have "read_octets 4 ''10.1.2.3'' = Some ([10, 1, 2, 3], [])"
    unfolding four by (simp add: rust_eval)
  then have "parse_ip ''10.1.2.3'' = Some (V4 0x0A010203)"
    by (simp add: parse_ip_def parse_with_def read_ipv4_def octets_value_def)
  ultimately have p: "ip_prefix_parse ''10.1.2.3/8'' = Inr \<lparr>ipp_network = V4 0x0A000000, ipp_len = 8\<rparr>"
    by (simp add: ip_prefix_parse_def parse_u8_def parse_unsigned_def is_ascii_digit_def dec_value_def mask_word_def)
  have "prefix_matches \<lparr>ipp_network = V4 0x0A000000, ipp_len = 8\<rparr> (V4 0x0AFF0000)"
    by (simp add: same_prefix_def)
  then show ?thesis using ip_prefix_covers [OF p] p by blast
qed

text \<open>
  C39: a PROXY preamble is read back as it was sent.  The text lines of version 1 for two IPv4 endpoints and
  for two IPv6 endpoints (all eight groups written out) and the binary headers of version 2 for either
  family, with at most 988 bytes of further fields, give the endpoints; version 2 also reports the exact
  number of bytes of the preamble, whatever follows.
\<close>

theorem proxy_preamble_roundtrip:
  assumes "length tlv \<le> 988"
  shows "parse_proxy_v1_line (v1_tcp4 a p b q) =
      Inr \<lparr>pe_source = Some \<lparr>sa_ip = V4 a, sa_port = p\<rparr>, pe_destination = Some \<lparr>sa_ip = V4 b, sa_port = q\<rparr>,
           pe_kind = ProxyV1\<rparr>
    \<and> parse_proxy_v1_line (v1_tcp6 a6 p b6 q) =
      Inr \<lparr>pe_source = Some \<lparr>sa_ip = V6 a6, sa_port = p\<rparr>, pe_destination = Some \<lparr>sa_ip = V6 b6, sa_port = q\<rparr>,
           pe_kind = ProxyV1\<rparr>
    \<and> parse_proxy_v2_header (v2_tcp4 a p b q tlv @ later) =
      Inr (\<lparr>pe_source = Some \<lparr>sa_ip = V4 a, sa_port = p\<rparr>, pe_destination = Some \<lparr>sa_ip = V4 b, sa_port = q\<rparr>,
            pe_kind = ProxyV2\<rparr>, length (v2_tcp4 a p b q tlv))
    \<and> parse_proxy_v2_header (v2_tcp6 a6 p b6 q tlv @ later) =
      Inr (\<lparr>pe_source = Some \<lparr>sa_ip = V6 a6, sa_port = p\<rparr>, pe_destination = Some \<lparr>sa_ip = V6 b6, sa_port = q\<rparr>,
            pe_kind = ProxyV2\<rparr>, length (v2_tcp6 a6 p b6 q tlv))"
proof -
  have t4: "length tlv \<le> 1012" using assms by simp
  show ?thesis
    using v1_tcp4_parse [of a p b q] v1_tcp6_parse [of a6 p b6 q] v2_tcp4_parse [OF t4, of a p b q]
      v2_tcp6_parse [OF assms, of a6 p b6 q]
      v2_append [of "v2_tcp4 a p b q tlv" later] v2_append [of "v2_tcp6 a6 p b6 q tlv" later]
    by (simp add: v2_tcp4_def v2_tcp6_def signature_length)
qed

theorem proxy_preamble_roundtrip_witness:
  "parse_proxy_v1_line (v1_tcp4 0x0A000001 80 0x0A000002 443) =
     Inr \<lparr>pe_source = Some \<lparr>sa_ip = V4 0x0A000001, sa_port = 80\<rparr>,
          pe_destination = Some \<lparr>sa_ip = V4 0x0A000002, sa_port = 443\<rparr>, pe_kind = ProxyV1\<rparr>
   \<and> parse_proxy_v1_line (v1_tcp6 1 80 2 443) =
     Inr \<lparr>pe_source = Some \<lparr>sa_ip = V6 1, sa_port = 80\<rparr>, pe_destination = Some \<lparr>sa_ip = V6 2, sa_port = 443\<rparr>,
          pe_kind = ProxyV1\<rparr>"
  using proxy_preamble_roundtrip [of "[]" "0x0A000001" 80 "0x0A000002" 443 1 2] by simp

text \<open>
  the incremental reader of a version 2 preamble may stop at the first verdict.  Once a prefix of
  the input is not incomplete, more input does not change the verdict; an accepted preamble lies
  within the bytes read and is at most 1040 bytes long.
\<close>

lemma proxy_v2_stable:
  assumes "parse_proxy_v2_header buf \<noteq> Inl PreambleIncomplete"
  shows "parse_proxy_v2_header (buf @ later) = parse_proxy_v2_header buf
    \<and> (\<forall>e n. parse_proxy_v2_header buf = Inr (e, n) \<longrightarrow> 16 \<le> n \<and> n \<le> length buf \<and> n \<le> 1040)"
  using v2_append [OF assms] v2_consumed by fastforce

lemma proxy_v2_stable_witness:
  "parse_proxy_v2_header (replicate 16 CHR ''G'' @ ''ET / HTTP'') = Inl PreambleInvalid"
proof -
  have "parse_proxy_v2_header (replicate 16 CHR ''G'') = Inl PreambleInvalid"
    by (simp add: parse_proxy_v2_header_def PROXY_V2_HEADER_LEN_def PROXY_V2_SIGNATURE_def)
  then show ?thesis using proxy_v2_stable [of "replicate 16 CHR ''G''" "''ET / HTTP''"] by simp
qed

text \<open>
  forwarding headers are trusted only from trusted peers.  For an untrusted peer no header
  contents ever yield effective metadata, nor do they when forwarding is disabled, nor when both
  header families are enabled and present.
\<close>

definition both_families :: "header_block \<Rightarrow> bool" where
  [rust_eval]: "both_families h \<longleftrightarrow> block_get_all h ''forwarded'' \<noteq> []
     \<and> (block_get_all h ''x-forwarded-for'' \<noteq> [] \<or> block_get_all h ''x-forwarded-proto'' \<noteq> []
        \<or> block_get_all h ''x-forwarded-host'' \<noteq> [])"

lemma forwarded_fails_closed:
  "derive_forwarded_effective h c False \<in> {Inr None, Inl UntrustedPeer}
   \<and> (forwarded_is_disabled c \<longrightarrow> derive_forwarded_effective h c trusted = Inr None)
   \<and> (fc_standard c \<and> fc_legacy c \<and> both_families h
      \<longrightarrow> \<not> (\<exists>e. derive_forwarded_effective h c trusted = Inr (Some e)))"
  by (auto simp: derive_forwarded_effective_def forwarded_is_disabled_def both_families_def Let_def)

lemma forwarded_fails_closed_witness:
  "derive_forwarded_effective
     [\<lparr>hf_name = HeaderName ''X-Forwarded-For'', hf_value = HeaderValue ''1.2.3.4''\<rparr>]
     default_forwarded_config True = Inr None"
proof -
  have "forwarded_is_disabled default_forwarded_config" by (simp add: rust_eval)
  then show ?thesis using forwarded_fails_closed by blast
qed

text \<open>
  the hop next to the trusted proxy wins.  If the proxy appended an address to the client's
  \<^verbatim>\<open>X-Forwarded-For\<close> or \<^verbatim>\<open>Forwarded\<close> header, on the same line or as a line of its own, and effective
  metadata are derived from that family, then the effective client is that address, whatever the
  client had put before it.
\<close>

lemma appended_hop_wins:
  assumes "derive_forwarded_effective h c True = Inr (Some e)"
  shows "(fe_provenance e = LegacyForwarded
      \<and> block_get_all h ''x-forwarded-for'' = vs @ [v] \<and> ends_in_entry (value_bytes v) (ipv4_str a)
      \<longrightarrow> fe_client e = Some \<lparr>sa_ip = V4 a, sa_port = 0\<rparr>)
    \<and> (fe_provenance e = ForwardedKind
      \<and> block_get_all h ''forwarded'' = vs @ [v] \<and> ends_in_entry (value_bytes v) (''for='' @ ipv4_str a)
      \<longrightarrow> fe_client e = Some \<lparr>sa_ip = V4 a, sa_port = 0\<rparr>)"
proof (intro conjI impI; elim conjE)
  assume kind: "fe_provenance e = LegacyForwarded" and xff: "block_get_all h ''x-forwarded-for'' = vs @ [v]"
    and entry: "ends_in_entry (value_bytes v) (ipv4_str a)"
  have "list_all is_ascii (ipv4_str a)" using ipv4_str_plain by (simp add: plain_entry_def)
  note last = join_values_entry [OF entry this, of vs]
  obtain xfp xfh where "parse_legacy_forwarded (vs @ [v]) xfp xfh c = Inr (Some e)"
    using assms kind xff
    by (auto simp: derive_forwarded_effective_def parse_forwarded_chain_def Let_def result_inv
        split: if_splits sum.splits forwarded_rejection.splits)
  then obtain r where "legacy_list parse_x_forwarded_for_entry c (join_values (vs @ [v])) = Inr r" and "fe_client e = r"
    by (auto simp: parse_legacy_forwarded_def result_inv split: if_splits)
  then show "fe_client e = Some \<lparr>sa_ip = V4 a, sa_port = 0\<rparr>"
    using legacy_list_entry [OF last ipv4_str_plain ipv4_str_visible, of parse_x_forwarded_for_entry c r]
    by (auto simp: xff_entry_ipv4)
next
  assume kind: "fe_provenance e = ForwardedKind" and fwd: "block_get_all h ''forwarded'' = vs @ [v]"
    and entry: "ends_in_entry (value_bytes v) (''for='' @ ipv4_str a)"
  have "list_all is_ascii (''for='' @ ipv4_str a)" using for_element_plain by (simp only: plain_entry_def)
  note last = join_values_entry [OF entry this, of vs]
  have "parse_forwarded_chain (join_values (vs @ [v])) c = Inr e"
    using assms kind fwd
    by (auto simp: derive_forwarded_effective_def parse_legacy_forwarded_def Let_def result_inv
        split: if_splits sum.splits forwarded_rejection.splits)
  then obtain es where "parse_elements (comma_parts (join_values (vs @ [v]))) = Inr es"
    and "fe_client e = forwarded_client (el_for (last es))"
    by (auto simp: parse_forwarded_chain_def Let_def result_inv split: if_splits)
  then show "fe_client e = Some \<lparr>sa_ip = V4 a, sa_port = 0\<rparr>"
    using comma_parts_entry [OF last for_element_plain] for_element_ipv4 [of a]
    by (auto dest!: parse_elements_snoc)
qed

definition spoofed_headers :: header_block where
  "spoofed_headers = [\<lparr>hf_name = HeaderName ''X-Forwarded-For'',
     hf_value = HeaderValue (ipv4_str 0x09090909 @ '', '' @ ipv4_str 0x01020304)\<rparr>]"

lemma appended_hop_wins_witness:
  "\<exists>e. derive_forwarded_effective spoofed_headers (default_forwarded_config\<lparr>fc_legacy := True\<rparr>) True = Inr (Some e)
     \<and> fe_client e = Some \<lparr>sa_ip = V4 0x01020304, sa_port = 0\<rparr>"
proof -
  let ?c = "default_forwarded_config\<lparr>fc_legacy := True\<rparr>"
  let ?b = "ipv4_str 0x09090909" and ?a = "ipv4_str 0x01020304"
  let ?v = "HeaderValue (?b @ '', '' @ ?a)"
  have all: "block_get_all spoofed_headers ''x-forwarded-for'' = [?v]"
    "block_get_all spoofed_headers ''x-forwarded-proto'' = []"
    "block_get_all spoofed_headers ''x-forwarded-host'' = []"
    by (simp_all add: spoofed_headers_def rust_eval)
  have plain: "plain_entry ?a" "plain_entry ?b" by (rule ipv4_str_plain)+
  have join: "join_values [?v] = ?b @ '', '' @ ?a"
    using plain by (simp add: utf8_lossy_ascii plain_entry_def is_ascii_def)
  have parts: "comma_parts (?b @ '', '' @ ?a) = [?b, ?a]"
    using plain split_char_append [of "CHR '',''" ?b "CHR '' '' # ?a"] split_char_no_sep [of "CHR '',''" "CHR '' '' # ?a"]
    by (simp add: comma_parts_def plain_entry_def trim_space split_char_no_sep del: split_char.simps)
  have "trim (?b @ '', '' @ ?a) \<noteq> []"
    using trim_keeps [of "CHR '',''" "?b @ '', '' @ ?a"] by (auto simp: visible_def)
  then have "legacy_list parse_x_forwarded_for_entry ?c (join_values [?v]) = Inr (Some \<lparr>sa_ip = V4 0x01020304, sa_port = 0\<rparr>)"
    unfolding legacy_list_def join parts by (simp add: xff_entry_ipv4 default_forwarded_config_def)
  then have legacy: "parse_legacy_forwarded [?v] [] [] ?c = Inr (Some
      \<lparr>fe_client = Some \<lparr>sa_ip = V4 0x01020304, sa_port = 0\<rparr>, fe_scheme = None, fe_authority = None,
       fe_provenance = LegacyForwarded\<rparr>)"
    unfolding parse_legacy_forwarded_def by (simp add: legacy_list_def rust_eval)
  have "values_bytes [?v] \<le> 4096"
    using ipv4_str_length [of "0x09090909"] ipv4_str_length [of "0x01020304"]
    by (simp add: values_bytes_def usize_saturating_add_def)
  then obtain e where e: "derive_forwarded_effective spoofed_headers ?c True = Inr (Some e)"
      "fe_provenance e = LegacyForwarded"
    unfolding derive_forwarded_effective_def all using legacy
    by (simp add: default_forwarded_config_def forwarded_is_disabled_def Let_def del: join_values.simps)
  moreover have "ends_in_entry (value_bytes ?v) ?a" by (auto simp: ends_in_entry_def)
  ultimately show ?thesis using appended_hop_wins [OF e(1), of "[]" ?v "0x01020304"] all(1) by auto
qed

end
