(* ===== verification/Request_Lifecycle.thy ===== *)
theory Request_Lifecycle
  imports Interfaces
begin

text \<open>
  The shared per-request state of \<^verbatim>\<open>request_lifecycle.rs\<close>: body ownership, cancellation and the
  notification primitive.

  The first part translates the operations as functions on the shared state; a task's waker is the
  number of the task, so that \<^verbatim>\<open>will_wake\<close> is equality, and the field \<open>rs_woken\<close> logs the wakers that
  were run.  A poisoned lock does not occur: no code that holds one of the two locks panics.
  The second part splits the same operations into their atomic accesses, as a step relation between
  one thread that ends the body and any number of waiting tasks.
\<close>

section \<open>The notification primitive\<close>

type_synonym waker = nat

record async_notify =
  generation :: u64
  waiters :: "waker list"

definition notify_new :: async_notify where
  [rust_eval]: "notify_new = \<lparr>generation = 0, waiters = []\<rparr>"

definition notified :: "async_notify \<Rightarrow> u64" where
  [rust_eval]: "notified n = generation n"

definition notify_waiters :: "async_notify \<Rightarrow> async_notify \<times> waker list" where
  [rust_eval]: "notify_waiters n =
     (n\<lparr>generation := generation n + 1, waiters := []\<rparr>, waiters n)"

definition register :: "waker \<Rightarrow> waker list \<Rightarrow> waker list" where
  [rust_eval]: "register w ws = (if w \<in> set ws then ws else ws @ [w])"

text \<open>\<open>True\<close> is \<^verbatim>\<open>Poll::Ready\<close>.\<close>

definition notified_poll :: "u64 \<Rightarrow> waker \<Rightarrow> async_notify \<Rightarrow> async_notify \<times> bool" where
  [rust_eval]: "notified_poll g w n =
     (if generation n \<noteq> g then (n, True)
      else let n' = n\<lparr>waiters := register w (waiters n)\<rparr> in (n', generation n' \<noteq> g))"

section \<open>The shared state\<close>

datatype body_lifecycle_state = Active | Complete | Abandoned | Failed

fun state_u8 :: "body_lifecycle_state \<Rightarrow> u8" where
  "state_u8 Active = 0"
| "state_u8 Complete = 1"
| "state_u8 Abandoned = 2"
| "state_u8 Failed = 3"

definition state_from_u8 :: "u8 \<Rightarrow> body_lifecycle_state" where
  [rust_eval]: "state_from_u8 v =
     (if v = 0 then Active else if v = 1 then Complete else if v = 2 then Abandoned else Failed)"

datatype cancellation_reason =
  PeerDisconnected | ServerShutdown | ConnectionTimeout | TransportFailure

record request_shared =
  rs_body_state :: u8
  rs_cancelled :: bool
  rs_reason :: "cancellation_reason option"
  rs_body_notify :: async_notify
  rs_cancel_notify :: async_notify
  rs_woken :: "waker list"

definition new_shared :: "body_lifecycle_state \<Rightarrow> request_shared" where
  [rust_eval]: "new_shared st =
     \<lparr>rs_body_state = state_u8 st, rs_cancelled = False, rs_reason = None,
      rs_body_notify = notify_new, rs_cancel_notify = notify_new, rs_woken = []\<rparr>"

definition new_active :: request_shared where
  [rust_eval]: "new_active = new_shared Active"

definition new_complete :: request_shared where
  [rust_eval]: "new_complete = new_shared Complete"

definition body_state :: "request_shared \<Rightarrow> body_lifecycle_state" where
  [rust_eval]: "body_state s = state_from_u8 (rs_body_state s)"

definition is_body_active :: "request_shared \<Rightarrow> bool" where
  [rust_eval]: "is_body_active s \<longleftrightarrow> body_state s = Active"

definition is_body_complete :: "request_shared \<Rightarrow> bool" where
  [rust_eval]: "is_body_complete s \<longleftrightarrow> body_state s = Complete"

definition is_body_terminal :: "request_shared \<Rightarrow> bool" where
  [rust_eval]: "is_body_terminal s \<longleftrightarrow> body_state s \<noteq> Active"

text \<open>\<^verbatim>\<open>AtomicU8::compare_exchange\<close>: the new state and whether the exchange happened.\<close>

definition compare_exchange ::
  "body_lifecycle_state \<Rightarrow> body_lifecycle_state \<Rightarrow> request_shared \<Rightarrow> request_shared \<times> bool" where
  [rust_eval]: "compare_exchange old new s =
     (if rs_body_state s = state_u8 old then (s\<lparr>rs_body_state := state_u8 new\<rparr>, True) else (s, False))"

definition notify_body :: "request_shared \<Rightarrow> request_shared" where
  [rust_eval]: "notify_body s =
     (let (n, woken) = notify_waiters (rs_body_notify s)
      in s\<lparr>rs_body_notify := n, rs_woken := rs_woken s @ woken\<rparr>)"

definition cancel :: "cancellation_reason \<Rightarrow> request_shared \<Rightarrow> request_shared" where
  [rust_eval]: "cancel reason s =
     (if rs_cancelled s then s
      else let s = s\<lparr>rs_cancelled := True, rs_reason := Some reason\<rparr>;
               (n, woken) = notify_waiters (rs_cancel_notify s)
           in s\<lparr>rs_cancel_notify := n, rs_woken := rs_woken s @ woken\<rparr>)"

definition mark_complete :: "request_shared \<Rightarrow> request_shared \<times> bool" where
  [rust_eval]: "mark_complete s =
     (let (s, ok) = compare_exchange Active Complete s in if ok then (notify_body s, True) else (s, False))"

definition mark_abandoned :: "request_shared \<Rightarrow> request_shared \<times> bool" where
  [rust_eval]: "mark_abandoned s =
     (let (s, ok) = compare_exchange Active Abandoned s in if ok then (notify_body s, True) else (s, False))"

definition mark_failed_with_reason ::
  "cancellation_reason \<Rightarrow> request_shared \<Rightarrow> request_shared \<times> bool" where
  [rust_eval]: "mark_failed_with_reason reason s =
     (let (s, ok) = compare_exchange Active Failed s
      in if ok then (cancel reason (notify_body s), True) else (s, False))"

definition mark_failed :: "request_shared \<Rightarrow> request_shared \<times> bool" where
  [rust_eval]: "mark_failed s =
     (let (s, ok) = compare_exchange Active Failed s
      in if ok then (cancel TransportFailure (notify_body s), True) else (s, False))"

definition is_cancelled :: "request_shared \<Rightarrow> bool" where
  [rust_eval]: "is_cancelled s \<longleftrightarrow> rs_cancelled s"

definition cancellation_reason_of :: "request_shared \<Rightarrow> cancellation_reason option" where
  [rust_eval]: "cancellation_reason_of s = rs_reason s"

section \<open>Sequences of operations\<close>

datatype body_event = EComplete | EAbandon | EFail | EFailWith cancellation_reason

fun apply_body_event :: "body_event \<Rightarrow> request_shared \<Rightarrow> request_shared \<times> bool" where
  "apply_body_event EComplete s = mark_complete s"
| "apply_body_event EAbandon s = mark_abandoned s"
| "apply_body_event EFail s = mark_failed s"
| "apply_body_event (EFailWith r) s = mark_failed_with_reason r s"

datatype lifecycle_op = Mark body_event | Cancel cancellation_reason

fun apply_op :: "lifecycle_op \<Rightarrow> request_shared \<Rightarrow> request_shared" where
  "apply_op (Mark e) s = fst (apply_body_event e s)"
| "apply_op (Cancel r) s = cancel r s"

text \<open>What the operations promise: the first mark decides the body state, the first cause the reason.\<close>

fun event_state :: "body_event \<Rightarrow> body_lifecycle_state" where
  "event_state EComplete = Complete"
| "event_state EAbandon = Abandoned"
| "event_state EFail = Failed"
| "event_state (EFailWith r) = Failed"

fun event_reason :: "body_event \<Rightarrow> cancellation_reason option" where
  "event_reason EFail = Some TransportFailure"
| "event_reason (EFailWith r) = Some r"
| "event_reason _ = None"

fun first_mark :: "lifecycle_op list \<Rightarrow> body_event option" where
  "first_mark [] = None"
| "first_mark (Mark e # _) = Some e"
| "first_mark (Cancel _ # ops) = first_mark ops"

fun first_reason :: "bool \<Rightarrow> lifecycle_op list \<Rightarrow> cancellation_reason option" where
  "first_reason owned [] = None"
| "first_reason owned (Cancel r # _) = Some r"
| "first_reason owned (Mark e # ops) =
     (if owned \<and> event_reason e \<noteq> None then event_reason e else first_reason False ops)"

section \<open>Lemmas\<close>

lemma state_from_u8 [simp]: "state_from_u8 (state_u8 st) = st"
  by (cases st) (simp_all add: state_from_u8_def)

lemma state_u8_inject [simp]: "state_u8 a = state_u8 b \<longleftrightarrow> a = b"
  by (metis state_from_u8)

lemma is_body_active_iff: "is_body_active s \<longleftrightarrow> rs_body_state s = 0"
  by (simp add: is_body_active_def body_state_def state_from_u8_def)

lemmas lifecycle_defs =
  mark_complete_def mark_abandoned_def mark_failed_def mark_failed_with_reason_def compare_exchange_def
  notify_body_def cancel_def notify_waiters_def case_prod_beta Let_def

lemma apply_event_terminal:
  "\<not> is_body_active s \<Longrightarrow> apply_body_event e s = (s, False)"
  by (cases e) (simp_all add: lifecycle_defs is_body_active_iff)

lemma apply_event_active:
  assumes "is_body_active s"
  shows "snd (apply_body_event e s)"
    and "rs_body_state (fst (apply_body_event e s)) = state_u8 (event_state e)"
    and "rs_reason (fst (apply_body_event e s)) =
      (if rs_cancelled s \<or> event_reason e = None then rs_reason s else event_reason e)"
    and "rs_cancelled (fst (apply_body_event e s)) \<longleftrightarrow> rs_cancelled s \<or> event_reason e \<noteq> None"
    and "rs_body_notify (fst (apply_body_event e s)) = fst (notify_waiters (rs_body_notify s))"
    and "set (waiters (rs_body_notify s)) \<subseteq> set (rs_woken (fst (apply_body_event e s)))"
proof -
  have u [simp]: "rs_body_state s = 0" using assms by (simp only: is_body_active_iff)
  show "snd (apply_body_event e s)"
    by (cases e) (simp_all add: lifecycle_defs)
  show "rs_body_state (fst (apply_body_event e s)) = state_u8 (event_state e)"
    by (cases e) (simp_all add: lifecycle_defs)
  show "rs_reason (fst (apply_body_event e s)) =
      (if rs_cancelled s \<or> event_reason e = None then rs_reason s else event_reason e)"
    by (cases e) (simp_all add: lifecycle_defs)
  show "rs_cancelled (fst (apply_body_event e s)) \<longleftrightarrow> rs_cancelled s \<or> event_reason e \<noteq> None"
    by (cases e) (simp_all add: lifecycle_defs)
  show "rs_body_notify (fst (apply_body_event e s)) = fst (notify_waiters (rs_body_notify s))"
    by (cases e) (simp_all add: lifecycle_defs)
  show "set (waiters (rs_body_notify s)) \<subseteq> set (rs_woken (fst (apply_body_event e s)))"
    by (cases e) (auto simp: lifecycle_defs)
qed

lemma event_state_not_active [simp]: "event_state e \<noteq> Active"
  by (cases e) simp_all

lemma apply_event_leaves_active: "\<not> is_body_active (fst (apply_body_event e s))"
proof (cases "is_body_active s")
  case True
  then show ?thesis
    using apply_event_active(2) [OF True] by (simp add: is_body_active_def body_state_def)
qed (simp add: apply_event_terminal)

lemma cancel_fields [simp]:
  "rs_body_state (cancel r s) = rs_body_state s"
  "rs_cancelled (cancel r s)"
  "rs_reason (cancel r s) = (if rs_cancelled s then rs_reason s else Some r)"
  "rs_body_notify (cancel r s) = rs_body_notify s"
  by (simp_all add: cancel_def notify_waiters_def)

text \<open>Ending the body and cancelling are one-shot: the first call wins.\<close>

interpretation body_once: one_shot apply_body_event is_body_active
  by unfold_locales
    (simp_all add: apply_event_terminal apply_event_active apply_event_leaves_active)

interpretation cancel_once: one_shot "\<lambda>r s. (cancel r s, \<not> is_cancelled s)" "\<lambda>s. \<not> is_cancelled s"
  by unfold_locales (simp_all add: is_cancelled_def)

text \<open>What holds of every state that the operations reach from a fresh one.\<close>

definition shared_inv :: "request_shared \<Rightarrow> bool" where
  "shared_inv s \<longleftrightarrow>
     (rs_cancelled s \<longleftrightarrow> rs_reason s \<noteq> None)
     \<and> rs_body_state s \<in> range state_u8
     \<and> generation (rs_body_notify s) = (if is_body_active s then 0 else 1)"

lemma shared_inv_new_active: "shared_inv new_active"
  by (simp add: shared_inv_def new_active_def new_shared_def is_body_active_iff notify_new_def)
    (metis rangeI state_u8.simps(1))

lemma shared_inv_apply: "shared_inv s \<Longrightarrow> shared_inv (apply_op op s)"
proof (cases op)
  case (Mark e)
  moreover assume "shared_inv s"
  ultimately show ?thesis
    using apply_event_active [of s e] apply_event_terminal [of s e] apply_event_leaves_active [of e s]
    by (cases "is_body_active s") (auto simp: shared_inv_def notify_waiters_def)
qed (auto simp: shared_inv_def is_body_active_iff)

lemma shared_inv_fold: "shared_inv s \<Longrightarrow> shared_inv (fold apply_op ops s)"
  by (induction ops arbitrary: s) (simp_all add: shared_inv_apply)

lemma body_state_fold:
  "body_state (fold apply_op ops s) =
     (if is_body_active s then (case first_mark ops of None \<Rightarrow> Active | Some e \<Rightarrow> event_state e)
      else body_state s)"
proof (induction ops arbitrary: s rule: first_mark.induct)
  case 1
  then show ?case by (simp add: is_body_active_def)
next
  case (2 e ops)
  have frozen: "body_state (fold apply_op ops s) = body_state s" if "\<not> is_body_active s" for s ops
    using that
  proof (induction ops arbitrary: s)
    case (Cons op ops)
    then show ?case
      by (cases op) (simp_all add: apply_event_terminal is_body_active_iff body_state_def)
  qed simp
  show ?case
    using apply_event_active(2) [of s e] apply_event_terminal [of s e] frozen apply_event_leaves_active [of e s]
    by (cases "is_body_active s") (simp_all add: body_state_def)
next
  case (3 r ops)
  then show ?case by (simp add: is_body_active_iff body_state_def)
qed

lemma reason_fold:
  "shared_inv s \<Longrightarrow> rs_reason (fold apply_op ops s) =
     (if rs_cancelled s then rs_reason s else first_reason (is_body_active s) ops)"
proof (induction ops arbitrary: s)
  case Nil
  then show ?case by (auto simp: shared_inv_def)
next
  case (Cons op ops)
  then have IH: "rs_reason (fold apply_op ops (apply_op op s)) =
      (if rs_cancelled (apply_op op s) then rs_reason (apply_op op s)
       else first_reason (is_body_active (apply_op op s)) ops)"
    using shared_inv_apply by blast
  show ?case
  proof (cases op)
    case (Mark e)
    then show ?thesis
      using IH apply_event_active [of s e] apply_event_terminal [of s e] apply_event_leaves_active [of e s]
      by (cases "is_body_active s") (auto split: if_splits)
  qed (use IH in simp)
qed

section \<open>Interleavings\<close>

text \<open>
  The atomic accesses of a task in \<^verbatim>\<open>wait_body_terminal\<close>: the test of the state, the load of the
  generation by \<^verbatim>\<open>notified\<close>, the first load, the registration and the second load of a poll, and the
  suspension after \<^verbatim>\<open>Poll::Pending\<close>; a wake-up polls again.
\<close>

datatype waiter_pc = WCheck | WSnapshot | WPoll u64 | WRegister u64 | WRecheck u64 | WParked u64 | WReturned

text \<open>
  The atomic accesses of the winning call that ends the body: the exchange, the increment of the
  generation, the removal of the waiters under the lock, and the wake-ups.
\<close>

datatype marker_pc = MExchange | MBump | MTake | MWake "waker list" | MDone

record race =
  r_state :: body_lifecycle_state
  r_notify :: async_notify
  r_marker :: marker_pc
  r_wait :: "waker \<Rightarrow> waiter_pc"
  r_woken :: "waker set"

definition race_start :: race where
  "race_start = \<lparr>r_state = Active, r_notify = notify_new, r_marker = MExchange,
     r_wait = (\<lambda>_. WCheck), r_woken = {}\<rparr>"

definition goto :: "waker \<Rightarrow> waiter_pc \<Rightarrow> race \<Rightarrow> race" where
  "goto w pc s = s\<lparr>r_wait := (r_wait s)(w := pc)\<rparr>"

inductive race_step :: "race \<Rightarrow> race \<Rightarrow> bool" where
  check_done: "r_wait s w = WCheck \<Longrightarrow> r_state s \<noteq> Active \<Longrightarrow> race_step s (goto w WReturned s)"
| check_wait: "r_wait s w = WCheck \<Longrightarrow> r_state s = Active \<Longrightarrow> race_step s (goto w WSnapshot s)"
| snapshot: "r_wait s w = WSnapshot \<Longrightarrow> race_step s (goto w (WPoll (notified (r_notify s))) s)"
| poll_ready: "r_wait s w = WPoll g \<Longrightarrow> generation (r_notify s) \<noteq> g \<Longrightarrow> race_step s (goto w WCheck s)"
| poll_first: "r_wait s w = WPoll g \<Longrightarrow> generation (r_notify s) = g \<Longrightarrow> race_step s (goto w (WRegister g) s)"
| poll_register: "r_wait s w = WRegister g \<Longrightarrow>
    race_step s (goto w (WRecheck g)
      (s\<lparr>r_notify := (r_notify s)\<lparr>waiters := register w (waiters (r_notify s))\<rparr>\<rparr>))"
| recheck_ready: "r_wait s w = WRecheck g \<Longrightarrow> generation (r_notify s) \<noteq> g \<Longrightarrow> race_step s (goto w WCheck s)"
| recheck_pending: "r_wait s w = WRecheck g \<Longrightarrow> generation (r_notify s) = g \<Longrightarrow>
    race_step s (goto w (WParked g) s)"
| repoll: "r_wait s w = WParked g \<Longrightarrow> w \<in> r_woken s \<Longrightarrow>
    race_step s (goto w (WPoll g) (s\<lparr>r_woken := r_woken s - {w}\<rparr>))"
| exchange: "r_marker s = MExchange \<Longrightarrow> st \<noteq> Active \<Longrightarrow>
    race_step s (s\<lparr>r_state := st, r_marker := MBump\<rparr>)"
| bump: "r_marker s = MBump \<Longrightarrow>
    race_step s (s\<lparr>r_notify := (r_notify s)\<lparr>generation := generation (r_notify s) + 1\<rparr>, r_marker := MTake\<rparr>)"
| take_waiters: "r_marker s = MTake \<Longrightarrow>
    race_step s (s\<lparr>r_notify := (r_notify s)\<lparr>waiters := []\<rparr>, r_marker := MWake (waiters (r_notify s))\<rparr>)"
| wake: "r_marker s = MWake (w # ws) \<Longrightarrow>
    race_step s (s\<lparr>r_woken := insert w (r_woken s), r_marker := MWake ws\<rparr>)"
| wake_done: "r_marker s = MWake [] \<Longrightarrow> race_step s (s\<lparr>r_marker := MDone\<rparr>)"

abbreviation race_reachable :: "race \<Rightarrow> bool" where
  "race_reachable s \<equiv> race_step\<^sup>*\<^sup>* race_start s"

lemma goto_fields [simp]:
  "r_state (goto w pc s) = r_state s" "r_notify (goto w pc s) = r_notify s"
  "r_marker (goto w pc s) = r_marker s" "r_woken (goto w pc s) = r_woken s"
  "r_wait (goto w pc s) = (r_wait s)(w := pc)"
  by (simp_all add: goto_def)

lemma set_register [simp]: "set (register w ws) = insert w (set ws)"
  by (auto simp: register_def)

text \<open>The generation as the phase of the marker gives it, and where a suspended task is recorded.\<close>

definition bumped :: "marker_pc \<Rightarrow> bool" where
  "bumped m \<longleftrightarrow> m \<noteq> MExchange \<and> m \<noteq> MBump"

fun will_be_woken :: "race \<Rightarrow> waker \<Rightarrow> bool" where
  "will_be_woken s w =
     (case r_marker s of
        MWake ws \<Rightarrow> w \<in> set ws \<or> w \<in> r_woken s
      | MDone \<Rightarrow> w \<in> r_woken s
      | _ \<Rightarrow> w \<in> set (waiters (r_notify s)))"

definition race_inv :: "race \<Rightarrow> bool" where
  "race_inv s \<longleftrightarrow>
     generation (r_notify s) = (if bumped (r_marker s) then 1 else 0)
     \<and> (r_state s = Active \<longleftrightarrow> r_marker s = MExchange)
     \<and> (\<forall>w. r_wait s w = WRecheck 0 \<and> \<not> bumped (r_marker s) \<longrightarrow> w \<in> set (waiters (r_notify s)))
     \<and> (\<forall>w. r_wait s w = WParked 0 \<longrightarrow> will_be_woken s w)"

lemma race_inv_start: "race_inv race_start"
  by (simp add: race_inv_def race_start_def notify_new_def bumped_def)

lemma race_inv_step: "race_step s s' \<Longrightarrow> race_inv s \<Longrightarrow> race_inv s'"
proof (induction rule: race_step.induct)
  case (recheck_pending s w g)
  then show ?case
    by (cases "r_marker s") (auto simp: race_inv_def bumped_def)
next
  case (take_waiters s)
  then show ?case by (auto simp: race_inv_def bumped_def)
next
  case (poll_register s w g)
  then show ?case by (cases "r_marker s") (auto simp: race_inv_def bumped_def)
next
  case (repoll s w g)
  then show ?case by (cases "r_marker s") (auto simp: race_inv_def bumped_def)
qed (auto simp: race_inv_def bumped_def split: marker_pc.splits)

lemma race_inv_reachable: "race_reachable s \<Longrightarrow> race_inv s"
  by (induction rule: rtranclp_induct) (auto simp: race_inv_start race_inv_step)

text \<open>A task that was suspended after the last wake-up stays suspended.\<close>

definition stuck :: "waker \<Rightarrow> race \<Rightarrow> bool" where
  "stuck w s \<longleftrightarrow> r_wait s w = WParked 1 \<and> r_marker s = MDone \<and> w \<notin> r_woken s \<and> r_state s \<noteq> Active"

lemma stuck_step: "race_step s s' \<Longrightarrow> stuck w s \<Longrightarrow> stuck w s'"
  by (induction rule: race_step.induct) (auto simp: stuck_def)

lemma stuck_forever: "race_step\<^sup>*\<^sup>* s s' \<Longrightarrow> stuck w s \<Longrightarrow> stuck w s'"
  by (induction rule: rtranclp_induct) (auto dest: stuck_step)

text \<open>The task can run to its return from here.\<close>

definition can_return :: "waker \<Rightarrow> race \<Rightarrow> bool" where
  "can_return w s \<longleftrightarrow> (\<exists>s'. race_step\<^sup>*\<^sup>* s s' \<and> r_wait s' w = WReturned)"

lemma can_return_step: "race_step s s' \<Longrightarrow> can_return w s' \<Longrightarrow> can_return w s"
  unfolding can_return_def by (blast intro: converse_rtranclp_into_rtranclp)

lemma can_return_check: "r_wait s w = WCheck \<Longrightarrow> r_state s \<noteq> Active \<Longrightarrow> can_return w s"
  using check_done [of s w] by (auto simp: can_return_def intro!: exI [of _ "goto w WReturned s"])

lemma can_return_poll:
  "r_wait s w = WPoll g \<Longrightarrow> generation (r_notify s) \<noteq> g \<Longrightarrow> r_state s \<noteq> Active \<Longrightarrow> can_return w s"
  by (rule can_return_step [OF poll_ready], assumption+) (rule can_return_check, simp_all)

lemma can_return_recheck:
  "r_wait s w = WRecheck g \<Longrightarrow> generation (r_notify s) \<noteq> g \<Longrightarrow> r_state s \<noteq> Active \<Longrightarrow> can_return w s"
  by (rule can_return_step [OF recheck_ready], assumption+) (rule can_return_check, simp_all)

lemma reach_step: "race_reachable s \<Longrightarrow> race_step s s' \<Longrightarrow> race_reachable s'"
  by (rule rtranclp.rtrancl_into_rtrancl)

text \<open>Task 0 at some point of its wait, while no other task has started.\<close>

definition one_task :: "body_lifecycle_state \<Rightarrow> u64 \<Rightarrow> waker list \<Rightarrow> marker_pc \<Rightarrow> waiter_pc \<Rightarrow> race" where
  "one_task st g ws m pc = \<lparr>r_state = st, r_notify = \<lparr>generation = g, waiters = ws\<rparr>, r_marker = m,
     r_wait = (\<lambda>_. WCheck)(0 := pc), r_woken = {}\<rparr>"

lemma one_task_steps:
  "race_step (one_task Active g ws m WCheck) (one_task Active g ws m WSnapshot)"
  "race_step (one_task st g ws m WSnapshot) (one_task st g ws m (WPoll g))"
  "race_step (one_task st g ws m (WPoll g)) (one_task st g ws m (WRegister g))"
  "race_step (one_task st g [] m (WRegister g)) (one_task st g [0] m (WRecheck g))"
  "race_step (one_task st g ws m (WRecheck g)) (one_task st g ws m (WParked g))"
  "race_step (one_task Active g ws MExchange pc) (one_task Complete g ws MBump pc)"
  "race_step (one_task st g ws MBump pc) (one_task st (g + 1) ws MTake pc)"
  "race_step (one_task st g [] MTake pc) (one_task st g [] (MWake []) pc)"
  "race_step (one_task st g ws (MWake []) pc) (one_task st g ws MDone pc)"
  using check_wait [of "one_task Active g ws m WCheck" 0] snapshot [of "one_task st g ws m WSnapshot" 0]
    poll_first [of "one_task st g ws m (WPoll g)" 0 g]
    poll_register [of "one_task st g [] m (WRegister g)" 0 g]
    recheck_pending [of "one_task st g ws m (WRecheck g)" 0 g]
    exchange [of "one_task Active g ws MExchange pc" Complete] bump [of "one_task st g ws MBump pc"]
    take_waiters [of "one_task st g [] MTake pc"] wake_done [of "one_task st g ws (MWake []) pc"]
  by (simp_all add: one_task_def goto_def notified_def register_def)

lemma one_task_reach:
  "race_reachable (one_task Active 0 [] MExchange WSnapshot)"
  "race_reachable (one_task Active 0 [] MExchange (WPoll 0))"
  "race_reachable (one_task Complete 1 [] MDone WSnapshot)"
  "race_reachable (one_task Complete 1 [] MDone (WPoll 0))"
  "race_reachable (one_task Complete 1 [0] MDone (WParked 1))"
proof -
  have start: "race_start = one_task Active 0 [] MExchange WCheck"
    by (simp add: race_start_def one_task_def notify_new_def fun_upd_idem)
  show snap: "race_reachable (one_task Active 0 [] MExchange WSnapshot)"
    unfolding start using one_task_steps(1) by (rule r_into_rtranclp)
  then show poll: "race_reachable (one_task Active 0 [] MExchange (WPoll 0))"
    using one_task_steps(2) by (rule reach_step)
  have fin: "race_reachable (one_task Complete 1 [] MDone pc)"
    if "race_reachable (one_task Active 0 [] MExchange pc)" for pc
    using reach_step [OF reach_step [OF reach_step [OF reach_step [OF that one_task_steps(6)]
      one_task_steps(7)], simplified, OF one_task_steps(8)] one_task_steps(9)] .
  then show "race_reachable (one_task Complete 1 [] MDone (WPoll 0))" using poll .
  show snapped: "race_reachable (one_task Complete 1 [] MDone WSnapshot)" using snap by (rule fin)
  show "race_reachable (one_task Complete 1 [0] MDone (WParked 1))"
    using reach_step [OF reach_step [OF reach_step [OF reach_step [OF snapped one_task_steps(2)]
      one_task_steps(3)] one_task_steps(4)] one_task_steps(5)] .
qed

section \<open>Properties\<close>

text \<open>
  C36: the first event wins.  After any sequence of calls on a fresh request the body state is the
  one of the first call that ends the body, the cancellation reason is the one of the first call
  that cancels (a failure counts only if it ended the body), the request is cancelled exactly if it
  has a reason, and of the calls that end the body exactly one reports success.
\<close>

theorem lifecycle_first_wins:
  "body_state (fold apply_op ops new_active) =
     (case first_mark ops of None \<Rightarrow> Active | Some e \<Rightarrow> event_state e)
   \<and> cancellation_reason_of (fold apply_op ops new_active) = first_reason True ops
   \<and> (is_cancelled (fold apply_op ops new_active) \<longleftrightarrow> first_reason True ops \<noteq> None)
   \<and> snd (body_once.run es new_active) = (if es = [] then 0 else 1)"
proof -
  have start: "is_body_active new_active" "\<not> rs_cancelled new_active"
    by (simp_all add: new_active_def new_shared_def is_body_active_iff)
  have inv: "shared_inv (fold apply_op ops new_active)"
    by (rule shared_inv_fold [OF shared_inv_new_active])
  have "es \<noteq> [] \<Longrightarrow> \<not> is_body_active (fst (body_once.run es new_active))"
    using body_once.run_terminal [OF apply_event_leaves_active]
    by (cases es) (simp_all add: case_prod_beta Let_def)
  then show ?thesis
    using body_state_fold [of ops new_active] reason_fold [OF shared_inv_new_active, of ops] inv start
      body_once.run_one_winner [OF start(1), of es]
    by (auto simp: cancellation_reason_of_def is_cancelled_def shared_inv_def)
qed

text \<open>
  no wake-up is lost after the generation was read.  In every interleaving, a task that read
  the generation before the body ended, wherever it is inside its poll, can still return once the
  ending call has finished: it was woken, or it sees the new generation.
\<close>

lemma snapshot_before_end_returns:
  assumes "race_reachable s" and "r_marker s = MDone"
    and "r_wait s w \<in> {WPoll 0, WRegister 0, WRecheck 0, WParked 0}"
  shows "can_return w s"
proof -
  note inv = race_inv_reachable [OF assms(1), unfolded race_inv_def]
  have gen: "generation (r_notify s) \<noteq> 0" using inv assms(2) by (simp add: bumped_def)
  have ended: "r_state s \<noteq> Active" using inv assms(2) by simp
  have woken: "w \<in> r_woken s" if "r_wait s w = WParked 0" using inv assms(2) that by simp
  from assms(3) consider (poll) "r_wait s w = WPoll 0" | (reg) "r_wait s w = WRegister 0"
    | (re) "r_wait s w = WRecheck 0" | (parked) "r_wait s w = WParked 0" by auto
  then show ?thesis
  proof cases
    case poll
    then show ?thesis using gen ended by (rule can_return_poll)
  next
    case reg
    then show ?thesis
      by (rule can_return_step [OF poll_register]) (rule can_return_recheck, use gen ended in simp_all)
  next
    case re
    then show ?thesis using gen ended by (rule can_return_recheck)
  next
    case parked
    show ?thesis
      by (rule can_return_step [OF repoll [OF parked woken [OF parked]]])
        (rule can_return_poll, use gen ended in simp_all)
  qed
qed

lemma snapshot_before_end_returns_witness: "can_return 0 (one_task Complete 1 [] MDone (WPoll 0))"
  by (rule snapshot_before_end_returns) (rule one_task_reach(4), simp_all add: one_task_def)

text \<open>
  C37: a wake-up can be lost between the test of the state and the reading of the generation.  The
  loop of \<^verbatim>\<open>wait_body_terminal\<close> tests the state first and creates the \<^verbatim>\<open>Notified\<close> value afterwards;
  if the whole ending call runs in between, the task reads the new generation, suspends itself,
  and stays suspended for ever although the body has ended.
\<close>

theorem lost_wakeup:
  "\<exists>s. race_reachable s \<and> (\<forall>s'. race_step\<^sup>*\<^sup>* s s' \<longrightarrow> r_state s' \<noteq> Active \<and> r_wait s' 0 = WParked 1)"
proof (intro exI conjI allI impI)
  let ?s = "one_task Complete 1 [0] MDone (WParked 1)"
  show "race_reachable ?s" by (rule one_task_reach(5))
  fix s'
  assume "race_step\<^sup>*\<^sup>* ?s s'"
  then have "stuck 0 s'" by (rule stuck_forever) (simp add: stuck_def one_task_def)
  then show "r_state s' \<noteq> Active" and "r_wait s' 0 = WParked 1" by (simp_all add: stuck_def)
qed

theorem lost_wakeup_witness: "\<exists>s. race_reachable s \<and> r_state s \<noteq> Active \<and> r_wait s 0 = WParked 1"
  using lost_wakeup by blast

end
