(* ===== verification/Trailers.thy ===== *)
theory Trailers
  imports Header_Block
begin

text \<open>
  The trailer section of \<^verbatim>\<open>trailers.rs\<close>: the denylist, the limits, the validated block and the
  declaration of anticipated names that becomes the \<^verbatim>\<open>Trailer\<close> header.
\<close>

section \<open>Limits\<close>

definition DEFAULT_MAX_TRAILER_FIELDS :: nat where
  [rust_eval]: "DEFAULT_MAX_TRAILER_FIELDS = 32"
definition DEFAULT_MAX_TRAILER_BYTES :: nat where
  [rust_eval]: "DEFAULT_MAX_TRAILER_BYTES = 8192"
definition MIN_MAX_TRAILER_FIELDS :: nat where
  [rust_eval]: "MIN_MAX_TRAILER_FIELDS = 1"
definition MAX_MAX_TRAILER_FIELDS :: nat where
  [rust_eval]: "MAX_MAX_TRAILER_FIELDS = 1024"
definition MIN_MAX_TRAILER_BYTES :: nat where
  [rust_eval]: "MIN_MAX_TRAILER_BYTES = 256"
definition MAX_MAX_TRAILER_BYTES :: nat where
  [rust_eval]: "MAX_MAX_TRAILER_BYTES = 1048576"

record trailer_limits =
  tl_max_fields :: nat
  tl_max_bytes :: nat

definition default_trailer_limits :: trailer_limits where
  [rust_eval]: "default_trailer_limits =
     \<lparr>tl_max_fields = DEFAULT_MAX_TRAILER_FIELDS, tl_max_bytes = DEFAULT_MAX_TRAILER_BYTES\<rparr>"

datatype trailer_validation_error =
    InvalidHeader header_error
  | ForbiddenField string
  | TooManyFields nat nat
  | TooLarge nat nat
  | InvalidLimits string

definition trailer_limits_new :: "nat \<Rightarrow> nat \<Rightarrow> trailer_validation_error + trailer_limits" where
  [rust_eval]: "trailer_limits_new max_fields max_bytes =
     (if \<not> (MIN_MAX_TRAILER_FIELDS \<le> max_fields \<and> max_fields \<le> MAX_MAX_TRAILER_FIELDS) then
        Inl (InvalidLimits (''max_fields '' @ dec max_fields @ '' outside ''
          @ dec MIN_MAX_TRAILER_FIELDS @ ''..='' @ dec MAX_MAX_TRAILER_FIELDS))
      else if \<not> (MIN_MAX_TRAILER_BYTES \<le> max_bytes \<and> max_bytes \<le> MAX_MAX_TRAILER_BYTES) then
        Inl (InvalidLimits (''max_bytes '' @ dec max_bytes @ '' outside ''
          @ dec MIN_MAX_TRAILER_BYTES @ ''..='' @ dec MAX_MAX_TRAILER_BYTES))
      else Inr \<lparr>tl_max_fields = max_fields, tl_max_bytes = max_bytes\<rparr>)"

fun header_error_string :: "header_error \<Rightarrow> string" where
  "header_error_string InvalidName = ''invalid header name''"
| "header_error_string InvalidValue = ''invalid header value (contains a control character)''"
| "header_error_string NameTooLong = ''header name too long''"

fun trailer_error_string :: "trailer_validation_error \<Rightarrow> string" where
  "trailer_error_string (InvalidHeader e) = ''invalid trailer field: '' @ header_error_string e"
| "trailer_error_string (ForbiddenField name) = ''forbidden trailer field: '' @ name"
| "trailer_error_string (TooManyFields count limit) =
     ''too many trailer fields: '' @ dec count @ '' exceeds '' @ dec limit"
| "trailer_error_string (TooLarge n limit) =
     ''trailer block too large: '' @ dec n @ '' exceeds '' @ dec limit @ '' bytes''"
| "trailer_error_string (InvalidLimits msg) = ''invalid trailer limits: '' @ msg"

section \<open>The trailer block\<close>

definition forbidden_trailer_fields :: "string list" where
  [rust_eval]: "forbidden_trailer_fields =
     [''content-length'', ''transfer-encoding'', ''trailer'', ''te'', ''connection'', ''keep-alive'',
      ''proxy-connection'', ''proxy-authenticate'', ''proxy-authorization'', ''upgrade'', ''host'',
      ''expect'']"

definition is_forbidden_trailer_field :: "string \<Rightarrow> bool" where
  [rust_eval]: "is_forbidden_trailer_field name \<longleftrightarrow>
     List.member forbidden_trailer_fields (to_ascii_lowercase name)"

definition trailer_block_bytes :: "header_block \<Rightarrow> nat" where
  [rust_eval]: "trailer_block_bytes block =
     fold (\<lambda>f acc. usize_saturating_add acc
         (usize_saturating_add (length (name_str (hf_name f))) (length (value_bytes (hf_value f)))))
       block 0"

fun reject_forbidden :: "header_block \<Rightarrow> trailer_validation_error + unit" where
  "reject_forbidden [] = Inr ()"
| "reject_forbidden (f # fs) =
     (if is_forbidden_trailer_field (name_str (hf_name f))
      then Inl (ForbiddenField (to_ascii_lowercase (name_str (hf_name f))))
      else reject_forbidden fs)"

definition validate_trailers :: "header_block \<Rightarrow> trailer_limits \<Rightarrow> trailer_validation_error + unit" where
  [rust_eval]: "validate_trailers block limits =
     and_then (reject_forbidden block) (\<lambda>_.
       if tl_max_fields limits < length block then
         Inl (TooManyFields (length block) (tl_max_fields limits))
       else let n = trailer_block_bytes block in
         if tl_max_bytes limits < n then Inl (TooLarge n (tl_max_bytes limits))
         else Inr ())"

datatype trailers = Trailers (as_block: header_block)

definition trailers_with_limits ::
  "header_block \<Rightarrow> trailer_limits \<Rightarrow> trailer_validation_error + trailers" where
  [rust_eval]: "trailers_with_limits block limits =
     and_then (validate_trailers block limits) (\<lambda>_. Inr (Trailers block))"

definition trailers_new :: "header_block \<Rightarrow> trailer_validation_error + trailers" where
  [rust_eval]: "trailers_new block = trailers_with_limits block default_trailer_limits"

section \<open>The declaration of trailer names\<close>

datatype trailer_declaration = TrailerDeclaration (td_names: "header_name list")

text \<open>The loop of \<^verbatim>\<open>validate_names\<close>; \<open>seen\<close> is the hash set of the lower-case names.\<close>

fun dedup_names ::
  "string list \<Rightarrow> header_name list \<Rightarrow> nat \<Rightarrow> header_name list
   \<Rightarrow> trailer_validation_error + (header_name list \<times> nat)" where
  "dedup_names seen unique n [] = Inr (unique, n)"
| "dedup_names seen unique n (name # names) =
     (let lower = to_ascii_lowercase (name_str name) in
      if is_forbidden_trailer_field lower then Inl (ForbiddenField lower)
      else if List.member seen lower then dedup_names seen unique n names
      else dedup_names (lower # seen) (unique @ [name])
             (usize_saturating_add n (length (name_str name))) names)"

definition empty_declaration :: trailer_validation_error where
  [rust_eval]: "empty_declaration = InvalidLimits ''trailer declaration must be non-empty''"

definition validate_names :: "header_name list \<Rightarrow> trailer_validation_error + trailer_declaration" where
  [rust_eval]: "validate_names names =
     (if names = [] then Inl empty_declaration
      else and_then (dedup_names [] [] 0 names) (\<lambda>(unique, n).
        if DEFAULT_MAX_TRAILER_FIELDS < length unique then
          Inl (TooManyFields (length unique) DEFAULT_MAX_TRAILER_FIELDS)
        else if DEFAULT_MAX_TRAILER_BYTES < n then Inl (TooLarge n DEFAULT_MAX_TRAILER_BYTES)
        else Inr (TrailerDeclaration unique)))"

fun parse_names :: "string list \<Rightarrow> trailer_validation_error + header_name list" where
  "parse_names [] = Inr []"
| "parse_names (raw # raws) =
     (let text = trim raw in
      if text = [] then Inl empty_declaration
      else and_then (map_err InvalidHeader (header_name_new text)) (\<lambda>name.
        and_then (parse_names raws) (\<lambda>names. Inr (name # names))))"

definition from_names :: "string list \<Rightarrow> trailer_validation_error + trailer_declaration" where
  [rust_eval]: "from_names raws = and_then (parse_names raws) validate_names"

definition parse_declaration :: "string \<Rightarrow> trailer_validation_error + trailer_declaration" where
  [rust_eval]: "parse_declaration v =
     (let parts = filter (\<lambda>s. s \<noteq> []) (map trim (split_char CHR '','' v)) in
      if parts = [] then Inl empty_declaration else from_names parts)"

definition declaration_contains :: "trailer_declaration \<Rightarrow> string \<Rightarrow> bool" where
  [rust_eval]: "declaration_contains d name \<longleftrightarrow>
     list_ex (\<lambda>n. eq_ignore_ascii_case (name_str n) name) (td_names d)"

text \<open>\<^verbatim>\<open>header_value\<close>: the names joined with a comma and a blank.\<close>

fun join_comma :: "string list \<Rightarrow> string" where
  "join_comma [] = []"
| "join_comma [s] = s"
| "join_comma (s # t # ss) = s @ '', '' @ join_comma (t # ss)"

definition declaration_header_value :: "trailer_declaration \<Rightarrow> string" where
  [rust_eval]: "declaration_header_value d = join_comma (map name_str (td_names d))"

section \<open>Lemmas on the block\<close>

lemma is_forbidden_lower [simp]:
  "is_forbidden_trailer_field (to_ascii_lowercase s) = is_forbidden_trailer_field s"
  by (simp add: is_forbidden_trailer_field_def)

lemma is_forbidden_cong: "eq_ignore_ascii_case a b \<Longrightarrow> is_forbidden_trailer_field a = is_forbidden_trailer_field b"
  by (simp add: is_forbidden_trailer_field_def eq_ignore_ascii_case_def)

lemma reject_forbidden_Inr:
  "reject_forbidden fs = Inr u \<longleftrightarrow> (\<forall>f\<in>set fs. \<not> is_forbidden_trailer_field (name_str (hf_name f)))"
  by (induction fs) auto

lemma reject_forbidden_Inl:
  "reject_forbidden fs = Inl e \<Longrightarrow> \<exists>f\<in>set fs. e = ForbiddenField (to_ascii_lowercase (name_str (hf_name f)))"
  by (induction fs) (auto split: if_splits)

definition field_size :: "header_field \<Rightarrow> nat" where
  "field_size f = length (name_str (hf_name f)) + length (value_bytes (hf_value f))"

lemma fold_saturating:
  "fold (\<lambda>x acc. usize_saturating_add acc (usize_saturating_add (g x) (h x))) xs a =
     min (a + (\<Sum>x\<leftarrow>xs. g x + h x)) usize_max" if "a \<le> usize_max"
  using that by (induction xs arbitrary: a) (auto simp: usize_saturating_add_def min_def)

lemma trailer_block_bytes_sum: "trailer_block_bytes b = min (\<Sum>f\<leftarrow>b. field_size f) usize_max"
  by (simp add: trailer_block_bytes_def fold_saturating usize_max_def field_size_def)

lemma trailers_with_limits_Inr:
  "trailers_with_limits b l = Inr t \<longleftrightarrow>
   t = Trailers b \<and> (\<forall>f\<in>set b. \<not> is_forbidden_trailer_field (name_str (hf_name f)))
   \<and> length b \<le> tl_max_fields l \<and> trailer_block_bytes b \<le> tl_max_bytes l"
proof (cases "reject_forbidden b")
  case (Inl e)
  moreover from this have "\<not> (\<forall>f\<in>set b. \<not> is_forbidden_trailer_field (name_str (hf_name f)))"
    by (metis reject_forbidden_Inr sum.distinct(1))
  ultimately show ?thesis
    unfolding trailers_with_limits_def validate_trailers_def by simp
next
  case (Inr u)
  then have "\<forall>f\<in>set b. \<not> is_forbidden_trailer_field (name_str (hf_name f))"
    by (simp only: reject_forbidden_Inr)
  with Inr show ?thesis
    unfolding trailers_with_limits_def validate_trailers_def Let_def by auto
qed

section \<open>Lemmas on the declaration\<close>

abbreviation lower_name :: "header_name \<Rightarrow> string" where
  "lower_name n \<equiv> to_ascii_lowercase (name_str n)"

abbreviation names_bytes :: "header_name list \<Rightarrow> nat \<Rightarrow> nat" where
  "names_bytes ns n \<equiv> fold (\<lambda>x acc. usize_saturating_add acc (length (name_str x))) ns n"

definition names_ok :: "string list \<Rightarrow> header_name list \<Rightarrow> bool" where
  "names_ok seen ns \<longleftrightarrow> distinct (map lower_name ns)
     \<and> (\<forall>x\<in>set ns. \<not> is_forbidden_trailer_field (name_str x) \<and> lower_name x \<notin> set seen)"

lemma dedup_names_Inr:
  "dedup_names seen unique n names = Inr (u, m) \<Longrightarrow>
   \<exists>ext. u = unique @ ext \<and> m = names_bytes ext n \<and> names_ok seen ext \<and> set ext \<subseteq> set names
     \<and> (\<forall>x\<in>set names. lower_name x \<in> set seen \<union> lower_name ` set ext)"
proof (induction seen unique n names arbitrary: u m rule: dedup_names.induct)
  case (1 seen unique n)
  then show ?case by (auto simp: names_ok_def)
next
  case (2 seen unique n name names)
  let ?lower = "lower_name name"
  have ok: "\<not> is_forbidden_trailer_field (name_str name)"
    using "2.prems" by (auto simp: Let_def split: if_splits)
  show ?case
  proof (cases "?lower \<in> set seen")
    case True
    with "2.prems" ok have "dedup_names seen unique n names = Inr (u, m)"
      by (simp add: Let_def)
    from "2.IH"(1) [OF refl _ _ this] ok True show ?thesis by fastforce
  next
    case False
    with "2.prems" ok have "dedup_names (?lower # seen) (unique @ [name])
        (usize_saturating_add n (length (name_str name))) names = Inr (u, m)"
      by (simp add: Let_def)
    from "2.IH"(2) [OF refl _ _ this] ok False obtain ext where
      ext: "u = (unique @ [name]) @ ext" "m = names_bytes ext (usize_saturating_add n (length (name_str name)))"
        "names_ok (?lower # seen) ext" "set ext \<subseteq> set names"
        "\<forall>x\<in>set names. lower_name x \<in> set (?lower # seen) \<union> lower_name ` set ext"
      by auto
    then show ?thesis
      using ok False by (intro exI [of _ "name # ext"]) (auto simp: names_ok_def)
  qed
qed

lemma dedup_names_ok:
  "names_ok seen ns \<Longrightarrow> dedup_names seen unique n ns = Inr (unique @ ns, names_bytes ns n)"
proof (induction ns arbitrary: seen unique n)
  case (Cons x ns)
  then have "names_ok (lower_name x # seen) ns"
    by (auto simp: names_ok_def image_iff)
  with Cons show ?case by (auto simp: names_ok_def Let_def)
qed simp

lemma token_visible: "is_token_byte c \<Longrightarrow> visible c"
  by (auto simp: is_token_byte_def visible_def Let_def)

lemma token_not_comma: "\<not> is_token_byte CHR '',''"
  by (simp add: is_token_byte_def)

text \<open>A name that header validation accepted.\<close>

definition name_valid :: "header_name \<Rightarrow> bool" where
  "name_valid n \<longleftrightarrow> header_name_new (name_str n) = Inr n"

lemma name_valid_trim: "name_valid n \<Longrightarrow> trim (name_str n) = name_str n \<and> name_str n \<noteq> [] \<and> CHR '','' \<notin> set (name_str n)"
  using token_not_comma
  by (auto simp: name_valid_def header_name_new_Inr list_all_iff intro!: trim_visible token_visible)

lemma parse_names_valid: "parse_names raws = Inr ns \<Longrightarrow> list_all name_valid ns"
proof (induction raws arbitrary: ns)
  case (Cons raw raws)
  then show ?case
    using header_name.parse_view
    by (auto simp: Let_def name_valid_def result_inv split: if_splits)
qed simp

lemma parse_names_strs: "list_all name_valid ns \<Longrightarrow> parse_names (map name_str ns) = Inr ns"
  by (induction ns) (auto simp: Let_def name_valid_trim, simp add: name_valid_def)

lemma split_join_comma:
  "ss \<noteq> [] \<Longrightarrow> (\<And>s. s \<in> set ss \<Longrightarrow> CHR '','' \<notin> set s) \<Longrightarrow>
   split_char CHR '','' (join_comma ss) = hd ss # map ((#) CHR '' '') (tl ss)"
proof (induction ss rule: join_comma.induct)
  case (3 s t ss)
  then have IH: "split_char CHR '','' (join_comma (t # ss)) = t # map ((#) CHR '' '') ss" by simp
  have "split_char CHR '','' (CHR '' '' # join_comma (t # ss)) = (CHR '' '' # t) # map ((#) CHR '' '') ss"
    using IH by simp
  with 3 show ?case by (simp add: split_char_no_sep_Cons)
qed (simp_all add: split_char_no_sep)

lemma declaration_parts:
  assumes "list_all name_valid ns" and "ns \<noteq> []"
  shows "filter (\<lambda>s. s \<noteq> []) (map trim (split_char CHR '','' (join_comma (map name_str ns)))) = map name_str ns"
proof -
  have split: "split_char CHR '','' (join_comma (map name_str ns)) =
      hd (map name_str ns) # map ((#) CHR '' '') (tl (map name_str ns))"
    using assms name_valid_trim by (intro split_join_comma) (auto simp: list_all_iff)
  obtain m ms where ns: "ns = m # ms" using assms(2) by (cases ns) auto
  have ne: "name_str n \<noteq> []" "trim (name_str n) = name_str n" if "n \<in> set ns" for n
    using that assms(1) name_valid_trim by (auto simp: list_all_iff)
  have "map trim (map ((#) CHR '' '') (map name_str ms)) = map name_str ms"
    using ne ns by (simp add: trim_space)
  then have "map trim (split_char CHR '','' (join_comma (map name_str ns))) = map name_str ns"
    using split ne ns by simp
  then show ?thesis using ne by (simp only:) (auto simp: filter_id_conv)
qed

text \<open>What a successful parse gives.\<close>

lemma validate_names_Inr:
  assumes "validate_names ns = Inr d" and "list_all name_valid ns"
  shows "list_all name_valid (td_names d)" and "td_names d \<noteq> []" and "names_ok [] (td_names d)"
    and "length (td_names d) \<le> DEFAULT_MAX_TRAILER_FIELDS"
    and "names_bytes (td_names d) 0 \<le> DEFAULT_MAX_TRAILER_BYTES"
    and "\<forall>x\<in>set ns. lower_name x \<in> lower_name ` set (td_names d)"
proof -
  obtain u m where dd: "dedup_names [] [] 0 ns = Inr (u, m)" and ne: "ns \<noteq> []"
    and b: "length u \<le> DEFAULT_MAX_TRAILER_FIELDS" "m \<le> DEFAULT_MAX_TRAILER_BYTES" and d: "d = TrailerDeclaration u"
    using assms(1) by (auto simp: validate_names_def result_inv split: if_splits)
  from dedup_names_Inr [OF dd] have u: "m = names_bytes u 0" "names_ok [] u" "set u \<subseteq> set ns"
    "\<forall>x\<in>set ns. lower_name x \<in> lower_name ` set u" by auto
  show "list_all name_valid (td_names d)" using u(3) assms(2) d by (auto simp: list_all_iff)
  show "td_names d \<noteq> []" using u(4) ne d by (cases ns) auto
  show "names_ok [] (td_names d)" "length (td_names d) \<le> DEFAULT_MAX_TRAILER_FIELDS"
    "names_bytes (td_names d) 0 \<le> DEFAULT_MAX_TRAILER_BYTES"
    "\<forall>x\<in>set ns. lower_name x \<in> lower_name ` set (td_names d)"
    using u b d by simp_all
qed

lemma parse_declaration_Inr:
  assumes "parse_declaration v = Inr d"
  shows "\<exists>ns. list_all name_valid ns \<and> validate_names ns = Inr d"
  using assms parse_names_valid
  by (auto simp: parse_declaration_def from_names_def Let_def result_inv split: if_splits)

interpretation declaration_text: canonical_text parse_declaration declaration_header_value
proof unfold_locales
  fix v d
  assume "parse_declaration v = Inr d"
  then obtain ns where ns: "list_all name_valid ns" "validate_names ns = Inr d"
    using parse_declaration_Inr by blast
  note d = validate_names_Inr [OF ns(2,1)]
  have "validate_names (td_names d) = Inr d"
    using d(2,4,5) dedup_names_ok [OF d(3), of "[]" 0] by (simp add: validate_names_def)
  then show "parse_declaration (declaration_header_value d) = Inr d"
    unfolding parse_declaration_def declaration_header_value_def declaration_parts [OF d(1,2)]
    using d(1,2) by (simp add: from_names_def parse_names_strs)
qed

section \<open>Properties\<close>

text \<open>
  C38: no runtime-owned field gets through as a trailer.  A block that validation accepted under
  any configurable limits is stored unchanged, has no field with a forbidden name in any spelling,
  and respects both limits, the sum of its bytes taken without saturation; a block with a forbidden
  field is refused for that field, however large it is.
\<close>

theorem validated_trailers_safe:
  assumes "trailer_limits_new max_fields max_bytes = Inr l" and "is_forbidden_trailer_field name"
  shows "(\<forall>t. trailers_with_limits b l = Inr t \<longrightarrow>
      as_block t = b \<and> block_get_all b name = [] \<and> length b \<le> max_fields
      \<and> (\<Sum>f\<leftarrow>b. field_size f) \<le> max_bytes)
    \<and> (block_get_all b name \<noteq> [] \<longrightarrow> (\<exists>n. trailers_with_limits b l = Inl (ForbiddenField n)))"
proof (intro conjI allI impI)
  fix t
  assume t: "trailers_with_limits b l = Inr t"
  have lim: "tl_max_fields l = max_fields" "tl_max_bytes l = max_bytes" "max_bytes < usize_max"
    using assms(1) by (auto simp: trailer_limits_new_def usize_max_def MAX_MAX_TRAILER_BYTES_def split: if_splits)
  note t = t [unfolded trailers_with_limits_Inr]
  show "as_block t = b" "length b \<le> max_fields" using t lim by simp_all
  show "(\<Sum>f\<leftarrow>b. field_size f) \<le> max_bytes"
    using t lim by (auto simp: trailer_block_bytes_sum min_def split: if_splits)
  show "block_get_all b name = []"
    using t assms(2) is_forbidden_cong
    by (auto simp: block_get_all_def field_matches_def filter_empty_conv)
next
  assume "block_get_all b name \<noteq> []"
  then obtain f where "f \<in> set b" "is_forbidden_trailer_field (name_str (hf_name f))"
    using assms(2) is_forbidden_cong by (auto simp: block_get_all_def field_matches_def filter_empty_conv)
  then have "\<nexists>u. reject_forbidden b = Inr u"
    by (auto simp: reject_forbidden_Inr)
  then obtain e where "reject_forbidden b = Inl e" by (cases "reject_forbidden b") auto
  then show "\<exists>n. trailers_with_limits b l = Inl (ForbiddenField n)"
    using reject_forbidden_Inl by (fastforce simp: trailers_with_limits_def validate_trailers_def)
qed

theorem validated_trailers_safe_witness:
  "\<exists>n. trailers_with_limits
     [\<lparr>hf_name = HeaderName ''Content-Length'', hf_value = HeaderValue ''5''\<rparr>]
     \<lparr>tl_max_fields = 32, tl_max_bytes = 8192\<rparr> = Inl (ForbiddenField n)"
proof -
  have "trailer_limits_new 32 8192 = Inr \<lparr>tl_max_fields = 32, tl_max_bytes = 8192\<rparr>"
    and "is_forbidden_trailer_field ''content-length''"
    and "block_get_all [\<lparr>hf_name = HeaderName ''Content-Length'', hf_value = HeaderValue ''5''\<rparr>]
      ''content-length'' \<noteq> []"
    by (simp_all add: rust_eval)
  then show ?thesis using validated_trailers_safe by blast
qed

text \<open>
  the \<^verbatim>\<open>Trailer\<close> header that is sent for a declaration declares it.  A parsed declaration has
  between one and 32 names, pairwise different up to case and none forbidden, contains every name
  listed, and its printed header value parses back to the same declaration.
\<close>

lemma trailer_declaration_canonical:
  assumes "parse_declaration v = Inr d"
  shows "parse_declaration (declaration_header_value d) = Inr d
    \<and> 1 \<le> length (td_names d) \<and> length (td_names d) \<le> 32
    \<and> distinct (map lower_name (td_names d))
    \<and> (\<forall>name. declaration_contains d name \<longrightarrow> \<not> is_forbidden_trailer_field name)"
proof -
  obtain ns where ns: "list_all name_valid ns" "validate_names ns = Inr d"
    using parse_declaration_Inr [OF assms] by blast
  note d = validate_names_Inr [OF ns(2,1)]
  have "\<not> is_forbidden_trailer_field name" if "declaration_contains d name" for name
    using that d(3) is_forbidden_cong by (auto simp: declaration_contains_def names_ok_def list_ex_iff)
  then show ?thesis
    using declaration_text.parse_view [OF assms] d(2,3,4)
    by (simp add: names_ok_def DEFAULT_MAX_TRAILER_FIELDS_def Suc_le_eq)
qed

lemma trailer_declaration_canonical_witness:
  "parse_declaration ''A,, a , T'' = Inr (TrailerDeclaration [HeaderName ''A'', HeaderName ''T''])
   \<and> parse_declaration (declaration_header_value (TrailerDeclaration [HeaderName ''A'', HeaderName ''T''])) =
     Inr (TrailerDeclaration [HeaderName ''A'', HeaderName ''T''])"
proof -
  have parts: "filter (\<lambda>s. s \<noteq> []) (map trim (split_char CHR '','' ''A,, a , T'')) = [''A'', ''a'', ''T'']"
    by (simp add: rust_eval)
  have names: "parse_names [''A'', ''a'', ''T''] = Inr [HeaderName ''A'', HeaderName ''a'', HeaderName ''T'']"
    by (simp add: rust_eval)
  have unique: "dedup_names [] [] 0 [HeaderName ''A'', HeaderName ''a'', HeaderName ''T''] =
      Inr ([HeaderName ''A'', HeaderName ''T''], 2)"
    by (simp add: rust_eval)
  have p: "parse_declaration ''A,, a , T'' = Inr (TrailerDeclaration [HeaderName ''A'', HeaderName ''T''])"
    unfolding parse_declaration_def parts from_names_def
    by (simp add: names validate_names_def unique del: parse_names.simps dedup_names.simps add: DEFAULT_MAX_TRAILER_FIELDS_def
        DEFAULT_MAX_TRAILER_BYTES_def)
  show ?thesis using trailer_declaration_canonical [OF p] p by blast
qed

end
