(* ===== verification/Request_Body.thy ===== *)
theory Request_Body
  imports Request_Lifecycle Trailers
begin

text \<open>
  The one-shot request body of \<^verbatim>\<open>request_body.rs\<close> with its errors (\<^verbatim>\<open>request_body_error.rs\<close>), the body
  policies (\<^verbatim>\<open>request_body_policy.rs\<close>, \<^verbatim>\<open>incomplete_body_policy.rs\<close>, \<^verbatim>\<open>limits.rs\<close>).

  The transport's stream is the list of what its polls return; an \<^verbatim>\<open>await\<close> skips the pending polls.
  The length of a chunk is a natural number, so that \<^verbatim>\<open>len() as u64\<close> loses nothing.  Whether the
  allocator grants a reservation of a number of bytes is the parameter \<open>reserve_ok\<close>.
\<close>

section \<open>Errors and policies\<close>

datatype request_body_error =
    RejectedByPolicy
  | DeclaredLengthTooLarge u64 u64
  | LimitExceeded u64 u64
  | ReadTimeout
  | PrematureEof u64 "u64 option"
  | LengthMismatch u64 u64
  | InvalidChunkFraming string
  | Cancelled
  | Disconnected
  | AlreadyConsumed
  | MixedConsumptionMode
  | TransportError string
  | InvalidTrailers string
  | TrailersNotReady

fun to_status_code :: "request_body_error \<Rightarrow> u16" where
  "to_status_code RejectedByPolicy = 413"
| "to_status_code (DeclaredLengthTooLarge _ _) = 413"
| "to_status_code (LimitExceeded _ _) = 413"
| "to_status_code ReadTimeout = 408"
| "to_status_code (PrematureEof _ _) = 400"
| "to_status_code (LengthMismatch _ _) = 400"
| "to_status_code (InvalidChunkFraming _) = 400"
| "to_status_code Cancelled = 499"
| "to_status_code Disconnected = 499"
| "to_status_code AlreadyConsumed = 500"
| "to_status_code MixedConsumptionMode = 500"
| "to_status_code (TransportError _) = 500"
| "to_status_code (InvalidTrailers _) = 400"
| "to_status_code TrailersNotReady = 500"

fun is_limit_exceeded :: "request_body_error \<Rightarrow> bool" where
  "is_limit_exceeded (LimitExceeded _ _) = True"
| "is_limit_exceeded (DeclaredLengthTooLarge _ _) = True"
| "is_limit_exceeded _ = False"

fun is_disconnect :: "request_body_error \<Rightarrow> bool" where
  "is_disconnect Disconnected = True"
| "is_disconnect (PrematureEof _ _) = True"
| "is_disconnect _ = False"

fun is_consumption_state :: "request_body_error \<Rightarrow> bool" where
  "is_consumption_state AlreadyConsumed = True"
| "is_consumption_state MixedConsumptionMode = True"
| "is_consumption_state TrailersNotReady = True"
| "is_consumption_state _ = False"

datatype request_body_policy = RejectBody | BufferBody u64 | StreamBody u64

fun policy_max_bytes :: "request_body_policy \<Rightarrow> u64 option" where
  "policy_max_bytes RejectBody = None"
| "policy_max_bytes (BufferBody n) = Some n"
| "policy_max_bytes (StreamBody n) = Some n"

section \<open>The body\<close>

datatype body_consumption = Unread | Streaming | CompleteState | ErrorState

datatype stream_event = PendingEvent | Chunk bytes | StreamError string

datatype body_inner = Incoming "stream_event list" | Fixed bytes nat | EmptyInner

type_synonym wire_slot = "(string + header_block) option"

record request_body =
  rb_inner :: "body_inner option"
  rb_declared :: "u64 option"
  rb_received :: u64
  rb_state :: body_consumption
  rb_max :: u64
  rb_shared :: request_shared
  rb_tlimits :: trailer_limits
  rb_trailers :: "trailers option"
  rb_trailer_error :: "string option"
  rb_wire :: "wire_slot option"

definition body_empty :: request_body where
  [rust_eval]: "body_empty =
     \<lparr>rb_inner = Some EmptyInner, rb_declared = None, rb_received = 0, rb_state = Unread,
      rb_max = u64_max, rb_shared = new_complete, rb_tlimits = default_trailer_limits,
      rb_trailers = None, rb_trailer_error = None, rb_wire = None\<rparr>"

definition from_bytes_with_shared :: "bytes \<Rightarrow> u64 \<Rightarrow> request_shared \<Rightarrow> request_body" where
  [rust_eval]: "from_bytes_with_shared data max_bytes shared =
     \<lparr>rb_inner = Some (Fixed data 0), rb_declared = Some (of_nat (length data)), rb_received = 0,
      rb_state = Unread, rb_max = max_bytes,
      rb_shared = (if data = [] then fst (mark_complete shared) else shared),
      rb_tlimits = default_trailer_limits, rb_trailers = None, rb_trailer_error = None, rb_wire = None\<rparr>"

definition from_bytes :: "bytes \<Rightarrow> u64 \<Rightarrow> request_body" where
  [rust_eval]: "from_bytes data max_bytes = from_bytes_with_shared data max_bytes new_active"

definition from_bytes_with_trailers :: "bytes \<Rightarrow> u64 \<Rightarrow> trailers \<Rightarrow> request_body" where
  [rust_eval]: "from_bytes_with_trailers data max_bytes t = (from_bytes data max_bytes)\<lparr>rb_trailers := Some t\<rparr>"

definition from_incoming_with_shared_and_wire_slot ::
  "stream_event list \<Rightarrow> u64 option \<Rightarrow> u64 \<Rightarrow> request_shared \<Rightarrow> wire_slot \<Rightarrow> request_body" where
  [rust_eval]: "from_incoming_with_shared_and_wire_slot stream declared max_bytes shared slot =
     \<lparr>rb_inner = Some (Incoming stream), rb_declared = declared, rb_received = 0, rb_state = Unread,
      rb_max = max_bytes, rb_shared = shared, rb_tlimits = default_trailer_limits,
      rb_trailers = None, rb_trailer_error = None, rb_wire = Some slot\<rparr>"

definition from_incoming_with_shared ::
  "stream_event list \<Rightarrow> u64 option \<Rightarrow> u64 \<Rightarrow> request_shared \<Rightarrow> request_body" where
  [rust_eval]: "from_incoming_with_shared stream declared max_bytes shared =
     from_incoming_with_shared_and_wire_slot stream declared max_bytes shared None"

definition from_incoming :: "stream_event list \<Rightarrow> u64 option \<Rightarrow> u64 \<Rightarrow> request_body" where
  [rust_eval]: "from_incoming stream declared max_bytes =
     from_incoming_with_shared stream declared max_bytes new_active"

definition set_trailers :: "trailers \<Rightarrow> request_body \<Rightarrow> request_body" where
  [rust_eval]: "set_trailers t b = b\<lparr>rb_trailers := Some t\<rparr>"

section \<open>Completion and failure\<close>

text \<open>The pairs of assignments that end consumption: the state and the shared lifecycle.\<close>

definition fail_body :: "request_body \<Rightarrow> request_body" where
  [rust_eval]: "fail_body b = b\<lparr>rb_state := ErrorState, rb_shared := fst (mark_failed (rb_shared b))\<rparr>"

definition complete_body :: "request_body \<Rightarrow> request_body" where
  [rust_eval]: "complete_body b = b\<lparr>rb_state := CompleteState, rb_shared := fst (mark_complete (rb_shared b))\<rparr>"

definition drain_and_validate_wire_slot ::
  "wire_slot \<Rightarrow> trailer_limits \<Rightarrow> string + trailers option" where
  [rust_eval]: "drain_and_validate_wire_slot slot limits =
     (case slot of
        None \<Rightarrow> Inr None
      | Some (Inl msg) \<Rightarrow> Inl msg
      | Some (Inr block) \<Rightarrow>
          (case trailers_with_limits block limits of
             Inr t \<Rightarrow> Inr (Some t)
           | Inl e \<Rightarrow> Inl (trailer_error_string e)))"

text \<open>The slot is emptied whatever the result.\<close>

definition finalize_wire_slot :: "wire_slot \<Rightarrow> request_body \<Rightarrow> request_body \<times> (string + unit)" where
  [rust_eval]: "finalize_wire_slot slot b =
     (let b = b\<lparr>rb_wire := Some None\<rparr> in
      case drain_and_validate_wire_slot slot (rb_tlimits b) of
        Inr None \<Rightarrow> (b, Inr ())
      | Inr (Some t) \<Rightarrow>
          if rb_trailers b \<noteq> None then
            (b\<lparr>rb_trailer_error := Some ''repeated trailer block''\<rparr>, Inl ''repeated trailer block'')
          else (b\<lparr>rb_trailers := Some t\<rparr>, Inr ())
      | Inl msg \<Rightarrow> (b\<lparr>rb_trailer_error := Some msg\<rparr>, Inl msg))"

definition finalize_trailers :: "request_body \<Rightarrow> request_body \<times> (request_body_error + unit)" where
  [rust_eval]: "finalize_trailers b =
     (case rb_wire b of
        None \<Rightarrow> (b, Inr ())
      | Some slot \<Rightarrow>
          (case finalize_wire_slot slot b of
             (b, Inr _) \<Rightarrow> (b, Inr ())
           | (b, Inl msg) \<Rightarrow> (fail_body b, Inl (InvalidTrailers msg))))"

text \<open>The end of every successful consumption: trailers first, then the completion.\<close>

definition finish :: "'a \<Rightarrow> request_body \<Rightarrow> request_body \<times> (request_body_error + 'a)" where
  [rust_eval]: "finish result b =
     (case finalize_trailers b of
        (b, Inl e) \<Rightarrow> (b, Inl e)
      | (b, Inr _) \<Rightarrow> (complete_body b, Inr result))"

section \<open>Accounting\<close>

text \<open>
  The checks on an arriving chunk: overflow (which returns without failing the body), the byte
  limit, and the declared length.
\<close>

definition accept_chunk :: "bytes \<Rightarrow> request_body \<Rightarrow> request_body \<times> (request_body_error + bytes)" where
  [rust_eval]: "accept_chunk chunk b =
     (case checked_add_len (rb_received b) (length chunk) of
        None \<Rightarrow> (b, Inl (LimitExceeded (rb_max b) u64_max))
      | Some new_total \<Rightarrow>
          if new_total > rb_max b then (fail_body b, Inl (LimitExceeded (rb_max b) new_total))
          else if (case rb_declared b of Some declared \<Rightarrow> new_total > declared | None \<Rightarrow> False) then
            (fail_body b, Inl (LengthMismatch (the (rb_declared b)) new_total))
          else (b\<lparr>rb_received := new_total\<rparr>, Inr chunk))"

definition premature :: "request_body \<Rightarrow> u64 option" where
  [rust_eval]: "premature b =
     (case rb_declared b of
        Some declared \<Rightarrow> if rb_received b < declared then Some declared else None
      | None \<Rightarrow> None)"

section \<open>Reading everything\<close>

fun read_incoming ::
  "stream_event list \<Rightarrow> bytes \<Rightarrow> request_body \<Rightarrow> request_body \<times> (request_body_error + bytes)" where
  "read_incoming [] buf b =
     (case premature b of
        Some declared \<Rightarrow> (fail_body b, Inl (PrematureEof (rb_received b) (Some declared)))
      | None \<Rightarrow> finish buf b)"
| "read_incoming (PendingEvent # s) buf b = read_incoming s buf b"
| "read_incoming (StreamError e # s) buf b = (fail_body b, Inl (TransportError e))"
| "read_incoming (Chunk chunk # s) buf b =
     (case accept_chunk chunk b of
        (b, Inl e) \<Rightarrow> (b, Inl e)
      | (b, Inr c) \<Rightarrow> read_incoming s (buf @ c) b)"

text \<open>Dropping the body: an incomplete network body is abandoned.\<close>

definition drop_body :: "request_body \<Rightarrow> request_body" where
  [rust_eval]: "drop_body b =
     (if \<not> is_body_active (rb_shared b) then b
      else case rb_inner b of
        Some (Incoming _) \<Rightarrow> b\<lparr>rb_shared := fst (mark_abandoned (rb_shared b))\<rparr>
      | _ \<Rightarrow> b)"

text \<open>\<open>read_all\<close> before the drop of the body at its end; \<^verbatim>\<open>inner\<close> has been taken out.\<close>

definition read_all_inner ::
  "(nat \<Rightarrow> bool) \<Rightarrow> request_body \<Rightarrow> request_body \<times> (request_body_error + bytes)" where
  [rust_eval]: "read_all_inner reserve_ok b =
     (if rb_state b = CompleteState \<or> rb_state b = ErrorState then (b, Inl AlreadyConsumed)
      else if rb_state b = Streaming then (b, Inl MixedConsumptionMode)
      else case rb_inner b of
        None \<Rightarrow> (b, Inl AlreadyConsumed)
      | Some inner \<Rightarrow>
          let b = b\<lparr>rb_inner := None\<rparr> in
          (case inner of
             EmptyInner \<Rightarrow> finish [] b
           | Fixed data offset \<Rightarrow>
               (case checked_add_len (rb_received b) (length (drop offset data)) of
                  None \<Rightarrow> (b, Inl (LimitExceeded (rb_max b) u64_max))
                | Some sum_len \<Rightarrow>
                    if sum_len > rb_max b then (fail_body b, Inl (LimitExceeded (rb_max b) sum_len))
                    else finish (drop offset data) (b\<lparr>rb_received := sum_len\<rparr>))
           | Incoming stream \<Rightarrow>
               (case rb_declared b of
                  Some declared \<Rightarrow>
                    (let reserve = min declared (rb_max b) in
                     if reserve > 0 \<and> \<not> reserve_ok (unat reserve)
                     then (fail_body b, Inl (LimitExceeded (rb_max b) reserve))
                     else read_incoming stream [] b)
                | None \<Rightarrow> read_incoming stream [] b)))"

definition read_all ::
  "(nat \<Rightarrow> bool) \<Rightarrow> request_body \<Rightarrow> request_body \<times> (request_body_error + bytes)" where
  [rust_eval]: "read_all reserve_ok b =
     (let (b, r) = read_all_inner reserve_ok b in (drop_body b, r))"

section \<open>Reading chunk by chunk\<close>

fun stream_next :: "stream_event list \<Rightarrow> (string + bytes) option \<times> stream_event list" where
  "stream_next [] = (None, [])"
| "stream_next (PendingEvent # s) = stream_next s"
| "stream_next (Chunk c # s) = (Some (Inr c), s)"
| "stream_next (StreamError e # s) = (Some (Inl e), s)"

definition chunk_step :: nat where
  [rust_eval]: "chunk_step = 8192"

text \<open>The slot is created at the end of a network stream if nobody asked for it before.\<close>

definition init_wire :: "request_body \<Rightarrow> request_body" where
  [rust_eval]: "init_wire b = (if rb_wire b = None then b\<lparr>rb_wire := Some None\<rparr> else b)"

definition next_fixed ::
  "bytes \<Rightarrow> nat \<Rightarrow> request_body \<Rightarrow> request_body \<times> (request_body_error + bytes option)" where
  [rust_eval]: "next_fixed data offset b =
     (if length data \<le> offset then finish None b
      else
        let chunk = take chunk_step (drop offset data) in
        (case checked_add_len (rb_received b) (length chunk) of
           None \<Rightarrow> (b, Inl (LimitExceeded (rb_max b) u64_max))
         | Some new_total \<Rightarrow>
             if new_total > rb_max b then (fail_body b, Inl (LimitExceeded (rb_max b) new_total))
             else
               let offset = offset + length chunk;
                   b = b\<lparr>rb_inner := Some (Fixed data offset), rb_received := new_total\<rparr>
               in if length data \<le> offset then finish (Some chunk) b else (b, Inr (Some chunk))))"

definition end_of_stream :: "request_body \<Rightarrow> request_body \<times> (request_body_error + 'a option)" where
  [rust_eval]: "end_of_stream b =
     (case premature b of
        Some declared \<Rightarrow> (fail_body b, Inl (PrematureEof (rb_received b) (Some declared)))
      | None \<Rightarrow> finish None (init_wire b))"

definition next_incoming ::
  "stream_event list \<Rightarrow> request_body \<Rightarrow> request_body \<times> (request_body_error + bytes option)" where
  [rust_eval]: "next_incoming stream b =
     (let (item, rest) = stream_next stream; b = b\<lparr>rb_inner := Some (Incoming rest)\<rparr> in
      case item of
        Some (Inr chunk) \<Rightarrow> (case accept_chunk chunk b of (b, r) \<Rightarrow> (b, map_sum id Some r))
      | Some (Inl e) \<Rightarrow> (fail_body b, Inl (TransportError e))
      | None \<Rightarrow> end_of_stream b)"

definition start_streaming :: "request_body \<Rightarrow> request_body" where
  [rust_eval]: "start_streaming b = (if rb_state b = Unread then b\<lparr>rb_state := Streaming\<rparr> else b)"

definition next_chunk :: "request_body \<Rightarrow> request_body \<times> (request_body_error + bytes option)" where
  [rust_eval]: "next_chunk b =
     (if rb_state b = ErrorState then (b, Inl AlreadyConsumed)
      else if rb_state b = CompleteState then (b, Inr None)
      else
        let b = start_streaming b in
        case rb_inner b of
          None \<Rightarrow> (b, Inl AlreadyConsumed)
        | Some EmptyInner \<Rightarrow> finish None b
        | Some (Fixed data offset) \<Rightarrow> next_fixed data offset b
        | Some (Incoming stream) \<Rightarrow> next_incoming stream b)"

definition body_trailers :: "request_body \<Rightarrow> request_body_error + trailers option" where
  [rust_eval]: "body_trailers b =
     (case rb_trailer_error b of
        Some msg \<Rightarrow> Inl (InvalidTrailers msg)
      | None \<Rightarrow> if rb_state b \<noteq> CompleteState then Inl TrailersNotReady else Inr (rb_trailers b))"

definition take_completed_trailers :: "request_body \<Rightarrow> request_body \<times> trailers option" where
  [rust_eval]: "take_completed_trailers b =
     (if rb_state b \<noteq> CompleteState \<or> rb_trailer_error b \<noteq> None then (b, None)
      else (b\<lparr>rb_trailers := None\<rparr>, rb_trailers b))"

text \<open>What is left to read: the loop over \<^verbatim>\<open>next_chunk\<close> ends because every chunk makes it smaller.\<close>

fun body_size :: "body_inner option \<Rightarrow> nat" where
  "body_size (Some (Incoming s)) = length s"
| "body_size (Some (Fixed data offset)) = length data - offset"
| "body_size _ = 0"

lemma stream_next_length: "stream_next s = (Some i, rest) \<Longrightarrow> length rest < length s"
  by (induction s rule: stream_next.induct) auto

lemma finish_inner [simp]: "rb_inner (fst (finish x b)) = rb_inner b"
  by (auto simp: finish_def finalize_trailers_def finalize_wire_slot_def complete_body_def fail_body_def Let_def
      split: option.splits sum.splits prod.splits if_splits)

lemma accept_chunk_inner [simp]: "rb_inner (fst (accept_chunk c b)) = rb_inner b"
  by (auto simp: accept_chunk_def fail_body_def split: option.splits)

lemma finish_innerD: "finish x b = (b', r) \<Longrightarrow> rb_inner b' = rb_inner b"
  using finish_inner [of x b] by simp

lemma accept_chunk_innerD: "accept_chunk c b = (b', r) \<Longrightarrow> rb_inner b' = rb_inner b"
  using accept_chunk_inner [of c b] by simp

lemma finish_Inr: "finish x b = (b', Inr y) \<Longrightarrow> y = x"
  by (auto simp: finish_def split: prod.splits sum.splits)

lemma next_fixed_smaller:
  assumes "next_fixed data offset b = (b', Inr (Some c))"
  shows "body_size (rb_inner b') < length data - offset"
proof -
  have lt: "offset < length data"
    using assms finish_Inr [of None b b' "Some c"] by (auto simp: next_fixed_def split: if_splits)
  define chunk where "chunk = take chunk_step (drop offset data)"
  have "length chunk > 0" using lt by (simp add: chunk_def chunk_step_def)
  moreover have "rb_inner (fst (next_fixed data offset b)) = Some (Fixed data (offset + length chunk))"
    using assms lt unfolding next_fixed_def chunk_def [symmetric] Let_def
    by (auto split: option.splits if_splits dest: finish_innerD)
  ultimately show ?thesis using lt assms by (cases chunk) auto
qed

lemma next_incoming_smaller:
  assumes "next_incoming stream b = (b', Inr (Some c))"
  shows "body_size (rb_inner b') < length stream"
proof -
  obtain item rest where s: "stream_next stream = (item, rest)" by fastforce
  let ?b = "b\<lparr>rb_inner := Some (Incoming rest)\<rparr>"
  show ?thesis
  proof (cases item)
    case None
    then show ?thesis
      using assms s finish_Inr [of None _ b' "Some c"]
      by (auto simp: next_incoming_def end_of_stream_def Let_def split: option.splits)
  next
    case (Some i)
    then show ?thesis
      using assms s stream_next_length [of stream i rest]
      by (auto simp: next_incoming_def Let_def split: sum.splits prod.splits dest: accept_chunk_innerD)
  qed
qed

lemma start_streaming_fields [simp]:
  "rb_inner (start_streaming b) = rb_inner b" "rb_received (start_streaming b) = rb_received b"
  "rb_max (start_streaming b) = rb_max b" "rb_declared (start_streaming b) = rb_declared b"
  "rb_shared (start_streaming b) = rb_shared b"
  by (simp_all add: start_streaming_def)

lemma next_chunk_smaller:
  assumes "next_chunk b = (b', Inr (Some c))"
  shows "body_size (rb_inner b') < body_size (rb_inner b)"
  using assms next_fixed_smaller next_incoming_smaller finish_Inr [of None _ b' "Some c"]
  by (auto simp: next_chunk_def Let_def split: if_splits option.splits body_inner.splits)

text \<open>The loop of \<^verbatim>\<open>read_all_with_trailers\<close>.\<close>

function read_chunks :: "bytes \<Rightarrow> request_body \<Rightarrow> request_body \<times> (request_body_error + bytes)" where
  "read_chunks buf b =
     (case next_chunk b of
        (b', Inl e) \<Rightarrow> (b', Inl e)
      | (b', Inr None) \<Rightarrow> (b', Inr buf)
      | (b', Inr (Some chunk)) \<Rightarrow> read_chunks (buf @ chunk) b')"
  by pat_completeness auto
termination
  by (relation "measure (\<lambda>(buf, b). body_size (rb_inner b))") (auto dest!: next_chunk_smaller [OF sym])

declare read_chunks.simps [simp del, rust_eval]

definition read_all_with_trailers ::
  "request_body \<Rightarrow> request_body \<times> (request_body_error + bytes \<times> trailers option)" where
  [rust_eval]: "read_all_with_trailers b =
     (if rb_state b = CompleteState \<or> rb_state b = ErrorState then (drop_body b, Inl AlreadyConsumed)
      else if rb_state b = Streaming then (drop_body b, Inl MixedConsumptionMode)
      else if rb_inner b = None then (drop_body b, Inl AlreadyConsumed)
      else case read_chunks [] b of
        (b, Inl e) \<Rightarrow> (drop_body b, Inl e)
      | (b, Inr buf) \<Rightarrow>
          (case rb_trailer_error b of
             Some msg \<Rightarrow> (drop_body b, Inl (InvalidTrailers msg))
           | None \<Rightarrow> (drop_body b, Inr (buf, rb_trailers b))))"

section \<open>The stream interface\<close>

datatype body_poll = PollPending | PollReady "(request_body_error + bytes) option"

definition poll_finish :: "request_body \<Rightarrow> request_body \<times> body_poll" where
  [rust_eval]: "poll_finish b =
     (case finalize_trailers (init_wire b) of
        (b, Inl e) \<Rightarrow> (b, PollReady (Some (Inl e)))
      | (b, Inr _) \<Rightarrow> (complete_body b, PollReady None))"

text \<open>Unlike \<^verbatim>\<open>next_chunk\<close>, an overflow fails the body here, and the last chunk of an in-memory body
  completes it without looking at the trailer slot.\<close>

definition poll_fixed :: "bytes \<Rightarrow> nat \<Rightarrow> request_body \<Rightarrow> request_body \<times> body_poll" where
  [rust_eval]: "poll_fixed data offset b =
     (if length data \<le> offset then poll_finish b
      else
        let chunk = take chunk_step (drop offset data) in
        (case checked_add_len (rb_received b) (length chunk) of
           None \<Rightarrow> (fail_body b, PollReady (Some (Inl (LimitExceeded (rb_max b) u64_max))))
         | Some new_total \<Rightarrow>
             if new_total > rb_max b then
               (fail_body b, PollReady (Some (Inl (LimitExceeded (rb_max b) new_total))))
             else
               let new_offset = offset + length chunk;
                   b = start_streaming (b\<lparr>rb_inner := Some (Fixed data new_offset), rb_received := new_total\<rparr>)
               in (if length data \<le> new_offset then complete_body b else b, PollReady (Some (Inr chunk)))))"

definition poll_incoming :: "stream_event list \<Rightarrow> request_body \<Rightarrow> request_body \<times> body_poll" where
  [rust_eval]: "poll_incoming stream b =
     (case stream of
        PendingEvent # rest \<Rightarrow> (b\<lparr>rb_inner := Some (Incoming rest)\<rparr>, PollPending)
      | Chunk chunk # rest \<Rightarrow>
          let b = b\<lparr>rb_inner := Some (Incoming rest)\<rparr> in
          (case checked_add_len (rb_received b) (length chunk) of
             None \<Rightarrow> (fail_body b, PollReady (Some (Inl (LimitExceeded (rb_max b) u64_max))))
           | Some new_total \<Rightarrow>
               if new_total > rb_max b then
                 (fail_body b, PollReady (Some (Inl (LimitExceeded (rb_max b) new_total))))
               else
                 (case rb_declared b of
                    Some declared \<Rightarrow>
                      if new_total > declared then
                        (fail_body b, PollReady (Some (Inl (LengthMismatch declared new_total))))
                      else (start_streaming (b\<lparr>rb_received := new_total\<rparr>), PollReady (Some (Inr chunk)))
                  | None \<Rightarrow> (start_streaming (b\<lparr>rb_received := new_total\<rparr>), PollReady (Some (Inr chunk)))))
      | StreamError e # rest \<Rightarrow>
          (fail_body (b\<lparr>rb_inner := Some (Incoming rest)\<rparr>), PollReady (Some (Inl (TransportError e))))
      | [] \<Rightarrow>
          (case premature b of
             Some declared \<Rightarrow>
               (fail_body b, PollReady (Some (Inl (PrematureEof (rb_received b) (Some declared)))))
           | None \<Rightarrow> poll_finish b))"

definition poll_next :: "request_body \<Rightarrow> request_body \<times> body_poll" where
  [rust_eval]: "poll_next b =
     (if rb_state b = CompleteState \<or> rb_state b = ErrorState then (b, PollReady None)
      else case rb_inner b of
        None \<Rightarrow> (b, PollReady None)
      | Some EmptyInner \<Rightarrow> poll_finish b
      | Some (Fixed data offset) \<Rightarrow> poll_fixed data offset b
      | Some (Incoming stream) \<Rightarrow> poll_incoming stream b)"

section \<open>Lemmas\<close>

text \<open>What the trailer slot will contribute at the end.\<close>

definition trailers_result :: "request_body \<Rightarrow> string + trailers option" where
  "trailers_result b =
     (case rb_wire b of
        None \<Rightarrow> Inr (rb_trailers b)
      | Some slot \<Rightarrow>
          (case drain_and_validate_wire_slot slot (rb_tlimits b) of
             Inl msg \<Rightarrow> Inl msg
           | Inr None \<Rightarrow> Inr (rb_trailers b)
           | Inr (Some t) \<Rightarrow> if rb_trailers b \<noteq> None then Inl ''repeated trailer block'' else Inr (Some t)))"

abbreviation emptied :: "request_body \<Rightarrow> request_body" where
  "emptied b \<equiv> b\<lparr>rb_wire := map_option (\<lambda>_. None) (rb_wire b)\<rparr>"

lemma finalize_trailers_char:
  "finalize_trailers b =
     (case trailers_result b of
        Inr t \<Rightarrow> ((emptied b)\<lparr>rb_trailers := t\<rparr>, Inr ())
      | Inl msg \<Rightarrow> (fail_body ((emptied b)\<lparr>rb_trailer_error := Some msg\<rparr>), Inl (InvalidTrailers msg)))"
  by (cases "rb_wire b")
    (auto simp: finalize_trailers_def finalize_wire_slot_def trailers_result_def Let_def
      split: sum.splits option.splits)

lemma finish_char:
  "finish x b =
     (case trailers_result b of
        Inr t \<Rightarrow> (complete_body ((emptied b)\<lparr>rb_trailers := t\<rparr>), Inr x)
      | Inl msg \<Rightarrow> (fail_body ((emptied b)\<lparr>rb_trailer_error := Some msg\<rparr>), Inl (InvalidTrailers msg)))"
  by (simp add: finish_def finalize_trailers_char split: sum.splits)

lemma trailers_result_cong:
  "rb_wire b = rb_wire b' \<or> (rb_wire b = None \<and> rb_wire b' = Some None) \<Longrightarrow> rb_tlimits b = rb_tlimits b' \<Longrightarrow>
   rb_trailers b = rb_trailers b' \<Longrightarrow> trailers_result b = trailers_result b'"
  by (elim disjE)
    (simp_all add: trailers_result_def drain_and_validate_wire_slot_def cong: option.case_cong sum.case_cong)

lemma body_ended [simp]:
  "rb_state (fail_body b) = ErrorState" "\<not> is_body_active (rb_shared (fail_body b))"
  "rb_state (complete_body b) = CompleteState" "\<not> is_body_active (rb_shared (complete_body b))"
  using apply_event_leaves_active [of EFail] apply_event_leaves_active [of EComplete]
  by (simp_all add: fail_body_def complete_body_def)

lemma body_ended_shared:
  "rb_shared (fail_body b) = fst (mark_failed (rb_shared b))"
  "rb_shared (complete_body b) = fst (mark_complete (rb_shared b))"
  by (simp_all add: fail_body_def complete_body_def)

lemma body_ended_fields [simp]:
  "rb_inner (fail_body b) = rb_inner b" "rb_declared (fail_body b) = rb_declared b"
  "rb_received (fail_body b) = rb_received b" "rb_max (fail_body b) = rb_max b"
  "rb_trailers (fail_body b) = rb_trailers b" "rb_trailer_error (fail_body b) = rb_trailer_error b"
  "rb_inner (complete_body b) = rb_inner b" "rb_declared (complete_body b) = rb_declared b"
  "rb_received (complete_body b) = rb_received b" "rb_max (complete_body b) = rb_max b"
  "rb_trailers (complete_body b) = rb_trailers b" "rb_trailer_error (complete_body b) = rb_trailer_error b"
  by (simp_all add: fail_body_def complete_body_def)

lemma drop_ended: "\<not> is_body_active (rb_shared b) \<Longrightarrow> drop_body b = b"
  by (simp add: drop_body_def)

fun stream_bytes :: "stream_event list \<Rightarrow> bytes" where
  "stream_bytes [] = []"
| "stream_bytes (Chunk c # s) = c @ stream_bytes s"
| "stream_bytes (_ # s) = stream_bytes s"

fun stream_clean :: "stream_event list \<Rightarrow> bool" where
  "stream_clean [] = True"
| "stream_clean (StreamError _ # s) = False"
| "stream_clean (_ # s) = stream_clean s"

text \<open>The accounting keeps the number of received bytes below both bounds.\<close>

definition received_ok :: "request_body \<Rightarrow> bool" where
  "received_ok b \<longleftrightarrow> rb_received b \<le> rb_max b \<and> (\<forall>d. rb_declared b = Some d \<longrightarrow> rb_received b \<le> d)"

lemma accept_chunk_cases:
  obtains (overflow) "2 ^ 64 \<le> unat (rb_received b) + length c"
      "accept_chunk c b = (b, Inl (LimitExceeded (rb_max b) u64_max))"
  | (refused) e where "accept_chunk c b = (fail_body b, Inl e)"
      "unat (rb_max b) < unat (rb_received b) + length c
       \<or> (\<exists>d. rb_declared b = Some d \<and> unat d < unat (rb_received b) + length c)"
  | (accepted) n where "accept_chunk c b = (b\<lparr>rb_received := n\<rparr>, Inr c)"
      "unat n = unat (rb_received b) + length c" "received_ok (b\<lparr>rb_received := n\<rparr>)"
proof (cases "checked_add_len (rb_received b) (length c)")
  case None
  then show ?thesis
    using overflow by (auto simp: accept_chunk_def checked_add_len_def split: if_splits)
next
  case (Some n)
  note n = checked_add_len_SomeD [OF Some]
  show ?thesis
  proof (cases "n > rb_max b \<or> (\<exists>d. rb_declared b = Some d \<and> n > d)")
    case True
    then obtain e where "accept_chunk c b = (fail_body b, Inl e)"
      using Some by (cases "n > rb_max b"; cases "rb_declared b") (auto simp: accept_chunk_def)
    with True show ?thesis using refused n by (auto simp: word_less_nat_alt)
  next
    case False
    then show ?thesis
      using accepted [of n] Some n
      by (cases "rb_declared b") (auto simp: accept_chunk_def received_ok_def not_less)
  qed
qed

lemma accept_chunk_iff:
  "snd (accept_chunk c b) = Inr c' \<longleftrightarrow>
   c' = c \<and> unat (rb_received b) + length c \<le> unat (rb_max b)
   \<and> (\<forall>d. rb_declared b = Some d \<longrightarrow> unat (rb_received b) + length c \<le> unat d)"
  using unat_u64_less [of "rb_max b"]
  by (cases rule: accept_chunk_cases [of b c])
    (auto simp: received_ok_def word_le_nat_alt)

lemma read_incoming_iff:
  assumes "received_ok b"
  shows "snd (read_incoming s buf b) = Inr data \<longleftrightarrow>
    stream_clean s \<and> data = buf @ stream_bytes s
    \<and> unat (rb_received b) + length (stream_bytes s) \<le> unat (rb_max b)
    \<and> (\<forall>d. rb_declared b = Some d \<longrightarrow> unat (rb_received b) + length (stream_bytes s) = unat d)
    \<and> (\<exists>t. trailers_result b = Inr t)"
  using assms
proof (induction s arbitrary: buf b)
  case Nil
  then show ?case
    by (cases "rb_declared b")
      (auto simp: premature_def finish_char received_ok_def word_le_nat_alt word_less_nat_alt split: sum.splits)
next
  case (Cons e s)
  show ?case
  proof (cases e)
    case (Chunk chunk)
    show ?thesis
    proof (cases rule: accept_chunk_cases [of b chunk])
      case overflow
      then show ?thesis using unat_u64_less [of "rb_max b"] Chunk by auto
    next
      case (accepted n)
      have "trailers_result (b\<lparr>rb_received := n\<rparr>) = trailers_result b"
        by (rule trailers_result_cong) simp_all
      then show ?thesis
        using Cons.IH [OF accepted(3), of "buf @ chunk"] accepted Chunk by (auto simp: add.assoc)
    qed (use Chunk in auto)
  qed (use Cons in auto)
qed

lemma read_incoming_ended:
  "unat (rb_received b) + length (stream_bytes s) < 2 ^ 64 \<Longrightarrow>
   \<not> is_body_active (rb_shared (fst (read_incoming s buf b)))"
proof (induction s arbitrary: buf b)
  case Nil
  then show ?case by (auto simp: finish_char split: option.splits sum.splits)
next
  case (Cons e s)
  show ?case
  proof (cases e)
    case (Chunk chunk)
    show ?thesis
    proof (cases rule: accept_chunk_cases [of b chunk])
      case (accepted n)
      then show ?thesis
        using Cons.IH [of "b\<lparr>rb_received := n\<rparr>" "buf @ chunk"] Cons.prems Chunk by (simp add: add.assoc)
    qed (use Cons.prems Chunk in auto)
  qed (use Cons in auto)
qed

lemma premature_cong:
  "rb_declared b = rb_declared b' \<Longrightarrow> rb_received b = rb_received b' \<Longrightarrow> premature b = premature b'"
  by (simp add: premature_def cong: option.case_cong)

text \<open>The two ways of reading see the same accounting; they differ in the stream and the state.\<close>

definition same_account :: "request_body \<Rightarrow> request_body \<Rightarrow> bool" where
  "same_account b0 b \<longleftrightarrow>
     rb_declared b0 = rb_declared b \<and> rb_received b0 = rb_received b \<and> rb_max b0 = rb_max b
     \<and> rb_shared b0 = rb_shared b \<and> rb_tlimits b0 = rb_tlimits b \<and> rb_trailers b0 = rb_trailers b
     \<and> rb_trailer_error b0 = rb_trailer_error b \<and> rb_wire b0 = rb_wire b"

definition open_state :: "request_body \<Rightarrow> bool" where
  "open_state b \<longleftrightarrow> rb_state b = Unread \<or> rb_state b = Streaming"

lemma next_chunk_incoming:
  "open_state b \<Longrightarrow> rb_inner b = Some (Incoming s) \<Longrightarrow> next_chunk b = next_incoming s (start_streaming b)"
  by (auto simp: next_chunk_def open_state_def)

lemma start_streaming_account:
  "same_account b0 b \<Longrightarrow> same_account b0 ((start_streaming b)\<lparr>rb_inner := i\<rparr>)"
  by (simp add: same_account_def start_streaming_def)

lemma accept_chunk_account:
  assumes "same_account b0 b"
  shows "snd (accept_chunk c b0) = snd (accept_chunk c b)"
    and "rb_shared (fst (accept_chunk c b0)) = rb_shared (fst (accept_chunk c b))"
    and "snd (accept_chunk c b) = Inr c' \<Longrightarrow> same_account (fst (accept_chunk c b0)) (fst (accept_chunk c b))"
proof -
  have eq: "rb_declared b0 = rb_declared b" "rb_received b0 = rb_received b" "rb_max b0 = rb_max b"
    "rb_shared b0 = rb_shared b"
    using assms by (simp_all add: same_account_def)
  show "snd (accept_chunk c b0) = snd (accept_chunk c b)"
    "rb_shared (fst (accept_chunk c b0)) = rb_shared (fst (accept_chunk c b))"
    unfolding accept_chunk_def eq by (auto simp: eq body_ended_shared split: option.splits)
  show "same_account (fst (accept_chunk c b0)) (fst (accept_chunk c b))"
    if "snd (accept_chunk c b) = Inr c'"
    using that assms unfolding accept_chunk_def eq
    by (auto simp: same_account_def split: option.splits if_splits)
qed

lemma end_of_stream_account:
  assumes "same_account b0 b"
  shows "\<exists>b0' b' r. read_incoming [] buf b0 = (b0', r) \<and> end_of_stream b = (b', map_sum id (\<lambda>_. None) r)
    \<and> rb_shared b0' = rb_shared b'
    \<and> (\<forall>x. r = Inr x \<longrightarrow> x = buf \<and> rb_trailer_error b' = rb_trailer_error b0)"
proof -
  have eq: "rb_declared b0 = rb_declared b" "rb_received b0 = rb_received b" "rb_shared b0 = rb_shared b"
    "rb_trailer_error b0 = rb_trailer_error b"
    using assms by (simp_all add: same_account_def)
  have "premature b0 = premature b" by (rule premature_cong) (simp_all add: eq)
  moreover have "trailers_result b0 = trailers_result (init_wire b)"
    using assms by (intro trailers_result_cong) (auto simp: same_account_def init_wire_def)
  moreover have "rb_shared (init_wire b) = rb_shared b0" "rb_trailer_error (init_wire b) = rb_trailer_error b0"
    by (simp_all add: init_wire_def eq)
  ultimately show ?thesis
    by (cases "premature b"; cases "trailers_result (init_wire b)")
      (auto simp: end_of_stream_def finish_char body_ended_shared eq)
qed

lemma read_chunks_incoming:
  assumes "same_account b0 b" and "rb_inner b = Some (Incoming s)" and "open_state b"
  shows "\<exists>b0' b' r. read_incoming s buf b0 = (b0', r) \<and> read_chunks buf b = (b', r)
    \<and> rb_shared b0' = rb_shared b'
    \<and> ((\<exists>x. r = Inr x) \<longrightarrow> rb_trailer_error b' = rb_trailer_error b0)"
  using assms
proof (induction s arbitrary: buf b0 b)
  case Nil
  have "same_account b0 ((start_streaming b)\<lparr>rb_inner := Some (Incoming [])\<rparr>)"
    using Nil.prems(1) by (rule start_streaming_account)
  from end_of_stream_account [OF this, of buf] obtain b0' b' r where
    r: "read_incoming [] buf b0 = (b0', r)" "rb_shared b0' = rb_shared b'"
      "\<forall>x. r = Inr x \<longrightarrow> x = buf \<and> rb_trailer_error b' = rb_trailer_error b0"
    and e: "end_of_stream ((start_streaming b)\<lparr>rb_inner := Some (Incoming [])\<rparr>) =
      (b', map_sum id (\<lambda>_. None :: bytes option) r)"
    by blast
  have "next_chunk b = (b', map_sum id (\<lambda>_. None) r)"
    using e Nil.prems by (simp add: next_chunk_incoming next_incoming_def Let_def)
  then have "read_chunks buf b = (b', r)"
    using r(3) by (cases r) (auto simp: read_chunks.simps [of buf b])
  with r show ?case by blast
next
  case (Cons e s)
  let ?b = "(start_streaming b)\<lparr>rb_inner := Some (Incoming s)\<rparr>"
  have acc: "same_account b0 ?b" using Cons.prems(1) by (rule start_streaming_account)
  have "open_state ?b" using Cons.prems(3) by (auto simp: open_state_def start_streaming_def)
  show ?case
  proof (cases e)
    case PendingEvent
    have "next_chunk b = next_chunk ?b"
      using Cons.prems \<open>open_state ?b\<close> PendingEvent
      by (simp add: next_chunk_incoming next_incoming_def start_streaming_def)
    then have "read_chunks buf b = read_chunks buf ?b"
      by (simp add: read_chunks.simps [of buf b] read_chunks.simps [of buf ?b])
    then show ?thesis
      using Cons.IH [OF acc _ \<open>open_state ?b\<close>, of buf] PendingEvent by simp
  next
    case (StreamError m)
    have "next_chunk b = (fail_body ?b, Inl (TransportError m))"
      using Cons.prems StreamError by (simp add: next_chunk_incoming next_incoming_def Let_def)
    then show ?thesis
      using acc StreamError by (simp add: read_chunks.simps [of buf b] body_ended_shared same_account_def)
  next
    case (Chunk c)
    obtain b1 r1 where a: "accept_chunk c ?b = (b1, r1)" by fastforce
    obtain b2 where a0: "accept_chunk c b0 = (b2, r1)" and sh: "rb_shared b2 = rb_shared b1"
      using accept_chunk_account(1,2) [OF acc, of c] a by (cases "accept_chunk c b0") auto
    have step: "next_chunk b = (b1, map_sum id Some r1)"
      using Cons.prems Chunk a by (simp add: next_chunk_incoming next_incoming_def Let_def)
    show ?thesis
    proof (cases r1)
      case (Inl m)
      then show ?thesis
        using step a0 sh Chunk by (simp add: read_chunks.simps [of buf b])
    next
      case (Inr c')
      then have acc': "same_account b2 b1"
        using accept_chunk_account(3) [OF acc, of c c'] a a0 by simp
      have "rb_state b1 = rb_state ?b" "rb_inner b1 = rb_inner ?b"
        using a Inr by (cases rule: accept_chunk_cases [of ?b c]; simp)+
      then have "open_state b1" "rb_inner b1 = Some (Incoming s)"
        using \<open>open_state ?b\<close> by (simp_all add: open_state_def)
      moreover have "rb_trailer_error b2 = rb_trailer_error b0"
        using a0 Inr by (cases rule: accept_chunk_cases [of b0 c]) auto
      ultimately show ?thesis
        using Cons.IH [OF acc', of "buf @ c'"] step a0 Chunk Inr
        by (simp add: read_chunks.simps [of buf b])
    qed
  qed
qed

section \<open>Any mixture of the two streaming interfaces\<close>

definition as_poll :: "request_body_error + bytes option \<Rightarrow> body_poll" where
  "as_poll r = PollReady (case r of Inl e \<Rightarrow> Some (Inl e) | Inr None \<Rightarrow> None | Inr (Some c) \<Rightarrow> Some (Inr c))"

lemma ended_start_streaming:
  "fail_body ((start_streaming b)\<lparr>rb_inner := i\<rparr>) = fail_body (b\<lparr>rb_inner := i\<rparr>)"
  by (simp add: fail_body_def start_streaming_def)

lemma poll_finish_start_streaming:
  assumes "rb_inner b = i"
  shows "finish None (init_wire ((start_streaming b)\<lparr>rb_inner := i\<rparr>)) = (b', r) \<Longrightarrow>
    poll_finish b = (b', as_poll r)"
proof -
  let ?b = "init_wire ((start_streaming b)\<lparr>rb_inner := i\<rparr>)"
  have "trailers_result ?b = trailers_result (init_wire b)"
    by (rule trailers_result_cong) (simp_all add: init_wire_def start_streaming_def)
  moreover have "complete_body ((emptied ?b)\<lparr>rb_trailers := t\<rparr>) =
      complete_body ((emptied (init_wire b))\<lparr>rb_trailers := t\<rparr>)" for t
    using assms by (auto simp: complete_body_def init_wire_def start_streaming_def)
  moreover have "fail_body ((emptied ?b)\<lparr>rb_trailer_error := m\<rparr>) =
      fail_body ((emptied (init_wire b))\<lparr>rb_trailer_error := m\<rparr>)" for m
    using assms by (auto simp: fail_body_def init_wire_def start_streaming_def)
  ultimately show "finish None ?b = (b', r) \<Longrightarrow> poll_finish b = (b', as_poll r)"
    by (cases "trailers_result (init_wire b)")
      (auto simp: finish_char poll_finish_def finalize_trailers_char as_poll_def)
qed

lemma poll_next_agrees:
  assumes "open_state b" and "rb_inner b = Some (Incoming s)" and "s = [] \<or> hd s \<noteq> PendingEvent"
    and "unat (rb_received b) + length (stream_bytes s) < 2 ^ 64"
  shows "poll_next b = (fst (next_chunk b), as_poll (snd (next_chunk b)))"
proof -
  have poll: "poll_next b = poll_incoming s b"
    using assms(1,2) by (auto simp: poll_next_def open_state_def)
  have chunk: "next_chunk b = next_incoming s (start_streaming b)"
    using assms(1,2) by (rule next_chunk_incoming)
  let ?b = "\<lambda>rest. (start_streaming b)\<lparr>rb_inner := Some (Incoming rest)\<rparr>"
  show ?thesis
  proof (cases s)
    case Nil
    have self: "b\<lparr>rb_inner := Some (Incoming [])\<rparr> = b" using assms(2) Nil by simp
    have prem: "premature (?b []) = premature b" "rb_received (?b []) = rb_received b"
      by (rule premature_cong) (simp_all add: start_streaming_def)
    obtain b' r where f: "finish (None :: bytes option) (init_wire (?b [])) = (b', r)" by fastforce
    from poll_finish_start_streaming [OF _ f] assms(2) Nil have "poll_finish b = (b', as_poll r)" by simp
    then show ?thesis
      using f ended_start_streaming [of "Some (Incoming [])" b] self
      by (cases "premature b")
        (simp_all add: poll chunk Nil poll_incoming_def next_incoming_def end_of_stream_def prem as_poll_def Let_def)
  next
    case (Cons e rest)
    show ?thesis
    proof (cases e)
      case PendingEvent
      then show ?thesis using assms(3) Cons by simp
    next
      case (StreamError m)
      then show ?thesis
        using ended_start_streaming [of "Some (Incoming rest)" b]
        by (simp add: poll chunk Cons poll_incoming_def next_incoming_def as_poll_def Let_def)
    next
      case (Chunk c)
      obtain n where n: "checked_add_len (rb_received b) (length c) = Some n"
        using assms(4) Cons Chunk by (auto simp: checked_add_len_def)
      have st: "start_streaming (b\<lparr>rb_inner := i, rb_received := n\<rparr>) = (start_streaming b)\<lparr>rb_inner := i, rb_received := n\<rparr>" for i
        by (simp add: start_streaming_def)
      show ?thesis
        using ended_start_streaming [of "Some (Incoming rest)" b] n
        by (cases "rb_declared b")
          (auto simp: poll chunk Cons Chunk poll_incoming_def next_incoming_def accept_chunk_def st
            as_poll_def Let_def)
    qed
  qed
qed

definition same_shape :: "request_body \<Rightarrow> request_body \<Rightarrow> bool" where
  "same_shape b' b \<longleftrightarrow> rb_declared b' = rb_declared b \<and> rb_received b' = rb_received b \<and> rb_max b' = rb_max b
     \<and> rb_shared b' = rb_shared b \<and> (\<exists>rest. rb_inner b' = Some (Incoming rest))"

lemma stream_next_Chunk: "stream_next s = (Some (Inr c), rest) \<Longrightarrow> stream_bytes s = c @ stream_bytes rest"
  by (induction s rule: stream_next.induct) auto

lemma stream_next_None: "stream_next s = (None, rest) \<Longrightarrow> stream_bytes s = []"
  by (induction s rule: stream_next.induct) auto

text \<open>What one call does to a network body, as far as the accounting is concerned.\<close>

lemma next_chunk_network:
  assumes "open_state b" and "rb_inner b = Some (Incoming s)"
    and "unat (rb_received b) + length (stream_bytes s) < 2 ^ 64"
  obtains (chunk) c rest n where "next_chunk b =
        ((start_streaming b)\<lparr>rb_inner := Some (Incoming rest), rb_received := n\<rparr>, Inr (Some c))"
      "stream_bytes s = c @ stream_bytes rest" "unat n = unat (rb_received b) + length c"
      "received_ok (b\<lparr>rb_received := n\<rparr>)"
  | (ended) b' where "next_chunk b = (complete_body b', Inr None)" "stream_bytes s = []"
      "premature b = None" "same_shape b' b" 
  | (failed) b' e where "next_chunk b = (fail_body b', Inl e)" "same_shape b' b"
proof -
  obtain item rest where s: "stream_next s = (item, rest)" by fastforce
  let ?b = "(start_streaming b)\<lparr>rb_inner := Some (Incoming rest)\<rparr>"
  have eq: "rb_received ?b = rb_received b" "rb_max ?b = rb_max b" "rb_declared ?b = rb_declared b"
    "rb_shared ?b = rb_shared b"
    by (simp_all add: start_streaming_def)
  have shape: "same_shape ?b b" by (simp add: same_shape_def start_streaming_def)
  have step: "next_chunk b = (case item of
        Some (Inr chunk) \<Rightarrow> (case accept_chunk chunk ?b of (b, r) \<Rightarrow> (b, map_sum id Some r))
      | Some (Inl e) \<Rightarrow> (fail_body ?b, Inl (TransportError e))
      | None \<Rightarrow> end_of_stream ?b)"
    by (simp add: next_chunk_incoming [OF assms(1,2)] next_incoming_def s Let_def)
  show thesis
  proof (cases item)
    case None
    have prem: "premature ?b = premature b" by (rule premature_cong) (simp_all add: start_streaming_def)
    show thesis
    proof (cases "premature b")
      case (Some d)
      then show thesis using failed [of ?b] None shape prem by (simp add: step end_of_stream_def)
    next
      case no: None
      have fin: "next_chunk b = finish None (init_wire ?b)"
        using None no prem by (simp add: step end_of_stream_def)
      have shape': "same_shape ((emptied (init_wire ?b))\<lparr>rb_trailers := t\<rparr>) b"
        "same_shape ((emptied (init_wire ?b))\<lparr>rb_trailer_error := m\<rparr>) b" for t m
        using shape by (simp_all add: same_shape_def init_wire_def)
      have empty: "stream_bytes s = []" using stream_next_None s None by blast
      show thesis
      proof (cases "trailers_result (init_wire ?b)")
        case (Inr t)
        then show thesis
          using ended [OF _ empty no shape'(1)] fin by (simp add: finish_char)
      next
        case (Inl m)
        then show thesis
          using failed [OF _ shape'(2)] fin by (simp add: finish_char)
      qed
    qed
  next
    case (Some i)
    show thesis
    proof (cases i)
      case (Inl e)
      then show thesis using failed [of ?b] Some shape by (simp add: step)
    next
      case (Inr c)
      have bytes: "stream_bytes s = c @ stream_bytes rest"
        using stream_next_Chunk s Some Inr by blast
      show thesis
      proof (cases rule: accept_chunk_cases [of ?b c])
        case overflow
        then show thesis using assms(3) bytes eq by simp
      next
        case (refused e)
        then show thesis using failed [of ?b] shape Some Inr by (simp add: step)
      next
        case (accepted n)
        then show thesis
          using chunk [where c = c and rest = rest and n = n] Some Inr bytes eq by (simp add: step received_ok_def start_streaming_def)
      qed
    qed
  qed
qed

datatype read_op = NextChunk | PollNext

fun apply_read :: "read_op \<Rightarrow> request_body \<times> bytes \<Rightarrow> request_body \<times> bytes" where
  "apply_read NextChunk (b, got) =
     (case next_chunk b of (b', r) \<Rightarrow> (b', got @ (case r of Inr (Some c) \<Rightarrow> c | _ \<Rightarrow> [])))"
| "apply_read PollNext (b, got) =
     (case poll_next b of (b', r) \<Rightarrow> (b', got @ (case r of PollReady (Some (Inr c)) \<Rightarrow> c | _ \<Rightarrow> [])))"

fun lifecycle_of :: "body_consumption \<Rightarrow> body_lifecycle_state" where
  "lifecycle_of CompleteState = Complete"
| "lifecycle_of ErrorState = Failed"
| "lifecycle_of _ = Active"

text \<open>A network body that has handed out \<open>got\<close> of the bytes \<open>content\<close>.\<close>

fun reading_inv :: "bytes \<Rightarrow> request_body \<times> bytes \<Rightarrow> bool" where
  "reading_inv content (b, got) \<longleftrightarrow>
     received_ok b \<and> unat (rb_received b) = length got
     \<and> body_state (rb_shared b) = lifecycle_of (rb_state b)
     \<and> (\<exists>s. rb_inner b = Some (Incoming s) \<and> (open_state b \<longrightarrow> got @ stream_bytes s = content))
     \<and> prefix got content
     \<and> (rb_state b = CompleteState \<longrightarrow> got = content \<and> (\<forall>d. rb_declared b = Some d \<longrightarrow> length got = unat d))"

lemma mark_from_active:
  "body_state s = Active \<Longrightarrow> body_state (fst (mark_complete s)) = Complete"
  "body_state s = Active \<Longrightarrow> body_state (fst (mark_failed s)) = Failed"
  "body_state s = Active \<Longrightarrow> body_state (fst (mark_abandoned s)) = Abandoned"
  using apply_event_active(2) [of s EComplete] apply_event_active(2) [of s EFail]
    apply_event_active(2) [of s EAbandon]
  by (simp_all add: is_body_active_def body_state_def del: state_u8.simps)

lemma premature_None: "premature b = None \<Longrightarrow> received_ok b \<Longrightarrow> rb_declared b = Some d \<Longrightarrow> rb_received b = d"
  by (auto simp: premature_def received_ok_def split: if_splits)

lemma reading_inv_next_chunk:
  assumes "length content < 2 ^ 64" and "reading_inv content (b, got)" and "open_state b"
  shows "reading_inv content (apply_read NextChunk (b, got))"
proof -
  obtain s where inner: "rb_inner b = Some (Incoming s)" and content: "got @ stream_bytes s = content"
    using assms(2,3) by auto
  have ok: "received_ok b" and len: "unat (rb_received b) = length got"
    and active: "body_state (rb_shared b) = Active"
    using assms(2,3) by (auto simp: open_state_def)
  have fits: "unat (rb_received b) + length (stream_bytes s) < 2 ^ 64"
    using assms(1) len content by (metis length_append)
  from assms(3) inner fits show ?thesis
  proof (cases rule: next_chunk_network)
    case (chunk c rest n)
    have "content = (got @ c) @ stream_bytes rest" using chunk(2) content by simp
    then show ?thesis
      using chunk len active assms(3)
      by (auto simp: received_ok_def open_state_def start_streaming_def)
  next
    case (ended b')
    then show ?thesis
      using ok len active content premature_None [OF ended(3) ok]
      by (auto simp: same_shape_def received_ok_def open_state_def body_ended_shared mark_from_active)
  next
    case (failed b' e)
    then show ?thesis
      using ok len active content
      by (auto simp: same_shape_def received_ok_def open_state_def body_ended_shared mark_from_active)
  qed
qed

lemma reading_inv_apply:
  assumes "length content < 2 ^ 64" and "reading_inv content (b, got)"
  shows "reading_inv content (apply_read op (b, got))"
proof (cases "open_state b")
  case False
  then have "rb_state b = CompleteState \<or> rb_state b = ErrorState"
    by (cases "rb_state b") (auto simp: open_state_def)
  then have "apply_read op (b, got) = (b, got)"
    by (cases op) (auto simp: next_chunk_def poll_next_def)
  then show ?thesis using assms(2) by (simp only:)
next
  case True
  obtain s where inner: "rb_inner b = Some (Incoming s)" and content: "got @ stream_bytes s = content"
    and len: "unat (rb_received b) = length got"
    using assms(2) True by auto
  have fits: "unat (rb_received b) + length (stream_bytes s) < 2 ^ 64"
    using assms(1) len content by (metis length_append)
  show ?thesis
  proof (cases op)
    case PollNext
    show ?thesis
    proof (cases "s \<noteq> [] \<and> hd s = PendingEvent")
      case True
      then obtain rest where "s = PendingEvent # rest" by (cases s) auto
      then show ?thesis
        using assms(2) inner content PollNext \<open>open_state b\<close>
        by (auto simp: poll_next_def poll_incoming_def open_state_def received_ok_def)
    next
      case False
      have "apply_read PollNext (b, got) = apply_read NextChunk (b, got)"
        using poll_next_agrees [OF \<open>open_state b\<close> inner _ fits] False
        by (cases "next_chunk b") (auto simp: as_poll_def split: sum.splits option.splits)
      then show ?thesis
        using reading_inv_next_chunk [OF assms True] PollNext by simp
    qed
  qed (use reading_inv_next_chunk [OF assms True] in simp)
qed

lemma reading_inv_fold:
  "length content < 2 ^ 64 \<Longrightarrow> reading_inv content x \<Longrightarrow> reading_inv content (fold apply_read ops x)"
proof (induction ops arbitrary: x)
  case (Cons op ops)
  then show ?case using reading_inv_apply [of content "fst x" "snd x" op] by simp
qed simp

lemma reading_inv_start:
  "reading_inv (stream_bytes s) (from_incoming s declared max_bytes, [])"
  by (simp add: from_incoming_def from_incoming_with_shared_def from_incoming_with_shared_and_wire_slot_def
      received_ok_def new_active_def new_shared_def body_state_def state_from_u8_def)

text \<open>The one reservation of \<open>read_all\<close>: the declared length, cut at the limit.\<close>

definition reserved :: "(nat \<Rightarrow> bool) \<Rightarrow> u64 option \<Rightarrow> u64 \<Rightarrow> bool" where
  [rust_eval]: "reserved reserve_ok declared max_bytes \<longleftrightarrow>
     (case declared of
        Some d \<Rightarrow> min d max_bytes = 0 \<or> reserve_ok (unat (min d max_bytes))
      | None \<Rightarrow> True)"

lemma read_all_inner_incoming:
  assumes "rb_state b = Unread" and "rb_inner b = Some (Incoming s)"
  shows "read_all_inner reserve_ok b =
    (if reserved reserve_ok (rb_declared b) (rb_max b) then read_incoming s [] (b\<lparr>rb_inner := None\<rparr>)
     else (fail_body (b\<lparr>rb_inner := None\<rparr>), Inl (LimitExceeded (rb_max b) (min (the (rb_declared b)) (rb_max b)))))"
  using assms by (auto simp: read_all_inner_def reserved_def Let_def word_gt_0 split: option.splits)

lemma read_all_incoming:
  assumes "rb_state b = Unread" and "rb_inner b = Some (Incoming s)" and "\<And>n. reserve_ok n"
  shows "read_all_inner reserve_ok b = read_incoming s [] (b\<lparr>rb_inner := None\<rparr>)"
  using assms read_all_inner_incoming [OF assms(1,2), of reserve_ok] by (simp add: reserved_def split: option.splits)

lemma drop_body_open_network:
  assumes "reading_inv content (b, got)"
  shows "body_state (rb_shared (drop_body b)) = (if open_state b then Abandoned else lifecycle_of (rb_state b))"
proof (cases "open_state b")
  case True
  then have "lifecycle_of (rb_state b) = Active" by (auto simp: open_state_def)
  with assms True show ?thesis
    by (auto simp: drop_body_def is_body_active_def mark_from_active)
next
  case False
  then have "lifecycle_of (rb_state b) \<noteq> Active" by (cases "rb_state b") (auto simp: open_state_def)
  with assms False show ?thesis by (auto simp: drop_body_def is_body_active_def)
qed

section \<open>Properties\<close>

text \<open>
  C35: \<^verbatim>\<open>read_all\<close> returns exactly the body.  On a fresh network body it succeeds if and only if the allocator
  grants the reservation of the declared length (cut at the limit, and asked for when it is not zero), the
  stream had no transport error, its bytes are within the byte limit, they are as many as declared
  (when a length was declared) and the trailers are acceptable; the result is then the bytes of the
  stream in order, so that neither a body over the limit nor a truncated one is ever returned.  A refused
  reservation is the limit error with the reserved size, before anything is read, and the body has failed.
\<close>

theorem read_all_exact:
  fixes s declared max_bytes shared slot
  defines "body \<equiv> from_incoming_with_shared_and_wire_slot s declared max_bytes shared slot"
  shows "(snd (read_all reserve_ok body) = Inr data
    \<longleftrightarrow> reserved reserve_ok declared max_bytes
      \<and> stream_clean s \<and> data = stream_bytes s \<and> length data \<le> unat max_bytes
      \<and> (\<forall>d. declared = Some d \<longrightarrow> length data = unat d)
      \<and> (\<forall>w. slot = Some w \<longrightarrow> (\<exists>block t. w = Inr block \<and> trailers_new block = Inr t)))
    \<and> (\<not> reserved reserve_ok declared max_bytes \<longrightarrow>
        (\<exists>d. declared = Some d
          \<and> snd (read_all reserve_ok body) = Inl (LimitExceeded max_bytes (min d max_bytes))
          \<and> (body_state shared = Active \<longrightarrow> body_state (rb_shared (fst (read_all reserve_ok body))) = Failed)))"
proof (cases "reserved reserve_ok declared max_bytes")
  case True
  let ?b = "from_incoming_with_shared_and_wire_slot s declared max_bytes shared slot"
  have "read_all_inner reserve_ok ?b = read_incoming s [] (?b\<lparr>rb_inner := None\<rparr>)"
    by (subst read_all_inner_incoming) (simp_all add: from_incoming_with_shared_and_wire_slot_def True)
  then have "snd (read_all reserve_ok ?b) = snd (read_incoming s [] (?b\<lparr>rb_inner := None\<rparr>))"
    by (simp add: read_all_def case_prod_beta)
  moreover have "received_ok (?b\<lparr>rb_inner := None\<rparr>)"
    by (simp add: received_ok_def from_incoming_with_shared_and_wire_slot_def)
  moreover have "(\<exists>t. trailers_result (?b\<lparr>rb_inner := None\<rparr>) = Inr t) \<longleftrightarrow>
      (\<forall>w. slot = Some w \<longrightarrow> (\<exists>block t. w = Inr block \<and> trailers_new block = Inr t))"
    by (cases slot)
      (auto simp: trailers_result_def from_incoming_with_shared_and_wire_slot_def trailers_new_def
        drain_and_validate_wire_slot_def split: sum.splits)
  ultimately show ?thesis
    using True by (auto simp: body_def read_incoming_iff from_incoming_with_shared_and_wire_slot_def)
next
  case False
  let ?b = "from_incoming_with_shared_and_wire_slot s declared max_bytes shared slot"
  have "read_all_inner reserve_ok ?b =
      (fail_body (?b\<lparr>rb_inner := None\<rparr>), Inl (LimitExceeded max_bytes (min (the declared) max_bytes)))"
    by (subst read_all_inner_incoming) (simp_all add: from_incoming_with_shared_and_wire_slot_def False)
  then have "read_all reserve_ok ?b =
      (drop_body (fail_body (?b\<lparr>rb_inner := None\<rparr>)), Inl (LimitExceeded max_bytes (min (the declared) max_bytes)))"
    by (simp add: read_all_def)
  moreover have "body_state (rb_shared (drop_body (fail_body (?b\<lparr>rb_inner := None\<rparr>)))) = Failed" if "body_state shared = Active"
    using that by (simp add: drop_body_def fail_body_def from_incoming_with_shared_and_wire_slot_def mark_from_active(2) is_body_active_def)
  ultimately show ?thesis using False by (auto simp: body_def reserved_def split: option.splits)
qed

theorem read_all_exact_witness:
  "snd (read_all (\<lambda>n. n < 9) (from_incoming_with_shared_and_wire_slot
     [Chunk ''ab'', PendingEvent, Chunk ''c''] (Some 3) 10 new_active None)) = Inr ''abc''
   \<and> snd (read_all (\<lambda>n. n < 9) (from_incoming_with_shared_and_wire_slot [Chunk ''ab''] (Some 12) 10 new_active None))
     = Inl (LimitExceeded 10 10)"
proof -
  have r: "reserved (\<lambda>n. n < 9) (Some 3) 10" "\<not> reserved (\<lambda>n. n < 9) (Some 12) 10" by (simp_all add: reserved_def min_def)
  have "snd (read_all (\<lambda>n. n < 9) (from_incoming_with_shared_and_wire_slot
     [Chunk ''ab'', PendingEvent, Chunk ''c''] (Some 3) 10 new_active None)) = Inr ''abc''"
    using read_all_exact [of "\<lambda>n. n < 9" "[Chunk ''ab'', PendingEvent, Chunk ''c'']" "Some 3" 10 new_active None "''abc''"] r(1) by simp
  moreover have "snd (read_all (\<lambda>n. n < 9) (from_incoming_with_shared_and_wire_slot [Chunk ''ab''] (Some 12) 10 new_active None))
     = Inl (LimitExceeded 10 10)"
    using read_all_exact [of "\<lambda>n. n < 9" "[Chunk ''ab'']" "Some 12" 10 new_active None "[]"] r(2) by (simp add: min_def)
  ultimately show ?thesis ..
qed

text \<open>
  both ways of reading a whole body agree.  On a fresh network body, \<^verbatim>\<open>read_all\<close> and the loop over
  \<^verbatim>\<open>next_chunk\<close> in \<^verbatim>\<open>read_all_with_trailers\<close> give the same bytes or the same error and leave the shared
  lifecycle, which has always ended then, in the same state.
\<close>

lemma read_all_agrees_with_chunks:
  assumes "\<And>n. reserve_ok n" and "rb_state b = Unread" and "rb_inner b = Some (Incoming s)"
    and "rb_trailer_error b = None" and "unat (rb_received b) + length (stream_bytes s) < 2 ^ 64"
  shows "snd (read_all reserve_ok b) = map_sum id fst (snd (read_all_with_trailers b))
    \<and> rb_shared (fst (read_all reserve_ok b)) = rb_shared (fst (read_all_with_trailers b))
    \<and> \<not> is_body_active (rb_shared (fst (read_all reserve_ok b)))"
proof -
  let ?b0 = "b\<lparr>rb_inner := None\<rparr>"
  have "same_account ?b0 b" by (simp add: same_account_def)
  from read_chunks_incoming [OF this assms(3), of "[]"] obtain b0' b' r where
    r: "read_incoming s [] ?b0 = (b0', r)" "read_chunks [] b = (b', r)" "rb_shared b0' = rb_shared b'"
      "(\<exists>x. r = Inr x) \<longrightarrow> rb_trailer_error b' = rb_trailer_error ?b0"
    using assms(2) by (auto simp: open_state_def)
  have ended: "\<not> is_body_active (rb_shared b0')"
    using read_incoming_ended [of ?b0 s "[]"] assms(5) r(1) by simp
  then have "read_all reserve_ok b = (b0', r)"
    by (simp add: read_all_def read_all_incoming [OF assms(2,3,1)] r(1) drop_ended)
  moreover have "fst (read_all_with_trailers b) = b'"
    "snd (read_all_with_trailers b) = map_sum id (\<lambda>buf. (buf, rb_trailers b')) r"
    using assms(2-4) ended r by (cases r; simp add: read_all_with_trailers_def drop_ended)+
  ultimately show ?thesis using r(3) ended by (cases r) simp_all
qed

lemma read_all_agrees_with_chunks_witness:
  "snd (read_all_with_trailers (from_incoming [Chunk ''abcd''] (Some 3) 10)) = Inl (LengthMismatch 3 4)
   \<and> snd (read_all (\<lambda>_. True) (from_incoming [Chunk ''abcd''] (Some 3) 10)) = Inl (LengthMismatch 3 4)"
proof -
  let ?b = "from_incoming [Chunk ''abcd''] (Some 3) 10"
  have "snd (read_all (\<lambda>_. True) ?b) = Inl (LengthMismatch 3 4)"
    by (simp add: rust_eval)
  moreover have "snd (read_all (\<lambda>_. True) ?b) = map_sum id fst (snd (read_all_with_trailers ?b))"
    using read_all_agrees_with_chunks [of "\<lambda>_. True" ?b "[Chunk ''abcd'']"]
    by (simp add: from_incoming_def from_incoming_with_shared_def from_incoming_with_shared_and_wire_slot_def)
  ultimately show ?thesis by (cases "snd (read_all_with_trailers ?b)") auto
qed

text \<open>
  streaming hands out the body and nothing else.  After any mixture of \<^verbatim>\<open>next_chunk\<close> calls and
  polls of the stream interface the bytes handed out are a prefix of the content, are counted
  exactly and exceed neither the limit nor the declared length; a body that reports completion has
  handed out the whole content, as long as declared; and dropping the body then leaves the lifecycle
  complete, failed or abandoned according to how far the reading came, and never active.
\<close>

lemma streaming_sound:
  assumes "length (stream_bytes s) < 2 ^ 64"
    and "fold apply_read ops (from_incoming s declared max_bytes, []) = (b, got)"
  shows "prefix got (stream_bytes s) \<and> unat (rb_received b) = length got
    \<and> rb_received b \<le> rb_max b \<and> (\<forall>d. rb_declared b = Some d \<longrightarrow> rb_received b \<le> d)
    \<and> (rb_state b = CompleteState \<longrightarrow> got = stream_bytes s \<and> (\<forall>d. rb_declared b = Some d \<longrightarrow> length got = unat d))
    \<and> body_state (rb_shared (drop_body b)) =
        (case rb_state b of CompleteState \<Rightarrow> Complete | ErrorState \<Rightarrow> Failed | _ \<Rightarrow> Abandoned)"
proof -
  have inv: "reading_inv (stream_bytes s) (b, got)"
    using reading_inv_fold [OF assms(1) reading_inv_start, of ops declared max_bytes] assms(2) by (simp only:)
  have "body_state (rb_shared (drop_body b)) =
      (case rb_state b of CompleteState \<Rightarrow> Complete | ErrorState \<Rightarrow> Failed | _ \<Rightarrow> Abandoned)"
    using drop_body_open_network [OF inv] by (cases "rb_state b") (simp_all add: open_state_def)
  then show ?thesis using inv by (auto simp: received_ok_def)
qed

lemma streaming_sound_witness:
  "\<exists>b got. fold apply_read [NextChunk] (from_incoming [Chunk ''ab'', Chunk ''c''] None 10, []) = (b, got)
     \<and> got = ''ab'' \<and> body_state (rb_shared (drop_body b)) = Abandoned"
proof -
  let ?s = "[Chunk ''ab'', Chunk ''c'']"
  obtain b where f: "fold apply_read [NextChunk] (from_incoming ?s None 10, []) = (b, ''ab'')"
    and st: "rb_state b = Streaming"
    by (simp add: rust_eval)
  from streaming_sound [OF _ f] f st show ?thesis by auto
qed

text \<open>
  the two streaming interfaces agree on network bodies.  Whenever the transport has an item or
  its end ready, a poll of the stream interface does to the body what \<^verbatim>\<open>next_chunk\<close> does and reports
  the same chunk, end or error.
\<close>

lemma poll_agrees_with_next_chunk:
  assumes "open_state b" and "rb_inner b = Some (Incoming s)" and "s = [] \<or> hd s \<noteq> PendingEvent"
    and "unat (rb_received b) + length (stream_bytes s) < 2 ^ 64"
  shows "fst (poll_next b) = fst (next_chunk b) \<and> snd (poll_next b) = as_poll (snd (next_chunk b))"
  using poll_next_agrees [OF assms] by simp

lemma poll_agrees_with_next_chunk_witness:
  "snd (poll_next (from_incoming [Chunk ''ab''] None 10)) = PollReady (Some (Inr ''ab''))"
proof -
  let ?b = "from_incoming [Chunk ''ab''] None 10"
  have "snd (next_chunk ?b) = Inr (Some ''ab'')" by (simp add: rust_eval)
  moreover have "snd (poll_next ?b) = as_poll (snd (next_chunk ?b))"
    using poll_agrees_with_next_chunk [of ?b "[Chunk ''ab'']"]
    by (simp add: from_incoming_def from_incoming_with_shared_def from_incoming_with_shared_and_wire_slot_def
        open_state_def)
  ultimately show ?thesis by (simp add: as_poll_def)
qed

text \<open>
  Dropping the future of \<^verbatim>\<open>read_all\<close> while it waits for the transport drops the body after its stream
  was taken out: the lifecycle stays active although the body is gone, where a body dropped between
  calls of \<^verbatim>\<open>next_chunk\<close> is abandoned.
\<close>

lemma read_all_cancelled_stays_active:
  assumes "is_body_active (rb_shared b)" and "rb_inner b = Some (Incoming s)"
  shows "is_body_active (rb_shared (drop_body (b\<lparr>rb_inner := None\<rparr>)))
    \<and> body_state (rb_shared (drop_body b)) = Abandoned"
  using assms by (simp add: drop_body_def mark_from_active is_body_active_def)

text \<open>The last chunk of an in-memory body ends it without its trailers on the stream interface.\<close>

lemma poll_fixed_skips_trailers:
  "snd (poll_next ((from_bytes ''a'' 5)\<lparr>rb_wire := Some (Some (Inl ''bad''))\<rparr>)) = PollReady (Some (Inr ''a''))
   \<and> snd (next_chunk ((from_bytes ''a'' 5)\<lparr>rb_wire := Some (Some (Inl ''bad''))\<rparr>)) = Inl (InvalidTrailers ''bad'')"
  by (simp add: rust_eval Let_def)

end
