(* ===== verification/Canonical_Response.thy ===== *)
theory Canonical_Response
  imports Trailers Body_Source
begin

text \<open>
  The canonical response and its normalisation: \<^verbatim>\<open>canonical/status.rs\<close>, \<^verbatim>\<open>canonical/headers.rs\<close>,
  \<^verbatim>\<open>canonical/response_body.rs\<close>, \<^verbatim>\<open>canonical/response.rs\<close> and \<^verbatim>\<open>response_stream.rs\<close> of
  \<^verbatim>\<open>eggserve-primitives\<close>.

  Every response producer ends in \<open>normalize_response\<close>, the only place where the framing headers
  are decided.  The properties state that decision: which bodies are sent, what the length header
  says, which headers survive, and that HEAD and GET differ in the body only.

  A response stream is the list of what its producer will yield, with the outcome of its trailer
  future; nothing in normalisation looks at either.
\<close>

section \<open>Status codes\<close>

type_synonym status_code = nat

datatype response_construction_error =
    InvalidStatus nat
  | ConstructionHeader header_error
  | ForbiddenFramingHeader string
  | BodyAlreadyConsumed
  | ContentLengthMismatch u64 u64
  | FileStreamLimit

definition status_new :: "nat \<Rightarrow> response_construction_error + status_code" where
  [rust_eval]: "status_new code = (if \<not> (100 \<le> code \<and> code \<le> 599) then Inl (InvalidStatus code) else Inr code)"

definition is_informational :: "status_code \<Rightarrow> bool" where
  [rust_eval]: "is_informational s \<longleftrightarrow> 100 \<le> s \<and> s < 200"

definition is_success :: "status_code \<Rightarrow> bool" where
  [rust_eval]: "is_success s \<longleftrightarrow> 200 \<le> s \<and> s < 300"

definition is_redirection :: "status_code \<Rightarrow> bool" where
  [rust_eval]: "is_redirection s \<longleftrightarrow> 300 \<le> s \<and> s < 400"

definition is_client_error :: "status_code \<Rightarrow> bool" where
  [rust_eval]: "is_client_error s \<longleftrightarrow> 400 \<le> s \<and> s < 500"

definition is_server_error :: "status_code \<Rightarrow> bool" where
  [rust_eval]: "is_server_error s \<longleftrightarrow> 500 \<le> s \<and> s < 600"

definition permits_payload_body :: "status_code \<Rightarrow> bool" where
  [rust_eval]: "permits_payload_body s \<longleftrightarrow> \<not> is_informational s \<and> s \<noteq> 204 \<and> s \<noteq> 205 \<and> s \<noteq> 304"

definition reason_table :: "(nat \<times> string) list" where
  [rust_eval]: "reason_table =
     [(100, ''Continue''), (101, ''Switching Protocols''), (102, ''Processing''), (103, ''Early Hints''),
      (200, ''OK''), (201, ''Created''), (202, ''Accepted''), (203, ''Non-Authoritative Information''),
      (204, ''No Content''), (205, ''Reset Content''), (206, ''Partial Content''), (207, ''Multi-Status''),
      (208, ''Already Reported''), (226, ''IM Used''), (300, ''Multiple Choices''),
      (301, ''Moved Permanently''), (302, ''Found''), (303, ''See Other''), (304, ''Not Modified''),
      (305, ''Use Proxy''), (307, ''Temporary Redirect''), (308, ''Permanent Redirect''),
      (400, ''Bad Request''), (401, ''Unauthorized''), (402, ''Payment Required''), (403, ''Forbidden''),
      (404, ''Not Found''), (405, ''Method Not Allowed''), (406, ''Not Acceptable''),
      (407, ''Proxy Authentication Required''), (408, ''Request Timeout''), (409, ''Conflict''),
      (410, ''Gone''), (411, ''Length Required''), (412, ''Precondition Failed''),
      (413, ''Payload Too Large''), (414, ''URI Too Long''), (415, ''Unsupported Media Type''),
      (416, ''Range Not Satisfiable''), (417, ''Expectation Failed''), (418, ''I'' @ [CHR 0x27] @ ''m a teapot''),
      (421, ''Misdirected Request''), (422, ''Unprocessable Content''), (423, ''Locked''),
      (424, ''Failed Dependency''), (425, ''Too Early''), (426, ''Upgrade Required''),
      (428, ''Precondition Required''), (429, ''Too Many Requests''),
      (431, ''Request Header Fields Too Large''), (451, ''Unavailable For Legal Reasons''),
      (500, ''Internal Server Error''), (501, ''Not Implemented''), (502, ''Bad Gateway''),
      (503, ''Service Unavailable''), (504, ''Gateway Timeout''), (505, ''HTTP Version Not Supported''),
      (506, ''Variant Also Negotiates''), (507, ''Insufficient Storage''), (508, ''Loop Detected''),
      (510, ''Not Extended''), (511, ''Network Authentication Required'')]"

definition canonical_reason :: "status_code \<Rightarrow> string option" where
  [rust_eval]: "canonical_reason s = map_of reason_table s"

section \<open>Bodies\<close>

record response_stream =
  rst_inner :: "(string + bytes) list"
  rst_known_length :: "u64 option"
  rst_trailers :: "(string + trailers option) option"
  rst_declaration :: "trailer_declaration option"

definition stream_new :: "(string + bytes) list \<Rightarrow> response_stream" where
  [rust_eval]: "stream_new items =
     \<lparr>rst_inner = items, rst_known_length = None, rst_trailers = None, rst_declaration = None\<rparr>"

definition stream_with_known_length :: "(string + bytes) list \<Rightarrow> u64 \<Rightarrow> response_stream" where
  [rust_eval]: "stream_with_known_length items len = (stream_new items)\<lparr>rst_known_length := Some len\<rparr>"

definition stream_with_trailers ::
  "(string + bytes) list \<Rightarrow> string + trailers option \<Rightarrow> response_stream" where
  [rust_eval]: "stream_with_trailers items fut = (stream_new items)\<lparr>rst_trailers := Some fut\<rparr>"

definition stream_with_known_length_and_trailers ::
  "(string + bytes) list \<Rightarrow> u64 \<Rightarrow> string + trailers option \<Rightarrow> response_stream" where
  [rust_eval]: "stream_with_known_length_and_trailers items len fut =
     (stream_new items)\<lparr>rst_known_length := Some len, rst_trailers := Some fut\<rparr>"

definition stream_with_declared_trailers ::
  "(string + bytes) list \<Rightarrow> trailer_declaration \<Rightarrow> string + trailers option \<Rightarrow> response_stream" where
  [rust_eval]: "stream_with_declared_trailers items declaration fut =
     (stream_new items)\<lparr>rst_trailers := Some fut, rst_declaration := Some declaration\<rparr>"

definition stream_with_known_length_and_declared_trailers ::
  "(string + bytes) list \<Rightarrow> u64 \<Rightarrow> trailer_declaration \<Rightarrow> string + trailers option \<Rightarrow> response_stream" where
  [rust_eval]: "stream_with_known_length_and_declared_trailers items len declaration fut =
     (stream_new items)\<lparr>rst_known_length := Some len, rst_trailers := Some fut,
        rst_declaration := Some declaration\<rparr>"

definition stream_empty :: response_stream where
  [rust_eval]: "stream_empty = stream_with_known_length [] 0"

definition stream_has_trailers :: "response_stream \<Rightarrow> bool" where
  [rust_eval]: "stream_has_trailers s \<longleftrightarrow> rst_trailers s \<noteq> None"

definition take_trailer_future ::
  "response_stream \<Rightarrow> (string + trailers option) option \<times> response_stream" where
  [rust_eval]: "take_trailer_future s = (rst_trailers s, s\<lparr>rst_trailers := None\<rparr>)"

definition take_trailer_declaration ::
  "response_stream \<Rightarrow> trailer_declaration option \<times> response_stream" where
  [rust_eval]: "take_trailer_declaration s = (rst_declaration s, s\<lparr>rst_declaration := None\<rparr>)"

datatype body_length = Known u64 | Unknown

datatype response_body =
    RBEmpty | RBBytes bytes | RBFile body_source | RBStream response_stream | RBEmptyWithLength u64

text \<open>\<^verbatim>\<open>len\<close> and \<^verbatim>\<open>body_length\<close>; \<open>None\<close> is the panic of an unrepresentable file range.\<close>

definition response_body_len :: "response_body \<Rightarrow> u64 option" where
  [rust_eval]: "response_body_len b =
     (case b of RBEmpty \<Rightarrow> Some 0
      | RBBytes d \<Rightarrow> Some (of_nat (length d))
      | RBFile s \<Rightarrow> source_len s
      | RBStream s \<Rightarrow> Some (case rst_known_length s of Some n \<Rightarrow> n | None \<Rightarrow> 0)
      | RBEmptyWithLength n \<Rightarrow> Some n)"

definition body_length_of :: "response_body \<Rightarrow> body_length option" where
  [rust_eval]: "body_length_of b =
     (case b of RBEmpty \<Rightarrow> Some (Known 0)
      | RBBytes d \<Rightarrow> Some (Known (of_nat (length d)))
      | RBFile s \<Rightarrow> map_option Known (source_len s)
      | RBStream s \<Rightarrow> Some (case rst_known_length s of Some n \<Rightarrow> Known n | None \<Rightarrow> Unknown)
      | RBEmptyWithLength n \<Rightarrow> Some (Known n))"

definition response_body_is_empty :: "response_body \<Rightarrow> bool option" where
  [rust_eval]: "response_body_is_empty b =
     (case b of RBStream s \<Rightarrow> Some (rst_known_length s = Some 0)
      | _ \<Rightarrow> map_option (\<lambda>n. n = 0) (response_body_len b))"

fun into_bytes :: "response_body \<Rightarrow> bytes option" where
  "into_bytes (RBBytes b) = Some b"
| "into_bytes _ = None"

section \<open>Headers\<close>

definition ALT_SVC_HEADER_NAME :: string where
  [rust_eval]: "ALT_SVC_HEADER_NAME = ''alt-svc''"

definition ALT_SVC_MAX_AGE :: string where
  [rust_eval]: "ALT_SVC_MAX_AGE = ''ma=86400''"

definition alt_svc_advertisement_value :: "u16 \<Rightarrow> bool \<Rightarrow> string list \<Rightarrow> string option" where
  [rust_eval]: "alt_svc_advertisement_value port advertise denylisted =
     (if \<not> advertise then None
      else if list_ex (\<lambda>name. eq_ignore_ascii_case name ALT_SVC_HEADER_NAME) denylisted then None
      else Some (''h3='' @ [CHR 0x22] @ '':'' @ dec (unat port) @ [CHR 0x22] @ ''; '' @ ALT_SVC_MAX_AGE))"

text \<open>\<^verbatim>\<open>let _ = headers.push_str(..)\<close>: an invalid field is not added.\<close>

definition push_or_ignore :: "header_block \<Rightarrow> string \<Rightarrow> string \<Rightarrow> header_block" where
  [rust_eval]: "push_or_ignore b name v = (case block_push_bytes b name v of Inr b' \<Rightarrow> b' | Inl _ \<Rightarrow> b)"

definition remove_header :: "header_block \<Rightarrow> string \<Rightarrow> header_block" where
  [rust_eval]: "remove_header b name = block_retain (\<lambda>f. \<not> eq_ignore_ascii_case (name_str (hf_name f)) name) b"

definition apply_alt_svc_advertisement :: "header_block \<Rightarrow> u16 \<Rightarrow> bool \<Rightarrow> string list \<Rightarrow> header_block" where
  [rust_eval]: "apply_alt_svc_advertisement b port advertise denylisted =
     (let b = block_retain (\<lambda>f. \<not> eq_ignore_ascii_case (name_str (hf_name f)) ALT_SVC_HEADER_NAME) b in
      case alt_svc_advertisement_value port advertise denylisted of
        Some v \<Rightarrow> push_or_ignore b ALT_SVC_HEADER_NAME v
      | None \<Rightarrow> b)"

record response_head =
  rh_status :: status_code
  rh_headers :: header_block

definition is_hop_by_hop_header :: "string \<Rightarrow> bool" where
  [rust_eval]: "is_hop_by_hop_header name \<longleftrightarrow>
     list_ex (\<lambda>candidate. eq_ignore_ascii_case name candidate)
       [''connection'', ''keep-alive'', ''proxy-authenticate'', ''proxy-authorization'',
        ''proxy-connection'', ''te'', ''trailer'', ''transfer-encoding'', ''upgrade'']"

text \<open>The names the \<^verbatim>\<open>Connection\<close> fields nominate.\<close>

definition connection_tokens :: "header_block \<Rightarrow> string list" where
  [rust_eval]: "connection_tokens b =
     map to_ascii_lowercase (filter (\<lambda>name. name \<noteq> []) (map trim (concat (map (\<lambda>f.
       (case header_value_to_str (hf_value f) of Inr s \<Rightarrow> split_char CHR '','' s | Inl _ \<Rightarrow> []))
       (filter (field_matches ''connection'') b)))))"

definition strip_hop_by_hop :: "header_block \<Rightarrow> header_block" where
  [rust_eval]: "strip_hop_by_hop b =
     (let tokens = connection_tokens b in
      block_retain (\<lambda>f. \<not> is_hop_by_hop_header (name_str (hf_name f))
        \<and> \<not> list_ex (\<lambda>name. eq_ignore_ascii_case (name_str (hf_name f)) name) tokens) b)"

section \<open>Responses\<close>

record response =
  rsp_head :: response_head
  rsp_body :: "response_body option"
  rsp_normalized :: bool

record response_builder =
  bld_status :: "status_code option"
  bld_headers :: header_block

definition response_builder_new :: response_builder where
  [rust_eval]: "response_builder_new = \<lparr>bld_status = None, bld_headers = block_new\<rparr>"

definition builder_status :: "status_code \<Rightarrow> response_builder \<Rightarrow> response_builder" where
  [rust_eval]: "builder_status s b = b\<lparr>bld_status := Some s\<rparr>"

definition builder_push_header :: "header_name \<Rightarrow> header_value \<Rightarrow> response_builder \<Rightarrow> response_builder" where
  [rust_eval]: "builder_push_header n v b = b\<lparr>bld_headers := block_push (bld_headers b) n v\<rparr>"

definition builder_header ::
  "string \<Rightarrow> string \<Rightarrow> response_builder \<Rightarrow> response_construction_error + response_builder" where
  [rust_eval]: "builder_header name v b =
     and_then (map_err ConstructionHeader (header_name_new name)) (\<lambda>n.
     and_then (map_err ConstructionHeader (header_value_from_bytes v)) (\<lambda>w.
       Inr (b\<lparr>bld_headers := block_push (bld_headers b) n w\<rparr>)))"

definition builder_body :: "response_body \<Rightarrow> response_builder \<Rightarrow> response_construction_error + response" where
  [rust_eval]: "builder_body body b =
     and_then (ok_or (InvalidStatus 0) (bld_status b)) (\<lambda>s.
       Inr \<lparr>rsp_head = \<lparr>rh_status = s, rh_headers = bld_headers b\<rparr>, rsp_body = Some body,
            rsp_normalized = False\<rparr>)"

definition builder_empty :: "response_builder \<Rightarrow> response_construction_error + response" where
  [rust_eval]: "builder_empty b = builder_body RBEmpty b"

text \<open>\<^verbatim>\<open>head_mut\<close> used to change the headers with \<open>f\<close>.\<close>

definition with_headers_mut :: "(header_block \<Rightarrow> header_block) \<Rightarrow> response \<Rightarrow> response" where
  [rust_eval]: "with_headers_mut f r =
     r\<lparr>rsp_normalized := False, rsp_head := (rsp_head r)\<lparr>rh_headers := f (rh_headers (rsp_head r))\<rparr>\<rparr>"

definition take_body :: "response \<Rightarrow> response_body option \<times> response" where
  [rust_eval]: "take_body r = (rsp_body r, r\<lparr>rsp_normalized := False, rsp_body := None\<rparr>)"

definition strip_response_trailers :: "response \<Rightarrow> response" where
  [rust_eval]: "strip_response_trailers r =
     (case rsp_body r of
        Some (RBStream s) \<Rightarrow>
          r\<lparr>rsp_body := Some (RBStream (snd (take_trailer_declaration (snd (take_trailer_future s))))),
            rsp_normalized := False\<rparr>
      | _ \<Rightarrow> r\<lparr>rsp_normalized := False\<rparr>)"

definition has_response_trailers :: "response \<Rightarrow> bool" where
  [rust_eval]: "has_response_trailers r =
     (case rsp_body r of Some (RBStream s) \<Rightarrow> stream_has_trailers s | _ \<Rightarrow> False)"

section \<open>Normalisation\<close>

definition not_modified_length ::
  "status_code \<Rightarrow> header_block \<Rightarrow> body_length \<Rightarrow> response_construction_error + u64 option" where
  [rust_eval]: "not_modified_length status b len =
     (if status = 304 then
        (case len of
           Known known \<Rightarrow>
             and_then (map_err (\<lambda>_. ForbiddenFramingHeader ''content-length'')
                 (block_get_unique b ''content-length'')) (\<lambda>v.
               Inr (Option.bind v (\<lambda>v. case header_value_to_str v of
                  Inr s \<Rightarrow> (case parse_u64 s of Some n \<Rightarrow> if n = known then Some n else None | None \<Rightarrow> None)
                | Inl _ \<Rightarrow> None)))
         | Unknown \<Rightarrow> Inr None)
      else Inr None)"

definition push_content_length :: "header_block \<Rightarrow> u64 \<Rightarrow> response_construction_error + header_block" where
  [rust_eval]: "push_content_length b n =
     map_err ConstructionHeader (block_push_bytes b ''content-length'' (dec (unat n)))"

definition normalize_metadata ::
  "status_code \<Rightarrow> header_block \<Rightarrow> body_length \<Rightarrow> response_construction_error + header_block" where
  [rust_eval]: "normalize_metadata status headers len =
     (let headers = strip_hop_by_hop headers in
      if status = 205 \<and> block_contains headers ''content-length''
      then Inl (ForbiddenFramingHeader ''content-length'')
      else and_then (not_modified_length status headers len) (\<lambda>retained.
        let headers = remove_header headers ''content-length'' in
        if permits_payload_body status then
          (case len of Known n \<Rightarrow> push_content_length headers n | Unknown \<Rightarrow> Inr headers)
        else
          (case retained of Some n \<Rightarrow> push_content_length headers n | None \<Rightarrow> Inr headers)))"

definition normalize_response ::
  "response \<Rightarrow> bool \<Rightarrow> (response_construction_error + response) option" where
  [rust_eval]: "normalize_response r is_head =
     (if rsp_normalized r then Some (Inr r)
      else
        let status = rh_status (rsp_head r);
            body = (case rsp_body r of
                      Some (RBEmptyWithLength n) \<Rightarrow>
                        if is_head then Some (RBEmptyWithLength n) else Some RBEmpty
                    | b \<Rightarrow> b)
        in map_option (\<lambda>pre_length.
             let body = (if is_head then
                           Some (case pre_length of
                                   Known len \<Rightarrow>
                                     if permits_payload_body status then RBEmptyWithLength len else RBEmpty
                                 | Unknown \<Rightarrow> RBEmpty)
                         else body);
                 body_len = (if \<not> permits_payload_body status \<and> status \<noteq> 304 then Known 0 else pre_length);
                 body = (if \<not> permits_payload_body status then Some RBEmpty else body)
             in and_then (normalize_metadata status (rh_headers (rsp_head r)) body_len) (\<lambda>headers.
                  Inr \<lparr>rsp_head = \<lparr>rh_status = status, rh_headers = headers\<rparr>, rsp_body = body,
                       rsp_normalized = True\<rparr>))
           (case body of Some b \<Rightarrow> body_length_of b | None \<Rightarrow> Some (Known 0)))"

section \<open>Runtime errors\<close>

text \<open>The three \<^verbatim>\<open>expect\<close> calls: \<open>None\<close> is their panic.\<close>

definition ok_value :: "'e + 'a \<Rightarrow> 'a option" where
  [rust_eval]: "ok_value r = (case r of Inr a \<Rightarrow> Some a | Inl _ \<Rightarrow> None)"

definition runtime_error_with_policy ::
  "status_code \<Rightarrow> bool \<Rightarrow> error_representation_policy \<Rightarrow> response option" where
  [rust_eval]: "runtime_error_with_policy status is_head policy =
     (let text = (case canonical_reason status of
                    Some reason \<Rightarrow> dec status @ '' '' @ reason @ [CHR 0x0A] | None \<Rightarrow> []);
          builder = builder_status status response_builder_new
      in Option.bind (if policy = ErrorMinimal
                      then ok_value (builder_header ''content-type'' ''text/plain; charset=utf-8'' builder)
                      else Some builder) (\<lambda>builder.
         Option.bind (if status = 405
                      then ok_value (builder_header ''allow'' ''GET, HEAD'' builder)
                      else Some builder) (\<lambda>builder.
           ok_value (builder_body
             (if policy = ErrorEmpty \<or> is_head \<or> \<not> permits_payload_body status \<or> text = []
              then RBEmpty else RBBytes text) builder))))"

section \<open>The framing decision\<close>

definition content_length_field :: "u64 \<Rightarrow> header_field" where
  "content_length_field n = \<lparr>hf_name = HeaderName ''content-length'', hf_value = HeaderValue (dec (unat n))\<rparr>"

text \<open>The fields normalisation keeps: end-to-end, not nominated by \<^verbatim>\<open>Connection\<close>, and no length.\<close>

definition end_to_end :: "header_block \<Rightarrow> header_field \<Rightarrow> bool" where
  "end_to_end b f \<longleftrightarrow>
     \<not> is_hop_by_hop_header (name_str (hf_name f))
     \<and> \<not> (\<exists>name\<in>set (connection_tokens b). eq_ignore_ascii_case (name_str (hf_name f)) name)
     \<and> \<not> field_matches ''content-length'' f"

text \<open>The length of the representation a response stands for.\<close>

definition representation_length :: "response \<Rightarrow> bool \<Rightarrow> body_length option" where
  "representation_length r is_head =
     (case rsp_body r of
        None \<Rightarrow> Some (Known 0)
      | Some (RBEmptyWithLength n) \<Rightarrow> Some (Known (if is_head then n else 0))
      | Some b \<Rightarrow> body_length_of b)"

lemma value_of_dec: "header_value_from_bytes (dec n) = Inr (HeaderValue (dec n))"
proof -
  have d: "list_all is_ascii_digit (dec n)" by (rule dec_digits)
  then have "list_all value_byte_ok (dec n)"
    by (auto simp: list_all_iff value_byte_ok_def is_ascii_digit_def)
  moreover have "trim_ows (dec n) = dec n"
  proof -
    have "\<not> is_ows c" if "c \<in> set (dec n)" for c
      using that d by (auto simp: list_all_iff is_ows_def is_ascii_digit_def)
    then have "\<not> is_ows (hd (dec n))" "\<not> is_ows (hd (rev (dec n)))" by (simp_all add: hd_rev)
    then have "dropWhile is_ows (dec n) = dec n" "dropWhile is_ows (rev (dec n)) = rev (dec n)"
      by (simp_all add: dropWhile_eq_self_iff)
    then show ?thesis by (simp add: trim_ows_eq trim_matches_ows_def)
  qed
  ultimately show ?thesis by (simp add: header_value_from_bytes_def validate_header_value_bytes_def)
qed

lemma push_content_length_eq [simp]: "push_content_length b n = Inr (b @ [content_length_field n])"
proof -
  have "header_name_new ''content-length'' = Inr (HeaderName ''content-length'')"
    by (simp add: rust_eval)
  then show ?thesis
    by (simp add: push_content_length_def block_push_bytes_def value_of_dec block_push_def content_length_field_def)
qed

lemma kept_fields:
  "remove_header (strip_hop_by_hop b) ''content-length'' = filter (end_to_end b) b"
proof -
  have "(\<lambda>f. end_to_end b f) = (\<lambda>f. (\<not> is_hop_by_hop_header (name_str (hf_name f))
      \<and> \<not> list_ex (\<lambda>name. eq_ignore_ascii_case (name_str (hf_name f)) name) (connection_tokens b))
      \<and> \<not> eq_ignore_ascii_case (name_str (hf_name f)) ''content-length'')"
    by (simp add: end_to_end_def field_matches_def list_ex_iff fun_eq_iff)
  then show ?thesis
    by (simp add: remove_header_def strip_hop_by_hop_def block_retain_def Let_def conj_commute)
qed

lemma not_modified_length_Some:
  assumes "not_modified_length status b len = Inr (Some n)"
  shows "status = 304 \<and> len = Known n"
proof (cases "status = 304")
  case True
  then obtain known where known: "len = Known known"
    using assms by (cases len) (auto simp: not_modified_length_def)
  let ?pick = "\<lambda>v. case header_value_to_str v of
      Inr s \<Rightarrow> (case parse_u64 s of Some n \<Rightarrow> if n = known then Some n else None | None \<Rightarrow> None)
    | Inl _ \<Rightarrow> None"
  obtain v where "Option.bind v ?pick = Some n"
    using assms True known by (simp add: not_modified_length_def result_inv) blast
  then have "n = known" by (cases v) (auto split: sum.splits option.splits if_splits)
  with True known show ?thesis by simp
qed (use assms in \<open>simp add: not_modified_length_def\<close>)

text \<open>Every successful normalisation of the headers, in one equation.\<close>

lemma normalize_metadata_Inr:
  assumes "normalize_metadata status b len = Inr b'"
  obtains cl where "b' = filter (end_to_end b) b @ cl"
    and "permits_payload_body status \<Longrightarrow> cl = (case len of Known n \<Rightarrow> [content_length_field n] | Unknown \<Rightarrow> [])"
    and "\<not> permits_payload_body status \<Longrightarrow>
      cl = [] \<or> status = 304 \<and> (\<exists>n. len = Known n \<and> cl = [content_length_field n])"
proof -
  obtain retained where r: "not_modified_length status (strip_hop_by_hop b) len = Inr retained"
    and b': "b' = filter (end_to_end b) b @
      (if permits_payload_body status then (case len of Known n \<Rightarrow> [content_length_field n] | Unknown \<Rightarrow> [])
       else (case retained of Some n \<Rightarrow> [content_length_field n] | None \<Rightarrow> []))"
    using assms
    by (auto simp: normalize_metadata_def Let_def result_inv kept_fields split: if_splits body_length.splits option.splits)
  have "status = 304 \<and> len = Known n" if "retained = Some n" for n
    using r that not_modified_length_Some by simp
  then show ?thesis using that b' by (cases retained) auto
qed

section \<open>Lemmas on normalisation\<close>

text \<open>The body left after normalisation, and the length that decides the framing.\<close>

definition normal_body :: "response \<Rightarrow> bool \<Rightarrow> body_length \<Rightarrow> response_body option" where
  "normal_body r is_head len =
     (if \<not> permits_payload_body (rh_status (rsp_head r)) then Some RBEmpty
      else if is_head then Some (case len of Known n \<Rightarrow> RBEmptyWithLength n | Unknown \<Rightarrow> RBEmpty)
      else case rsp_body r of Some (RBEmptyWithLength n) \<Rightarrow> Some RBEmpty | b \<Rightarrow> b)"

definition framing_length :: "status_code \<Rightarrow> body_length \<Rightarrow> body_length" where
  "framing_length status len = (if \<not> permits_payload_body status \<and> status \<noteq> 304 then Known 0 else len)"

lemma normalize_response_unfold:
  assumes "\<not> rsp_normalized r"
  shows "normalize_response r is_head =
    map_option (\<lambda>len. and_then (normalize_metadata (rh_status (rsp_head r)) (rh_headers (rsp_head r))
          (framing_length (rh_status (rsp_head r)) len)) (\<lambda>headers.
        Inr \<lparr>rsp_head = \<lparr>rh_status = rh_status (rsp_head r), rh_headers = headers\<rparr>,
             rsp_body = normal_body r is_head len, rsp_normalized = True\<rparr>))
      (representation_length r is_head)"
  using assms
  by (auto simp: normalize_response_def Let_def framing_length_def normal_body_def representation_length_def
      body_length_of_def split: option.splits response_body.splits body_length.splits intro!: option.map_cong)

lemma content_length_all:
  "block_get_all (filter (end_to_end b) b @ cl) ''content-length'' = block_get_all cl ''content-length''"
proof -
  have "filter (field_matches ''content-length'') (filter (end_to_end b) b) = []"
    by (auto simp: filter_empty_conv end_to_end_def)
  then show ?thesis by (simp add: block_get_all_def)
qed

lemma content_length_matches [simp]: "field_matches ''content-length'' (content_length_field n)"
  by (simp add: field_matches_def content_length_field_def)

text \<open>A header name the runtime owns is not hop-by-hop, so normalising again keeps the rest.\<close>

lemma content_length_not_hop: "\<not> is_hop_by_hop_header ''content-length''"
  by (simp add: rust_eval)

lemma end_to_end_not_connection: "end_to_end b f \<Longrightarrow> \<not> field_matches ''connection'' f"
  by (auto simp: end_to_end_def is_hop_by_hop_header_def field_matches_def)

lemma connection_tokens_kept: "connection_tokens (filter (end_to_end b) b @ cl) = connection_tokens cl"
proof -
  have "filter (field_matches ''connection'') (filter (end_to_end b) b) = []"
    by (auto simp: filter_empty_conv dest: end_to_end_not_connection)
  then show ?thesis by (simp add: connection_tokens_def)
qed

lemma length_fields_no_tokens:
  "cl = [] \<or> cl = [content_length_field n] \<Longrightarrow> connection_tokens cl = []"
  by (auto simp: connection_tokens_def rust_eval content_length_field_def)

text \<open>Normalising already normalised headers changes nothing but the length field.\<close>

lemma kept_again:
  assumes "cl = [] \<or> cl = [content_length_field n]"
  shows "filter (end_to_end (filter (end_to_end b) b @ cl)) (filter (end_to_end b) b @ cl) = filter (end_to_end b) b"
proof -
  let ?b = "filter (end_to_end b) b @ cl"
  have "connection_tokens ?b = []"
    using connection_tokens_kept length_fields_no_tokens [OF assms] by simp
  then have e: "end_to_end ?b f \<longleftrightarrow> \<not> is_hop_by_hop_header (name_str (hf_name f)) \<and> \<not> field_matches ''content-length'' f" for f
    by (simp add: end_to_end_def)
  have "filter (end_to_end ?b) cl = []"
    using assms by (auto simp: filter_empty_conv e simp del: filter.simps)
  moreover have "filter (end_to_end ?b) (filter (end_to_end b) b) = filter (end_to_end b) b"
    by (rule filter_True) (auto simp: e end_to_end_def [of b])
  ultimately show ?thesis by simp
qed

section \<open>Properties\<close>

text \<open>
  C29: normalisation is the framing authority.  Whatever a service returned, the normalised response
  has the same status; no byte is sent for HEAD and for 1xx, 204, 205 and 304; the fields kept are
  exactly the end-to-end ones that no Connection field nominates, in their order; and the length
  header is decided by the representation alone: exactly one field with the known length, none for a
  stream of unknown length, and for a status without payload none except on 304, where it can only
  be the representation's length.  Normalising again is a no-op.
\<close>

theorem normalize_framing:
  assumes "\<not> rsp_normalized r" and "normalize_response r is_head = Some (Inr r')"
  shows "rh_status (rsp_head r') = rh_status (rsp_head r)
    \<and> (is_head \<or> \<not> permits_payload_body (rh_status (rsp_head r)) \<longrightarrow>
         (\<exists>n. rsp_body r' = Some RBEmpty \<or> rsp_body r' = Some (RBEmptyWithLength n)))
    \<and> (\<exists>len cl. representation_length r is_head = Some len
         \<and> rh_headers (rsp_head r') =
             filter (end_to_end (rh_headers (rsp_head r))) (rh_headers (rsp_head r)) @ cl
         \<and> (if permits_payload_body (rh_status (rsp_head r))
            then cl = (case len of Known n \<Rightarrow> [content_length_field n] | Unknown \<Rightarrow> [])
            else cl = [] \<or> rh_status (rsp_head r) = 304
                   \<and> (\<exists>n. len = Known n \<and> cl = [content_length_field n])))
    \<and> normalize_response r' is_head' = Some (Inr r')"
proof -
  let ?s = "rh_status (rsp_head r)"
  obtain len headers where len: "representation_length r is_head = Some len"
    and meta: "normalize_metadata ?s (rh_headers (rsp_head r)) (framing_length ?s len) = Inr headers"
    and r': "r' = \<lparr>rsp_head = \<lparr>rh_status = ?s, rh_headers = headers\<rparr>,
                   rsp_body = normal_body r is_head len, rsp_normalized = True\<rparr>"
    using assms(2) by (auto simp: normalize_response_unfold [OF assms(1)] result_inv)
  obtain cl where "headers = filter (end_to_end (rh_headers (rsp_head r))) (rh_headers (rsp_head r)) @ cl"
    and yes: "permits_payload_body ?s \<Longrightarrow> cl = (case framing_length ?s len of
        Known n \<Rightarrow> [content_length_field n] | Unknown \<Rightarrow> [])"
    and no: "\<not> permits_payload_body ?s \<Longrightarrow>
        cl = [] \<or> ?s = 304 \<and> (\<exists>n. framing_length ?s len = Known n \<and> cl = [content_length_field n])"
    using normalize_metadata_Inr [OF meta] by metis
  moreover from yes no have "if permits_payload_body ?s
     then cl = (case len of Known n \<Rightarrow> [content_length_field n] | Unknown \<Rightarrow> [])
     else cl = [] \<or> ?s = 304 \<and> (\<exists>n. len = Known n \<and> cl = [content_length_field n])"
    by (cases "permits_payload_body ?s") (auto simp: framing_length_def)
  moreover have "normalize_response r' is_head' = Some (Inr r')"
    using r' by (simp add: normalize_response_def)
  moreover have "is_head \<or> \<not> permits_payload_body ?s \<Longrightarrow>
      \<exists>n. rsp_body r' = Some RBEmpty \<or> rsp_body r' = Some (RBEmptyWithLength n)"
    using r' by (auto simp: normal_body_def split: body_length.splits)
  ultimately show ?thesis using len r' by auto
qed

theorem normalize_framing_witness:
  "\<exists>r'. normalize_response
      \<lparr>rsp_head = \<lparr>rh_status = 200, rh_headers = [\<lparr>hf_name = HeaderName ''TE'', hf_value = HeaderValue ''x''\<rparr>]\<rparr>,
       rsp_body = Some (RBBytes ''hello''), rsp_normalized = False\<rparr> True = Some (Inr r')
    \<and> rh_headers (rsp_head r') = [content_length_field 5]"
proof -
  let ?r = "\<lparr>rsp_head = \<lparr>rh_status = 200, rh_headers = [\<lparr>hf_name = HeaderName ''TE'', hf_value = HeaderValue ''x''\<rparr>]\<rparr>,
       rsp_body = Some (RBBytes ''hello''), rsp_normalized = False\<rparr>"
  have rep: "representation_length ?r True = Some (Known 5)"
    by (simp add: representation_length_def body_length_of_def)
  have p: "permits_payload_body 200" by (simp add: rust_eval)
  obtain r' where n: "normalize_response ?r True = Some (Inr r')"
    by (simp add: normalize_response_unfold rep framing_length_def p normalize_metadata_def Let_def
        not_modified_length_def)
  have "filter (end_to_end (rh_headers (rsp_head ?r))) (rh_headers (rsp_head ?r)) = []"
    by (simp add: end_to_end_def is_hop_by_hop_header_def eq_ignore_ascii_case_def rust_eval)
  then show ?thesis using normalize_framing [OF _ n] n rep p by auto
qed

text \<open>
  HEAD mirrors GET at the framing layer.  For any response that does not already stand for a
  suppressed body, normalising for HEAD and for GET succeeds or fails alike, with the same error, and
  produces the same status and the same header list; and a GET response normalised once more after
  its flag was cleared is unchanged.
\<close>

lemma normalize_head_mirrors_get:
  assumes "\<not> rsp_normalized r" and "\<forall>n. rsp_body r \<noteq> Some (RBEmptyWithLength n)"
  shows "map_option (map_sum id rsp_head) (normalize_response r True) =
      map_option (map_sum id rsp_head) (normalize_response r False)
    \<and> (\<forall>r'. normalize_response r False = Some (Inr r') \<longrightarrow> permits_payload_body (rh_status (rsp_head r)) \<longrightarrow>
        normalize_response (r'\<lparr>rsp_normalized := False\<rparr>) False = Some (Inr r'))"
proof (intro conjI allI impI)
  have rep: "representation_length r True = representation_length r False"
    using assms(2) by (auto simp: representation_length_def split: option.splits response_body.splits)
  show "map_option (map_sum id rsp_head) (normalize_response r True) =
      map_option (map_sum id rsp_head) (normalize_response r False)"
    unfolding normalize_response_unfold [OF assms(1)] rep
    by (cases "representation_length r False") (auto simp: and_then_def split: sum.splits)
next
  fix r'
  assume "normalize_response r False = Some (Inr r')" and p: "permits_payload_body (rh_status (rsp_head r))"
  then obtain len headers where len: "representation_length r False = Some len"
    and meta: "normalize_metadata (rh_status (rsp_head r)) (rh_headers (rsp_head r)) len = Inr headers"
    and r': "r' = \<lparr>rsp_head = \<lparr>rh_status = rh_status (rsp_head r), rh_headers = headers\<rparr>,
                   rsp_body = rsp_body r, rsp_normalized = True\<rparr>"
    using assms(2) p
    by (auto simp: normalize_response_unfold [OF assms(1)] result_inv framing_length_def normal_body_def
        split: option.splits response_body.splits)
  from meta obtain cl where h: "headers = filter (end_to_end (rh_headers (rsp_head r))) (rh_headers (rsp_head r)) @ cl"
    and cl: "cl = (case len of Known n \<Rightarrow> [content_length_field n] | Unknown \<Rightarrow> [])"
    using p by (auto elim: normalize_metadata_Inr)
  have not: "rh_status (rsp_head r) \<noteq> 304" "rh_status (rsp_head r) \<noteq> 205"
    using p by (auto simp: permits_payload_body_def)
  have "filter (end_to_end headers) headers = filter (end_to_end (rh_headers (rsp_head r))) (rh_headers (rsp_head r))"
    unfolding h by (rule kept_again [of _ "case len of Known n \<Rightarrow> n | Unknown \<Rightarrow> 0"])
      (auto simp: cl split: body_length.splits)
  then have "normalize_metadata (rh_status (rsp_head r)) headers len = Inr headers"
    using p cl not by (auto simp: normalize_metadata_def Let_def kept_fields not_modified_length_def h split: body_length.splits)
  moreover have "representation_length (r'\<lparr>rsp_normalized := False\<rparr>) False = Some len"
    using len r' by (simp add: representation_length_def split: option.splits response_body.splits)
  ultimately show "normalize_response (r'\<lparr>rsp_normalized := False\<rparr>) False = Some (Inr r')"
    using r' p assms(2)
    by (auto simp: normalize_response_unfold framing_length_def normal_body_def split: option.splits response_body.splits)
qed

lemma normalize_head_mirrors_get_witness:
  "let r = \<lparr>rsp_head = \<lparr>rh_status = 404, rh_headers = []\<rparr>, rsp_body = Some (RBBytes ''no''),
            rsp_normalized = False\<rparr>
   in map_option (map_sum id rsp_head) (normalize_response r True) =
      map_option (map_sum id rsp_head) (normalize_response r False)"
  using normalize_head_mirrors_get
    [of "\<lparr>rsp_head = \<lparr>rh_status = 404, rh_headers = []\<rparr>, rsp_body = Some (RBBytes ''no''),
          rsp_normalized = False\<rparr>"]
  by simp

end
