(* ===== verification/Interim.thy ===== *)
theory Interim
  imports Canonical_Response
begin

text \<open>
  Interim (1xx) responses: \<^verbatim>\<open>eggserve-primitives/src/primitives/interim.rs\<close>.

  The sender is a shared object behind a mutex; every operation holds the lock from start to end, so
  it is a function on the state of the object, and concurrent clones are interleavings of whole
  operations.  A poisoned lock (a panic while it was held) is not modelled: no operation below
  panics.  The property is the invariant of every reachable state: the bounds, the single 100, the
  headers that can never appear, and that commitment is final.
\<close>

section \<open>Limits\<close>

record interim_limits =
  il_max_count :: nat
  il_max_bytes :: nat

definition default_interim_limits :: interim_limits where
  [rust_eval]: "default_interim_limits = \<lparr>il_max_count = 4, il_max_bytes = 8 * 1024\<rparr>"

datatype interim_error =
    NotInterim status_code
  | InterimInvalidHeader header_error
  | InterimForbiddenHeader string
  | InterimTooMany nat nat
  | InterimTooLarge nat nat
  | AfterCommit
  | DuplicateContinue
  | InterimInvalidLimits string

definition interim_limits_new :: "nat \<Rightarrow> nat \<Rightarrow> interim_error + interim_limits" where
  [rust_eval]: "interim_limits_new max_count max_bytes =
     (if \<not> (1 \<le> max_count \<and> max_count \<le> 16) then
        Inl (InterimInvalidLimits (''max_count '' @ dec max_count @ '' outside 1..=16''))
      else if \<not> (512 \<le> max_bytes \<and> max_bytes \<le> 64 * 1024) then
        Inl (InterimInvalidLimits (''max_bytes '' @ dec max_bytes @ '' outside 512..=65536''))
      else Inr \<lparr>il_max_count = max_count, il_max_bytes = max_bytes\<rparr>)"

section \<open>The sender\<close>

datatype interim_disposition = Sent | SuppressedHttp10

record interim_inner =
  ii_limits :: interim_limits
  ii_version :: http_version
  ii_count :: nat
  ii_bytes :: nat
  ii_committed :: bool
  ii_sent_continue :: bool
  ii_recorded :: "(status_code \<times> header_block) list"

definition interim_with_limits :: "http_version \<Rightarrow> interim_limits \<Rightarrow> interim_inner" where
  [rust_eval]: "interim_with_limits version limits =
     \<lparr>ii_limits = limits, ii_version = version, ii_count = 0, ii_bytes = 0, ii_committed = False,
      ii_sent_continue = False, ii_recorded = []\<rparr>"

definition interim_new :: "http_version \<Rightarrow> interim_inner" where
  [rust_eval]: "interim_new version = interim_with_limits version default_interim_limits"

definition normalize_interim_headers :: "header_block \<Rightarrow> interim_error + header_block" where
  [rust_eval]: "normalize_interim_headers b =
     (if block_contains b ''content-length'' then Inl (InterimForbiddenHeader ''content-length'')
      else if block_contains b ''transfer-encoding'' then Inl (InterimForbiddenHeader ''transfer-encoding'')
      else Inr (block_retain (\<lambda>f. \<not> is_hop_by_hop_header (name_str (hf_name f))) b))"

text \<open>
  The number of bytes of a message is the saturating sum over its fields of name and value lengths,
  the same fold as for trailers (\<^const>\<open>trailer_block_bytes\<close>).
\<close>

definition interim_send ::
  "status_code \<Rightarrow> header_block \<Rightarrow> interim_inner \<Rightarrow> (interim_error + interim_disposition) \<times> interim_inner" where
  [rust_eval]: "interim_send code headers g =
     (if \<not> (100 \<le> code \<and> code < 200) \<or> code = 101 then (Inl (NotInterim code), g)
      else if ii_committed g then (Inl AfterCommit, g)
      else if code = 100 \<and> ii_sent_continue g then (Inl DuplicateContinue, g)
      else case normalize_interim_headers headers of
        Inl e \<Rightarrow> (Inl e, g)
      | Inr headers \<Rightarrow>
          let msg_bytes = trailer_block_bytes headers in
          if ii_count g + 1 > il_max_count (ii_limits g) then
            (Inl (InterimTooMany (ii_count g + 1) (il_max_count (ii_limits g))), g)
          else if usize_saturating_add (ii_bytes g) msg_bytes > il_max_bytes (ii_limits g) then
            (Inl (InterimTooLarge (usize_saturating_add (ii_bytes g) msg_bytes)
                    (il_max_bytes (ii_limits g))), g)
          else
            (Inr (if ii_version g = Http10 then SuppressedHttp10 else Sent),
             g\<lparr>ii_count := ii_count g + 1,
               ii_bytes := usize_saturating_add (ii_bytes g) msg_bytes,
               ii_sent_continue := ii_sent_continue g \<or> code = 100,
               ii_recorded := ii_recorded g @ [(code, headers)]\<rparr>))"

definition mark_committed :: "interim_inner \<Rightarrow> interim_inner" where
  [rust_eval]: "mark_committed g = g\<lparr>ii_committed := True\<rparr>"

section \<open>Expectations\<close>

datatype expect_decision = NoExpect | ContinueAccepted | ContinueRejected

definition check_expect_header :: "string option \<Rightarrow> bool \<Rightarrow> string + expect_decision" where
  [rust_eval]: "check_expect_header expect policy_rejects =
     (case expect of
        None \<Rightarrow> Inr NoExpect
      | Some v \<Rightarrow>
          let trimmed = trim v in
          if eq_ignore_ascii_case trimmed ''100-continue'' then
            (if policy_rejects then Inr ContinueRejected else Inr ContinueAccepted)
          else if trimmed = [] then Inr NoExpect
          else Inl trimmed)"

section \<open>Reachable states\<close>

datatype interim_op = Send status_code header_block | Commit

fun interim_apply :: "interim_op \<Rightarrow> interim_inner \<Rightarrow> interim_inner" where
  "interim_apply (Send code headers) g = snd (interim_send code headers g)"
| "interim_apply Commit g = mark_committed g"

inductive interim_reachable :: "http_version \<Rightarrow> interim_limits \<Rightarrow> interim_inner \<Rightarrow> bool"
  for version limits where
  initial: "interim_reachable version limits (interim_with_limits version limits)"
| operate: "interim_reachable version limits g \<Longrightarrow> interim_reachable version limits (interim_apply op g)"

text \<open>What a recorded interim response can look like.\<close>

definition interim_clean :: "status_code \<times> header_block \<Rightarrow> bool" where
  "interim_clean m \<longleftrightarrow> 100 \<le> fst m \<and> fst m < 200 \<and> fst m \<noteq> 101
     \<and> (\<forall>f\<in>set (snd m). \<not> is_hop_by_hop_header (name_str (hf_name f)) \<and> \<not> field_matches ''content-length'' f)"

definition recorded_bytes :: "interim_inner \<Rightarrow> nat" where
  "recorded_bytes g = (\<Sum>m\<leftarrow>ii_recorded g. trailer_block_bytes (snd m))"

definition interim_inv :: "http_version \<Rightarrow> interim_limits \<Rightarrow> interim_inner \<Rightarrow> bool" where
  "interim_inv version limits g \<longleftrightarrow>
     ii_limits g = limits \<and> ii_version g = version
     \<and> ii_count g = length (ii_recorded g) \<and> ii_count g \<le> il_max_count limits
     \<and> ii_bytes g = recorded_bytes g \<and> recorded_bytes g \<le> il_max_bytes limits
     \<and> list_all interim_clean (ii_recorded g)
     \<and> length (filter (\<lambda>m. fst m = 100) (ii_recorded g)) = (if ii_sent_continue g then 1 else 0)"

lemma normalize_interim_clean:
  "normalize_interim_headers b = Inr b' \<Longrightarrow> 100 \<le> code \<Longrightarrow> code < 200 \<Longrightarrow> code \<noteq> 101
   \<Longrightarrow> interim_clean (code, b')"
  by (auto simp: normalize_interim_headers_def interim_clean_def block_retain_def block_contains_def
      list_ex_iff split: if_splits)

lemma usize_saturating_add_below:
  "usize_saturating_add a b \<le> m \<Longrightarrow> m < usize_max \<Longrightarrow> usize_saturating_add a b = a + b"
  by (auto simp: usize_saturating_add_def split: if_splits)

lemma interim_send_cases:
  obtains (Refused) e where "interim_send code headers g = (Inl e, g)"
  | (Recorded) d headers' where "interim_send code headers g = (Inr d,
        g\<lparr>ii_count := ii_count g + 1,
          ii_bytes := usize_saturating_add (ii_bytes g) (trailer_block_bytes headers'),
          ii_sent_continue := ii_sent_continue g \<or> code = 100,
          ii_recorded := ii_recorded g @ [(code, headers')]\<rparr>)"
      "interim_clean (code, headers')" "\<not> ii_committed g" "code = 100 \<longrightarrow> \<not> ii_sent_continue g"
      "ii_count g < il_max_count (ii_limits g)"
      "usize_saturating_add (ii_bytes g) (trailer_block_bytes headers') \<le> il_max_bytes (ii_limits g)"
proof (cases "interim_send code headers g")
  case (Pair r g')
  show ?thesis
  proof (cases r)
    case (Inl e)
    then have "interim_send code headers g = (Inl e, g)"
      using Pair by (auto simp: interim_send_def Let_def split: if_splits sum.splits)
    then show ?thesis by (rule Refused)
  next
    case (Inr d)
    then obtain headers' where "normalize_interim_headers headers = Inr headers'"
      using Pair by (auto simp: interim_send_def Let_def split: if_splits sum.splits)
    then show ?thesis
      using Pair Inr normalize_interim_clean [of headers headers' code]
      by (intro Recorded [of d headers']) (auto simp: interim_send_def Let_def split: if_splits)
  qed
qed

lemma interim_inv_send:
  assumes "interim_inv version limits g" and "il_max_bytes limits < usize_max"
  shows "interim_inv version limits (snd (interim_send code headers g))"
proof (cases rule: interim_send_cases [of code headers g])
  case (Recorded d headers')
  have "usize_saturating_add (ii_bytes g) (trailer_block_bytes headers') =
      ii_bytes g + trailer_block_bytes headers'"
    using Recorded(6) assms by (intro usize_saturating_add_below) (auto simp: interim_inv_def)
  then show ?thesis
    using Recorded assms(1) by (auto simp: interim_inv_def recorded_bytes_def)
qed (use assms in simp)

lemma interim_inv_commit: "interim_inv version limits g \<Longrightarrow> interim_inv version limits (mark_committed g)"
  by (simp add: interim_inv_def mark_committed_def recorded_bytes_def)

lemma interim_reachable_inv:
  assumes "interim_reachable version limits g" and "il_max_bytes limits < usize_max"
  shows "interim_inv version limits g"
  using assms(1)
proof induction
  case initial
  then show ?case by (simp add: interim_inv_def interim_with_limits_def recorded_bytes_def)
next
  case (operate g op)
  then show ?case
    using interim_inv_send [OF operate.IH assms(2)] interim_inv_commit [OF operate.IH]
    by (cases op) simp_all
qed

text \<open>Commitment is final: nothing is recorded any more.\<close>

lemma interim_committed_frozen:
  "ii_committed g \<Longrightarrow> interim_apply op g = g"
proof (cases op)
  case (Send code headers)
  assume "ii_committed g"
  then show ?thesis using Send by (cases rule: interim_send_cases [of code headers g]) auto
qed (simp add: mark_committed_def)

lemma interim_committed_frozen_list: "ii_committed g \<Longrightarrow> fold interim_apply ops g = g"
  by (induction ops) (auto simp: interim_committed_frozen)

section \<open>Properties\<close>

text \<open>
  interim responses are bounded and clean.  However sends and the commit of the final response
  are interleaved, the number of recorded interim responses and the sum of their header bytes stay
  within the configured limits and are counted exactly; every one is a 1xx other than 101 with
  neither framing nor hop-by-hop headers; 100 was recorded at most once; and after the commit no
  operation changes anything.
\<close>

lemma interim_bounded:
  assumes "interim_limits_new max_count max_bytes = Inr limits"
    and "interim_reachable version limits g"
  shows "interim_inv version limits g
    \<and> (ii_committed g \<longrightarrow> fold interim_apply ops g = g)
    \<and> length (ii_recorded g) \<le> 16 \<and> recorded_bytes g \<le> 65536"
proof -
  have l: "il_max_count limits \<le> 16" "il_max_bytes limits \<le> 65536"
    using assms(1) by (auto simp: interim_limits_new_def split: if_splits)
  then have "interim_inv version limits g"
    using interim_reachable_inv [OF assms(2)] by (simp add: usize_max_def)
  then show ?thesis using l interim_committed_frozen_list by (auto simp: interim_inv_def)
qed

lemma interim_bounded_witness:
  "interim_inv Http11 \<lparr>il_max_count = 1, il_max_bytes = 512\<rparr>
     (interim_apply (Send 103 []) (interim_with_limits Http11 \<lparr>il_max_count = 1, il_max_bytes = 512\<rparr>))"
proof -
  have l: "interim_limits_new 1 512 = Inr \<lparr>il_max_count = 1, il_max_bytes = 512\<rparr>"
    by (simp add: interim_limits_new_def)
  show ?thesis using interim_bounded [OF l operate [OF initial]] by blast
qed

end
