(* ===== verification/Tunnel_Intent.thy ===== *)
theory Tunnel_Intent
  imports Canonical_Response Interfaces
begin

text \<open>
  Tunnel intent: \<^verbatim>\<open>eggserve-primitives/src/primitives/tunnel.rs\<close>, the validation of HTTP/1 upgrades
  and extended CONNECT requests and of the handshake headers.

  The loops over the \<^verbatim>\<open>Connection\<close> and \<^verbatim>\<open>Upgrade\<close> fields are folds over the tokens of all fields of
  the name; \<open>None\<close> is the early return of \<^verbatim>\<open>None\<close>.
\<close>

section \<open>Vocabulary\<close>

definition MAX_TUNNEL_PROTOCOL_BYTES :: nat where [rust_eval]: "MAX_TUNNEL_PROTOCOL_BYTES = 64"
definition MAX_TUNNEL_HEADER_COUNT :: nat where [rust_eval]: "MAX_TUNNEL_HEADER_COUNT = 32"
definition MAX_TUNNEL_HEADER_BYTES :: nat where [rust_eval]: "MAX_TUNNEL_HEADER_BYTES = 8 * 1024"

datatype tunnel_kind = Http1Upgrade | ConnectKind | ExtendedConnect

fun tunnel_kind_str :: "tunnel_kind \<Rightarrow> string" where
  "tunnel_kind_str Http1Upgrade = ''http1-upgrade''"
| "tunnel_kind_str ConnectKind = ''connect''"
| "tunnel_kind_str ExtendedConnect = ''extended-connect''"

datatype tunnel_error =
    NoCapability | AlreadyAccepted | TunnelAfterCommit
  | InvalidProtocol string
  | TunnelInvalidHeader header_error
  | TunnelForbiddenHeader string
  | TooManyHeaders nat nat
  | TunnelTooLarge nat nat

definition is_tchar :: "char \<Rightarrow> bool" where
  [rust_eval]: "is_tchar b \<longleftrightarrow>
     byte b \<in> {33, 35, 36, 37, 38, 39, 42, 43, 45, 46, 94, 95, 96, 124, 126}
     \<or> is_ascii_digit b \<or> is_ascii_lowercase b \<or> is_ascii_uppercase b"

datatype protocol_name = ProtocolName (protocol_str: string)

definition protocol_new :: "string \<Rightarrow> tunnel_error + protocol_name" where
  [rust_eval]: "protocol_new s =
     (if s = [] \<or> length s > MAX_TUNNEL_PROTOCOL_BYTES then
        Inl (InvalidProtocol (''protocol length '' @ dec (length s) @ '' outside 1..=64''))
      else if \<not> list_all is_tchar s then Inl (InvalidProtocol ''protocol must be RFC 9110 token'')
      else Inr (ProtocolName s))"

record tunnel_request =
  tr_kind :: tunnel_kind
  tr_protocol :: "protocol_name option"
  tr_authority :: "authority option"

section \<open>Handshake headers\<close>

definition validate_handshake_headers :: "header_block \<Rightarrow> tunnel_error + header_block" where
  [rust_eval]: "validate_handshake_headers b =
     (if block_contains b ''content-length'' then Inl (TunnelForbiddenHeader ''content-length'')
      else if block_contains b ''transfer-encoding'' then Inl (TunnelForbiddenHeader ''transfer-encoding'')
      else
        let b = block_retain (\<lambda>f. \<not> is_hop_by_hop_header (name_str (hf_name f))) b;
            count = length b;
            n = trailer_block_bytes b
        in if count > MAX_TUNNEL_HEADER_COUNT then Inl (TooManyHeaders count MAX_TUNNEL_HEADER_COUNT)
           else if n > MAX_TUNNEL_HEADER_BYTES then Inl (TunnelTooLarge n MAX_TUNNEL_HEADER_BYTES)
           else Inr b)"

section \<open>Classification\<close>

text \<open>The tokens of one field: \<open>None\<close> when the value is not text.\<close>

definition field_tokens :: "header_field \<Rightarrow> string list option" where
  [rust_eval]: "field_tokens f =
     (case header_value_to_str (hf_value f) of
        Inl _ \<Rightarrow> None
      | Inr text \<Rightarrow> Some (map trim_matches_ows (split_char CHR '','' text)))"

fun count_upgrade_tokens :: "string list \<Rightarrow> nat \<Rightarrow> nat option" where
  "count_upgrade_tokens [] n = Some n"
| "count_upgrade_tokens (token # tokens) n =
     (if token = [] then None
      else if \<not> list_all is_tchar token then None
      else count_upgrade_tokens tokens (if eq_ignore_ascii_case token ''upgrade'' then n + 1 else n))"

fun count_upgrades :: "header_block \<Rightarrow> nat \<Rightarrow> nat option" where
  "count_upgrades [] n = Some n"
| "count_upgrades (f # fs) n =
     Option.bind (field_tokens f) (\<lambda>tokens.
     Option.bind (count_upgrade_tokens tokens n) (\<lambda>n. count_upgrades fs n))"

fun push_protocols :: "string list \<Rightarrow> string list \<Rightarrow> string list option" where
  "push_protocols [] protocols = Some protocols"
| "push_protocols (token # tokens) protocols =
     (if token = [] then None else push_protocols tokens (protocols @ [token]))"

fun collect_protocols :: "header_block \<Rightarrow> string list \<Rightarrow> string list option" where
  "collect_protocols [] protocols = Some protocols"
| "collect_protocols (f # fs) protocols =
     Option.bind (field_tokens f) (\<lambda>tokens.
     Option.bind (push_protocols tokens protocols) (\<lambda>protocols. collect_protocols fs protocols))"

definition classify_h1_upgrade :: "header_block \<Rightarrow> http_version \<Rightarrow> protocol_name option" where
  [rust_eval]: "classify_h1_upgrade headers version =
     (if version = Http10 then None
      else if version \<noteq> Http11 then None
      else
        Option.bind (count_upgrades (filter (field_matches ''connection'') headers) 0) (\<lambda>upgrade_count.
          if upgrade_count \<noteq> 1 then None
          else
            Option.bind (collect_protocols (filter (field_matches ''upgrade'') headers) []) (\<lambda>protocols.
              if length protocols \<noteq> 1 then None
              else ok_value (protocol_new (last protocols)))))"

definition classify_extended_protocol :: "string option \<Rightarrow> protocol_name option" where
  [rust_eval]: "classify_extended_protocol protocol =
     Option.bind protocol (\<lambda>v.
       let trimmed = trim_matches_ows v in
       if trimmed = [] then None else ok_value (protocol_new trimmed))"

section \<open>Lemmas\<close>

text \<open>The character class is the token class of the header names.\<close>

lemma is_tchar_token: "is_tchar b \<longleftrightarrow> is_token_byte b"
  unfolding is_tchar_def is_token_byte_def ascii_class Let_def
  by (simp only: insert_iff empty_iff) presburger

interpretation protocol_text: canonical_text protocol_new protocol_str
  by unfold_locales (auto simp: protocol_new_def split: if_splits)

lemma protocol_new_Inr:
  "protocol_new s = Inr p \<longleftrightarrow> p = ProtocolName s \<and> s \<noteq> [] \<and> length s \<le> 64 \<and> list_all is_tchar s"
  by (auto simp: protocol_new_def MAX_TUNNEL_PROTOCOL_BYTES_def)

lemma ok_value_Some: "ok_value r = Some a \<longleftrightarrow> r = Inr a"
  by (cases r) (auto simp: ok_value_def)

lemma count_upgrade_tokens_Some:
  "count_upgrade_tokens tokens n = Some m \<longleftrightarrow>
   (\<forall>t\<in>set tokens. t \<noteq> [] \<and> list_all is_tchar t)
   \<and> n + length (filter (\<lambda>t. eq_ignore_ascii_case t ''upgrade'') tokens) = m"
  by (induction tokens arbitrary: n) auto

lemma push_protocols_Some:
  "push_protocols tokens ps = Some qs \<longleftrightarrow> [] \<notin> set tokens \<and> qs = ps @ tokens"
  by (induction tokens arbitrary: ps) auto

text \<open>All tokens of a list of fields, if all of them are text.\<close>

definition all_tokens :: "header_block \<Rightarrow> string list option" where
  "all_tokens fs = (if \<forall>f\<in>set fs. field_tokens f \<noteq> None
     then Some (concat (map (\<lambda>f. the (field_tokens f)) fs)) else None)"

lemma all_tokens_Cons:
  "all_tokens (f # fs) = Option.bind (field_tokens f) (\<lambda>ts. map_option (\<lambda>us. ts @ us) (all_tokens fs))"
  by (cases "field_tokens f") (auto simp: all_tokens_def)

lemma count_upgrades_Some:
  "count_upgrades fs n = Some m \<longleftrightarrow>
   (\<exists>ts. all_tokens fs = Some ts \<and> (\<forall>t\<in>set ts. t \<noteq> [] \<and> list_all is_tchar t)
     \<and> n + length (filter (\<lambda>t. eq_ignore_ascii_case t ''upgrade'') ts) = m)"
proof (induction fs arbitrary: n)
  case Nil
  then show ?case by (auto simp: all_tokens_def)
next
  case (Cons f fs)
  then show ?case
    by (cases "field_tokens f"; cases "all_tokens fs")
      (fastforce simp: all_tokens_Cons bind_eq_Some_conv count_upgrade_tokens_Some)+
qed

lemma collect_protocols_Some:
  "collect_protocols fs ps = Some qs \<longleftrightarrow> (\<exists>ts. all_tokens fs = Some ts \<and> [] \<notin> set ts \<and> qs = ps @ ts)"
proof (induction fs arbitrary: ps)
  case Nil
  then show ?case by (auto simp: all_tokens_def)
next
  case (Cons f fs)
  then show ?case
    by (cases "field_tokens f"; cases "all_tokens fs")
      (auto simp: all_tokens_Cons bind_eq_Some_conv push_protocols_Some)
qed

section \<open>The specification of an upgrade\<close>

text \<open>
  An HTTP/1 request asks for an upgrade to \<open>p\<close> exactly when its version is 1.1, its Connection fields
  are lists of tokens with one \<^verbatim>\<open>upgrade\<close> among them, and its Upgrade fields together hold exactly one
  element, the protocol.
\<close>

lemma classify_h1_upgrade_iff:
  "classify_h1_upgrade headers version = Some p \<longleftrightarrow>
   version = Http11
   \<and> (\<exists>ts. all_tokens (filter (field_matches ''connection'') headers) = Some ts
       \<and> (\<forall>t\<in>set ts. t \<noteq> [] \<and> list_all is_tchar t)
       \<and> length (filter (\<lambda>t. eq_ignore_ascii_case t ''upgrade'') ts) = 1)
   \<and> all_tokens (filter (field_matches ''upgrade'') headers) = Some [protocol_str p]
   \<and> protocol_new (protocol_str p) = Inr p"
  by (cases p)
    (auto simp: classify_h1_upgrade_def bind_eq_Some_conv count_upgrades_Some collect_protocols_Some
      ok_value_Some protocol_new_Inr length_Suc_conv)

end
