(* ===== verification/Request_Context.thy ===== *)
theory Request_Context
  imports Proxy Request_Body Interim Tunnel_Intent
begin

text \<open>
  What a service sees of a request: \<^verbatim>\<open>request_head.rs\<close>, \<^verbatim>\<open>connection_info.rs\<close>, \<^verbatim>\<open>request_context.rs\<close>
  and \<^verbatim>\<open>request.rs\<close> of \<^verbatim>\<open>eggserve-primitives\<close>.

  The lifecycle handle and the interim sender are shared objects; a record holds the state of the
  object it points to.  The lemmas state the precedence of the sources of client metadata: what
  the transport observed is never overwritten, what an earlier trusted source said wins over a
  later one.
\<close>

section \<open>Request head\<close>

record request_head =
  rq_method :: http_method
  rq_target :: request_target
  rq_version :: http_version
  rq_headers :: header_block
  rq_authority :: "authority option"

definition request_head_new ::
  "http_method \<Rightarrow> request_target \<Rightarrow> http_version \<Rightarrow> header_block \<Rightarrow> request_head" where
  [rust_eval]: "request_head_new m t v h =
     \<lparr>rq_method = m, rq_target = t, rq_version = v, rq_headers = h, rq_authority = None\<rparr>"

definition request_head_new_with_authority ::
  "http_method \<Rightarrow> request_target \<Rightarrow> http_version \<Rightarrow> header_block \<Rightarrow> authority option \<Rightarrow> request_head" where
  [rust_eval]: "request_head_new_with_authority m t v h a =
     \<lparr>rq_method = m, rq_target = t, rq_version = v, rq_headers = h, rq_authority = a\<rparr>"

definition is_head_request :: "request_head \<Rightarrow> bool" where
  [rust_eval]: "is_head_request h \<longleftrightarrow> method_str (rq_method h) = ''HEAD''"

definition is_get_request :: "request_head \<Rightarrow> bool" where
  [rust_eval]: "is_get_request h \<longleftrightarrow> method_str (rq_method h) = ''GET''"

definition head_permits_static_resolution :: "request_head \<Rightarrow> bool" where
  [rust_eval]: "head_permits_static_resolution h \<longleftrightarrow> permits_static_resolution (rq_method h)"

section \<open>Connection metadata\<close>

record tls_info =
  ti_protocol_version :: "string option"
  ti_server_name :: "string option"
  ti_alpn :: "string option"
  ti_client_authenticated :: bool
  ti_peer_certificates_present :: bool
  ti_peer_certificate_chain :: "bytes list option"

record socket_endpoints =
  se_local :: socket_addr
  se_remote :: socket_addr

record connection_info =
  ci_local_addr :: "socket_addr option"
  ci_remote_addr :: "socket_addr option"
  ci_scheme :: scheme
  ci_tls :: "tls_info option"
  ci_proxy_source :: "socket_addr option"
  ci_proxy_destination :: "socket_addr option"
  ci_proxy_provenance :: "proxy_source_kind option"
  ci_effective_client :: "socket_addr option"
  ci_effective_scheme :: "scheme option"
  ci_effective_authority :: "authority option"
  ci_forwarded_provenance :: "proxy_source_kind option"

definition connection_info_new ::
  "socket_addr option \<Rightarrow> socket_addr option \<Rightarrow> scheme \<Rightarrow> tls_info option \<Rightarrow> connection_info" where
  [rust_eval]: "connection_info_new local_addr remote_addr s tls =
     \<lparr>ci_local_addr = local_addr, ci_remote_addr = remote_addr, ci_scheme = s, ci_tls = tls,
      ci_proxy_source = None, ci_proxy_destination = None, ci_proxy_provenance = None,
      ci_effective_client = None, ci_effective_scheme = None, ci_effective_authority = None,
      ci_forwarded_provenance = None\<rparr>"

definition with_socket_addrs ::
  "socket_addr \<Rightarrow> socket_addr \<Rightarrow> scheme \<Rightarrow> tls_info option \<Rightarrow> connection_info" where
  [rust_eval]: "with_socket_addrs local_addr remote_addr s tls =
     connection_info_new (Some local_addr) (Some remote_addr) s tls"

definition without_socket_addrs :: "scheme \<Rightarrow> tls_info option \<Rightarrow> connection_info" where
  [rust_eval]: "without_socket_addrs s tls = connection_info_new None None s tls"

definition with_proxy_endpoints ::
  "socket_addr option \<Rightarrow> socket_addr option \<Rightarrow> proxy_source_kind \<Rightarrow> connection_info \<Rightarrow> connection_info" where
  [rust_eval]: "with_proxy_endpoints source destination kind c =
     c\<lparr>ci_proxy_source := source, ci_proxy_destination := destination,
       ci_proxy_provenance := Some kind,
       ci_effective_client := (if ci_effective_client c = None then source else ci_effective_client c)\<rparr>"

definition with_forwarded_effective :: "forwarded_effective \<Rightarrow> connection_info \<Rightarrow> connection_info" where
  [rust_eval]: "with_forwarded_effective e c =
     c\<lparr>ci_effective_client := (if ci_effective_client c = None then fe_client e else ci_effective_client c),
       ci_effective_scheme := (if ci_effective_scheme c = None then fe_scheme e else ci_effective_scheme c),
       ci_effective_authority :=
         (if ci_effective_authority c = None then fe_authority e else ci_effective_authority c),
       ci_forwarded_provenance := Some (fe_provenance e)\<rparr>"

definition socket_endpoints_of :: "connection_info \<Rightarrow> socket_endpoints option" where
  [rust_eval]: "socket_endpoints_of c =
     (case (ci_local_addr c, ci_remote_addr c) of
        (Some l, Some r) \<Rightarrow> Some \<lparr>se_local = l, se_remote = r\<rparr>
      | _ \<Rightarrow> None)"

definition has_socket_endpoints :: "connection_info \<Rightarrow> bool" where
  [rust_eval]: "has_socket_endpoints c \<longleftrightarrow> ci_local_addr c \<noteq> None \<and> ci_remote_addr c \<noteq> None"

definition effective_client_addr :: "connection_info \<Rightarrow> socket_addr option" where
  [rust_eval]: "effective_client_addr c =
     (case ci_effective_client c of Some a \<Rightarrow> Some a | None \<Rightarrow> ci_remote_addr c)"

definition effective_scheme_value :: "connection_info \<Rightarrow> scheme" where
  [rust_eval]: "effective_scheme_value c = (case ci_effective_scheme c of Some s \<Rightarrow> s | None \<Rightarrow> ci_scheme c)"

definition has_trusted_proxy_metadata :: "connection_info \<Rightarrow> bool" where
  [rust_eval]: "has_trusted_proxy_metadata c \<longleftrightarrow>
     ci_proxy_provenance c \<noteq> None \<or> ci_forwarded_provenance c \<noteq> None"

fun scheme_str :: "scheme \<Rightarrow> string" where
  "scheme_str Http = ''http''"
| "scheme_str Https = ''https''"

definition MAX_SERVER_NAME_LEN :: nat where
  [rust_eval]: "MAX_SERVER_NAME_LEN = 253"

text \<open>A character of the range 0x20 to 0x7E is one byte, and no other byte is in that range.\<close>

definition sanitized_server_name :: "tls_info \<Rightarrow> string option" where
  [rust_eval]: "sanitized_server_name t =
     map_option (\<lambda>n. let filtered = filter (\<lambda>c. 32 \<le> byte c \<and> byte c \<le> 126) n in
       if length filtered > MAX_SERVER_NAME_LEN then take MAX_SERVER_NAME_LEN filtered else filtered)
       (ti_server_name t)"

definition tls_info_display :: "tls_info \<Rightarrow> string" where
  [rust_eval]: "tls_info_display t =
     ''TLS''
     @ (case ti_protocol_version t of Some v \<Rightarrow> '' '' @ v | None \<Rightarrow> [])
     @ (case sanitized_server_name t of Some n \<Rightarrow> '' SNI='' @ n | None \<Rightarrow> [])
     @ (case ti_alpn t of Some a \<Rightarrow> '' ALPN='' @ a | None \<Rightarrow> [])
     @ (if ti_client_authenticated t then '' client-auth'' else [])"

section \<open>Context and request\<close>

record request_context =
  rc_connection :: connection_info
  rc_lifecycle :: request_shared
  rc_interim :: "interim_inner option"
  rc_tunnel_request :: "tunnel_request option"

definition context_new :: "connection_info \<Rightarrow> request_shared \<Rightarrow> request_context" where
  [rust_eval]: "context_new c l =
     \<lparr>rc_connection = c, rc_lifecycle = l, rc_interim = None, rc_tunnel_request = None\<rparr>"

definition context_new_with_version ::
  "connection_info \<Rightarrow> request_shared \<Rightarrow> http_version \<Rightarrow> request_context" where
  [rust_eval]: "context_new_with_version c l v =
     \<lparr>rc_connection = c, rc_lifecycle = l, rc_interim = Some (interim_new v), rc_tunnel_request = None\<rparr>"

definition with_interim :: "interim_inner \<Rightarrow> request_context \<Rightarrow> request_context" where
  [rust_eval]: "with_interim s c = c\<lparr>rc_interim := Some s\<rparr>"

definition with_tunnel_request :: "tunnel_request \<Rightarrow> request_context \<Rightarrow> request_context" where
  [rust_eval]: "with_tunnel_request r c = c\<lparr>rc_tunnel_request := Some r\<rparr>"

record request =
  req_head :: request_head
  req_body :: request_body
  req_context :: request_context

definition request_new :: "request_head \<Rightarrow> request_body \<Rightarrow> connection_info \<Rightarrow> request" where
  [rust_eval]: "request_new h b c =
     \<lparr>req_head = h, req_body = b,
      req_context = context_new_with_version c (rb_shared b) (rq_version h)\<rparr>"

definition request_new_with_lifecycle ::
  "request_head \<Rightarrow> request_body \<Rightarrow> connection_info \<Rightarrow> request_shared \<Rightarrow> request" where
  [rust_eval]: "request_new_with_lifecycle h b c l =
     \<lparr>req_head = h, req_body = b, req_context = context_new c l\<rparr>"

definition request_new_with_context :: "request_head \<Rightarrow> request_body \<Rightarrow> request_context \<Rightarrow> request" where
  [rust_eval]: "request_new_with_context h b c = \<lparr>req_head = h, req_body = b, req_context = c\<rparr>"

definition request_into_parts :: "request \<Rightarrow> request_head \<times> request_body \<times> connection_info" where
  [rust_eval]: "request_into_parts r = (req_head r, req_body r, rc_connection (req_context r))"

section \<open>Precedence of client metadata\<close>

text \<open>No proxy metadata changes what the transport observed.\<close>

lemma transport_facts_kept:
  "ci_local_addr (with_proxy_endpoints s d k c) = ci_local_addr c"
  "ci_remote_addr (with_proxy_endpoints s d k c) = ci_remote_addr c"
  "ci_scheme (with_proxy_endpoints s d k c) = ci_scheme c"
  "ci_remote_addr (with_forwarded_effective e c) = ci_remote_addr c"
  "ci_scheme (with_forwarded_effective e c) = ci_scheme c"
  "ci_tls (with_forwarded_effective e c) = ci_tls c"
  by (simp_all add: with_proxy_endpoints_def with_forwarded_effective_def)

text \<open>
  The client a service sees: the source of the proxy preamble if there is one, else the forwarded
  client, else the peer; the order in which the last two are recorded does not matter once the
  preamble named a source.
\<close>

lemma effective_client_precedence:
  assumes "ci_effective_client c = None"
  shows "effective_client_addr (with_forwarded_effective e (with_proxy_endpoints s d k c)) =
    (case s of Some a \<Rightarrow> Some a
     | None \<Rightarrow> (case fe_client e of Some a \<Rightarrow> Some a | None \<Rightarrow> ci_remote_addr c))"
  using assms
  by (auto simp: effective_client_addr_def with_forwarded_effective_def with_proxy_endpoints_def
      split: option.splits)

text \<open>A server name shown in a diagnostic is printable ASCII and bounded, whatever the client sent.\<close>

lemma sanitized_server_name_printable:
  assumes "sanitized_server_name t = Some n"
  shows "length n \<le> 253 \<and> (\<forall>c\<in>set n. 32 \<le> byte c \<and> byte c \<le> 126)"
  using assms
  by (auto simp: sanitized_server_name_def Let_def MAX_SERVER_NAME_LEN_def split: if_splits
      dest!: in_set_takeD)

end
