(* ===== verification/Service_Contract.thy ===== *)
theory Service_Contract
  imports Request_Context
begin

text \<open>
  The errors of the service contract: \<^verbatim>\<open>ServiceError\<close> of \<^verbatim>\<open>eggserve-server/src/service.rs\<close>, with the
  messages of the errors it is built from (the \<^verbatim>\<open>Display\<close> texts of \<^verbatim>\<open>header_block.rs\<close>,
  \<^verbatim>\<open>canonical/status.rs\<close> and \<^verbatim>\<open>body.rs\<close>).

  The lemma \<open>service_status_final\<close> states what protocol adapters rely on: whatever a service
  reports, the status sent is a final one.
\<close>

section \<open>Messages\<close>

fun header_error_text :: "header_error \<Rightarrow> string" where
  "header_error_text InvalidName = ''invalid header name''"
| "header_error_text InvalidValue = ''invalid header value (contains a control character)''"
| "header_error_text NameTooLong = ''header name too long''"

fun construction_error_text :: "response_construction_error \<Rightarrow> string" where
  "construction_error_text (InvalidStatus code) = ''invalid status code: '' @ dec code"
| "construction_error_text (ConstructionHeader e) = ''invalid header: '' @ header_error_text e"
| "construction_error_text (ForbiddenFramingHeader name) = ''forbidden framing header: '' @ name"
| "construction_error_text BodyAlreadyConsumed = ''response body already consumed''"
| "construction_error_text (ContentLengthMismatch declared actual) =
     ''content-length mismatch: declared '' @ dec (unat declared) @ '', actual '' @ dec (unat actual)"
| "construction_error_text FileStreamLimit = ''file stream admission limit reached''"

fun source_error_text :: "body_source_error \<Rightarrow> string" where
  "source_error_text SourceInvalidRange = ''invalid byte range''"
| "source_error_text SourceAlreadyConsumed = ''resolved file already consumed''"

section \<open>Service errors\<close>

datatype service_error_kind = KindInternal | KindRejected u16 | KindPanic | KindTimeout

record service_error =
  se_kind :: service_error_kind
  se_message :: string

definition service_internal :: "string \<Rightarrow> service_error" where
  [rust_eval]: "service_internal message = \<lparr>se_kind = KindInternal, se_message = message\<rparr>"

definition service_rejected :: "u16 \<Rightarrow> string \<Rightarrow> service_error" where
  [rust_eval]: "service_rejected status message =
     (let status = (if 200 \<le> status \<and> status \<le> 599 then status else 500)
      in \<lparr>se_kind = KindRejected status, se_message = message\<rparr>)"

definition service_panic :: "string \<Rightarrow> service_error" where
  [rust_eval]: "service_panic message = \<lparr>se_kind = KindPanic, se_message = message\<rparr>"

definition service_timeout :: "string \<Rightarrow> service_error" where
  [rust_eval]: "service_timeout message = \<lparr>se_kind = KindTimeout, se_message = message\<rparr>"

definition service_is_panic :: "service_error \<Rightarrow> bool" where
  [rust_eval]: "service_is_panic e \<longleftrightarrow> se_kind e = KindPanic"

definition service_is_timeout :: "service_error \<Rightarrow> bool" where
  [rust_eval]: "service_is_timeout e \<longleftrightarrow> se_kind e = KindTimeout"

definition service_status_code :: "service_error \<Rightarrow> status_code" where
  [rust_eval]: "service_status_code e =
     (let status = (case se_kind e of KindInternal \<Rightarrow> 500 | KindPanic \<Rightarrow> 500
                    | KindRejected status \<Rightarrow> unat status | KindTimeout \<Rightarrow> 504)
      in case status_new status of Inr s \<Rightarrow> s | Inl _ \<Rightarrow> 500)"

definition service_error_text :: "service_error \<Rightarrow> string" where
  [rust_eval]: "service_error_text e =
     (case se_kind e of
        KindInternal \<Rightarrow> ''internal error: '' @ se_message e
      | KindRejected code \<Rightarrow> ''rejected ('' @ dec (unat code) @ ''): '' @ se_message e
      | KindPanic \<Rightarrow> ''handler panicked: '' @ se_message e
      | KindTimeout \<Rightarrow> ''handler timeout: '' @ se_message e)"

fun body_error_message :: "request_body_error \<Rightarrow> string" where
  "body_error_message RejectedByPolicy = ''request body rejected by policy''"
| "body_error_message (DeclaredLengthTooLarge _ _) = ''request body exceeds configured limit''"
| "body_error_message (LimitExceeded _ _) = ''request body exceeds configured limit''"
| "body_error_message ReadTimeout = ''request body read timed out''"
| "body_error_message (PrematureEof _ _) = ''request body ended before its declared length''"
| "body_error_message (LengthMismatch _ _) = ''request body length mismatch''"
| "body_error_message (InvalidChunkFraming _) = ''invalid request body framing''"
| "body_error_message Cancelled = ''request body consumption cancelled''"
| "body_error_message Disconnected = ''client disconnected while sending request body''"
| "body_error_message AlreadyConsumed = ''request body was already consumed''"
| "body_error_message MixedConsumptionMode = ''request body was already consumed''"
| "body_error_message TrailersNotReady = ''request body was already consumed''"
| "body_error_message (TransportError _) = ''request body transport failure''"
| "body_error_message (InvalidTrailers _) = ''invalid request trailers''"

definition from_body_error :: "request_body_error \<Rightarrow> service_error" where
  [rust_eval]: "from_body_error e = service_rejected (to_status_code e) (body_error_message e)"

section \<open>The status of an error\<close>

text \<open>
  Every constructor gives an error whose status is final, so an adapter never sends an interim
  status for it, and the status of a body error is its own.
\<close>

definition service_error_wf :: "service_error \<Rightarrow> bool" where
  "service_error_wf e \<longleftrightarrow> (case se_kind e of KindRejected s \<Rightarrow> 200 \<le> unat s \<and> unat s \<le> 599 | _ \<Rightarrow> True)"

lemma service_error_wf_constructors:
  "service_error_wf (service_internal m)" "service_error_wf (service_rejected s m)"
  "service_error_wf (service_panic m)" "service_error_wf (service_timeout m)"
  "service_error_wf (from_body_error b)"
  by (auto simp: service_error_wf_def rust_eval Let_def word_le_nat_alt)

lemma service_status_final:
  "service_error_wf e \<Longrightarrow> 200 \<le> service_status_code e \<and> service_status_code e \<le> 599"
  by (auto simp: service_error_wf_def service_status_code_def status_new_def split: service_error_kind.splits)

lemma body_error_status: "service_status_code (from_body_error b) = unat (to_status_code b)"
  by (cases b) (simp_all add: rust_eval)

end
