(* ===== verification/Static_Service.thy ===== *)
theory Static_Service
  imports Static_Fs Service_Contract
begin

text \<open>
  The static service: \<^verbatim>\<open>eggserve-static/src/lib.rs\<close>.  It composes the parts modelled so far the way
  \<^verbatim>\<open>StaticService::respond\<close> does: request head, confined resolution, planner, body source,
  canonical response and normalisation.

  A call threads the state of the world through the system calls of the resolver; its result is
  \<open>None\<close> for a panic, and otherwise an error or a response.  The operating system and the HTTP date
  functions are the parameters \<open>os\<close> and \<open>dt\<close>.  Strings are UTF-8 byte strings, so the loop over
  \<^verbatim>\<open>chars()\<close> of \<^verbatim>\<open>html_escape\<close> recognises the control characters \<^verbatim>\<open>U+0080\<close> to \<^verbatim>\<open>U+009F\<close> by their
  two bytes.
\<close>

section \<open>Configuration\<close>

definition DEFAULT_MAX_LISTING_ENTRIES :: nat where
  [rust_eval]: "DEFAULT_MAX_LISTING_ENTRIES = 4096"

definition DEFAULT_MAX_LISTING_RESPONSE_BYTES :: nat where
  [rust_eval]: "DEFAULT_MAX_LISTING_RESPONSE_BYTES = 1024 * 1024"

record static_service_builder =
  ssb_root :: string
  ssb_policy :: static_policy
  ssb_default_content_type :: string
  ssb_extra_response_headers :: "(string \<times> string) list"
  ssb_error_policy :: error_representation_policy
  ssb_max_listing_entries :: nat
  ssb_max_listing_response_bytes :: nat

record static_service =
  ss_root :: secure_root
  ss_default_content_type :: string
  ss_extra_response_headers :: "(string \<times> string) list"
  ss_error_policy :: error_representation_policy
  ss_max_listing_entries :: nat
  ss_max_listing_response_bytes :: nat

definition static_service_builder_new :: "string \<Rightarrow> static_service_builder" where
  [rust_eval]: "static_service_builder_new root =
     \<lparr>ssb_root = root, ssb_policy = static_policy_safe_default,
      ssb_default_content_type = ''application/octet-stream'', ssb_extra_response_headers = [],
      ssb_error_policy = ErrorMinimal, ssb_max_listing_entries = DEFAULT_MAX_LISTING_ENTRIES,
      ssb_max_listing_response_bytes = DEFAULT_MAX_LISTING_RESPONSE_BYTES\<rparr>"

definition ssb_with_policy :: "static_policy \<Rightarrow> static_service_builder \<Rightarrow> static_service_builder" where
  [rust_eval]: "ssb_with_policy policy b = b\<lparr>ssb_policy := policy\<rparr>"

definition ssb_with_default_content_type :: "string \<Rightarrow> static_service_builder \<Rightarrow> static_service_builder" where
  [rust_eval]: "ssb_with_default_content_type ct b = b\<lparr>ssb_default_content_type := ct\<rparr>"

definition ssb_with_extra_response_headers ::
  "(string \<times> string) list \<Rightarrow> static_service_builder \<Rightarrow> static_service_builder" where
  [rust_eval]: "ssb_with_extra_response_headers hs b = b\<lparr>ssb_extra_response_headers := hs\<rparr>"

definition ssb_with_error_policy ::
  "error_representation_policy \<Rightarrow> static_service_builder \<Rightarrow> static_service_builder" where
  [rust_eval]: "ssb_with_error_policy policy b = b\<lparr>ssb_error_policy := policy\<rparr>"

definition ssb_listing_limits :: "nat \<Rightarrow> nat \<Rightarrow> static_service_builder \<Rightarrow> static_service_builder" where
  [rust_eval]: "ssb_listing_limits entries response_bytes b =
     b\<lparr>ssb_max_listing_entries := entries, ssb_max_listing_response_bytes := response_bytes\<rparr>"

text \<open>The text of an I/O error is the platform's, hence the argument \<open>io_text\<close>.\<close>

definition static_service_build ::
  "'w os \<Rightarrow> (io_error \<Rightarrow> string) \<Rightarrow> static_service_builder \<Rightarrow> 'w \<Rightarrow> (service_error + static_service) \<times> 'w" where
  [rust_eval]: "static_service_build os io_text b w =
     (case secure_root_new os (ssb_root b) (ssb_policy b) w of
        (Inl e, w) \<Rightarrow> (Inl (service_internal (''failed to initialize static root: '' @ io_text e)), w)
      | (Inr root, w) \<Rightarrow>
          (Inr \<lparr>ss_root = root, ss_default_content_type = ssb_default_content_type b,
                ss_extra_response_headers = ssb_extra_response_headers b,
                ss_error_policy = ssb_error_policy b,
                ss_max_listing_entries = ssb_max_listing_entries b,
                ss_max_listing_response_bytes = ssb_max_listing_response_bytes b\<rparr>, w))"

section \<open>Directory listings\<close>

text \<open>\<^verbatim>\<open>{:X}\<close> of a number below 256.\<close>

definition hex_byte :: "nat \<Rightarrow> string" where
  [rust_eval]: "hex_byte n = (if n < 16 then [hex_upper n] else [hex_upper (n div 16), hex_upper (n mod 16)])"

definition escape_ascii :: "char \<Rightarrow> string" where
  [rust_eval]: "escape_ascii c =
     (if c = CHR ''&'' then ''&amp;''
      else if c = CHR ''<'' then ''&lt;''
      else if c = CHR ''>'' then ''&gt;''
      else if c = CHR 0x22 then ''&quot;''
      else if c = CHR 0x27 then ''&#x27;''
      else if is_ascii_control c then ''&#x'' @ hex_byte (byte c) @ '';''
      else [c])"

fun html_escape :: "string \<Rightarrow> string" where
  "html_escape [] = []"
| "html_escape (c # s) =
     (case s of
        d # t \<Rightarrow>
          if byte c = 0xC2 \<and> 0x80 \<le> byte d \<and> byte d \<le> 0x9F
          then ''&#x'' @ hex_byte (byte d) @ '';'' @ html_escape t
          else escape_ascii c @ html_escape s
      | [] \<Rightarrow> escape_ascii c)"

definition LISTING_PREFIX :: string where
  [rust_eval]: "LISTING_PREFIX =
     ''<!DOCTYPE html>'' @ [CHR 0x0A] @ ''<html>'' @ [CHR 0x0A] @ ''<head>'' @ [CHR 0x0A]
     @ ''<meta charset='' @ [CHR 0x22] @ ''utf-8'' @ [CHR 0x22] @ ''>'' @ [CHR 0x0A]
     @ ''<title>Directory listing</title>'' @ [CHR 0x0A] @ ''</head>'' @ [CHR 0x0A] @ ''<body>'' @ [CHR 0x0A]
     @ ''<h1>Directory listing</h1>'' @ [CHR 0x0A] @ ''<ul>'' @ [CHR 0x0A]"

definition LISTING_SUFFIX :: string where
  [rust_eval]: "LISTING_SUFFIX =
     ''</ul>'' @ [CHR 0x0A] @ ''</body>'' @ [CHR 0x0A] @ ''</html>'' @ [CHR 0x0A]"

definition listing_link :: "listing_entry \<Rightarrow> string" where
  [rust_eval]: "listing_link e =
     (let slash = (if le_is_dir e then ''/'' else '''') in
      ''<li><a href='' @ [CHR 0x22] @ html_escape (le_href e) @ slash @ [CHR 0x22] @ ''>''
      @ html_escape (le_name e) @ slash @ ''</a></li>'' @ [CHR 0x0A])"

text \<open>\<^verbatim>\<open>a.checked_add(b)\<close> of two \<^verbatim>\<open>usize\<close>, and whether the sum is absent or above the bound.\<close>

definition checked_add_usize :: "nat \<Rightarrow> nat \<Rightarrow> nat option" where
  [rust_eval]: "checked_add_usize a b = (if a + b \<le> usize_max then Some (a + b) else None)"

definition none_or_above :: "nat option \<Rightarrow> nat \<Rightarrow> bool" where
  [rust_eval]: "none_or_above len limit = (case len of None \<Rightarrow> True | Some n \<Rightarrow> n > limit)"

definition listing_too_large :: service_error where
  [rust_eval]: "listing_too_large = service_internal ''directory listing exceeds configured bound''"

fun render_entries :: "nat \<Rightarrow> string \<Rightarrow> listing_entry list \<Rightarrow> service_error + string" where
  "render_entries limit html [] = Inr html"
| "render_entries limit html (e # es) =
     (let link = listing_link e in
      if none_or_above (Option.bind (checked_add_usize (length html) (length link))
           (\<lambda>n. checked_add_usize n (length LISTING_SUFFIX))) limit
      then Inl listing_too_large
      else render_entries limit (html @ link) es)"

definition render_directory_listing :: "listing_entry list \<Rightarrow> nat \<Rightarrow> service_error + bytes" where
  [rust_eval]: "render_directory_listing entries max_response_bytes =
     (if none_or_above (checked_add_usize (length LISTING_PREFIX) (length LISTING_SUFFIX)) max_response_bytes
      then Inl listing_too_large
      else and_then (render_entries max_response_bytes LISTING_PREFIX entries) (\<lambda>html.
        Inr (html @ LISTING_SUFFIX)))"

section \<open>From a plan to a response\<close>

definition path_rejection_response :: "path_rejection \<Rightarrow> status_code \<times> string" where
  [rust_eval]: "path_rejection_response rejection =
     (if rejection \<in> {MalformedPercentEncoding, InvalidUtf8, NulByte, ControlCharacter, PathEmpty,
                       UnsupportedUriForm, TooLong}
      then (400, ''400 Bad Request'' @ [CHR 0x0A])
      else (403, ''403 Forbidden'' @ [CHR 0x0A]))"

abbreviation internal_error :: "response_construction_error \<Rightarrow> service_error" where
  "internal_error e \<equiv> service_internal (construction_error_text e)"

definition normalize_or_internal :: "response \<Rightarrow> bool \<Rightarrow> (service_error + response) option" where
  [rust_eval]: "normalize_or_internal r is_head = map_option (map_err internal_error) (normalize_response r is_head)"

definition plan_response_body :: "static_response_plan \<Rightarrow> body_source \<Rightarrow> bool \<Rightarrow> status_code \<Rightarrow> response_body" where
  [rust_eval]: "plan_response_body plan source is_head status =
     (case plan_body plan of
        BodyEmpty \<Rightarrow>
          if is_head \<and> permits_payload_body status
          then (case Option.bind (plan_get (plan_headers plan) ''content-length'') parse_u64 of
                  Some n \<Rightarrow> RBEmptyWithLength n | None \<Rightarrow> RBEmpty)
          else RBEmpty
      | FullBytes b \<Rightarrow> RBBytes b
      | FileFull \<Rightarrow> RBFile source
      | FileRange _ _ \<Rightarrow> RBFile source)"

fun builder_headers :: "header_map_plan \<Rightarrow> response_builder \<Rightarrow> response_construction_error + response_builder" where
  "builder_headers [] b = Inr b"
| "builder_headers (h # hs) b =
     and_then (builder_header (rh_name h) (rh_value h) b) (\<lambda>b. builder_headers hs b)"

definition response_from_plan ::
  "static_response_plan \<Rightarrow> body_source \<Rightarrow> bool \<Rightarrow> (service_error + response) option" where
  [rust_eval]: "response_from_plan plan source is_head =
     (case status_new (plan_status plan) of
        Inl _ \<Rightarrow> Some (Inl (service_internal ''static planner returned invalid status''))
      | Inr status \<Rightarrow>
          (let body = plan_response_body plan source is_head status in
           case map_err internal_error
               (and_then (builder_headers (plan_headers plan) (builder_status status response_builder_new))
                  (builder_body body)) of
             Inl e \<Rightarrow> Some (Inl e)
           | Inr r \<Rightarrow> normalize_or_internal r is_head))"

section \<open>The service\<close>

text \<open>The six conditional header fields: slots that are lists combine, the others keep the first.\<close>

definition combine_slot :: "string option \<Rightarrow> string \<Rightarrow> string option" where
  [rust_eval]: "combine_slot old text =
     (case old of Some existing \<Rightarrow> Some (existing @ '', '' @ text) | None \<Rightarrow> Some text)"

definition first_slot :: "string option \<Rightarrow> string \<Rightarrow> string option" where
  [rust_eval]: "first_slot old text = (case old of Some existing \<Rightarrow> Some existing | None \<Rightarrow> Some text)"

fun conditional_headers :: "header_block \<Rightarrow> conditionals \<Rightarrow> conditionals" where
  "conditional_headers [] c = c"
| "conditional_headers (f # fs) c =
     (let name = name_str (hf_name f) in
      conditional_headers fs
       (case header_value_to_str (hf_value f) of
          Inl _ \<Rightarrow> c
        | Inr text \<Rightarrow>
            if eq_ignore_ascii_case name ''if-match'' then c\<lparr>c_if_match := combine_slot (c_if_match c) text\<rparr>
            else if eq_ignore_ascii_case name ''if-unmodified-since''
            then c\<lparr>c_if_unmodified_since := first_slot (c_if_unmodified_since c) text\<rparr>
            else if eq_ignore_ascii_case name ''if-none-match''
            then c\<lparr>c_if_none_match := combine_slot (c_if_none_match c) text\<rparr>
            else if eq_ignore_ascii_case name ''if-modified-since''
            then c\<lparr>c_if_modified_since := first_slot (c_if_modified_since c) text\<rparr>
            else if eq_ignore_ascii_case name ''range'' then c\<lparr>c_range := combine_slot (c_range c) text\<rparr>
            else if eq_ignore_ascii_case name ''if-range'' then c\<lparr>c_if_range := first_slot (c_if_range c) text\<rparr>
            else c))"

definition append_extra_headers :: "static_service \<Rightarrow> header_map_plan \<Rightarrow> header_map_plan" where
  [rust_eval]: "append_extra_headers svc headers =
     (let existing = map (\<lambda>h. to_ascii_lowercase (rh_name h)) headers in
      fold (\<lambda>(name, v) hs. if list_ex (\<lambda>entry. eq_ignore_ascii_case entry name) existing then hs
                            else plan_push hs name v)
        (ss_extra_response_headers svc) headers)"

definition push_extra_absent :: "string \<times> string \<Rightarrow> header_block \<Rightarrow> header_block" where
  [rust_eval]: "push_extra_absent nv b =
     (if \<not> block_contains b (fst nv) then push_or_ignore b (fst nv) (snd nv) else b)"

definition error_response ::
  "static_service \<Rightarrow> status_code \<Rightarrow> string \<Rightarrow> bool \<Rightarrow> bool \<Rightarrow> (service_error + response) option" where
  [rust_eval]: "error_response svc status text is_head method_not_allowed =
     (let minimal = (ss_error_policy svc = ErrorMinimal);
          body = (if minimal then
                    (if is_head then RBEmptyWithLength (of_nat (length text)) else RBBytes text)
                  else RBEmpty)
      in case map_err internal_error
             (and_then (if minimal
                        then builder_header ''content-type'' ''text/plain; charset=utf-8''
                               (builder_status status response_builder_new)
                        else Inr (builder_status status response_builder_new)) (\<lambda>b.
              and_then (if method_not_allowed then builder_header ''allow'' ''GET, HEAD'' b else Inr b)
                (builder_body body))) of
           Inl e \<Rightarrow> Some (Inl e)
         | Inr r \<Rightarrow>
             normalize_or_internal
               (with_headers_mut (fold push_extra_absent (ss_extra_response_headers svc)) r) is_head)"

definition file_response ::
  "httpdate \<Rightarrow> static_service \<Rightarrow> resolved_file \<Rightarrow> read_only_method \<Rightarrow> request \<Rightarrow> (service_error + response) option" where
  [rust_eval]: "file_response dt svc file meth req =
     (let detected = rf_content_type file;
          content_type = (if detected = ''application/octet-stream'' then ss_default_content_type svc
                          else detected)
      in Option.bind (plan_with_metadata dt meth (metadata.truncate (rf_metadata file)) content_type
             (conditional_headers (rq_headers (req_head req)) no_conditionals)
             (sp_static_metadata (sr_policy (ss_root svc)))) (\<lambda>plan.
           let plan = plan\<lparr>plan_headers := append_extra_headers svc (plan_headers plan)\<rparr> in
           case into_body file plan of
             Inl e \<Rightarrow> Some (Inl (service_internal (source_error_text e)))
           | Inr source \<Rightarrow> response_from_plan plan source (meth = Head)))"

definition directory_response ::
  "'w os \<Rightarrow> static_service \<Rightarrow> resolved_directory \<Rightarrow> read_only_method \<Rightarrow> 'w
   \<Rightarrow> (service_error + response) option \<times> 'w" where
  [rust_eval]: "directory_response os svc dir meth w =
     (let is_head = (meth = Head) in
      if sp_directory_listing (sr_policy (ss_root svc)) \<noteq> ListingEnabled
      then (error_response svc 403 (''403 Forbidden'' @ [CHR 0x0A]) is_head False, w)
      else case secure_list os (ss_root svc) dir (ss_max_listing_entries svc) w of
        (Inl _, w) \<Rightarrow> (Some (Inl (service_internal ''directory listing failed'')), w)
      | (Inr entries, w) \<Rightarrow>
          ((case render_directory_listing entries (ss_max_listing_response_bytes svc) of
              Inl e \<Rightarrow> Some (Inl e)
            | Inr body \<Rightarrow>
                (let plan = plan_directory_listing (length body) is_head;
                     plan = plan\<lparr>plan_headers := append_extra_headers svc (plan_headers plan)\<rparr>;
                     plan = (if \<not> is_head then plan\<lparr>plan_body := FullBytes body\<rparr> else plan)
                 in response_from_plan plan SourceEmpty is_head)), w))"

definition redirect_response :: "request_target \<Rightarrow> bool \<Rightarrow> (service_error + response) option" where
  [rust_eval]: "redirect_response target is_head =
     (let location = rt_path target @ ''/'' @ (case rt_query target of Some q \<Rightarrow> ''?'' @ q | None \<Rightarrow> [])
      in case map_err internal_error
             (and_then (builder_header ''location'' location (builder_status 301 response_builder_new))
                (builder_body RBEmpty)) of
           Inl e \<Rightarrow> Some (Inl e)
         | Inr r \<Rightarrow> normalize_or_internal r is_head)"

text \<open>The loop over the index names; it falls through to the listing when no name exists.\<close>

fun index_response ::
  "'w os \<Rightarrow> httpdate \<Rightarrow> static_service \<Rightarrow> resolved_directory \<Rightarrow> read_only_method \<Rightarrow> request \<Rightarrow> string list \<Rightarrow> 'w
   \<Rightarrow> (service_error + response) option \<times> 'w" where
  "index_response os dt svc dir meth req [] w = directory_response os svc dir meth w"
| "index_response os dt svc dir meth req (index_name # names) w =
     (case secure_resolve_child os (ss_root svc) dir index_name w of
        (RFile file, w) \<Rightarrow> (file_response dt svc file meth req, w)
      | (RDirectory _, w) \<Rightarrow> (error_response svc 403 (''403 Forbidden'' @ [CHR 0x0A]) (meth = Head) False, w)
      | (RDenied _, w) \<Rightarrow> (error_response svc 403 (''403 Forbidden'' @ [CHR 0x0A]) (meth = Head) False, w)
      | (RIoError _, w) \<Rightarrow> (Some (Inl (service_internal ''filesystem resolution failed'')), w)
      | (RNotFound, w) \<Rightarrow> index_response os dt svc dir meth req names w)"

definition respond ::
  "'w os \<Rightarrow> httpdate \<Rightarrow> static_service \<Rightarrow> request \<Rightarrow> 'w \<Rightarrow> (service_error + response) option \<times> 'w" where
  [rust_eval]: "respond os dt svc req w =
     (let head = req_head req; is_head = is_head_request head in
      if rt_form (rq_target head) = AbsoluteForm
      then (error_response svc 400 (''400 Bad Request'' @ [CHR 0x0A]) is_head False, w)
      else if \<not> head_permits_static_resolution head
      then (error_response svc 405 (''405 Method Not Allowed'' @ [CHR 0x0A]) is_head True, w)
      else
        let meth = (if is_head then Head else Get) in
        case resolve_uri os (ss_root svc) (rt_path (rq_target head)) w of
          (Inl rejection, w) \<Rightarrow>
            (let (status, body) = path_rejection_response rejection
             in (error_response svc status body is_head False, w))
        | (Inr resource, w) \<Rightarrow>
            (case resource of
               RFile file \<Rightarrow> (file_response dt svc file meth req, w)
             | RDirectory dir \<Rightarrow>
                 if \<not> ends_with (rt_path (rq_target head)) ''/''
                 then (redirect_response (rq_target head) is_head, w)
                 else index_response os dt svc dir meth req [''index.html'', ''index.htm''] w
             | RNotFound \<Rightarrow> (error_response svc 404 (''404 Not Found'' @ [CHR 0x0A]) is_head False, w)
             | RDenied _ \<Rightarrow> (error_response svc 403 (''403 Forbidden'' @ [CHR 0x0A]) is_head False, w)
             | RIoError _ \<Rightarrow> (Some (Inl (service_internal ''filesystem resolution failed'')), w)))"

definition static_request_body_policy :: "request_head \<Rightarrow> request_body_policy" where
  [rust_eval]: "static_request_body_policy head = RejectBody"


section \<open>Which responses carry a file\<close>

text \<open>The descriptor a body source reads from.\<close>

fun source_fd :: "body_source \<Rightarrow> fd option" where
  "source_fd (SourceFileFull f _ _) = Some f"
| "source_fd (SourceFileRange f _ _ _) = Some f"
| "source_fd _ = None"

text \<open>\<open>serves P res\<close>: whenever the outcome is a response with a file body, it satisfies \<open>P\<close>.\<close>

definition serves :: "(body_source \<Rightarrow> bool) \<Rightarrow> (service_error + response) option \<Rightarrow> bool" where
  "serves P res \<longleftrightarrow> (\<forall>r src. res = Some (Inr r) \<longrightarrow> rsp_body r = Some (RBFile src) \<longrightarrow> P src)"

lemma serves_simps [simp]: "serves P None" "serves P (Some (Inl e))"
  by (simp_all add: serves_def)

lemma serves_mono: "serves P res \<Longrightarrow> (\<And>src. P src \<Longrightarrow> Q src) \<Longrightarrow> serves Q res"
  by (auto simp: serves_def)

lemma normalize_serves:
  assumes "\<not> rsp_normalized r" and "\<And>src. \<not> is_head \<Longrightarrow> rsp_body r = Some (RBFile src) \<Longrightarrow> P src"
  shows "serves P (normalize_or_internal r is_head)"
  unfolding serves_def
proof (intro allI impI)
  fix r' src
  assume n: "normalize_or_internal r is_head = Some (Inr r')" and body: "rsp_body r' = Some (RBFile src)"
  from n obtain len where "rsp_body r' = normal_body r is_head len"
    by (auto simp: normalize_or_internal_def normalize_response_unfold [OF assms(1)] result_inv)
  then show "P src"
    using body assms(2)
    by (auto simp: normal_body_def split: if_splits option.splits response_body.splits body_length.splits)
qed

text \<open>The common end of every response: build, then normalise.\<close>

lemma built_serves:
  assumes "\<And>r. m = Inr r \<Longrightarrow> serves P (k r)"
  shows "serves P (case map_err h m of Inl e \<Rightarrow> Some (Inl e) | Inr r \<Rightarrow> k r)"
  using assms by (cases m) (simp_all add: map_err_def)

lemma built_body:
  "and_then m (builder_body body) = Inr r \<Longrightarrow> rsp_body r = Some body \<and> \<not> rsp_normalized r"
  by (auto simp: builder_body_def result_inv)

lemma error_response_serves [simp]: "serves P (error_response svc status text is_head mna)"
  unfolding error_response_def Let_def
proof (intro built_serves normalize_serves)
  fix r
  assume "and_then (if ss_error_policy svc = ErrorMinimal
        then builder_header ''content-type'' ''text/plain; charset=utf-8'' (builder_status status response_builder_new)
        else Inr (builder_status status response_builder_new))
      (\<lambda>b. and_then (if mna then builder_header ''allow'' ''GET, HEAD'' b else Inr b)
        (builder_body (if ss_error_policy svc = ErrorMinimal
           then if is_head then RBEmptyWithLength (of_nat (length text)) else RBBytes text else RBEmpty))) = Inr r"
  then show "\<And>src. rsp_body (with_headers_mut f r) = Some (RBFile src) \<Longrightarrow> P src"
    and "\<not> rsp_normalized (with_headers_mut f r)" for f
    by (auto simp only: and_then_Inr [of _ "\<lambda>b. and_then (g b) h" for g h] with_headers_mut_def response.simps
        dest!: built_body split: if_splits) auto
qed

lemma redirect_response_serves [simp]: "serves P (redirect_response target is_head)"
  unfolding redirect_response_def Let_def
  by (intro built_serves normalize_serves) (auto dest: built_body)

lemma response_from_plan_serves:
  assumes "\<not> is_head \<Longrightarrow> plan_body plan = FileFull \<or> (\<exists>a b. plan_body plan = FileRange a b) \<Longrightarrow> P source"
  shows "serves P (response_from_plan plan source is_head)"
proof (cases "status_new (plan_status plan)")
  case (Inr status)
  have "P src" if "\<not> is_head" "plan_response_body plan source is_head status = RBFile src" for src
    using that assms by (auto simp: plan_response_body_def split: body_plan.splits)
  then show ?thesis
    by (simp add: response_from_plan_def Let_def Inr del: not_None_eq)
      (intro built_serves normalize_serves, auto dest: built_body)
qed (simp add: response_from_plan_def)

lemma directory_response_serves [simp]: "serves P (fst (directory_response os svc dir meth w))"
  by (auto simp: directory_response_def Let_def plan_directory_listing_def intro!: response_from_plan_serves
      split: sum.splits prod.splits)

lemma file_response_serves:
  "serves (\<lambda>src. meth \<noteq> Head \<and> source_fd src = Some (rf_file file)) (file_response dt svc file meth req)"
  by (auto simp: file_response_def Let_def into_body_def result_inv bind_eq_Some_conv
      intro!: response_from_plan_serves split: sum.splits Option.bind_splits body_plan.splits if_splits)


section \<open>Confinement of what is served\<close>

text \<open>
  What is relied on of \<^verbatim>\<open>dup\<close>: the duplicate of a directory descriptor denotes the same directory,
  so what is an entry of one is an entry of the other.
\<close>

definition dup_aliases :: "'w os \<Rightarrow> ('w \<Rightarrow> fd \<Rightarrow> bytes \<Rightarrow> fd \<Rightarrow> bool) \<Rightarrow> bool" where
  "dup_aliases os entry \<longleftrightarrow>
     (\<forall>w f f' w'. os_dup os w f = (Inr f', w') \<longrightarrow> (\<forall>w1 c g. entry w1 f' c g \<longrightarrow> entry w1 f c g))"

lemma reached_single: "reached entry d [c] f \<longleftrightarrow> (\<exists>w. entry w d c f)"
proof
  assume "reached entry d [c] f"
  then show "\<exists>w. entry w d c f" by (cases rule: reached.cases) auto
next
  assume "\<exists>w. entry w d c f"
  then show "reached entry d [c] f" using reached.step [OF reached.here] by fastforce
qed

lemma reached_child: "reached entry root cs d \<Longrightarrow> reached entry d [c] f \<Longrightarrow> reached entry root (cs @ [c]) f"
  by (auto simp: reached_single intro: reached.step)

text \<open>A file served from a directory is one of the index names in it, and belongs to a GET.\<close>

lemma index_response_serves:
  assumes "openat_nofollow os entry" and "sp_symlinks (sr_policy (ss_root svc)) = SymlinkPolicyDenied"
  shows "serves (\<lambda>src. meth \<noteq> Head \<and> (\<exists>name\<in>set names. \<exists>f. source_fd src = Some f
      \<and> reached entry (rd_dir_fd dir) [name] f)) (fst (index_response os dt svc dir meth req names w))"
proof (induction names arbitrary: w)
  case (Cons name names)
  obtain r w' where child: "secure_resolve_child os (ss_root svc) dir name w = (r, w')" by fastforce
  have loc: "located entry (rd_dir_fd dir) [name] (rd_components dir @ [name]) r"
    by (rule secure_resolve_child_located [OF assms child])
  show ?case
  proof (cases r)
    case (RFile fl)
    then show ?thesis
      using loc by (auto simp: child located_def intro!: serves_mono [OF file_response_serves])
  next
    case RNotFound
    then show ?thesis by (auto simp: child intro!: serves_mono [OF Cons.IH])
  qed (simp_all add: child)
qed simp

text \<open>Only a request in origin form with a permitted method and a resolved target is answered with a file.\<close>

lemma respond_file_admitted:
  assumes "respond os dt svc req w = (Some (Inr r), w')" and "rsp_body r = Some (RBFile src)"
  shows "rt_form (rq_target (req_head req)) = OriginForm \<and> head_permits_static_resolution (req_head req)
    \<and> (\<exists>res w1. resolve_uri os (ss_root svc) (rt_path (rq_target (req_head req))) w = (Inr res, w1))"
proof -
  have err: "error_response svc status txt0 h mna \<noteq> Some (Inr r)" for status txt0 h mna
    using error_response_serves [of "\<lambda>_. False"] assms(2) by (auto simp: serves_def)
  have form: "rt_form (rq_target (req_head req)) = OriginForm"
    and meth: "head_permits_static_resolution (req_head req)"
    using assms(1) err by (cases "rt_form (rq_target (req_head req))"; auto simp: respond_def Let_def split: if_splits)+
  moreover have "\<exists>res w1. resolve_uri os (ss_root svc) (rt_path (rq_target (req_head req))) w = (Inr res, w1)"
    using assms(1) err form meth
    by (cases "resolve_uri os (ss_root svc) (rt_path (rq_target (req_head req))) w")
      (auto simp: respond_def Let_def path_rejection_response_def split: sum.splits if_splits)
  ultimately show ?thesis by blast
qed

text \<open>Where the descriptors of a resolved target are, the root itself included.\<close>

lemma resolved_reached:
  assumes "openat_nofollow os entry" and "dup_aliases os entry"
    and "sp_symlinks (sr_policy root) = SymlinkPolicyDenied"
    and "resolve_uri os root uri w = (Inr res, w1)"
  obtains cp where "parse_confined uri (uri_path_policy (sr_policy root)) = Inr cp"
    and "list_all (safe_component (uri_path_policy (sr_policy root))) (cp_components cp)"
    and "\<And>fl. res = RFile fl \<Longrightarrow> reached entry (pr_root_fd (sr_pinned root)) (cp_components cp) (rf_file fl)"
    and "\<And>d c f. res = RDirectory d \<Longrightarrow> reached entry (rd_dir_fd d) [c] f \<Longrightarrow>
      reached entry (pr_root_fd (sr_pinned root)) (cp_components cp @ [c]) f"
proof -
  let ?root = "pr_root_fd (sr_pinned root)"
  have dup: "os_dup os w0 d0 = (Inr d1, w1) \<Longrightarrow> entry w2 d1 c g \<Longrightarrow> entry w2 d0 c g" for w0 d0 d1 w1 w2 c g
    using assms(2) unfolding dup_aliases_def by blast
  obtain cp where cp: "parse_confined uri (uri_path_policy (sr_policy root)) = Inr cp"
    and safe: "list_all (safe_component (uri_path_policy (sr_policy root))) (cp_components cp)"
    and below: "cp_components cp \<noteq> [] \<Longrightarrow> located entry ?root (cp_components cp) (cp_components cp) res"
    and at_root: "cp_components cp = [] \<Longrightarrow> (\<exists>e. res = RIoError e) \<or>
      (\<exists>d. res = RDirectory d \<and> rd_components d = [] \<and> os_dup os w ?root = (Inr (rd_dir_fd d), w1))"
    by (rule resolve_uri_located [OF assms(1,3,4)]) blast
  have "reached entry ?root (cp_components cp) (rf_file fl)" if "res = RFile fl" for fl
    using that below at_root by (cases "cp_components cp = []") (auto simp: located_def)
  moreover have "reached entry ?root (cp_components cp @ [c]) f"
    if "res = RDirectory d" and f: "reached entry (rd_dir_fd d) [c] f" for d c f
  proof (cases "cp_components cp = []")
    case True
    then have "os_dup os w ?root = (Inr (rd_dir_fd d), w1)" using at_root that(1) by simp
    from f dup [OF this] True show ?thesis by (auto simp: reached_single)
  next
    case False
    then show ?thesis using below that by (auto simp: located_def intro: reached_child)
  qed
  ultimately show ?thesis using that cp safe by blast
qed

text \<open>A service over the sample tree, with an operator header, and requests to it.\<close>

declare no_conditionals_def [rust_eval] sample_dates_def [rust_eval]

definition sample_service :: static_service where
  [rust_eval]: "sample_service =
     \<lparr>ss_root = sample_root, ss_default_content_type = ''application/octet-stream'',
      ss_extra_response_headers = [(''x-frame-options'', ''DENY'')], ss_error_policy = ErrorMinimal,
      ss_max_listing_entries = 10, ss_max_listing_response_bytes = 4096\<rparr>"

definition sample_target :: "string \<Rightarrow> request_target" where
  [rust_eval]: "sample_target path =
     \<lparr>rt_raw = path, rt_form = OriginForm, rt_scheme = None, rt_authority = None, rt_path_start = 0,
      rt_path_end = length path, rt_query_start = None\<rparr>"

definition sample_request :: "string \<Rightarrow> string \<Rightarrow> request" where
  [rust_eval]: "sample_request meth path =
     request_new (request_head_new (Method meth) (sample_target path) Http11 []) body_empty
       (without_socket_addrs Http None)"

lemma tree_os_dup_aliases: "dup_aliases (tree_os t names) entry"
  by (simp add: dup_aliases_def tree_os_def)

section \<open>Rendering of a listing\<close>

definition listing_page :: "listing_entry list \<Rightarrow> string" where
  "listing_page es = LISTING_PREFIX @ concat (map listing_link es) @ LISTING_SUFFIX"

lemma add_above:
  "none_or_above (checked_add_usize a b) limit \<longleftrightarrow> a + b > min limit usize_max"
  by (auto simp: none_or_above_def checked_add_usize_def)

lemma add_add_above:
  "none_or_above (Option.bind (checked_add_usize a b) (\<lambda>n. checked_add_usize n c)) limit
     \<longleftrightarrow> a + b + c > min limit usize_max"
  by (auto simp: none_or_above_def checked_add_usize_def)

lemma render_entries_exact:
  assumes "length html + length LISTING_SUFFIX \<le> min limit usize_max"
  shows "render_entries limit html es =
    (if length (html @ concat (map listing_link es) @ LISTING_SUFFIX) \<le> min limit usize_max
     then Inr (html @ concat (map listing_link es)) else Inl listing_too_large)"
  using assms
proof (induction es arbitrary: html)
  case (Cons e es)
  show ?case
  proof (cases "length html + length (listing_link e) + length LISTING_SUFFIX > min limit usize_max")
    case True
    then have "render_entries limit html (e # es) = Inl listing_too_large"
      by (simp add: Let_def add_add_above del: min_less_iff_disj)
    with True show ?thesis by auto
  next
    case False
    then have "render_entries limit html (e # es) = render_entries limit (html @ listing_link e) es"
      by (simp add: Let_def add_add_above del: min_less_iff_disj)
    moreover have "length (html @ listing_link e) + length LISTING_SUFFIX \<le> min limit usize_max"
      using False by auto
    ultimately show ?thesis using Cons.IH [of "html @ listing_link e"] by (simp add: add.assoc del: min.bounded_iff)
  qed
qed simp

lemma render_directory_listing_exact:
  "render_directory_listing es limit =
     (if length (listing_page es) \<le> min limit usize_max then Inr (listing_page es) else Inl listing_too_large)"
proof (cases "length LISTING_PREFIX + length LISTING_SUFFIX \<le> min limit usize_max")
  case True
  then show ?thesis
    using render_entries_exact [OF True, of es]
    by (auto simp: render_directory_listing_def add_above listing_page_def and_then_def)
next
  case False
  then show ?thesis by (auto simp: render_directory_listing_def add_above listing_page_def)
qed

text \<open>The bytes an escaped text can have.\<close>

definition escaped_byte :: "char \<Rightarrow> bool" where
  "escaped_byte c \<longleftrightarrow> c \<notin> {CHR ''<'', CHR ''>'', CHR 0x22, CHR 0x27} \<and> \<not> is_ascii_control c"

lemma hex_upper_escaped:
  assumes "n < 16" shows "escaped_byte (hex_upper n)"
proof -
  have "n \<in> {0, 1, 2, 3, 4, 5, 6, 7, 8, 9, 10, 11, 12, 13, 14, 15}" using assms by simp presburger
  then show ?thesis by (auto simp: escaped_byte_def hex_upper_def is_ascii_control_def)
qed

lemma hex_byte_escaped [simp]: "list_all escaped_byte (hex_byte (byte c))"
proof -
  have "byte c div 16 < (16 :: nat)" "byte c mod 16 < (16 :: nat)" by simp_all
  then show ?thesis using hex_upper_escaped by (simp add: hex_byte_def)
qed

lemma escaped_literals [simp]:
  "escaped_byte CHR ''&''" "escaped_byte CHR ''#''" "escaped_byte CHR ''x''" "escaped_byte CHR '';''"
  by (simp_all add: escaped_byte_def is_ascii_control_def)

lemma escape_ascii_escaped [simp]: "list_all escaped_byte (escape_ascii c)"
  by (auto simp: escape_ascii_def escaped_byte_def [of c]) (simp_all add: escaped_byte_def is_ascii_control_def)

lemma html_escape_escaped [simp]: "list_all escaped_byte (html_escape s)"
  by (induction s rule: html_escape.induct) (auto split: list.splits)

text \<open>No control character \<^verbatim>\<open>U+0080\<close> to \<^verbatim>\<open>U+009F\<close> is in a text.\<close>

definition c1_control :: "char \<Rightarrow> char \<Rightarrow> bool" where
  "c1_control c d \<longleftrightarrow> byte c = 0xC2 \<and> 0x80 \<le> byte d \<and> byte d \<le> 0x9F"

fun has_c1 :: "string \<Rightarrow> bool" where
  "has_c1 (c # d # s) \<longleftrightarrow> c1_control c d \<or> has_c1 (d # s)"
| "has_c1 _ \<longleftrightarrow> False"

lemma has_c1_Cons: "has_c1 (c # s) \<longleftrightarrow> s \<noteq> [] \<and> c1_control c (hd s) \<or> has_c1 s"
  by (cases s) auto

lemma has_c1_ascii: "list_all is_ascii xs \<Longrightarrow> has_c1 (xs @ s) = has_c1 s"
  by (induction xs) (auto simp: has_c1_Cons c1_control_def is_ascii_def)

lemma hex_upper_ascii: "n < 16 \<Longrightarrow> is_ascii (hex_upper n)"
  by (auto simp: hex_upper_def is_ascii_def)

lemma hex_byte_ascii: "list_all is_ascii (hex_byte (byte c))"
proof -
  have "byte c div 16 < (16 :: nat)" "byte c mod 16 < (16 :: nat)" by simp_all
  then show ?thesis using hex_upper_ascii by (simp add: hex_byte_def)
qed

lemma escape_ascii_cases: "list_all is_ascii (escape_ascii c) \<or> escape_ascii c = [c]"
  using hex_byte_ascii [of c] by (auto simp: escape_ascii_def is_ascii_def)

lemma escape_ascii_hd: "hd (escape_ascii c) \<in> {CHR ''&'', c}" "escape_ascii c \<noteq> []"
  by (auto simp: escape_ascii_def)

lemma html_escape_step:
  "html_escape (c # s) = escape_ascii c @ html_escape s
   \<or> (\<exists>r. html_escape (c # s) = ''&#x'' @ r)"
proof (cases s)
  case (Cons d t)
  then show ?thesis by (cases "byte c = 0xC2 \<and> 0x80 \<le> byte d \<and> byte d \<le> 0x9F") simp_all
qed simp

lemma html_escape_hd:
  assumes "s \<noteq> []"
  shows "html_escape s \<noteq> [] \<and> hd (html_escape s) \<in> {CHR ''&'', hd s}"
proof -
  obtain c t where s: "s = c # t" using assms by (cases s) auto
  show ?thesis unfolding s using html_escape_step [of c t] escape_ascii_hd [of c] by (elim disjE exE conjE) auto
qed

lemma html_escape_no_c1: "\<not> has_c1 (html_escape s)"
proof (induction s rule: html_escape.induct)
  case (2 c s)
  have amp: "\<not> c1_control c CHR ''&''" by (simp add: c1_control_def)
  show ?case
  proof (cases s)
    case Nil
    then show ?thesis using has_c1_ascii [of "escape_ascii c" "[]"] escape_ascii_cases [of c] by auto
  next
    case (Cons d t)
    show ?thesis
    proof (cases "c1_control c d")
      case True
      then have e: "html_escape (c # s) = (''&#x'' @ hex_byte (byte d) @ '';'') @ html_escape t"
        using Cons by (simp add: c1_control_def)
      have "list_all is_ascii (''&#x'' @ hex_byte (byte d) @ '';'')"
        using hex_byte_ascii [of d] by (simp add: is_ascii_def)
      moreover have "\<not> has_c1 (html_escape t)" using 2(1) Cons True by (simp add: c1_control_def)
      ultimately show ?thesis unfolding e using has_c1_ascii by blast
    next
      case False
      then have e: "html_escape (c # s) = escape_ascii c @ html_escape s" using Cons by (auto simp: c1_control_def)
      have ih: "\<not> has_c1 (html_escape s)" using 2(2) [OF Cons] False Cons by (simp add: c1_control_def)
      have "\<not> has_c1 (c # html_escape s)"
        unfolding has_c1_Cons using ih html_escape_hd [of s] False amp Cons by auto
      then show ?thesis unfolding e using escape_ascii_cases [of c] ih by (auto simp: has_c1_ascii)
    qed
  qed
qed simp

text \<open>
  What a browser makes of an escaped text: the character references that the escaping uses are read as their
  characters, in UTF-8.
\<close>

definition code_point_bytes :: "nat \<Rightarrow> string" where
  "code_point_bytes n = (if n < 128 then [char_of n] else [char_of (0xC0 + n div 64), char_of (0x80 + n mod 64)])"

definition character_reference :: "string \<Rightarrow> (string \<times> string) option" where
  "character_reference s =
     (if take 4 s = ''amp;'' then Some (''&'', drop 4 s)
      else if take 3 s = ''lt;'' then Some (''<'', drop 3 s)
      else if take 3 s = ''gt;'' then Some (''>'', drop 3 s)
      else if take 5 s = ''quot;'' then Some ([CHR 0x22], drop 5 s)
      else if take 2 s = ''#x'' then
        (let digits = takeWhile (\<lambda>c. c \<noteq> CHR '';'') (drop 2 s)
         in if digits \<noteq> [] \<and> length digits \<le> 2 \<and> list_all (\<lambda>c. hex_digit c \<noteq> None) digits
            then Some (code_point_bytes (foldl (\<lambda>n c. 16 * n + the (hex_digit c)) 0 digits),
                       drop (length digits + 3) s)
            else None)
      else None)"

lemma character_reference_shorter: "character_reference s = Some (t, r) \<Longrightarrow> length r \<le> length s"
  by (auto simp: character_reference_def Let_def split: if_splits)

function html_text :: "string \<Rightarrow> string" where
  "html_text [] = []"
| "html_text (c # s) =
     (if c = CHR ''&'' then
        (case character_reference s of Some (t, r) \<Rightarrow> t @ html_text r | None \<Rightarrow> c # html_text s)
      else c # html_text s)"
  by pat_completeness auto
termination by (relation "measure length") (auto dest: character_reference_shorter)

lemma hex_upper_digit: "n < 16 \<Longrightarrow> hex_digit (hex_upper n) = Some n \<and> hex_upper n \<noteq> CHR '';''"
  by (auto simp: hex_upper_def hex_digit_def)

lemma hex_byte_digits:
  assumes "n < 256"
  shows "takeWhile (\<lambda>c. c \<noteq> CHR '';'') (hex_byte n @ CHR '';'' # r) = hex_byte n" "hex_byte n \<noteq> []" "length (hex_byte n) \<le> 2"
    "list_all (\<lambda>c. hex_digit c \<noteq> None) (hex_byte n)" "foldl (\<lambda>n c. 16 * n + the (hex_digit c)) 0 (hex_byte n) = n"
proof -
  have "n div 16 < 16" "n mod 16 < 16" using assms by auto
  then have d: "hex_digit (hex_upper (n div 16)) = Some (n div 16)" "hex_digit (hex_upper (n mod 16)) = Some (n mod 16)"
    "hex_upper (n div 16) \<noteq> CHR '';''" "hex_upper (n mod 16) \<noteq> CHR '';''" using hex_upper_digit by blast+
  have s: "n < 16 \<Longrightarrow> hex_digit (hex_upper n) = Some n" "n < 16 \<Longrightarrow> hex_upper n \<noteq> CHR '';''" using hex_upper_digit by blast+
  show "takeWhile (\<lambda>c. c \<noteq> CHR '';'') (hex_byte n @ CHR '';'' # r) = hex_byte n" "hex_byte n \<noteq> []" "length (hex_byte n) \<le> 2"
    "list_all (\<lambda>c. hex_digit c \<noteq> None) (hex_byte n)" "foldl (\<lambda>n c. 16 * n + the (hex_digit c)) 0 (hex_byte n) = n"
    using d s by (simp_all add: hex_byte_def)
qed

lemma byte_less: "byte c < (256 :: nat)"
  by simp

lemma numeric_reference:
  assumes "n < 256"
  shows "html_text (''&#x'' @ hex_byte n @ CHR '';'' # r) = code_point_bytes n @ html_text r"
proof -
  note h = hex_byte_digits(1) [OF assms, of r] hex_byte_digits(2-5) [OF assms]
  have "character_reference (''#x'' @ hex_byte n @ CHR '';'' # r) = Some (code_point_bytes n, r)"
    using h by (simp add: character_reference_def Let_def numeral_3_eq_3)
  then show ?thesis by simp
qed

lemma html_text_ascii: "html_text (escape_ascii c @ r) = c # html_text r"
proof (cases "is_ascii_control c")
  case True
  then have n: "byte c < 128" "byte c < 256" by (auto simp: is_ascii_control_def)
  have "escape_ascii c = ''&#x'' @ hex_byte (byte c) @ '';''" using True by (auto simp: escape_ascii_def is_ascii_control_def)
  then show ?thesis using numeric_reference [OF n(2), of r] n(1) by (simp add: code_point_bytes_def)
next
  case False
  have "html_text (''&#x27;'' @ r) = CHR 0x27 # html_text r"
    by (simp add: character_reference_def hex_digit_def code_point_bytes_def)
  with False show ?thesis by (auto simp: escape_ascii_def character_reference_def)
qed

lemma c1_bytes: "128 \<le> n \<Longrightarrow> n \<le> 159 \<Longrightarrow> n div 64 = 2 \<and> 128 + n mod 64 = (n :: nat)"
proof -
  assume n: "128 \<le> n" "n \<le> 159"
  then have "n div 64 = 2" by (intro div_nat_eqI) simp_all
  moreover have "n = n div 64 * 64 + n mod 64" by simp
  ultimately show ?thesis by simp
qed

lemma c1_code_point:
  assumes "byte c = 0xC2" "0x80 \<le> byte d" "byte d \<le> 0x9F"
  shows "code_point_bytes (byte d) = [c, d]"
proof -
  have c: "char_of (byte c :: nat) = c" and d: "char_of (byte d :: nat) = d" by (simp_all only: char_of_char)
  have n: "byte d div 64 = 2" "128 + byte d mod 64 = byte d" "\<not> byte d < 128" using c1_bytes [OF assms(2,3)] assms(2) by simp_all
  have "code_point_bytes (byte d) = [char_of (192 + 2 :: nat), char_of (byte d :: nat)]"
    unfolding code_point_bytes_def n(1,2) using n(3) by simp
  moreover have "192 + 2 = byte c" using assms(1) by simp
  ultimately show ?thesis using c d by metis
qed

text \<open>A browser reads an escaped text as the text itself, whatever it is.\<close>

lemma html_text_escape: "html_text (html_escape s) = s"
proof (induction s rule: html_escape.induct)
  case (2 c s)
  show ?case
  proof (cases s)
    case Nil
    then show ?thesis using html_text_ascii [of c "[]"] by simp
  next
    case (Cons d t)
    show ?thesis
    proof (cases "byte c = 0xC2 \<and> 0x80 \<le> byte d \<and> byte d \<le> 0x9F")
      case True
      then have e: "html_escape (c # s) = ''&#x'' @ hex_byte (byte d) @ CHR '';'' # html_escape t" using Cons by simp
      have "code_point_bytes (byte d) = [c, d]" using c1_code_point True by blast
      then show ?thesis unfolding e numeric_reference [OF byte_less] using 2(1) [OF Cons True] Cons by simp
    next
      case False
      then have e: "html_escape (c # s) = escape_ascii c @ html_escape s" using Cons by auto
      show ?thesis unfolding e html_text_ascii using 2(2) [OF Cons False] Cons by simp
    qed
  qed
qed simp

text \<open>The characters that open or close markup in HTML.\<close>

definition markup :: "char \<Rightarrow> bool" where
  "markup c \<longleftrightarrow> c \<in> {CHR ''<'', CHR ''>'', CHR 0x22, CHR 0x27}"

lemma filter_markup_escape [simp]: "filter markup (html_escape s) = []"
  using html_escape_escaped [of s] by (auto simp: filter_empty_conv list_all_iff escaped_byte_def markup_def)

lemma filter_markup_link:
  "filter markup (listing_link e) = ''<><'' @ [CHR 0x22, CHR 0x22] @ ''><><>''"
  by (simp add: listing_link_def Let_def) (simp add: markup_def)

lemma filter_markup_page:
  "filter markup (listing_page es) = filter markup LISTING_PREFIX
     @ concat (replicate (length es) (''<><'' @ [CHR 0x22, CHR 0x22] @ ''><><>'')) @ filter markup LISTING_SUFFIX"
  by (induction es) (simp_all add: listing_page_def filter_markup_link filter_concat)

section \<open>Redirects\<close>

lemma decode_bytes_backslash:
  "decode_bytes s = Inr d \<Longrightarrow> CHR 0x5C \<in> set s \<Longrightarrow> CHR 0x5C \<in> set d"
proof (induction s arbitrary: d rule: decode_induct)
  case (Escape h l rest)
  moreover have "hex_digit CHR 0x5C = None" by (simp add: rust_eval)
  ultimately show ?case
    by (auto simp: decode_bytes_inv simp del: decode_bytes.simps)
next
  case (Short s)
  then show ?case by (cases s) (auto simp: decode_bytes_inv simp del: decode_bytes.simps)
qed (auto simp: decode_bytes_inv simp del: decode_bytes.simps(2))

lemma admitted_no_backslash:
  assumes "parse_confined raw policy = Inr cp" and "reject_backslash policy" and "parse_target raw = Inr t"
  shows "CHR 0x5C \<notin> set (rt_path t)"
proof
  assume bs: "CHR 0x5C \<in> set (rt_path t)"
  have "from_path_component (rt_path t) policy = Inr cp"
    using assms(1,3) by (auto elim: parse_confined_InrD)
  then have "\<exists>d. CHR 0x5C \<in> set d \<and> list_all (safe_component policy) (split_components d)"
  proof (cases rule: from_path_component_cases)
    case 1
    then show ?thesis using bs by (auto simp: fast_path_Inr)
  next
    case 2
    then show ?thesis
      using bs by (auto simp: general_path_Inr dest!: percent_decode_InrD decode_bytes_backslash)
  qed
  then obtain d c where "c \<in> set (split_components d)" "CHR 0x5C \<in> set c" "list_all (safe_component policy) (split_components d)"
    using split_components_covers by fastforce
  then show False using assms(2) by (auto simp: list_all_iff safe_component_def)
qed

lemma clean_header_value:
  assumes "list_all (\<lambda>c. \<not> target_byte_bad c) v"
  shows "header_value_from_bytes v = Inr (HeaderValue v)"
proof -
  have ok: "list_all value_byte_ok v" and ows: "\<And>c. c \<in> set v \<Longrightarrow> \<not> is_ows c"
    using assms by (auto simp: list_all_iff target_byte_bad_def value_byte_ok_def is_ascii_control_def
        is_ascii_whitespace_def is_ows_def)
  have "dropWhile is_ows w = w" if "set w \<subseteq> set v" for w
    using that ows by (cases w) auto
  then have "trim_ows v = v" by (simp add: trim_ows_eq trim_matches_ows_def)
  then show ?thesis using ok by (simp add: header_value_from_bytes_def validate_header_value_bytes_def)
qed

definition location_field :: "string \<Rightarrow> header_field" where
  "location_field v = \<lparr>hf_name = HeaderName ''location'', hf_value = HeaderValue v\<rparr>"

definition redirect_location :: "request_target \<Rightarrow> string" where
  "redirect_location t = rt_path t @ ''/'' @ (case rt_query t of Some q \<Rightarrow> ''?'' @ q | None \<Rightarrow> [])"

lemma location_prefix:
  assumes "starts_with (rt_path t) ''/''" and "\<not> starts_with (rt_path t) ''//''" and "\<not> ends_with (rt_path t) ''/''"
  shows "starts_with (redirect_location t) ''/'' \<and> \<not> starts_with (redirect_location t) ''//''"
proof -
  obtain c p where "rt_path t = CHR ''/'' # c # p"
    using assms(1,3) by (cases "rt_path t" rule: strip_ws.cases) (auto simp: starts_with_def ends_with_def)
  then show ?thesis using assms(2) by (simp add: starts_with_def redirect_location_def)
qed

lemma redirect_response_exact:
  assumes "list_all (\<lambda>c. \<not> target_byte_bad c) (redirect_location t)"
  shows "redirect_response t is_head = Some (Inr
    \<lparr>rsp_head = \<lparr>rh_status = 301, rh_headers = [location_field (redirect_location t), content_length_field 0]\<rparr>,
     rsp_body = Some (if is_head then RBEmptyWithLength 0 else RBEmpty), rsp_normalized = True\<rparr>)"
proof -
  let ?b = "[location_field (redirect_location t)]"
  let ?r = "\<lparr>rsp_head = \<lparr>rh_status = 301, rh_headers = ?b\<rparr>, rsp_body = Some RBEmpty, rsp_normalized = False\<rparr>"
  have "and_then (builder_header ''location'' (redirect_location t) (builder_status 301 response_builder_new))
      (builder_body RBEmpty) = Inr ?r"
    using clean_header_value [OF assms] by (simp add: location_field_def rust_eval)
  moreover have "connection_tokens ?b = []"
    by (simp add: connection_tokens_def location_field_def rust_eval)
  then have "filter (end_to_end ?b) ?b = ?b"
    by (simp add: end_to_end_def location_field_def rust_eval)
  then have "normalize_metadata 301 ?b (Known 0) = Inr (?b @ [content_length_field 0])"
    by (simp add: normalize_metadata_def Let_def kept_fields not_modified_length_def permits_payload_body_def
        is_informational_def)
  then have "normalize_response ?r is_head = Some (Inr
    \<lparr>rsp_head = \<lparr>rh_status = 301, rh_headers = ?b @ [content_length_field 0]\<rparr>,
     rsp_body = Some (if is_head then RBEmptyWithLength 0 else RBEmpty), rsp_normalized = True\<rparr>)"
    by (simp add: normalize_response_unfold representation_length_def body_length_of_def framing_length_def
        normal_body_def permits_payload_body_def is_informational_def)
  ultimately show ?thesis
    by (simp add: redirect_response_def Let_def redirect_location_def [symmetric] normalize_or_internal_def map_err_def
        del: append_Cons)
qed

section \<open>HEAD and GET\<close>

text \<open>Status and headers of an outcome.\<close>

definition heads :: "(service_error + response) option \<Rightarrow> (service_error + response_head) option" where
  "heads = map_option (map_sum id rsp_head)"

text \<open>An outcome of normalisation for HEAD: nothing but a length is left of a body.\<close>

definition no_bytes :: "(service_error + response) option \<Rightarrow> bool" where
  "no_bytes res \<longleftrightarrow> (\<forall>r. res = Some (Inr r) \<longrightarrow>
     (\<exists>n. rsp_body r = Some RBEmpty \<or> rsp_body r = Some (RBEmptyWithLength n)))"

lemma no_bytes_simps [simp]: "no_bytes None" "no_bytes (Some (Inl e))"
  by (simp_all add: no_bytes_def)

lemma normalize_no_bytes: "\<not> rsp_normalized r \<Longrightarrow> no_bytes (normalize_or_internal r True)"
  by (auto simp: no_bytes_def normalize_or_internal_def normalize_response_unfold normal_body_def result_inv
      split: body_length.split_asm)

lemma built_no_bytes:
  assumes "\<And>r. m = Inr r \<Longrightarrow> no_bytes (k r)"
  shows "no_bytes (case map_err h m of Inl e \<Rightarrow> Some (Inl e) | Inr r \<Rightarrow> k r)"
  using assms by (cases m) (simp_all add: map_err_def)

lemma normalize_heads_cong:
  assumes "\<not> rsp_normalized r" and "\<not> rsp_normalized r'" and "rsp_head r = rsp_head r'"
    and "representation_length r h = representation_length r' h'"
  shows "heads (normalize_or_internal r h) = heads (normalize_or_internal r' h')"
  unfolding heads_def normalize_or_internal_def normalize_response_unfold [OF assms(1)]
    normalize_response_unfold [OF assms(2)] assms(3,4)
  by (cases "representation_length r' h'") (auto simp: and_then_def map_err_def split: sum.splits)

text \<open>Two header lists that differ only in fields normalisation removes give the same head.\<close>

lemma normalize_heads_filter:
  assumes "\<not> rsp_normalized r" and "\<not> rsp_normalized r'"
    and "rh_status (rsp_head r) = 200" and "rh_status (rsp_head r') = 200"
    and "filter (end_to_end (rh_headers (rsp_head r))) (rh_headers (rsp_head r)) =
         filter (end_to_end (rh_headers (rsp_head r'))) (rh_headers (rsp_head r'))"
    and "representation_length r h = representation_length r' h'"
  shows "heads (normalize_or_internal r h) = heads (normalize_or_internal r' h')"
proof -
  have "normalize_metadata 200 (rh_headers (rsp_head r)) len = normalize_metadata 200 (rh_headers (rsp_head r')) len" for len
    using assms(5) by (simp add: normalize_metadata_def Let_def kept_fields not_modified_length_def split: body_length.splits)
  then show ?thesis
    unfolding heads_def normalize_or_internal_def normalize_response_unfold [OF assms(1)]
      normalize_response_unfold [OF assms(2)] assms(3,4,6)
    by (cases "representation_length r' h'") (auto simp: and_then_def map_err_def split: sum.splits)
qed

text \<open>The fields of a plan, validated one by one.\<close>

fun checked_fields :: "header_map_plan \<Rightarrow> response_construction_error + header_block" where
  "checked_fields [] = Inr []"
| "checked_fields (h # hs) =
     and_then (map_err ConstructionHeader (header_name_new (rh_name h))) (\<lambda>n.
     and_then (map_err ConstructionHeader (header_value_from_bytes (rh_value h))) (\<lambda>v.
     and_then (checked_fields hs) (\<lambda>fs. Inr (\<lparr>hf_name = n, hf_value = v\<rparr> # fs))))"

lemma builder_headers_checked:
  "builder_headers hs b = and_then (checked_fields hs) (\<lambda>fs. Inr (b\<lparr>bld_headers := bld_headers b @ fs\<rparr>))"
  by (induction hs arbitrary: b) (auto simp: builder_header_def block_push_def and_then_def split: sum.splits)

lemma checked_fields_append:
  "checked_fields (xs @ ys) = and_then (checked_fields xs) (\<lambda>fs. and_then (checked_fields ys) (\<lambda>gs. Inr (fs @ gs)))"
  by (induction xs) (auto simp: and_then_def split: sum.splits)

lemma response_from_plan_checked:
  "response_from_plan plan source is_head =
     (case status_new (plan_status plan) of
        Inl _ \<Rightarrow> Some (Inl (service_internal ''static planner returned invalid status''))
      | Inr status \<Rightarrow>
          (case checked_fields (plan_headers plan) of
             Inl e \<Rightarrow> Some (Inl (internal_error e))
           | Inr fs \<Rightarrow> normalize_or_internal
               \<lparr>rsp_head = \<lparr>rh_status = status, rh_headers = fs\<rparr>,
                rsp_body = Some (plan_response_body plan source is_head status), rsp_normalized = False\<rparr> is_head))"
  by (auto simp: response_from_plan_def Let_def builder_headers_checked builder_status_def response_builder_new_def
      block_new_def builder_body_def and_then_def map_err_def ok_or_def split: sum.splits)

lemma response_from_plan_no_bytes: "no_bytes (response_from_plan plan source True)"
  by (auto simp: response_from_plan_checked normalize_no_bytes split: sum.splits)

text \<open>The operator headers a plan gets.\<close>

definition extra_fields :: "static_service \<Rightarrow> header_map_plan \<Rightarrow> header_map_plan" where
  "extra_fields svc hs = map (\<lambda>(name, v). \<lparr>rh_name = name, rh_value = v\<rparr>)
     (filter (\<lambda>(name, v). \<not> plan_contains hs name) (ss_extra_response_headers svc))"

lemma append_extra_eq: "append_extra_headers svc hs = hs @ extra_fields svc hs"
proof -
  have fold: "fold (\<lambda>(name, v) hs. if p name then hs else plan_push hs name v) xs hs
      = hs @ map (\<lambda>(name, v). \<lparr>rh_name = name, rh_value = v\<rparr>) (filter (\<lambda>(name, v). \<not> p name) xs)" for p xs hs
    by (induction xs arbitrary: hs) (auto simp: plan_push_def)
  have "list_ex (\<lambda>entry. eq_ignore_ascii_case entry name) (map (\<lambda>h. to_ascii_lowercase (rh_name h)) hs)
      \<longleftrightarrow> plan_contains hs name" for name
    by (simp add: plan_contains_def list_ex_iff eq_ignore_ascii_case_def)
  then show ?thesis by (simp add: append_extra_headers_def Let_def fold extra_fields_def)
qed

lemma plan_get_extends: "plan_get hs name = Some v \<Longrightarrow> plan_get (hs @ ex) name = Some v"
  unfolding plan_get_def by (induction hs) (auto split: if_splits)

lemma parse_u64_dec: "parse_u64 (dec (unat (n :: u64))) = Some n"
  using parse_unsigned_dec [of "unat n" 64] unat_u64_less [of n] by (simp add: parse_u64_def)


lemma file_response_planned_heads:
  assumes "rq_headers (req_head req) = rq_headers (req_head req')"
    and "date_formattable (metadata.truncate (rf_metadata fl)) (sp_static_metadata (sr_policy (ss_root svc)))"
  shows "heads (file_response dt svc fl Head req) = heads (file_response dt svc fl Get req')"
proof -
  let ?m = "metadata.truncate (rf_metadata fl)"
  define ct where "ct = (if rf_content_type fl = ''application/octet-stream'' then ss_default_content_type svc
                          else rf_content_type fl)"
  define c where "c = conditional_headers (rq_headers (req_head req')) no_conditionals"
  define policy where "policy = sp_static_metadata (sr_policy (ss_root svc))"
  obtain q where q: "plan_with_metadata dt Get ?m ct c policy = Some q" and con: "plan_consistent Get ?m q"
    using plan_consistent_total [OF assms(2)] policy_def by blast
  then have p: "plan_with_metadata dt Head ?m ct c policy = Some (strip_body q)"
    by (simp add: plan_head_strip)
  obtain src n where src: "into_body fl q = Inr src" and len: "source_len src = Some n"
    and body: "plan_body q = BodyEmpty \<and> src = SourceEmpty \<or>
      plan_get (plan_headers q) ''content-length'' = Some (dec (unat n))
        \<and> (plan_body q = FileFull \<or> (\<exists>a b. plan_body q = FileRange a b))"
    using into_body_consistent [OF con] by blast
  let ?with = "\<lambda>plan. plan\<lparr>plan_headers := append_extra_headers svc (plan_headers plan)\<rparr>"
  have head: "file_response dt svc fl Head req = response_from_plan (?with (strip_body q)) SourceEmpty True"
    unfolding file_response_def using assms(1) p
    by (simp add: Let_def ct_def [symmetric] c_def policy_def into_body_def strip_body_def)
  have "into_body fl (?with q) = Inr src" using src by (simp add: into_body_def)
  then have get: "file_response dt svc fl Get req' = response_from_plan (?with q) src False"
    unfolding file_response_def using q
    by (simp add: Let_def ct_def [symmetric] c_def policy_def)
  have rep: "representation_length \<lparr>rsp_head = h, rsp_body = Some (plan_response_body (?with (strip_body q)) SourceEmpty True s),
        rsp_normalized = False\<rparr> True =
      representation_length \<lparr>rsp_head = h, rsp_body = Some (plan_response_body (?with q) src False s),
        rsp_normalized = False\<rparr> False" if "s = plan_status q" for h s
  proof (cases "plan_body q = BodyEmpty")
    case True
    then have "s = 304 \<or> plan_get (plan_headers q) ''content-length'' = Some (dec (unat (0 :: u64)))"
      using con that by (auto simp: plan_consistent_def dec.simps digit_char_def)
    then show ?thesis
      using True plan_get_extends parse_u64_dec [of 0]
      by (auto simp: plan_response_body_def strip_body_def representation_length_def body_length_of_def
          append_extra_eq permits_payload_body_def dec.simps)
  next
    case False
    then have cl: "plan_get (plan_headers q) ''content-length'' = Some (dec (unat n))"
      and fb: "plan_body q = FileFull \<or> (\<exists>a b. plan_body q = FileRange a b)" using body by auto
    have "permits_payload_body s"
      using con that fb by (auto simp: plan_consistent_def permits_payload_body_def is_informational_def)
    then show ?thesis
      using fb plan_get_extends [OF cl] parse_u64_dec [of n] len
      by (auto simp: plan_response_body_def strip_body_def representation_length_def body_length_of_def
          append_extra_eq)
  qed
  show ?thesis
    unfolding head get response_from_plan_checked
    by (auto simp: strip_body_def status_new_def split: sum.splits
        intro!: normalize_heads_cong) (use rep [OF refl] in \<open>simp add: strip_body_def\<close>)
qed

lemma file_response_heads:
  assumes "rq_headers (req_head req) = rq_headers (req_head req')"
  shows "heads (file_response dt svc fl Head req) = heads (file_response dt svc fl Get req')"
proof (cases "date_formattable (metadata.truncate (rf_metadata fl)) (sp_static_metadata (sr_policy (ss_root svc)))")
  case False
  then show ?thesis by (simp add: file_response_def Let_def plan_with_metadata_eq)
qed (rule file_response_planned_heads [OF assms])

lemma built_heads_cong:
  assumes "\<And>hd r. representation_length \<lparr>rsp_head = hd, rsp_body = Some body, rsp_normalized = False\<rparr> h
      = representation_length \<lparr>rsp_head = hd, rsp_body = Some body', rsp_normalized = False\<rparr> h'"
  shows "heads (case map_err g (and_then m (builder_body body)) of
        Inl e \<Rightarrow> Some (Inl e) | Inr r \<Rightarrow> normalize_or_internal (with_headers_mut f r) h)
    = heads (case map_err g (and_then m (builder_body body')) of
        Inl e \<Rightarrow> Some (Inl e) | Inr r \<Rightarrow> normalize_or_internal (with_headers_mut f r) h')"
proof (cases m)
  case (Inr b)
  then show ?thesis
    by (cases "bld_status b")
      (auto simp: builder_body_def map_err_def ok_or_def with_headers_mut_def intro!: normalize_heads_cong assms)
qed (simp add: map_err_def)

lemma and_then_assoc: "and_then m (\<lambda>a. and_then (k a) l) = and_then (and_then m k) l"
  by (cases m) simp_all

lemma error_response_heads:
  "heads (error_response svc status text True mna) = heads (error_response svc status text False mna)"
  unfolding error_response_def Let_def and_then_assoc
  by (rule built_heads_cong) (auto simp: representation_length_def body_length_of_def)

lemma redirect_response_heads: "heads (redirect_response t True) = heads (redirect_response t False)"
  by (auto simp: redirect_response_def Let_def representation_length_def map_err_def body_length_of_def
      intro!: normalize_heads_cong dest!: built_body split: sum.splits)

text \<open>The two plans of a listing differ in the length field, which normalisation sets anyway.\<close>

lemma checked_length_field:
  "checked_fields (xs @ \<lparr>rh_name = ''content-length'', rh_value = dec n\<rparr> # ys) =
     and_then (checked_fields xs) (\<lambda>fs. and_then (checked_fields ys) (\<lambda>gs.
       Inr (fs @ \<lparr>hf_name = HeaderName ''content-length'', hf_value = HeaderValue (dec n)\<rparr> # gs)))"
proof -
  have "header_name_new ''content-length'' = Inr (HeaderName ''content-length'')" by (simp add: rust_eval)
  then show ?thesis
    by (auto simp: checked_fields_append value_of_dec and_then_def map_err_def split: sum.splits)
qed

lemma end_to_end_skip_length:
  fixes n :: nat
  defines "cl \<equiv> \<lparr>hf_name = HeaderName ''content-length'', hf_value = HeaderValue (dec n)\<rparr>"
  shows "filter (end_to_end (fs @ cl # gs)) (fs @ cl # gs) = filter (end_to_end (fs @ gs)) (fs @ gs)"
proof -
  have not: "\<not> field_matches ''connection'' cl" "field_matches ''content-length'' cl"
    by (simp_all add: cl_def rust_eval)
  then have "connection_tokens (fs @ cl # gs) = connection_tokens (fs @ gs)"
    by (simp add: connection_tokens_def)
  then have "end_to_end (fs @ cl # gs) = end_to_end (fs @ gs)" by (simp add: end_to_end_def fun_eq_iff)
  then show ?thesis using not by (simp add: end_to_end_def)
qed

lemma listing_heads:
  assumes "list_all (\<lambda>(name, v). \<not> eq_ignore_ascii_case name ''content-length'') (ss_extra_response_headers svc)"
    and "render_directory_listing es limit = Inr body"
  shows "heads (response_from_plan (plan_directory_listing (length body) True\<lparr>plan_headers :=
        append_extra_headers svc (plan_headers (plan_directory_listing (length body) True))\<rparr>) SourceEmpty True) =
    heads (response_from_plan (plan_directory_listing (length body) False\<lparr>plan_headers :=
        append_extra_headers svc (plan_headers (plan_directory_listing (length body) False)), plan_body := FullBytes body\<rparr>)
      SourceEmpty False)"
proof -
  let ?h = "plan_headers (plan_directory_listing (length body) True)"
  let ?g = "plan_headers (plan_directory_listing (length body) False)"
  let ?cl = "\<lparr>rh_name = ''content-length'', rh_value = dec (length body)\<rparr>"
  obtain x ys where g: "?g = [x] @ ys" and h: "?h = [x] @ ?cl # ys"
    by (simp add: plan_directory_listing_def Let_def plan_push_def plan_new_def)
  have "plan_contains ?h name \<longleftrightarrow> plan_contains ?g name" if "\<not> eq_ignore_ascii_case name ''content-length''" for name
    using that by (auto simp: g h plan_contains_def eq_ignore_ascii_case_def)
  then have ex: "extra_fields svc ?h = extra_fields svc ?g"
    using assms(1) by (auto simp: extra_fields_def list_all_iff intro!: arg_cong [where f = "map _"] filter_cong)
  have len: "unat (of_nat (length body) :: u64) = length body"
    using assms(2) by (auto simp: render_directory_listing_exact usize_max_def unat_of_nat split: if_splits)
  have "plan_get ?h ''content-length'' = Some (dec (length body))"
    by (simp add: plan_directory_listing_def Let_def plan_push_def plan_new_def plan_get_def rust_eval)
  then have cl: "Option.bind (plan_get (?h @ extra_fields svc ?g) ''content-length'') parse_u64 = Some (of_nat (length body))"
    using plan_get_extends parse_u64_dec [of "of_nat (length body)"] len by (simp add: bind_eq_Some_conv)
  have status: "plan_status (plan_directory_listing n b) = 200" "status_new 200 = Inr 200" for n b
    by (simp_all add: plan_directory_listing_def Let_def STATUS_OK_def status_new_def)
  have body: "plan_body (plan_directory_listing n True) = BodyEmpty" for n
    by (simp add: plan_directory_listing_def Let_def)
  have payload: "permits_payload_body 200" by (simp add: rust_eval)
  have fields: "checked_fields (?h @ extra_fields svc ?g) =
      and_then (checked_fields [x]) (\<lambda>fs. and_then (checked_fields (ys @ extra_fields svc ?g)) (\<lambda>gs.
        Inr (fs @ \<lparr>hf_name = HeaderName ''content-length'', hf_value = HeaderValue (dec (length body))\<rparr> # gs)))"
    "checked_fields (?g @ extra_fields svc ?g) =
      and_then (checked_fields [x]) (\<lambda>fs. and_then (checked_fields (ys @ extra_fields svc ?g)) (\<lambda>gs. Inr (fs @ gs)))"
    unfolding h unfolding g
    using checked_length_field [of "[x]" "length body" "ys @ extra_fields svc ([x] @ ys)"]
      checked_fields_append [of "[x]" "ys @ extra_fields svc ([x] @ ys)"] by (simp_all del: checked_fields.simps)
  show ?thesis
    unfolding response_from_plan_checked append_extra_eq ex
    using cl
    by (cases "checked_fields [x]"; cases "checked_fields (ys @ extra_fields svc ?g)")
      (auto simp: status fields body payload plan_response_body_def representation_length_def body_length_of_def
        end_to_end_skip_length simp del: checked_fields.simps filter.simps filter_append intro!: normalize_heads_filter)
qed


lemma directory_response_heads:
  assumes "list_all (\<lambda>(name, v). \<not> eq_ignore_ascii_case name ''content-length'') (ss_extra_response_headers svc)"
  shows "heads (fst (directory_response os svc dir Head w)) = heads (fst (directory_response os svc dir Get w))
    \<and> snd (directory_response os svc dir Head w) = snd (directory_response os svc dir Get w)"
  unfolding directory_response_def Let_def
  by (auto simp: error_response_heads listing_heads [OF assms] simp del: fold_simps
      split: sum.splits prod.splits)

lemma index_response_heads:
  assumes "list_all (\<lambda>(name, v). \<not> eq_ignore_ascii_case name ''content-length'') (ss_extra_response_headers svc)"
    and "rq_headers (req_head req) = rq_headers (req_head req')"
  shows "heads (fst (index_response os dt svc dir Head req names w)) = heads (fst (index_response os dt svc dir Get req' names w))
    \<and> snd (index_response os dt svc dir Head req names w) = snd (index_response os dt svc dir Get req' names w)"
  by (induction names arbitrary: w)
    (auto simp: directory_response_heads [OF assms(1)] error_response_heads file_response_heads [OF assms(2)]
      split: resolved_resource.splits prod.splits)

lemma error_response_no_bytes: "no_bytes (error_response svc status text True mna)"
  unfolding error_response_def Let_def
  by (intro built_no_bytes normalize_no_bytes) (auto simp: with_headers_mut_def)

lemma redirect_response_no_bytes: "no_bytes (redirect_response t True)"
  unfolding redirect_response_def Let_def
  by (intro built_no_bytes normalize_no_bytes) (auto dest: built_body)


lemma file_response_no_bytes: "no_bytes (file_response dt svc fl Head req)"
  by (auto simp: file_response_def Let_def response_from_plan_no_bytes split: sum.splits Option.bind_splits)

lemma directory_response_no_bytes: "no_bytes (fst (directory_response os svc dir Head w))"
  by (auto simp: directory_response_def Let_def response_from_plan_no_bytes error_response_no_bytes
      split: sum.splits prod.splits)

lemma index_response_no_bytes: "no_bytes (fst (index_response os dt svc dir Head req names w))"
  by (induction names arbitrary: w)
    (auto simp: directory_response_no_bytes error_response_no_bytes file_response_no_bytes
      split: resolved_resource.splits prod.splits)

lemmas head_mirrors = error_response_heads redirect_response_heads file_response_heads index_response_heads
lemmas head_no_bytes = error_response_no_bytes redirect_response_no_bytes file_response_no_bytes index_response_no_bytes


section \<open>Properties\<close>

lemma served_confined:
  assumes "openat_nofollow os entry" and "dup_aliases os entry"
    and "sp_symlinks (sr_policy (ss_root svc)) = SymlinkPolicyDenied"
    and "respond os dt svc req w = (Some (Inr r), w')" and "rsp_body r = Some (RBFile src)"
  shows "\<exists>cp suffix f. is_get_request (req_head req) \<and> rt_form (rq_target (req_head req)) = OriginForm
    \<and> parse_confined (rt_path (rq_target (req_head req))) (uri_path_policy (sr_policy (ss_root svc))) = Inr cp
    \<and> list_all (safe_component (uri_path_policy (sr_policy (ss_root svc)))) (cp_components cp)
    \<and> suffix \<in> {[], [''index.html''], [''index.htm'']} \<and> source_fd src = Some f
    \<and> reached entry (pr_root_fd (sr_pinned (ss_root svc))) (cp_components cp @ suffix) f"
proof -
  let ?head = "req_head req" and ?root = "pr_root_fd (sr_pinned (ss_root svc))"
  have form: "rt_form (rq_target ?head) = OriginForm" and meth: "head_permits_static_resolution ?head"
    using respond_file_admitted [OF assms(4,5)] by simp_all
  obtain res w1 where uri: "resolve_uri os (ss_root svc) (rt_path (rq_target ?head)) w = (Inr res, w1)"
    using respond_file_admitted [OF assms(4,5)] by blast
  obtain cp where cp: "parse_confined (rt_path (rq_target ?head)) (uri_path_policy (sr_policy (ss_root svc))) = Inr cp"
    and safe: "list_all (safe_component (uri_path_policy (sr_policy (ss_root svc)))) (cp_components cp)"
    and whole: "\<And>fl. res = RFile fl \<Longrightarrow> reached entry ?root (cp_components cp) (rf_file fl)"
    and child: "\<And>d c f. res = RDirectory d \<Longrightarrow> reached entry (rd_dir_fd d) [c] f \<Longrightarrow>
      reached entry ?root (cp_components cp @ [c]) f"
    by (rule resolved_reached [OF assms(1,2,3) uri]) blast
  have "serves (\<lambda>src. \<not> is_head_request ?head \<and> (\<exists>suffix\<in>{[], [''index.html''], [''index.htm'']}. \<exists>f.
      source_fd src = Some f \<and> reached entry ?root (cp_components cp @ suffix) f)) (fst (respond os dt svc req w))"
    using form meth uri whole child
    by (cases res) (auto simp: respond_def Let_def simp del: index_response.simps
        intro!: serves_mono [OF file_response_serves] serves_mono [OF index_response_serves [OF assms(1,3)]]
        split: if_splits)
  then obtain suffix f where "\<not> is_head_request ?head" and "suffix \<in> {[], [''index.html''], [''index.htm'']}"
    and "source_fd src = Some f" and "reached entry ?root (cp_components cp @ suffix) f"
    using assms(4,5) unfolding serves_def by (metis (no_types, lifting) fst_conv)
  moreover from this(1) meth have "is_get_request ?head"
    by (auto simp: head_permits_static_resolution_def permits_static_resolution_def is_get_request_def is_head_request_def)
  ultimately show ?thesis using form cp safe by blast
qed

text \<open>
  C1: the service serves only confined files.  With symbolic links denied, and whatever else happens
  to the filesystem meanwhile, a response that carries a file is the answer to a GET in origin form
  whose path the path layer admitted; the file's descriptor was reached from the pinned root by
  opening exactly the admitted components, none of them a link, and then, for a directory, one of
  the two index names.
\<close>

theorem respond_serves_confined:
  assumes "openat_nofollow os entry" and "dup_aliases os entry"
    and "sp_symlinks (sr_policy (ss_root svc)) = SymlinkPolicyDenied"
    and "respond os dt svc req w = (Some (Inr r), w')" and "rsp_body r = Some (RBFile src)"
  shows "\<exists>cp suffix f. is_get_request (req_head req) \<and> rt_form (rq_target (req_head req)) = OriginForm
    \<and> parse_confined (rt_path (rq_target (req_head req))) (uri_path_policy (sr_policy (ss_root svc))) = Inr cp
    \<and> list_all (safe_component (uri_path_policy (sr_policy (ss_root svc)))) (cp_components cp)
    \<and> suffix \<in> {[], [''index.html''], [''index.htm'']} \<and> source_fd src = Some f
    \<and> reached entry (pr_root_fd (sr_pinned (ss_root svc))) (cp_components cp @ suffix) f"
  by (rule served_confined [OF assms])


theorem respond_serves_confined_witness:
  "\<exists>r src. respond sample_os sample_dates sample_service (sample_request ''GET'' ''/pub/a.txt'') () = (Some (Inr r), ())
     \<and> rsp_body r = Some (RBFile src) \<and> source_fd src = Some 2
     \<and> (\<exists>suffix\<in>{[], [''index.html''], [''index.htm'']}.
          reached (tree_entry sample_tree) 0 ([''pub'', ''a.txt''] @ suffix) 2)"
proof -
  let ?file = "\<lparr>rf_file = 2, rf_metadata = \<lparr>md_len = 5, md_modified = Some 0, md_mode = 0x81A4\<rparr>,
                  rf_components = [''pub'', ''a.txt'']\<rparr>"
  have uri: "resolve_uri sample_os sample_root ''/pub/a.txt'' () = (Inr (RFile ?file), ())"
    by (simp add: rust_eval)
  have "\<exists>r src. file_response sample_dates sample_service ?file Get (sample_request ''GET'' ''/pub/a.txt'') = Some (Inr r)
     \<and> rsp_body r = Some (RBFile src) \<and> source_fd src = Some 2"
    by (simp add: rust_eval Let_def metadata.defs)
  then obtain r src where ok: "respond sample_os sample_dates sample_service (sample_request ''GET'' ''/pub/a.txt'') () = (Some (Inr r), ())"
    and body: "rsp_body r = Some (RBFile src)" and fd: "source_fd src = Some 2"
    using uri
    by (auto simp: respond_def Let_def sample_request_def request_new_def request_head_new_def
        sample_target_def sample_service_def is_head_request_def head_permits_static_resolution_def
        permits_static_resolution_def rt_path_def simp del: index_response.simps)
  have cp: "parse_confined ''/pub/a.txt'' (uri_path_policy (sr_policy sample_root)) =
     Inr \<lparr>cp_decoded = ''/pub/a.txt'', cp_components = [''pub'', ''a.txt''],
          cp_policy = uri_path_policy (sr_policy sample_root)\<rparr>"
    by (simp add: rust_eval)
  have "openat_nofollow sample_os (tree_entry sample_tree)" "dup_aliases sample_os (tree_entry sample_tree)"
    unfolding sample_os_def by (rule tree_os_nofollow, rule tree_os_dup_aliases)
  moreover have "sp_symlinks (sr_policy (ss_root sample_service)) = SymlinkPolicyDenied" by (simp add: rust_eval)
  ultimately have "\<exists>suffix\<in>{[], [''index.html''], [''index.htm'']}.
      reached (tree_entry sample_tree) 0 ([''pub'', ''a.txt''] @ suffix) 2"
    using respond_serves_confined [OF _ _ _ ok body] cp fd
    by (auto simp: sample_request_def request_new_def request_head_new_def sample_target_def rt_path_def
        sample_service_def sample_root_def)
  with ok body fd show ?thesis by blast
qed

lemma head_mirrored:
  fixes req :: request
  defines "head \<equiv> req\<lparr>req_head := (req_head req)\<lparr>rq_method := Method ''HEAD''\<rparr>\<rparr>"
  assumes "rq_method (req_head req) = Method ''GET''"
    and "list_all (\<lambda>(name, v). \<not> eq_ignore_ascii_case name ''content-length'') (ss_extra_response_headers svc)"
  shows "heads (fst (respond os dt svc head w)) = heads (fst (respond os dt svc req w))
    \<and> snd (respond os dt svc head w) = snd (respond os dt svc req w)
    \<and> no_bytes (fst (respond os dt svc head w))"
proof -
  have "is_head_request (req_head head)" "\<not> is_head_request (req_head req)"
    and "head_permits_static_resolution (req_head head)" "head_permits_static_resolution (req_head req)"
    and t: "rq_target (req_head head) = rq_target (req_head req)" "rq_headers (req_head head) = rq_headers (req_head req)"
    using assms(2) by (simp_all add: head_def is_head_request_def head_permits_static_resolution_def
        permits_static_resolution_def)
  then show ?thesis
    unfolding respond_def Let_def t
    by (auto simp: head_no_bytes head_mirrors(1,2) file_response_heads [OF t(2)] index_response_heads [OF assms(3) t(2)]
        simp del: index_response.simps split: sum.splits prod.splits resolved_resource.splits)
qed

text \<open>
  C4: HEAD mirrors GET through the whole service.  For any target, header fields, policy, filesystem
  and system-call behaviour, the HEAD request makes the same system calls as the GET request, fails
  in the same way when it fails, and otherwise has the same status and the same list of header
  fields, length included, with no byte of body, provided the operator does not configure a
  content-length header.
\<close>

theorem respond_head_mirrors_get:
  fixes req :: request
  defines "head \<equiv> req\<lparr>req_head := (req_head req)\<lparr>rq_method := Method ''HEAD''\<rparr>\<rparr>"
  assumes "rq_method (req_head req) = Method ''GET''"
    and "list_all (\<lambda>(name, v). \<not> eq_ignore_ascii_case name ''content-length'') (ss_extra_response_headers svc)"
  shows "heads (fst (respond os dt svc head w)) = heads (fst (respond os dt svc req w))
    \<and> snd (respond os dt svc head w) = snd (respond os dt svc req w)
    \<and> no_bytes (fst (respond os dt svc head w))"
  unfolding head_def using assms(2,3) by (rule head_mirrored)

theorem respond_head_mirrors_get_witness:
  "heads (fst (respond sample_os sample_dates sample_service (sample_request ''HEAD'' ''/pub/a.txt'') ()))
     = heads (fst (respond sample_os sample_dates sample_service (sample_request ''GET'' ''/pub/a.txt'') ()))"
proof -
  have "(sample_request ''GET'' ''/pub/a.txt'')\<lparr>req_head :=
      (req_head (sample_request ''GET'' ''/pub/a.txt''))\<lparr>rq_method := Method ''HEAD''\<rparr>\<rparr> = sample_request ''HEAD'' ''/pub/a.txt''"
    and "rq_method (req_head (sample_request ''GET'' ''/pub/a.txt'')) = Method ''GET''"
    by (simp_all add: sample_request_def request_new_def request_head_new_def)
  moreover have "list_all (\<lambda>(name, v). \<not> eq_ignore_ascii_case name ''content-length'') (ss_extra_response_headers sample_service)"
    by (simp add: rust_eval)
  ultimately show ?thesis using respond_head_mirrors_get [of "sample_request ''GET'' ''/pub/a.txt''" sample_service] by metis
qed

text \<open>
  C30: a directory requested without its slash is redirected within the site.  The answer is a 301 for
  GET and HEAD whose fields are exactly the location and a zero length (the operator's extra headers
  are not among them), and the location is the requested path with a slash appended and the query
  kept: a path of this server, never a reference to another host, with no backslash in the path and
  no control or space character anywhere, so it cannot end the header line.
\<close>

theorem redirect_stays_local:
  assumes "parse_target raw = Inr t" and "rq_target (req_head req) = t"
    and "head_permits_static_resolution (req_head req)"
    and "resolve_uri os (ss_root svc) (rt_path t) w = (Inr (RDirectory d), w')"
    and "\<not> ends_with (rt_path t) ''/''"
  shows "\<exists>r. respond os dt svc req w = (Some (Inr r), w') \<and> rh_status (rsp_head r) = 301
    \<and> rh_headers (rsp_head r) = [location_field (redirect_location t), content_length_field 0]
    \<and> starts_with (redirect_location t) ''/'' \<and> \<not> starts_with (redirect_location t) ''//''
    \<and> CHR 0x5C \<notin> set (rt_path t) \<and> list_all (\<lambda>c. \<not> target_byte_bad c) (redirect_location t)"
proof -
  have wf: "target_wf t" and raw: "rt_path_and_query t = raw"
    using parse_target_wf [OF assms(1)] by simp_all
  note origin = parse_target_InrD [OF assms(1)]
  have pq: "set (rt_path t) \<union> (case rt_query t of Some q \<Rightarrow> set q | None \<Rightarrow> {}) \<subseteq> set raw"
    using wf raw by (auto simp: target_wf_def split: option.splits)
  have clean: "list_all (\<lambda>c. \<not> target_byte_bad c) (redirect_location t)"
    using pq origin not_bad_slash
    by (auto simp: redirect_location_def list_all_iff list_ex_iff rust_eval split: option.splits)
  obtain cp t' where cp: "parse_confined (rt_path t) (uri_path_policy (sr_policy (ss_root svc))) = Inr cp"
    and t': "parse_target (rt_path t) = Inr t'"
    using assms(4) by (auto simp: resolve_uri_def elim: parse_confined_InrD split: sum.splits prod.splits)
  have path: "rt_path t' = rt_path t"
  proof -
    have "find_char (rt_path t) CHR ''?'' = None" using wf by (simp add: target_wf_def find_char_None)
    then show ?thesis
      using parse_target_InrD [OF t'] by (simp add: parse_origin_form_def rt_path_def find_or_len_def Let_def)
  qed
  have "CHR 0x5C \<notin> set (rt_path t)"
    using admitted_no_backslash [OF cp _ t'] path by (simp add: uri_path_policy_def)
  moreover have "starts_with (rt_path t) ''/''" "\<not> starts_with (rt_path t) ''//''"
    using parse_target_InrD [OF t'] by simp_all
  then have "starts_with (redirect_location t) ''/''" "\<not> starts_with (redirect_location t) ''//''"
    using location_prefix [OF _ _ assms(5)] by blast+
  moreover have "rt_form t = OriginForm" using origin by (simp add: parse_origin_form_def Let_def)
  ultimately show ?thesis
    using assms(2-5) clean redirect_response_exact [OF clean, of "is_head_request (req_head req)"]
    by (simp add: respond_def Let_def del: index_response.simps)
qed

theorem redirect_stays_local_witness:
  "\<exists>r. respond sample_os sample_dates sample_service (sample_request ''GET'' ''/pub'') () = (Some (Inr r), ())
    \<and> rh_headers (rsp_head r) = [location_field ''/pub/'', content_length_field 0]"
proof -
  have "parse_target ''/pub'' = Inr (sample_target ''/pub'')" by (simp add: rust_eval)
  moreover have "rq_target (req_head (sample_request ''GET'' ''/pub'')) = sample_target ''/pub''"
    and "head_permits_static_resolution (req_head (sample_request ''GET'' ''/pub''))"
    by (simp_all add: sample_request_def request_new_def request_head_new_def head_permits_static_resolution_def
        permits_static_resolution_def)
  moreover have "\<exists>d. resolve_uri sample_os (ss_root sample_service) (rt_path (sample_target ''/pub'')) () = (Inr (RDirectory d), ())"
    by (simp add: rust_eval)
  moreover have "\<not> ends_with (rt_path (sample_target ''/pub'')) ''/''" by (simp add: rust_eval)
  moreover have "redirect_location (sample_target ''/pub'') = ''/pub/''" by (simp add: redirect_location_def rust_eval)
  ultimately show ?thesis using redirect_stays_local by metis
qed


end
