(* ===== verification/Civil_Time.thy ===== *)
theory Civil_Time
  imports Rust_Prelude
begin

text \<open>
  The time stamps of events: \<^verbatim>\<open>rfc3339_now\<close> and \<^verbatim>\<open>days_to_civil\<close> of
  \<^verbatim>\<open>eggserve-server/src/ops/events.rs\<close>, and the Gregorian calendar they are checked against.

  The system clock is an argument: \<open>Some (secs, millis)\<close> since the epoch, or \<open>None\<close> for a clock
  before it.  The day count of a 64-bit number of seconds is below 2 to the power 48, so the
  calculation on \<^typ>\<open>nat\<close> never leaves the 64-bit range; that none of its subtractions is below
  zero is part of the calendar lemmas.
\<close>

section \<open>Time stamps\<close>

text \<open>\<^verbatim>\<open>{:0n}\<close>: a number padded with zeros.\<close>

definition pad_zero :: "nat \<Rightarrow> nat \<Rightarrow> string" where
  [rust_eval]: "pad_zero n v = replicate (n - length (dec v)) CHR ''0'' @ dec v"

definition days_to_civil :: "nat \<Rightarrow> nat \<times> nat \<times> nat" where
  [rust_eval]: "days_to_civil days =
     (let z = days + 719468;
          era = z div 146097;
          doe = z - era * 146097;
          yoe = (doe - doe div 1460 + doe div 36524 - doe div 146096) div 365;
          y = yoe + era * 400;
          doy = doe - (365 * yoe + yoe div 4 - yoe div 100);
          mp = (5 * doy + 2) div 153;
          d = doy - (153 * mp + 2) div 5 + 1;
          m = (if mp < 10 then mp + 3 else mp - 9);
          y = (if m \<le> 2 then y + 1 else y)
      in (y, m, d))"

definition rfc3339_now :: "(u64 \<times> nat) option \<Rightarrow> string" where
  [rust_eval]: "rfc3339_now clock =
     (let (secs, millis) = (case clock of Some (s, ms) \<Rightarrow> (unat s, ms) | None \<Rightarrow> (0, 0));
          days_since_epoch = secs div 86400;
          time_of_day = secs mod 86400;
          hours = time_of_day div 3600;
          minutes = (time_of_day mod 3600) div 60;
          seconds = time_of_day mod 60;
          (year, month, day) = days_to_civil days_since_epoch
      in pad_zero 4 year @ ''-'' @ pad_zero 2 month @ ''-'' @ pad_zero 2 day @ ''T'' @ pad_zero 2 hours @ '':''
         @ pad_zero 2 minutes @ '':'' @ pad_zero 2 seconds @ ''.'' @ pad_zero 3 millis @ ''Z'')"

section \<open>The reference calendar\<close>

text \<open>
  The reference: the proleptic Gregorian calendar by its rules.  A date is numbered by the days of all
  earlier years from year 0, the days of the earlier months of its year, and its day of the month.
\<close>

definition leap :: "nat \<Rightarrow> bool" where
  "leap y \<longleftrightarrow> 4 dvd y \<and> (\<not> 100 dvd y \<or> 400 dvd y)"

definition month_length :: "nat \<Rightarrow> nat \<Rightarrow> nat" where
  "month_length y m = (if m = 2 then (if leap y then 29 else 28) else if m \<in> {4, 6, 9, 11} then 30 else 31)"

definition days_before_year :: "nat \<Rightarrow> nat" where
  "days_before_year y = (\<Sum>k<y. if leap k then 366 else 365)"

definition days_before_month :: "nat \<Rightarrow> nat \<Rightarrow> nat" where
  "days_before_month y m = (\<Sum>k\<in>{1..<m}. month_length y k)"

fun valid_date :: "nat \<times> nat \<times> nat \<Rightarrow> bool" where
  "valid_date (y, m, d) \<longleftrightarrow> 1 \<le> m \<and> m \<le> 12 \<and> 1 \<le> d \<and> d \<le> month_length y m"

fun day_number :: "nat \<times> nat \<times> nat \<Rightarrow> nat" where
  "day_number (y, m, d) = days_before_year y + days_before_month y m + (d - 1)"

lemma days_before_year_Suc:
  "days_before_year (y + 1) = 365 * (y + 1) + y div 4 + y div 400 + 1 - y div 100"
proof (induction y)
  case 0 then show ?case by (simp add: days_before_year_def leap_def)
next
  case (Suc y)
  have s: "days_before_year (Suc y + 1) = days_before_year (y + 1) + (if leap (Suc y) then 366 else 365)"
    by (simp add: days_before_year_def)
  have le: "y div 100 \<le> y div 4" by (simp add: div_le_mono2)
  have d4: "Suc y div 4 = y div 4 + (if 4 dvd Suc y then 1 else 0)"
    and d100: "Suc y div 100 = y div 100 + (if 100 dvd Suc y then 1 else 0)"
    and d400: "Suc y div 400 = y div 400 + (if 400 dvd Suc y then 1 else 0)"
    by (simp_all add: div_Suc dvd_eq_mod_eq_0)
  have t: "100 dvd Suc y \<Longrightarrow> 4 dvd Suc y" "400 dvd Suc y \<Longrightarrow> 100 dvd Suc y"
    using dvd_trans [of 4 100 "Suc y"] dvd_trans [of 100 400 "Suc y"] by auto
  show ?case unfolding s Suc d4 d100 d400 leap_def using le t by auto
qed

lemma days_before_month_sums:
  "days_before_month y (Suc 0) = 0"
  "days_before_month y 2 = 31"
  "days_before_month y 3 = 59 + (if leap y then 1 else 0)"
  "days_before_month y 4 = 90 + (if leap y then 1 else 0)"
  "days_before_month y 5 = 120 + (if leap y then 1 else 0)"
  "days_before_month y 6 = 151 + (if leap y then 1 else 0)"
  "days_before_month y 7 = 181 + (if leap y then 1 else 0)"
  "days_before_month y 8 = 212 + (if leap y then 1 else 0)"
  "days_before_month y 9 = 243 + (if leap y then 1 else 0)"
  "days_before_month y 10 = 273 + (if leap y then 1 else 0)"
  "days_before_month y 11 = 304 + (if leap y then 1 else 0)"
  "days_before_month y 12 = 334 + (if leap y then 1 else 0)"
  by (simp_all add: days_before_month_def month_length_def eval_nat_numeral)

text \<open>
  The computation splits a 400-year era, which starts on the first of March, into centuries, four-year
  spans, years and days.
\<close>

lemma era_split:
  assumes "doe < 146097"
  obtains c q t u :: nat where "doe = 36524 * c + 1461 * q + 365 * t + u"
    and "c \<le> 3" and "q \<le> 24" and "t \<le> 3" and "u \<le> 365"
    and "u = 365 \<longrightarrow> t = 3 \<and> (q < 24 \<or> c = 3)"
proof -
  define c where "c = min 3 (doe div 36524)"
  define r where "r = doe - 36524 * c"
  define q where "q = r div 1461"
  define s where "s = r mod 1461"
  define t where "t = min 3 (s div 365)"
  define u where "u = s - 365 * t"
  have "doe div 36524 \<le> 4" using assms by linarith
  then have r: "doe = 36524 * c + r" "r \<le> 36524" "c < 3 \<Longrightarrow> r < 36524" "c \<le> 3"
    using assms by (auto simp: c_def r_def min_def)
  have q: "r = 1461 * q + s" "q \<le> 24" "s < 1461"
    using r(2) by (auto simp: q_def s_def)
  have t: "s = 365 * t + u" "t \<le> 3" "u \<le> 365" "t < 3 \<Longrightarrow> u < 365"
    using q(3) by (auto simp: t_def u_def min_def)
  show thesis
  proof (rule that [of c q t u])
    show "doe = 36524 * c + 1461 * q + 365 * t + u" using r(1) q(1) t(1) by simp
    show "u = 365 \<longrightarrow> t = 3 \<and> (q < 24 \<or> c = 3)"
    proof
      assume "u = 365"
      then have "t = 3" using t(2,4) by linarith
      moreover have "q < 24 \<or> c = 3"
        using r(3,4) q t(1) \<open>u = 365\<close> \<open>t = 3\<close> by linarith
      ultimately show "t = 3 \<and> (q < 24 \<or> c = 3)" by blast
    qed
  qed (use r q t in auto)
qed

lemma year_of_era:
  fixes doe c q t u :: nat
  assumes doe: "doe = 36524 * c + 1461 * q + 365 * t + u" and "c \<le> 3" "q \<le> 24" "t \<le> 3" "u \<le> 365"
    and last: "u = 365 \<longrightarrow> t = 3 \<and> (q < 24 \<or> c = 3)"
  shows "(doe - doe div 1460 + doe div 36524 - doe div 146096) div 365 = 100 * c + 4 * q + t"
proof -
  have w: "doe = 1460 * (25 * c + q) + (24 * c + q + 365 * t + u)" using doe by simp
  define w where "w = (24 * c + q + 365 * t + u) div 1460"
  have k: "doe div 1460 = 25 * c + q + w" unfolding w w_def by simp
  have "1 \<le> w" if "u = 365"
    using div_le_mono [of 1460 "24 * c + q + 365 * t + u" 1460] last that by (simp add: w_def)
  moreover have "w = 0" if "u = 0" using assms(2-4) that by (simp add: w_def)
  moreover have "w \<le> 1" using assms(2-5) by (simp add: w_def)
  ultimately have w1: "w \<le> u" "u \<le> 364 + w"
    using assms(5) by (cases "u = 0"; cases "u = 365"; force)+
  define r where "r = 1461 * q + 365 * t + u"
  have "r < 36524 \<or> c = 3 \<and> r = 36524"
    using assms(3-5) last by (cases "u = 365") (auto simp: r_def)
  then have e: "doe div 36524 = c + doe div 146096"
  proof
    assume r: "r < 36524"
    then have "doe < 146096" using doe assms(2) by (simp add: r_def)
    moreover have "doe = 36524 * c + r" using doe by (simp add: r_def)
    ultimately show ?thesis using r by simp
  next
    assume r: "c = 3 \<and> r = 36524"
    then have "doe = 146096" using doe by (simp add: r_def)
    then show ?thesis using r by simp
  qed
  have "doe - doe div 1460 + doe div 36524 - doe div 146096 = 365 * (100 * c + 4 * q + t) + (u - w)"
    unfolding k e diff_diff_left [symmetric] using doe w1 by simp
  then show ?thesis using w1 by simp
qed

lemma days_of_year_of_era:
  fixes c q t :: nat
  assumes "c \<le> 3" "q \<le> 24" "t \<le> 3"
  shows "365 * (100 * c + 4 * q + t) + (100 * c + 4 * q + t) div 4 - (100 * c + 4 * q + t) div 100
         = 36524 * c + 1461 * q + 365 * t"
proof -
  have "(100 * c + 4 * q + t) div 4 = 25 * c + q" "(100 * c + 4 * q + t) div 100 = c"
    using assms by auto
  then show ?thesis by simp
qed

text \<open>The day of a year that starts in March gives the month and the day of the month.\<close>

definition march_month :: "nat \<Rightarrow> nat \<times> nat" where
  "march_month doy = (let mp = (5 * doy + 2) div 153 in (mp, doy - (153 * mp + 2) div 5 + 1))"

lemma march_month_cases:
  assumes "doy \<le> 365" and "march_month doy = (mp, d)"
  shows "(mp = 0 \<and> doy = d - 1 \<and> 1 \<le> d \<and> d \<le> 31)
    \<or> (mp = 1 \<and> doy = 31 + (d - 1) \<and> 1 \<le> d \<and> d \<le> 30)
    \<or> (mp = 2 \<and> doy = 61 + (d - 1) \<and> 1 \<le> d \<and> d \<le> 31)
    \<or> (mp = 3 \<and> doy = 92 + (d - 1) \<and> 1 \<le> d \<and> d \<le> 30)
    \<or> (mp = 4 \<and> doy = 122 + (d - 1) \<and> 1 \<le> d \<and> d \<le> 31)
    \<or> (mp = 5 \<and> doy = 153 + (d - 1) \<and> 1 \<le> d \<and> d \<le> 31)
    \<or> (mp = 6 \<and> doy = 184 + (d - 1) \<and> 1 \<le> d \<and> d \<le> 30)
    \<or> (mp = 7 \<and> doy = 214 + (d - 1) \<and> 1 \<le> d \<and> d \<le> 31)
    \<or> (mp = 8 \<and> doy = 245 + (d - 1) \<and> 1 \<le> d \<and> d \<le> 30)
    \<or> (mp = 9 \<and> doy = 275 + (d - 1) \<and> 1 \<le> d \<and> d \<le> 31)
    \<or> (mp = 10 \<and> doy = 306 + (d - 1) \<and> 1 \<le> d \<and> d \<le> 31)
    \<or> (mp = 11 \<and> doy = 337 + (d - 1) \<and> 1 \<le> d \<and> d \<le> 29 \<and> (d = 29 \<longrightarrow> doy = 365))"
proof -
  have mp: "mp = (5 * doy + 2) div 153" and d: "d = doy - (153 * mp + 2) div 5 + 1"
    using assms(2) by (auto simp: march_month_def Let_def)
  have lo: "153 * mp \<le> 5 * doy + 2" and hi: "5 * doy + 2 < 153 * (mp + 1)" unfolding mp by auto
  have "mp < 12" using hi lo assms(1) by linarith
  then have "mp = 0 \<or> mp = 1 \<or> mp = 2 \<or> mp = 3 \<or> mp = 4 \<or> mp = 5 \<or> mp = 6 \<or> mp = 7 \<or> mp = 8 \<or> mp = 9
    \<or> mp = 10 \<or> mp = 11" by presburger
  then show ?thesis using lo hi d assms(1) by (elim disjE) (simp_all, linarith+)
qed


lemma march_date:
  assumes "doy \<le> 365" and "march_month doy = (mp, d)" and "doy = 365 \<longrightarrow> leap (y + 1)"
  defines "m \<equiv> if mp < 10 then mp + 3 else mp - 9"
  defines "year \<equiv> if m \<le> 2 then y + 1 else y"
  shows "valid_date (year, m, d) \<and> day_number (year, m, d) + 306 = days_before_year (y + 1) + doy"
proof -
  have s: "days_before_year (Suc y) = days_before_year y + 365 + (if leap y then 1 else 0)"
    by (simp add: days_before_year_def)
  show ?thesis using march_month_cases [OF assms(1,2)] assms(3) unfolding m_def year_def
    by (elim disjE conjE) (auto simp: s days_before_month_sums month_length_def)
qed

lemma leap_split:
  fixes era c q :: nat
  assumes "q \<le> 24" and "q < 24 \<or> c = 3"
  shows "leap (400 * era + 100 * c + 4 * q + 4)"
proof (cases "q = 24")
  case True
  then have "400 * era + 100 * c + 4 * q + 4 = 400 * (era + 1)" using assms(2) by simp
  moreover have "4 dvd 400 * (era + 1)" by (rule dvd_mult2) simp
  ultimately show ?thesis unfolding leap_def by (metis dvd_triv_left)
next
  case False
  have "4 dvd 400 * era + 100 * c + 4 * q + 4" by presburger
  moreover have "\<not> 100 dvd 400 * era + 100 * c + 4 * q + 4"
  proof -
    have "(400 * era + 100 * c + 4 * q + 4) mod 100 = 4 * q + 4"
      using False assms(1) mod_mult_self2 [of "4 * q + 4" 100 "4 * era + c"] by (simp add: algebra_simps)
    then show ?thesis by (simp add: dvd_eq_mod_eq_0)
  qed
  ultimately show ?thesis by (simp add: leap_def)
qed

lemma civil_date_exact:
  "valid_date (days_to_civil n) \<and> day_number (days_to_civil n) = day_number (1970, 1, 1) + n"
proof -
  define z where "z = n + 719468"
  define era where "era = z div 146097"
  define doe where "doe = z mod 146097"
  have "doe < 146097" by (simp add: doe_def)
  then obtain c q t u where doe: "doe = 36524 * c + 1461 * q + 365 * t + u"
    and le: "c \<le> 3" "q \<le> 24" "t \<le> 3" "u \<le> 365" and u: "u = 365 \<longrightarrow> t = 3 \<and> (q < 24 \<or> c = 3)"
    by (rule era_split) blast
  define yoe where "yoe = 100 * c + 4 * q + t"
  note yoe = year_of_era [OF doe le u, folded yoe_def] days_of_year_of_era [OF le(1-3), folded yoe_def]
  obtain mp d where md: "march_month u = (mp, d)" by fastforce
  define y where "y = yoe + era * 400"
  have doe': "z - era * 146097 = doe" by (simp add: era_def doe_def minus_div_mult_eq_mod)
  have u': "doe - (36524 * c + 1461 * q + 365 * t) = u" using doe by simp
  have mp: "(5 * u + 2) div 153 = mp" and d: "u - (153 * mp + 2) div 5 + 1 = d"
    using md by (auto simp: march_month_def Let_def)
  have "u = 365 \<longrightarrow> leap (y + 1)"
    using leap_split [OF le(2), of c era] u by (simp add: y_def yoe_def ac_simps)
  note date = march_date [OF le(4) md this]
  have "y div 4 = 100 * era + 25 * c + q" "y div 100 = 4 * era + c" "y div 400 = era"
    using le by (simp_all add: y_def yoe_def)
  then have "days_before_year (y + 1) + u = z + 366"
    using days_before_year_Suc [of y] doe div_mult_mod_eq [of z 146097]
    by (simp add: y_def yoe_def era_def doe_def)
  moreover have "day_number (1970, 1, 1) = 719528"
    using days_before_year_Suc [of 1969] by (simp add: days_before_month_sums)
  moreover have "days_to_civil n = (if (if mp < 10 then mp + 3 else mp - 9) \<le> 2 then y + 1 else y,
      if mp < 10 then mp + 3 else mp - 9, d)"
    unfolding days_to_civil_def Let_def z_def [symmetric] era_def [symmetric] doe' yoe y_def [symmetric] u' mp d
    by (rule refl)
  ultimately show ?thesis using date by (simp add: z_def del: day_number.simps valid_date.simps)
qed

section \<open>Padding and clock arithmetic\<close>

lemma length_dec_le: "0 < n \<Longrightarrow> v < 10 ^ n \<Longrightarrow> length (dec v) \<le> n"
proof (induction n arbitrary: v)
  case (Suc n)
  show ?case
  proof (cases "v < 10")
    case False
    then have "v div 10 < 10 ^ n" "0 < n" using Suc.prems by (cases n; auto)+
    then show ?thesis using Suc.IH [of "v div 10"] False by (simp add: dec.simps [of v])
  qed (simp add: dec.simps [of v])
qed simp

lemma length_pad: "length (pad_zero n v) = max n (length (dec v))"
  by (simp add: pad_zero_def)

lemma length_pad_two: "v < 100 \<Longrightarrow> length (pad_zero 2 v) = 2"
  using length_dec_le [of 2 v] by (simp add: length_pad)

lemma clock_split: "k div 3600 * 3600 + k mod 3600 div 60 * 60 + k mod 60 = (k :: nat)"
proof -
  have "k mod 3600 = k mod 3600 div 60 * 60 + k mod 3600 mod 60" by simp
  moreover have "k mod 3600 mod 60 = k mod 60" by (simp add: mod_mod_cancel)
  ultimately show ?thesis using div_mult_mod_eq [of k 3600] by linarith
qed

text \<open>
  The time stamp of an event is the UTC date and time of the clock reading.  For a reading of
  \<open>s\<close> seconds after the epoch its date is a valid date of the Gregorian calendar, its time of day is
  in range, and the days from 1 January 1970 to the date together with the time of day make exactly
  \<open>s\<close> seconds; the text has the 24 characters of \<^verbatim>\<open>YYYY-MM-DDTHH:MM:SS.mmmZ\<close>, more only for a
  year of more than four digits.
\<close>

lemma timestamp_exact:
  "\<exists>y m d hh mi se.
     rfc3339_now (Some (s, ms)) = pad_zero 4 y @ ''-'' @ pad_zero 2 m @ ''-'' @ pad_zero 2 d @ ''T'' @ pad_zero 2 hh @ '':''
       @ pad_zero 2 mi @ '':'' @ pad_zero 2 se @ ''.'' @ pad_zero 3 ms @ ''Z''
     \<and> valid_date (y, m, d) \<and> hh < 24 \<and> mi < 60 \<and> se < 60
     \<and> day_number (1970, 1, 1) \<le> day_number (y, m, d)
     \<and> (day_number (y, m, d) - day_number (1970, 1, 1)) * 86400 + hh * 3600 + mi * 60 + se = unat s
     \<and> length (rfc3339_now (Some (s, ms))) = max 4 (length (dec y)) + max 3 (length (dec ms)) + 17"
proof -
  define n where "n = unat s div 86400"
  define k where "k = unat s mod 86400"
  obtain y m d where c: "days_to_civil n = (y, m, d)" by (cases "days_to_civil n") auto
  have date: "valid_date (y, m, d)" "day_number (y, m, d) = day_number (1970, 1, 1) + n"
    using civil_date_exact [of n] unfolding c by auto
  have stamp: "rfc3339_now (Some (s, ms)) = pad_zero 4 y @ ''-'' @ pad_zero 2 m @ ''-'' @ pad_zero 2 d @ ''T''
      @ pad_zero 2 (k div 3600) @ '':'' @ pad_zero 2 (k mod 3600 div 60) @ '':'' @ pad_zero 2 (k mod 60) @ ''.''
      @ pad_zero 3 ms @ ''Z''"
    by (simp add: rfc3339_now_def Let_def k_def c [unfolded n_def])
  have k: "k < 86400" "n * 86400 + k = unat s" by (simp_all add: k_def n_def)
  have time: "k div 3600 < 24" "k mod 3600 div 60 < 60" "k mod 60 < 60"
    using k(1) by (simp_all add: div_less_iff_less_mult)
  have "m < 100" "d < 100" using date(1) by (auto simp: month_length_def split: if_splits)
  then have "length (rfc3339_now (Some (s, ms))) = max 4 (length (dec y)) + max 3 (length (dec ms)) + 17"
    unfolding stamp using time by (simp add: length_pad_two length_pad [of 4] length_pad [of 3])
  moreover have "day_number (1970, 1, 1) \<le> day_number (y, m, d)"
    "(day_number (y, m, d) - day_number (1970, 1, 1)) * 86400 + k div 3600 * 3600
       + k mod 3600 div 60 * 60 + k mod 60 = unat s"
    unfolding date(2) using clock_split [of k] k(2) by simp_all
  ultimately show ?thesis
    using stamp date(1) time by metis
qed

end
