(* ===== verification/Ops_Events.thy ===== *)
theory Ops_Events
  imports Civil_Time
begin

text \<open>
  The event schema: \<^verbatim>\<open>eggserve-server/src/ops/events.rs\<close>.

  Severities and event kinds with their names, structured fields, events and their builder methods,
  sanitising and truncation of free text, and the two renderings of an event: one JSON object (\<^verbatim>\<open>event_to_json\<close>) and the text line that
  \<^verbatim>\<open>StderrLogSink\<close> of \<^verbatim>\<open>ops/sinks.rs\<close> writes.

  The characters the code escapes, drops or searches for are ASCII, so the loops over
  \<^verbatim>\<open>chars()\<close> act on the bytes; \<open>nth_char\<close> counts characters by their first bytes.
\<close>

section \<open>Severity and kind\<close>

datatype severity = Debug | Info | Warn | Error

fun severity_rank :: "severity \<Rightarrow> nat" where
  "severity_rank Debug = 0"
| "severity_rank Info = 1"
| "severity_rank Warn = 2"
| "severity_rank Error = 3"

lemma severity_rank_inject: "severity_rank a = severity_rank b \<longleftrightarrow> a = b"
  by (cases a; cases b) auto

instantiation severity :: linorder
begin
definition less_eq_severity :: "severity \<Rightarrow> severity \<Rightarrow> bool" where
  "a \<le> b \<longleftrightarrow> severity_rank a \<le> severity_rank b"
definition less_severity :: "severity \<Rightarrow> severity \<Rightarrow> bool" where
  "a < b \<longleftrightarrow> severity_rank a < severity_rank b"
instance
  by standard (auto simp: less_eq_severity_def less_severity_def severity_rank_inject)
end

fun severity_str :: "severity \<Rightarrow> string" where
  "severity_str Debug = ''DEBUG''"
| "severity_str Info = ''INFO''"
| "severity_str Warn = ''WARN''"
| "severity_str Error = ''ERROR''"

datatype (plugins del: code size transfer lifting) event_kind =
    ProcessStarting | RootInitialized | ListenerReady | ShutdownRequested | DrainingStarted
     | ForcedShutdownStarted | ShutdownComplete | ConnectionAccepted | ConnectionRejected
     | TlsHandshakeSuccess | TlsHandshakeFailure | TlsHandshakeTimeout | ProtocolNegotiated
     | HeaderTimeout | BodyReadTimeout | ParserRejection | HeaderBytesRejected
     | RequestTargetTooLong | ServiceAdmissionRejected | KeepAliveClosed | KeepAliveIdleTimeout
     | MaxRequestsClose | WriteStallTimeout | ConnectionTotalTimeout | ClientDisconnect
     | ConnectionPanic | RequestCompleted | FileNotFound | FileDenied | FileError
     | DotfileDeniedEvent | SymlinkDeniedEvent | RootEscapeDeniedEvent | BodyPolicyRejection
     | IncompleteBodyClose | ServiceInvocationSuppressed | ServiceTimeout | ServiceErrorEvent
     | DirectoryListingLimit | ResponseStreamStarted | ResponseStreamCompleted
     | ResponseStreamLengthMismatch | ResponseStreamProducerError | ResponseStreamProducerPanic
     | ResponseStreamCancelled | DeferredBodyDelegated | DeferredBodyCompleted
     | DeferredBodyAbandoned | DeferredBodyTimeout | RequestLifecyclePeerDisconnect
     | RequestLifecycleRuntimeCancel | RequestTrailerRejected | ResponseTrailerSuppressed
     | InterimSent | InterimRejected | ExpectationFailed | TunnelAccepted | TunnelRejected
     | TunnelClosed | TunnelUpgradeFailed | ProxyProtocolAccepted | ProxyProtocolRejected
     | ForwardedMetadataAccepted | ForwardedMetadataRejected | ListenerTransientError
     | ListenerPersistentError | ResourceExhaustion | BlockingWorkerSaturation | LogSinkFailure

primrec kind_str :: "event_kind \<Rightarrow> string" where
  "kind_str ProcessStarting = ''process_starting''"
| "kind_str RootInitialized = ''root_initialized''"
| "kind_str ListenerReady = ''listener_ready''"
| "kind_str ShutdownRequested = ''shutdown_requested''"
| "kind_str DrainingStarted = ''draining_started''"
| "kind_str ForcedShutdownStarted = ''forced_shutdown_started''"
| "kind_str ShutdownComplete = ''shutdown_complete''"
| "kind_str ConnectionAccepted = ''connection_accepted''"
| "kind_str ConnectionRejected = ''connection_rejected''"
| "kind_str TlsHandshakeSuccess = ''tls_handshake_success''"
| "kind_str TlsHandshakeFailure = ''tls_handshake_failure''"
| "kind_str TlsHandshakeTimeout = ''tls_handshake_timeout''"
| "kind_str ProtocolNegotiated = ''protocol_negotiated''"
| "kind_str HeaderTimeout = ''header_timeout''"
| "kind_str BodyReadTimeout = ''body_read_timeout''"
| "kind_str ParserRejection = ''parser_rejection''"
| "kind_str HeaderBytesRejected = ''header_bytes_rejected''"
| "kind_str RequestTargetTooLong = ''request_target_too_long''"
| "kind_str ServiceAdmissionRejected = ''service_admission_rejected''"
| "kind_str KeepAliveClosed = ''keep_alive_closed''"
| "kind_str KeepAliveIdleTimeout = ''keep_alive_idle_timeout''"
| "kind_str MaxRequestsClose = ''max_requests_close''"
| "kind_str WriteStallTimeout = ''write_stall_timeout''"
| "kind_str ConnectionTotalTimeout = ''connection_total_timeout''"
| "kind_str ClientDisconnect = ''client_disconnect''"
| "kind_str ConnectionPanic = ''connection_panic''"
| "kind_str RequestCompleted = ''request_completed''"
| "kind_str FileNotFound = ''file_not_found''"
| "kind_str FileDenied = ''file_denied''"
| "kind_str FileError = ''file_error''"
| "kind_str DotfileDeniedEvent = ''dotfile_denied''"
| "kind_str SymlinkDeniedEvent = ''symlink_denied''"
| "kind_str RootEscapeDeniedEvent = ''root_escape_denied''"
| "kind_str BodyPolicyRejection = ''body_policy_rejection''"
| "kind_str IncompleteBodyClose = ''incomplete_body_close''"
| "kind_str ServiceInvocationSuppressed = ''service_invocation_suppressed''"
| "kind_str ServiceTimeout = ''service_timeout''"
| "kind_str ServiceErrorEvent = ''service_error''"
| "kind_str DirectoryListingLimit = ''directory_listing_limit''"
| "kind_str ResponseStreamStarted = ''response_stream_started''"
| "kind_str ResponseStreamCompleted = ''response_stream_completed''"
| "kind_str ResponseStreamLengthMismatch = ''response_stream_length_mismatch''"
| "kind_str ResponseStreamProducerError = ''response_stream_producer_error''"
| "kind_str ResponseStreamProducerPanic = ''response_stream_producer_panic''"
| "kind_str ResponseStreamCancelled = ''response_stream_cancelled''"
| "kind_str DeferredBodyDelegated = ''deferred_body_delegated''"
| "kind_str DeferredBodyCompleted = ''deferred_body_completed''"
| "kind_str DeferredBodyAbandoned = ''deferred_body_abandoned''"
| "kind_str DeferredBodyTimeout = ''deferred_body_timeout''"
| "kind_str RequestLifecyclePeerDisconnect = ''request_lifecycle_peer_disconnect''"
| "kind_str RequestLifecycleRuntimeCancel = ''request_lifecycle_runtime_cancel''"
| "kind_str RequestTrailerRejected = ''request_trailer_rejected''"
| "kind_str ResponseTrailerSuppressed = ''response_trailer_suppressed''"
| "kind_str InterimSent = ''interim_sent''"
| "kind_str InterimRejected = ''interim_rejected''"
| "kind_str ExpectationFailed = ''expectation_failed''"
| "kind_str TunnelAccepted = ''tunnel_accepted''"
| "kind_str TunnelRejected = ''tunnel_rejected''"
| "kind_str TunnelClosed = ''tunnel_closed''"
| "kind_str TunnelUpgradeFailed = ''tunnel_upgrade_failed''"
| "kind_str ProxyProtocolAccepted = ''proxy_protocol_accepted''"
| "kind_str ProxyProtocolRejected = ''proxy_protocol_rejected''"
| "kind_str ForwardedMetadataAccepted = ''forwarded_metadata_accepted''"
| "kind_str ForwardedMetadataRejected = ''forwarded_metadata_rejected''"
| "kind_str ListenerTransientError = ''listener_transient_error''"
| "kind_str ListenerPersistentError = ''listener_persistent_error''"
| "kind_str ResourceExhaustion = ''resource_exhaustion''"
| "kind_str BlockingWorkerSaturation = ''blocking_worker_saturation''"
| "kind_str LogSinkFailure = ''log_sink_failure''"

section \<open>Fields and events\<close>

datatype ops_field =
    FBool string bool
  | FI64 string "64 word"
  | FU64 string u64
  | FStr string string

definition SCHEMA_VERSION :: nat where [rust_eval]: "SCHEMA_VERSION = 1"

record event =
  ev_schema_version :: nat
  ev_severity :: severity
  ev_event :: event_kind
  ev_timestamp :: string
  ev_message :: string
  ev_connection_id :: "u64 option"
  ev_request_seq :: "32 word option"
  ev_fields :: "ops_field list"

definition event_new :: "(u64 \<times> nat) option \<Rightarrow> severity \<Rightarrow> event_kind \<Rightarrow> string \<Rightarrow> event" where
  [rust_eval]: "event_new clock sev kind message =
     \<lparr>ev_schema_version = SCHEMA_VERSION, ev_severity = sev, ev_event = kind,
      ev_timestamp = rfc3339_now clock, ev_message = message, ev_connection_id = None,
      ev_request_seq = None, ev_fields = []\<rparr>"

definition event_field :: "ops_field \<Rightarrow> event \<Rightarrow> event" where
  [rust_eval]: "event_field f ev = ev\<lparr>ev_fields := ev_fields ev @ [f]\<rparr>"

definition event_connection_id :: "u64 \<Rightarrow> event \<Rightarrow> event" where
  [rust_eval]: "event_connection_id i ev = ev\<lparr>ev_connection_id := Some i\<rparr>"

definition event_request_seq :: "32 word \<Rightarrow> event \<Rightarrow> event" where
  [rust_eval]: "event_request_seq n ev = ev\<lparr>ev_request_seq := Some n\<rparr>"

section \<open>Sanitising\<close>

definition printable :: "char \<Rightarrow> bool" where
  [rust_eval]: "printable c \<longleftrightarrow> 0x20 \<le> byte c \<and> byte c \<le> 0x7E"

text \<open>\<^verbatim>\<open>char_indices().nth(n)\<close>: the offset of the character number \<open>n\<close>.\<close>

fun nth_char :: "nat \<Rightarrow> nat \<Rightarrow> bytes \<Rightarrow> nat option" where
  "nth_char n i [] = None"
| "nth_char n i (c # s) =
     (if is_cont c then nth_char n (i + 1) s
      else if n = 0 then Some i
      else nth_char (n - 1) (i + 1) s)"

definition ELLIPSIS :: bytes where [rust_eval]: "ELLIPSIS = [CHR 0xE2, CHR 0x80, CHR 0xA6]"

definition truncate_str :: "bytes \<Rightarrow> nat \<Rightarrow> bytes" where
  [rust_eval]: "truncate_str s max_len =
     (case nth_char max_len 0 s of Some end_pos \<Rightarrow> take end_pos s @ ELLIPSIS | None \<Rightarrow> s)"

definition sanitize_text_field :: "bytes \<Rightarrow> bytes" where
  [rust_eval]: "sanitize_text_field s = truncate_str (filter printable s) 512"

definition sanitize_path :: "bytes \<Rightarrow> bytes" where
  [rust_eval]: "sanitize_path path =
     (let without_query = hd (split_char CHR ''?'' path);
          last_component = last (split_char CHR ''/'' (trim_end_matches CHR ''/'' without_query));
          last_component = (if last_component = [] \<and> without_query = ''/'' then ''/'' else last_component)
      in truncate_str (filter printable last_component) 127)"

section \<open>Rendering\<close>

text \<open>\<^verbatim>\<open>0123456789abcdef\<close> indexed by a nibble.\<close>

definition nibble :: "nat \<Rightarrow> char" where
  [rust_eval]: "nibble n = (if n < 10 then char_of (48 + n) else char_of (87 + n))"

definition escape_json_char :: "char \<Rightarrow> string" where
  [rust_eval]: "escape_json_char c =
     (if c = CHR 0x22 then [CHR 0x5C, CHR 0x22]
      else if c = CHR 0x5C then [CHR 0x5C, CHR 0x5C]
      else if c = CHR 0x0A then [CHR 0x5C, CHR ''n'']
      else if c = CHR 0x0D then [CHR 0x5C, CHR ''r'']
      else if c = CHR 0x09 then [CHR 0x5C, CHR ''t'']
      else if byte c < 0x20 then
        [CHR 0x5C, CHR ''u''] @ map (\<lambda>shift. nibble (byte c div 2 ^ shift mod 16)) [12, 8, 4, 0]
      else [c])"

definition escape_json_string :: "string \<Rightarrow> string" where
  [rust_eval]: "escape_json_string s = concat (map escape_json_char s)"

definition bool_str :: "bool \<Rightarrow> string" where
  [rust_eval]: "bool_str b = (if b then ''true'' else ''false'')"

text \<open>\<^verbatim>\<open>to_string\<close> of a signed integer.\<close>

definition dec_int :: "int \<Rightarrow> string" where
  [rust_eval]: "dec_int i = (if i < 0 then ''-'' @ dec (nat (- i)) else dec (nat i))"

abbreviation dquote :: string where "dquote \<equiv> [CHR 0x22]"

definition quoted :: "string \<Rightarrow> string" where
  [rust_eval]: "quoted s = dquote @ escape_json_string s @ dquote"

fun field_json :: "ops_field \<Rightarrow> string" where
  "field_json (FBool k v) = ''{'' @ quoted k @ '':'' @ bool_str v @ ''}''"
| "field_json (FI64 k v) = ''{'' @ quoted k @ '':'' @ dec_int (sint v) @ ''}''"
| "field_json (FU64 k v) = ''{'' @ quoted k @ '':'' @ dec (unat v) @ ''}''"
| "field_json (FStr k v) = ''{'' @ quoted k @ '':'' @ quoted v @ ''}''"

definition json_key :: "string \<Rightarrow> string" where
  [rust_eval]: "json_key name = '','' @ dquote @ name @ dquote @ '':''"

fun fields_json :: "ops_field list \<Rightarrow> string" where
  "fields_json [] = []"
| "fields_json [f] = field_json f"
| "fields_json (f # fs) = field_json f @ '','' @ fields_json fs"

definition event_to_json :: "event \<Rightarrow> string" where
  [rust_eval]: "event_to_json ev =
     ''{'' @ dquote @ ''schema_version'' @ dquote @ '':'' @ dec (ev_schema_version ev)
     @ json_key ''severity'' @ dquote @ severity_str (ev_severity ev) @ dquote
     @ json_key ''event'' @ dquote @ kind_str (ev_event ev) @ dquote
     @ json_key ''timestamp'' @ quoted (ev_timestamp ev)
     @ json_key ''message'' @ quoted (ev_message ev)
     @ (case ev_connection_id ev of Some cid \<Rightarrow> json_key ''connection_id'' @ dec (unat cid) | None \<Rightarrow> [])
     @ (case ev_request_seq ev of Some n \<Rightarrow> json_key ''request_seq'' @ dec (unat n) | None \<Rightarrow> [])
     @ (if ev_fields ev \<noteq> [] then json_key ''fields'' @ ''['' @ fields_json (ev_fields ev) @ '']'' else [])
     @ ''}''"

fun field_display :: "ops_field \<Rightarrow> string" where
  "field_display (FBool k v) = dquote @ k @ dquote @ '': '' @ bool_str v"
| "field_display (FI64 k v) = dquote @ k @ dquote @ '': '' @ dec_int (sint v)"
| "field_display (FU64 k v) = dquote @ k @ dquote @ '': '' @ dec (unat v)"
| "field_display (FStr k v) = dquote @ k @ dquote @ '': '' @ dquote @ escape_json_string v @ dquote"

definition event_to_text :: "event \<Rightarrow> string" where
  [rust_eval]: "event_to_text ev =
     ''['' @ severity_str (ev_severity ev) @ ''] '' @ kind_str (ev_event ev) @ '': '' @ ev_message ev
     @ (case ev_connection_id ev of Some cid \<Rightarrow> '' conn='' @ dec (unat cid) | None \<Rightarrow> [])
     @ (case ev_request_seq ev of Some n \<Rightarrow> '' seq='' @ dec (unat n) | None \<Rightarrow> [])
     @ concat (map (\<lambda>f. '' '' @ field_display f) (ev_fields ev))"

section \<open>Reading JSON back\<close>

text \<open>
  The reference: how a JSON reader decodes the rest of a string literal, up to and including its
  closing quote.  Only the escapes the renderer may produce are needed; a raw control byte is an error.
\<close>

definition hex_value :: "char \<Rightarrow> nat" where
  "hex_value c = (if byte c < 58 then byte c - 48 else byte c - 87)"

definition simple_escape :: "char \<Rightarrow> char option" where
  "simple_escape e =
     (if e = CHR 0x22 \<or> e = CHR 0x5C then Some e
      else if e = CHR ''n'' then Some (CHR 0x0A)
      else if e = CHR ''r'' then Some (CHR 0x0D)
      else if e = CHR ''t'' then Some (CHR 0x09)
      else None)"

fun read_string :: "string \<Rightarrow> (string \<times> string) option" where
  "read_string [] = None"
| "read_string (c # s) =
     (if c = CHR 0x22 then Some ([], s)
      else if c = CHR 0x5C then
        (case s of
           [] \<Rightarrow> None
         | e # t \<Rightarrow>
             if e = CHR ''u'' then
               (case t of
                  h1 # h2 # h3 # h4 # r \<Rightarrow>
                    map_option (apfst (Cons (char_of
                      (((hex_value h1 * 16 + hex_value h2) * 16 + hex_value h3) * 16 + hex_value h4 :: nat))))
                      (read_string r)
                | _ \<Rightarrow> None)
             else (case simple_escape e of
                     Some d \<Rightarrow> map_option (apfst (Cons d)) (read_string t)
                   | None \<Rightarrow> None))
      else if byte c < 0x20 then None
      else map_option (apfst (Cons c)) (read_string s))"

lemma hex_value_nibble: "n < 16 \<Longrightarrow> hex_value (nibble n) = n"
  by (simp add: hex_value_def nibble_def)

lemma read_escaped_char:
  "read_string (escape_json_char c @ r) = map_option (apfst (Cons c)) (read_string r)"
proof (cases "byte c < 0x20 \<and> c \<notin> {CHR 0x0A, CHR 0x0D, CHR 0x09}")
  case True
  then have c: "c \<noteq> CHR 0x22" "c \<noteq> CHR 0x5C" by auto
  have v: "byte c div 16 mod 16 * 16 + byte c mod 16 = byte c" and z: "byte c div 4096 mod 16 = 0" "byte c div 256 mod 16 = 0"
    using True by auto
  show ?thesis using True c by (simp add: escape_json_char_def hex_value_nibble v z)
next
  case False
  then show ?thesis by (auto simp: escape_json_char_def simple_escape_def)
qed

lemma read_escaped: "read_string (escape_json_string s @ CHR 0x22 # r) = Some (s, r)"
  by (induction s) (simp_all add: escape_json_string_def read_escaped_char)

lemma quoted_inject:
  assumes "quoted s @ r = quoted s' @ r'"
  shows "s = s' \<and> r = r'"
proof -
  have "escape_json_string s @ CHR 0x22 # r = escape_json_string s' @ CHR 0x22 # r'"
    using assms by (simp add: quoted_def)
  then have "Some (s, r) = Some (s', r')" using read_escaped by metis
  then show ?thesis by simp
qed

lemma quoted_inject_iff: "quoted s @ r = quoted s' @ r' \<longleftrightarrow> s = s' \<and> r = r'"
  using quoted_inject by blast

text \<open>No rendered string holds a control byte.\<close>

definition no_control :: "string \<Rightarrow> bool" where
  "no_control s \<longleftrightarrow> list_all (\<lambda>c. 0x20 \<le> byte c) s"

lemma no_control_simps [simp]:
  "no_control []" "no_control (c # s) \<longleftrightarrow> 0x20 \<le> byte c \<and> no_control s" "no_control (s @ t) \<longleftrightarrow> no_control s \<and> no_control t"
  by (simp_all add: no_control_def)

lemma no_control_escaped [simp]: "no_control (escape_json_string s)"
proof -
  have "no_control (escape_json_char c)" for c
    by (auto simp: escape_json_char_def nibble_def)
  then show ?thesis by (induction s) (simp_all add: escape_json_string_def)
qed

lemma no_control_quoted [simp]: "no_control (quoted s)"
  by (simp add: quoted_def)

lemma no_control_dec [simp]: "no_control (dec n)"
  using dec_digits [of n] by (auto simp: no_control_def list_all_iff is_ascii_digit_def)

lemma no_control_field [simp]: "no_control (field_json f)"
  by (cases f) (simp_all add: bool_str_def dec_int_def)

lemma no_control_fields [simp]: "no_control (fields_json fs)"
  by (induction fs rule: fields_json.induct) simp_all

lemma no_control_names [simp]: "no_control (severity_str v)" "no_control (kind_str k)"
  by (cases v; simp) (cases k; simp)

lemma no_control_event: "no_control (event_to_json ev)"
  by (simp add: event_to_json_def json_key_def split: option.splits)

section \<open>The rendering determines the event\<close>

datatype json_value = JBool bool | JInt int | JStr string

fun field_value :: "ops_field \<Rightarrow> string \<times> json_value" where
  "field_value (FBool k v) = (k, JBool v)"
| "field_value (FI64 k v) = (k, JInt (sint v))"
| "field_value (FU64 k v) = (k, JInt (uint v))"
| "field_value (FStr k v) = (k, JStr v)"

fun value_json :: "json_value \<Rightarrow> string" where
  "value_json (JBool b) = bool_str b"
| "value_json (JInt i) = dec_int i"
| "value_json (JStr s) = quoted s"

lemma field_json_value:
  "field_json f = ''{'' @ quoted (fst (field_value f)) @ '':'' @ value_json (snd (field_value f)) @ ''}''"
  by (cases f) (simp_all add: dec_int_def nat_uint_eq)

text \<open>A number ends at the first byte that is no digit.\<close>

definition ends_number :: "string \<Rightarrow> bool" where
  "ends_number r \<longleftrightarrow> (case r of [] \<Rightarrow> True | c # _ \<Rightarrow> \<not> is_ascii_digit c)"

lemma ends_number_simps [simp]: "ends_number (c # r) \<longleftrightarrow> \<not> is_ascii_digit c"
  by (simp add: ends_number_def)

lemma dec_append_inject:
  assumes "ends_number r" and "ends_number r'" and "dec n @ r = dec m @ r'"
  shows "n = m \<and> r = r'"
proof -
  have tw: "takeWhile is_ascii_digit (dec k @ q) = dec k" if "ends_number q" for k q
    using dec_digits [of k] that
    by (cases q) (auto simp: ends_number_def takeWhile_append list_all_iff)
  have "dec n = dec m" using tw [OF assms(1), of n] tw [OF assms(2), of m] assms(3) by simp
  then show ?thesis using assms(3) by simp
qed

lemma dec_hd: "\<exists>c t. dec n = c # t \<and> is_ascii_digit c"
  using dec_digits [of n] dec_not_Nil [of n] by (cases "dec n") auto

lemma dec_not_minus: "dec n @ r \<noteq> CHR ''-'' # q"
  using dec_hd [of n] by (auto simp: is_ascii_digit_def)

lemma dec_int_append_inject:
  assumes "ends_number r" and "ends_number r'" and "dec_int i @ r = dec_int j @ r'"
  shows "i = j \<and> r = r'"
proof (cases "i < 0"; cases "j < 0")
  assume s: "i < 0" "j < 0"
  then have "dec (nat (- i)) @ r = dec (nat (- j)) @ r'" using assms(3) by (simp add: dec_int_def)
  from dec_append_inject [OF assms(1,2) this] show ?thesis using s by linarith
next
  assume s: "\<not> i < 0" "\<not> j < 0"
  then have "dec (nat i) @ r = dec (nat j) @ r'" using assms(3) by (simp add: dec_int_def)
  from dec_append_inject [OF assms(1,2) this] show ?thesis using s by linarith
next
  assume "i < 0" "\<not> j < 0"
  then show ?thesis using assms(3) dec_not_minus [of "nat j" r'] by (simp add: dec_int_def) metis
next
  assume "\<not> i < 0" "j < 0"
  then show ?thesis using assms(3) dec_not_minus [of "nat i" r] by (simp add: dec_int_def)
qed

text \<open>The kind of a value shows in its first byte.\<close>

definition value_tag :: "char \<Rightarrow> nat" where
  "value_tag c = (if c = CHR 0x22 then 0 else if c = CHR ''t'' then 1 else if c = CHR ''f'' then 2 else 3)"

fun json_tag :: "json_value \<Rightarrow> nat" where
  "json_tag (JStr _) = 0"
| "json_tag (JBool b) = (if b then 1 else 2)"
| "json_tag (JInt _) = 3"

lemma value_json_hd: "\<exists>c t. value_json v = c # t \<and> value_tag c = json_tag v"
proof (cases v)
  case (JInt i)
  show ?thesis
  proof (cases "i < 0")
    case True
    then have "value_json v = CHR ''-'' # dec (nat (- i))" using JInt by (simp add: dec_int_def)
    then show ?thesis using JInt by (simp add: value_tag_def)
  next
    case False
    obtain c t where "dec (nat i) = c # t" and c: "is_ascii_digit c" using dec_hd by blast
    then have "value_json v = c # t" using JInt False by (simp add: dec_int_def)
    moreover have "value_tag c = 3" using c by (auto simp: value_tag_def is_ascii_digit_def)
    ultimately show ?thesis using JInt by simp
  qed
next
  case (JBool b)
  then show ?thesis by (cases b) (simp_all add: value_tag_def bool_str_def)
next
  case (JStr s)
  then show ?thesis by (simp add: value_tag_def quoted_def)
qed

lemma value_json_inject:
  assumes "value_json v @ CHR ''}'' # r = value_json v' @ CHR ''}'' # r'"
  shows "v = v' \<and> r = r'"
proof -
  have e: "ends_number (CHR ''}'' # q)" for q by (simp add: is_ascii_digit_def)
  have tag: "json_tag v = json_tag v'"
    using value_json_hd [of v] value_json_hd [of v'] assms by (metis append_Cons list.inject)
  show ?thesis
  proof (cases v)
    case (JBool b)
    then have "v' = JBool b" using tag by (cases v') (auto split: if_splits)
    then show ?thesis using assms JBool by simp
  next
    case (JInt i)
    then obtain j where j: "v' = JInt j" using tag by (cases v') (auto split: if_splits)
    from assms have "dec_int i @ CHR ''}'' # r = dec_int j @ CHR ''}'' # r'"
      unfolding JInt j value_json.simps .
    from dec_int_append_inject [OF e e this] show ?thesis using JInt j by simp
  next
    case (JStr s)
    then obtain u where u: "v' = JStr u" using tag by (cases v') (auto split: if_splits)
    from assms have "quoted s @ CHR ''}'' # r = quoted u @ CHR ''}'' # r'"
      unfolding JStr u value_json.simps .
    from quoted_inject [OF this] show ?thesis using JStr u by simp
  qed
qed

lemma field_json_inject:
  assumes "field_json f @ r = field_json g @ r'"
  shows "field_value f = field_value g \<and> r = r'"
proof -
  have "quoted (fst (field_value f)) @ '':'' @ value_json (snd (field_value f)) @ ''}'' @ r =
        quoted (fst (field_value g)) @ '':'' @ value_json (snd (field_value g)) @ ''}'' @ r'"
    using assms by (simp add: field_json_value)
  from quoted_inject [OF this] show ?thesis
    using value_json_inject by (auto simp: prod_eq_iff)
qed

lemma fields_json_Cons: "fields_json (f # fs) = field_json f @ (if fs = [] then [] else '','' @ fields_json fs)"
  by (cases fs) simp_all

lemma fields_json_inject:
  "fields_json (f # fs) @ CHR '']'' # r = fields_json (g # gs) @ CHR '']'' # r' \<Longrightarrow>
   map field_value (f # fs) = map field_value (g # gs) \<and> r = r'"
proof (induction fs arbitrary: f g gs)
  case Nil
  from Nil have "field_json f @ CHR '']'' # r
      = field_json g @ (if gs = [] then [] else '','' @ fields_json gs) @ CHR '']'' # r'"
    unfolding fields_json_Cons [of f] fields_json_Cons [of g] by simp
  from field_json_inject [OF this] show ?case by (simp split: if_splits)
next
  case (Cons f' fs)
  from Cons.prems have "field_json f @ '','' @ fields_json (f' # fs) @ CHR '']'' # r
      = field_json g @ (if gs = [] then [] else '','' @ fields_json gs) @ CHR '']'' # r'"
    unfolding fields_json_Cons [of f] fields_json_Cons [of g] by simp
  from field_json_inject [OF this] have *: "field_value f = field_value g" "gs \<noteq> []"
      "fields_json (f' # fs) @ CHR '']'' # r = fields_json gs @ CHR '']'' # r'"
    by (simp_all split: if_splits)
  obtain g' hs where gs: "gs = g' # hs" using *(2) by (cases gs) auto
  from Cons.IH [OF *(3) [unfolded gs]] show ?case using *(1) gs by simp
qed

definition all_kinds :: "event_kind list" where
  "all_kinds =
     [ProcessStarting, RootInitialized, ListenerReady, ShutdownRequested, DrainingStarted
      , ForcedShutdownStarted, ShutdownComplete, ConnectionAccepted, ConnectionRejected
      , TlsHandshakeSuccess, TlsHandshakeFailure, TlsHandshakeTimeout, ProtocolNegotiated
      , HeaderTimeout, BodyReadTimeout, ParserRejection, HeaderBytesRejected
      , RequestTargetTooLong, ServiceAdmissionRejected, KeepAliveClosed, KeepAliveIdleTimeout
      , MaxRequestsClose, WriteStallTimeout, ConnectionTotalTimeout, ClientDisconnect
      , ConnectionPanic, RequestCompleted, FileNotFound, FileDenied, FileError
      , DotfileDeniedEvent, SymlinkDeniedEvent, RootEscapeDeniedEvent, BodyPolicyRejection
      , IncompleteBodyClose, ServiceInvocationSuppressed, ServiceTimeout, ServiceErrorEvent
      , DirectoryListingLimit, ResponseStreamStarted, ResponseStreamCompleted
      , ResponseStreamLengthMismatch, ResponseStreamProducerError, ResponseStreamProducerPanic
      , ResponseStreamCancelled, DeferredBodyDelegated, DeferredBodyCompleted
      , DeferredBodyAbandoned, DeferredBodyTimeout, RequestLifecyclePeerDisconnect
      , RequestLifecycleRuntimeCancel, RequestTrailerRejected, ResponseTrailerSuppressed
      , InterimSent, InterimRejected, ExpectationFailed, TunnelAccepted, TunnelRejected
      , TunnelClosed, TunnelUpgradeFailed, ProxyProtocolAccepted, ProxyProtocolRejected
      , ForwardedMetadataAccepted, ForwardedMetadataRejected, ListenerTransientError
      , ListenerPersistentError, ResourceExhaustion, BlockingWorkerSaturation, LogSinkFailure]"

lemma all_kinds_complete: "k \<in> set all_kinds"
  by (cases k) (simp_all add: all_kinds_def)

lemma kind_str_distinct: "distinct (map kind_str all_kinds)"
  by (simp add: all_kinds_def)

lemma kind_str_inject [simp]: "kind_str k = kind_str k' \<longleftrightarrow> k = k'"
  using kind_str_distinct all_kinds_complete by (auto simp: distinct_map inj_on_def)

lemma severity_str_inject [simp]: "severity_str v = severity_str v' \<longleftrightarrow> v = v'"
  by (cases v; cases v') simp_all

text \<open>A name holds no quote, so a quoted name ends at the first one.\<close>

lemma no_quote_inject:
  "CHR 0x22 \<notin> set a \<Longrightarrow> CHR 0x22 \<notin> set b \<Longrightarrow> a @ CHR 0x22 # r = b @ CHR 0x22 # r' \<longleftrightarrow> a = b \<and> r = r'"
proof (induction a arbitrary: b)
  case Nil then show ?case by (cases b) auto
next
  case (Cons x a) then show ?case by (cases b) auto
qed

lemma names_no_quote [simp]: "CHR 0x22 \<notin> set (severity_str v)" "CHR 0x22 \<notin> set (kind_str k)"
  by (cases v; simp) (cases k; simp)

definition event_tail :: "u64 option \<Rightarrow> 32 word option \<Rightarrow> ops_field list \<Rightarrow> string" where
  "event_tail cid n fs =
     (case cid of Some cid \<Rightarrow> json_key ''connection_id'' @ dec (unat cid) | None \<Rightarrow> [])
     @ (case n of Some n \<Rightarrow> json_key ''request_seq'' @ dec (unat n) | None \<Rightarrow> [])
     @ (if fs \<noteq> [] then json_key ''fields'' @ ''['' @ fields_json fs @ '']'' else []) @ ''}''"

lemma event_tail_None:
  "event_tail None None fs = (if fs \<noteq> [] then json_key ''fields'' @ ''['' @ fields_json fs @ '']'' else []) @ ''}''"
  "event_tail None (Some n) fs = json_key ''request_seq'' @ dec (unat n) @ event_tail None None fs"
  "event_tail (Some cid) k fs = json_key ''connection_id'' @ dec (unat cid) @ event_tail None k fs"
  by (simp_all add: event_tail_def)

lemma event_tail_ends: "ends_number (event_tail cid n fs)"
  by (simp add: event_tail_def json_key_def is_ascii_digit_def split: option.splits)

lemma event_tail_fields_inject:
  "event_tail None None fs = event_tail None None gs \<Longrightarrow> map field_value fs = map field_value gs"
  using fields_json_inject [of "hd fs" "tl fs" "''}''" "hd gs" "tl gs" "''}''"]
  by (cases fs; cases gs) (simp_all add: event_tail_None json_key_def)

lemma event_tail_seq_inject:
  assumes "event_tail None n fs = event_tail None m gs"
  shows "n = m \<and> map field_value fs = map field_value gs"
proof (cases n; cases m)
  fix a b assume s: "n = Some a" "m = Some b"
  from assms have "dec (unat a) @ event_tail None None fs = dec (unat b) @ event_tail None None gs"
    unfolding s event_tail_None(2) by (simp only: same_append_eq)
  from dec_append_inject [OF event_tail_ends event_tail_ends this]
  have "a = b" and e: "event_tail None None fs = event_tail None None gs" by (auto simp: word_unat_eq_iff)
  from this(1) event_tail_fields_inject [OF e] show ?thesis using s by simp
next
  fix b assume s: "n = None" "m = Some b"
  from assms show ?thesis unfolding s event_tail_None(1,2) json_key_def by (simp split: if_splits)
next
  fix a assume s: "n = Some a" "m = None"
  from assms show ?thesis unfolding s event_tail_None(1,2) json_key_def by (simp split: if_splits)
next
  assume s: "n = None" "m = None"
  from event_tail_fields_inject [OF assms [unfolded s]] show ?thesis using s by simp
qed

lemma event_tail_cid:
  "event_tail None n fs \<noteq> event_tail (Some cid) m gs"
  by (cases n) (simp_all add: event_tail_None json_key_def)

lemma event_tail_inject:
  assumes "event_tail cid n fs = event_tail cid' m gs"
  shows "cid = cid' \<and> n = m \<and> map field_value fs = map field_value gs"
proof (cases cid; cases cid')
  fix a b assume s: "cid = Some a" "cid' = Some b"
  from assms have "dec (unat a) @ event_tail None n fs = dec (unat b) @ event_tail None m gs"
    unfolding s event_tail_None(3) by (simp only: same_append_eq)
  from dec_append_inject [OF event_tail_ends event_tail_ends this]
  have "a = b" and e: "event_tail None n fs = event_tail None m gs" by (auto simp: word_unat_eq_iff)
  from this(1) event_tail_seq_inject [OF e] show ?thesis using s by simp
next
  fix b assume s: "cid = None" "cid' = Some b"
  from assms show ?thesis unfolding s using event_tail_cid [of n fs b m gs] by contradiction
next
  fix a assume s: "cid = Some a" "cid' = None"
  from assms [symmetric] show ?thesis unfolding s using event_tail_cid [of m gs a n fs] by contradiction
next
  assume s: "cid = None" "cid' = None"
  from event_tail_seq_inject [OF assms [unfolded s]] show ?thesis using s by simp
qed

definition event_rest :: "event \<Rightarrow> string" where
  "event_rest ev =
     severity_str (ev_severity ev) @ CHR 0x22 # 
     json_key ''event'' @ dquote @ kind_str (ev_event ev) @ CHR 0x22 # 
     json_key ''timestamp'' @ quoted (ev_timestamp ev) @ json_key ''message'' @ quoted (ev_message ev)
     @ event_tail (ev_connection_id ev) (ev_request_seq ev) (ev_fields ev)"

lemma event_to_json_rest:
  "event_to_json ev = (''{'' @ dquote @ ''schema_version'' @ dquote @ '':'') @ dec (ev_schema_version ev)
     @ CHR '','' # tl (json_key ''severity'') @ dquote @ event_rest ev"
  by (simp add: event_to_json_def json_key_def event_tail_def event_rest_def)

lemma event_rest_inject:
  assumes "event_rest ev = event_rest ev'"
  shows "ev_severity ev = ev_severity ev' \<and> ev_event ev = ev_event ev'
    \<and> ev_timestamp ev = ev_timestamp ev' \<and> ev_message ev = ev_message ev'
    \<and> ev_connection_id ev = ev_connection_id ev' \<and> ev_request_seq ev = ev_request_seq ev'
    \<and> map field_value (ev_fields ev) = map field_value (ev_fields ev')"
proof -
  note cut = no_quote_inject [OF names_no_quote(1) names_no_quote(1), THEN iffD1]
    no_quote_inject [OF names_no_quote(2) names_no_quote(2), THEN iffD1]
  let ?t = "event_tail (ev_connection_id ev) (ev_request_seq ev) (ev_fields ev)"
  let ?t' = "event_tail (ev_connection_id ev') (ev_request_seq ev') (ev_fields ev')"
  from cut(1) [OF assms [unfolded event_rest_def]]
  have 1: "severity_str (ev_severity ev) = severity_str (ev_severity ev')"
    and "kind_str (ev_event ev) @ CHR 0x22 # json_key ''timestamp'' @ quoted (ev_timestamp ev)
        @ json_key ''message'' @ quoted (ev_message ev) @ ?t
      = kind_str (ev_event ev') @ CHR 0x22 # json_key ''timestamp'' @ quoted (ev_timestamp ev')
        @ json_key ''message'' @ quoted (ev_message ev') @ ?t'"
    by (simp_all only: same_append_eq)
  from cut(2) [OF this(2)]
  have 2: "kind_str (ev_event ev) = kind_str (ev_event ev')"
    and "quoted (ev_timestamp ev) @ json_key ''message'' @ quoted (ev_message ev) @ ?t
      = quoted (ev_timestamp ev') @ json_key ''message'' @ quoted (ev_message ev') @ ?t'"
    by (simp_all only: same_append_eq)
  from quoted_inject [OF this(2)]
  have 3: "ev_timestamp ev = ev_timestamp ev'" and "quoted (ev_message ev) @ ?t = quoted (ev_message ev') @ ?t'"
    by (simp_all only: same_append_eq)
  from quoted_inject [OF this(2)] have 4: "ev_message ev = ev_message ev'" and "?t = ?t'" by simp_all
  from event_tail_inject [OF this(2)] 1 2 3 4 show ?thesis by simp
qed

lemma event_to_json_inject:
  assumes "event_to_json ev = event_to_json ev'"
  shows "ev_schema_version ev = ev_schema_version ev' \<and> event_rest ev = event_rest ev'"
proof -
  have c: "ends_number (CHR '','' # q)" for q by (simp add: is_ascii_digit_def)
  from assms have "dec (ev_schema_version ev) @ CHR '','' # tl (json_key ''severity'') @ dquote @ event_rest ev
      = dec (ev_schema_version ev') @ CHR '','' # tl (json_key ''severity'') @ dquote @ event_rest ev'"
    unfolding event_to_json_rest by (simp only: same_append_eq)
  from dec_append_inject [OF c c this] show ?thesis by simp
qed

section \<open>Sanitised text\<close>

lemma nth_char_printable:
  "list_all printable s \<Longrightarrow> nth_char n i s = (if n < length s then Some (i + n) else None)"
proof (induction s arbitrary: n i)
  case (Cons c s)
  then have "\<not> is_cont c" by (simp add: printable_def)
  then show ?case using Cons by (cases n) auto
qed simp

lemma truncate_printable:
  assumes "list_all printable s"
  shows "truncate_str s n = (if length s \<le> n then s else take n s @ ELLIPSIS)"
  using nth_char_printable [OF assms, of n 0] by (simp add: truncate_str_def)

lemma filter_printable [simp]: "list_all printable (filter printable s)"
  by (simp add: list_all_iff)

text \<open>A sanitised text is at most 512 printable bytes, with a mark when some were cut off.\<close>

lemma sanitize_text_field_eq:
  "sanitize_text_field s =
     (if length (filter printable s) \<le> 512 then filter printable s
      else take 512 (filter printable s) @ ELLIPSIS)"
  by (simp add: sanitize_text_field_def truncate_printable)

lemma printable_clean: "list_all printable s \<Longrightarrow> no_control s"
  by (auto simp: no_control_def printable_def list_all_iff)

lemma no_control_take: "no_control s \<Longrightarrow> no_control (take n s)"
  by (auto simp: no_control_def list_all_iff dest: in_set_takeD)

lemma sanitize_text_field_clean: "no_control (sanitize_text_field s) \<and> length (sanitize_text_field s) \<le> 515"
  using no_control_take [OF printable_clean [OF filter_printable [of s]], of 512]
    printable_clean [OF filter_printable [of s]]
  by (simp add: sanitize_text_field_eq ELLIPSIS_def)

text \<open>
  A path is reduced to at most 127 printable bytes of one component: neither its query nor its
  directories reach the log.
\<close>

lemma sanitize_path_component:
  "\<exists>w. sanitize_path path = (if length w \<le> 127 then w else take 127 w @ ELLIPSIS)
     \<and> list_all printable w \<and> CHR ''?'' \<notin> set w \<and> (w = ''/'' \<or> CHR ''/'' \<notin> set w)"
proof -
  define q where "q = hd (split_char CHR ''?'' path)"
  define c where "c = last (split_char CHR ''/'' (trim_end_matches CHR ''/'' q))"
  define w where "w = filter printable (if c = [] \<and> q = ''/'' then ''/'' else c)"
  have q: "CHR ''?'' \<notin> set q" unfolding q_def
    by (rule split_char_piece) (rule hd_in_set, simp)
  have c: "CHR ''/'' \<notin> set c" unfolding c_def
    by (rule split_char_piece) (rule last_in_set, simp)
  have "set c \<subseteq> set (trim_end_matches CHR ''/'' q)" unfolding c_def
    by (rule split_char_subset) (rule last_in_set, simp)
  also have "\<dots> \<subseteq> set q" by (auto simp: trim_end_matches_def dest: set_dropWhileD)
  finally have "set c \<subseteq> set q" .
  then have "list_all printable w \<and> CHR ''?'' \<notin> set w \<and> (w = ''/'' \<or> CHR ''/'' \<notin> set w)"
    using q c by (auto simp: w_def printable_def list_all_iff)
  moreover have "sanitize_path path = (if length w \<le> 127 then w else take 127 w @ ELLIPSIS)"
    unfolding sanitize_path_def Let_def q_def [symmetric] c_def [symmetric] w_def [symmetric]
    by (rule truncate_printable) (simp add: w_def)
  ultimately show ?thesis by blast
qed

lemma field_json_determined: "field_value f = field_value g \<Longrightarrow> field_json f = field_json g"
  by (simp add: field_json_value)

lemma fields_json_determined:
  "map field_value fs = map field_value gs \<Longrightarrow> fields_json fs = fields_json gs"
proof (induction fs arbitrary: gs)
  case (Cons f fs)
  then obtain g hs where "gs = g # hs" by (cases gs) auto
  moreover from this Cons.prems have "field_json f = field_json g" "fields_json fs = fields_json hs"
    "fs = [] \<longleftrightarrow> hs = []"
    using field_json_determined [of f g] Cons.IH [of hs] by (auto dest: map_eq_imp_length_eq)
  ultimately show ?case by (simp only: fields_json_Cons)
qed simp

section \<open>Properties\<close>

text \<open>
  C32: The JSON rendering of an event is one line without a control byte, whatever text its message,
  time stamp and fields hold; a JSON reader decodes every rendered string to exactly the original
  text; and two events have the same rendering exactly when they agree in every part, a field being
  its name and its value (a number is the same value as a signed or an unsigned field).
\<close>

theorem json_line_unambiguous:
  "list_all (\<lambda>c. 0x20 \<le> byte c) (event_to_json ev)
   \<and> read_string (escape_json_string s @ dquote @ r) = Some (s, r)
   \<and> (event_to_json ev = event_to_json ev' \<longleftrightarrow>
        ev_schema_version ev = ev_schema_version ev' \<and> ev_severity ev = ev_severity ev'
        \<and> ev_event ev = ev_event ev' \<and> ev_timestamp ev = ev_timestamp ev'
        \<and> ev_message ev = ev_message ev' \<and> ev_connection_id ev = ev_connection_id ev'
        \<and> ev_request_seq ev = ev_request_seq ev'
        \<and> map field_value (ev_fields ev) = map field_value (ev_fields ev'))"
    (is "?no_control \<and> ?read \<and> (?same \<longleftrightarrow> ?parts)")
proof (intro conjI)
  show ?no_control using no_control_event [of ev] by (simp add: no_control_def)
  show ?read using read_escaped [of s r] by simp
  show "?same \<longleftrightarrow> ?parts"
  proof
    assume ?same
    from event_to_json_inject [OF this] event_rest_inject [of ev ev'] show ?parts by blast
  next
    assume p: ?parts
    then have "fields_json (ev_fields ev) = fields_json (ev_fields ev')"
      and "ev_fields ev = [] \<longleftrightarrow> ev_fields ev' = []"
      using fields_json_determined by (blast, metis map_is_Nil_conv)
    then show ?same using p by (simp add: event_to_json_def)
  qed
qed

end
