(* ===== verification/Ops.thy ===== *)
theory Ops
  imports Ops_Events
begin

text \<open>
  Observability at run time: \<^verbatim>\<open>eggserve-server/src/ops/mod.rs\<close>, \<^verbatim>\<open>counters.rs\<close> and \<^verbatim>\<open>sinks.rs\<close>.

  The shared objects behind \<^verbatim>\<open>Arc\<close> live in one state, \<open>ops_world\<close>: counter sets and correlation
  sources are addressed by a number, so that two contexts may share one (number 0 is the
  process-global set); the lines written to standard error and the calls of custom sinks are recorded
  in order.  A sink is a tree of the sinks of \<^verbatim>\<open>sinks.rs\<close> with custom sinks as leaves; what a
  custom sink does is an argument, \<open>custom_sinks\<close>: whether its \<^verbatim>\<open>emit\<close> panics on an event and what
  its \<^verbatim>\<open>enabled\<close> answers (\<open>None\<close> is a panic).  The boolean result of \<open>sink_emit\<close> is a panic that
  unwinds into the caller.
\<close>

section \<open>Counters\<close>

record ops_counters =
  oc_connections_accepted :: u64
  oc_connections_rejected :: u64
  oc_active_connections :: u64
  oc_active_file_streams :: u64
  oc_active_service_requests :: u64
  oc_connection_panics :: u64
  oc_parser_rejects :: u64
  oc_header_bytes_rejected :: u64
  oc_request_target_rejected :: u64
  oc_service_admission_rejected :: u64
  oc_body_rejections :: u64
  oc_header_timeouts :: u64
  oc_body_read_timeouts :: u64
  oc_keepalive_idle_timeouts :: u64
  oc_max_requests_closes :: u64
  oc_write_stall_timeouts :: u64
  oc_connection_total_timeouts :: u64
  oc_graceful_shutdowns :: u64
  oc_forced_shutdowns :: u64
  oc_listener_errors :: u64
  oc_dropped_log_events :: u64
  oc_streaming_started :: u64
  oc_streaming_completed :: u64
  oc_stream_length_mismatches :: u64
  oc_stream_producer_errors :: u64
  oc_stream_producer_panics :: u64
  oc_stream_cancelled :: u64
  oc_deferred_bodies_delegated :: u64
  oc_deferred_bodies_completed :: u64
  oc_deferred_bodies_abandoned :: u64
  oc_deferred_body_timeouts :: u64
  oc_lifecycle_peer_disconnects :: u64
  oc_lifecycle_runtime_cancels :: u64
  oc_tunnels_accepted :: u64
  oc_tunnels_rejected :: u64
  oc_active_tunnels :: u64
  oc_tunnel_upgrade_failures :: u64
  oc_proxy_accepted :: u64
  oc_proxy_rejected :: u64
  oc_forwarded_accepted :: u64
  oc_forwarded_rejected :: u64

definition counters_new :: ops_counters where
  [rust_eval]: "counters_new =
     \<lparr>oc_connections_accepted = 0,
      oc_connections_rejected = 0,
      oc_active_connections = 0,
      oc_active_file_streams = 0,
      oc_active_service_requests = 0,
      oc_connection_panics = 0,
      oc_parser_rejects = 0,
      oc_header_bytes_rejected = 0,
      oc_request_target_rejected = 0,
      oc_service_admission_rejected = 0,
      oc_body_rejections = 0,
      oc_header_timeouts = 0,
      oc_body_read_timeouts = 0,
      oc_keepalive_idle_timeouts = 0,
      oc_max_requests_closes = 0,
      oc_write_stall_timeouts = 0,
      oc_connection_total_timeouts = 0,
      oc_graceful_shutdowns = 0,
      oc_forced_shutdowns = 0,
      oc_listener_errors = 0,
      oc_dropped_log_events = 0,
      oc_streaming_started = 0,
      oc_streaming_completed = 0,
      oc_stream_length_mismatches = 0,
      oc_stream_producer_errors = 0,
      oc_stream_producer_panics = 0,
      oc_stream_cancelled = 0,
      oc_deferred_bodies_delegated = 0,
      oc_deferred_bodies_completed = 0,
      oc_deferred_bodies_abandoned = 0,
      oc_deferred_body_timeouts = 0,
      oc_lifecycle_peer_disconnects = 0,
      oc_lifecycle_runtime_cancels = 0,
      oc_tunnels_accepted = 0,
      oc_tunnels_rejected = 0,
      oc_active_tunnels = 0,
      oc_tunnel_upgrade_failures = 0,
      oc_proxy_accepted = 0,
      oc_proxy_rejected = 0,
      oc_forwarded_accepted = 0,
      oc_forwarded_rejected = 0\<rparr>"

section \<open>Sinks\<close>

datatype log_format = TextFormat | JsonFormat

datatype log_sink =
    NopLogSink
  | FilteredLogSink log_sink severity
  | CompositeLogSink "log_sink list" "nat option"
  | StderrLogSink log_format
  | CustomSink nat

record custom_sinks =
  custom_panics :: "nat \<Rightarrow> event \<Rightarrow> bool"
  custom_enabled :: "nat \<Rightarrow> severity \<Rightarrow> bool option"

record ops_context =
  ctx_sink :: log_sink
  ctx_id :: nat

record ops_world =
  ow_counters :: "nat \<Rightarrow> ops_counters"
  ow_ids :: "nat \<Rightarrow> u64"
  ow_next :: nat
  ow_logger :: "log_sink option"
  ow_global :: "ops_context option"
  ow_stderr_ok :: bool
  ow_stderr :: "string list"
  ow_delivered :: "(nat \<times> event) list"
  ow_clock :: "nat \<Rightarrow> (u64 \<times> nat) option"
  ow_ticks :: nat

text \<open>A process before its first use of the module; the clock is any sequence of readings.\<close>

definition ops_world_new :: "bool \<Rightarrow> (nat \<Rightarrow> (u64 \<times> nat) option) \<Rightarrow> ops_world" where
  [rust_eval]: "ops_world_new stderr_ok clock =
     \<lparr>ow_counters = (\<lambda>_. counters_new), ow_ids = (\<lambda>_. 1), ow_next = 1, ow_logger = None,
      ow_global = None, ow_stderr_ok = stderr_ok, ow_stderr = [], ow_delivered = [],
      ow_clock = clock, ow_ticks = 0\<rparr>"

definition with_counters :: "nat \<Rightarrow> (ops_counters \<Rightarrow> ops_counters) \<Rightarrow> ops_world \<Rightarrow> ops_world" where
  [rust_eval]: "with_counters i f w = w\<lparr>ow_counters := (ow_counters w)(i := f (ow_counters w i))\<rparr>"

definition ops_global :: "ops_world \<Rightarrow> ops_context \<times> ops_world" where
  [rust_eval]: "ops_global w =
     (case ow_global w of
        Some ctx \<Rightarrow> (ctx, w)
      | None \<Rightarrow> (let ctx = \<lparr>ctx_sink = NopLogSink, ctx_id = 0\<rparr> in (ctx, w\<lparr>ow_global := Some ctx\<rparr>)))"

text \<open>\<^verbatim>\<open>failure_counters\<close> and the increment of \<^verbatim>\<open>dropped_log_events\<close> there.\<close>

definition count_dropped :: "nat option \<Rightarrow> ops_world \<Rightarrow> ops_world" where
  [rust_eval]: "count_dropped owner w =
     (case owner of
        Some i \<Rightarrow> with_counters i (oc_dropped_log_events_update (\<lambda>n. n + 1)) w
      | None \<Rightarrow>
          (let (ctx, w) = ops_global w
           in with_counters (ctx_id ctx) (oc_dropped_log_events_update (\<lambda>n. n + 1)) w))"

definition render_event :: "log_format \<Rightarrow> event \<Rightarrow> string" where
  [rust_eval]: "render_event fmt ev = (case fmt of TextFormat \<Rightarrow> event_to_text ev | JsonFormat \<Rightarrow> event_to_json ev)"

text \<open>\<^verbatim>\<open>eprintln!\<close> panics when standard error cannot be written.\<close>

fun sink_emit :: "custom_sinks \<Rightarrow> log_sink \<Rightarrow> event \<Rightarrow> ops_world \<Rightarrow> bool \<times> ops_world"
and sinks_emit :: "custom_sinks \<Rightarrow> log_sink list \<Rightarrow> nat option \<Rightarrow> event \<Rightarrow> ops_world \<Rightarrow> ops_world" where
  "sink_emit cs NopLogSink ev w = (False, w)"
| "sink_emit cs (FilteredLogSink inner min_severity) ev w =
     (if ev_severity ev \<ge> min_severity then sink_emit cs inner ev w else (False, w))"
| "sink_emit cs (CompositeLogSink sinks owner) ev w = (False, sinks_emit cs sinks owner ev w)"
| "sink_emit cs (StderrLogSink fmt) ev w =
     (if ow_stderr_ok w then (False, w\<lparr>ow_stderr := ow_stderr w @ [render_event fmt ev]\<rparr>) else (True, w))"
| "sink_emit cs (CustomSink i) ev w =
     (custom_panics cs i ev, w\<lparr>ow_delivered := ow_delivered w @ [(i, ev)]\<rparr>)"
| "sinks_emit cs [] owner ev w = w"
| "sinks_emit cs (s # ss) owner ev w =
     (let (panicked, w) = sink_emit cs s ev w;
          w = (if panicked then count_dropped owner w else w)
      in sinks_emit cs ss owner ev w)"

fun sink_enabled :: "custom_sinks \<Rightarrow> log_sink \<Rightarrow> severity \<Rightarrow> bool option"
and any_enabled :: "custom_sinks \<Rightarrow> log_sink list \<Rightarrow> severity \<Rightarrow> bool option" where
  "sink_enabled cs NopLogSink sev = Some False"
| "sink_enabled cs (FilteredLogSink inner min_severity) sev =
     (if sev \<ge> min_severity then sink_enabled cs inner sev else Some False)"
| "sink_enabled cs (CompositeLogSink sinks owner) sev = any_enabled cs sinks sev"
| "sink_enabled cs (StderrLogSink fmt) sev = Some True"
| "sink_enabled cs (CustomSink i) sev = custom_enabled cs i sev"
| "any_enabled cs [] sev = Some False"
| "any_enabled cs (s # ss) sev =
     Option.bind (sink_enabled cs s sev) (\<lambda>b. if b then Some True else any_enabled cs ss sev)"

section \<open>Contexts\<close>

definition ops_context_new :: "log_sink \<Rightarrow> ops_world \<Rightarrow> ops_context \<times> ops_world" where
  [rust_eval]: "ops_context_new sink w =
     (\<lparr>ctx_sink = sink, ctx_id = ow_next w\<rparr>,
      w\<lparr>ow_counters := (ow_counters w)(ow_next w := counters_new), ow_ids := (ow_ids w)(ow_next w := 1),
        ow_next := ow_next w + 1\<rparr>)"

definition ops_context_with_sinks :: "log_sink list \<Rightarrow> ops_world \<Rightarrow> ops_context \<times> ops_world" where
  [rust_eval]: "ops_context_with_sinks sinks w =
     ops_context_new (CompositeLogSink sinks (Some (ow_next w))) w"

definition logger_install :: "log_sink \<Rightarrow> ops_world \<Rightarrow> (unit + unit) \<times> ops_world" where
  [rust_eval]: "logger_install sink w =
     (if ow_logger w \<noteq> None then (Inl (), w)
      else
        let w = w\<lparr>ow_logger := Some sink\<rparr>
        in (Inr (), if ow_global w = None then w\<lparr>ow_global := Some \<lparr>ctx_sink = sink, ctx_id = 0\<rparr>\<rparr> else w))"

definition logger_global :: "ops_world \<Rightarrow> log_sink \<times> ops_world" where
  [rust_eval]: "logger_global w =
     (case ow_logger w of Some s \<Rightarrow> (s, w) | None \<Rightarrow> (NopLogSink, w\<lparr>ow_logger := Some NopLogSink\<rparr>))"

definition logger_emit :: "custom_sinks \<Rightarrow> log_sink \<Rightarrow> event \<Rightarrow> ops_world \<Rightarrow> bool \<times> ops_world" where
  [rust_eval]: "logger_emit cs logger ev w = sink_emit cs logger ev w"

definition ops_emit :: "custom_sinks \<Rightarrow> ops_context \<Rightarrow> event \<Rightarrow> ops_world \<Rightarrow> ops_world" where
  [rust_eval]: "ops_emit cs ctx ev w =
     (let (panicked, w) = sink_emit cs (ctx_sink ctx) ev w
      in if panicked then count_dropped (Some (ctx_id ctx)) w else w)"

text \<open>The event of \<^verbatim>\<open>Event::new\<close> at the next reading of the clock.\<close>

definition event_now :: "severity \<Rightarrow> event_kind \<Rightarrow> string \<Rightarrow> ops_world \<Rightarrow> event \<times> ops_world" where
  [rust_eval]: "event_now sev kind message w =
     (event_new (ow_clock w (ow_ticks w)) sev kind message, w\<lparr>ow_ticks := ow_ticks w + 1\<rparr>)"

definition ops_emit_lazy ::
  "custom_sinks \<Rightarrow> ops_context \<Rightarrow> severity \<Rightarrow> (ops_world \<Rightarrow> event \<times> ops_world) \<Rightarrow> ops_world \<Rightarrow> ops_world" where
  [rust_eval]: "ops_emit_lazy cs ctx sev build w =
     (case sink_enabled cs (ctx_sink ctx) sev of
        Some True \<Rightarrow> (let (ev, w) = build w in ops_emit cs ctx ev w)
      | Some False \<Rightarrow> w
      | None \<Rightarrow> count_dropped (Some (ctx_id ctx)) w)"

definition ops_emit_if :: "custom_sinks \<Rightarrow> ops_context \<Rightarrow> bool \<Rightarrow> event \<Rightarrow> ops_world \<Rightarrow> ops_world" where
  [rust_eval]: "ops_emit_if cs ctx condition ev w = (if condition then ops_emit cs ctx ev w else w)"

definition ops_count :: "ops_context \<Rightarrow> (ops_counters \<Rightarrow> ops_counters) \<Rightarrow> ops_world \<Rightarrow> ops_world" where
  [rust_eval]: "ops_count ctx f w = with_counters (ctx_id ctx) f w"

definition next_connection_id :: "ops_context \<Rightarrow> ops_world \<Rightarrow> u64 \<times> ops_world" where
  [rust_eval]: "next_connection_id ctx w =
     (ow_ids w (ctx_id ctx), w\<lparr>ow_ids := (ow_ids w)(ctx_id ctx := ow_ids w (ctx_id ctx) + 1)\<rparr>)"

section \<open>Delivery\<close>

text \<open>
  The reference: the sinks that write or hand over an event, in order, each with the counter set its
  failure is charged to: that of the nearest enclosing composite, else that of the context.
\<close>

fun sink_leaves :: "nat option \<Rightarrow> severity \<Rightarrow> log_sink \<Rightarrow> (log_sink \<times> nat option) list" where
  "sink_leaves owner sev NopLogSink = []"
| "sink_leaves owner sev (FilteredLogSink inner min_severity) =
     (if sev \<ge> min_severity then sink_leaves owner sev inner else [])"
| "sink_leaves owner sev (CompositeLogSink sinks own) = concat (map (sink_leaves own sev) sinks)"
| "sink_leaves owner sev (StderrLogSink fmt) = [(StderrLogSink fmt, owner)]"
| "sink_leaves owner sev (CustomSink i) = [(CustomSink i, owner)]"

definition leaf_fails :: "custom_sinks \<Rightarrow> bool \<Rightarrow> event \<Rightarrow> log_sink \<Rightarrow> bool" where
  [rust_eval]: "leaf_fails cs stderr_ok ev s =
     (case s of StderrLogSink _ \<Rightarrow> \<not> stderr_ok | CustomSink i \<Rightarrow> custom_panics cs i ev | _ \<Rightarrow> False)"

definition deliver_leaf :: "custom_sinks \<Rightarrow> event \<Rightarrow> log_sink \<times> nat option \<Rightarrow> ops_world \<Rightarrow> ops_world" where
  "deliver_leaf cs ev leaf w =
     (let (panicked, w) = sink_emit cs (fst leaf) ev w
      in if panicked then count_dropped (snd leaf) w else w)"

lemma sink_emit_leaves:
  "(let (panicked, w') = sink_emit cs s ev w in if panicked then count_dropped owner w' else w') =
     fold (deliver_leaf cs ev) (sink_leaves owner (ev_severity ev) s) w"
  "sinks_emit cs ss own ev w =
     fold (deliver_leaf cs ev) (concat (map (sink_leaves own (ev_severity ev)) ss)) w"
proof (induction cs s ev w and cs ss own ev w arbitrary: owner rule: sink_emit_sinks_emit.induct)
  case (7 cs s ss own ev w)
  from "7.IH"(1) [of own] show ?case
    using "7.IH"(2) by (cases "sink_emit cs s ev w") (auto simp: Let_def)
next
  case (3 cs sinks own ev w)
  then show ?case by simp
qed (simp_all add: deliver_leaf_def)

lemma ops_emit_leaves:
  "ops_emit cs ctx ev w =
     fold (deliver_leaf cs ev) (sink_leaves (Some (ctx_id ctx)) (ev_severity ev) (ctx_sink ctx)) w"
  unfolding ops_emit_def by (rule sink_emit_leaves(1))

text \<open>Leaves are standard error or custom sinks.\<close>

fun is_leaf :: "log_sink \<Rightarrow> bool" where
  "is_leaf (StderrLogSink _) = True"
| "is_leaf (CustomSink _) = True"
| "is_leaf _ = False"

lemma sink_leaves_are_leaves: "list_all (\<lambda>(s, _). is_leaf s) (sink_leaves owner sev s)"
proof (induction owner sev s rule: sink_leaves.induct)
  case (3 owner sev sinks own)
  then show ?case by (auto simp: list_all_iff split: prod.splits)
qed auto

definition owner_id :: "ops_world \<Rightarrow> nat option \<Rightarrow> nat" where
  [rust_eval]: "owner_id w owner =
     (case owner of Some i \<Rightarrow> i | None \<Rightarrow> (case ow_global w of Some ctx \<Rightarrow> ctx_id ctx | None \<Rightarrow> 0))"

lemma count_dropped_view:
  "ow_stderr (count_dropped owner w) = ow_stderr w"
  "ow_delivered (count_dropped owner w) = ow_delivered w"
  "ow_stderr_ok (count_dropped owner w) = ow_stderr_ok w"
  "ow_ids (count_dropped owner w) = ow_ids w"
  "ow_ticks (count_dropped owner w) = ow_ticks w"
  "ow_clock (count_dropped owner w) = ow_clock w"
  "owner_id (count_dropped owner w) = owner_id w"
  "ow_counters (count_dropped owner w) i =
     (if i = owner_id w owner then oc_dropped_log_events_update (\<lambda>n. n + 1) (ow_counters w i) else ow_counters w i)"
  by (auto simp: count_dropped_def ops_global_def with_counters_def owner_id_def Let_def fun_eq_iff
      split: option.splits)

definition custom_of :: "log_sink \<Rightarrow> nat list" where
  [rust_eval]: "custom_of s = (case s of CustomSink i \<Rightarrow> [i] | _ \<Rightarrow> [])"

definition format_of :: "log_sink \<Rightarrow> log_format list" where
  [rust_eval]: "format_of s = (case s of StderrLogSink fmt \<Rightarrow> [fmt] | _ \<Rightarrow> [])"

lemma owner_id_record [simp]:
  "owner_id (w\<lparr>ow_delivered := d\<rparr>) = owner_id w" "owner_id (w\<lparr>ow_stderr := l\<rparr>) = owner_id w"
  by (auto simp: owner_id_def fun_eq_iff split: option.splits)

lemma deliver_leaf_view:
  assumes "is_leaf (fst leaf)"
  shows "ow_delivered (deliver_leaf cs ev leaf w) = ow_delivered w @ map (\<lambda>i. (i, ev)) (custom_of (fst leaf))"
    and "ow_stderr (deliver_leaf cs ev leaf w) =
       ow_stderr w @ (if ow_stderr_ok w then map (\<lambda>fmt. render_event fmt ev) (format_of (fst leaf)) else [])"
    and "ow_stderr_ok (deliver_leaf cs ev leaf w) = ow_stderr_ok w"
    and "ow_ids (deliver_leaf cs ev leaf w) = ow_ids w"
    and "owner_id (deliver_leaf cs ev leaf w) = owner_id w"
    and "ow_counters (deliver_leaf cs ev leaf w) i =
      (if leaf_fails cs (ow_stderr_ok w) ev (fst leaf) \<and> i = owner_id w (snd leaf)
       then oc_dropped_log_events_update (\<lambda>n. n + 1) (ow_counters w i) else ow_counters w i)"
  using assms by (cases "fst leaf"; simp add: deliver_leaf_def leaf_fails_def custom_of_def format_of_def
      count_dropped_view)+

definition failing_leaves :: "custom_sinks \<Rightarrow> ops_world \<Rightarrow> event \<Rightarrow> (log_sink \<times> nat option) list \<Rightarrow> nat \<Rightarrow> nat" where
  [rust_eval]: "failing_leaves cs w ev leaves i =
     length (filter (\<lambda>(s, owner). leaf_fails cs (ow_stderr_ok w) ev s \<and> owner_id w owner = i) leaves)"

lemma deliver_leaves_view:
  assumes "list_all (\<lambda>(s, _). is_leaf s) leaves"
  shows "ow_delivered (fold (deliver_leaf cs ev) leaves w) =
       ow_delivered w @ map (\<lambda>i. (i, ev)) (concat (map (custom_of \<circ> fst) leaves))
    \<and> ow_stderr (fold (deliver_leaf cs ev) leaves w) = ow_stderr w @
       (if ow_stderr_ok w then map (\<lambda>fmt. render_event fmt ev) (concat (map (format_of \<circ> fst) leaves)) else [])
    \<and> ow_ids (fold (deliver_leaf cs ev) leaves w) = ow_ids w
    \<and> ow_counters (fold (deliver_leaf cs ev) leaves w) i =
       oc_dropped_log_events_update (\<lambda>n. n + of_nat (failing_leaves cs w ev leaves i)) (ow_counters w i)"
  using assms
proof (induction leaves arbitrary: w)
  case Nil
  then show ?case by (simp add: failing_leaves_def)
next
  case (Cons leaf leaves)
  then have leaf: "is_leaf (fst leaf)" and rest: "list_all (\<lambda>(s, _). is_leaf s) leaves"
    by (auto split: prod.splits)
  have f: "failing_leaves cs (deliver_leaf cs ev leaf w) ev leaves i = failing_leaves cs w ev leaves i"
    by (simp add: failing_leaves_def deliver_leaf_view [OF leaf])
  have s: "failing_leaves cs w ev (leaf # leaves) i =
      (if leaf_fails cs (ow_stderr_ok w) ev (fst leaf) \<and> i = owner_id w (snd leaf) then 1 else 0)
      + failing_leaves cs w ev leaves i"
    by (auto simp: failing_leaves_def split: prod.splits)
  show ?case using Cons.IH [OF rest, of "deliver_leaf cs ev leaf w"]
    unfolding s by (simp add: deliver_leaf_view [OF leaf] f add.assoc)
qed

lemma ops_emit_counters:
  "\<exists>k. ow_counters (ops_emit cs ctx ev w) i = oc_dropped_log_events_update (\<lambda>n. n + k) (ow_counters w i)"
  using deliver_leaves_view [OF sink_leaves_are_leaves] unfolding ops_emit_leaves by blast

section \<open>Properties\<close>

text \<open>
  Emitting an event through a context never unwinds into the caller and leaves no sink out: every
  sink of the tree that its filters admit for the severity gets the event exactly once and in order,
  whether or not the sinks before it panicked; and every sink that fails is charged exactly once,
  to the counter set of its composite or of the context.  No other counter changes.
\<close>

lemma emit_reaches_every_sink:
  "let leaves = sink_leaves (Some (ctx_id ctx)) (ev_severity ev) (ctx_sink ctx);
       w' = ops_emit cs ctx ev w
   in ow_delivered w' = ow_delivered w @ map (\<lambda>i. (i, ev)) (concat (map (custom_of \<circ> fst) leaves))
      \<and> ow_stderr w' = ow_stderr w @
          (if ow_stderr_ok w then map (\<lambda>fmt. render_event fmt ev) (concat (map (format_of \<circ> fst) leaves)) else [])
      \<and> ow_ids w' = ow_ids w
      \<and> (\<forall>i. ow_counters w' i =
           oc_dropped_log_events_update (\<lambda>n. n + of_nat (failing_leaves cs w ev leaves i)) (ow_counters w i))"
  using deliver_leaves_view [OF sink_leaves_are_leaves] unfolding Let_def ops_emit_leaves by blast

text \<open>
  A severity that no sink takes has no leaves, so that skipping the construction of the event in
  \<^verbatim>\<open>emit_lazy\<close> loses nothing: the only leaves left are custom sinks that declined it themselves.
\<close>

lemma not_enabled_leaves:
  "sink_enabled cs s sev = Some False \<Longrightarrow>
     list_all (\<lambda>(l, _). \<exists>i. l = CustomSink i \<and> custom_enabled cs i sev = Some False) (sink_leaves owner sev s)"
  "any_enabled cs ss sev = Some False \<Longrightarrow>
     list_all (\<lambda>(l, _). \<exists>i. l = CustomSink i \<and> custom_enabled cs i sev = Some False)
       (concat (map (sink_leaves owner sev) ss))"
proof (induction cs s sev and cs ss sev arbitrary: owner and owner rule: sink_enabled_any_enabled.induct)
  case (7 cs s ss sev)
  then have "sink_enabled cs s sev = Some False" and "any_enabled cs ss sev = Some False"
    by (auto simp: bind_eq_Some_conv split: if_splits)
  with "7.IH"(1) [of owner] "7.IH"(2) [of False owner] show ?case by simp
qed (auto split: if_splits)

end
