(* ===== verification/Machines.thy ===== *)
theory Machines
  imports Main
begin

text \<open>
  Event machines: the runtime's long-lived tasks as functions of the next event, with the two contracts
  their clients use as locales.  An event that the task does not wait for is \<open>None\<close>.
  \<^item> \<open>event_machine\<close>: an invariant that every step keeps, so that every run keeps it;
  \<^item> \<open>draining_machine\<close>: a machine that, once it drains, ends: every event of its own uses up work,
    and there is always one to come that the runtime itself brings about (\<open>forced\<close>), without waiting for
    the tasks it drains.
  Both are interpreted on the accept loop, the first also on the activity of a connection.
\<close>

fun run_events :: "('e \<Rightarrow> 's \<Rightarrow> 's option) \<Rightarrow> 'e list \<Rightarrow> 's \<Rightarrow> 's option" where
  "run_events step [] s = Some s"
| "run_events step (e # es) s = Option.bind (step e s) (run_events step es)"

lemma run_events_append:
  "run_events step (es @ fs) s = Option.bind (run_events step es s) (run_events step fs)"
  by (induction es arbitrary: s) (auto split: Option.bind_splits)

lemma run_events_ConsE:
  assumes "run_events step (e # es) s = Some s'"
  obtains t where "step e s = Some t" and "run_events step es t = Some s'"
  using assms by (auto simp: Option.bind_eq_Some_conv)

text \<open>A quantity that every event changes by a fixed amount changes by the sum along a run.\<close>

lemma run_events_count:
  assumes "\<And>e s s'. step e s = Some s' \<Longrightarrow> f s' = f s + g e"
    and "run_events step es s = Some s'"
  shows "f s' = f s + sum_list (map g es) "
  using assms(2)
proof (induction es arbitrary: s)
  case (Cons e es)
  from Cons.prems obtain t where "step e s = Some t" "run_events step es t = Some s'"
    by (rule run_events_ConsE)
  then show ?case using assms(1) Cons.IH by (simp add: add.assoc)
qed simp

locale event_machine =
  fixes step :: "'e \<Rightarrow> 's \<Rightarrow> 's option"
    and inv :: "'s \<Rightarrow> bool"
  assumes step_inv: "inv s \<Longrightarrow> step e s = Some s' \<Longrightarrow> inv s'"
begin

lemma run_inv: "run_events step es s = Some s' \<Longrightarrow> inv s \<Longrightarrow> inv s'"
proof (induction es arbitrary: s)
  case (Cons e es)
  from Cons.prems(1) obtain t where "step e s = Some t" "run_events step es t = Some s'"
    by (rule run_events_ConsE)
  then show ?case using Cons step_inv by blast
qed simp

end

locale draining_machine = event_machine step inv
  for step :: "'e \<Rightarrow> 's \<Rightarrow> 's option" and inv +
  fixes own :: "'e \<Rightarrow> bool"
    and forced :: "'e \<Rightarrow> bool"
    and draining :: "'s \<Rightarrow> bool"
    and stopped :: "'s \<Rightarrow> bool"
    and work :: "'s \<Rightarrow> nat"
  assumes own_step: "draining s \<Longrightarrow> own e \<Longrightarrow> step e s = Some s' \<Longrightarrow> (draining s' \<or> stopped s') \<and> work s' < work s"
    and other_step: "draining s \<Longrightarrow> \<not> own e \<Longrightarrow> step e s = Some s' \<Longrightarrow> draining s' \<and> work s' = work s"
    and stopped_step: "inv s \<Longrightarrow> stopped s \<Longrightarrow> own e \<Longrightarrow> step e s = None"
    and stopped_other: "stopped s \<Longrightarrow> \<not> own e \<Longrightarrow> step e s = Some s' \<Longrightarrow> stopped s'"
    and forced_own: "forced e \<Longrightarrow> own e"
    and progress: "inv s \<Longrightarrow> draining s \<Longrightarrow> \<exists>e s'. forced e \<and> step e s = Some s'"
begin

lemma run_stopped:
  "run_events step es s = Some s' \<Longrightarrow> inv s \<Longrightarrow> stopped s \<Longrightarrow> filter own es = []"
proof (induction es arbitrary: s)
  case (Cons e es)
  from Cons.prems(1) obtain t where t: "step e s = Some t" "run_events step es t = Some s'"
    by (rule run_events_ConsE)
  then have "\<not> own e" using stopped_step Cons.prems by fastforce
  then show ?case using Cons.IH t stopped_other step_inv Cons.prems by simp
qed simp

lemma run_stays:
  "run_events step es s = Some s' \<Longrightarrow> inv s \<Longrightarrow> draining s \<or> stopped s \<Longrightarrow> draining s' \<or> stopped s'"
proof (induction es arbitrary: s)
  case (Cons e es)
  from Cons.prems(1) obtain t where t: "step e s = Some t" "run_events step es t = Some s'"
    by (rule run_events_ConsE)
  have "draining t \<or> stopped t"
    using t(1) Cons.prems(2,3) own_step other_step stopped_step stopped_other
    by (cases "own e") (fastforce, blast)
  then show ?case using Cons.IH [OF t(2)] step_inv t(1) Cons.prems(2) by blast
qed simp

text \<open>The number of own events of a draining machine is bounded, whatever else happens in between.\<close>

lemma drain_bounded:
  "run_events step es s = Some s' \<Longrightarrow> inv s \<Longrightarrow> draining s \<Longrightarrow> length (filter own es) \<le> work s"
proof (induction es arbitrary: s)
  case (Cons e es)
  from Cons.prems(1) obtain t where t: "step e s = Some t" "run_events step es t = Some s'"
    by (rule run_events_ConsE)
  have i: "inv t" using t step_inv Cons.prems by blast
  show ?case
  proof (cases "own e")
    case True
    then have w: "draining t \<or> stopped t" "work t < work s" using own_step t Cons.prems by blast+
    then have "length (filter own es) \<le> work t"
      using Cons.IH [OF t(2) i] run_stopped [OF t(2) i] by auto
    then show ?thesis using True w by simp
  next
    case False
    then show ?thesis using other_step [OF _ False t(1)] Cons.IH [OF t(2) i] Cons.prems by simp
  qed
qed simp

text \<open>And forced events alone reach the end.\<close>

lemma drain_ends: "inv s \<Longrightarrow> draining s \<Longrightarrow> \<exists>es s'. list_all forced es \<and> run_events step es s = Some s' \<and> stopped s'"
proof (induction "work s" arbitrary: s rule: less_induct)
  case less
  obtain e t where e: "forced e" "step e s = Some t" using progress less.prems by blast
  have i: "inv t" and w: "draining t \<or> stopped t" "work t < work s"
    using e own_step forced_own step_inv less.prems by blast+
  show ?case
  proof (cases "stopped t")
    case True
    then show ?thesis using e by (intro exI [of _ "[e]"] exI [of _ t]) simp
  next
    case False
    with w less.hyps [OF w(2) i] obtain es s' where "list_all forced es" "run_events step es t = Some s'" "stopped s'"
      by blast
    then show ?thesis using e by (intro exI [of _ "e # es"] exI [of _ s']) simp
  qed
qed

end

end
