(* ===== verification/Accept_Loop.thy ===== *)
theory Accept_Loop
  imports Ops Machines
begin

text \<open>
  The listener runtime: \<^verbatim>\<open>eggserve-server/src/accept_error.rs\<close>, the error types of
  \<^verbatim>\<open>errors.rs\<close> and the accept loop of \<^verbatim>\<open>Server::start_with_service\<close> in \<^verbatim>\<open>lib.rs\<close> with its drain.

  The task that runs the loop is a state machine.  An \<open>accept_event\<close> is what a \<^verbatim>\<open>select!\<close> of the loop
  may see next: the listener, a timer, the shutdown flag, the end of a connection task or its join.
  \<open>accept_step\<close> is the code the event runs; it is \<open>None\<close> when the code does not wait for the event in
  this state.  A connection task owns its permit until it ends, and stays in the \<^verbatim>\<open>JoinSet\<close> until
  it is joined; what it does with the connection is not looked at here.  A task may end by itself at
  any time (\<open>TaskEnds\<close>), but only \<^verbatim>\<open>abort_all\<close> makes it end (\<open>TaskAborted\<close>).
\<close>

section \<open>Errors\<close>

datatype io_error_kind =
    Interrupted | ConnectionRefused | ConnectionReset | ConnectionAborted | BrokenPipe | WouldBlock
  | TimedOut | OutOfMemory | OtherError | UnlistedKind string

record accept_io_error =
  ae_kind :: io_error_kind
  ae_raw_os_error :: "int option"
  ae_message :: string

datatype server_error =
    BindError accept_io_error
  | ConfigError string
  | AlreadyStarted
  | NotStarted
  | AcceptError accept_io_error
  | TlsSetup string
  | TransportFailure string
  | ShutdownTimeout
  | Startup string
  | Terminal string

fun server_error_text :: "server_error \<Rightarrow> string" where
  "server_error_text (BindError e) = ''failed to bind: '' @ ae_message e"
| "server_error_text (ConfigError msg) = ''configuration error: '' @ msg"
| "server_error_text AlreadyStarted = ''server already started''"
| "server_error_text NotStarted = ''server not started''"
| "server_error_text (AcceptError e) = ''accept error: '' @ ae_message e"
| "server_error_text (TlsSetup msg) = ''TLS setup error: '' @ msg"
| "server_error_text (TransportFailure msg) = ''transport error: '' @ msg"
| "server_error_text ShutdownTimeout = ''graceful shutdown timed out''"
| "server_error_text (Startup msg) = ''startup error: '' @ msg"
| "server_error_text (Terminal msg) = ''terminal runtime error: '' @ msg"

datatype shutdown_result = Clean | Timeout | Forced

section \<open>Classification of accept errors\<close>

definition EMFILE_RAW :: int where [rust_eval]: "EMFILE_RAW = 24"
definition ENFILE_RAW :: int where [rust_eval]: "ENFILE_RAW = 23"
definition WSAEMFILE_RAW :: int where [rust_eval]: "WSAEMFILE_RAW = 10024"
definition WSAENFILE_RAW :: int where [rust_eval]: "WSAENFILE_RAW = 10023"

definition ACCEPT_BACKOFF_MS :: "nat list" where
  [rust_eval]: "ACCEPT_BACKOFF_MS = [1, 2, 4, 8, 50, 100, 250, 500]"

record accept_classification =
  ac_severity :: severity
  ac_event_kind :: event_kind
  ac_should_backoff :: bool
  ac_is_fatal :: bool
  ac_fd_exhausted :: bool

definition is_fd_exhaustion :: "accept_io_error \<Rightarrow> bool" where
  [rust_eval]: "is_fd_exhaustion e \<longleftrightarrow>
     (case ae_raw_os_error e of
        Some raw \<Rightarrow> raw = EMFILE_RAW \<or> raw = ENFILE_RAW \<or> raw = WSAEMFILE_RAW \<or> raw = WSAENFILE_RAW
      | None \<Rightarrow>
          (let message = to_ascii_lowercase (ae_message e)
           in contains_str message ''too many open files'' \<or> contains_str message ''emfile''
              \<or> contains_str message ''enfile''))"

definition classify_accept_error :: "accept_io_error \<Rightarrow> accept_classification" where
  [rust_eval]: "classify_accept_error e =
     (let fd_exhausted = is_fd_exhaustion e;
          (sev, kind, should_backoff, is_fatal) =
            (case ae_kind e of
               Interrupted \<Rightarrow> (Debug, ListenerTransientError, True, False)
             | ConnectionRefused \<Rightarrow> (Debug, ListenerTransientError, True, False)
             | ConnectionReset \<Rightarrow> (Debug, ListenerTransientError, True, False)
             | ConnectionAborted \<Rightarrow> (Debug, ListenerTransientError, True, False)
             | BrokenPipe \<Rightarrow> (Debug, ListenerTransientError, True, False)
             | WouldBlock \<Rightarrow> (Warn, ListenerTransientError, True, False)
             | TimedOut \<Rightarrow> (Warn, ListenerTransientError, True, False)
             | OutOfMemory \<Rightarrow> (Error, ResourceExhaustion, True, False)
             | OtherError \<Rightarrow>
                 if fd_exhausted then (Error, ResourceExhaustion, True, False)
                 else (Error, ListenerPersistentError, False, True)
             | UnlistedKind _ \<Rightarrow>
                 if fd_exhausted then (Error, ResourceExhaustion, True, False)
                 else (Error, ListenerPersistentError, False, True))
      in \<lparr>ac_severity = sev, ac_event_kind = kind, ac_should_backoff = should_backoff,
          ac_is_fatal = is_fatal, ac_fd_exhausted = fd_exhausted\<rparr>)"

definition accept_backoff_ms :: "nat \<Rightarrow> nat" where
  [rust_eval]: "accept_backoff_ms index = ACCEPT_BACKOFF_MS ! min index (length ACCEPT_BACKOFF_MS - 1)"

definition report_accept_error ::
  "custom_sinks \<Rightarrow> ops_context \<Rightarrow> accept_io_error \<Rightarrow> ops_world \<Rightarrow> accept_classification \<times> ops_world" where
  [rust_eval]: "report_accept_error cs ctx e w =
     (let classification = classify_accept_error e;
          w = ops_count ctx (oc_listener_errors_update (\<lambda>n. n + 1)) w;
          (ev, w) = event_now (ac_severity classification) (ac_event_kind classification)
                      (sanitize_text_field (''accept error: '' @ ae_message e)) w
      in (classification, ops_emit cs ctx ev w))"

section \<open>The accept loop\<close>

datatype accept_phase =
    Accepting
  | BackingOff nat
  | Draining
  | Aborting
  | Stopped "server_error + shutdown_result"

record accept_state =
  as_phase :: accept_phase
  as_shutdown :: bool
  as_backoff_idx :: nat
  as_permits :: nat
  as_running :: nat
  as_finished :: nat
  as_failed :: nat
  as_terminal_error :: "server_error option"

datatype accept_event =
    ShutdownCall
  | ShutdownSeen
  | Accepted
  | AcceptFailed accept_io_error
  | BackoffElapsed
  | TaskEnds bool
  | TaskAborted
  | Joined bool
  | DrainComplete
  | DrainTimeout
  | AbortComplete

definition accept_start :: "nat \<Rightarrow> accept_state" where
  [rust_eval]: "accept_start max_connections =
     \<lparr>as_phase = Accepting, as_shutdown = False, as_backoff_idx = 0, as_permits = max_connections,
      as_running = 0, as_finished = 0, as_failed = 0, as_terminal_error = None\<rparr>"

definition task_failure :: server_error where
  [rust_eval]: "task_failure = Terminal ''runtime-owned connection task panicked or was cancelled''"

definition tasks_empty :: "accept_state \<Rightarrow> bool" where
  [rust_eval]: "tasks_empty s \<longleftrightarrow> as_running s = 0 \<and> as_finished s = 0 \<and> as_failed s = 0"

definition on_accepted ::
  "custom_sinks \<Rightarrow> ops_context \<Rightarrow> accept_state \<times> ops_world \<Rightarrow> accept_state \<times> ops_world" where
  [rust_eval]: "on_accepted cs ctx st =
     (let (s, w) = st;
          s = s\<lparr>as_backoff_idx := 0\<rparr>
      in if as_permits s = 0 then
           (let w = ops_count ctx (oc_connections_rejected_update (\<lambda>n. n + 1)) w;
                (ev, w) = event_now Debug ConnectionRejected ''connection saturated: connection limit'' w
            in (s, ops_emit cs ctx ev w))
         else
           (let (_, w) = next_connection_id ctx w
            in (s\<lparr>as_permits := as_permits s - 1, as_running := as_running s + 1\<rparr>, w)))"

definition on_accept_failed ::
  "custom_sinks \<Rightarrow> ops_context \<Rightarrow> accept_io_error \<Rightarrow> accept_state \<times> ops_world \<Rightarrow> accept_state \<times> ops_world" where
  [rust_eval]: "on_accept_failed cs ctx e st =
     (let (s, w) = st;
          (classification, w) = report_accept_error cs ctx e w
      in (if ac_is_fatal classification then s\<lparr>as_shutdown := True, as_phase := Draining\<rparr>
          else if ac_should_backoff classification then
            s\<lparr>as_phase := BackingOff (accept_backoff_ms (as_backoff_idx s)),
              as_backoff_idx := usize_saturating_add (as_backoff_idx s) 1\<rparr>
          else s, w))"

definition remove_joined :: "bool \<Rightarrow> accept_state \<Rightarrow> accept_state option" where
  [rust_eval]: "remove_joined ok s =
     (if ok then (if as_finished s = 0 then None else Some (s\<lparr>as_finished := as_finished s - 1\<rparr>))
      else (if as_failed s = 0 then None else Some (s\<lparr>as_failed := as_failed s - 1\<rparr>)))"

definition on_joined :: "bool \<Rightarrow> accept_state \<Rightarrow> accept_state option" where
  [rust_eval]: "on_joined ok s =
     (case as_phase s of
        Accepting \<Rightarrow>
          map_option (\<lambda>s. if ok then s
            else s\<lparr>as_terminal_error := Some task_failure, as_shutdown := True, as_phase := Draining\<rparr>)
            (remove_joined ok s)
      | Draining \<Rightarrow>
          map_option (\<lambda>s. if \<not> ok \<and> as_terminal_error s = None
            then s\<lparr>as_terminal_error := Some task_failure\<rparr> else s) (remove_joined ok s)
      | Aborting \<Rightarrow> remove_joined ok s
      | _ \<Rightarrow> None)"

text \<open>A connection task ends and drops its permit; a task that panics or is aborted does too.  A joined
  aborted task is a join error.\<close>

definition on_task_ends :: "bool \<Rightarrow> accept_state \<Rightarrow> accept_state option" where
  [rust_eval]: "on_task_ends ok s =
     (if as_running s = 0 then None
      else Some (let s = s\<lparr>as_running := as_running s - 1, as_permits := as_permits s + 1\<rparr>
                 in if ok then s\<lparr>as_finished := as_finished s + 1\<rparr> else s\<lparr>as_failed := as_failed s + 1\<rparr>))"

definition drain_result :: "accept_state \<Rightarrow> server_error + shutdown_result" where
  [rust_eval]: "drain_result s = (case as_terminal_error s of Some e \<Rightarrow> Inl e | None \<Rightarrow> Inr Clean)"

fun accept_step ::
  "custom_sinks \<Rightarrow> ops_context \<Rightarrow> accept_event \<Rightarrow> accept_state \<times> ops_world \<Rightarrow> (accept_state \<times> ops_world) option" where
  "accept_step cs ctx ShutdownCall (s, w) = Some (s\<lparr>as_shutdown := True\<rparr>, w)"
| "accept_step cs ctx ShutdownSeen (s, w) =
     (case as_phase s of
        Accepting \<Rightarrow> if as_shutdown s then Some (s\<lparr>as_phase := Draining\<rparr>, w) else None
      | BackingOff _ \<Rightarrow> if as_shutdown s then Some (s\<lparr>as_phase := Draining\<rparr>, w) else None
      | _ \<Rightarrow> None)"
| "accept_step cs ctx Accepted (s, w) =
     (if as_phase s = Accepting then Some (on_accepted cs ctx (s, w)) else None)"
| "accept_step cs ctx (AcceptFailed e) (s, w) =
     (if as_phase s = Accepting then Some (on_accept_failed cs ctx e (s, w)) else None)"
| "accept_step cs ctx BackoffElapsed (s, w) =
     (case as_phase s of BackingOff _ \<Rightarrow> Some (s\<lparr>as_phase := Accepting\<rparr>, w) | _ \<Rightarrow> None)"
| "accept_step cs ctx (TaskEnds ok) (s, w) = map_option (\<lambda>s. (s, w)) (on_task_ends ok s)"
| "accept_step cs ctx TaskAborted (s, w) =
     (if as_phase s = Aborting then map_option (\<lambda>s. (s, w)) (on_task_ends False s) else None)"
| "accept_step cs ctx (Joined ok) (s, w) = map_option (\<lambda>s. (s, w)) (on_joined ok s)"
| "accept_step cs ctx DrainComplete (s, w) =
     (if as_phase s = Draining \<and> tasks_empty s then Some (s\<lparr>as_phase := Stopped (drain_result s)\<rparr>, w) else None)"
| "accept_step cs ctx DrainTimeout (s, w) =
     (if as_phase s = Draining \<and> \<not> tasks_empty s then
        (let (ev, w) = event_now Warn ForcedShutdownStarted
                         ''graceful shutdown drain budget expired; aborting stalled connections'' w
         in Some (s\<lparr>as_phase := Aborting\<rparr>, ops_emit cs ctx ev w))
      else None)"
| "accept_step cs ctx AbortComplete (s, w) =
     (if as_phase s = Aborting \<and> tasks_empty s then Some (s\<lparr>as_phase := Stopped (Inr Timeout)\<rparr>, w) else None)"

section \<open>Invariant\<close>

definition accept_inv :: "nat \<Rightarrow> accept_state \<times> ops_world \<Rightarrow> bool" where
  "accept_inv n st \<longleftrightarrow>
     (let s = fst st in
      as_permits s + as_running s = n
      \<and> (case as_phase s of
           Accepting \<Rightarrow> as_terminal_error s = None
         | BackingOff d \<Rightarrow> as_terminal_error s = None \<and> d \<in> set ACCEPT_BACKOFF_MS
         | Stopped _ \<Rightarrow> as_shutdown s \<and> tasks_empty s
         | _ \<Rightarrow> as_shutdown s))"

lemma accept_backoff_in: "accept_backoff_ms i \<in> set ACCEPT_BACKOFF_MS"
  unfolding accept_backoff_ms_def by (rule nth_mem) (simp add: ACCEPT_BACKOFF_MS_def)

lemmas accept_defs = on_accepted_def on_accept_failed_def on_joined_def on_task_ends_def remove_joined_def
  report_accept_error_def next_connection_id_def event_now_def tasks_empty_def drain_result_def

interpretation al: event_machine "accept_step cs ctx" "accept_inv n" for cs ctx n
proof
  fix st st' e assume i: "accept_inv n st" and e: "accept_step cs ctx e st = Some st'"
  obtain s w where st: "st = (s, w)" by fastforce
  show "accept_inv n st'"
    using i e unfolding st
    by (cases e; cases "as_phase s")
      (auto simp: accept_inv_def accept_defs Let_def accept_backoff_in split: if_splits prod.splits)
qed

definition accept_draining :: "accept_state \<times> ops_world \<Rightarrow> bool" where
  "accept_draining st \<longleftrightarrow> as_phase (fst st) = Draining \<or> as_phase (fst st) = Aborting"

text \<open>The events that the runtime brings about: its timer, its abort, and joins of ended tasks.\<close>

fun runtime_event :: "accept_event \<Rightarrow> bool" where
  "runtime_event (Joined _) = True"
| "runtime_event TaskAborted = True"
| "runtime_event DrainComplete = True"
| "runtime_event DrainTimeout = True"
| "runtime_event AbortComplete = True"
| "runtime_event _ = False"

definition accept_stopped :: "accept_state \<times> ops_world \<Rightarrow> bool" where
  "accept_stopped st \<longleftrightarrow> (\<exists>r. as_phase (fst st) = Stopped r)"

text \<open>What is left to do: two events for a running task, one for an ended one, and the end of the drain.\<close>

definition accept_work :: "accept_state \<times> ops_world \<Rightarrow> nat" where
  "accept_work st =
     (let s = fst st
      in 2 * as_running s + as_finished s + as_failed s
         + (case as_phase s of Draining \<Rightarrow> 2 | Aborting \<Rightarrow> 1 | _ \<Rightarrow> 0))"

interpretation ad: draining_machine "accept_step cs ctx" "accept_inv n" "\<lambda>e. e \<noteq> ShutdownCall" runtime_event
  accept_draining accept_stopped accept_work for cs ctx n
proof
  fix st st' :: "accept_state \<times> ops_world" and e
  obtain s w where st: "st = (s, w)" by fastforce
  show "(accept_draining st' \<or> accept_stopped st') \<and> accept_work st' < accept_work st"
    if "accept_draining st" "e \<noteq> ShutdownCall" "accept_step cs ctx e st = Some st'"
    using that unfolding st
    by (cases e; cases "as_phase s")
      (auto simp: accept_draining_def accept_stopped_def accept_work_def accept_defs Let_def split: if_splits)
  show "accept_draining st' \<and> accept_work st' = accept_work st"
    if "accept_draining st" "\<not> e \<noteq> ShutdownCall" "accept_step cs ctx e st = Some st'"
    using that unfolding st by (auto simp: accept_draining_def accept_work_def)
  show "accept_step cs ctx e st = None"
    if "accept_inv n st" "accept_stopped st" "e \<noteq> ShutdownCall"
    using that unfolding st
    by (cases e) (auto simp: accept_inv_def accept_stopped_def accept_defs Let_def split: if_splits)
  show "accept_stopped st'"
    if "accept_stopped st" "\<not> e \<noteq> ShutdownCall" "accept_step cs ctx e st = Some st'"
    using that unfolding st by (auto simp: accept_stopped_def)
  show "e \<noteq> ShutdownCall" if "runtime_event e" using that by auto
  show "\<exists>e st'. runtime_event e \<and> accept_step cs ctx e st = Some st'"
    if "accept_inv n st" "accept_draining st"
  proof -
    consider "as_failed s > 0" | "as_finished s > 0" | "as_running s > 0" | "tasks_empty s"
      by (auto simp: tasks_empty_def)
    then show ?thesis
    proof cases
      case 1
      then show ?thesis using that unfolding st
        by (intro exI [of _ "Joined False"]) (auto simp: accept_draining_def accept_defs)
    next
      case 2
      then show ?thesis using that unfolding st
        by (intro exI [of _ "Joined True"]) (auto simp: accept_draining_def accept_defs)
    next
      case 3
      then show ?thesis using that unfolding st
        by (cases "as_phase s = Draining")
          (intro exI [of _ DrainTimeout], simp add: accept_defs Let_def,
           intro exI [of _ TaskAborted], simp add: accept_draining_def accept_defs Let_def)
    next
      case 4
      then show ?thesis using that unfolding st
        by (cases "as_phase s = Draining")
          (intro exI [of _ DrainComplete], simp, intro exI [of _ AbortComplete], simp add: accept_draining_def)
    qed
  qed
qed

section \<open>Accounting\<close>

definition listener_errors_of :: "ops_context \<Rightarrow> accept_state \<times> ops_world \<Rightarrow> u64" where
  [rust_eval]: "listener_errors_of ctx st = oc_listener_errors (ow_counters (snd st) (ctx_id ctx))"

text \<open>Connections that were given an identifier or counted as rejected.\<close>

definition accounted_of :: "ops_context \<Rightarrow> accept_state \<times> ops_world \<Rightarrow> u64" where
  [rust_eval]: "accounted_of ctx st =
     ow_ids (snd st) (ctx_id ctx) + oc_connections_rejected (ow_counters (snd st) (ctx_id ctx))"

lemma ops_emit_ids: "ow_ids (ops_emit cs ctx ev w) = ow_ids w"
  using deliver_leaves_view [OF sink_leaves_are_leaves] unfolding ops_emit_leaves by blast

lemma ops_emit_keeps_counts:
  "oc_listener_errors (ow_counters (ops_emit cs ctx ev w) i) = oc_listener_errors (ow_counters w i)"
  "oc_connections_rejected (ow_counters (ops_emit cs ctx ev w) i) = oc_connections_rejected (ow_counters w i)"
  using ops_emit_counters [of cs ctx ev w i] by auto

fun is_accept_failed :: "accept_event \<Rightarrow> bool" where
  "is_accept_failed (AcceptFailed _) = True"
| "is_accept_failed _ = False"

lemma listener_errors_step:
  "accept_step cs ctx e st = Some st' \<Longrightarrow>
   listener_errors_of ctx st' = listener_errors_of ctx st + (if is_accept_failed e then 1 else 0)"
  by (cases st; cases e)
    (auto simp: listener_errors_of_def accept_defs ops_count_def with_counters_def ops_emit_keeps_counts Let_def
      split: if_splits accept_phase.splits)

lemma accounted_step:
  "accept_step cs ctx e st = Some st' \<Longrightarrow>
   accounted_of ctx st' = accounted_of ctx st + (if e = Accepted then 1 else 0)"
  by (cases st; cases e)
    (auto simp: accounted_of_def accept_defs ops_count_def with_counters_def ops_emit_keeps_counts ops_emit_ids Let_def
      split: if_splits accept_phase.splits)

lemma sum_list_indicator: "sum_list (map (\<lambda>e. if P e then 1 else 0) es) = (of_nat (length (filter P es)) :: u64)"
  by (induction es) (simp_all add: add.commute)

section \<open>The result\<close>

text \<open>Once a failed task was joined or the drain was cut short the result cannot be clean.\<close>

definition unclean :: "accept_state \<times> ops_world \<Rightarrow> bool" where
  "unclean st \<longleftrightarrow>
     (case as_phase (fst st) of
        Aborting \<Rightarrow> True | Stopped r \<Rightarrow> r \<noteq> Inr Clean | _ \<Rightarrow> as_terminal_error (fst st) \<noteq> None)"

interpretation uc: event_machine "accept_step cs ctx" unclean for cs ctx
proof
  fix st st' e assume i: "unclean st" and e: "accept_step cs ctx e st = Some st'"
  obtain s w where st: "st = (s, w)" by fastforce
  show "unclean st'"
    using i e unfolding st
    by (cases e; cases "as_phase s")
      (auto simp: unclean_def accept_defs Let_def split: if_splits prod.splits)
qed

lemma joined_failure_unclean:
  "accept_step cs ctx (Joined False) st = Some st' \<Longrightarrow> unclean st'"
  by (cases st; cases "as_phase (fst st)") (auto simp: unclean_def accept_defs split: if_splits)

lemma aborted_unclean:
  "accept_step cs ctx TaskAborted st = Some st' \<Longrightarrow> unclean st'"
  by (cases st) (auto simp: unclean_def accept_defs Let_def split: if_splits)

lemma clean_run_no_failed_join:
  "run_events (accept_step cs ctx) es st = Some st' \<Longrightarrow> \<not> unclean st' \<Longrightarrow>
   Joined False \<notin> set es \<and> TaskAborted \<notin> set es"
proof (induction es arbitrary: st)
  case (Cons e es)
  from Cons.prems(1) obtain t where t: "accept_step cs ctx e st = Some t"
    "run_events (accept_step cs ctx) es t = Some st'" by (rule run_events_ConsE)
  have "\<not> unclean t" using uc.run_inv [OF t(2)] Cons.prems(2) by blast
  then have "e \<noteq> Joined False \<and> e \<noteq> TaskAborted" using joined_failure_unclean aborted_unclean t(1) by blast
  then show ?case using Cons.IH [OF t(2)] Cons.prems(2) by auto
qed simp

text \<open>A task that failed is joined as such or still there.\<close>

lemma failed_step:
  "accept_step cs ctx e st = Some st' \<Longrightarrow>
   int (as_failed (fst st')) = int (as_failed (fst st))
     + (if e = TaskEnds False \<or> e = TaskAborted then 1 else if e = Joined False then - 1 else 0)"
  by (cases st; cases e; cases "as_phase (fst st)")
    (auto simp: accept_defs Let_def of_nat_diff split: if_splits)

lemma failed_sum:
  "Joined False \<notin> set es \<and> TaskAborted \<notin> set es \<Longrightarrow>
   sum_list (map (\<lambda>e. if e = TaskEnds False \<or> e = TaskAborted then 1 else if e = Joined False then - 1 else 0) es)
   = int (length (filter (\<lambda>e. e = TaskEnds False) es))"
  by (induction es) auto

lemma clean_run_no_failure:
  assumes "run_events (accept_step cs ctx) es (accept_start n, w) = Some (s, w')"
    and "as_phase s = Stopped (Inr Clean)"
  shows "TaskEnds False \<notin> set es"
proof -
  have j: "Joined False \<notin> set es \<and> TaskAborted \<notin> set es"
    using clean_run_no_failed_join [OF assms(1)] assms(2) by (simp add: unclean_def)
  have "accept_inv n (s, w')" by (rule al.run_inv [OF assms(1)]) (simp add: accept_inv_def accept_start_def)
  then have "as_failed s = 0" using assms(2) by (simp add: accept_inv_def tasks_empty_def)
  moreover have "int (as_failed s) = int (as_failed (accept_start n))
      + sum_list (map (\<lambda>e. if e = TaskEnds False \<or> e = TaskAborted then 1 else if e = Joined False then - 1 else 0) es)"
    using run_events_count [where f = "\<lambda>st. int (as_failed (fst st))", OF failed_step assms(1)] by simp
  ultimately have "filter (\<lambda>e. e = TaskEnds False) es = []"
    by (simp add: failed_sum [OF j] accept_start_def)
  then show ?thesis by (auto simp: filter_empty_conv)
qed

lemma timeout_needs_timer:
  "run_events (accept_step cs ctx) es st = Some st' \<Longrightarrow> DrainTimeout \<notin> set es \<Longrightarrow>
   as_phase (fst st) \<noteq> Aborting \<Longrightarrow> as_phase (fst st) \<noteq> Stopped (Inr Timeout) \<Longrightarrow>
   as_phase (fst st') \<noteq> Stopped (Inr Timeout)"
proof (induction es arbitrary: st)
  case (Cons e es)
  from Cons.prems(1) obtain t where t: "accept_step cs ctx e st = Some t"
    "run_events (accept_step cs ctx) es t = Some st'" by (rule run_events_ConsE)
  have "as_phase (fst t) \<noteq> Aborting \<and> as_phase (fst t) \<noteq> Stopped (Inr Timeout)"
    using t(1) Cons.prems(2-4)
    by (cases st; cases e; cases "as_phase (fst st)")
      (auto simp: accept_defs Let_def split: if_splits option.splits)
  then show ?case using Cons.IH [OF t(2)] Cons.prems(2) by simp
qed simp

text \<open>A drain that waits for a running task: the runtime's events alone end it only by the abort.\<close>

definition drain_stalled :: "accept_state \<times> ops_world \<Rightarrow> bool" where
  "drain_stalled st \<longleftrightarrow>
     (case as_phase (fst st) of
        Draining \<Rightarrow> as_running (fst st) > 0 | Aborting \<Rightarrow> True | Stopped r \<Rightarrow> r = Inr Timeout | _ \<Rightarrow> False)"

lemma drain_stalled_step:
  "accept_step cs ctx e st = Some st' \<Longrightarrow> runtime_event e \<Longrightarrow> drain_stalled st \<Longrightarrow>
   drain_stalled st' \<and> (as_phase (fst st) = Draining \<and> e \<noteq> DrainTimeout \<longrightarrow> as_phase (fst st') = Draining)"
  by (cases st; cases e; cases "as_phase (fst st)")
    (auto simp: drain_stalled_def accept_defs Let_def split: if_splits)

lemma drain_stalled_result:
  "run_events (accept_step cs ctx) gs st = Some u \<Longrightarrow> list_all runtime_event gs \<Longrightarrow> drain_stalled st \<Longrightarrow>
   as_phase (fst u) = Stopped r \<Longrightarrow> r = Inr Timeout \<and> (as_phase (fst st) = Draining \<longrightarrow> DrainTimeout \<in> set gs)"
proof (induction gs arbitrary: st)
  case (Cons e gs)
  from Cons.prems(1) obtain v where v: "accept_step cs ctx e st = Some v"
    "run_events (accept_step cs ctx) gs v = Some u" by (rule run_events_ConsE)
  have e: "runtime_event e" "list_all runtime_event gs" using Cons.prems(2) by simp_all
  note s = drain_stalled_step [OF v(1) e(1) Cons.prems(3)]
  show ?case using Cons.IH [OF v(2) e(2) _ Cons.prems(4)] s by auto
qed (simp add: drain_stalled_def)

section \<open>Properties\<close>

text \<open>
  C26: Along every interleaving of accepts, accept errors, task ends, joins, timers and shutdown requests
  the accept loop never serves more than \<^verbatim>\<open>max_connections\<close> connections at once and loses no permit;
  every accepted connection is either given an identifier or counted as rejected, and every accept
  error is counted exactly once; a pause after an error is one of the steps of the ramp.  When the
  loop has stopped, shutdown was requested, no task is left, a clean result means that no connection
  task failed, and a timeout is reported only when the drain timer fired.
\<close>

theorem accept_loop_accounts:
  assumes "run_events (accept_step cs ctx) es (accept_start max_connections, w) = Some (s, w')"
  shows "as_permits s + as_running s = max_connections
    \<and> accounted_of ctx (s, w') = accounted_of ctx (s, w) + of_nat (length (filter (\<lambda>e. e = Accepted) es))
    \<and> listener_errors_of ctx (s, w') = listener_errors_of ctx (s, w) + of_nat (length (filter is_accept_failed es))
    \<and> (case as_phase s of
         BackingOff d \<Rightarrow> d \<in> set ACCEPT_BACKOFF_MS \<and> d \<le> 500
       | Stopped r \<Rightarrow>
           as_shutdown s \<and> tasks_empty s
           \<and> (r = Inr Clean \<longrightarrow> TaskEnds False \<notin> set es) \<and> (r = Inr Timeout \<longrightarrow> DrainTimeout \<in> set es)
       | _ \<Rightarrow> True)"
proof -
  have i: "accept_inv max_connections (s, w')"
    by (rule al.run_inv [OF assms]) (simp add: accept_inv_def accept_start_def)
  have w: "accounted_of ctx (accept_start max_connections, w) = accounted_of ctx (s, w)"
    "listener_errors_of ctx (accept_start max_connections, w) = listener_errors_of ctx (s, w)"
    by (simp_all add: accounted_of_def listener_errors_of_def)
  have c: "accounted_of ctx (s, w') = accounted_of ctx (s, w) + of_nat (length (filter (\<lambda>e. e = Accepted) es))"
    "listener_errors_of ctx (s, w') = listener_errors_of ctx (s, w) + of_nat (length (filter is_accept_failed es))"
    using run_events_count [where f = "accounted_of ctx" and g = "\<lambda>e. if e = Accepted then 1 else 0",
        OF accounted_step assms]
      run_events_count [where f = "listener_errors_of ctx" and g = "\<lambda>e. if is_accept_failed e then 1 else 0",
        OF listener_errors_step assms]
    by (simp_all add: w sum_list_indicator)
  have "r = Inr Clean \<longrightarrow> TaskEnds False \<notin> set es" "r = Inr Timeout \<longrightarrow> DrainTimeout \<in> set es"
    if "as_phase s = Stopped r" for r
    using clean_run_no_failure [OF assms] timeout_needs_timer [OF assms] that
    by (auto simp: accept_start_def)
  then show ?thesis using i c
    by (auto simp: accept_inv_def Let_def ACCEPT_BACKOFF_MS_def split: accept_phase.splits)
qed

definition sample_sinks :: custom_sinks where
  [rust_eval]: "sample_sinks = \<lparr>custom_panics = (\<lambda>_ _. False), custom_enabled = (\<lambda>_ _. Some True)\<rparr>"

definition sample_context :: ops_context where
  [rust_eval]: "sample_context = \<lparr>ctx_sink = NopLogSink, ctx_id = 0\<rparr>"

definition sample_world :: ops_world where
  [rust_eval]: "sample_world = ops_world_new True (\<lambda>_. None)"

definition sample_accept_events :: "accept_event list" where
  [rust_eval]: "sample_accept_events =
     [Accepted, Accepted,
      AcceptFailed \<lparr>ae_kind = UnlistedKind ''emfile'', ae_raw_os_error = Some 24, ae_message = ''too many''\<rparr>,
      BackoffElapsed, ShutdownCall, ShutdownSeen, TaskEnds True, Joined True, DrainComplete]"

lemma sample_accept_run:
  "\<exists>w'. run_events (accept_step sample_sinks sample_context) sample_accept_events
     (accept_start 1, sample_world) =
   Some (\<lparr>as_phase = Stopped (Inr Clean), as_shutdown = True, as_backoff_idx = 1, as_permits = 1,
     as_running = 0, as_finished = 0, as_failed = 0, as_terminal_error = None\<rparr>, w')"
  by (simp add: sample_accept_events_def sample_context_def accept_start_def accept_defs Let_def ops_emit_def
      classify_accept_error_def is_fd_exhaustion_def EMFILE_RAW_def usize_saturating_add_def usize_max_def)

theorem accept_loop_accounts_witness:
  "\<exists>s w'. run_events (accept_step sample_sinks sample_context) sample_accept_events
     (accept_start 1, sample_world) = Some (s, w')
   \<and> as_phase s = Stopped (Inr Clean) \<and> as_permits s + as_running s = 1 \<and> tasks_empty s
   \<and> listener_errors_of sample_context (s, w') = listener_errors_of sample_context (s, sample_world) + 1
   \<and> accounted_of sample_context (s, w') = accounted_of sample_context (s, sample_world) + 2"
proof -
  obtain s w' where r: "run_events (accept_step sample_sinks sample_context) sample_accept_events
     (accept_start 1, sample_world) = Some (s, w')" and p: "as_phase s = Stopped (Inr Clean)"
    using sample_accept_run by fastforce
  from accept_loop_accounts [OF r] r p show ?thesis
    by (intro exI [of _ s] exI [of _ w']) (simp add: sample_accept_events_def)
qed

text \<open>
  C27: Once the accept loop drains it ends, and it does not depend on its connection tasks for that.  From
  every reachable draining state, whatever is requested in between, at most twice the running tasks plus
  the ended ones plus two further events of its own can happen; and at every moment of the drain the drain
  timer, the abort, the ends it forces and the joins, with no task ending by itself, lead to the end of
  the loop.  A drain in which a running task never ends by itself can only end as a timeout.
\<close>

theorem accept_loop_drains:
  assumes "run_events (accept_step cs ctx) es (accept_start max_connections, w) = Some (s, w')"
    and "as_phase s = Draining \<or> as_phase s = Aborting"
    and "run_events (accept_step cs ctx) fs (s, w') = Some (t, w'')"
  shows "length (filter (\<lambda>e. e \<noteq> ShutdownCall) fs) \<le> 2 * as_running s + as_finished s + as_failed s + 2
    \<and> (\<exists>gs u. list_all runtime_event gs \<and> run_events (accept_step cs ctx) (fs @ gs) (s, w') = Some u
         \<and> (\<exists>r. as_phase (fst u) = Stopped r))
    \<and> (\<forall>gs u r. as_running t > 0 \<and> list_all runtime_event gs
         \<and> run_events (accept_step cs ctx) gs (t, w'') = Some u \<and> as_phase (fst u) = Stopped r
         \<longrightarrow> r = Inr Timeout \<and> (as_phase t = Draining \<longrightarrow> DrainTimeout \<in> set gs))"
proof -
  have i: "accept_inv max_connections (s, w')"
    by (rule al.run_inv [OF assms(1)]) (simp add: accept_inv_def accept_start_def)
  have d: "accept_draining (s, w')" using assms(2) by (simp add: accept_draining_def)
  have "length (filter (\<lambda>e. e \<noteq> ShutdownCall) fs) \<le> accept_work (s, w')"
    by (rule ad.drain_bounded [OF assms(3) i d])
  moreover have "accept_work (s, w') \<le> 2 * as_running s + as_finished s + as_failed s + 2"
    by (auto simp: accept_work_def split: accept_phase.splits)
  moreover have ds: "accept_draining (t, w'') \<or> accept_stopped (t, w'')"
    by (rule ad.run_stays [OF assms(3) i]) (simp add: d)
  then have "\<exists>gs u. list_all runtime_event gs \<and> run_events (accept_step cs ctx) gs (t, w'') = Some u \<and> accept_stopped u"
    using ad.drain_ends [OF al.run_inv [OF assms(3) i]] by (metis list.pred_inject(1) run_events.simps(1))
  then have "\<exists>gs u. list_all runtime_event gs \<and> run_events (accept_step cs ctx) (fs @ gs) (s, w') = Some u
      \<and> (\<exists>r. as_phase (fst u) = Stopped r)"
    using assms(3) by (auto simp: run_events_append accept_stopped_def)
  moreover have "r = Inr Timeout \<and> (as_phase t = Draining \<longrightarrow> DrainTimeout \<in> set gs)"
    if "as_running t > 0" "list_all runtime_event gs" "run_events (accept_step cs ctx) gs (t, w'') = Some u"
      "as_phase (fst u) = Stopped r" for gs u r
    using drain_stalled_result [OF that(3,2) _ that(4)] ds that(1) al.run_inv [OF assms(3) i]
    by (auto simp: drain_stalled_def accept_draining_def accept_stopped_def accept_inv_def tasks_empty_def)
  ultimately show ?thesis by auto
qed

definition sample_drain :: "accept_state \<times> ops_world" where
  [rust_eval]: "sample_drain =
     (accept_start 1\<lparr>as_phase := Draining, as_shutdown := True, as_permits := 0, as_running := 1\<rparr>,
      snd (next_connection_id sample_context sample_world))"

theorem accept_loop_drains_witness:
  "run_events (accept_step sample_sinks sample_context) [Accepted, ShutdownCall, ShutdownSeen]
     (accept_start 1, sample_world) = Some sample_drain
   \<and> (\<exists>gs u. list_all runtime_event gs
        \<and> run_events (accept_step sample_sinks sample_context) ([ShutdownCall] @ gs) sample_drain = Some u
        \<and> (\<exists>r. as_phase (fst u) = Stopped r))"
proof -
  have 1: "run_events (accept_step sample_sinks sample_context) [Accepted, ShutdownCall, ShutdownSeen]
     (accept_start 1, sample_world) = Some (fst sample_drain, snd sample_drain)"
    by (simp add: accept_start_def accept_defs Let_def sample_drain_def)
  have 2: "run_events (accept_step sample_sinks sample_context) [ShutdownCall] (fst sample_drain, snd sample_drain) =
     Some (fst sample_drain, snd sample_drain)"
    by (simp add: accept_start_def accept_defs Let_def sample_drain_def)
  from accept_loop_drains [OF 1 _ 2] 1 show ?thesis by (simp add: sample_drain_def)
qed

end
