(* ===== verification/Request_Intake.thy ===== *)
theory Request_Intake
  imports Service_Contract Ops
begin

text \<open>
  Request intake: \<^verbatim>\<open>eggserve-server/src/connection/request.rs\<close> and the tunnel classification of
  \<^verbatim>\<open>eggserve-server/src/tunnel.rs\<close>.

  A request of the HTTP library is the record of what the code reads from it (\<open>wire_request\<close>); nothing
  is said about how the library came to it.  The header map is likewise the record of its reads; that
  they are reads of one list of fields is the hypothesis \<open>header_map_laws\<close> (the documented behaviour of
  \<^verbatim>\<open>http::HeaderMap\<close>).  \<open>to_str\<close> stands for \<^verbatim>\<open>HeaderValue::to_str\<close>; the hypothesis
  \<open>to_str_identity\<close> says that it returns the bytes it accepts.

  The conversion of a head is the pure function \<open>convert_head\<close> followed by the accounting of its
  rejection: counters and events only occur immediately before a return.
\<close>

section \<open>The request of the HTTP library\<close>

datatype hyper_version = HTTP_10 | HTTP_11 | HTTP_2 | OtherVersion string

record wire_headers =
  wh_iter :: "(string \<times> bytes) list"
  wh_get_all :: "string \<Rightarrow> bytes list"
  wh_get :: "string \<Rightarrow> bytes option"
  wh_contains :: "string \<Rightarrow> bool"

record wire_request =
  wr_method :: string
  wr_version :: hyper_version
  wr_scheme :: "string option"
  wr_authority :: "string option"
  wr_path_and_query :: "string option"
  wr_uri :: string
  wr_headers :: wire_headers

definition header_map_laws :: "wire_headers \<Rightarrow> bool" where
  "header_map_laws h \<longleftrightarrow>
     (\<forall>name. to_ascii_lowercase name = name \<longrightarrow>
        wh_get_all h name = map snd (filter (\<lambda>f. eq_ignore_ascii_case (fst f) name) (wh_iter h))
        \<and> wh_get h name = (case wh_get_all h name of [] \<Rightarrow> None | v # _ \<Rightarrow> Some v)
        \<and> wh_contains h name = (wh_get_all h name \<noteq> []))"

definition to_str_identity :: "(bytes \<Rightarrow> string option) \<Rightarrow> bool" where
  "to_str_identity to_str \<longleftrightarrow> (\<forall>v s. to_str v = Some s \<longrightarrow> s = v)"

section \<open>Body policy\<close>

fun select_body_policy :: "request_body_policy \<Rightarrow> u64 \<Rightarrow> request_body_policy" where
  "select_body_policy RejectBody max_body_bytes = RejectBody"
| "select_body_policy (BufferBody max_bytes) max_body_bytes =
     (let effective = min max_bytes max_body_bytes
      in if effective = 0 then RejectBody else BufferBody effective)"
| "select_body_policy (StreamBody max_bytes) max_body_bytes =
     (let effective = min max_bytes max_body_bytes
      in if effective = 0 then RejectBody else StreamBody effective)"

definition select_body_policy_with_ceiling :: "request_body_policy \<Rightarrow> u64 option \<Rightarrow> request_body_policy" where
  [rust_eval]: "select_body_policy_with_ceiling service_policy max_body_bytes =
     (case max_body_bytes of Some limit \<Rightarrow> select_body_policy service_policy limit | None \<Rightarrow> service_policy)"

section \<open>Framing\<close>

text \<open>The loop over the \<^verbatim>\<open>Content-Length\<close> fields: their number, the first one, and whether another differs.\<close>

fun scan_content_lengths :: "bytes list \<Rightarrow> nat \<times> bytes option \<times> bool \<Rightarrow> nat \<times> bytes option \<times> bool" where
  "scan_content_lengths [] st = st"
| "scan_content_lengths (v # vs) (n, first, conflict) =
     scan_content_lengths vs
       (case first of
          Some f \<Rightarrow> (n + 1, first, conflict \<or> v \<noteq> f)
        | None \<Rightarrow> (n + 1, Some v, conflict))"

definition digits_u64 :: "string \<Rightarrow> u64 option" where
  [rust_eval]: "digits_u64 s = (if s \<noteq> [] \<and> list_all is_ascii_digit s then parse_u64 s else None)"

definition validate_body_framing :: "(bytes \<Rightarrow> string option) \<Rightarrow> wire_headers \<Rightarrow> service_error + unit" where
  [rust_eval]: "validate_body_framing to_str headers =
     (let has_te = wh_contains headers ''transfer-encoding'';
          (cl_count, cl_first, cl_conflict) =
            scan_content_lengths (wh_get_all headers ''content-length'') (0, None, False);
          has_cl = (cl_count \<noteq> 0)
      in if has_te \<and> has_cl then
           Inl (service_rejected 400 ''conflicting Transfer-Encoding and Content-Length'')
         else if cl_count > 1 then
           (if cl_conflict then Inl (service_rejected 400 ''conflicting Content-Length headers'')
            else Inl (service_rejected 400 ''duplicate Content-Length headers''))
         else case cl_first of
           None \<Rightarrow> Inr ()
         | Some first \<Rightarrow>
             if (case to_str first of Some s \<Rightarrow> digits_u64 s \<noteq> None | None \<Rightarrow> False) then Inr ()
             else Inl (service_rejected 400 ''invalid Content-Length''))"

text \<open>The declared length the pipeline reads after the check, and whether there is a body.\<close>

definition declared_length :: "(bytes \<Rightarrow> string option) \<Rightarrow> wire_headers \<Rightarrow> u64 option" where
  [rust_eval]: "declared_length to_str headers =
     Option.bind (Option.bind (wh_get headers ''content-length'') to_str) parse_u64"

definition request_has_body :: "(bytes \<Rightarrow> string option) \<Rightarrow> wire_headers \<Rightarrow> bool" where
  [rust_eval]: "request_has_body to_str headers \<longleftrightarrow>
     (case declared_length to_str headers of Some len \<Rightarrow> len > 0 | None \<Rightarrow> False)
     \<or> wh_contains headers ''transfer-encoding''"

section \<open>Body frames\<close>

datatype wire_frame = DataFrame bytes | TrailersFrame "(string \<times> bytes) list" | UnknownFrame | FrameFailed string

fun push_trailer_fields :: "header_block \<Rightarrow> (string \<times> bytes) list \<Rightarrow> string + header_block" where
  "push_trailer_fields b [] = Inr b"
| "push_trailer_fields b ((name, v) # fs) =
     and_then (map_err (\<lambda>_. ''invalid trailer name'') (header_name_new name)) (\<lambda>n.
     and_then (map_err (\<lambda>_. ''invalid trailer value'') (header_value_from_bytes v)) (\<lambda>w.
     push_trailer_fields (block_push b n w) fs))"

definition hyper_to_header_block :: "(string \<times> bytes) list \<Rightarrow> string + header_block" where
  [rust_eval]: "hyper_to_header_block fs = push_trailer_fields block_new fs"

text \<open>
  One frame of the wrapped body: what the stream yields (\<open>None\<close> when the frame is swallowed), the flag
  \<^verbatim>\<open>seen\<close> and the slot.
\<close>

fun wrap_frame :: "wire_frame \<Rightarrow> bool \<times> wire_slot \<Rightarrow> stream_event option \<times> bool \<times> wire_slot" where
  "wrap_frame (TrailersFrame fs) (seen, slot) =
     (if seen then (None, seen, if slot = None then Some (Inl ''repeated trailer block'') else slot)
      else
        (None, True,
         case hyper_to_header_block fs of
           Inr block \<Rightarrow> if slot = None then Some (Inr block) else Some (Inl ''repeated trailer block'')
         | Inl msg \<Rightarrow> if slot = None then Some (Inl msg) else slot))"
| "wrap_frame (DataFrame data) (seen, slot) =
     (if seen then (Some (StreamError ''data after trailers''), seen, Some (Inl ''data after trailers''))
      else (Some (Chunk data), seen, slot))"
| "wrap_frame UnknownFrame (seen, slot) =
     (if seen then (Some (StreamError ''data after trailers''), seen, Some (Inl ''data after trailers''))
      else (None, seen, slot))"
| "wrap_frame (FrameFailed e) (seen, slot) = (Some (StreamError e), seen, slot)"

fun wrap_frames :: "wire_frame list \<Rightarrow> bool \<times> wire_slot \<Rightarrow> stream_event list \<times> bool \<times> wire_slot" where
  "wrap_frames [] st = ([], st)"
| "wrap_frames (f # fs) st =
     (let (item, st) = wrap_frame f st;
          (items, st) = wrap_frames fs st
      in ((case item of Some i \<Rightarrow> i # items | None \<Rightarrow> items), st))"

definition wrap_incoming_body_with_trailers :: "wire_frame list \<Rightarrow> stream_event list \<times> wire_slot" where
  [rust_eval]: "wrap_incoming_body_with_trailers frames =
     (let (items, _, slot) = wrap_frames frames (False, None) in (items, slot))"

section \<open>The request head\<close>

datatype target_mode = OriginOnly | OriginOrAbsolute

datatype head_rejection =
    TargetTooLong string nat nat
  | HeaderBytesTooLarge nat
  | HeadRefused service_error

fun target_error_text :: "request_target_error \<Rightarrow> string" where
  "target_error_text TargetEmpty = ''request target is empty''"
| "target_error_text NotOriginForm = ''request target must start with '' @ [CHR 0x27] @ ''/'' @ [CHR 0x27]"
| "target_error_text ContainsWhitespace = ''request target contains whitespace''"
| "target_error_text AbsoluteUri = ''absolute URI not supported''"
| "target_error_text AuthorityForm = ''authority-form URI not supported''"
| "target_error_text AsteriskForm = ''asterisk-form URI not supported''"

definition refuse :: "u16 \<Rightarrow> string \<Rightarrow> head_rejection" where
  [rust_eval]: "refuse status message = HeadRefused (service_rejected status message)"

definition standard_methods :: "string list" where
  [rust_eval]: "standard_methods =
     [''GET'', ''HEAD'', ''POST'', ''PUT'', ''DELETE'', ''PATCH'', ''OPTIONS'', ''TRACE'']"

definition head_method :: "string \<Rightarrow> head_rejection + http_method" where
  [rust_eval]: "head_method m =
     (if List.member standard_methods m then Inr (Method m)
      else map_err (\<lambda>_. refuse 400 (''invalid method: '' @ m)) (method_new m))"

fun head_version :: "hyper_version \<Rightarrow> head_rejection + http_version" where
  "head_version HTTP_10 = Inr Http10"
| "head_version HTTP_11 = Inr Http11"
| "head_version HTTP_2 = Inr Http2"
| "head_version (OtherVersion t) = Inl (refuse 505 (''unsupported HTTP version: '' @ t))"

definition path_and_query_or_root :: "wire_request \<Rightarrow> string" where
  [rust_eval]: "path_and_query_or_root r = (case wr_path_and_query r of Some pq \<Rightarrow> pq | None \<Rightarrow> ''/'')"

definition raw_target :: "wire_request \<Rightarrow> string" where
  [rust_eval]: "raw_target r = (if wr_scheme r \<noteq> None then wr_uri r else path_and_query_or_root r)"

definition exceeds :: "nat \<Rightarrow> nat option \<Rightarrow> bool" where
  [rust_eval]: "exceeds n limit = (case limit of Some l \<Rightarrow> n > l | None \<Rightarrow> False)"

definition check_target_length :: "wire_request \<Rightarrow> nat option \<Rightarrow> head_rejection + unit" where
  [rust_eval]: "check_target_length r max_target_bytes =
     (case max_target_bytes of
        None \<Rightarrow> Inr ()
      | Some limit \<Rightarrow>
          if length (raw_target r) > limit
          then Inl (TargetTooLong ''request target too long'' (length (raw_target r)) limit)
          else case wr_authority r of
            Some a \<Rightarrow> if length a > limit then Inl (TargetTooLong ''CONNECT authority too long'' (length a) limit)
                      else Inr ()
          | None \<Rightarrow> Inr ())"

definition method_refused :: "http_method \<Rightarrow> head_rejection" where
  [rust_eval]: "method_refused m = refuse 405 (''method not allowed: '' @ method_str m)"

definition is_connect_authority :: "wire_request \<Rightarrow> http_method \<Rightarrow> http_version \<Rightarrow> bool" where
  [rust_eval]: "is_connect_authority r m v \<longleftrightarrow>
     v \<noteq> Http2 \<and> wr_authority r \<noteq> None \<and> method_str m = ''CONNECT''"

text \<open>The checks on the form of the target, in their order.\<close>

definition check_target_form ::
  "wire_request \<Rightarrow> http_method \<Rightarrow> http_version \<Rightarrow> target_mode \<Rightarrow> scheme \<Rightarrow> head_rejection + unit" where
  [rust_eval]: "check_target_form r m v mode expected_scheme =
     (let is_h2 = (v = Http2); absolute_form = (wr_scheme r \<noteq> None) in
      if \<not> is_h2 \<and> absolute_form \<and> mode = OriginOnly
      then Inl (refuse 400 ''absolute-form request target not allowed'')
      else if is_h2 \<and> (case wr_scheme r of
             Some s \<Rightarrow> \<not> eq_ignore_ascii_case s (scheme_str expected_scheme) | None \<Rightarrow> False)
      then Inl (refuse 400 ''conflicting request scheme'')
      else if raw_target r = ''*'' then Inl (method_refused m)
      else if \<not> is_h2 \<and> wr_authority r \<noteq> None \<and> \<not> is_connect_authority r m v \<and> \<not> absolute_form
      then Inl (method_refused m)
      else Inr ())"

definition invalid_target :: "request_target_error \<Rightarrow> head_rejection" where
  [rust_eval]: "invalid_target e = refuse 400 (''invalid request target: '' @ target_error_text e)"

definition head_target ::
  "wire_request \<Rightarrow> http_method \<Rightarrow> http_version \<Rightarrow> head_rejection + request_target" where
  [rust_eval]: "head_target r m v =
     (if is_connect_authority r m v then map_err invalid_target (parse_target ''/'')
      else if wr_scheme r \<noteq> None \<and> v \<noteq> Http2 then
        and_then (ok_or (refuse 400 ''invalid absolute request target'') (wr_scheme r)) (\<lambda>scheme.
        and_then (ok_or (refuse 400 ''invalid absolute request target'') (wr_authority r)) (\<lambda>a.
        and_then (map_err (\<lambda>_. refuse 400 ''invalid absolute request target'') (parse_authority a)) (\<lambda>canonical.
        map_err invalid_target (from_absolute_components scheme canonical (path_and_query_or_root r)))))
      else map_err invalid_target (parse_target (raw_target r)))"

fun collect_head_fields ::
  "nat option \<Rightarrow> nat \<Rightarrow> header_block \<Rightarrow> (string \<times> bytes) list \<Rightarrow> head_rejection + header_block" where
  "collect_head_fields max_header_bytes total_bytes b [] = Inr b"
| "collect_head_fields max_header_bytes total_bytes b ((name, v) # fs) =
     (let total_bytes = usize_saturating_add (usize_saturating_add total_bytes (length name)) (length v)
      in if exceeds total_bytes max_header_bytes then Inl (HeaderBytesTooLarge (the max_header_bytes))
         else
           and_then (map_err (\<lambda>_. refuse 400 (''invalid header name: '' @ name)) (header_name_new name)) (\<lambda>n.
           and_then (map_err (\<lambda>_. refuse 400 (''invalid header value for '' @ name)) (header_value_from_bytes v)) (\<lambda>w.
           collect_head_fields max_header_bytes total_bytes (block_push b n w) fs)))"

fun scan_hosts ::
  "(bytes \<Rightarrow> string option) \<Rightarrow> bytes list \<Rightarrow> authority option \<times> bool \<Rightarrow> head_rejection + (authority option \<times> bool)" where
  "scan_hosts to_str [] st = Inr st"
| "scan_hosts to_str (v # vs) (first, conflict) =
     and_then (ok_or (refuse 400 ''invalid Host header'') (to_str v)) (\<lambda>s.
     and_then (map_err (\<lambda>_. refuse 400 ''invalid Host header'') (parse_authority s)) (\<lambda>parsed.
     scan_hosts to_str vs
       (case first of Some f \<Rightarrow> (first, conflict \<or> parsed \<noteq> f) | None \<Rightarrow> (Some parsed, conflict))))"

definition head_authority :: "(bytes \<Rightarrow> string option) \<Rightarrow> wire_request \<Rightarrow> head_rejection + authority option" where
  [rust_eval]: "head_authority to_str r =
     and_then (scan_hosts to_str (wh_get_all (wr_headers r) ''host'') (None, False)) (\<lambda>(host, conflict).
     and_then (case wr_authority r of
                 None \<Rightarrow> Inr None
               | Some a \<Rightarrow> and_then (map_err (\<lambda>_. refuse 400 ''invalid :authority'') (parse_authority a)) (\<lambda>p. Inr (Some p)))
       (\<lambda>uri.
        if conflict then Inl (refuse 400 ''conflicting Host headers'')
        else case uri of
          Some u \<Rightarrow>
            (case host of
               Some h \<Rightarrow> if u \<noteq> h then Inl (refuse 400 ''conflicting authority metadata'') else Inr (Some u)
             | None \<Rightarrow> Inr (Some u))
        | None \<Rightarrow> Inr host))"

definition convert_head ::
  "(bytes \<Rightarrow> string option) \<Rightarrow> wire_request \<Rightarrow> nat option \<Rightarrow> target_mode \<Rightarrow> nat option \<Rightarrow> scheme
   \<Rightarrow> head_rejection + request_head" where
  [rust_eval]: "convert_head to_str r max_target_bytes mode max_header_bytes expected_scheme =
     and_then (head_method (wr_method r)) (\<lambda>m.
     and_then (head_version (wr_version r)) (\<lambda>v.
     and_then (check_target_length r max_target_bytes) (\<lambda>_.
     and_then (check_target_form r m v mode expected_scheme) (\<lambda>_.
     and_then (head_target r m v) (\<lambda>target.
     and_then (collect_head_fields max_header_bytes 0 block_new (wh_iter (wr_headers r))) (\<lambda>headers.
     and_then (head_authority to_str r) (\<lambda>authority.
     Inr (request_head_new_with_authority m target v headers authority))))))))"

definition account_rejection ::
  "custom_sinks \<Rightarrow> ops_context \<Rightarrow> u64 \<Rightarrow> head_rejection \<Rightarrow> ops_world \<Rightarrow> service_error \<times> ops_world" where
  [rust_eval]: "account_rejection cs ctx conn_id rejection w =
     (case rejection of
        TargetTooLong message target_bytes limit \<Rightarrow>
          (let w = ops_count ctx (oc_request_target_rejected_update (\<lambda>n. n + 1)) w;
               (ev, w) = event_now Debug RequestTargetTooLong message w;
               ev = event_field (FU64 ''limit_bytes'' (of_nat limit))
                      (event_field (FU64 ''target_bytes'' (of_nat target_bytes)) (event_connection_id conn_id ev))
           in (service_rejected 414 ''request target too long'', ops_emit cs ctx ev w))
      | HeaderBytesTooLarge limit \<Rightarrow>
          (let w = ops_count ctx (oc_header_bytes_rejected_update (\<lambda>n. n + 1)) w;
               (ev, w) = event_now Debug HeaderBytesRejected ''request headers too large'' w;
               ev = event_field (FU64 ''limit_bytes'' (of_nat limit)) (event_connection_id conn_id ev)
           in (service_rejected 431 ''request headers too large'', ops_emit cs ctx ev w))
      | HeadRefused e \<Rightarrow> (e, w))"

definition convert_request_head ::
  "custom_sinks \<Rightarrow> (bytes \<Rightarrow> string option) \<Rightarrow> wire_request \<Rightarrow> nat option \<Rightarrow> target_mode \<Rightarrow> nat option \<Rightarrow> scheme
   \<Rightarrow> u64 \<Rightarrow> ops_context \<Rightarrow> ops_world \<Rightarrow> (service_error + request_head) \<times> ops_world" where
  [rust_eval]: "convert_request_head cs to_str r max_target_bytes mode max_header_bytes expected_scheme conn_id ctx w =
     (case convert_head to_str r max_target_bytes mode max_header_bytes expected_scheme of
        Inr head \<Rightarrow> (Inr head, w)
      | Inl rejection \<Rightarrow> (let (e, w) = account_rejection cs ctx conn_id rejection w in (Inl e, w)))"

section \<open>Tunnels\<close>

text \<open>The handoff of the connection, \<^verbatim>\<open>hyper::upgrade::OnUpgrade\<close>, is a token of any type.\<close>

definition classify_tunnel :: "request_head \<Rightarrow> bool \<Rightarrow> 'u option \<Rightarrow> (tunnel_request \<times> 'u) option" where
  [rust_eval]: "classify_tunnel head has_body on_upgrade =
     (if has_body then None
      else Option.bind on_upgrade (\<lambda>upgrade.
        if rq_version head \<noteq> Http11 then None
        else if method_str (rq_method head) = ''CONNECT'' then
          map_option (\<lambda>a. (\<lparr>tr_kind = ConnectKind, tr_protocol = None, tr_authority = Some a\<rparr>, upgrade))
            (rq_authority head)
        else
          map_option (\<lambda>p. (\<lparr>tr_kind = Http1Upgrade, tr_protocol = Some p, tr_authority = rq_authority head\<rparr>, upgrade))
            (classify_h1_upgrade (rq_headers head) (rq_version head))))"

section \<open>Lemmas: framing\<close>

lemma scan_content_lengths_first:
  "scan_content_lengths vs (n, Some f, c) = (n + length vs, Some f, c \<or> list_ex (\<lambda>v. v \<noteq> f) vs)"
  by (induction vs arbitrary: n c) auto

lemma scan_content_lengths_eq:
  "scan_content_lengths vs (0, None, False) =
     (length vs, case vs of [] \<Rightarrow> None | v # _ \<Rightarrow> Some v, case vs of [] \<Rightarrow> False | f # r \<Rightarrow> list_ex (\<lambda>v. v \<noteq> f) r)"
  by (cases vs) (simp_all add: scan_content_lengths_first)

lemma framing_cases:
  assumes "header_map_laws h"
  shows "validate_body_framing to_str h =
    (case wh_get_all h ''content-length'' of
       [] \<Rightarrow> Inr ()
     | f # r \<Rightarrow>
         if wh_contains h ''transfer-encoding''
         then Inl (service_rejected 400 ''conflicting Transfer-Encoding and Content-Length'')
         else if r \<noteq> [] then
           Inl (service_rejected 400 (if list_ex (\<lambda>v. v \<noteq> f) r then ''conflicting Content-Length headers''
                                      else ''duplicate Content-Length headers''))
         else if (case to_str f of Some s \<Rightarrow> digits_u64 s \<noteq> None | None \<Rightarrow> False) then Inr ()
         else Inl (service_rejected 400 ''invalid Content-Length''))"
  unfolding validate_body_framing_def scan_content_lengths_eq Let_def
  by (simp split: list.splits option.splits)

lemma digits_u64_Some:
  "digits_u64 s = Some n \<longleftrightarrow> s \<noteq> [] \<and> list_all is_ascii_digit s \<and> parse_u64 s = Some n"
  by (auto simp: digits_u64_def)

section \<open>Lemmas: frames\<close>

fun is_trailers_frame :: "wire_frame \<Rightarrow> bool" where
  "is_trailers_frame (TrailersFrame _) = True"
| "is_trailers_frame _ = False"

fun ends_body :: "wire_frame \<Rightarrow> bool" where
  "ends_body (DataFrame _) = True"
| "ends_body UnknownFrame = True"
| "ends_body _ = False"

lemma wrap_frames_seen:
  "slot \<noteq> None \<Longrightarrow>
   snd (wrap_frames fs (True, slot)) =
     (True, if list_ex ends_body fs then Some (Inl ''data after trailers'') else slot)"
proof (induction fs arbitrary: slot)
  case (Cons f fs)
  then show ?case by (cases f) (auto simp: Let_def case_prod_beta)
qed simp

lemma wrap_frames_append:
  "wrap_frames (fs @ gs) st =
     (fst (wrap_frames fs st) @ fst (wrap_frames gs (snd (wrap_frames fs st))),
      snd (wrap_frames gs (snd (wrap_frames fs st))))"
  by (induction fs arbitrary: st) (auto simp: Let_def case_prod_beta split: option.splits)

lemma wrap_frames_plain:
  "list_all (\<lambda>f. \<not> is_trailers_frame f) fs \<Longrightarrow> snd (wrap_frames fs (False, None)) = (False, None)"
proof (induction fs)
  case (Cons f fs)
  then show ?case by (cases f) (auto simp: Let_def case_prod_beta)
qed simp

lemma first_trailers_frame:
  "list_all (\<lambda>f. \<not> is_trailers_frame f) fs \<or>
   (\<exists>pre ts post. fs = pre @ TrailersFrame ts # post \<and> list_all (\<lambda>f. \<not> is_trailers_frame f) pre)"
proof (induction fs)
  case (Cons f fs)
  show ?case
  proof (cases "is_trailers_frame f")
    case True
    then obtain ts where "f = TrailersFrame ts" by (cases f) auto
    then have "f # fs = [] @ TrailersFrame ts # fs" by simp
    then show ?thesis by (metis list.pred_inject(1))
  next
    case False
    then show ?thesis using Cons
      by (metis append_Cons list.pred_inject(2))
  qed
qed simp

lemma wrap_slot_after:
  assumes "list_all (\<lambda>f. \<not> is_trailers_frame f) pre"
  shows "snd (wrap_incoming_body_with_trailers (pre @ TrailersFrame ts # post)) =
    Some (if list_ex ends_body post then Inl ''data after trailers'' else hyper_to_header_block ts)"
proof -
  have "snd (wrap_frames (pre @ TrailersFrame ts # post) (False, None)) =
      snd (wrap_frames post (True, Some (hyper_to_header_block ts)))"
    using wrap_frames_plain [OF assms]
    by (simp add: wrap_frames_append Let_def case_prod_beta split: sum.splits)
  then show ?thesis
    by (simp add: wrap_incoming_body_with_trailers_def case_prod_beta wrap_frames_seen)
qed

text \<open>The bytes the stream yields are those of the data frames before the first trailer frame.\<close>

fun frame_data :: "wire_frame list \<Rightarrow> bytes list" where
  "frame_data [] = []"
| "frame_data (TrailersFrame _ # fs) = []"
| "frame_data (DataFrame d # fs) = d # frame_data fs"
| "frame_data (UnknownFrame # fs) = frame_data fs"
| "frame_data (FrameFailed _ # fs) = frame_data fs"

fun chunk_data :: "stream_event list \<Rightarrow> bytes list" where
  "chunk_data [] = []"
| "chunk_data (Chunk d # es) = d # chunk_data es"
| "chunk_data (_ # es) = chunk_data es"

lemma chunk_data_seen: "chunk_data (fst (wrap_frames fs (True, slot))) = []"
proof (induction fs arbitrary: slot)
  case (Cons f fs)
  then show ?case by (cases f) (auto simp: Let_def case_prod_beta)
qed simp

lemma chunk_data_wrap: "chunk_data (fst (wrap_frames fs (False, slot))) = frame_data fs"
proof (induction fs arbitrary: slot)
  case (Cons f fs)
  then show ?case by (cases f) (auto simp: Let_def case_prod_beta chunk_data_seen)
qed simp

lemma wrap_slot_iff:
  "snd (wrap_incoming_body_with_trailers fs) = Some (Inr block) \<longleftrightarrow>
   (\<exists>pre ts post. fs = pre @ TrailersFrame ts # post \<and> list_all (\<lambda>f. \<not> is_trailers_frame f) pre
      \<and> \<not> list_ex ends_body post \<and> hyper_to_header_block ts = Inr block)"
proof
  assume slot: "snd (wrap_incoming_body_with_trailers fs) = Some (Inr block)"
  from first_trailers_frame [of fs]
  show "\<exists>pre ts post. fs = pre @ TrailersFrame ts # post \<and> list_all (\<lambda>f. \<not> is_trailers_frame f) pre
      \<and> \<not> list_ex ends_body post \<and> hyper_to_header_block ts = Inr block"
  proof
    assume "list_all (\<lambda>f. \<not> is_trailers_frame f) fs"
    then show ?thesis using slot wrap_frames_plain [of fs]
      by (simp add: wrap_incoming_body_with_trailers_def case_prod_beta)
  next
    assume "\<exists>pre ts post. fs = pre @ TrailersFrame ts # post \<and> list_all (\<lambda>f. \<not> is_trailers_frame f) pre"
    then obtain pre ts post where f: "fs = pre @ TrailersFrame ts # post" "list_all (\<lambda>f. \<not> is_trailers_frame f) pre"
      by blast
    then show ?thesis using slot wrap_slot_after [OF f(2), of ts post]
      by (intro exI [of _ pre] exI [of _ ts] exI [of _ post]) (simp split: if_splits)
  qed
qed (auto simp: wrap_slot_after)

lemma wrap_slot_None:
  "snd (wrap_incoming_body_with_trailers fs) = None \<longleftrightarrow> list_all (\<lambda>f. \<not> is_trailers_frame f) fs"
proof
  show "snd (wrap_incoming_body_with_trailers fs) = None" if "list_all (\<lambda>f. \<not> is_trailers_frame f) fs"
    using wrap_frames_plain [OF that] by (simp add: wrap_incoming_body_with_trailers_def case_prod_beta)
  show "list_all (\<lambda>f. \<not> is_trailers_frame f) fs" if "snd (wrap_incoming_body_with_trailers fs) = None"
    using first_trailers_frame [of fs] wrap_slot_after that by auto
qed

section \<open>Lemmas: heads\<close>

definition field_bytes :: "(string \<times> bytes) list \<Rightarrow> nat" where
  [rust_eval]: "field_bytes fs = sum_list (map (\<lambda>(n, v). length n + length v) fs)"

lemma header_name_str: "header_name_new name = Inr n \<Longrightarrow> name_str n = name"
  by (auto simp: header_name_new_def split: if_splits)

lemma header_value_trimmed: "header_value_from_bytes v = Inr w \<Longrightarrow> w = HeaderValue (trim_ows v)"
  by (auto simp: header_value_from_bytes_def result_inv)

lemma usize_sum_bound:
  "usize_saturating_add (usize_saturating_add a b) c \<le> l \<Longrightarrow> l < usize_max \<Longrightarrow>
   usize_saturating_add (usize_saturating_add a b) c = a + b + c"
  by (auto simp: usize_saturating_add_def)

lemma collect_head_fields_Inr:
  "collect_head_fields limit n b fs = Inr b' \<Longrightarrow> block_wf b \<Longrightarrow>
   block_wf b' \<and> block_fields b' = block_fields b @ map (\<lambda>(k, v). (k, HeaderValue (trim_ows v))) fs
   \<and> (\<forall>l. limit = Some l \<longrightarrow> l < usize_max \<longrightarrow> n \<le> l \<longrightarrow> n + field_bytes fs \<le> l)"
proof (induction limit n b fs arbitrary: b' rule: collect_head_fields.induct)
  case (2 limit n b name v fs)
  let ?n = "usize_saturating_add (usize_saturating_add n (length name)) (length v)"
  from "2.prems"(1) obtain k w where ok: "\<not> exceeds ?n limit" and k: "header_name_new name = Inr k"
    and w: "header_value_from_bytes v = Inr w"
    and r: "collect_head_fields limit ?n (block_push b k w) fs = Inr b'"
    by (auto simp: result_inv Let_def split: if_splits)
  have wf: "block_wf (block_push b k w)"
    using "2.prems"(2) pushed_field_wf [OF k w] by (simp add: block_wf_def block_push_def)
  have IH: "block_wf b' \<and> block_fields b' = block_fields (block_push b k w) @ map (\<lambda>(k, v). (k, HeaderValue (trim_ows v))) fs
      \<and> (\<forall>l. limit = Some l \<longrightarrow> l < usize_max \<longrightarrow> ?n \<le> l \<longrightarrow> ?n + field_bytes fs \<le> l)"
    using "2.IH" [OF refl ok r wf] .
  show ?case
  proof (intro conjI allI impI)
    show "block_wf b'" using IH by simp
    show "block_fields b' = block_fields b @ map (\<lambda>(k, v). (k, HeaderValue (trim_ows v))) ((name, v) # fs)"
      using IH header_name_str [OF k] header_value_trimmed [OF w] by (simp add: hb.fields_push)
    fix l assume l: "limit = Some l" "l < usize_max" "n \<le> l"
    then have "?n \<le> l" using ok by (simp add: exceeds_def)
    then show "n + field_bytes ((name, v) # fs) \<le> l"
      using IH l usize_sum_bound [OF \<open>?n \<le> l\<close> l(2)] by (simp add: field_bytes_def)
  qed
qed (simp add: field_bytes_def)

lemma scan_hosts_Inr:
  "scan_hosts to_str vs (first, c) = Inr (first', c') \<Longrightarrow>
   \<exists>as. list_all2 (\<lambda>v a. \<exists>s. to_str v = Some s \<and> parse_authority s = Inr a) vs as
     \<and> first' = (case first of Some f \<Rightarrow> Some f | None \<Rightarrow> (case as of [] \<Rightarrow> None | a # _ \<Rightarrow> Some a))
     \<and> (c' \<longleftrightarrow> c \<or> (\<exists>a\<in>set as. first' \<noteq> Some a))"
proof (induction vs arbitrary: first c)
  case (Cons v vs)
  from Cons.prems obtain s p where s: "to_str v = Some s" "parse_authority s = Inr p"
    and r: "scan_hosts to_str vs (case first of Some f \<Rightarrow> (first, c \<or> p \<noteq> f) | None \<Rightarrow> (Some p, c)) = Inr (first', c')"
    by (auto simp: result_inv split: option.splits)
  show ?case
  proof (cases first)
    case None
    from Cons.IH [of "Some p" c] r None obtain as where "list_all2 (\<lambda>v a. \<exists>s. to_str v = Some s \<and> parse_authority s = Inr a) vs as"
      "first' = Some p" "c' \<longleftrightarrow> c \<or> (\<exists>a\<in>set as. first' \<noteq> Some a)" by auto
    then show ?thesis using s None by (intro exI [of _ "p # as"]) auto
  next
    case (Some f)
    from Cons.IH [of "Some f" "c \<or> p \<noteq> f"] r Some obtain as where "list_all2 (\<lambda>v a. \<exists>s. to_str v = Some s \<and> parse_authority s = Inr a) vs as"
      "first' = Some f" "c' \<longleftrightarrow> (c \<or> p \<noteq> f) \<or> (\<exists>a\<in>set as. first' \<noteq> Some a)" by auto
    then show ?thesis using s Some by (intro exI [of _ "p # as"]) auto
  qed
qed (auto split: option.splits)

text \<open>All the authorities of an accepted request are one.\<close>

lemma head_authority_Inr:
  assumes "head_authority to_str r = Inr a"
  shows "(\<forall>v\<in>set (wh_get_all (wr_headers r) ''host''). \<exists>s x. to_str v = Some s \<and> parse_authority s = Inr x \<and> a = Some x)
    \<and> (\<forall>u. wr_authority r = Some u \<longrightarrow> (\<exists>x. parse_authority u = Inr x \<and> a = Some x))
    \<and> (a = None \<longleftrightarrow> wh_get_all (wr_headers r) ''host'' = [] \<and> wr_authority r = None)"
proof -
  let ?vs = "wh_get_all (wr_headers r) ''host''"
  from assms obtain host c where s: "scan_hosts to_str ?vs (None, False) = Inr (host, c)"
    by (auto simp: head_authority_def result_inv)
  then have h: "scan_hosts to_str ?vs (None, False) = Inr (host, False)"
    using assms by (auto simp: head_authority_def result_inv split: if_splits option.splits)
  have a: "(case wr_authority r of None \<Rightarrow> a = host
             | Some u \<Rightarrow> \<exists>x. parse_authority u = Inr x \<and> a = Some x \<and> (host = None \<or> host = Some x))"
    using assms unfolding head_authority_def h
    by (cases "wr_authority r"; cases host) (auto simp: result_inv split: if_splits)
  from scan_hosts_Inr [OF h] obtain as where as: "list_all2 (\<lambda>v a. \<exists>s. to_str v = Some s \<and> parse_authority s = Inr a) ?vs as"
    and host: "host = (case as of [] \<Rightarrow> None | a # _ \<Rightarrow> Some a)" and same: "\<forall>a\<in>set as. host = Some a" by auto
  have "\<exists>s x. to_str v = Some s \<and> parse_authority s = Inr x \<and> host = Some x" if "v \<in> set ?vs" for v
  proof -
    from that obtain i where i: "i < length ?vs" "v = ?vs ! i" by (metis in_set_conv_nth)
    then have "i < length as" using list_all2_lengthD [OF as] by simp
    then have "host = Some (as ! i)" using same by simp
    then show ?thesis using list_all2_nthD [OF as i(1)] i(2) by auto
  qed
  moreover have "host = None \<longleftrightarrow> ?vs = []" using host list_all2_lengthD [OF as] by (cases as) auto
  ultimately show ?thesis using a by (auto split: option.splits)
qed

lemma head_target_Inr:
  assumes "check_target_form r m v mode expected = Inr ()" and "head_target r m v = Inr t"
  shows "target_wf t \<and> (rt_form t = AbsoluteForm \<longrightarrow> mode = OriginOrAbsolute \<and> v \<noteq> Http2 \<and> wr_scheme r \<noteq> None)
    \<and> (rt_form t = OriginForm \<longrightarrow> rt_raw t = (if is_connect_authority r m v then ''/'' else raw_target r)
        \<and> \<not> starts_with (rt_raw t) ''//'')"
proof (cases "is_connect_authority r m v \<or> \<not> (wr_scheme r \<noteq> None \<and> v \<noteq> Http2)")
  case True
  then have "parse_target (if is_connect_authority r m v then ''/'' else raw_target r) = Inr t"
    using assms(2) by (auto simp: head_target_def result_inv split: if_splits)
  from parse_target_wf [OF this] parse_target_InrD [OF this] show ?thesis
    by (simp add: parse_origin_form_def Let_def)
next
  case False
  then obtain s a where "from_absolute_components s a (path_and_query_or_root r) = Inr t"
    using assms(2) by (auto simp: head_target_def result_inv split: if_splits)
  moreover from this have "rt_form t = AbsoluteForm"
    by (auto simp: from_absolute_components_def Let_def split: if_splits)
  moreover have "mode = OriginOrAbsolute"
    using assms(1) False by (cases mode) (auto simp: check_target_form_def Let_def)
  ultimately show ?thesis using absolute_components_wf False by simp
qed

lemma head_method_Inr: "head_method s = Inr m \<Longrightarrow> method_str m = s \<and> method_new s = Inr m"
  by (auto simp: head_method_def result_inv standard_methods_def method_new_def is_http_token_def is_token_byte_def
      ascii_class split: if_splits)

lemma check_target_length_Inr:
  "check_target_length r limit = Inr u \<Longrightarrow>
   \<forall>l. limit = Some l \<longrightarrow> length (raw_target r) \<le> l \<and> (\<forall>a. wr_authority r = Some a \<longrightarrow> length a \<le> l)"
  by (auto simp: check_target_length_def split: if_splits option.splits)

section \<open>Properties\<close>

text \<open>
  C11: A request head that is passed on is safe to dispatch.  Its method is the token on the wire; the
  target and the URI authority are within the target ceiling and the header bytes within theirs; the
  target is well formed, and in absolute form only where that is switched on; the header block holds
  exactly the fields of the wire in their order, validated; and every \<^verbatim>\<open>Host\<close> field and the
  URI authority name one and the same authority, which is the one the service sees.
\<close>

theorem accepted_head_sound:
  assumes "convert_head to_str r max_target mode max_header expected_scheme = Inr head"
  shows "method_str (rq_method head) = wr_method r \<and> method_new (wr_method r) = Inr (rq_method head)
    \<and> (\<forall>l. max_target = Some l \<longrightarrow>
         length (raw_target r) \<le> l \<and> (\<forall>a. wr_authority r = Some a \<longrightarrow> length a \<le> l))
    \<and> (\<forall>l. max_header = Some l \<longrightarrow> l < usize_max \<longrightarrow> field_bytes (wh_iter (wr_headers r)) \<le> l)
    \<and> target_wf (rq_target head)
    \<and> (rt_form (rq_target head) = AbsoluteForm \<longrightarrow> mode = OriginOrAbsolute \<and> rq_version head \<noteq> Http2)
    \<and> block_wf (rq_headers head)
    \<and> block_fields (rq_headers head) = map (\<lambda>(n, v). (n, HeaderValue (trim_ows v))) (wh_iter (wr_headers r))
    \<and> (\<forall>v\<in>set (wh_get_all (wr_headers r) ''host'').
         \<exists>s x. to_str v = Some s \<and> parse_authority s = Inr x \<and> rq_authority head = Some x)
    \<and> (\<forall>u. wr_authority r = Some u \<longrightarrow> (\<exists>x. parse_authority u = Inr x \<and> rq_authority head = Some x))
    \<and> (rq_authority head = None \<longleftrightarrow> wh_get_all (wr_headers r) ''host'' = [] \<and> wr_authority r = None)"
proof -
  from assms obtain m v t hs a where m: "head_method (wr_method r) = Inr m"
    and l: "check_target_length r max_target = Inr ()"
    and f: "check_target_form r m v mode expected_scheme = Inr ()" and t: "head_target r m v = Inr t"
    and hs: "collect_head_fields max_header 0 block_new (wh_iter (wr_headers r)) = Inr hs"
    and a: "head_authority to_str r = Inr a"
    and head: "head = request_head_new_with_authority m t v hs a"
    by (auto simp: convert_head_def result_inv)
  have wf: "block_wf block_new" by (simp add: block_wf_def block_new_def)
  show ?thesis
    using head_method_Inr [OF m] check_target_length_Inr [OF l] head_target_Inr [OF f t]
      collect_head_fields_Inr [OF hs wf] head_authority_Inr [OF a]
    unfolding head request_head_new_with_authority_def
    by (simp add: hb.fields_empty)
qed

text \<open>Concrete readings for the instances: a header map that is a list, and the visible ASCII texts.\<close>

definition list_headers :: "(string \<times> bytes) list \<Rightarrow> wire_headers" where
  [rust_eval]: "list_headers fs =
     (let all = (\<lambda>name. map snd (filter (\<lambda>f. eq_ignore_ascii_case (fst f) name) fs))
      in \<lparr>wh_iter = fs, wh_get_all = all, wh_get = (\<lambda>name. case all name of [] \<Rightarrow> None | v # _ \<Rightarrow> Some v),
          wh_contains = (\<lambda>name. all name \<noteq> [])\<rparr>)"

definition ascii_to_str :: "bytes \<Rightarrow> string option" where
  [rust_eval]: "ascii_to_str v = (if list_all (\<lambda>c. 32 \<le> byte c \<and> byte c < 127 \<or> byte c = 9) v then Some v else None)"

lemma list_headers_laws: "header_map_laws (list_headers fs)"
  by (simp add: header_map_laws_def list_headers_def Let_def)

lemma ascii_to_str_identity: "to_str_identity ascii_to_str"
  by (simp add: to_str_identity_def ascii_to_str_def)

definition sample_wire_request :: wire_request where
  [rust_eval]: "sample_wire_request =
     \<lparr>wr_method = ''GET'', wr_version = HTTP_11, wr_scheme = None, wr_authority = None,
      wr_path_and_query = Some ''/a?b'', wr_uri = ''/a?b'',
      wr_headers = list_headers [(''host'', ''h:80''), (''host'', '' h:80'')]\<rparr>"

theorem accepted_head_sound_witness:
  "\<exists>head. convert_head ascii_to_str sample_wire_request (Some 8) OriginOnly (Some 32) Http = Inr head
     \<and> target_wf (rq_target head) \<and> rq_authority head = Some (Authority ''h:80'')
     \<and> field_bytes (wh_iter (wr_headers sample_wire_request)) \<le> 32"
proof -
  have a: "head_authority ascii_to_str sample_wire_request = Inr (Some (Authority ''h:80''))"
    by (simp add: rust_eval Let_def)
  have f: "collect_head_fields (Some 32) 0 block_new (wh_iter (wr_headers sample_wire_request)) =
      Inr [\<lparr>hf_name = HeaderName ''host'', hf_value = HeaderValue ''h:80''\<rparr>,
           \<lparr>hf_name = HeaderName ''host'', hf_value = HeaderValue ''h:80''\<rparr>]"
    by (simp add: rust_eval Let_def)
  have t: "head_target sample_wire_request (Method ''GET'') Http11 = Inr (parse_origin_form ''/a?b'')"
    by (simp add: rust_eval Let_def)
  have c: "check_target_form sample_wire_request (Method ''GET'') Http11 OriginOnly Http = Inr ()"
      "check_target_length sample_wire_request (Some 8) = Inr ()"
      "head_method (wr_method sample_wire_request) = Inr (Method ''GET'')"
      "head_version (wr_version sample_wire_request) = Inr Http11"
    by (simp_all add: rust_eval Let_def)
  obtain head where head: "convert_head ascii_to_str sample_wire_request (Some 8) OriginOnly (Some 32) Http = Inr head"
      "rq_authority head = Some (Authority ''h:80'')"
    using a f t c by (simp add: convert_head_def request_head_new_with_authority_def)
  from accepted_head_sound [OF head(1)] head show ?thesis by (simp add: usize_max_def)
qed

text \<open>
  C12: A request whose framing is accepted has one meaning.  Either it has no length field, and then it
  has a body exactly when it is transfer-coded; or it has exactly one, is not transfer-coded, and the
  length field is the decimal number, within 64 bits, that the pipeline takes as the declared length.
\<close>

theorem accepted_framing_unambiguous:
  assumes "header_map_laws h" and "to_str_identity to_str" and "validate_body_framing to_str h = Inr ()"
  shows "case wh_get_all h ''content-length'' of
       [] \<Rightarrow> declared_length to_str h = None \<and> request_has_body to_str h = wh_contains h ''transfer-encoding''
     | v # vs \<Rightarrow>
         vs = [] \<and> \<not> wh_contains h ''transfer-encoding''
         \<and> v \<noteq> [] \<and> list_all is_ascii_digit v \<and> dec_value v < 2 ^ 64
         \<and> declared_length to_str h = Some (of_nat (dec_value v))
         \<and> request_has_body to_str h = (0 < dec_value v)"
proof (cases "wh_get_all h ''content-length''")
  case Nil
  have "wh_get h ''content-length'' = None"
    using assms(1) Nil by (simp add: header_map_laws_def to_ascii_lowercase_def to_ascii_lowercase_char_def ascii_class)
  then show ?thesis using Nil by (simp add: declared_length_def request_has_body_def)
next
  case (Cons v vs)
  have g: "wh_get h ''content-length'' = Some v"
    using assms(1) Cons by (simp add: header_map_laws_def to_ascii_lowercase_def to_ascii_lowercase_char_def ascii_class)
  from assms(3) Cons obtain s n where v: "vs = []" "\<not> wh_contains h ''transfer-encoding''"
      "to_str v = Some s" "digits_u64 s = Some n"
    unfolding framing_cases [OF assms(1)] by (auto split: if_splits option.splits)
  have s: "s = v" using assms(2) v(3) by (simp add: to_str_identity_def)
  have d: "v \<noteq> []" "list_all is_ascii_digit v" "parse_u64 v = Some n"
    using v(4) s by (auto simp: digits_u64_Some)
  then have plus: "parse_unsigned 64 v = (if dec_value v < 2 ^ 64 then Some (dec_value v) else None)"
    by (cases v) (auto simp: parse_unsigned_def is_ascii_digit_def)
  then have n: "dec_value v < 2 ^ 64" "n = of_nat (dec_value v)"
    using d(3) by (auto simp: parse_u64_def split: if_splits)
  have "0 < n \<longleftrightarrow> 0 < dec_value v"
    using n by (simp add: word_less_nat_alt unat_of_nat)
  then show ?thesis using Cons v s g d n
    by (simp add: declared_length_def request_has_body_def)
qed

theorem accepted_framing_unambiguous_witness:
  "validate_body_framing ascii_to_str (list_headers [(''content-length'', ''42'')]) = Inr ()
   \<and> declared_length ascii_to_str (list_headers [(''content-length'', ''42'')]) = Some 42"
proof -
  have v: "validate_body_framing ascii_to_str (list_headers [(''content-length'', ''42'')]) = Inr ()"
    by (simp add: rust_eval Let_def)
  from accepted_framing_unambiguous [OF list_headers_laws ascii_to_str_identity v] v show ?thesis
    by (simp add: list_headers_def Let_def eq_ignore_ascii_case_def dec_value_def)
qed

text \<open>
  Trailers reach a service only from a complete trailer block at the end of the body: the slot holds
  a block exactly when the first trailer frame converts to it and no further data frame follows, it is
  empty exactly when no trailer frame came, and the bytes the stream yields are those of the data frames
  before the first trailer frame, so that nothing after the trailers is read as content.
\<close>

lemma wrapped_trailers_exact:
  "(snd (wrap_incoming_body_with_trailers fs) = Some (Inr block) \<longleftrightarrow>
     (\<exists>pre ts post. fs = pre @ TrailersFrame ts # post \<and> list_all (\<lambda>f. \<not> is_trailers_frame f) pre
        \<and> \<not> list_ex ends_body post \<and> hyper_to_header_block ts = Inr block))
   \<and> (snd (wrap_incoming_body_with_trailers fs) = None \<longleftrightarrow> list_all (\<lambda>f. \<not> is_trailers_frame f) fs)
   \<and> chunk_data (fst (wrap_incoming_body_with_trailers fs)) = frame_data fs"
  using wrap_slot_iff [of fs block] wrap_slot_None [of fs] chunk_data_wrap [of fs None]
  by (simp add: wrap_incoming_body_with_trailers_def case_prod_beta)

text \<open>A second trailer block is dropped without a trace when the first one was valid.\<close>

lemma repeated_trailer_block_ignored:
  "hyper_to_header_block a = Inr block \<Longrightarrow>
   snd (wrap_incoming_body_with_trailers [TrailersFrame a, TrailersFrame b]) = Some (Inr block)"
  by (simp add: wrap_incoming_body_with_trailers_def)

text \<open>The selected body policy respects both limits and keeps the kind the service asked for.\<close>

lemma body_policy_capped:
  "case select_body_policy_with_ceiling p (Some ceiling) of
     RejectBody \<Rightarrow> (case policy_max_bytes p of None \<Rightarrow> True | Some n \<Rightarrow> min n ceiling = 0)
   | BufferBody n \<Rightarrow> n \<noteq> 0 \<and> n \<le> ceiling \<and> (\<exists>m. p = BufferBody m \<and> n \<le> m)
   | StreamBody n \<Rightarrow> n \<noteq> 0 \<and> n \<le> ceiling \<and> (\<exists>m. p = StreamBody m \<and> n \<le> m)"
  by (cases p) (auto simp: select_body_policy_with_ceiling_def Let_def)

text \<open>
  With the library's rendering of an absolute URI (\<open>scheme://\<close>), no HTTP/2 request with a scheme is
  accepted here: its target is the whole URI, which the origin-form parser refuses.
\<close>

lemma http2_with_scheme_refused:
  assumes "wr_version r = HTTP_2" and "wr_scheme r = Some s" and "wr_uri r = s @ ''://'' @ rest"
    and "\<not> starts_with s ''/''" and "s \<noteq> []"
  shows "\<exists>e. convert_head to_str r max_target mode max_header expected = Inl e"
proof (rule ccontr)
  assume "\<not> ?thesis"
  then obtain head where "convert_head to_str r max_target mode max_header expected = Inr head"
    by (cases "convert_head to_str r max_target mode max_header expected") auto
  then obtain m t where "head_target r m Http2 = Inr t" using assms(1)
    by (auto simp: convert_head_def result_inv)
  then have "parse_target (wr_uri r) = Inr t"
    using assms(2) by (auto simp: head_target_def raw_target_def is_connect_authority_def result_inv)
  from parse_target_InrD [OF this] assms(3-5) show False
    by (cases s) (auto simp: starts_with_def)
qed

end
