(* ===== verification/Intake_Variants.thy ===== *)
theory Intake_Variants
  imports Request_Intake
begin

text \<open>
  The other two conversions of a request head: the compatibility runtime's
  (\<^verbatim>\<open>eggserve-core/src/server/connection/request.rs\<close>, HTTP/1 and HTTP/2) and that of HTTP/3
  (\<^verbatim>\<open>eggserve-h3/src/request.rs\<close>).

  The compatibility conversion shares the methods, versions, header loop and authority checks with the
  direct one line for line; its target checks differ and are modelled here, and the two conversions are
  compared.  The header count of the HTTP/3 conversion is the number of fields of the map
  (\<^verbatim>\<open>HeaderMap::len\<close>).
\<close>

section \<open>Compatibility runtime\<close>

definition compat_check_target_length :: "wire_request \<Rightarrow> nat \<Rightarrow> head_rejection + unit" where
  [rust_eval]: "compat_check_target_length r max_target_bytes =
     (let raw = path_and_query_or_root r in
      if length raw > max_target_bytes
      then Inl (TargetTooLong ''request target too long'' (length raw) max_target_bytes)
      else case wr_authority r of
        Some a \<Rightarrow> if length a > max_target_bytes
                  then Inl (TargetTooLong ''CONNECT authority too long'' (length a) max_target_bytes)
                  else Inr ()
      | None \<Rightarrow> Inr ())"

definition compat_check_target_form ::
  "wire_request \<Rightarrow> http_method \<Rightarrow> http_version \<Rightarrow> scheme \<Rightarrow> head_rejection + unit" where
  [rust_eval]: "compat_check_target_form r m v expected_scheme =
     (let is_h2 = (v = Http2) in
      if \<not> is_h2 \<and> wr_scheme r \<noteq> None
      then Inl (refuse 400 ''absolute-form request target not allowed'')
      else if is_h2 \<and> (case wr_scheme r of
             Some s \<Rightarrow> \<not> eq_ignore_ascii_case s (scheme_str expected_scheme) | None \<Rightarrow> False)
      then Inl (refuse 400 ''conflicting request scheme'')
      else if path_and_query_or_root r = ''*'' then Inl (method_refused m)
      else if \<not> is_h2 \<and> wr_authority r \<noteq> None \<and> \<not> is_connect_authority r m v
      then Inl (method_refused m)
      else Inr ())"

definition compat_head_target ::
  "wire_request \<Rightarrow> http_method \<Rightarrow> http_version \<Rightarrow> head_rejection + request_target" where
  [rust_eval]: "compat_head_target r m v =
     map_err invalid_target (parse_target (if is_connect_authority r m v then ''/'' else path_and_query_or_root r))"

definition compat_convert_head ::
  "(bytes \<Rightarrow> string option) \<Rightarrow> wire_request \<Rightarrow> nat \<Rightarrow> nat \<Rightarrow> scheme \<Rightarrow> head_rejection + request_head" where
  [rust_eval]: "compat_convert_head to_str r max_target_bytes max_header_bytes expected_scheme =
     and_then (head_method (wr_method r)) (\<lambda>m.
     and_then (head_version (wr_version r)) (\<lambda>v.
     and_then (compat_check_target_length r max_target_bytes) (\<lambda>_.
     and_then (compat_check_target_form r m v expected_scheme) (\<lambda>_.
     and_then (compat_head_target r m v) (\<lambda>target.
     and_then (collect_head_fields (Some max_header_bytes) 0 block_new (wh_iter (wr_headers r))) (\<lambda>headers.
     and_then (head_authority to_str r) (\<lambda>authority.
     Inr (request_head_new_with_authority m target v headers authority))))))))"

definition compat_convert_request_head ::
  "custom_sinks \<Rightarrow> (bytes \<Rightarrow> string option) \<Rightarrow> wire_request \<Rightarrow> nat \<Rightarrow> nat \<Rightarrow> scheme \<Rightarrow> u64 \<Rightarrow> ops_context
   \<Rightarrow> ops_world \<Rightarrow> (service_error + request_head) \<times> ops_world" where
  [rust_eval]: "compat_convert_request_head cs to_str r max_target_bytes max_header_bytes expected_scheme conn_id ctx w =
     (case compat_convert_head to_str r max_target_bytes max_header_bytes expected_scheme of
        Inr head \<Rightarrow> (Inr head, w)
      | Inl rejection \<Rightarrow> (let (e, w) = account_rejection cs ctx conn_id rejection w in (Inl e, w)))"

section \<open>HTTP/3\<close>

definition h3_trailers_to_block :: "(string \<times> bytes) list \<Rightarrow> string + header_block" where
  [rust_eval]: "h3_trailers_to_block fs = push_trailer_fields block_new fs"

definition declared_content_length :: "(bytes \<Rightarrow> string option) \<Rightarrow> wire_headers \<Rightarrow> service_error + u64 option" where
  [rust_eval]: "declared_content_length to_str headers =
     (let values = wh_get_all headers ''content-length'' in
      if length values > 1 then Inl (service_rejected 400 ''duplicate Content-Length headers'')
      else case values of
        [] \<Rightarrow> Inr None
      | v # _ \<Rightarrow>
          and_then (ok_or (service_rejected 400 ''invalid Content-Length header'')
                      (Option.bind (to_str v) parse_u64)) (\<lambda>n. Inr (Some n)))"

definition h3_connection_headers :: "string list" where
  [rust_eval]: "h3_connection_headers =
     [''connection'', ''keep-alive'', ''proxy-connection'', ''transfer-encoding'', ''upgrade'']"

fun h3_collect_fields ::
  "nat \<Rightarrow> nat \<Rightarrow> header_block \<Rightarrow> (string \<times> bytes) list \<Rightarrow> service_error + header_block" where
  "h3_collect_fields max_header_bytes total_bytes b [] = Inr b"
| "h3_collect_fields max_header_bytes total_bytes b ((name, v) # fs) =
     (if List.member h3_connection_headers (to_ascii_lowercase name)
      then Inl (service_rejected 400 ''forbidden HTTP/3 connection header'')
      else if eq_ignore_ascii_case name ''te'' \<and> \<not> eq_ignore_ascii_case v ''trailers''
      then Inl (service_rejected 400 ''invalid HTTP/3 TE header'')
      else
        let total_bytes = usize_saturating_add (usize_saturating_add total_bytes (length name)) (length v)
        in if total_bytes > max_header_bytes then Inl (service_rejected 431 ''request headers too large'')
           else
             and_then (map_err (\<lambda>_. service_rejected 400 ''invalid header name'') (header_name_new name)) (\<lambda>n.
             and_then (map_err (\<lambda>_. service_rejected 400 ''invalid header value'') (header_value_from_bytes v)) (\<lambda>w.
             h3_collect_fields max_header_bytes total_bytes (block_push b n w) fs)))"

definition h3_authority :: "wire_request \<Rightarrow> service_error + authority option" where
  [rust_eval]: "h3_authority r =
     (case wr_authority r of
        None \<Rightarrow> Inr None
      | Some a \<Rightarrow> and_then (map_err (\<lambda>_. service_rejected 400 ''invalid authority'') (parse_authority a)) (\<lambda>p. Inr (Some p)))"

definition h3_convert_request_head ::
  "ops_context \<Rightarrow> wire_request \<Rightarrow> nat \<Rightarrow> nat \<Rightarrow> nat \<Rightarrow> ops_world \<Rightarrow> (service_error + request_head) \<times> ops_world" where
  [rust_eval]: "h3_convert_request_head ctx r max_target_bytes max_headers max_header_bytes w =
     (case map_err (\<lambda>_. service_rejected 400 ''invalid method'') (method_new (wr_method r)) of
        Inl e \<Rightarrow> (Inl e, w)
      | Inr m \<Rightarrow>
          if \<not> (case wr_scheme r of Some s \<Rightarrow> eq_ignore_ascii_case s ''https'' | None \<Rightarrow> False)
          then (Inl (service_rejected 400 ''HTTP/3 requires https scheme''), w)
          else if length (path_and_query_or_root r) > max_target_bytes
          then (Inl (service_rejected 414 ''request target too long''),
                ops_count ctx (oc_request_target_rejected_update (\<lambda>n. n + 1)) w)
          else
            (and_then (map_err (\<lambda>_. service_rejected 400 ''invalid request target'')
                         (parse_target (path_and_query_or_root r))) (\<lambda>target.
             and_then (ensure (length (wh_iter (wr_headers r)) \<le> max_headers)
                         (service_rejected 431 ''too many request headers'')) (\<lambda>_.
             and_then (h3_collect_fields max_header_bytes 0 block_new (wh_iter (wr_headers r))) (\<lambda>headers.
             and_then (h3_authority r) (\<lambda>authority.
             Inr (request_head_new_with_authority m target Http3 headers authority))))), w))"

section \<open>Lemmas\<close>

text \<open>A target of the origin form is checked the same way by both runtimes.\<close>

lemma compat_same_checks:
  assumes "wr_scheme r = None"
  shows "compat_check_target_length r n = check_target_length r (Some n)"
    and "compat_check_target_form r m v e = check_target_form r m v OriginOnly e"
    and "compat_head_target r m v = head_target r m v"
  using assms
  by (auto simp: compat_check_target_length_def check_target_length_def raw_target_def Let_def
      compat_check_target_form_def check_target_form_def compat_head_target_def head_target_def
      split: option.splits)

lemma absolute_refused:
  assumes "wr_scheme r \<noteq> None" and "wr_version r \<noteq> HTTP_2"
  shows "\<exists>e. convert_head to_str r (Some n) OriginOnly (Some k) expected = Inl e"
    and "\<exists>e. compat_convert_head to_str r n k expected = Inl e"
proof -
  have v: "v \<noteq> Http2" if "head_version (wr_version r) = Inr v" for v
    using assms(2) that by (cases "wr_version r") auto
  show "\<exists>e. convert_head to_str r (Some n) OriginOnly (Some k) expected = Inl e"
    using assms(1) v
    by (cases "head_method (wr_method r)"; cases "head_version (wr_version r)"; cases "check_target_length r (Some n)")
      (auto simp: convert_head_def check_target_form_def Let_def)
  show "\<exists>e. compat_convert_head to_str r n k expected = Inl e"
    using assms(1) v
    by (cases "head_method (wr_method r)"; cases "head_version (wr_version r)"; cases "compat_check_target_length r n")
      (auto simp: compat_convert_head_def compat_check_target_form_def Let_def)
qed

lemma h3_collect_fields_Inr:
  "h3_collect_fields l n b fs = Inr b' \<Longrightarrow> block_wf b \<Longrightarrow>
   block_wf b' \<and> block_fields b' = block_fields b @ map (\<lambda>(k, v). (k, HeaderValue (trim_ows v))) fs
   \<and> (l < usize_max \<longrightarrow> n \<le> l \<longrightarrow> n + field_bytes fs \<le> l)
   \<and> list_all (\<lambda>(k, v). \<not> List.member h3_connection_headers (to_ascii_lowercase k)
        \<and> (eq_ignore_ascii_case k ''te'' \<longrightarrow> eq_ignore_ascii_case v ''trailers'')) fs"
proof (induction l n b fs arbitrary: b' rule: h3_collect_fields.induct)
  case (2 l n b name v fs)
  let ?n = "usize_saturating_add (usize_saturating_add n (length name)) (length v)"
  from "2.prems"(1) obtain k w where c: "\<not> List.member h3_connection_headers (to_ascii_lowercase name)"
    and te: "\<not> (eq_ignore_ascii_case name ''te'' \<and> \<not> eq_ignore_ascii_case v ''trailers'')"
    and ok: "\<not> ?n > l" and k: "header_name_new name = Inr k"
    and w: "header_value_from_bytes v = Inr w"
    and r: "h3_collect_fields l ?n (block_push b k w) fs = Inr b'"
    by (auto simp: result_inv Let_def split: if_splits)
  have wf: "block_wf (block_push b k w)"
    using "2.prems"(2) pushed_field_wf [OF k w] by (simp add: block_wf_def block_push_def)
  note IH = "2.IH" [OF c te refl ok r wf]
  have "n + field_bytes ((name, v) # fs) \<le> l" if "l < usize_max" "n \<le> l"
  proof -
    have le: "?n \<le> l" using ok by simp
    from usize_sum_bound [OF this that(1)] have "?n = n + length name + length v" .
    then show ?thesis using IH le that by (simp add: field_bytes_def)
  qed
  then show ?case using IH c te header_name_str [OF k] header_value_trimmed [OF w]
    by (simp add: hb.fields_push)
qed (simp add: field_bytes_def)

section \<open>Properties\<close>

text \<open>
  C13: The compatibility runtime and the direct runtime with its default target mode admit the same
  requests of the origin form, with the same head or the same rejection, and both refuse every
  absolute-form request of HTTP/1.
\<close>

theorem compat_agrees_with_direct:
  assumes "wr_scheme r = None \<or> wr_version r \<noteq> HTTP_2"
  shows "if wr_scheme r = None
    then compat_convert_head to_str r n k expected = convert_head to_str r (Some n) OriginOnly (Some k) expected
    else \<not> is_ok (compat_convert_head to_str r n k expected)
         \<and> \<not> is_ok (convert_head to_str r (Some n) OriginOnly (Some k) expected)"
proof (cases "wr_scheme r = None")
  case True
  then show ?thesis
    unfolding compat_convert_head_def convert_head_def compat_same_checks [OF True] by simp
next
  case False
  then have "wr_version r \<noteq> HTTP_2" using assms by auto
  from absolute_refused [OF False this, of to_str n k expected] False show ?thesis
    by (auto simp: is_ok_def)
qed

definition absolute_sample :: wire_request where
  [rust_eval]: "absolute_sample =
     \<lparr>wr_method = ''GET'', wr_version = HTTP_11, wr_scheme = Some ''http'', wr_authority = Some ''h'',
      wr_path_and_query = Some ''/a'', wr_uri = ''http://h/a'', wr_headers = list_headers []\<rparr>"

theorem compat_agrees_with_direct_witness:
  "is_ok (compat_convert_head ascii_to_str sample_wire_request 8 32 Http)
   \<and> compat_convert_head ascii_to_str sample_wire_request 8 32 Http
     = convert_head ascii_to_str sample_wire_request (Some 8) OriginOnly (Some 32) Http
   \<and> \<not> is_ok (compat_convert_head ascii_to_str absolute_sample 8 32 Http)"
proof -
  have c: "is_ok (convert_head ascii_to_str sample_wire_request (Some 8) OriginOnly (Some 32) Http)"
  proof -
    have "head_authority ascii_to_str sample_wire_request = Inr (Some (Authority ''h:80''))"
      "\<exists>b. collect_head_fields (Some 32) 0 block_new (wh_iter (wr_headers sample_wire_request)) = Inr b"
      "head_target sample_wire_request (Method ''GET'') Http11 = Inr (parse_origin_form ''/a?b'')"
      "check_target_form sample_wire_request (Method ''GET'') Http11 OriginOnly Http = Inr ()"
      "check_target_length sample_wire_request (Some 8) = Inr ()"
      "head_method (wr_method sample_wire_request) = Inr (Method ''GET'')"
      "head_version (wr_version sample_wire_request) = Inr Http11"
      by (simp_all add: rust_eval Let_def)
    then show ?thesis by (auto simp: convert_head_def is_ok_def)
  qed
  moreover have "wr_scheme sample_wire_request = None" "wr_scheme absolute_sample \<noteq> None"
    by (simp_all add: sample_wire_request_def absolute_sample_def)
  moreover have "wr_version absolute_sample \<noteq> HTTP_2" by (simp add: absolute_sample_def)
  ultimately show ?thesis
    using compat_agrees_with_direct [of sample_wire_request ascii_to_str 8 32 Http]
      compat_agrees_with_direct [of absolute_sample ascii_to_str 8 32 Http] by simp
qed

text \<open>
  They refuse it differently when the whole URI exceeds the target ceiling and the path does not: the
  direct runtime measures the URI and answers 414, the compatibility runtime answers 400.
\<close>

lemma absolute_refusals_differ:
  "convert_head ascii_to_str absolute_sample (Some 8) OriginOnly (Some 32) Http
     = Inl (TargetTooLong ''request target too long'' 10 8)
   \<and> compat_convert_head ascii_to_str absolute_sample 8 32 Http
     = Inl (refuse 400 ''absolute-form request target not allowed'')"
  by (simp add: convert_head_def compat_convert_head_def absolute_sample_def head_method_def
      standard_methods_def check_target_length_def compat_check_target_length_def raw_target_def
      path_and_query_or_root_def compat_check_target_form_def Let_def)

text \<open>
  C14: A head that the HTTP/3 conversion passes on came with the \<^verbatim>\<open>https\<close> scheme, has a well-formed
  origin-form target and validated fields, exactly those of the wire and in order, within the ceilings
  on target, field count and field bytes; none of them is a connection field, \<^verbatim>\<open>TE\<close> is at most
  \<^verbatim>\<open>trailers\<close>, and the authority is the one of the URI.
\<close>

theorem h3_head_sound:
  assumes "h3_convert_request_head ctx r max_target max_headers max_header w = (Inr head, w')"
  shows "w' = w \<and> rq_version head = Http3 \<and> method_new (wr_method r) = Inr (rq_method head)
    \<and> (\<exists>s. wr_scheme r = Some s \<and> eq_ignore_ascii_case s ''https'')
    \<and> target_wf (rq_target head) \<and> rt_raw (rq_target head) = path_and_query_or_root r
    \<and> length (rt_raw (rq_target head)) \<le> max_target
    \<and> length (wh_iter (wr_headers r)) \<le> max_headers
    \<and> (max_header < usize_max \<longrightarrow> field_bytes (wh_iter (wr_headers r)) \<le> max_header)
    \<and> block_wf (rq_headers head)
    \<and> block_fields (rq_headers head) = map (\<lambda>(n, v). (n, HeaderValue (trim_ows v))) (wh_iter (wr_headers r))
    \<and> list_all (\<lambda>(k, v). \<not> List.member h3_connection_headers (to_ascii_lowercase k)
         \<and> (eq_ignore_ascii_case k ''te'' \<longrightarrow> eq_ignore_ascii_case v ''trailers'')) (wh_iter (wr_headers r))
    \<and> (case wr_authority r of None \<Rightarrow> rq_authority head = None
       | Some u \<Rightarrow> \<exists>a. parse_authority u = Inr a \<and> rq_authority head = Some a)"
proof -
  from assms obtain m s t hs a where m: "method_new (wr_method r) = Inr m"
    and s: "wr_scheme r = Some s" "eq_ignore_ascii_case s ''https''"
    and l: "length (path_and_query_or_root r) \<le> max_target" and t: "parse_target (path_and_query_or_root r) = Inr t"
    and n: "length (wh_iter (wr_headers r)) \<le> max_headers"
    and hs: "h3_collect_fields max_header 0 block_new (wh_iter (wr_headers r)) = Inr hs"
    and a: "h3_authority r = Inr a" and head: "head = request_head_new_with_authority m t Http3 hs a" and w: "w' = w"
    by (auto simp: h3_convert_request_head_def result_inv ensure_def split: sum.splits if_splits option.splits)
  have wf: "block_wf block_new" by (simp add: block_wf_def block_new_def)
  have raw: "rt_raw t = path_and_query_or_root r"
    using parse_target_InrD [OF t] by (simp add: parse_origin_form_def Let_def)
  have auth: "case wr_authority r of None \<Rightarrow> a = None | Some u \<Rightarrow> \<exists>x. parse_authority u = Inr x \<and> a = Some x"
    using a by (auto simp: h3_authority_def result_inv split: option.splits)
  show ?thesis
    using m s l n raw w auth parse_target_wf [OF t] h3_collect_fields_Inr [OF hs wf]
    unfolding head request_head_new_with_authority_def
    by (simp add: hb.fields_empty split: option.splits)
qed

definition h3_sample :: wire_request where
  [rust_eval]: "h3_sample =
     \<lparr>wr_method = ''GET'', wr_version = OtherVersion ''HTTP/3.0'', wr_scheme = Some ''https'',
      wr_authority = Some ''h'', wr_path_and_query = Some ''/a'', wr_uri = ''https://h/a'',
      wr_headers = list_headers [(''te'', ''trailers'')]\<rparr>"

theorem h3_head_sound_witness:
  "\<exists>ctx head w. h3_convert_request_head ctx h3_sample 8 4 32 w = (Inr head, w)
     \<and> rq_authority head = Some (Authority ''h'') \<and> block_wf (rq_headers head)"
proof -
  obtain ctx :: ops_context and w :: ops_world where True by blast
  have p: "parse_target (path_and_query_or_root h3_sample) = Inr (parse_origin_form ''/a'')"
    "h3_authority h3_sample = Inr (Some (Authority ''h''))"
    "method_new (wr_method h3_sample) = Inr (Method ''GET'')"
    by (simp_all add: rust_eval Let_def)
  have "\<exists>b. h3_collect_fields 32 0 block_new (wh_iter (wr_headers h3_sample)) = Inr b"
    by (simp add: rust_eval Let_def)
  then obtain b where b: "h3_collect_fields 32 0 block_new (wh_iter (wr_headers h3_sample)) = Inr b" by blast
  have "\<exists>head. h3_convert_request_head ctx h3_sample 8 4 32 w = (Inr head, w) \<and> rq_authority head = Some (Authority ''h'')"
    using p b by (simp add: h3_convert_request_head_def request_head_new_with_authority_def ensure_def h3_sample_def
        path_and_query_or_root_def list_headers_def Let_def)
  then obtain head where "h3_convert_request_head ctx h3_sample 8 4 32 w = (Inr head, w)" "rq_authority head = Some (Authority ''h'')"
    by blast
  with h3_head_sound [OF this(1)] show ?thesis by blast
qed

text \<open>The HTTP/3 length field may start with a plus sign, which the HTTP/1 framing check refuses.\<close>

lemma h3_length_accepts_plus:
  "declared_content_length ascii_to_str (list_headers [(''content-length'', ''+5'')]) = Inr (Some 5)
   \<and> validate_body_framing ascii_to_str (list_headers [(''content-length'', ''+5'')])
     = Inl (service_rejected 400 ''invalid Content-Length'')"
  by (simp add: rust_eval Let_def)

end
