(* ===== verification/Runtime_Limits.thy ===== *)
theory Runtime_Limits
  imports Rust_Prelude
begin

text \<open>
  The limits of the runtime: \<^verbatim>\<open>eggserve-server/src/runtime_limits.rs\<close>.

  A \<^verbatim>\<open>Duration\<close> is its number of nanoseconds.  The largest number of permits of a semaphore is a
  constant of the library and an argument here.
\<close>

section \<open>Durations\<close>

type_synonym duration = nat

definition from_secs :: "nat \<Rightarrow> duration" where
  [rust_eval]: "from_secs n = n * 1000000000"

text \<open>
  The \<^verbatim>\<open>Debug\<close> form of a duration: the largest unit with a non-zero integer part, and the rest as a
  fraction without trailing zeros.
\<close>

definition fraction :: "nat \<Rightarrow> nat \<Rightarrow> string" where
  [rust_eval]: "fraction width n =
     (if n = 0 then []
      else CHR ''.'' # rev (dropWhile (\<lambda>c. c = CHR ''0'') (rev (replicate (width - length (dec n)) CHR ''0'' @ dec n))))"

definition duration_debug :: "duration \<Rightarrow> string" where
  [rust_eval]: "duration_debug d =
     (if d \<ge> 1000000000 then dec (d div 1000000000) @ fraction 9 (d mod 1000000000) @ ''s''
      else if d \<ge> 1000000 then dec (d div 1000000) @ fraction 6 (d mod 1000000) @ ''ms''
      else if d \<ge> 1000 then dec (d div 1000) @ fraction 3 (d mod 1000) @ [CHR 0xC2, CHR 0xB5] @ ''s''
      else dec d @ ''ns'')"

section \<open>Defaults and bounds\<close>

definition DEFAULT_MAX_CONNECTIONS :: nat where
  [rust_eval]: "DEFAULT_MAX_CONNECTIONS = 64"

definition DEFAULT_MAX_FILE_STREAMS :: nat where
  [rust_eval]: "DEFAULT_MAX_FILE_STREAMS = 32"

definition DEFAULT_MAX_REQUEST_BODY_BYTES :: u64 where
  [rust_eval]: "DEFAULT_MAX_REQUEST_BODY_BYTES = 0"

definition MAX_REQUEST_BODY_BYTES :: u64 where
  [rust_eval]: "MAX_REQUEST_BODY_BYTES = 1024 * 1024 * 1024"

definition DEFAULT_HEADER_READ_TIMEOUT :: duration where
  [rust_eval]: "DEFAULT_HEADER_READ_TIMEOUT = from_secs 10"

definition DEFAULT_TLS_HANDSHAKE_TIMEOUT :: duration where
  [rust_eval]: "DEFAULT_TLS_HANDSHAKE_TIMEOUT = from_secs 10"

definition DEFAULT_CONNECTION_TOTAL_TIMEOUT :: duration where
  [rust_eval]: "DEFAULT_CONNECTION_TOTAL_TIMEOUT = from_secs 60"

definition DEFAULT_HANDLER_TIMEOUT :: duration where
  [rust_eval]: "DEFAULT_HANDLER_TIMEOUT = from_secs 30"

definition DEFAULT_BODY_READ_TIMEOUT :: duration where
  [rust_eval]: "DEFAULT_BODY_READ_TIMEOUT = from_secs 30"

definition DEFAULT_GRACEFUL_SHUTDOWN_TIMEOUT :: duration where
  [rust_eval]: "DEFAULT_GRACEFUL_SHUTDOWN_TIMEOUT = from_secs 10"

definition DEFAULT_KEEP_ALIVE_IDLE_TIMEOUT :: duration where
  [rust_eval]: "DEFAULT_KEEP_ALIVE_IDLE_TIMEOUT = from_secs 60"

definition DEFAULT_RESPONSE_WRITE_TIMEOUT :: duration where
  [rust_eval]: "DEFAULT_RESPONSE_WRITE_TIMEOUT = from_secs 30"

definition DEFAULT_STREAM_CHUNK_SIZE :: nat where
  [rust_eval]: "DEFAULT_STREAM_CHUNK_SIZE = 128 * 1024"

definition MIN_STREAM_CHUNK_SIZE :: nat where
  [rust_eval]: "MIN_STREAM_CHUNK_SIZE = 64"

definition MAX_STREAM_CHUNK_SIZE :: nat where
  [rust_eval]: "MAX_STREAM_CHUNK_SIZE = 1024 * 1024"

definition DEFAULT_MAX_BUF_SIZE :: nat where
  [rust_eval]: "DEFAULT_MAX_BUF_SIZE = 64 * 1024"

definition MIN_MAX_BUF_SIZE :: nat where
  [rust_eval]: "MIN_MAX_BUF_SIZE = 8192"

definition DEFAULT_MAX_HEADERS :: nat where
  [rust_eval]: "DEFAULT_MAX_HEADERS = 100"

definition DEFAULT_MAX_HEADER_BYTES :: nat where
  [rust_eval]: "DEFAULT_MAX_HEADER_BYTES = 32 * 1024"

definition MIN_MAX_HEADER_BYTES :: nat where
  [rust_eval]: "MIN_MAX_HEADER_BYTES = 1024"

definition MAX_MAX_HEADER_BYTES :: nat where
  [rust_eval]: "MAX_MAX_HEADER_BYTES = 1024 * 1024"

definition DEFAULT_MAX_REQUEST_TARGET_BYTES :: nat where
  [rust_eval]: "DEFAULT_MAX_REQUEST_TARGET_BYTES = 8192"

definition MIN_MAX_REQUEST_TARGET_BYTES :: nat where
  [rust_eval]: "MIN_MAX_REQUEST_TARGET_BYTES = 128"

definition MAX_MAX_REQUEST_TARGET_BYTES :: nat where
  [rust_eval]: "MAX_MAX_REQUEST_TARGET_BYTES = 64 * 1024"

definition DEFAULT_MAX_IN_FLIGHT_REQUESTS :: nat where
  [rust_eval]: "DEFAULT_MAX_IN_FLIGHT_REQUESTS = 64"

definition DEFAULT_MAX_ACTIVE_TUNNELS :: nat where
  [rust_eval]: "DEFAULT_MAX_ACTIVE_TUNNELS = 64"

section \<open>The shared values\<close>

record shared_runtime_values =
  sv_max_connections :: nat
  sv_max_file_streams :: nat
  sv_max_request_body_bytes :: u64
  sv_header_read_timeout :: duration
  sv_tls_handshake_timeout :: duration
  sv_connection_total_timeout :: duration
  sv_handler_timeout :: duration
  sv_body_read_timeout :: duration
  sv_graceful_shutdown_timeout :: duration
  sv_stream_chunk_size :: nat
  sv_max_buf_size :: nat
  sv_max_headers :: nat
  sv_max_header_bytes :: nat
  sv_max_request_target_bytes :: nat
  sv_max_in_flight_requests :: nat
  sv_keep_alive_idle_timeout :: duration
  sv_max_requests_per_connection :: "u64 option"
  sv_response_write_timeout :: duration
  sv_max_active_tunnels :: nat

definition shared_default :: shared_runtime_values where
  [rust_eval]: "shared_default =
     \<lparr>sv_max_connections = DEFAULT_MAX_CONNECTIONS,
      sv_max_file_streams = DEFAULT_MAX_FILE_STREAMS,
      sv_max_request_body_bytes = DEFAULT_MAX_REQUEST_BODY_BYTES,
      sv_header_read_timeout = DEFAULT_HEADER_READ_TIMEOUT,
      sv_tls_handshake_timeout = DEFAULT_TLS_HANDSHAKE_TIMEOUT,
      sv_connection_total_timeout = DEFAULT_CONNECTION_TOTAL_TIMEOUT,
      sv_handler_timeout = DEFAULT_HANDLER_TIMEOUT,
      sv_body_read_timeout = DEFAULT_BODY_READ_TIMEOUT,
      sv_graceful_shutdown_timeout = DEFAULT_GRACEFUL_SHUTDOWN_TIMEOUT,
      sv_stream_chunk_size = DEFAULT_STREAM_CHUNK_SIZE,
      sv_max_buf_size = DEFAULT_MAX_BUF_SIZE,
      sv_max_headers = DEFAULT_MAX_HEADERS,
      sv_max_header_bytes = DEFAULT_MAX_HEADER_BYTES,
      sv_max_request_target_bytes = DEFAULT_MAX_REQUEST_TARGET_BYTES,
      sv_max_in_flight_requests = DEFAULT_MAX_IN_FLIGHT_REQUESTS,
      sv_keep_alive_idle_timeout = DEFAULT_KEEP_ALIVE_IDLE_TIMEOUT,
      sv_max_requests_per_connection = None,
      sv_response_write_timeout = DEFAULT_RESPONSE_WRITE_TIMEOUT,
      sv_max_active_tunnels = DEFAULT_MAX_ACTIVE_TUNNELS\<rparr>"

record violation =
  vi_field :: string
  vi_value :: string
  vi_constraint :: string

definition violation_text :: "violation \<Rightarrow> string" where
  [rust_eval]: "violation_text v = vi_field v @ '' must be '' @ vi_constraint v @ '': got '' @ vi_value v"

definition duration_value :: "duration \<Rightarrow> string" where
  [rust_eval]: "duration_value d = (if d = 0 then ''0s'' else duration_debug d)"

text \<open>The checks push at most one violation each; the helpers are the shapes that repeat.\<close>

definition check_that :: "bool \<Rightarrow> string \<Rightarrow> string \<Rightarrow> string \<Rightarrow> violation list" where
  [rust_eval]: "check_that ok field v constraint =
     (if ok then [] else [\<lparr>vi_field = field, vi_value = v, vi_constraint = constraint\<rparr>])"

definition check_permits :: "nat \<Rightarrow> string \<Rightarrow> nat \<Rightarrow> violation list" where
  [rust_eval]: "check_permits max_permits field n =
     (if n = 0 then check_that False field ''0'' ''> 0''
      else check_that (n \<le> max_permits) field (dec n) (''<= '' @ dec max_permits @ '' (Semaphore::MAX_PERMITS)''))"

definition check_nonzero :: "string \<Rightarrow> duration \<Rightarrow> violation list" where
  [rust_eval]: "check_nonzero field d = check_that (d \<noteq> 0) field ''0s'' ''> 0''"

definition check_total :: "duration \<Rightarrow> string \<Rightarrow> duration \<Rightarrow> violation list" where
  [rust_eval]: "check_total limit field d =
     check_that (\<not> (limit \<noteq> 0 \<and> d > limit)) field (duration_value d) ''<= connection_total_timeout''"

definition check_between :: "nat \<Rightarrow> nat \<Rightarrow> string \<Rightarrow> string \<Rightarrow> nat \<Rightarrow> violation list" where
  [rust_eval]: "check_between lower upper note field n =
     (if n < lower then check_that False field (dec n) (''>= '' @ dec lower)
      else check_that (n \<le> upper) field (dec n) (''<= '' @ dec upper @ note))"

definition shared_validate :: "nat \<Rightarrow> shared_runtime_values \<Rightarrow> violation list" where
  [rust_eval]: "shared_validate max_permits v =
     check_permits max_permits ''max_connections'' (sv_max_connections v)
     @ check_permits max_permits ''max_file_streams'' (sv_max_file_streams v)
     @ check_nonzero ''header_read_timeout'' (sv_header_read_timeout v)
     @ check_nonzero ''tls_handshake_timeout'' (sv_tls_handshake_timeout v)
     @ check_total (sv_connection_total_timeout v) ''header_read_timeout'' (sv_header_read_timeout v)
     @ check_nonzero ''handler_timeout'' (sv_handler_timeout v)
     @ check_nonzero ''body_read_timeout'' (sv_body_read_timeout v)
     @ check_total (sv_connection_total_timeout v) ''handler_timeout'' (sv_handler_timeout v)
     @ check_total (sv_connection_total_timeout v) ''body_read_timeout'' (sv_body_read_timeout v)
     @ check_nonzero ''graceful_shutdown_timeout'' (sv_graceful_shutdown_timeout v)
     @ check_between MIN_STREAM_CHUNK_SIZE MAX_STREAM_CHUNK_SIZE '' (1 MiB)'' ''stream_chunk_size'' (sv_stream_chunk_size v)
     @ check_that (sv_max_request_body_bytes v \<le> MAX_REQUEST_BODY_BYTES) ''max_request_body_bytes''
         (dec (unat (sv_max_request_body_bytes v)))
         (''<= '' @ dec (unat MAX_REQUEST_BODY_BYTES) @ '' (1 GiB), or 0 to reject bodies'')
     @ check_that (sv_max_buf_size v \<ge> MIN_MAX_BUF_SIZE) ''max_buf_size'' (dec (sv_max_buf_size v))
         (''>= '' @ dec MIN_MAX_BUF_SIZE @ '' (Hyper minimum)'')
     @ check_that (sv_max_headers v \<noteq> 0) ''max_headers'' ''0'' ''> 0''
     @ check_between MIN_MAX_HEADER_BYTES MAX_MAX_HEADER_BYTES '' (1 MiB)'' ''max_header_bytes'' (sv_max_header_bytes v)
     @ check_between MIN_MAX_REQUEST_TARGET_BYTES MAX_MAX_REQUEST_TARGET_BYTES '' (64 KiB)''
         ''max_request_target_bytes'' (sv_max_request_target_bytes v)
     @ check_permits max_permits ''max_in_flight_requests'' (sv_max_in_flight_requests v)
     @ check_nonzero ''keep_alive_idle_timeout'' (sv_keep_alive_idle_timeout v)
     @ check_that (sv_max_requests_per_connection v \<noteq> Some 0) ''max_requests_per_connection'' ''0''
         ''>= 1 or None (unlimited)''
     @ check_nonzero ''response_write_timeout'' (sv_response_write_timeout v)
     @ check_permits max_permits ''max_active_tunnels'' (sv_max_active_tunnels v)"

section \<open>What the checks say\<close>

text \<open>The bounds, as the fields document them.\<close>

definition shared_ok :: "nat \<Rightarrow> shared_runtime_values \<Rightarrow> bool" where
  [rust_eval]: "shared_ok max_permits v \<longleftrightarrow>
     list_all (\<lambda>n. 0 < n \<and> n \<le> max_permits)
       [sv_max_connections v, sv_max_file_streams v, sv_max_in_flight_requests v, sv_max_active_tunnels v]
     \<and> list_all (\<lambda>d. 0 < d)
         [sv_header_read_timeout v, sv_tls_handshake_timeout v, sv_handler_timeout v, sv_body_read_timeout v,
          sv_graceful_shutdown_timeout v, sv_keep_alive_idle_timeout v, sv_response_write_timeout v]
     \<and> list_all (\<lambda>d. sv_connection_total_timeout v = 0 \<or> d \<le> sv_connection_total_timeout v)
         [sv_header_read_timeout v, sv_handler_timeout v, sv_body_read_timeout v]
     \<and> MIN_STREAM_CHUNK_SIZE \<le> sv_stream_chunk_size v \<and> sv_stream_chunk_size v \<le> MAX_STREAM_CHUNK_SIZE
     \<and> sv_max_request_body_bytes v \<le> MAX_REQUEST_BODY_BYTES
     \<and> MIN_MAX_BUF_SIZE \<le> sv_max_buf_size v \<and> 0 < sv_max_headers v
     \<and> MIN_MAX_HEADER_BYTES \<le> sv_max_header_bytes v \<and> sv_max_header_bytes v \<le> MAX_MAX_HEADER_BYTES
     \<and> MIN_MAX_REQUEST_TARGET_BYTES \<le> sv_max_request_target_bytes v
     \<and> sv_max_request_target_bytes v \<le> MAX_MAX_REQUEST_TARGET_BYTES
     \<and> sv_max_requests_per_connection v \<noteq> Some 0"

lemmas shared_checks = check_permits_def check_nonzero_def check_total_def check_between_def check_that_def

lemma shared_validate_Nil: "shared_validate max_permits v = [] \<longleftrightarrow> shared_ok max_permits v"
  unfolding shared_validate_def shared_ok_def shared_checks
  by (simp add: not_less not_le)

text \<open>At most one violation names a field.\<close>

lemma check_fields:
  "map vi_field (check_that ok field x c) = (if ok then [] else [field])"
  "map vi_field (check_permits m field n) = (if 0 < n \<and> n \<le> m then [] else [field])"
  "map vi_field (check_nonzero field d) = (if d \<noteq> 0 then [] else [field])"
  "map vi_field (check_total t field d) = (if t \<noteq> 0 \<and> d > t then [field] else [])"
  "map vi_field (check_between lo up note field n) = (if lo \<le> n \<and> n \<le> up then [] else [field])"
  by (simp_all add: shared_checks)

lemma flag_list:
  "set (if b then [] else [f]) = (if b then {} else {f})" "set (if b then [f] else []) = (if b then {f} else {})"
  "distinct (if b then [] else [f])" "distinct (if b then [f] else [])"
  "(if b then {} else {f}) \<inter> S = {} \<longleftrightarrow> b \<or> f \<notin> S" "(if b then {f} else {}) \<inter> S = {} \<longleftrightarrow> \<not> b \<or> f \<notin> S"
  "f \<in> (if b then {} else {g}) \<longleftrightarrow> \<not> b \<and> f = g" "f \<in> (if b then {g} else {}) \<longleftrightarrow> b \<and> f = g"
  by auto

lemma one_violation_per_field: "distinct (map vi_field (shared_validate max_permits v))"
  unfolding shared_validate_def map_append check_fields
  by (simp add: flag_list split del: if_split) auto

lemma shared_default_valid: "64 \<le> max_permits \<Longrightarrow> shared_validate max_permits shared_default = []"
  unfolding shared_validate_Nil by (simp add: rust_eval)

end
