(* ===== verification/Config.thy ===== *)
theory Config
  imports Runtime_Limits Request_Intake Accept_Loop Planner
begin

text \<open>
  Configuration of the runtime: \<^verbatim>\<open>config.rs\<close>, \<^verbatim>\<open>response_policy.rs\<close> and the types of
  \<^verbatim>\<open>rejection.rs\<close> of \<^verbatim>\<open>eggserve-server/src\<close>.

  A caller's clock is the number of a date provider; what the clocks read is an argument of the
  functions that ask them.  A rejection presenter is a function; its result \<open>None\<close> is a panic.  The text
  of an invalid proxy configuration is an argument, because its errors are modelled without their
  texts.
\<close>

definition unwrap_or :: "'a \<Rightarrow> 'a option \<Rightarrow> 'a" where
  [rust_eval]: "unwrap_or d m = (case m of Some a \<Rightarrow> a | None \<Rightarrow> d)"

section \<open>Owners\<close>

datatype policy_owner = EggServe | External

record h1_policy_ownership =
  po_handler_deadline :: policy_owner
  po_request_body_deadline :: policy_owner
  po_keep_alive_idle_deadline :: policy_owner
  po_response_write_progress_deadline :: policy_owner
  po_global_request_body_ceiling :: policy_owner
  po_request_target_ceiling :: policy_owner

definition eggserve_owned :: h1_policy_ownership where
  [rust_eval]: "eggserve_owned =
     \<lparr>po_handler_deadline = EggServe, po_request_body_deadline = EggServe,
      po_keep_alive_idle_deadline = EggServe, po_response_write_progress_deadline = EggServe,
      po_global_request_body_ceiling = EggServe, po_request_target_ceiling = EggServe\<rparr>"

datatype admission_owner = AdmissionEggServe | AdmissionExternal

record admission_ownership =
  ao_service_calls :: admission_owner
  ao_tunnels :: admission_owner

definition admission_eggserve_owned :: admission_ownership where
  [rust_eval]: "admission_eggserve_owned = \<lparr>ao_service_calls = AdmissionEggServe, ao_tunnels = AdmissionEggServe\<rparr>"

record response_metadata_ownership =
  mo_date :: policy_owner
  mo_server :: policy_owner

definition metadata_eggserve_owned :: response_metadata_ownership where
  [rust_eval]: "metadata_eggserve_owned = \<lparr>mo_date = EggServe, mo_server = EggServe\<rparr>"

section \<open>Rejections\<close>

datatype rejection_kind =
    RequestTargetTooLongKind | RequestHeadersTooLargeKind | RequestBodyRejectedKind | RequestBodyTooLargeKind
  | RequestBodyTimeoutKind | ServiceAdmissionSaturatedKind | TunnelAdmissionSaturatedKind | HandlerTimeoutKind
  | ServicePanicKind | ServiceRejectedKind | InternalKind

record runtime_rejection =
  rr_kind :: rejection_kind
  rr_status :: status_code

record error_presentation =
  ep_headers :: header_block
  ep_body :: bytes

type_synonym rejection_presenter = "runtime_rejection \<Rightarrow> error_presentation option option"

definition MAX_RUNTIME_REJECTION_BODY_BYTES :: nat where
  [rust_eval]: "MAX_RUNTIME_REJECTION_BODY_BYTES = 64 * 1024"

section \<open>Response policy\<close>

datatype date_policy = SystemClock | SuppressDate | CustomDate nat

type_synonym date_clock = "nat option \<Rightarrow> system_time"

definition is_formattable_date :: "system_time \<Rightarrow> bool" where
  [rust_eval]: "is_formattable_date t \<longleftrightarrow> 0 \<le> t \<and> t div nanos_per_sec < 253402300800"

definition date_now :: "date_clock \<Rightarrow> date_policy \<Rightarrow> system_time option" where
  [rust_eval]: "date_now clock p =
     (case p of
        SystemClock \<Rightarrow> Some (clock None)
      | SuppressDate \<Rightarrow> None
      | CustomDate i \<Rightarrow> (let t = clock (Some i) in if is_formattable_date t then Some t else None))"

definition blocked_stripped_headers :: "string list" where
  [rust_eval]: "blocked_stripped_headers =
     [''date'', ''content-length'', ''transfer-encoding'', ''connection'', ''keep-alive'', ''proxy-authenticate'',
      ''proxy-authorization'', ''proxy-connection'', ''te'', ''trailer'', ''upgrade'', ''content-range'']"

definition validate_stripped_header_name :: "string \<Rightarrow> string + string" where
  [rust_eval]: "validate_stripped_header_name name =
     and_then (map_err (\<lambda>e. ''invalid stripped response header '' @ [CHR 0x27] @ name @ [CHR 0x27] @ '': '' @ header_error_text e)
         (header_name_new name)) (\<lambda>canonical.
       if List.member blocked_stripped_headers (to_ascii_lowercase (name_str canonical))
       then Inl (''stripped response header is runtime-owned and cannot be denylisted: '' @ name)
       else Inr (name_str canonical))"

definition minimal_fingerprint_stripped_headers :: "string list" where
  [rust_eval]: "minimal_fingerprint_stripped_headers = [''x-powered-by'']"

record response_policy =
  rp_server_identification :: "string option"
  rp_date_policy :: date_policy
  rp_stripped_response_headers :: "string list"
  rp_error_policy :: error_representation_policy

definition response_policy_default :: response_policy where
  [rust_eval]: "response_policy_default =
     \<lparr>rp_server_identification = None, rp_date_policy = SystemClock, rp_stripped_response_headers = [],
      rp_error_policy = ErrorMinimal\<rparr>"

definition minimal_fingerprint :: response_policy where
  [rust_eval]: "minimal_fingerprint =
     \<lparr>rp_server_identification = None, rp_date_policy = SystemClock,
      rp_stripped_response_headers = minimal_fingerprint_stripped_headers, rp_error_policy = ErrorMinimal\<rparr>"

fun validate_stripped_names :: "string list \<Rightarrow> string + unit" where
  "validate_stripped_names [] = Inr ()"
| "validate_stripped_names (n # ns) = and_then (validate_stripped_header_name n) (\<lambda>_. validate_stripped_names ns)"

definition response_policy_validate :: "response_policy \<Rightarrow> string + unit" where
  [rust_eval]: "response_policy_validate p =
     and_then (case rp_server_identification p of
         Some server \<Rightarrow>
           and_then (map_err (\<lambda>e. ''invalid server_identification: '' @ header_error_text e)
               (header_value_from_bytes server)) (\<lambda>canonical.
             if value_bytes canonical = [] then Inl ''server_identification must not be empty or whitespace-only''
             else Inr ())
       | None \<Rightarrow> Inr ()) (\<lambda>_.
     validate_stripped_names (rp_stripped_response_headers p))"

section \<open>Runtime configuration\<close>

definition trusted_proxy_default :: trusted_proxy_config where
  [rust_eval]: "trusted_proxy_default =
     \<lparr>tp_peers = [], tp_trust_unix = False,
      tp_proxy_protocol = \<lparr>pp_enabled = False, pp_timeout = 5 * 1000000000\<rparr>,
      tp_forwarded = default_forwarded_config\<rparr>"

definition default_bind :: socket_addr where
  [rust_eval]: "default_bind = \<lparr>sa_ip = V4 0x7F000001, sa_port = 8000\<rparr>"

record runtime_config =
  rc_http1_request_target_mode :: target_mode
  rc_policy_ownership :: h1_policy_ownership
  rc_admission_ownership :: admission_ownership
  rc_bind :: socket_addr
  rc_max_connections :: nat
  rc_max_file_streams :: nat
  rc_stream_chunk_size :: nat
  rc_header_read_timeout :: duration
  rc_tls_handshake_timeout :: duration
  rc_connection_total_timeout :: duration
  rc_handler_timeout :: duration
  rc_body_read_timeout :: duration
  rc_graceful_shutdown_timeout :: duration
  rc_response_policy :: response_policy
  rc_runtime_rejection_presenter :: "rejection_presenter option"
  rc_max_request_body_bytes :: u64
  rc_max_buf_size :: nat
  rc_max_headers :: nat
  rc_max_header_bytes :: nat
  rc_max_request_target_bytes :: nat
  rc_max_in_flight_requests :: nat
  rc_keep_alive_idle_timeout :: duration
  rc_max_requests_per_connection :: "u64 option"
  rc_response_write_timeout :: duration
  rc_max_active_tunnels :: nat
  rc_trusted_proxy :: trusted_proxy_config

definition runtime_config_default :: runtime_config where
  [rust_eval]: "runtime_config_default =
     \<lparr>rc_http1_request_target_mode = OriginOnly,
      rc_policy_ownership = eggserve_owned,
      rc_admission_ownership = admission_eggserve_owned,
      rc_bind = default_bind,
      rc_max_connections = DEFAULT_MAX_CONNECTIONS,
      rc_max_file_streams = DEFAULT_MAX_FILE_STREAMS,
      rc_stream_chunk_size = DEFAULT_STREAM_CHUNK_SIZE,
      rc_header_read_timeout = DEFAULT_HEADER_READ_TIMEOUT,
      rc_tls_handshake_timeout = DEFAULT_TLS_HANDSHAKE_TIMEOUT,
      rc_connection_total_timeout = DEFAULT_CONNECTION_TOTAL_TIMEOUT,
      rc_handler_timeout = DEFAULT_HANDLER_TIMEOUT,
      rc_body_read_timeout = DEFAULT_BODY_READ_TIMEOUT,
      rc_graceful_shutdown_timeout = DEFAULT_GRACEFUL_SHUTDOWN_TIMEOUT,
      rc_response_policy = response_policy_default,
      rc_runtime_rejection_presenter = None,
      rc_max_request_body_bytes = DEFAULT_MAX_REQUEST_BODY_BYTES,
      rc_max_buf_size = DEFAULT_MAX_BUF_SIZE,
      rc_max_headers = DEFAULT_MAX_HEADERS,
      rc_max_header_bytes = DEFAULT_MAX_HEADER_BYTES,
      rc_max_request_target_bytes = DEFAULT_MAX_REQUEST_TARGET_BYTES,
      rc_max_in_flight_requests = DEFAULT_MAX_IN_FLIGHT_REQUESTS,
      rc_keep_alive_idle_timeout = DEFAULT_KEEP_ALIVE_IDLE_TIMEOUT,
      rc_max_requests_per_connection = None,
      rc_response_write_timeout = DEFAULT_RESPONSE_WRITE_TIMEOUT,
      rc_max_active_tunnels = DEFAULT_MAX_ACTIVE_TUNNELS,
      rc_trusted_proxy = trusted_proxy_default\<rparr>"

definition shared_of_config :: "runtime_config \<Rightarrow> shared_runtime_values" where
  [rust_eval]: "shared_of_config c =
     \<lparr>sv_max_connections = rc_max_connections c,
      sv_max_file_streams = rc_max_file_streams c,
      sv_max_request_body_bytes = rc_max_request_body_bytes c,
      sv_header_read_timeout = rc_header_read_timeout c,
      sv_tls_handshake_timeout = rc_tls_handshake_timeout c,
      sv_connection_total_timeout = rc_connection_total_timeout c,
      sv_handler_timeout = rc_handler_timeout c,
      sv_body_read_timeout = rc_body_read_timeout c,
      sv_graceful_shutdown_timeout = rc_graceful_shutdown_timeout c,
      sv_stream_chunk_size = rc_stream_chunk_size c,
      sv_max_buf_size = rc_max_buf_size c,
      sv_max_headers = rc_max_headers c,
      sv_max_header_bytes = rc_max_header_bytes c,
      sv_max_request_target_bytes = rc_max_request_target_bytes c,
      sv_max_in_flight_requests = rc_max_in_flight_requests c,
      sv_keep_alive_idle_timeout = rc_keep_alive_idle_timeout c,
      sv_max_requests_per_connection = rc_max_requests_per_connection c,
      sv_response_write_timeout = rc_response_write_timeout c,
      sv_max_active_tunnels = rc_max_active_tunnels c\<rparr>"

text \<open>The list of violations, joined by semicolons.\<close>

fun violations_text :: "violation list \<Rightarrow> string" where
  "violations_text [] = []"
| "violations_text [v] = violation_text v"
| "violations_text (v # vs) = violation_text v @ ''; '' @ violations_text vs"

definition validate_parts ::
  "nat \<Rightarrow> (trusted_proxy_config \<Rightarrow> string) \<Rightarrow> shared_runtime_values \<Rightarrow> response_policy \<Rightarrow> trusted_proxy_config
   \<Rightarrow> server_error + unit" where
  [rust_eval]: "validate_parts max_permits proxy_text shared policy proxy =
     (let violations = shared_validate max_permits shared in
      if violations \<noteq> [] then Inl (ConfigError (violations_text violations))
      else
        and_then (map_err (\<lambda>e. ConfigError (''invalid response_policy: '' @ e)) (response_policy_validate policy)) (\<lambda>_.
        map_err (\<lambda>_. ConfigError (''invalid trusted_proxy: '' @ proxy_text proxy)) (trusted_proxy_validate proxy)))"

definition config_validate ::
  "nat \<Rightarrow> (trusted_proxy_config \<Rightarrow> string) \<Rightarrow> runtime_config \<Rightarrow> server_error + unit" where
  [rust_eval]: "config_validate max_permits proxy_text c =
     validate_parts max_permits proxy_text (shared_of_config c) (rc_response_policy c) (rc_trusted_proxy c)"

record h1_connection_policy =
  h1_header_read_timeout :: duration
  h1_connection_total_timeout :: duration
  h1_handler_timeout :: duration
  h1_body_read_timeout :: duration
  h1_graceful_shutdown_timeout :: duration
  h1_response_policy :: response_policy
  h1_max_request_body_bytes :: u64
  h1_max_buf_size :: nat
  h1_max_headers :: nat
  h1_max_header_bytes :: nat
  h1_max_request_target_bytes :: nat
  h1_http1_request_target_mode :: target_mode
  h1_policy_ownership :: h1_policy_ownership
  h1_request_header_bytes_owner :: policy_owner
  h1_response_metadata_ownership :: response_metadata_ownership
  h1_admission_ownership :: admission_ownership
  h1_keep_alive_idle_timeout :: duration
  h1_max_requests_per_connection :: "u64 option"
  h1_response_write_timeout :: duration
  h1_trusted_proxy :: trusted_proxy_config
  h1_stream_chunk_size :: nat
  h1_runtime_rejection_presenter :: "rejection_presenter option"

definition h1_connection_policy_of ::
  "nat \<Rightarrow> (trusted_proxy_config \<Rightarrow> string) \<Rightarrow> runtime_config \<Rightarrow> server_error + h1_connection_policy" where
  [rust_eval]: "h1_connection_policy_of max_permits proxy_text c =
     and_then (config_validate max_permits proxy_text c) (\<lambda>_. Inr
     \<lparr>h1_header_read_timeout = rc_header_read_timeout c,
      h1_connection_total_timeout = rc_connection_total_timeout c,
      h1_handler_timeout = rc_handler_timeout c,
      h1_body_read_timeout = rc_body_read_timeout c,
      h1_graceful_shutdown_timeout = rc_graceful_shutdown_timeout c,
      h1_response_policy = rc_response_policy c,
      h1_max_request_body_bytes = rc_max_request_body_bytes c,
      h1_max_buf_size = rc_max_buf_size c,
      h1_max_headers = rc_max_headers c,
      h1_max_header_bytes = rc_max_header_bytes c,
      h1_max_request_target_bytes = rc_max_request_target_bytes c,
      h1_http1_request_target_mode = rc_http1_request_target_mode c,
      h1_policy_ownership = rc_policy_ownership c,
      h1_request_header_bytes_owner = EggServe,
      h1_response_metadata_ownership = metadata_eggserve_owned,
      h1_admission_ownership = rc_admission_ownership c,
      h1_keep_alive_idle_timeout = rc_keep_alive_idle_timeout c,
      h1_max_requests_per_connection = rc_max_requests_per_connection c,
      h1_response_write_timeout = rc_response_write_timeout c,
      h1_trusted_proxy = rc_trusted_proxy c,
      h1_stream_chunk_size = rc_stream_chunk_size c,
      h1_runtime_rejection_presenter = rc_runtime_rejection_presenter c\<rparr>)"

definition with_request_header_bytes_owner :: "policy_owner \<Rightarrow> h1_connection_policy \<Rightarrow> h1_connection_policy" where
  [rust_eval]: "with_request_header_bytes_owner owner p = p\<lparr>h1_request_header_bytes_owner := owner\<rparr>"

definition with_response_metadata_ownership ::
  "response_metadata_ownership \<Rightarrow> h1_connection_policy \<Rightarrow> h1_connection_policy" where
  [rust_eval]: "with_response_metadata_ownership ownership p = p\<lparr>h1_response_metadata_ownership := ownership\<rparr>"

section \<open>The builder\<close>

text \<open>
  The setters each store one value, \<open>cb_x_update (\<lambda>_. Some v)\<close>; those on parts of the proxy policy create
  the default policy first.
\<close>

record config_builder =
  cb_http1_request_target_mode :: "target_mode option"
  cb_policy_ownership :: "h1_policy_ownership option"
  cb_admission_ownership :: "admission_ownership option"
  cb_bind :: "socket_addr option"
  cb_max_connections :: "nat option"
  cb_max_file_streams :: "nat option"
  cb_stream_chunk_size :: "nat option"
  cb_header_read_timeout :: "duration option"
  cb_tls_handshake_timeout :: "duration option"
  cb_connection_total_timeout :: "duration option"
  cb_handler_timeout :: "duration option"
  cb_body_read_timeout :: "duration option"
  cb_graceful_shutdown_timeout :: "duration option"
  cb_server_header :: "string option"
  cb_response_policy :: "response_policy option"
  cb_runtime_rejection_presenter :: "rejection_presenter option"
  cb_date_policy :: "date_policy option"
  cb_stripped_response_headers :: "(string list) option"
  cb_error_policy :: "error_representation_policy option"
  cb_max_request_body_bytes :: "u64 option"
  cb_max_buf_size :: "nat option"
  cb_max_headers :: "nat option"
  cb_max_header_bytes :: "nat option"
  cb_max_request_target_bytes :: "nat option"
  cb_max_in_flight_requests :: "nat option"
  cb_keep_alive_idle_timeout :: "duration option"
  cb_max_requests_per_connection :: "(u64 option) option"
  cb_response_write_timeout :: "duration option"
  cb_max_active_tunnels :: "nat option"
  cb_trusted_proxy :: "trusted_proxy_config option"

definition builder_new :: config_builder where
  [rust_eval]: "builder_new =
     \<lparr>cb_http1_request_target_mode = None,
      cb_policy_ownership = None,
      cb_admission_ownership = None,
      cb_bind = None,
      cb_max_connections = None,
      cb_max_file_streams = None,
      cb_stream_chunk_size = None,
      cb_header_read_timeout = None,
      cb_tls_handshake_timeout = None,
      cb_connection_total_timeout = None,
      cb_handler_timeout = None,
      cb_body_read_timeout = None,
      cb_graceful_shutdown_timeout = None,
      cb_server_header = None,
      cb_response_policy = None,
      cb_runtime_rejection_presenter = None,
      cb_date_policy = None,
      cb_stripped_response_headers = None,
      cb_error_policy = None,
      cb_max_request_body_bytes = None,
      cb_max_buf_size = None,
      cb_max_headers = None,
      cb_max_header_bytes = None,
      cb_max_request_target_bytes = None,
      cb_max_in_flight_requests = None,
      cb_keep_alive_idle_timeout = None,
      cb_max_requests_per_connection = None,
      cb_response_write_timeout = None,
      cb_max_active_tunnels = None,
      cb_trusted_proxy = None\<rparr>"

definition disable_connection_total_timeout :: "config_builder \<Rightarrow> config_builder" where
  [rust_eval]: "disable_connection_total_timeout b = b\<lparr>cb_connection_total_timeout := Some 0\<rparr>"

definition trusted_proxy_mut :: "(trusted_proxy_config \<Rightarrow> trusted_proxy_config) \<Rightarrow> config_builder \<Rightarrow> config_builder" where
  [rust_eval]: "trusted_proxy_mut f b =
     b\<lparr>cb_trusted_proxy := Some (f (unwrap_or trusted_proxy_default (cb_trusted_proxy b)))\<rparr>"

definition trusted_proxy_peer :: "ip_prefix \<Rightarrow> config_builder \<Rightarrow> config_builder" where
  [rust_eval]: "trusted_proxy_peer p = trusted_proxy_mut (\<lambda>c. c\<lparr>tp_peers := tp_peers c @ [p]\<rparr>)"

definition trust_unix_local :: "bool \<Rightarrow> config_builder \<Rightarrow> config_builder" where
  [rust_eval]: "trust_unix_local trust = trusted_proxy_mut (\<lambda>c. c\<lparr>tp_trust_unix := trust\<rparr>)"

definition proxy_protocol_enabled :: "bool \<Rightarrow> config_builder \<Rightarrow> config_builder" where
  [rust_eval]: "proxy_protocol_enabled enabled =
     trusted_proxy_mut (\<lambda>c. c\<lparr>tp_proxy_protocol := (tp_proxy_protocol c)\<lparr>pp_enabled := enabled\<rparr>\<rparr>)"

definition proxy_protocol_timeout :: "duration \<Rightarrow> config_builder \<Rightarrow> config_builder" where
  [rust_eval]: "proxy_protocol_timeout t =
     trusted_proxy_mut (\<lambda>c. c\<lparr>tp_proxy_protocol := (tp_proxy_protocol c)\<lparr>pp_timeout := t\<rparr>\<rparr>)"

definition forwarded_standard :: "bool \<Rightarrow> config_builder \<Rightarrow> config_builder" where
  [rust_eval]: "forwarded_standard enabled =
     trusted_proxy_mut (\<lambda>c. c\<lparr>tp_forwarded := (tp_forwarded c)\<lparr>fc_standard := enabled\<rparr>\<rparr>)"

definition forwarded_legacy :: "bool \<Rightarrow> config_builder \<Rightarrow> config_builder" where
  [rust_eval]: "forwarded_legacy enabled =
     trusted_proxy_mut (\<lambda>c. c\<lparr>tp_forwarded := (tp_forwarded c)\<lparr>fc_legacy := enabled\<rparr>\<rparr>)"

definition shared_of_builder :: "config_builder \<Rightarrow> shared_runtime_values" where
  [rust_eval]: "shared_of_builder b =
     \<lparr>sv_max_connections = unwrap_or DEFAULT_MAX_CONNECTIONS (cb_max_connections b),
      sv_max_file_streams = unwrap_or DEFAULT_MAX_FILE_STREAMS (cb_max_file_streams b),
      sv_max_request_body_bytes = unwrap_or DEFAULT_MAX_REQUEST_BODY_BYTES (cb_max_request_body_bytes b),
      sv_header_read_timeout = unwrap_or DEFAULT_HEADER_READ_TIMEOUT (cb_header_read_timeout b),
      sv_tls_handshake_timeout = unwrap_or DEFAULT_TLS_HANDSHAKE_TIMEOUT (cb_tls_handshake_timeout b),
      sv_connection_total_timeout = unwrap_or DEFAULT_CONNECTION_TOTAL_TIMEOUT (cb_connection_total_timeout b),
      sv_handler_timeout = unwrap_or DEFAULT_HANDLER_TIMEOUT (cb_handler_timeout b),
      sv_body_read_timeout = unwrap_or DEFAULT_BODY_READ_TIMEOUT (cb_body_read_timeout b),
      sv_graceful_shutdown_timeout = unwrap_or DEFAULT_GRACEFUL_SHUTDOWN_TIMEOUT (cb_graceful_shutdown_timeout b),
      sv_stream_chunk_size = unwrap_or DEFAULT_STREAM_CHUNK_SIZE (cb_stream_chunk_size b),
      sv_max_buf_size = unwrap_or DEFAULT_MAX_BUF_SIZE (cb_max_buf_size b),
      sv_max_headers = unwrap_or DEFAULT_MAX_HEADERS (cb_max_headers b),
      sv_max_header_bytes = unwrap_or DEFAULT_MAX_HEADER_BYTES (cb_max_header_bytes b),
      sv_max_request_target_bytes = unwrap_or DEFAULT_MAX_REQUEST_TARGET_BYTES (cb_max_request_target_bytes b),
      sv_max_in_flight_requests = unwrap_or DEFAULT_MAX_IN_FLIGHT_REQUESTS (cb_max_in_flight_requests b),
      sv_keep_alive_idle_timeout = unwrap_or DEFAULT_KEEP_ALIVE_IDLE_TIMEOUT (cb_keep_alive_idle_timeout b),
      sv_max_requests_per_connection = unwrap_or None (cb_max_requests_per_connection b),
      sv_response_write_timeout = unwrap_or DEFAULT_RESPONSE_WRITE_TIMEOUT (cb_response_write_timeout b),
      sv_max_active_tunnels = unwrap_or DEFAULT_MAX_ACTIVE_TUNNELS (cb_max_active_tunnels b)\<rparr>"

definition policy_of_builder :: "config_builder \<Rightarrow> response_policy" where
  [rust_eval]: "policy_of_builder b =
     (let p = unwrap_or response_policy_default (cb_response_policy b);
          p = (case cb_server_header b of Some h \<Rightarrow> p\<lparr>rp_server_identification := Some h\<rparr> | None \<Rightarrow> p);
          p = (case cb_date_policy b of Some d \<Rightarrow> p\<lparr>rp_date_policy := d\<rparr> | None \<Rightarrow> p);
          p = (case cb_stripped_response_headers b of Some s \<Rightarrow> p\<lparr>rp_stripped_response_headers := s\<rparr> | None \<Rightarrow> p)
      in (case cb_error_policy b of Some e \<Rightarrow> p\<lparr>rp_error_policy := e\<rparr> | None \<Rightarrow> p))"

definition config_build ::
  "nat \<Rightarrow> (trusted_proxy_config \<Rightarrow> string) \<Rightarrow> config_builder \<Rightarrow> server_error + runtime_config" where
  [rust_eval]: "config_build max_permits proxy_text b =
     (let shared = shared_of_builder b;
          policy = policy_of_builder b;
          proxy = unwrap_or trusted_proxy_default (cb_trusted_proxy b)
      in and_then (validate_parts max_permits proxy_text shared policy proxy) (\<lambda>_. Inr
           \<lparr>rc_http1_request_target_mode = unwrap_or OriginOnly (cb_http1_request_target_mode b),
            rc_policy_ownership = unwrap_or eggserve_owned (cb_policy_ownership b),
            rc_admission_ownership = unwrap_or admission_eggserve_owned (cb_admission_ownership b),
            rc_bind = unwrap_or default_bind (cb_bind b),
            rc_max_connections = sv_max_connections shared,
            rc_max_file_streams = sv_max_file_streams shared,
            rc_stream_chunk_size = sv_stream_chunk_size shared,
            rc_header_read_timeout = sv_header_read_timeout shared,
            rc_tls_handshake_timeout = sv_tls_handshake_timeout shared,
            rc_connection_total_timeout = sv_connection_total_timeout shared,
            rc_handler_timeout = sv_handler_timeout shared,
            rc_body_read_timeout = sv_body_read_timeout shared,
            rc_graceful_shutdown_timeout = sv_graceful_shutdown_timeout shared,
            rc_response_policy = policy,
            rc_runtime_rejection_presenter = cb_runtime_rejection_presenter b,
            rc_max_request_body_bytes = sv_max_request_body_bytes shared,
            rc_max_buf_size = sv_max_buf_size shared,
            rc_max_headers = sv_max_headers shared,
            rc_max_header_bytes = sv_max_header_bytes shared,
            rc_max_request_target_bytes = sv_max_request_target_bytes shared,
            rc_max_in_flight_requests = sv_max_in_flight_requests shared,
            rc_keep_alive_idle_timeout = sv_keep_alive_idle_timeout shared,
            rc_max_requests_per_connection = sv_max_requests_per_connection shared,
            rc_response_write_timeout = sv_response_write_timeout shared,
            rc_max_active_tunnels = sv_max_active_tunnels shared,
            rc_trusted_proxy = proxy\<rparr>))"

section \<open>What a validated policy promises\<close>

lemma validate_parts_Inr:
  assumes "validate_parts max_permits proxy_text shared policy proxy = Inr u"
  shows "shared_ok max_permits shared" "response_policy_validate policy = Inr ()" "trusted_proxy_validate proxy = Inr ()"
  using assms unfolding validate_parts_def Let_def
  by (auto simp: result_inv shared_validate_Nil split: if_splits)

lemma validate_stripped_names_Inr:
  "validate_stripped_names ns = Inr u \<Longrightarrow>
   list_all (\<lambda>n. header_name_new n = Inr (HeaderName n) \<and> \<not> List.member blocked_stripped_headers (to_ascii_lowercase n)) ns"
  by (induction ns) (auto simp: result_inv validate_stripped_header_name_def header_name_new_def split: if_splits)

definition response_policy_ok :: "response_policy \<Rightarrow> bool" where
  "response_policy_ok p \<longleftrightarrow>
     (\<forall>s. rp_server_identification p = Some s \<longrightarrow> list_all value_byte_ok s \<and> trim_ows s \<noteq> [])
     \<and> list_all (\<lambda>n. header_name_new n = Inr (HeaderName n)
          \<and> \<not> List.member blocked_stripped_headers (to_ascii_lowercase n)) (rp_stripped_response_headers p)"

lemma response_policy_validate_Inr:
  assumes "response_policy_validate p = Inr u"
  shows "response_policy_ok p"
  using assms unfolding response_policy_validate_def response_policy_ok_def
  by (auto simp: result_inv header_value_from_bytes_def validate_header_value_bytes_def
      dest: validate_stripped_names_Inr split: option.splits if_splits)

lemma trusted_proxy_validate_Inr:
  "trusted_proxy_validate c = Inr u \<Longrightarrow>
   0 < pp_timeout (tp_proxy_protocol c) \<and> pp_timeout (tp_proxy_protocol c) \<le> from_secs 60
   \<and> 256 \<le> fc_max_bytes (tp_forwarded c) \<and> fc_max_bytes (tp_forwarded c) \<le> 16384
   \<and> 1 \<le> fc_max_elements (tp_forwarded c) \<and> fc_max_elements (tp_forwarded c) \<le> 64"
  by (auto simp: trusted_proxy_validate_def proxy_protocol_validate_def forwarded_validate_def from_secs_def
      result_inv split: if_splits)

section \<open>Properties\<close>

text \<open>
  C25: A connection runs only under a policy within its bounds.  A configuration that was built or
  validated projects to a policy; the sizes and counts of the policy and those of its proxy configuration
  (the bytes and elements of a forwarding header, the wait for a PROXY preamble) are in the documented
  ranges, its deadlines are non-zero and the request deadlines not longer than an
  enabled lifetime; its server identification is a non-blank header value; its denylist never removes a
  framing, hop-by-hop or date field; and the runtime owns the header ceiling and the date and server
  fields.
\<close>

theorem projected_policy_bounded:
  assumes "config_build max_permits proxy_text b = Inr c \<or> config_validate max_permits proxy_text c = Inr ()"
  shows "\<exists>p. h1_connection_policy_of max_permits proxy_text c = Inr p
    \<and> MIN_STREAM_CHUNK_SIZE \<le> h1_stream_chunk_size p \<and> h1_stream_chunk_size p \<le> MAX_STREAM_CHUNK_SIZE
    \<and> h1_max_request_body_bytes p \<le> MAX_REQUEST_BODY_BYTES
    \<and> MIN_MAX_BUF_SIZE \<le> h1_max_buf_size p \<and> 0 < h1_max_headers p
    \<and> MIN_MAX_HEADER_BYTES \<le> h1_max_header_bytes p \<and> h1_max_header_bytes p \<le> MAX_MAX_HEADER_BYTES
    \<and> MIN_MAX_REQUEST_TARGET_BYTES \<le> h1_max_request_target_bytes p
    \<and> h1_max_request_target_bytes p \<le> MAX_MAX_REQUEST_TARGET_BYTES
    \<and> h1_max_requests_per_connection p \<noteq> Some 0
    \<and> list_all (\<lambda>d. 0 < d) [h1_header_read_timeout p, h1_handler_timeout p, h1_body_read_timeout p,
         h1_graceful_shutdown_timeout p, h1_keep_alive_idle_timeout p, h1_response_write_timeout p]
    \<and> list_all (\<lambda>d. h1_connection_total_timeout p = 0 \<or> d \<le> h1_connection_total_timeout p)
         [h1_header_read_timeout p, h1_handler_timeout p, h1_body_read_timeout p]
    \<and> 0 < pp_timeout (tp_proxy_protocol (h1_trusted_proxy p))
    \<and> pp_timeout (tp_proxy_protocol (h1_trusted_proxy p)) \<le> from_secs 60
    \<and> 256 \<le> fc_max_bytes (tp_forwarded (h1_trusted_proxy p))
    \<and> fc_max_bytes (tp_forwarded (h1_trusted_proxy p)) \<le> 16384
    \<and> 1 \<le> fc_max_elements (tp_forwarded (h1_trusted_proxy p))
    \<and> fc_max_elements (tp_forwarded (h1_trusted_proxy p)) \<le> 64
    \<and> response_policy_ok (h1_response_policy p)
    \<and> h1_request_header_bytes_owner p = EggServe \<and> h1_response_metadata_ownership p = metadata_eggserve_owned"
proof -
  have valid: "config_validate max_permits proxy_text c = Inr ()"
    using assms
    by (auto simp: config_build_def config_validate_def shared_of_config_def shared_of_builder_def Let_def result_inv)
  note parts = validate_parts_Inr [OF valid [unfolded config_validate_def]]
  show ?thesis
    using valid parts(1) response_policy_validate_Inr [OF parts(2)] trusted_proxy_validate_Inr [OF parts(3)]
    by (simp add: h1_connection_policy_of_def shared_ok_def shared_of_config_def)
qed

lemma default_config_builds:
  assumes "64 \<le> max_permits"
  shows "config_build max_permits proxy_text builder_new = Inr runtime_config_default"
proof -
  have "shared_of_builder builder_new = shared_default"
    by (simp add: shared_of_builder_def builder_new_def shared_default_def unwrap_or_def)
  moreover have "policy_of_builder builder_new = response_policy_default"
    by (simp add: policy_of_builder_def builder_new_def unwrap_or_def)
  moreover have "validate_parts max_permits proxy_text shared_default response_policy_default trusted_proxy_default = Inr ()"
    using shared_default_valid [OF assms]
    by (simp add: validate_parts_def response_policy_validate_def response_policy_default_def trusted_proxy_default_def
        trusted_proxy_validate_def proxy_protocol_validate_def forwarded_validate_def default_forwarded_config_def)
  ultimately show ?thesis
    by (simp add: config_build_def builder_new_def unwrap_or_def runtime_config_default_def shared_default_def)
qed

theorem projected_policy_bounded_witness:
  "\<exists>p. h1_connection_policy_of 64 (\<lambda>_. []) runtime_config_default = Inr p
     \<and> h1_stream_chunk_size p \<le> MAX_STREAM_CHUNK_SIZE \<and> 0 < h1_max_headers p"
  using projected_policy_bounded [of 64 "\<lambda>_. []" builder_new runtime_config_default] default_config_builds [of 64 "\<lambda>_. []"]
  by auto

end
