(* ===== verification/Hyper_Api.thy ===== *)
theory Hyper_Api
  imports Canonical_Response
begin

text \<open>
  What the runtime uses of the HTTP library to write responses.

  \<^verbatim>\<open>hyper::HeaderMap\<close>, \<^verbatim>\<open>HeaderName\<close> and \<^verbatim>\<open>HeaderValue\<close> are third-party code: their operations are
  the fields of the record \<open>hyper_api\<close>, an argument of every definition that uses them, over any type
  of maps.  The predicate \<open>hyper_laws\<close> states their documented behaviour: names are compared without
  regard to case and stored in lower case, \<^verbatim>\<open>append\<close> adds a value, \<^verbatim>\<open>insert\<close> replaces all values of
  a name, \<^verbatim>\<open>remove\<close> removes them all, and a value is the bytes it was made from.  The conversions of
  names and values accept at least what the crate's own header types accept, \<^verbatim>\<open>from_str\<close> at least
  printable ASCII, and a status is a number from 100 to 999.
\<close>

record 'h hyper_api =
  hm_new :: 'h
  hm_append :: "'h \<Rightarrow> string \<Rightarrow> bytes \<Rightarrow> 'h"
  hm_insert :: "'h \<Rightarrow> string \<Rightarrow> bytes \<Rightarrow> 'h"
  hm_remove :: "'h \<Rightarrow> string \<Rightarrow> 'h"
  hm_get_all :: "'h \<Rightarrow> string \<Rightarrow> bytes list"
  hm_get :: "'h \<Rightarrow> string \<Rightarrow> bytes option"
  hm_len :: "'h \<Rightarrow> nat"
  hn_from_bytes :: "bytes \<Rightarrow> string option"
  hv_from_bytes :: "bytes \<Rightarrow> bytes option"
  hv_from_str :: "string \<Rightarrow> bytes option"
  hs_from_u16 :: "nat \<Rightarrow> nat option"
  hv_to_str :: "bytes \<Rightarrow> string option"

definition printable_ascii :: "char \<Rightarrow> bool" where
  [rust_eval]: "printable_ascii c \<longleftrightarrow> 32 \<le> byte c \<and> byte c < 127"

definition hyper_laws :: "'h hyper_api \<Rightarrow> bool" where
  "hyper_laws hy \<longleftrightarrow>
     (\<forall>k. hm_get_all hy (hm_new hy) k = [])
     \<and> (\<forall>m n v k. hm_get_all hy (hm_append hy m n v) k =
          hm_get_all hy m k @ (if eq_ignore_ascii_case n k then [v] else []))
     \<and> (\<forall>m n v k. hm_get_all hy (hm_insert hy m n v) k =
          (if eq_ignore_ascii_case n k then [v] else hm_get_all hy m k))
     \<and> (\<forall>m n k. hm_get_all hy (hm_remove hy m n) k =
          (if eq_ignore_ascii_case n k then [] else hm_get_all hy m k))
     \<and> (\<forall>m k. hm_get hy m k = (case hm_get_all hy m k of [] \<Rightarrow> None | v # _ \<Rightarrow> Some v))
     \<and> hm_len hy (hm_new hy) = 0 \<and> (\<forall>m n v. hm_len hy (hm_append hy m n v) = hm_len hy m + 1)
     \<and> (\<forall>n k. hn_from_bytes hy n = Some k \<longrightarrow> k = to_ascii_lowercase n)
     \<and> (\<forall>n k. header_name_new n = Inr k \<longrightarrow> hn_from_bytes hy n \<noteq> None)
     \<and> (\<forall>v w. hv_from_bytes hy v = Some w \<longrightarrow> w = v)
     \<and> (\<forall>v. list_all value_byte_ok v \<longrightarrow> hv_from_bytes hy v \<noteq> None)
     \<and> (\<forall>v s. hv_to_str hy v = Some s \<longrightarrow> s = v)
     \<and> (\<forall>v. list_all printable_ascii v \<longrightarrow> hv_to_str hy v \<noteq> None)
     \<and> (\<forall>v w. hv_from_str hy v = Some w \<longrightarrow> w = v)
     \<and> (\<forall>v. list_all printable_ascii v \<longrightarrow> hv_from_str hy v \<noteq> None)
     \<and> (\<forall>n. hs_from_u16 hy n = (if 100 \<le> n \<and> n < 1000 then Some n else None))"

lemma hyper_reads:
  assumes "hyper_laws hy"
  shows "hm_get_all hy (hm_new hy) k = []"
    and "hm_get_all hy (hm_append hy m n v) k = hm_get_all hy m k @ (if eq_ignore_ascii_case n k then [v] else [])"
    and "hm_get_all hy (hm_insert hy m n v) k = (if eq_ignore_ascii_case n k then [v] else hm_get_all hy m k)"
    and "hm_get_all hy (hm_remove hy m n) k = (if eq_ignore_ascii_case n k then [] else hm_get_all hy m k)"
    and "hm_get hy m k = (case hm_get_all hy m k of [] \<Rightarrow> None | v # _ \<Rightarrow> Some v)"
    and "hm_len hy (hm_new hy) = 0" and "hm_len hy (hm_append hy m n v) = hm_len hy m + 1"
  using assms unfolding hyper_laws_def by auto

lemma hyper_conversions:
  assumes "hyper_laws hy"
  shows "hn_from_bytes hy n = Some k \<Longrightarrow> k = to_ascii_lowercase n"
    and "header_name_new n = Inr h \<Longrightarrow> hn_from_bytes hy n = Some (to_ascii_lowercase n)"
    and "hv_from_bytes hy v = Some w \<Longrightarrow> w = v"
    and "list_all value_byte_ok v \<Longrightarrow> hv_from_bytes hy v = Some v"
    and "hv_to_str hy v = Some s \<Longrightarrow> s = v"
    and "hv_from_str hy v = Some w \<Longrightarrow> w = v"
    and "list_all printable_ascii v \<Longrightarrow> hv_from_str hy v = Some v"
    and "list_all printable_ascii v \<Longrightarrow> hv_to_str hy v = Some v"
    and "hs_from_u16 hy n' = (if 100 \<le> n' \<and> n' < 1000 then Some n' else None)"
proof -
  show k: "hn_from_bytes hy n = Some k \<Longrightarrow> k = to_ascii_lowercase n" for k
    using assms unfolding hyper_laws_def by blast
  show w: "hv_from_bytes hy v = Some w \<Longrightarrow> w = v" for w
    using assms unfolding hyper_laws_def by blast
  show s: "hv_to_str hy v = Some s \<Longrightarrow> s = v" for s
    using assms unfolding hyper_laws_def by blast
  show "list_all printable_ascii v \<Longrightarrow> hv_to_str hy v = Some v"
    using assms s unfolding hyper_laws_def by (cases "hv_to_str hy v") auto
  show x: "hv_from_str hy v = Some w \<Longrightarrow> w = v" for w
    using assms unfolding hyper_laws_def by blast
  show "list_all printable_ascii v \<Longrightarrow> hv_from_str hy v = Some v"
    using assms x unfolding hyper_laws_def by (cases "hv_from_str hy v") auto
  show "hs_from_u16 hy n' = (if 100 \<le> n' \<and> n' < 1000 then Some n' else None)"
    using assms unfolding hyper_laws_def by blast
  show "header_name_new n = Inr h \<Longrightarrow> hn_from_bytes hy n = Some (to_ascii_lowercase n)"
    using assms k unfolding hyper_laws_def by (cases "hn_from_bytes hy n") auto
  show "list_all value_byte_ok v \<Longrightarrow> hv_from_bytes hy v = Some v"
    using assms w unfolding hyper_laws_def by (cases "hv_from_bytes hy v") auto
qed

section \<open>Field lists\<close>

text \<open>The conversion loop of the adapters: the fields of a header block are appended one by one.\<close>

fun append_fields :: "'h hyper_api \<Rightarrow> header_block \<Rightarrow> 'h \<Rightarrow> header_error + 'h" where
  "append_fields hy [] m = Inr m"
| "append_fields hy (f # fs) m =
     and_then (ok_or InvalidName (hn_from_bytes hy (name_str (hf_name f)))) (\<lambda>n.
     and_then (ok_or InvalidValue (hv_from_bytes hy (value_bytes (hf_value f)))) (\<lambda>v.
     append_fields hy fs (hm_append hy m n v)))"

definition values_of :: "header_block \<Rightarrow> string \<Rightarrow> bytes list" where
  [rust_eval]: "values_of b k =
     map (\<lambda>f. value_bytes (hf_value f)) (filter (\<lambda>f. eq_ignore_ascii_case (name_str (hf_name f)) k) b)"

lemma append_fields_Inr:
  assumes "hyper_laws hy"
  shows "append_fields hy fs m = Inr m' \<Longrightarrow> hm_get_all hy m' k = hm_get_all hy m k @ values_of fs k"
proof (induction fs arbitrary: m)
  case (Cons f fs)
  from Cons.prems obtain n v where n: "hn_from_bytes hy (name_str (hf_name f)) = Some n"
    and v: "hv_from_bytes hy (value_bytes (hf_value f)) = Some v"
    and r: "append_fields hy fs (hm_append hy m n v) = Inr m'"
    by (auto simp: result_inv)
  show ?case
    using Cons.IH [OF r] hyper_conversions(1) [OF assms n] hyper_conversions(3) [OF assms v]
    by (simp add: hyper_reads [OF assms] values_of_def)
qed (simp add: values_of_def)

text \<open>Validated blocks always convert.\<close>

lemma append_fields_total:
  assumes "hyper_laws hy"
  shows "block_wf b \<Longrightarrow> \<exists>m'. append_fields hy b m = Inr m'"
proof (induction b arbitrary: m)
  case (Cons f b)
  from Cons.prems have "block_wf b" and f: "field_wf f" by (simp_all add: block_wf_def)
  from f hyper_conversions(2) [OF assms, of "name_str (hf_name f)"]
    hyper_conversions(4) [OF assms, of "value_bytes (hf_value f)"]
  have "hn_from_bytes hy (name_str (hf_name f)) \<noteq> None" "hv_from_bytes hy (value_bytes (hf_value f)) \<noteq> None"
    by (auto simp: field_wf_def header_value_from_bytes_def validate_header_value_bytes_def result_inv split: if_splits)
  then show ?case using Cons.IH [OF \<open>block_wf b\<close>] by auto
qed simp

section \<open>A map of lists\<close>

text \<open>The laws have a model: a list of fields.\<close>

definition list_hyper :: "(string \<times> bytes) list hyper_api" where
  [rust_eval]: "list_hyper =
     \<lparr>hm_new = [],
      hm_append = (\<lambda>m n v. m @ [(n, v)]),
      hm_insert = (\<lambda>m n v. filter (\<lambda>f. \<not> eq_ignore_ascii_case n (fst f)) m @ [(n, v)]),
      hm_remove = (\<lambda>m n. filter (\<lambda>f. \<not> eq_ignore_ascii_case n (fst f)) m),
      hm_get_all = (\<lambda>m k. map snd (filter (\<lambda>f. eq_ignore_ascii_case (fst f) k) m)),
      hm_get = (\<lambda>m k. case map snd (filter (\<lambda>f. eq_ignore_ascii_case (fst f) k) m) of [] \<Rightarrow> None | v # _ \<Rightarrow> Some v),
      hm_len = length,
      hn_from_bytes = (\<lambda>n. case header_name_new n of Inr _ \<Rightarrow> Some (to_ascii_lowercase n) | Inl _ \<Rightarrow> None),
      hv_from_bytes = (\<lambda>v. if list_all value_byte_ok v then Some v else None),
      hv_from_str = (\<lambda>v. if list_all value_byte_ok v then Some v else None),
      hs_from_u16 = (\<lambda>n. if 100 \<le> n \<and> n < 1000 then Some n else None),
      hv_to_str = (\<lambda>v. if list_all (\<lambda>c. printable_ascii c \<or> byte c = 9) v then Some v else None)\<rparr>"

lemma filter_other_names:
  "filter (\<lambda>f. \<not> eq_ignore_ascii_case n (fst f) \<and> eq_ignore_ascii_case (fst f) k) m =
     (if eq_ignore_ascii_case n k then [] else filter (\<lambda>f. eq_ignore_ascii_case (fst f) k) m)"
  by (induction m) (auto simp: eq_ignore_ascii_case_def)

lemma printable_value:
  "list_all printable_ascii v \<Longrightarrow> list_all value_byte_ok v"
  "list_all printable_ascii v \<Longrightarrow> list_all (\<lambda>c. printable_ascii c \<or> byte c = 9) v"
  by (auto simp: list_all_iff printable_ascii_def value_byte_ok_def)

lemma list_hyper_laws: "hyper_laws list_hyper"
  unfolding hyper_laws_def list_hyper_def hyper_api.simps
  by (intro conjI allI)
    (auto simp: filter_other_names dest: printable_value split: sum.splits if_splits)

end
