(* ===== verification/Stream_Adapter.thy ===== *)
theory Stream_Adapter
  imports Hyper_Api Ops
begin

text \<open>
  Streamed response bodies on their way to the transport: \<^verbatim>\<open>ResponseStreamAdapter\<close> of
  \<^verbatim>\<open>eggserve-server/src/adapters.rs\<close>.

  A producer is the list of what its successive polls give; the empty list has ended.  The trailer
  future is the number of polls it stays pending and its outcome.  One poll of the adapter is
  \<open>poll_next\<close>; the flag of \<open>FPending\<close> says that the adapter has woken its task itself.
\<close>

section \<open>The stream adapter\<close>

datatype producer_poll = ProducerPending | ProducerPanics | ProducerYields "string + bytes"

datatype trailer_outcome = TrailersPanic | TrailersReady "string + trailers option"

datatype 'h frame_poll = FPending bool | FEnd | FData bytes | FTrailers 'h | FError string

record stream_adapter =
  sa_inner :: "producer_poll list option"
  sa_trailers :: "(nat \<times> trailer_outcome) option"
  sa_declared :: "u64 option"
  sa_declaration :: "trailer_declaration option"
  sa_emitted :: u64
  sa_chunk_size :: nat
  sa_pending_split :: "bytes option"
  sa_finished :: bool
  sa_ops :: "ops_context option"

text \<open>
  The polls and the trailer outcome stand for the producer and the future inside the stream \<open>s\<close>.
\<close>

definition adapter_new ::
  "producer_poll list \<Rightarrow> nat \<times> trailer_outcome \<Rightarrow> response_stream \<Rightarrow> nat \<Rightarrow> ops_context option \<Rightarrow> stream_adapter" where
  [rust_eval]: "adapter_new polls trailer s chunk_size ops =
     \<lparr>sa_inner = Some polls,
      sa_trailers = (if stream_has_trailers s then Some trailer else None),
      sa_declared = rst_known_length s, sa_declaration = rst_declaration s,
      sa_emitted = 0, sa_chunk_size = max chunk_size 1, sa_pending_split = None, sa_finished = False,
      sa_ops = ops\<rparr>"

definition resolve_ops :: "ops_context option \<Rightarrow> ops_world \<Rightarrow> ops_context \<times> ops_world" where
  [rust_eval]: "resolve_ops ops w = (case ops of Some ctx \<Rightarrow> (ctx, w) | None \<Rightarrow> ops_global w)"

definition fail_length_mismatch ::
  "custom_sinks \<Rightarrow> stream_adapter \<Rightarrow> u64 \<Rightarrow> ops_world \<Rightarrow> 'h frame_poll \<times> stream_adapter \<times> ops_world" where
  [rust_eval]: "fail_length_mismatch cs a emitted w =
     (let (ctx, w) = resolve_ops (sa_ops a) w;
          w = ops_count ctx (oc_stream_length_mismatches_update (\<lambda>n. n + 1)) w;
          (ev, w) = event_now Warn ResponseStreamLengthMismatch
                      ''streaming response length mismatch; closing connection'' w;
          ev = event_field (FU64 ''emitted_bytes'' emitted)
                 (event_field (FU64 ''declared_bytes'' (case sa_declared a of Some d \<Rightarrow> d | None \<Rightarrow> 0)) ev)
      in (FError ''response stream length mismatch'', a\<lparr>sa_finished := True\<rparr>, ops_emit cs ctx ev w))"

definition fail_producer ::
  "custom_sinks \<Rightarrow> stream_adapter \<Rightarrow> ops_world \<Rightarrow> 'h frame_poll \<times> stream_adapter \<times> ops_world" where
  [rust_eval]: "fail_producer cs a w =
     (let (ctx, w) = resolve_ops (sa_ops a) w;
          w = ops_count ctx (oc_stream_producer_errors_update (\<lambda>n. n + 1)) w;
          w = ops_emit_lazy cs ctx Warn (event_now Warn ResponseStreamProducerError
                ''streaming response producer failed; closing connection'') w
      in (FError ''response stream failed'', a\<lparr>sa_finished := True\<rparr>, w))"

definition fail_panic ::
  "custom_sinks \<Rightarrow> stream_adapter \<Rightarrow> ops_world \<Rightarrow> 'h frame_poll \<times> stream_adapter \<times> ops_world" where
  [rust_eval]: "fail_panic cs a w =
     (let (ctx, w) = resolve_ops (sa_ops a) w;
          w = ops_count ctx (oc_stream_producer_panics_update (\<lambda>n. n + 1)) w;
          w = ops_emit_lazy cs ctx Error (event_now Error ResponseStreamProducerPanic
                ''streaming response producer panicked; closing connection'') w
      in (FError ''response stream failed'', a\<lparr>sa_finished := True\<rparr>, w))"

definition complete_ok ::
  "custom_sinks \<Rightarrow> stream_adapter \<Rightarrow> ops_world \<Rightarrow> 'h frame_poll \<times> stream_adapter \<times> ops_world" where
  [rust_eval]: "complete_ok cs a w =
     (let (ctx, w) = resolve_ops (sa_ops a) w;
          w = ops_count ctx (oc_streaming_completed_update (\<lambda>n. n + 1)) w;
          w = ops_emit_lazy cs ctx Debug (event_now Debug ResponseStreamCompleted
                ''streaming response completed'') w
      in (FEnd, a\<lparr>sa_finished := True\<rparr>, w))"

fun next_split_piece :: "stream_adapter \<Rightarrow> bytes option \<times> stream_adapter" where
  "next_split_piece a =
     (case sa_pending_split a of
        None \<Rightarrow> (None, a)
      | Some pending \<Rightarrow>
          if length pending \<le> sa_chunk_size a then (Some pending, a\<lparr>sa_pending_split := None\<rparr>)
          else (Some (take (sa_chunk_size a) pending),
                a\<lparr>sa_pending_split := Some (drop (sa_chunk_size a) pending)\<rparr>))"

definition over_declared :: "stream_adapter \<Rightarrow> u64 \<Rightarrow> bool" where
  [rust_eval]: "over_declared a emitted \<longleftrightarrow> (case sa_declared a of Some d \<Rightarrow> emitted > d | None \<Rightarrow> False)"

definition poll_split ::
  "custom_sinks \<Rightarrow> stream_adapter \<Rightarrow> ops_world \<Rightarrow> 'h frame_poll \<times> stream_adapter \<times> ops_world" where
  [rust_eval]: "poll_split cs a w =
     (let (piece, a) = next_split_piece a;
          piece = the piece;
          emitted = saturating_add (sa_emitted a) (of_nat (length piece))
      in if over_declared a emitted then fail_length_mismatch cs a emitted w
         else (FData piece, a\<lparr>sa_emitted := emitted\<rparr>, w))"

text \<open>The loop over the producer; \<open>None\<close> falls through to the trailers.\<close>

fun poll_body ::
  "custom_sinks \<Rightarrow> nat \<Rightarrow> producer_poll list \<Rightarrow> stream_adapter \<Rightarrow> ops_world
   \<Rightarrow> 'h frame_poll option \<times> stream_adapter \<times> ops_world" where
  "poll_body cs empty_runs [] a w =
     (if (case sa_declared a of Some d \<Rightarrow> sa_emitted a \<noteq> d | None \<Rightarrow> False)
      then apfst Some (fail_length_mismatch cs (a\<lparr>sa_inner := Some []\<rparr>) (sa_emitted a) w)
      else (None, a\<lparr>sa_inner := None\<rparr>, w))"
| "poll_body cs empty_runs (ProducerPending # ps) a w = (Some (FPending False), a\<lparr>sa_inner := Some ps\<rparr>, w)"
| "poll_body cs empty_runs (ProducerPanics # ps) a w = apfst Some (fail_panic cs (a\<lparr>sa_inner := Some ps\<rparr>) w)"
| "poll_body cs empty_runs (ProducerYields (Inl e) # ps) a w = apfst Some (fail_producer cs (a\<lparr>sa_inner := Some ps\<rparr>) w)"
| "poll_body cs empty_runs (ProducerYields (Inr chunk) # ps) a w =
     (if chunk = [] then
        (if empty_runs + 1 > 32 then (Some (FPending True), a\<lparr>sa_inner := Some ps\<rparr>, w)
         else poll_body cs (empty_runs + 1) ps a w)
      else
        let a = a\<lparr>sa_inner := Some ps\<rparr>;
            (chunk, a) = (if length chunk > sa_chunk_size a
                          then (take (sa_chunk_size a) chunk,
                                a\<lparr>sa_pending_split := Some (drop (sa_chunk_size a) chunk)\<rparr>)
                          else (chunk, a));
            emitted = saturating_add (sa_emitted a) (of_nat (length chunk))
        in if over_declared a emitted
           then apfst Some (fail_length_mismatch cs (a\<lparr>sa_pending_split := None\<rparr>) emitted w)
           else (Some (FData chunk), a\<lparr>sa_emitted := emitted\<rparr>, w))"

definition trailers_to_header_map :: "'h hyper_api \<Rightarrow> trailers \<Rightarrow> unit + 'h" where
  [rust_eval]: "trailers_to_header_map hy t = map_err (\<lambda>_. ()) (append_fields hy (as_block t) (hm_new hy))"

definition undeclared_trailer :: "trailer_declaration option \<Rightarrow> trailers \<Rightarrow> bool" where
  [rust_eval]: "undeclared_trailer declaration t \<longleftrightarrow>
     (case declaration of
        Some d \<Rightarrow> list_ex (\<lambda>f. \<not> declaration_contains d (name_str (hf_name f))) (as_block t)
      | None \<Rightarrow> False)"

definition poll_trailers ::
  "custom_sinks \<Rightarrow> 'h hyper_api \<Rightarrow> stream_adapter \<Rightarrow> ops_world \<Rightarrow> 'h frame_poll \<times> stream_adapter \<times> ops_world" where
  [rust_eval]: "poll_trailers cs hy a w =
     (case sa_trailers a of
        None \<Rightarrow> complete_ok cs a w
      | Some (Suc k, outcome) \<Rightarrow> (FPending False, a\<lparr>sa_trailers := Some (k, outcome)\<rparr>, w)
      | Some (0, TrailersPanic) \<Rightarrow> fail_panic cs a w
      | Some (0, TrailersReady (Inl e)) \<Rightarrow> fail_producer cs a w
      | Some (0, TrailersReady (Inr None)) \<Rightarrow> complete_ok cs (a\<lparr>sa_trailers := None\<rparr>) w
      | Some (0, TrailersReady (Inr (Some t))) \<Rightarrow>
          if undeclared_trailer (sa_declaration a) t then
            (let (ctx, w) = resolve_ops (sa_ops a) w;
                 (ev, w) = event_now Warn ResponseStreamProducerError
                             ''response trailer outside declared set; closing connection'' w
             in fail_producer cs a (ops_emit cs ctx ev w))
          else case trailers_to_header_map hy t of
            Inr m \<Rightarrow> (FTrailers m, a\<lparr>sa_trailers := None, sa_pending_split := None\<rparr>, w)
          | Inl _ \<Rightarrow> fail_producer cs a w)"

definition poll_next ::
  "custom_sinks \<Rightarrow> 'h hyper_api \<Rightarrow> stream_adapter \<Rightarrow> ops_world \<Rightarrow> 'h frame_poll \<times> stream_adapter \<times> ops_world" where
  [rust_eval]: "poll_next cs hy a w =
     (if sa_pending_split a \<noteq> None then poll_split cs a w
      else if sa_finished a then (FEnd, a, w)
      else case sa_inner a of
        Some polls \<Rightarrow>
          (case poll_body cs 0 polls a w of
             (Some r, a, w) \<Rightarrow> (r, a, w)
           | (None, a, w) \<Rightarrow> poll_trailers cs hy a w)
      | None \<Rightarrow> poll_trailers cs hy a w)"

definition adapter_drop :: "custom_sinks \<Rightarrow> stream_adapter \<Rightarrow> ops_world \<Rightarrow> ops_world" where
  [rust_eval]: "adapter_drop cs a w =
     (if sa_finished a then w
      else
        let (ctx, w) = resolve_ops (sa_ops a) w;
            w = ops_count ctx (oc_stream_cancelled_update (\<lambda>n. n + 1)) w
        in ops_emit_lazy cs ctx Debug (event_now Debug ResponseStreamCancelled ''streaming response cancelled'') w)"

definition stream_body ::
  "custom_sinks \<Rightarrow> producer_poll list \<Rightarrow> nat \<times> trailer_outcome \<Rightarrow> response_stream \<Rightarrow> nat \<Rightarrow> ops_context option
   \<Rightarrow> ops_world \<Rightarrow> stream_adapter \<times> ops_world" where
  [rust_eval]: "stream_body cs polls trailer s stream_chunk_size ops w =
     (let (ctx, w) = resolve_ops ops w;
          w = ops_count ctx (oc_streaming_started_update (\<lambda>n. n + 1)) w;
          w = ops_emit_lazy cs ctx Debug (event_now Debug ResponseStreamStarted ''streaming response started'') w
      in (adapter_new polls trailer s stream_chunk_size ops, w))"

text \<open>The transport polls until the end or an error, at most \<open>n\<close> times.\<close>

fun ends_body_poll :: "'h frame_poll \<Rightarrow> bool" where
  "ends_body_poll FEnd = True"
| "ends_body_poll (FError _) = True"
| "ends_body_poll _ = False"

fun drive_body ::
  "nat \<Rightarrow> custom_sinks \<Rightarrow> 'h hyper_api \<Rightarrow> stream_adapter \<Rightarrow> ops_world \<Rightarrow> 'h frame_poll list \<times> stream_adapter \<times> ops_world" where
  "drive_body 0 cs hy a w = ([], a, w)"
| "drive_body (Suc n) cs hy a w =
     (let (r, a, w) = poll_next cs hy a w in
      if ends_body_poll r then ([r], a, w)
      else let (rs, a, w) = drive_body n cs hy a w in (r # rs, a, w))"

section \<open>What a producer stands for\<close>

text \<open>The bytes a producer yields before it fails, and whether it never fails.\<close>

fun produced :: "producer_poll list \<Rightarrow> bytes" where
  "produced [] = []"
| "produced (ProducerPending # ps) = produced ps"
| "produced (ProducerPanics # ps) = []"
| "produced (ProducerYields (Inl e) # ps) = []"
| "produced (ProducerYields (Inr chunk) # ps) = chunk @ produced ps"

fun clean_producer :: "producer_poll list \<Rightarrow> bool" where
  "clean_producer [] = True"
| "clean_producer (ProducerPending # ps) = clean_producer ps"
| "clean_producer (ProducerPanics # ps) = False"
| "clean_producer (ProducerYields (Inl e) # ps) = False"
| "clean_producer (ProducerYields (Inr chunk) # ps) = clean_producer ps"

fun frame_bytes :: "'h frame_poll list \<Rightarrow> bytes" where
  "frame_bytes [] = []"
| "frame_bytes (FData p # fs) = p @ frame_bytes fs"
| "frame_bytes (_ # fs) = frame_bytes fs"

definition bytes_left :: "stream_adapter \<Rightarrow> bytes" where
  "bytes_left a = (case sa_pending_split a of Some p \<Rightarrow> p | None \<Rightarrow> [])
     @ (case sa_inner a of Some ps \<Rightarrow> produced ps | None \<Rightarrow> [])"

definition clean_left :: "stream_adapter \<Rightarrow> bool" where
  "clean_left a = (case sa_inner a of Some ps \<Rightarrow> clean_producer ps | None \<Rightarrow> True)"

text \<open>The adapter between two polls, with \<open>n\<close> bytes sent so far.\<close>

definition adapter_ok :: "nat \<Rightarrow> stream_adapter \<Rightarrow> bool" where
  "adapter_ok n a \<longleftrightarrow> \<not> sa_finished a \<and> 1 \<le> sa_chunk_size a \<and> sa_chunk_size a \<le> usize_max
     \<and> sa_pending_split a \<noteq> Some [] \<and> (sa_inner a = None \<longrightarrow> sa_pending_split a = None)
     \<and> unat (sa_emitted a) = min n usize_max
     \<and> (\<forall>d. sa_declared a = Some d \<longrightarrow> sa_emitted a \<le> d)
     \<and> (sa_inner a = None \<longrightarrow> (\<forall>d. sa_declared a = Some d \<longrightarrow> sa_emitted a = d))"

lemma emitted_advances:
  assumes "unat e = min n usize_max" and "k \<le> usize_max"
  shows "unat (saturating_add e (of_nat k :: u64)) = min (n + k) usize_max"
proof -
  have k: "unat (of_nat k :: u64) = k"
    using assms(2) by (simp add: unat_of_nat usize_max_def)
  show ?thesis
  proof (cases "unat e + k < 2 ^ 64")
    case True
    then have "unat (e + of_nat k) = unat e + k" by (simp add: unat_word_ariths k)
    then show ?thesis using True assms by (simp add: saturating_add_def k usize_max_def min_def split: if_splits)
  next
    case False
    moreover have "unat (- 1 :: u64) = usize_max" by (simp add: usize_max_def unsigned_minus_1_eq_mask mask_eq_exp_minus_1)
    ultimately show ?thesis using assms
      by (simp add: saturating_add_def k usize_max_def min_def split: if_splits)
  qed
qed

lemma over_declared_keeps [simp]:
  "over_declared (a\<lparr>sa_inner := i\<rparr>) = over_declared a"
  "over_declared (a\<lparr>sa_pending_split := s\<rparr>) = over_declared a"
  by (simp_all add: over_declared_def fun_eq_iff)

text \<open>What one poll may do; the failures only stop the adapter.\<close>

definition trailers_sent :: "'h hyper_api \<Rightarrow> stream_adapter \<Rightarrow> 'h \<Rightarrow> bool" where
  "trailers_sent hy a m \<longleftrightarrow>
     (\<exists>t. map_option snd (sa_trailers a) = Some (TrailersReady (Inr (Some t)))
        \<and> \<not> undeclared_trailer (sa_declaration a) t \<and> trailers_to_header_map hy t = Inr m)"

definition poll_ok :: "'h hyper_api \<Rightarrow> nat \<Rightarrow> stream_adapter \<Rightarrow> 'h frame_poll \<Rightarrow> stream_adapter \<Rightarrow> bool" where
  "poll_ok hy n a r a' \<longleftrightarrow>
     sa_chunk_size a' = sa_chunk_size a \<and> sa_declared a' = sa_declared a \<and> sa_declaration a' = sa_declaration a
     \<and> sa_ops a' = sa_ops a
     \<and> (case r of
          FData p \<Rightarrow> p \<noteq> [] \<and> length p \<le> sa_chunk_size a \<and> bytes_left a = p @ bytes_left a'
            \<and> clean_left a' = clean_left a \<and> adapter_ok (n + length p) a' \<and> sa_trailers a' = sa_trailers a
        | FPending _ \<Rightarrow> bytes_left a' = bytes_left a \<and> clean_left a' = clean_left a \<and> adapter_ok n a'
            \<and> map_option snd (sa_trailers a') = map_option snd (sa_trailers a)
        | FEnd \<Rightarrow> bytes_left a = [] \<and> clean_left a \<and> (\<forall>d. sa_declared a = Some d \<longrightarrow> sa_emitted a = d) \<and> sa_finished a'
        | FTrailers m \<Rightarrow> trailers_sent hy a m \<and> bytes_left a = [] \<and> bytes_left a' = [] \<and> clean_left a \<and> clean_left a' \<and> sa_inner a' = None
            \<and> sa_trailers a' = None \<and> adapter_ok n a'
        | FError _ \<Rightarrow> sa_finished a')"

lemmas adapter_failures = fail_length_mismatch_def fail_producer_def fail_panic_def complete_ok_def

lemma failure_poll_ok:
  "fail_length_mismatch cs b e w = (r, a', w') \<Longrightarrow> r = FError ''response stream length mismatch'' \<and> a' = b\<lparr>sa_finished := True\<rparr>"
  "fail_producer cs b w = (r, a', w') \<Longrightarrow> r = FError ''response stream failed'' \<and> a' = b\<lparr>sa_finished := True\<rparr>"
  "fail_panic cs b w = (r, a', w') \<Longrightarrow> r = FError ''response stream failed'' \<and> a' = b\<lparr>sa_finished := True\<rparr>"
  "complete_ok cs b w = (r, a', w') \<Longrightarrow> r = FEnd \<and> a' = b\<lparr>sa_finished := True\<rparr>"
  by (auto simp: adapter_failures Let_def split: prod.splits)

lemma poll_split_ok:
  assumes "adapter_ok n a" and "sa_pending_split a = Some p" and "poll_split cs a w = (r, a', w')"
  shows "poll_ok hy n a r a'"
proof -
  let ?k = "min (length p) (sa_chunk_size a)"
  let ?e = "saturating_add (sa_emitted a) (of_nat ?k)"
  let ?rest = "if length p \<le> sa_chunk_size a then None else Some (drop (sa_chunk_size a) p)"
  let ?b = "a\<lparr>sa_pending_split := ?rest\<rparr>"
  have p: "p \<noteq> []" "sa_inner a \<noteq> None" and c: "1 \<le> sa_chunk_size a" "sa_chunk_size a \<le> usize_max"
    using assms(1,2) by (auto simp: adapter_ok_def)
  have e: "unat ?e = min (n + ?k) usize_max"
    using assms(1) c by (intro emitted_advances) (auto simp: adapter_ok_def)
  have split: "next_split_piece a = (Some (take (sa_chunk_size a) p), ?b)"
    using assms(2) by auto
  show ?thesis
  proof (cases "over_declared a ?e")
    case True
    then have "fail_length_mismatch cs ?b ?e w = (r, a', w')"
      using assms(3) by (simp add: poll_split_def split min.commute del: next_split_piece.simps)
    from failure_poll_ok(1) [OF this] show ?thesis by (simp add: poll_ok_def)
  next
    case False
    then have r: "r = FData (take (sa_chunk_size a) p)" "a' = ?b\<lparr>sa_emitted := ?e\<rparr>"
      using assms(3) by (simp_all add: poll_split_def split min.commute del: next_split_piece.simps)
    have "adapter_ok (n + ?k) a'"
      using assms(1) e False c p unfolding r
      by (auto simp: adapter_ok_def over_declared_def not_less split: option.splits)
    then show ?thesis using r p c assms(2)
      by (auto simp: poll_ok_def bytes_left_def clean_left_def min.commute)
  qed
qed

lemma poll_body_ok:
  assumes "poll_body cs k ps a w = (r, a', w')" and "adapter_ok n a" and "sa_inner a = Some qs"
    and "sa_pending_split a = None" and "produced ps = produced qs" and "clean_producer ps = clean_producer qs"
  shows "case r of
     Some r \<Rightarrow> poll_ok hy n a r a' \<and> r \<noteq> FEnd \<and> (\<forall>m. r \<noteq> FTrailers m)
   | None \<Rightarrow> a' = a\<lparr>sa_inner := None\<rparr> \<and> bytes_left a = [] \<and> clean_left a \<and> adapter_ok n a'"
  using assms
proof (induction cs k ps a w rule: poll_body.induct)
  case (1 cs k a w)
  show ?case
  proof (cases "case sa_declared a of Some d \<Rightarrow> sa_emitted a \<noteq> d | None \<Rightarrow> False")
    case True
    then obtain r' where "fail_length_mismatch cs (a\<lparr>sa_inner := Some []\<rparr>) (sa_emitted a) w = (r', a', w')" "r = Some r'"
      using "1.prems"(1) by (auto simp: apfst_def map_prod_def split: prod.splits)
    from failure_poll_ok(1) [OF this(1)] this(2) show ?thesis by (simp add: poll_ok_def)
  next
    case False
    then have "r = None" "a' = a\<lparr>sa_inner := None\<rparr>" using "1.prems"(1) by auto
    then show ?thesis using "1.prems" False
      by (auto simp: bytes_left_def clean_left_def adapter_ok_def split: option.splits)
  qed
next
  case (2 cs k ps a w)
  then have "r = Some (FPending False)" "a' = a\<lparr>sa_inner := Some ps\<rparr>" by auto
  then show ?case using "2.prems"
    by (simp add: poll_ok_def bytes_left_def clean_left_def adapter_ok_def)
next
  case (3 cs k ps a w)
  then obtain r' where "fail_panic cs (a\<lparr>sa_inner := Some ps\<rparr>) w = (r', a', w')" "r = Some r'"
    by (auto simp: apfst_def map_prod_def split: prod.splits)
  from failure_poll_ok(3) [OF this(1)] this(2) show ?case by (simp add: poll_ok_def)
next
  case (4 cs k e ps a w)
  then obtain r' where "fail_producer cs (a\<lparr>sa_inner := Some ps\<rparr>) w = (r', a', w')" "r = Some r'"
    by (auto simp: apfst_def map_prod_def split: prod.splits)
  from failure_poll_ok(2) [OF this(1)] this(2) show ?case by (simp add: poll_ok_def)
next
  case (5 cs k chunk ps a w)
  show ?case
  proof (cases "chunk = []")
    case True
    show ?thesis
    proof (cases "k + 1 > 32")
      case True
      with \<open>chunk = []\<close> have "r = Some (FPending True)" "a' = a\<lparr>sa_inner := Some ps\<rparr>" using "5.prems"(1) by auto
      then show ?thesis using "5.prems" \<open>chunk = []\<close>
        by (simp add: poll_ok_def bytes_left_def clean_left_def adapter_ok_def)
    next
      case False
      then show ?thesis using "5.IH" [OF \<open>chunk = []\<close> False] "5.prems" \<open>chunk = []\<close> by simp
    qed
  next
    case False
    let ?c = "sa_chunk_size a"
    let ?rest = "if length chunk > ?c then Some (drop ?c chunk) else None"
    let ?e = "saturating_add (sa_emitted a) (of_nat (min (length chunk) ?c))"
    let ?b = "a\<lparr>sa_inner := Some ps, sa_pending_split := ?rest\<rparr>"
    have c: "1 \<le> ?c" "?c \<le> usize_max" using "5.prems"(2) by (auto simp: adapter_ok_def)
    have e: "unat ?e = min (n + min (length chunk) ?c) usize_max"
      using "5.prems"(2) c by (intro emitted_advances) (auto simp: adapter_ok_def)
    have step: "poll_body cs k (ProducerYields (Inr chunk) # ps) a w =
        (if over_declared a ?e then apfst Some (fail_length_mismatch cs (?b\<lparr>sa_pending_split := None\<rparr>) ?e w)
         else (Some (FData (take ?c chunk)), ?b\<lparr>sa_emitted := ?e\<rparr>, w))"
    proof (cases "length chunk > ?c")
      case True
      then show ?thesis using False by (simp add: Let_def min_def)
    next
      case small: False
      then show ?thesis using False "5.prems"(4) by (simp add: Let_def min_def)
    qed
    show ?thesis
    proof (cases "over_declared a ?e")
      case True
      with "5.prems"(1) obtain r' where "fail_length_mismatch cs (?b\<lparr>sa_pending_split := None\<rparr>) ?e w = (r', a', w')" "r = Some r'"
        unfolding step by (auto simp: apfst_def map_prod_def split: prod.splits)
      from failure_poll_ok(1) [OF this(1)] this(2) show ?thesis by (simp add: poll_ok_def)
    next
      case no: False
      then have r: "r = Some (FData (take ?c chunk))" "a' = ?b\<lparr>sa_emitted := ?e\<rparr>"
        using "5.prems"(1) unfolding step by simp_all
      have "adapter_ok (n + min (length chunk) ?c) a'"
        using "5.prems"(2,3) e no c unfolding r
        by (auto simp: adapter_ok_def over_declared_def not_less split: option.splits)
      moreover have "bytes_left a = chunk @ produced ps"
        using "5.prems"(3-5) by (simp add: bytes_left_def)
      then have "bytes_left a = take ?c chunk @ bytes_left a'"
        using r by (simp add: bytes_left_def flip: append_assoc)
      moreover have "clean_left a' = clean_left a" using r "5.prems"(3,6) by (simp add: clean_left_def)
      ultimately show ?thesis using r False c by (simp add: poll_ok_def min.commute)
    qed
  qed
qed

lemma poll_trailers_ok:
  assumes "poll_trailers cs hy a w = (r, a', w')" and "adapter_ok n a" and "sa_inner a = None"
  shows "poll_ok hy n a r a'"
proof -
  have left: "bytes_left a = []" "clean_left a" using assms(2,3) by (auto simp: bytes_left_def clean_left_def adapter_ok_def)
  show ?thesis
    using assms left unfolding poll_trailers_def
    by (auto simp: poll_ok_def trailers_sent_def adapter_ok_def bytes_left_def clean_left_def Let_def dest!: failure_poll_ok
        split: option.splits prod.splits nat.splits trailer_outcome.splits sum.splits if_splits)
qed

text \<open>Every poll of a running adapter is of one of these forms.\<close>

lemma poll_next_ok:
  fixes hy :: "'h hyper_api"
  assumes "poll_next cs hy a w = (r, a', w')" and "adapter_ok n a"
  shows "poll_ok hy n a r a'"
proof (cases "sa_pending_split a")
  case (Some p)
  then show ?thesis using poll_split_ok [OF assms(2) Some] assms(1) by (simp add: poll_next_def)
next
  case None
  have f: "\<not> sa_finished a" using assms(2) by (simp add: adapter_ok_def)
  show ?thesis
  proof (cases "sa_inner a")
    case inner: None
    then show ?thesis using poll_trailers_ok [OF _ assms(2) inner] assms(1) None f by (simp add: poll_next_def)
  next
    case (Some ps)
    obtain o1 :: "'h frame_poll option" and b u where body: "poll_body cs 0 ps a w = (o1, b, u)"
      by (metis prod_cases3)
    note ok = poll_body_ok [OF body assms(2) Some None refl refl]
    show ?thesis
    proof (cases o1)
      case (Some q)
      then show ?thesis using ok body assms(1) None f \<open>sa_inner a = Some ps\<close> by (simp add: poll_next_def)
    next
      case o: None
      with ok have b: "b = a\<lparr>sa_inner := None\<rparr>" "bytes_left a = []" "clean_left a" "adapter_ok n b" by auto
      have "poll_trailers cs hy b u = (r, a', w')"
        using body assms(1) None f \<open>sa_inner a = Some ps\<close> o by (simp add: poll_next_def)
      from poll_trailers_ok [OF this b(4)] b have "poll_ok hy n b r a'" by simp
      then show ?thesis using b None unfolding poll_ok_def
        by (cases r) (auto simp: trailers_sent_def bytes_left_def clean_left_def adapter_ok_def)
    qed
  qed
qed

section \<open>Driving the adapter\<close>

fun piece_ok :: "nat \<Rightarrow> 'h frame_poll \<Rightarrow> bool" where
  "piece_ok c (FData p) \<longleftrightarrow> p \<noteq> [] \<and> length p \<le> c"
| "piece_ok c _ = True"

definition within_declared :: "u64 option \<Rightarrow> nat \<Rightarrow> bool" where
  [rust_eval]: "within_declared declared n \<longleftrightarrow> (case declared of Some d \<Rightarrow> unat d < usize_max \<longrightarrow> n \<le> unat d | None \<Rightarrow> True)"

definition meets_declared :: "u64 option \<Rightarrow> nat \<Rightarrow> bool" where
  [rust_eval]: "meets_declared declared n \<longleftrightarrow> (case declared of Some d \<Rightarrow> unat d < usize_max \<longrightarrow> n = unat d | None \<Rightarrow> True)"

lemma adapter_ok_declared:
  "adapter_ok n a \<Longrightarrow> within_declared (sa_declared a) n"
  "adapter_ok n a \<Longrightarrow> (\<And>d. sa_declared a = Some d \<Longrightarrow> sa_emitted a = d) \<Longrightarrow> meets_declared (sa_declared a) n"
  by (auto simp: adapter_ok_def within_declared_def meets_declared_def word_le_nat_alt min_def split: option.splits if_splits)

lemma drive_body_ok:
  assumes "drive_body k cs hy a w = (fs, a', w')" and "adapter_ok n a"
  shows "prefix (frame_bytes fs) (bytes_left a) \<and> list_all (piece_ok (sa_chunk_size a)) fs
    \<and> within_declared (sa_declared a) (n + length (frame_bytes fs))
    \<and> (FEnd \<in> set fs \<longrightarrow> frame_bytes fs = bytes_left a \<and> clean_left a
         \<and> meets_declared (sa_declared a) (n + length (frame_bytes fs)))
    \<and> (\<forall>m. FTrailers m \<in> set fs \<longrightarrow> trailers_sent hy a m \<and> frame_bytes fs = bytes_left a \<and> clean_left a)"
  using assms
proof (induction k arbitrary: n a w fs)
  case 0
  then show ?case using adapter_ok_declared(1) by auto
next
  case (Suc k)
  obtain r b u where poll: "poll_next cs hy a w = (r, b, u)" by (metis prod_cases3)
  have ok: "poll_ok hy n a r b" using poll_next_ok [OF poll Suc.prems(2)] .
  note within = adapter_ok_declared(1) [OF Suc.prems(2)]
  show ?case
  proof (cases "ends_body_poll r")
    case True
    then have fs: "fs = [r]" using Suc.prems(1) poll by simp
    show ?thesis
    proof (cases r)
      case FEnd
      then show ?thesis using ok fs within adapter_ok_declared(2) [OF Suc.prems(2)] by (simp add: poll_ok_def)
    qed (use True fs within in auto)
  next
    case False
    obtain rs where rest: "drive_body k cs hy b u = (rs, a', w')" and fs: "fs = r # rs"
      using Suc.prems(1) poll False by (auto split: prod.splits)
    have keeps: "sa_chunk_size b = sa_chunk_size a" "sa_declared b = sa_declared a" "sa_declaration b = sa_declaration a"
      using ok by (simp_all add: poll_ok_def)
    show ?thesis
    proof (cases r)
      case (FPending c)
      then show ?thesis using ok fs keeps Suc.IH [OF rest, of n] by (auto simp: poll_ok_def trailers_sent_def)
    next
      case (FData p)
      then show ?thesis using ok fs keeps Suc.IH [OF rest, of "n + length p"]
        by (auto simp: poll_ok_def trailers_sent_def add.assoc)
    next
      case (FTrailers m)
      then show ?thesis using ok fs keeps Suc.IH [OF rest, of n] by (auto simp: poll_ok_def trailers_sent_def)
    qed (use False in auto)
  qed
qed

text \<open>The work left; every poll that does not end the body does some of it.\<close>

fun poll_work :: "producer_poll list \<Rightarrow> nat" where
  "poll_work [] = 0"
| "poll_work (ProducerYields (Inr chunk) # ps) = Suc (length chunk) + poll_work ps"
| "poll_work (_ # ps) = Suc (poll_work ps)"

definition body_work :: "stream_adapter \<Rightarrow> nat" where
  "body_work a = (case sa_pending_split a of Some p \<Rightarrow> length p | None \<Rightarrow> 0)
     + (case sa_inner a of Some ps \<Rightarrow> poll_work ps | None \<Rightarrow> 0)
     + (case sa_trailers a of Some (k, _) \<Rightarrow> Suc k | None \<Rightarrow> 0)"

lemma poll_body_work:
  assumes "poll_body cs k ps a w = (r, a', w')" and "1 \<le> sa_chunk_size a" and "sa_pending_split a = None"
  shows "sa_trailers a' = sa_trailers a
    \<and> (case r of None \<Rightarrow> sa_pending_split a' = None
       | Some r \<Rightarrow> ends_body_poll r \<or> (\<exists>qs. sa_inner a' = Some qs
           \<and> (case sa_pending_split a' of Some p \<Rightarrow> length p | None \<Rightarrow> 0) + poll_work qs < poll_work ps))"
  using assms
proof (induction cs k ps a w rule: poll_body.induct)
  case (5 cs k chunk ps a w)
  then show ?case
    by (cases "chunk = []"; cases "k + 1 > 32")
      (auto simp: Let_def apfst_def map_prod_def dest!: failure_poll_ok split: if_splits prod.splits option.splits)
qed (auto simp: apfst_def map_prod_def dest!: failure_poll_ok split: if_splits prod.splits)

lemma poll_trailers_work:
  assumes "poll_trailers cs hy a w = (r, a', w')"
  shows "ends_body_poll r \<or> (sa_inner a' = sa_inner a \<and> (sa_pending_split a' = sa_pending_split a \<or> sa_pending_split a' = None)
    \<and> (case sa_trailers a' of Some (k, _) \<Rightarrow> Suc k | None \<Rightarrow> 0) < (case sa_trailers a of Some (k, _) \<Rightarrow> Suc k | None \<Rightarrow> 0))"
  using assms unfolding poll_trailers_def
  by (auto simp: Let_def dest!: failure_poll_ok
      split: option.splits prod.splits nat.splits trailer_outcome.splits sum.splits if_splits)

lemma poll_next_work:
  assumes "poll_next cs hy a w = (r, a', w')" and "adapter_ok n a" and "\<not> ends_body_poll r"
  shows "body_work a' < body_work a"
proof (cases "sa_pending_split a")
  case (Some p)
  then have "poll_split cs a w = (r, a', w')" using assms(1) by (simp add: poll_next_def)
  then show ?thesis using Some assms(2,3)
    by (auto simp: poll_split_def body_work_def adapter_ok_def Let_def dest!: failure_poll_ok split: if_splits)
next
  case None
  have c: "1 \<le> sa_chunk_size a" and f: "\<not> sa_finished a" using assms(2) by (auto simp: adapter_ok_def)
  show ?thesis
  proof (cases "sa_inner a")
    case inner: None
    then show ?thesis using poll_trailers_work [of cs hy a w r a' w'] assms(1,3) None f
      by (auto simp: poll_next_def body_work_def)
  next
    case (Some ps)
    obtain o1 b u where body: "poll_body cs 0 ps a w = (o1, b, u)" and
      r: "case o1 of Some q \<Rightarrow> (r, a', w') = (q, b, u) | None \<Rightarrow> poll_trailers cs hy b u = (r, a', w')"
      using assms(1) None f Some by (auto simp: poll_next_def split: prod.splits option.splits)
    note work = poll_body_work [OF body c None]
    show ?thesis
    proof (cases o1)
      case q: (Some q)
      then show ?thesis using work r assms(3) None Some by (auto simp: body_work_def split: option.splits)
    next
      case q: None
      then show ?thesis using work r assms(3) None Some poll_trailers_work [of cs hy b u r a' w']
          poll_body_ok [OF body assms(2) Some None refl refl]
        by (auto simp: body_work_def split: option.splits)
    qed
  qed
qed

lemma drive_body_ends:
  "adapter_ok n a \<Longrightarrow> body_work a < k \<Longrightarrow> drive_body k cs hy a w = (fs, a', w') \<Longrightarrow> fs \<noteq> [] \<and> ends_body_poll (last fs)"
proof (induction k arbitrary: n a w fs)
  case (Suc k)
  obtain r b u where poll: "poll_next cs hy a w = (r, b, u)" by (metis prod_cases3)
  show ?case
  proof (cases "ends_body_poll r")
    case True
    then show ?thesis using Suc.prems(3) poll by auto
  next
    case False
    obtain rs where rest: "drive_body k cs hy b u = (rs, a', w')" and fs: "fs = r # rs"
      using Suc.prems(3) poll False by (auto split: prod.splits)
    have "\<exists>m. adapter_ok m b"
      using poll_next_ok [OF poll Suc.prems(1)] False by (cases r) (auto simp: poll_ok_def)
    then obtain m where "adapter_ok m b" ..
    moreover have "body_work b < k" using poll_next_work [OF poll Suc.prems(1) False] Suc.prems(2) by simp
    ultimately show ?thesis using Suc.IH [OF _ _ rest] fs by simp
  qed
qed simp

lemma adapter_new_ok:
  "chunk_size \<le> usize_max \<Longrightarrow> adapter_ok 0 (adapter_new polls trailer s chunk_size ops)"
  by (simp add: adapter_ok_def adapter_new_def usize_max_def)

lemma adapter_new_left:
  "bytes_left (adapter_new polls trailer s chunk_size ops) = produced polls"
  "clean_left (adapter_new polls trailer s chunk_size ops) = clean_producer polls"
  "sa_chunk_size (adapter_new polls trailer s chunk_size ops) = max chunk_size 1"
  "sa_declared (adapter_new polls trailer s chunk_size ops) = rst_known_length s"
  by (simp_all add: adapter_new_def bytes_left_def clean_left_def)

section \<open>Accounting\<close>

text \<open>Emitting only touches the count of dropped events.\<close>

definition stream_counts :: "ops_context \<Rightarrow> ops_world \<Rightarrow> u64 list" where
  [rust_eval]: "stream_counts ctx w =
     (let c = ow_counters w (ctx_id ctx)
      in [oc_streaming_started c, oc_streaming_completed c, oc_stream_length_mismatches c,
          oc_stream_producer_errors c, oc_stream_producer_panics c, oc_stream_cancelled c])"

lemma stream_counts_emit [simp]: "stream_counts ctx (ops_emit cs ctx' ev w) = stream_counts ctx w"
  using ops_emit_counters [of cs ctx' ev w "ctx_id ctx"] by (auto simp: stream_counts_def Let_def)

lemma stream_counts_now [simp]: "stream_counts ctx (snd (event_now sev k m w)) = stream_counts ctx w"
  by (simp add: event_now_def stream_counts_def)

lemma stream_counts_dropped: "stream_counts ctx (count_dropped (Some i) w) = stream_counts ctx w"
  by (simp add: count_dropped_def with_counters_def stream_counts_def Let_def)

lemma stream_counts_emit_lazy [simp]:
  "stream_counts ctx (ops_emit_lazy cs ctx' sev (event_now sev' k m) w) = stream_counts ctx w"
  using stream_counts_now [of ctx sev' k m w]
  by (auto simp: ops_emit_lazy_def stream_counts_dropped case_prod_beta split: option.splits bool.splits)

definition stream_ended :: "u64 list \<Rightarrow> u64" where
  [rust_eval]: "stream_ended c = sum_list (tl c)"

lemma failure_counts:
  assumes "sa_ops a = Some ctx"
  shows "stream_counts ctx (snd (snd (fail_length_mismatch cs a e w))) = (stream_counts ctx w)[2 := stream_counts ctx w ! 2 + 1]"
    and "stream_counts ctx (snd (snd (fail_producer cs a w))) = (stream_counts ctx w)[3 := stream_counts ctx w ! 3 + 1]"
    and "stream_counts ctx (snd (snd (fail_panic cs a w))) = (stream_counts ctx w)[4 := stream_counts ctx w ! 4 + 1]"
    and "stream_counts ctx (snd (snd (complete_ok cs a w))) = (stream_counts ctx w)[1 := stream_counts ctx w ! 1 + 1]"
  using assms
  by (auto simp: adapter_failures resolve_ops_def Let_def case_prod_beta)
    (auto simp: ops_count_def with_counters_def stream_counts_def Let_def)

text \<open>A poll counts exactly one end when it ends the body, and nothing otherwise.\<close>

definition counts_advance :: "'h frame_poll \<Rightarrow> u64 list \<Rightarrow> u64 list \<Rightarrow> bool" where
  "counts_advance r c c' \<longleftrightarrow>
     length c' = length c \<and> c' ! 0 = c ! 0 \<and> c' ! 1 = c ! 1 + (if r = FEnd then 1 else 0)
     \<and> stream_ended c' = stream_ended c + (if ends_body_poll r then 1 else 0)"

lemma counts_advance_same: "\<not> ends_body_poll r \<Longrightarrow> counts_advance r c c"
  by (cases r) (auto simp: counts_advance_def)

lemma length_stream_counts [simp]: "length (stream_counts ctx w) = 6"
  by (simp add: stream_counts_def Let_def)

lemma counts_advance_failures:
  assumes "length c = 6"
  shows "counts_advance (FError e) c (c[2 := c ! 2 + 1])" "counts_advance (FError e) c (c[3 := c ! 3 + 1])"
    "counts_advance (FError e) c (c[4 := c ! 4 + 1])" "counts_advance FEnd c (c[1 := c ! 1 + 1])"
proof -
  from assms obtain s a b d f g where c: "c = [s, a, b, d, f, g]"
    by (auto simp: length_Suc_conv numeral_eq_Suc)
  show "counts_advance (FError e) c (c[2 := c ! 2 + 1])" "counts_advance (FError e) c (c[3 := c ! 3 + 1])"
    "counts_advance (FError e) c (c[4 := c ! 4 + 1])" "counts_advance FEnd c (c[1 := c ! 1 + 1])"
    unfolding c by (simp_all add: counts_advance_def stream_ended_def numeral_eq_Suc)
qed

lemma failure_advances:
  "fail_length_mismatch cs b e w = (r, a', w') \<Longrightarrow>
     ends_body_poll r \<and> a' = b\<lparr>sa_finished := True\<rparr>
     \<and> (sa_ops b = Some ctx \<longrightarrow> counts_advance r (stream_counts ctx w) (stream_counts ctx w'))"
  "fail_producer cs b w = (r, a', w') \<Longrightarrow>
     ends_body_poll r \<and> a' = b\<lparr>sa_finished := True\<rparr>
     \<and> (sa_ops b = Some ctx \<longrightarrow> counts_advance r (stream_counts ctx w) (stream_counts ctx w'))"
  "fail_panic cs b w = (r, a', w') \<Longrightarrow>
     ends_body_poll r \<and> a' = b\<lparr>sa_finished := True\<rparr>
     \<and> (sa_ops b = Some ctx \<longrightarrow> counts_advance r (stream_counts ctx w) (stream_counts ctx w'))"
  "complete_ok cs b w = (r, a', w') \<Longrightarrow>
     ends_body_poll r \<and> a' = b\<lparr>sa_finished := True\<rparr>
     \<and> (sa_ops b = Some ctx \<longrightarrow> counts_advance r (stream_counts ctx w) (stream_counts ctx w'))"
proof -
  note adv = counts_advance_failures [OF length_stream_counts [of ctx w]]
  show "fail_length_mismatch cs b e w = (r, a', w') \<Longrightarrow>
     ends_body_poll r \<and> a' = b\<lparr>sa_finished := True\<rparr>
     \<and> (sa_ops b = Some ctx \<longrightarrow> counts_advance r (stream_counts ctx w) (stream_counts ctx w'))"
    using failure_poll_ok(1) [of cs b e w r a' w'] failure_counts(1) [of b ctx cs e w] adv(1)
    by (metis ends_body_poll.simps(2) snd_conv)
  show "fail_producer cs b w = (r, a', w') \<Longrightarrow>
     ends_body_poll r \<and> a' = b\<lparr>sa_finished := True\<rparr>
     \<and> (sa_ops b = Some ctx \<longrightarrow> counts_advance r (stream_counts ctx w) (stream_counts ctx w'))"
    using failure_poll_ok(2) [of cs b w r a' w'] failure_counts(2) [of b ctx cs w] adv(2)
    by (metis ends_body_poll.simps(2) snd_conv)
  show "fail_panic cs b w = (r, a', w') \<Longrightarrow>
     ends_body_poll r \<and> a' = b\<lparr>sa_finished := True\<rparr>
     \<and> (sa_ops b = Some ctx \<longrightarrow> counts_advance r (stream_counts ctx w) (stream_counts ctx w'))"
    using failure_poll_ok(3) [of cs b w r a' w'] failure_counts(3) [of b ctx cs w] adv(3)
    by (metis ends_body_poll.simps(2) snd_conv)
  show "complete_ok cs b w = (r, a', w') \<Longrightarrow>
     ends_body_poll r \<and> a' = b\<lparr>sa_finished := True\<rparr>
     \<and> (sa_ops b = Some ctx \<longrightarrow> counts_advance r (stream_counts ctx w) (stream_counts ctx w'))"
    using failure_poll_ok(4) [of cs b w r a' w'] failure_counts(4) [of b ctx cs w] adv(4)
    by (metis ends_body_poll.simps(1) snd_conv)
qed

lemma poll_body_counts:
  "poll_body cs k ps a w = (r, a', w') \<Longrightarrow> sa_ops a = Some ctx \<Longrightarrow>
   sa_ops a' = Some ctx \<and> (case r of
     Some r \<Rightarrow> counts_advance r (stream_counts ctx w) (stream_counts ctx w') \<and> sa_finished a' = (ends_body_poll r \<or> sa_finished a)
   | None \<Rightarrow> w' = w \<and> sa_finished a' = sa_finished a)"
proof (induction cs k ps a w rule: poll_body.induct)
  case (5 cs k chunk ps a w)
  show ?case
  proof (cases "chunk = [] \<and> \<not> k + 1 > 32")
    case True
    then show ?thesis using 5 by simp
  next
    case False
    then show ?thesis using "5.prems"
      by (auto simp: Let_def apfst_def map_prod_def counts_advance_same
          dest!: failure_advances [where ctx = ctx] split: if_splits prod.splits)
  qed
qed (auto simp: apfst_def map_prod_def counts_advance_same dest!: failure_advances [where ctx = ctx]
     split: if_splits prod.splits)

lemma poll_trailers_counts:
  assumes "poll_trailers cs hy a w = (r, a', w')" and "sa_ops a = Some ctx"
  shows "sa_ops a' = Some ctx \<and> counts_advance r (stream_counts ctx w) (stream_counts ctx w')
    \<and> sa_finished a' = (ends_body_poll r \<or> sa_finished a)"
  using assms unfolding poll_trailers_def
  by (auto simp: counts_advance_same resolve_ops_def Let_def case_prod_beta dest!: failure_advances [where ctx = ctx]
      split: option.splits prod.splits nat.splits trailer_outcome.splits sum.splits if_splits)

lemma poll_next_counts:
  assumes "poll_next cs hy a w = (r, a', w')" and "sa_ops a = Some ctx" and "\<not> sa_finished a"
  shows "sa_ops a' = Some ctx \<and> counts_advance r (stream_counts ctx w) (stream_counts ctx w')
    \<and> sa_finished a' = ends_body_poll r"
proof (cases "sa_pending_split a")
  case (Some p)
  then have "poll_split cs a w = (r, a', w')" using assms(1) by (simp add: poll_next_def)
  then show ?thesis using Some assms(2,3)
    by (auto simp: poll_split_def Let_def counts_advance_same dest!: failure_advances [where ctx = ctx] split: if_splits)
next
  case None
  show ?thesis
  proof (cases "sa_inner a")
    case inner: None
    then show ?thesis using poll_trailers_counts [of cs hy a w r a' w'] assms None by (simp add: poll_next_def)
  next
    case (Some ps)
    obtain o1 b u where body: "poll_body cs 0 ps a w = (o1, b, u)" and
      r: "case o1 of Some q \<Rightarrow> (r, a', w') = (q, b, u) | None \<Rightarrow> poll_trailers cs hy b u = (r, a', w')"
      using assms(1,3) None Some by (auto simp: poll_next_def split: prod.splits option.splits)
    from poll_body_counts [OF body assms(2)] r assms(3) poll_trailers_counts [of cs hy b u r a' w' ctx]
    show ?thesis by (cases o1) auto
  qed
qed

lemma drive_body_counts:
  assumes "drive_body k cs hy a w = (fs, a', w')" and "sa_ops a = Some ctx" and "\<not> sa_finished a"
  shows "stream_counts ctx w' ! 0 = stream_counts ctx w ! 0
    \<and> stream_counts ctx w' ! 1 = stream_counts ctx w ! 1 + (if FEnd \<in> set fs then 1 else 0)
    \<and> stream_ended (stream_counts ctx w') = stream_ended (stream_counts ctx w) + (if sa_finished a' then 1 else 0)
    \<and> sa_ops a' = Some ctx \<and> sa_finished a' = list_ex ends_body_poll fs"
  using assms
proof (induction k arbitrary: a w fs)
  case (Suc k)
  obtain r b u where poll: "poll_next cs hy a w = (r, b, u)" by (metis prod_cases3)
  note step = poll_next_counts [OF poll Suc.prems(2,3)]
  show ?case
  proof (cases "ends_body_poll r")
    case True
    then show ?thesis using Suc.prems(1) poll step by (auto simp: counts_advance_def)
  next
    case False
    obtain rs where rest: "drive_body k cs hy b u = (rs, a', w')" and fs: "fs = r # rs"
      using Suc.prems(1) poll False by (auto split: prod.splits)
    from False have "r \<noteq> FEnd" by auto
    then show ?thesis using Suc.IH [OF rest] step False fs by (auto simp: counts_advance_def)
  qed
qed simp

section \<open>Properties\<close>

text \<open>
  C15: The bytes that reach the transport are those of the producer: at every moment a prefix of what
  it yielded, in frames that are not empty and not longer than the chunk size, and never more than the
  declared length.  The body ends without error only when the producer ended without error, every
  byte was sent and the declared length was met; and trailers are sent only then, converted from the
  producer's block, which lies within the declared set.
\<close>

theorem stream_body_exact:
  assumes "chunk_size \<le> usize_max"
    and "drive_body n cs hy (adapter_new polls trailer s chunk_size ops) w = (fs, a, w')"
  shows "prefix (frame_bytes fs) (produced polls)
    \<and> list_all (piece_ok (max chunk_size 1)) fs
    \<and> within_declared (rst_known_length s) (length (frame_bytes fs))
    \<and> (FEnd \<in> set fs \<longrightarrow> frame_bytes fs = produced polls \<and> clean_producer polls
         \<and> meets_declared (rst_known_length s) (length (frame_bytes fs)))
    \<and> (\<forall>m. FTrailers m \<in> set fs \<longrightarrow> frame_bytes fs = produced polls \<and> clean_producer polls
         \<and> (\<exists>t. snd trailer = TrailersReady (Inr (Some t)) \<and> \<not> undeclared_trailer (rst_declaration s) t
              \<and> trailers_to_header_map hy t = Inr m))"
  using drive_body_ok [OF assms(2) adapter_new_ok [OF assms(1)]]
  unfolding adapter_new_left add_0 trailers_sent_def
  by (auto simp: adapter_new_def split: if_splits)

definition sample_stream :: response_stream where
  [rust_eval]: "sample_stream = stream_with_known_length [] 5"

definition sample_polls :: "producer_poll list" where
  [rust_eval]: "sample_polls =
     [ProducerYields (Inr ''ab''), ProducerPending, ProducerYields (Inr []), ProducerYields (Inr ''cde'')]"

definition quiet_sinks :: custom_sinks where
  [rust_eval]: "quiet_sinks = \<lparr>custom_panics = (\<lambda>_ _. False), custom_enabled = (\<lambda>_ _. Some False)\<rparr>"

definition quiet_context :: ops_context where
  [rust_eval]: "quiet_context = \<lparr>ctx_sink = NopLogSink, ctx_id = 1\<rparr>"

lemmas drive_body_numeral = drive_body.simps(2) [of "pred_numeral k" for k, folded numeral_eq_Suc]

lemma sample_drive:
  "\<exists>a w'. drive_body 6 quiet_sinks list_hyper
       (adapter_new sample_polls (0, TrailersPanic) sample_stream 2 (Some quiet_context)) w =
     ([FData ''ab'', FPending False, FData ''cd'', FData ''e'', FEnd], a, w')"
  by (simp add: rust_eval drive_body_numeral Let_def)

theorem stream_body_exact_witness:
  "\<exists>fs a w'. drive_body 6 quiet_sinks list_hyper
       (adapter_new sample_polls (0, TrailersPanic) sample_stream 2 (Some quiet_context)) (ops_world_new True (\<lambda>_. None)) =
     (fs, a, w') \<and> FEnd \<in> set fs \<and> frame_bytes fs = ''abcde''"
proof -
  obtain a w' where d: "drive_body 6 quiet_sinks list_hyper
       (adapter_new sample_polls (0, TrailersPanic) sample_stream 2 (Some quiet_context)) (ops_world_new True (\<lambda>_. None)) =
     ([FData ''ab'', FPending False, FData ''cd'', FData ''e'', FEnd], a, w')"
    using sample_drive by blast
  have c: "(2::nat) \<le> usize_max" by (simp add: usize_max_def)
  from stream_body_exact [OF c d] d show ?thesis by (simp add: sample_polls_def)
qed

text \<open>
  C20: A polled body ends: within a number of polls fixed by what the producer yields and how long its
  trailers take, the adapter reports its end or an error.
\<close>

theorem stream_body_ends:
  assumes "chunk_size \<le> usize_max"
    and "drive_body (poll_work polls + fst trailer + 2) cs hy (adapter_new polls trailer s chunk_size ops) w = (fs, a, w')"
  shows "fs \<noteq> [] \<and> ends_body_poll (last fs)"
proof -
  have "body_work (adapter_new polls trailer s chunk_size ops) < poll_work polls + fst trailer + 2"
    by (cases trailer) (simp add: body_work_def adapter_new_def)
  from drive_body_ends [OF adapter_new_ok [OF assms(1)] this assms(2)] show ?thesis .
qed

theorem stream_body_ends_witness:
  "\<exists>fs a w'. drive_body 11 quiet_sinks list_hyper
       (adapter_new sample_polls (0, TrailersPanic) sample_stream 2 (Some quiet_context)) (ops_world_new True (\<lambda>_. None)) =
     (fs, a, w') \<and> ends_body_poll (last fs)"
proof -
  have n: "(11::nat) = poll_work sample_polls + fst (0::nat, TrailersPanic) + 2" by (simp add: sample_polls_def)
  obtain fs a w' where d: "drive_body 11 quiet_sinks list_hyper
       (adapter_new sample_polls (0, TrailersPanic) sample_stream 2 (Some quiet_context)) (ops_world_new True (\<lambda>_. None)) = (fs, a, w')"
    by (metis prod_cases3)
  have c: "(2::nat) \<le> usize_max" by (simp add: usize_max_def)
  from stream_body_ends [OF c d [unfolded n]] d show ?thesis by blast
qed

text \<open>
  Every streamed response is accounted for exactly once: one start, and when the transport has
  polled it to its end or an error, or dropped it, one of completed, length mismatch, producer error,
  producer panic and cancelled, and completed exactly when the end was reported.
\<close>

lemma stream_accounted_once:
  "let (a0, w0) = stream_body cs polls trailer s chunk_size (Some ctx) w;
       (fs, a, w1) = drive_body n cs hy a0 w0;
       w2 = adapter_drop cs a w1;
       c = ow_counters w (ctx_id ctx); c' = ow_counters w2 (ctx_id ctx)
   in oc_streaming_started c' = oc_streaming_started c + 1
      \<and> oc_streaming_completed c' = oc_streaming_completed c + (if FEnd \<in> set fs then 1 else 0)
      \<and> oc_streaming_completed c' + oc_stream_length_mismatches c' + oc_stream_producer_errors c'
          + oc_stream_producer_panics c' + oc_stream_cancelled c'
        = oc_streaming_completed c + oc_stream_length_mismatches c + oc_stream_producer_errors c
          + oc_stream_producer_panics c + oc_stream_cancelled c + 1"
proof -
  obtain a0 w0 where start: "stream_body cs polls trailer s chunk_size (Some ctx) w = (a0, w0)" by fastforce
  obtain fs a w1 where drive: "drive_body n cs hy a0 w0 = (fs, a, w1)" by (metis prod_cases3)
  have a0: "a0 = adapter_new polls trailer s chunk_size (Some ctx)"
    and w0: "stream_counts ctx w0 = (stream_counts ctx w)[0 := stream_counts ctx w ! 0 + 1]"
    using start by (auto simp: stream_body_def resolve_ops_def Let_def)
      (simp add: ops_count_def with_counters_def stream_counts_def Let_def)
  have "sa_ops a0 = Some ctx" "\<not> sa_finished a0" by (simp_all add: a0 adapter_new_def)
  note counts = drive_body_counts [OF drive this]
  have dropped: "stream_counts ctx (adapter_drop cs a w1) =
      (if sa_finished a then stream_counts ctx w1 else (stream_counts ctx w1)[5 := stream_counts ctx w1 ! 5 + 1])"
    using counts by (auto simp: adapter_drop_def resolve_ops_def Let_def)
      (simp add: ops_count_def with_counters_def stream_counts_def Let_def)
  show ?thesis
    unfolding start drive Let_def prod.case
    using counts dropped w0
    by (auto simp: stream_counts_def stream_ended_def Let_def add.assoc split: if_splits)
qed

text \<open>
  After a length mismatch found in the middle of a split chunk the rest of the chunk is kept, so another
  poll yields data again: here the ninth byte follows the fourth.
\<close>

lemma data_after_mismatch:
  defines "a0 \<equiv> adapter_new [ProducerYields (Inr ''abcdefghi'')] (0, TrailersPanic) sample_stream 4 (Some quiet_context)"
  shows "\<exists>a1 a2 a3 w2. poll_next quiet_sinks list_hyper a0 w = (FData ''abcd'', a1, w)
    \<and> poll_next quiet_sinks list_hyper a1 w = (FError ''response stream length mismatch'', a2, w2)
    \<and> poll_next quiet_sinks list_hyper a2 w2 = (FData ''i'', a3, w2)"
proof -
  let ?a1 = "a0\<lparr>sa_inner := Some [], sa_pending_split := Some ''efghi'', sa_emitted := 4\<rparr>"
  let ?a2 = "?a1\<lparr>sa_pending_split := Some ''i'', sa_finished := True\<rparr>"
  let ?a3 = "?a2\<lparr>sa_pending_split := None, sa_emitted := 5\<rparr>"
  have "poll_next quiet_sinks list_hyper a0 w = (FData ''abcd'', ?a1, w)"
    by (simp add: a0_def adapter_new_def poll_next_def sample_stream_def stream_with_known_length_def stream_new_def
        stream_has_trailers_def over_declared_def saturating_add_def Let_def)
  moreover have "\<exists>w2. poll_next quiet_sinks list_hyper ?a1 w = (FError ''response stream length mismatch'', ?a2, w2)"
    by (simp add: a0_def adapter_new_def poll_next_def poll_split_def sample_stream_def stream_with_known_length_def
        stream_new_def over_declared_def saturating_add_def fail_length_mismatch_def case_prod_beta Let_def)
  moreover have "poll_next quiet_sinks list_hyper ?a2 w2 = (FData ''i'', ?a3, w2)" for w2
    by (simp add: a0_def adapter_new_def poll_next_def poll_split_def sample_stream_def stream_with_known_length_def
        stream_new_def over_declared_def saturating_add_def Let_def)
  ultimately show ?thesis by metis
qed

end
