(* ===== verification/File_Stream.thy ===== *)
theory File_Stream
  imports Body_Source
begin

text \<open>
  File bodies on their way to the transport: \<^verbatim>\<open>file_body\<close> and \<^verbatim>\<open>read_file_chunk\<close> of
  \<^verbatim>\<open>eggserve-server/src/adapters.rs\<close>.

  A file is read through \<open>file_os\<close>, what the system calls give at each attempt: it may change, shrink
  or fail at any time.
\<close>

section \<open>The file stream\<close>

text \<open>
  What the system gives: the seek, and for each read its number, the position of the descriptor and
  the limit.  The descriptor belongs to the stream alone.
\<close>

record file_os =
  fo_seek :: "errno option"
  fo_read :: "nat \<Rightarrow> nat \<Rightarrow> nat \<Rightarrow> errno + bytes"

record file_stream =
  fs_position :: nat
  fs_offset :: u64
  fs_remaining :: u64
  fs_needs_seek :: bool
  fs_reads :: nat

datatype file_body = FullBody bytes | FileBody file_stream

text \<open>\<open>None\<close> is the panic of \<^verbatim>\<open>FileRange::len\<close>; the descriptor may stand anywhere at first.\<close>

definition file_body_of :: "nat \<Rightarrow> body_source \<Rightarrow> file_body option" where
  [rust_eval]: "file_body_of position source =
     (case source of
        SourceFileFull f len _ \<Rightarrow>
          Some (FileBody \<lparr>fs_position = position, fs_offset = 0, fs_remaining = len, fs_needs_seek = True, fs_reads = 0\<rparr>)
      | SourceFileRange f rng _ _ \<Rightarrow>
          map_option (\<lambda>len. FileBody \<lparr>fs_position = position, fs_offset = fr_start rng, fs_remaining = len,
                               fs_needs_seek = True, fs_reads = 0\<rparr>) (range_len rng)
      | SourceEmpty \<Rightarrow> Some (FullBody [])
      | SourceBytes b \<Rightarrow> Some (FullBody b))"

text \<open>The reading loop; \<^verbatim>\<open>take\<close> bounds each read by what is left of the chunk.\<close>

function read_file_chunk ::
  "file_os \<Rightarrow> nat \<Rightarrow> bytes \<Rightarrow> nat \<Rightarrow> nat \<Rightarrow> (errno + bytes) \<times> nat \<times> nat" where
  "read_file_chunk os target buffer position reads =
     (if length buffer < target then
        (case fo_read os reads position (target - length buffer) of
           Inl e \<Rightarrow> (Inl e, position, reads + 1)
         | Inr got \<Rightarrow>
             let got = take (target - length buffer) got in
             if got = [] then (Inr buffer, position, reads + 1)
             else read_file_chunk os target (buffer @ got) (position + length got) (reads + 1))
      else (Inr buffer, position, reads))"
  by auto
termination
  by (relation "measure (\<lambda>(os, target, buffer, position, reads). target - length buffer)")
    (auto simp: min_def neq_Nil_conv)

declare read_file_chunk.simps [simp del]

datatype file_poll = FileData bytes | FileError read_error | FileEnd

definition stop_file :: "read_error \<Rightarrow> file_stream \<Rightarrow> file_poll \<times> file_stream" where
  [rust_eval]: "stop_file e st = (FileError e, st\<lparr>fs_remaining := 0, fs_needs_seek := False\<rparr>)"

definition file_next :: "file_os \<Rightarrow> nat \<Rightarrow> file_stream \<Rightarrow> file_poll \<times> file_stream" where
  [rust_eval]: "file_next os stream_chunk_size st =
     (if fs_remaining st = 0 then (FileEnd, st)
      else if fs_needs_seek st \<and> fo_seek os \<noteq> None then stop_file (ReadOs (the (fo_seek os))) st
      else
        let position = (if fs_needs_seek st then unat (fs_offset st) else fs_position st);
            chunk_len = unat (min (fs_remaining st) (of_nat stream_chunk_size));
            (result, position, reads) = read_file_chunk os chunk_len [] position (fs_reads st);
            st = st\<lparr>fs_position := position, fs_reads := reads\<rparr>
        in case result of
             Inl e \<Rightarrow> stop_file (ReadOs e) st
           | Inr buffer \<Rightarrow>
               if buffer = [] then stop_file UnexpectedEof st
               else if length buffer < chunk_len then stop_file UnexpectedEof st
               else (FileData buffer,
                     st\<lparr>fs_offset := fs_offset st + of_nat (length buffer),
                        fs_remaining := fs_remaining st - of_nat (length buffer), fs_needs_seek := False\<rparr>))"

fun drive_file :: "nat \<Rightarrow> file_os \<Rightarrow> nat \<Rightarrow> file_stream \<Rightarrow> file_poll list" where
  "drive_file 0 os c st = []"
| "drive_file (Suc n) os c st =
     (case file_next os c st of
        (FileData d, st) \<Rightarrow> FileData d # drive_file n os c st
      | (r, st) \<Rightarrow> [r])"

section \<open>Files\<close>

fun file_bytes :: "file_poll list \<Rightarrow> bytes" where
  "file_bytes [] = []"
| "file_bytes (FileData d # fs) = d @ file_bytes fs"
| "file_bytes (_ # fs) = file_bytes fs"

text \<open>The reads of a file that does not change, and a system that never fails to read it.\<close>

definition reads_content :: "file_os \<Rightarrow> bytes \<Rightarrow> bool" where
  "reads_content os data \<longleftrightarrow>
     (\<forall>k pos n got. fo_read os k pos n = Inr got \<longrightarrow> prefix (take n got) (drop pos data))"

definition reads_progress :: "file_os \<Rightarrow> bytes \<Rightarrow> bool" where
  "reads_progress os data \<longleftrightarrow> fo_seek os = None
     \<and> (\<forall>k pos n. pos < length data \<longrightarrow> 0 < n \<longrightarrow> (\<exists>got. fo_read os k pos n = Inr got \<and> got \<noteq> []))"

lemma read_file_chunk_bounds:
  "read_file_chunk os target buffer pos k = (Inr buf, pos', k') \<Longrightarrow> length buffer \<le> target \<Longrightarrow>
   prefix buffer buf \<and> length buf \<le> target \<and> pos' + length buffer = pos + length buf"
proof (induction os target buffer pos k rule: read_file_chunk.induct)
  case (1 os target buffer pos k)
  show ?case
  proof (cases "length buffer < target")
    case True
    with "1.prems"(1) obtain got where got: "fo_read os k pos (target - length buffer) = Inr got"
      by (subst (asm) read_file_chunk.simps) (auto split: sum.splits)
    let ?g = "take (target - length buffer) got"
    show ?thesis
    proof (cases "?g = []")
      case True
      then show ?thesis using "1.prems" got \<open>length buffer < target\<close>
        by (subst (asm) read_file_chunk.simps) (auto simp: Let_def)
    next
      case False
      then have "read_file_chunk os target (buffer @ ?g) (pos + length ?g) (k + 1) = (Inr buf, pos', k')"
        using "1.prems"(1) got True by (subst (asm) read_file_chunk.simps) (auto simp: Let_def)
      from "1.IH" [OF True got refl False this] True have
        "prefix (buffer @ ?g) buf" "length buf \<le> target" "pos' + length buffer = pos + length buf" by auto
      then show ?thesis using append_prefixD by blast
    qed
  next
    case False
    then show ?thesis using "1.prems" by (subst (asm) read_file_chunk.simps) auto
  qed
qed

lemma prefix_drop_split: "prefix g (drop p d) \<Longrightarrow> drop p d = g @ drop (p + length g) d"
  by (auto simp: prefix_def) (metis append_eq_conv_conj drop_drop add.commute)

lemma read_file_chunk_content:
  "read_file_chunk os target buffer pos k = (Inr buf, pos', k') \<Longrightarrow> reads_content os data \<Longrightarrow> length buffer \<le> target \<Longrightarrow>
   \<exists>got. buf = buffer @ got \<and> prefix got (drop pos data)"
proof (induction os target buffer pos k rule: read_file_chunk.induct)
  case (1 os target buffer pos k)
  show ?case
  proof (cases "length buffer < target")
    case True
    with "1.prems"(1) obtain got where got: "fo_read os k pos (target - length buffer) = Inr got"
      by (subst (asm) read_file_chunk.simps) (auto split: sum.splits)
    let ?g = "take (target - length buffer) got"
    have pre: "prefix ?g (drop pos data)" using "1.prems"(2) got by (auto simp: reads_content_def)
    show ?thesis
    proof (cases "?g = []")
      case True
      then show ?thesis using "1.prems" got \<open>length buffer < target\<close>
        by (subst (asm) read_file_chunk.simps) (auto simp: Let_def)
    next
      case False
      then have rec: "read_file_chunk os target (buffer @ ?g) (pos + length ?g) (k + 1) = (Inr buf, pos', k')"
        using "1.prems"(1) got True by (subst (asm) read_file_chunk.simps) (auto simp: Let_def)
      have len: "length (buffer @ ?g) \<le> target" using True by (auto simp: min_def)
      from "1.IH" [OF True got refl False rec "1.prems"(2) len]
      obtain h where h: "buf = (buffer @ ?g) @ h" "prefix h (drop (pos + length ?g) data)" by blast
      from prefix_drop_split [OF pre] have "prefix (?g @ h) (drop pos data)" using h(2) by (simp only: same_prefix_prefix)
      then show ?thesis using h(1) by (intro exI [of _ "?g @ h"]) simp
    qed
  next
    case False
    then show ?thesis using "1.prems" by (subst (asm) read_file_chunk.simps) auto
  qed
qed

lemma read_file_chunk_full:
  "reads_progress os data \<Longrightarrow> pos + (target - length buffer) \<le> length data \<Longrightarrow> length buffer \<le> target \<Longrightarrow>
   \<exists>buf pos' k'. read_file_chunk os target buffer pos k = (Inr buf, pos', k') \<and> length buf = target"
proof (induction os target buffer pos k rule: read_file_chunk.induct)
  case (1 os target buffer pos k)
  show ?case
  proof (cases "length buffer < target")
    case True
    then have "pos < length data" "0 < target - length buffer" using "1.prems" by auto
    with "1.prems"(1) obtain got where got: "fo_read os k pos (target - length buffer) = Inr got" "got \<noteq> []"
      unfolding reads_progress_def by blast
    let ?g = "take (target - length buffer) got"
    have g: "?g \<noteq> []" using got True by auto
    have "\<exists>buf pos' k'. read_file_chunk os target (buffer @ ?g) (pos + length ?g) (k + 1) = (Inr buf, pos', k') \<and> length buf = target"
      using "1.IH" [OF True got(1) refl g] "1.prems" True by (auto simp: min_def)
    then show ?thesis using got True g by (subst read_file_chunk.simps) (simp add: Let_def)
  next
    case False
    then show ?thesis using "1.prems" by (subst read_file_chunk.simps) auto
  qed
qed

text \<open>One poll of the stream; \<open>pos\<close> is where it reads next.\<close>

definition read_position :: "file_stream \<Rightarrow> nat" where
  "read_position st = (if fs_needs_seek st then unat (fs_offset st) else fs_position st)"

lemma file_next_data:
  assumes "file_next os c st = (FileData d, st')"
  shows "d \<noteq> [] \<and> length d \<le> unat (fs_remaining st) \<and> length d \<le> unat (of_nat c :: u64)
    \<and> unat (fs_remaining st') = unat (fs_remaining st) - length d
    \<and> read_position st' = read_position st + length d
    \<and> (\<forall>data. reads_content os data \<longrightarrow> prefix d (drop (read_position st) data))"
proof -
  let ?len = "unat (min (fs_remaining st) (of_nat c :: u64))"
  obtain buf pos k where r: "read_file_chunk os ?len [] (read_position st) (fs_reads st) = (Inr buf, pos, k)"
    and d: "d = buf" "buf \<noteq> []" "\<not> length buf < ?len"
    and st': "st' = st\<lparr>fs_position := pos, fs_reads := k, fs_offset := fs_offset st + of_nat (length buf),
                fs_remaining := fs_remaining st - of_nat (length buf), fs_needs_seek := False\<rparr>"
    using assms by (auto simp: file_next_def read_position_def stop_file_def Let_def split: if_splits sum.splits prod.splits)
  from read_file_chunk_bounds [OF r] have b: "length buf \<le> ?len" "pos = read_position st + length buf" by auto
  have m: "?len \<le> unat (fs_remaining st)" "?len \<le> unat (of_nat c :: u64)"
    by (simp_all add: min_def word_le_nat_alt)
  have n: "unat (of_nat (length buf) :: u64) = length buf"
    using b(1) m(1) unsigned_less [of "fs_remaining st", where 'a = nat] by (simp add: unat_of_nat)
  then have "unat (fs_remaining st - of_nat (length buf)) = unat (fs_remaining st) - length buf"
    using b(1) m(1) by (simp add: unat_sub word_le_nat_alt)
  moreover have "prefix d (drop (read_position st) data)" if "reads_content os data" for data
    using read_file_chunk_content [OF r that] d by auto
  ultimately show ?thesis using d b m st' by (simp add: read_position_def)
qed

lemma drive_file_ok:
  assumes "reads_content os data"
  shows "prefix (file_bytes (drive_file n os c st)) (take (unat (fs_remaining st)) (drop (read_position st) data))
    \<and> list_all (\<lambda>r. case r of FileData d \<Rightarrow> d \<noteq> [] \<and> length d \<le> unat (of_nat c :: u64) | _ \<Rightarrow> True) (drive_file n os c st)
    \<and> (FileEnd \<in> set (drive_file n os c st) \<longrightarrow> length (file_bytes (drive_file n os c st)) = unat (fs_remaining st))"
proof (induction n arbitrary: st)
  case (Suc n)
  obtain r st' where next': "file_next os c st = (r, st')" by fastforce
  show ?case
  proof (cases r)
    case (FileData d)
    note step = file_next_data [OF next' [unfolded FileData]]
    have "prefix d (drop (read_position st) data)" using step assms by blast
    then have split: "drop (read_position st) data = d @ drop (read_position st') data"
      using prefix_drop_split step by metis
    then have "take (unat (fs_remaining st)) (drop (read_position st) data) =
        d @ take (unat (fs_remaining st')) (drop (read_position st') data)"
      using step by simp
    then show ?thesis using Suc.IH [of st'] step next' FileData by auto
  next
    case FileEnd
    then have "fs_remaining st = 0" using next'
      by (auto simp: file_next_def stop_file_def Let_def split: if_splits sum.splits prod.splits)
    then show ?thesis using next' FileEnd by simp
  qed (use next' in simp)
qed simp

lemma drive_file_full:
  assumes "reads_content os data" and "reads_progress os data" and "0 < c" and "c \<le> 2 ^ 64 - 1"
  shows "read_position st + unat (fs_remaining st) \<le> length data \<Longrightarrow> unat (fs_remaining st) < n \<Longrightarrow>
     FileEnd \<in> set (drive_file n os c st)"
proof (induction n arbitrary: st)
  case (Suc n)
  show ?case
  proof (cases "fs_remaining st = 0")
    case True
    then show ?thesis by (simp add: file_next_def)
  next
    case False
    let ?len = "unat (min (fs_remaining st) (of_nat c :: u64))"
    have c: "unat (of_nat c :: u64) = c" using assms(4) by (simp add: unat_of_nat)
    have len: "0 < ?len" "?len \<le> unat (fs_remaining st)"
      using False assms(3) c by (auto simp: min_def word_le_nat_alt unat_gt_0)
    from read_file_chunk_full [OF assms(2), of "read_position st" ?len "[]" "fs_reads st"] Suc.prems(1) len
    obtain buf pos k where r: "read_file_chunk os ?len [] (read_position st) (fs_reads st) = (Inr buf, pos, k)" "length buf = ?len"
      by auto
    moreover have "fo_seek os = None" using assms(2) by (simp add: reads_progress_def)
    moreover have "buf \<noteq> []" using r(2) len(1) by auto
    ultimately obtain st' where d: "file_next os c st = (FileData buf, st')"
      using False by (simp add: file_next_def read_position_def Let_def)
    have "0 < length buf" using r(2) len(1) by simp
    with file_next_data [OF d] Suc.prems have "read_position st' + unat (fs_remaining st') \<le> length data"
      "unat (fs_remaining st') < n" by linarith+
    then show ?thesis using Suc.IH d by simp
  qed
qed simp

section \<open>Properties\<close>

text \<open>The bytes of a file that a source stands for.\<close>

definition source_slice :: "body_source \<Rightarrow> bytes \<Rightarrow> bytes" where
  [rust_eval]: "source_slice source data =
     take (case source_len source of Some n \<Rightarrow> unat n | None \<Rightarrow> 0)
       (drop (case source_range source of Some rng \<Rightarrow> unat (fr_start rng) | None \<Rightarrow> 0) data)"

lemma file_body_of_start:
  assumes "file_body_of position source = Some (FileBody st)"
  shows "take (unat (fs_remaining st)) (drop (read_position st) data) = source_slice source data"
    and "source_len source = Some (fs_remaining st)"
  using assms
  by (auto simp: file_body_of_def source_slice_def source_len_def read_position_def split: body_source.splits)

text \<open>
  C21: While a file does not change, its body is exactly the announced part of it, wherever the
  descriptor stood before and however the system splits the reads: at every moment a prefix, in frames
  within the chunk size; it ends without error only when every announced byte was sent, and it does end
  so, within one poll per byte and one more, when the file is long enough and can be read.
\<close>

theorem file_body_exact:
  assumes "reads_content os data" and "file_body_of position source = Some (FileBody st)"
  shows "prefix (file_bytes (drive_file n os c st)) (source_slice source data)
    \<and> (FileEnd \<in> set (drive_file n os c st) \<longrightarrow>
         file_bytes (drive_file n os c st) = source_slice source data
         \<and> source_len source = Some (of_nat (length (file_bytes (drive_file n os c st)))))
    \<and> (reads_progress os data \<longrightarrow> 0 < c \<longrightarrow> c < 2 ^ 64 \<longrightarrow> unat (fs_remaining st) < n \<longrightarrow>
         read_position st + unat (fs_remaining st) \<le> length data \<longrightarrow>
         FileEnd \<in> set (drive_file n os c st))"
proof -
  note ok = drive_file_ok [OF assms(1), of n c st]
  have "file_bytes (drive_file n os c st) = source_slice source data"
    if "length (file_bytes (drive_file n os c st)) = unat (fs_remaining st)"
  proof -
    from ok file_body_of_start(1) [OF assms(2), of data]
    obtain z where z: "source_slice source data = file_bytes (drive_file n os c st) @ z" by (auto elim: prefixE)
    have "length (source_slice source data) \<le> unat (fs_remaining st)"
      unfolding file_body_of_start(1) [OF assms(2), of data, symmetric] by simp
    then show ?thesis using that z by simp
  qed
  moreover have "prefix (file_bytes (drive_file n os c st)) (source_slice source data)"
    using ok unfolding file_body_of_start(1) [OF assms(2), of data] by blast
  moreover have "length (file_bytes (drive_file n os c st)) = unat (fs_remaining st)"
    if "FileEnd \<in> set (drive_file n os c st)"
    using ok that by blast
  moreover have "source_len source = Some (of_nat (unat (fs_remaining st)))"
    using file_body_of_start(2) [OF assms(2)] by simp
  moreover have "FileEnd \<in> set (drive_file n os c st)"
    if "reads_progress os data" "0 < c" "c < 2 ^ 64" "unat (fs_remaining st) < n"
      "read_position st + unat (fs_remaining st) \<le> length data"
  proof (rule drive_file_full [OF assms(1) that(1,2) _ that(5,4)])
    show "c \<le> 2 ^ 64 - 1" using that(3) by linarith
  qed
  ultimately show ?thesis by metis
qed

text \<open>A system that hands out at most two bytes at a time.\<close>

definition slow_os :: "bytes \<Rightarrow> file_os" where
  [rust_eval]: "slow_os data = \<lparr>fo_seek = None, fo_read = (\<lambda>k pos n. Inr (take (min n 2) (drop pos data)))\<rparr>"

lemma slow_os_laws: "reads_content (slow_os data) data" "reads_progress (slow_os data) data"
  by (auto simp: slow_os_def reads_content_def reads_progress_def take_is_prefix)

theorem file_body_exact_witness:
  "\<exists>st. file_body_of 99 (SourceFileRange 3 \<lparr>fr_start = 1, fr_end_inclusive = 5\<rparr> 8 ''text/plain'') = Some (FileBody st)
     \<and> FileEnd \<in> set (drive_file 6 (slow_os ''abcdefgh'') 3 st)
     \<and> file_bytes (drive_file 6 (slow_os ''abcdefgh'') 3 st) = ''bcdef''"
proof -
  let ?source = "SourceFileRange 3 \<lparr>fr_start = 1, fr_end_inclusive = 5\<rparr> 8 ''text/plain''"
  let ?st = "\<lparr>fs_position = 99, fs_offset = 1, fs_remaining = 5, fs_needs_seek = True, fs_reads = 0\<rparr>"
  have b: "file_body_of 99 ?source = Some (FileBody ?st)" by (simp add: rust_eval)
  have "source_slice ?source ''abcdefgh'' = ''bcdef''" by (simp add: rust_eval)
  moreover note exact = file_body_exact [OF slow_os_laws(1) [of "''abcdefgh''"] b, of 6 3]
  moreover have "FileEnd \<in> set (drive_file 6 (slow_os ''abcdefgh'') 3 ?st)"
    using exact slow_os_laws(2) [of "''abcdefgh''"] by (simp add: read_position_def)
  ultimately show ?thesis using b by auto
qed

text \<open>
  A file that shrinks while it is sent gives an error before the end, never a short body that looks
  complete: the frames of a body that ended hold the announced number of bytes, whatever was read.
\<close>

lemma drive_file_never_short:
  "FileEnd \<in> set (drive_file n os c st) \<Longrightarrow> length (file_bytes (drive_file n os c st)) = unat (fs_remaining st)"
proof (induction n arbitrary: st)
  case (Suc n)
  obtain r st' where next': "file_next os c st = (r, st')" by fastforce
  show ?case
  proof (cases r)
    case (FileData d)
    then show ?thesis using Suc next' file_next_data [of os c st d st'] by auto
  next
    case FileEnd
    then have "fs_remaining st = 0" using next'
      by (auto simp: file_next_def stop_file_def Let_def split: if_splits sum.splits prod.splits)
    then show ?thesis using next' FileEnd by simp
  qed (use Suc.prems next' in simp)
qed simp

end
