(* ===== verification/Runtime_Response.thy ===== *)
theory Runtime_Response
  imports Config Stream_Adapter File_Stream
begin

text \<open>
  Responses at the boundary to the transport: the conversion of \<^verbatim>\<open>adapters.rs\<close>, the runtime errors of
  \<^verbatim>\<open>response.rs\<close>, the presented rejections, the mapping of errors and the final privacy policy of
  \<^verbatim>\<open>connection/response.rs\<close>, and the dispositions of \<^verbatim>\<open>connection/lifecycle.rs\<close>, all in
  \<^verbatim>\<open>eggserve-server/src\<close>.

  What a response stream's producer does is an argument, \<open>producers\<close>.  A semaphore is the number of its
  free permits.  \<open>None\<close> is a panic: the \<^verbatim>\<open>expect\<close> of the error builder, shown not to happen.  The system
  clock is taken to be between 1970 and 9999, where \<^verbatim>\<open>httpdate\<close> prints every time.
\<close>

section \<open>Conversion\<close>

datatype wire_body = WireBytes bytes | WireFile body_source bool | WireStream stream_adapter

record 'h hyper_response =
  hr_status :: nat
  hr_headers :: 'h
  hr_body :: wire_body

type_synonym producers = "response_stream \<Rightarrow> producer_poll list \<times> nat \<times> trailer_outcome"

record 'h runtime_env =
  re_sinks :: custom_sinks
  re_hyper :: "'h hyper_api"
  re_dates :: httpdate
  re_producers :: producers

definition finalize_origin_headers :: "'h hyper_api \<Rightarrow> httpdate \<Rightarrow> system_time \<Rightarrow> 'h \<Rightarrow> 'h" where
  [rust_eval]: "finalize_origin_headers hy dt now m =
     (let m = hm_remove hy m ''date'' in
      case hv_from_str hy (hd_fmt dt now) of Some v \<Rightarrow> hm_insert hy m ''date'' v | None \<Rightarrow> m)"

text \<open>Taking a permit for a file and counting it.\<close>

definition file_permit ::
  "ops_context option \<Rightarrow> nat option \<Rightarrow> ops_world \<Rightarrow> (response_construction_error + bool) \<times> nat option \<times> ops_world" where
  [rust_eval]: "file_permit ops permits w =
     (case permits of
        None \<Rightarrow> (Inr False, None, w)
      | Some 0 \<Rightarrow> (Inl FileStreamLimit, Some 0, w)
      | Some (Suc n) \<Rightarrow>
          (let (ctx, w) = resolve_ops ops w
           in (Inr True, Some n, ops_count ctx (oc_active_file_streams_update (\<lambda>k. k + 1)) w)))"

definition file_permit_drop :: "ops_context option \<Rightarrow> nat \<Rightarrow> ops_world \<Rightarrow> nat \<times> ops_world" where
  [rust_eval]: "file_permit_drop ops permits w =
     (let (ctx, w) = resolve_ops ops w
      in (permits + 1, ops_count ctx (oc_active_file_streams_update (\<lambda>k. k - 1)) w))"

definition convert_body ::
  "'h runtime_env \<Rightarrow> status_code \<Rightarrow> response_body option \<Rightarrow> nat \<Rightarrow> ops_context option \<Rightarrow> nat option \<Rightarrow> ops_world
   \<Rightarrow> (response_construction_error + wire_body) \<times> nat option \<times> ops_world" where
  [rust_eval]: "convert_body env status body stream_chunk_size ops permits w =
     (case body of
        Some (RBBytes b) \<Rightarrow> (Inr (WireBytes b), permits, w)
      | Some (RBFile source) \<Rightarrow>
          (case file_permit ops permits w of
             (Inl e, permits, w) \<Rightarrow> (Inl e, permits, w)
           | (Inr held, permits, w) \<Rightarrow> (Inr (WireFile source held), permits, w))
      | Some (RBStream s) \<Rightarrow>
          if \<not> permits_payload_body status then (Inr (WireBytes []), permits, w)
          else
            (let (polls, trailer) = re_producers env s;
                 (a, w) = stream_body (re_sinks env) polls trailer s stream_chunk_size ops w
             in (Inr (WireStream a), permits, w))
      | Some RBEmpty \<Rightarrow> (Inr (WireBytes []), permits, w)
      | Some (RBEmptyWithLength _) \<Rightarrow> (Inr (WireBytes []), permits, w)
      | None \<Rightarrow> (Inr (WireBytes []), permits, w))"

definition to_hyper ::
  "'h runtime_env \<Rightarrow> response \<Rightarrow> nat \<Rightarrow> ops_context option \<Rightarrow> system_time option \<Rightarrow> nat option \<Rightarrow> ops_world
   \<Rightarrow> (response_construction_error + 'h hyper_response) \<times> nat option \<times> ops_world" where
  [rust_eval]: "to_hyper env r stream_chunk_size ops origin_date permits w =
     (let hy = re_hyper env; code = rh_status (rsp_head r) in
      case and_then (ok_or (InvalidStatus code) (hs_from_u16 hy code)) (\<lambda>status.
           and_then (map_err ConstructionHeader (append_fields hy (rh_headers (rsp_head r)) (hm_new hy))) (\<lambda>m.
           Inr (status, m))) of
        Inl e \<Rightarrow> (Inl e, permits, w)
      | Inr (status, m) \<Rightarrow>
          (case convert_body env code (rsp_body r) stream_chunk_size ops permits w of
             (Inl e, permits, w) \<Rightarrow> (Inl e, permits, w)
           | (Inr body, permits, w) \<Rightarrow>
               (let m = (case origin_date of Some now \<Rightarrow> finalize_origin_headers hy (re_dates env) now m | None \<Rightarrow> m)
                in (Inr \<lparr>hr_status = status, hr_headers = m, hr_body = body\<rparr>, permits, w))))"

section \<open>Runtime errors\<close>

definition canonical_status :: "nat \<Rightarrow> status_code" where
  [rust_eval]: "canonical_status s = (case status_new s of Inr c \<Rightarrow> c | Inl _ \<Rightarrow> 500)"

text \<open>
  The error has no file and no stream, so its conversion takes no permit and counts nothing; only the
  header and status conversions of \<open>to_hyper\<close> remain.
\<close>

definition error_to_hyper :: "'h hyper_api \<Rightarrow> response \<Rightarrow> 'h hyper_response option" where
  [rust_eval]: "error_to_hyper hy r =
     (case (hs_from_u16 hy (rh_status (rsp_head r)), append_fields hy (rh_headers (rsp_head r)) (hm_new hy)) of
        (Some status, Inr m) \<Rightarrow>
          Some \<lparr>hr_status = status, hr_headers = m,
                hr_body = WireBytes (case rsp_body r of Some (RBBytes b) \<Rightarrow> b | _ \<Rightarrow> [])\<rparr>
      | _ \<Rightarrow> None)"

definition wire_error :: "'h hyper_api \<Rightarrow> nat \<Rightarrow> bool \<Rightarrow> error_representation_policy \<Rightarrow> 'h hyper_response option" where
  [rust_eval]: "wire_error hy status is_head policy =
     Option.bind (runtime_error_with_policy (canonical_status status) is_head policy) (\<lambda>canonical.
     Option.bind (Option.bind (normalize_response canonical is_head) ok_value) (error_to_hyper hy))"

definition bad_request_with_policy :: "'h hyper_api \<Rightarrow> bool \<Rightarrow> error_representation_policy \<Rightarrow> 'h hyper_response option" where
  [rust_eval]: "bad_request_with_policy hy is_head policy = wire_error hy 400 is_head policy"

definition internal_error_with_policy :: "'h hyper_api \<Rightarrow> error_representation_policy \<Rightarrow> 'h hyper_response option" where
  [rust_eval]: "internal_error_with_policy hy policy = wire_error hy 500 False policy"

definition service_unavailable_with_policy :: "'h hyper_api \<Rightarrow> error_representation_policy \<Rightarrow> 'h hyper_response option" where
  [rust_eval]: "service_unavailable_with_policy hy policy = wire_error hy 503 False policy"

definition expectation_failed_with_policy ::
  "'h hyper_api \<Rightarrow> bool \<Rightarrow> error_representation_policy \<Rightarrow> 'h hyper_response option" where
  [rust_eval]: "expectation_failed_with_policy hy is_head policy = wire_error hy 417 is_head policy"

section \<open>Service responses\<close>

datatype provenance = ServiceProvenance | RuntimeProvenance

definition response_trailer_declaration :: "response \<Rightarrow> trailer_declaration option" where
  [rust_eval]: "response_trailer_declaration r =
     (case rsp_body r of Some (RBStream s) \<Rightarrow> rst_declaration s | _ \<Rightarrow> None)"

text \<open>The \<^verbatim>\<open>Trailer\<close> field of a declared trailer section, in place of a length.\<close>

definition synthesize_trailer :: "bool \<Rightarrow> response \<Rightarrow> response option" where
  [rust_eval]: "synthesize_trailer synthesize_trailer_head r =
     (if synthesize_trailer_head \<and> has_response_trailers r then
        (case response_trailer_declaration r of
           Some d \<Rightarrow>
             map_option (\<lambda>b. with_headers_mut (\<lambda>_. b) r)
               (ok_value (block_push_bytes (remove_header (remove_header (rh_headers (rsp_head r)) ''content-length'') ''trailer'')
                  ''trailer'' (declaration_header_value d)))
         | None \<Rightarrow> Some r)
      else Some r)"

definition normalize_then_convert ::
  "'h runtime_env \<Rightarrow> response \<Rightarrow> bool \<Rightarrow> bool \<Rightarrow> nat \<Rightarrow> error_representation_policy \<Rightarrow> system_time \<Rightarrow> ops_context option
   \<Rightarrow> nat \<Rightarrow> ops_world \<Rightarrow> ('h hyper_response \<times> provenance) option \<times> nat option \<times> ops_world" where
  [rust_eval]: "normalize_then_convert env canonical is_head synthesize_trailer_head stream_chunk_size error_policy now ops permits w =
     (let runtime = (\<lambda>r. map_option (\<lambda>r. (r, RuntimeProvenance)) r); hy = re_hyper env in
      case normalize_response canonical is_head of
        None \<Rightarrow> (None, Some permits, w)
      | Some (Inl _) \<Rightarrow> (runtime (internal_error_with_policy hy error_policy), Some permits, w)
      | Some (Inr normalized) \<Rightarrow>
          (case synthesize_trailer synthesize_trailer_head normalized of
             None \<Rightarrow> (None, Some permits, w)
           | Some r \<Rightarrow>
               (case to_hyper env r stream_chunk_size ops (if ops = None then Some now else None) (Some permits) w of
                  (Inr h, permits, w) \<Rightarrow> (Some (h, ServiceProvenance), permits, w)
                | (Inl FileStreamLimit, permits, w) \<Rightarrow>
                    (runtime (service_unavailable_with_policy hy error_policy), permits, w)
                | (Inl _, permits, w) \<Rightarrow> (runtime (internal_error_with_policy hy error_policy), permits, w))))"

section \<open>Presented rejections\<close>

definition presenter_ignored :: "string list" where
  [rust_eval]: "presenter_ignored =
     [''content-length'', ''transfer-encoding'', ''connection'', ''keep-alive'', ''upgrade'', ''trailer'', ''date'', ''server'']"

text \<open>The loop over the presented fields; \<open>None\<close> is the fallback.\<close>

fun present_fields :: "'h hyper_api \<Rightarrow> header_block \<Rightarrow> 'h \<Rightarrow> nat \<Rightarrow> 'h option" where
  "present_fields hy [] m total_bytes = Some m"
| "present_fields hy (f # fs) m total_bytes =
     (if List.member presenter_ignored (to_ascii_lowercase (name_str (hf_name f)))
      then present_fields hy fs m total_bytes
      else case (hn_from_bytes hy (name_str (hf_name f)), hv_from_bytes hy (value_bytes (hf_value f))) of
        (Some n, Some v) \<Rightarrow>
          (let total_bytes = usize_saturating_add (usize_saturating_add total_bytes (length n)) (length v)
           in if total_bytes > 16 * 1024 \<or> hm_len hy m \<ge> 64 then None
              else present_fields hy fs (hm_append hy m n v) total_bytes)
      | _ \<Rightarrow> None)"

definition presented_length :: "'h hyper_api \<Rightarrow> nat \<Rightarrow> nat \<Rightarrow> nat \<Rightarrow> 'h \<Rightarrow> 'h" where
  [rust_eval]: "presented_length hy status representation_len len m =
     (let m = hm_remove hy m ''content-length'' in
      if status \<noteq> 204 \<and> status \<noteq> 205 \<and> (status \<noteq> 304 \<or> representation_len > 0)
      then (case hv_from_str hy (dec len) of Some v \<Rightarrow> hm_insert hy m ''content-length'' v | None \<Rightarrow> m)
      else m)"

definition present_runtime_rejection ::
  "'h hyper_api \<Rightarrow> nat \<Rightarrow> rejection_kind \<Rightarrow> bool \<Rightarrow> h1_connection_policy \<Rightarrow> 'h hyper_response option" where
  [rust_eval]: "present_runtime_rejection hy status kind is_head policy =
     (let fallback = wire_error hy status is_head (rp_error_policy (h1_response_policy policy)) in
      case h1_runtime_rejection_presenter policy of
        None \<Rightarrow> fallback
      | Some presenter \<Rightarrow>
          (case presenter \<lparr>rr_kind = kind, rr_status = canonical_status status\<rparr> of
             Some (Some p) \<Rightarrow>
               if length (ep_body p) > MAX_RUNTIME_REJECTION_BODY_BYTES then fallback
               else
                 (case present_fields hy (take 65 (ep_headers p)) (hm_new hy) 0 of
                    None \<Rightarrow> fallback
                  | Some m \<Rightarrow>
                      let body_allowed = (\<not> is_head \<and> (case status_new status of Inr s \<Rightarrow> permits_payload_body s | Inl _ \<Rightarrow> False));
                          representation_len = length (ep_body p);
                          body = (if body_allowed then ep_body p else []);
                          len = (if is_head \<or> body_allowed then representation_len else 0)
                      in Some \<lparr>hr_status = status, hr_headers = presented_length hy status representation_len len m,
                               hr_body = WireBytes body\<rparr>)
           | _ \<Rightarrow> fallback))"

section \<open>Dispositions and error mapping\<close>

record lifecycle_disposition =
  ld_close_after_response :: bool
  ld_cancel_request_body :: bool
  ld_graceful_drain :: bool
  ld_terminate_transport :: bool

definition KEEP_ALIVE :: lifecycle_disposition where
  [rust_eval]: "KEEP_ALIVE =
     \<lparr>ld_close_after_response = False, ld_cancel_request_body = False, ld_graceful_drain = False,
      ld_terminate_transport = False\<rparr>"

definition close_after_response :: lifecycle_disposition where
  [rust_eval]: "close_after_response = KEEP_ALIVE\<lparr>ld_close_after_response := True\<rparr>"

definition close_and_cancel_body :: lifecycle_disposition where
  [rust_eval]: "close_and_cancel_body = KEEP_ALIVE\<lparr>ld_close_after_response := True, ld_cancel_request_body := True\<rparr>"

definition with_graceful_drain :: "lifecycle_disposition \<Rightarrow> lifecycle_disposition" where
  [rust_eval]: "with_graceful_drain d = d\<lparr>ld_graceful_drain := True\<rparr>"

definition with_transport_termination :: "lifecycle_disposition \<Rightarrow> lifecycle_disposition" where
  [rust_eval]: "with_transport_termination d = d\<lparr>ld_terminate_transport := True\<rparr>"

fun is_transport :: "request_body_error \<Rightarrow> bool" where
  "is_transport (TransportError _) = True"
| "is_transport _ = False"

definition method_is_head :: "http_method \<Rightarrow> bool" where
  [rust_eval]: "method_is_head m \<longleftrightarrow> method_str m = ''HEAD''"

definition wire_status :: "nat \<Rightarrow> nat" where
  [rust_eval]: "wire_status raw = (if raw = 499 then 500 else raw)"

definition hyper_status :: "'h hyper_api \<Rightarrow> nat \<Rightarrow> nat" where
  [rust_eval]: "hyper_status hy code = (case hs_from_u16 hy code of Some s \<Rightarrow> s | None \<Rightarrow> 500)"

definition body_error_to_response ::
  "'h hyper_api \<Rightarrow> request_body_error \<Rightarrow> request_head \<Rightarrow> h1_connection_policy \<Rightarrow> 'h hyper_response option" where
  [rust_eval]: "body_error_to_response hy err head policy =
     (let status = wire_status (unat (to_status_code err));
          kind = (if status = 408 then RequestBodyTimeoutKind
                  else if status = 413 then RequestBodyTooLargeKind else RequestBodyRejectedKind)
      in present_runtime_rejection hy (hyper_status hy status) kind (method_is_head (rq_method head)) policy)"

definition body_error_disposition :: "request_body_error \<Rightarrow> lifecycle_disposition" where
  [rust_eval]: "body_error_disposition err =
     (let raw = to_status_code err in
      if raw = 499 \<or> is_transport err \<or> raw \<in> {400, 408, 413, 505} then close_and_cancel_body else KEEP_ALIVE)"

definition service_error_to_response ::
  "'h hyper_api \<Rightarrow> service_error \<Rightarrow> bool \<Rightarrow> h1_connection_policy \<Rightarrow> 'h hyper_response option" where
  [rust_eval]: "service_error_to_response hy err is_head policy =
     (let code = wire_status (service_status_code err);
          kind = (if code = 414 then RequestTargetTooLongKind
                  else if code = 431 then RequestHeadersTooLargeKind
                  else if service_is_timeout err then HandlerTimeoutKind
                  else if service_is_panic err then ServicePanicKind
                  else ServiceRejectedKind)
      in present_runtime_rejection hy (hyper_status hy code) kind is_head policy)"

definition apply_http1_disposition ::
  "'h hyper_api \<Rightarrow> 'h hyper_response \<Rightarrow> lifecycle_disposition \<Rightarrow> 'h hyper_response" where
  [rust_eval]: "apply_http1_disposition hy r d =
     (if ld_close_after_response d then r\<lparr>hr_headers := hm_insert hy (hr_headers r) ''connection'' ''close''\<rparr> else r)"

section \<open>Final privacy policy\<close>

fun remove_all :: "'h hyper_api \<Rightarrow> string list \<Rightarrow> 'h \<Rightarrow> 'h" where
  "remove_all hy [] m = m"
| "remove_all hy (n # ns) m = remove_all hy ns (hm_remove hy m n)"

definition finalize_server :: "'h hyper_api \<Rightarrow> response_policy \<Rightarrow> bool \<Rightarrow> 'h \<Rightarrow> 'h" where
  [rust_eval]: "finalize_server hy policy owned m =
     (if owned then
        let m = hm_remove hy m ''server'' in
        case Option.bind (rp_server_identification policy) (hv_from_str hy) of
          Some v \<Rightarrow> hm_insert hy m ''server'' v | None \<Rightarrow> m
      else m)"

definition finalize_date :: "'h hyper_api \<Rightarrow> httpdate \<Rightarrow> system_time option \<Rightarrow> bool \<Rightarrow> 'h \<Rightarrow> 'h" where
  [rust_eval]: "finalize_date hy dt now external m =
     (if external then m
      else
        let m = hm_remove hy m ''date'' in
        case Option.bind now (\<lambda>t. hv_from_str hy (hd_fmt dt t)) of
          Some v \<Rightarrow> hm_insert hy m ''date'' v | None \<Rightarrow> m)"

definition header_date :: "'h hyper_api \<Rightarrow> httpdate \<Rightarrow> bytes \<Rightarrow> system_time option" where
  [rust_eval]: "header_date hy dt v = Option.bind (hv_to_str hy v) (parse_http_date dt)"

definition drop_future_last_modified :: "'h hyper_api \<Rightarrow> httpdate \<Rightarrow> 'h \<Rightarrow> 'h" where
  [rust_eval]: "drop_future_last_modified hy dt m =
     (case (Option.bind (hm_get hy m ''date'') (header_date hy dt),
            Option.bind (hm_get hy m ''last-modified'') (header_date hy dt)) of
        (Some date, Some lm) \<Rightarrow> if lm > date then hm_remove hy m ''last-modified'' else m
      | _ \<Rightarrow> m)"

definition external_date_valid :: "'h hyper_api \<Rightarrow> httpdate \<Rightarrow> 'h \<Rightarrow> bool" where
  [rust_eval]: "external_date_valid hy dt m =
     (case hm_get_all hy m ''date'' of [] \<Rightarrow> True | [v] \<Rightarrow> header_date hy dt v \<noteq> None | _ \<Rightarrow> False)"

text \<open>
  The call on a runtime response, and the whole function: an invalid date of an external owner is
  replaced by an internal error, finalised as the runtime's own.
\<close>

definition finalize_own :: "'h hyper_api \<Rightarrow> httpdate \<Rightarrow> date_clock \<Rightarrow> response_policy \<Rightarrow> 'h hyper_response \<Rightarrow> 'h hyper_response" where
  [rust_eval]: "finalize_own hy dt clock policy r =
     (let m = remove_all hy (rp_stripped_response_headers policy) (hr_headers r);
          m = finalize_server hy policy True m;
          m = finalize_date hy dt (date_now clock (rp_date_policy policy)) False m
      in r\<lparr>hr_headers := drop_future_last_modified hy dt m\<rparr>)"

definition finalize_runtime_response ::
  "'h hyper_api \<Rightarrow> httpdate \<Rightarrow> date_clock \<Rightarrow> h1_connection_policy \<Rightarrow> provenance \<Rightarrow> 'h hyper_response
   \<Rightarrow> 'h hyper_response option" where
  [rust_eval]: "finalize_runtime_response hy dt clock config provenance r =
     (let policy = h1_response_policy config;
          m = remove_all hy (rp_stripped_response_headers policy) (hr_headers r);
          external = (provenance = ServiceProvenance);
          m = finalize_server hy policy (\<not> external \<or> mo_server (h1_response_metadata_ownership config) = EggServe) m;
          external_date = (external \<and> mo_date (h1_response_metadata_ownership config) = External)
      in if external_date \<and> \<not> external_date_valid hy dt m
         then map_option (finalize_own hy dt clock policy) (internal_error_with_policy hy (rp_error_policy policy))
         else
           let m = finalize_date hy dt (date_now clock (rp_date_policy policy)) external_date m
           in Some (r\<lparr>hr_headers := drop_future_last_modified hy dt m\<rparr>))"

text \<open>The same policy on a canonical response, for HTTP/3.\<close>

definition finalize_canonical_response :: "httpdate \<Rightarrow> date_clock \<Rightarrow> response_policy \<Rightarrow> response \<Rightarrow> response" where
  [rust_eval]: "finalize_canonical_response dt clock policy r =
     (let now = date_now clock (rp_date_policy policy);
          last_modified = Option.bind (block_get_first (rh_headers (rsp_head r)) ''last-modified'') (\<lambda>v.
            case header_value_to_str v of Inr s \<Rightarrow> parse_http_date dt s | Inl _ \<Rightarrow> None);
          future_last_modified = (case (now, last_modified) of (Some n, Some l) \<Rightarrow> l > n | _ \<Rightarrow> False)
      in with_headers_mut (\<lambda>b.
           let b = block_retain (\<lambda>f.
                 \<not> (list_ex (\<lambda>name. eq_ignore_ascii_case name (name_str (hf_name f))) (rp_stripped_response_headers policy)
                    \<or> eq_ignore_ascii_case (name_str (hf_name f)) ''server''
                    \<or> eq_ignore_ascii_case (name_str (hf_name f)) ''date''
                    \<or> (future_last_modified \<and> eq_ignore_ascii_case (name_str (hf_name f)) ''last-modified''))) b;
               b = (case rp_server_identification policy of Some s \<Rightarrow> push_or_ignore b ''server'' s | None \<Rightarrow> b)
           in (case now of Some n \<Rightarrow> push_or_ignore b ''date'' (hd_fmt dt n) | None \<Rightarrow> b)) r)"


section \<open>Runtime errors never panic\<close>

definition error_fields :: "error_representation_policy \<Rightarrow> status_code \<Rightarrow> header_block" where
  [rust_eval]: "error_fields policy status =
     (if policy = ErrorMinimal
      then [\<lparr>hf_name = HeaderName ''content-type'', hf_value = HeaderValue ''text/plain; charset=utf-8''\<rparr>] else [])
     @ (if status = 405 then [\<lparr>hf_name = HeaderName ''allow'', hf_value = HeaderValue ''GET, HEAD''\<rparr>] else [])"

definition error_text :: "status_code \<Rightarrow> bytes" where
  [rust_eval]: "error_text status =
     (case canonical_reason status of Some reason \<Rightarrow> dec status @ '' '' @ reason @ [CHR 0x0A] | None \<Rightarrow> [])"

definition error_payload :: "status_code \<Rightarrow> bool \<Rightarrow> error_representation_policy \<Rightarrow> bytes" where
  [rust_eval]: "error_payload status is_head policy =
     (if policy = ErrorEmpty \<or> is_head \<or> \<not> permits_payload_body status then [] else error_text status)"

lemma error_names:
  "builder_header ''content-type'' ''text/plain; charset=utf-8'' b =
     Inr (builder_push_header (HeaderName ''content-type'') (HeaderValue ''text/plain; charset=utf-8'') b)"
  "builder_header ''allow'' ''GET, HEAD'' b =
     Inr (builder_push_header (HeaderName ''allow'') (HeaderValue ''GET, HEAD'') b)"
  by (simp_all add: rust_eval)

lemma runtime_error_eq:
  "runtime_error_with_policy status is_head policy =
     Some \<lparr>rsp_head = \<lparr>rh_status = status, rh_headers = error_fields policy status\<rparr>,
           rsp_body = Some (if error_payload status is_head policy = [] then RBEmpty
                            else RBBytes (error_payload status is_head policy)),
           rsp_normalized = False\<rparr>"
  unfolding runtime_error_with_policy_def error_names Let_def error_text_def [symmetric]
  by (cases policy)
    (auto simp: builder_push_header_def builder_status_def response_builder_new_def builder_body_def block_push_def
      block_new_def ok_value_def ok_or_def error_fields_def error_payload_def)

lemma error_fields_kept: "filter (end_to_end (error_fields policy status)) (error_fields policy status) = error_fields policy status"
  by (auto simp: filter_id_conv end_to_end_def error_fields_def rust_eval)

lemma error_fields_wf: "block_wf (error_fields policy status)"
  by (auto simp: error_fields_def rust_eval block_wf_def field_wf_def)

lemma error_text_length: "length (error_text status) < 2 ^ 64"
proof (cases "canonical_reason status")
  case (Some reason)
  then have "(status, reason) \<in> set reason_table" by (auto simp: canonical_reason_def dest: map_of_SomeD)
  moreover have "list_all (\<lambda>(s, r). length (dec s @ '' '' @ r) < 64) reason_table" by (simp add: rust_eval)
  ultimately have "length (dec status @ '' '' @ reason) < 64" by (auto simp: list_all_iff)
  with Some show ?thesis by (simp add: error_text_def)
qed (simp add: error_text_def)

lemma error_payload_length: "unat (of_nat (length (error_payload status is_head policy)) :: u64) = length (error_payload status is_head policy)"
  using error_text_length [of status]
  by (auto simp: error_payload_def unat_of_nat take_bit_nat_eq_self split del: if_split split: if_split)

definition error_length_fields :: "status_code \<Rightarrow> bool \<Rightarrow> error_representation_policy \<Rightarrow> header_block" where
  [rust_eval]: "error_length_fields status is_head policy =
     (if permits_payload_body status then [content_length_field (of_nat (length (error_payload status is_head policy)))] else [])"

lemma error_no_length: "block_get_all (error_fields policy status) ''content-length'' = []"
  by (simp add: error_fields_def rust_eval)

lemma content_length_field_wf: "field_wf (content_length_field n)"
proof -
  have "header_name_new ''content-length'' = Inr (HeaderName ''content-length'')" by (simp add: rust_eval)
  then show ?thesis by (simp add: field_wf_def content_length_field_def value_of_dec)
qed

lemma error_stripped:
  "strip_hop_by_hop (error_fields policy status) = error_fields policy status"
  "remove_header (error_fields policy status) ''content-length'' = error_fields policy status"
  "block_contains (error_fields policy status) ''content-length'' = False"
  "block_get_unique (error_fields policy status) ''content-length'' = Inr None"
  by (simp_all add: error_fields_def rust_eval)

lemma error_metadata:
  "normalize_metadata status (error_fields policy status) (Known n) =
     Inr (error_fields policy status @ (if permits_payload_body status then [content_length_field n] else []))"
  by (simp add: normalize_metadata_def error_stripped not_modified_length_def Let_def)

lemma normalize_error:
  "normalize_response \<lparr>rsp_head = \<lparr>rh_status = status, rh_headers = error_fields policy status\<rparr>,
       rsp_body = Some (if error_payload status is_head policy = [] then RBEmpty
                        else RBBytes (error_payload status is_head policy)),
       rsp_normalized = False\<rparr> is_head =
   Some (Inr \<lparr>rsp_head = \<lparr>rh_status = status,
                         rh_headers = error_fields policy status @ error_length_fields status is_head policy\<rparr>,
              rsp_body = Some (if error_payload status is_head policy = []
                               then if is_head \<and> permits_payload_body status then RBEmptyWithLength 0 else RBEmpty
                               else RBBytes (error_payload status is_head policy)),
              rsp_normalized = True\<rparr>)"
  by (simp add: normalize_response_unfold error_metadata framing_length_def representation_length_def body_length_of_def
      normal_body_def error_length_fields_def error_payload_def split: if_splits)

text \<open>The runtime's own errors: the status, the fixed fields, the text and its length.\<close>

lemma wire_error_Some:
  fixes hy :: "'h hyper_api"
  assumes "hyper_laws hy"
  obtains m where "wire_error hy status is_head policy =
      Some \<lparr>hr_status = canonical_status status, hr_headers = m,
            hr_body = WireBytes (error_payload (canonical_status status) is_head policy)\<rparr>"
    and "\<And>k. hm_get_all hy m k =
      values_of (error_fields policy (canonical_status status)
        @ error_length_fields (canonical_status status) is_head policy) k"
proof -
  let ?s = "canonical_status status"
  let ?b = "error_fields policy ?s @ error_length_fields ?s is_head policy"
  have "block_wf ?b" using error_fields_wf [of policy ?s]
    by (auto simp: block_wf_def error_length_fields_def content_length_field_wf)
  then obtain m where m: "append_fields hy ?b (hm_new hy) = Inr m"
    using append_fields_total [OF assms] by blast
  have "100 \<le> ?s \<and> ?s < 1000" by (auto simp: canonical_status_def status_new_def)
  then have "wire_error hy status is_head policy =
      Some \<lparr>hr_status = ?s, hr_headers = m, hr_body = WireBytes (error_payload ?s is_head policy)\<rparr>"
    by (simp add: wire_error_def runtime_error_eq normalize_error ok_value_def error_to_hyper_def m
        hyper_conversions(9) [OF assms])
  with that append_fields_Inr [OF assms m] show thesis by (simp add: hyper_reads(1) [OF assms])
qed

section \<open>Lemmas on presented rejections\<close>

definition presentable :: "header_field \<Rightarrow> bool" where
  [rust_eval]: "presentable f \<longleftrightarrow> \<not> List.member presenter_ignored (to_ascii_lowercase (name_str (hf_name f)))"

lemma present_fields_Some:
  assumes "hyper_laws hy"
  shows "present_fields hy fs m n = Some m' \<Longrightarrow>
    hm_get_all hy m' k = hm_get_all hy m k @ values_of (filter presentable fs) k
    \<and> hm_len hy m' = hm_len hy m + length (filter presentable fs)
    \<and> (hm_len hy m \<le> 64 \<longrightarrow> hm_len hy m' \<le> 64)"
proof (induction fs arbitrary: m n)
  case (Cons f fs)
  show ?case
  proof (cases "presentable f")
    case True
    then obtain nm v n' where n: "hn_from_bytes hy (name_str (hf_name f)) = Some nm"
      and v: "hv_from_bytes hy (value_bytes (hf_value f)) = Some v"
      and len: "hm_len hy m < 64"
      and r: "present_fields hy fs (hm_append hy m nm v) n' = Some m'"
      using Cons.prems by (auto simp: presentable_def Let_def not_le split: if_splits option.splits)
    show ?thesis
      using Cons.IH [OF r] True len hyper_conversions(1) [OF assms n] hyper_conversions(3) [OF assms v]
      by (simp add: hyper_reads [OF assms] values_of_def)
  next
    case False
    then have "present_fields hy fs m n = Some m'" using Cons.prems by (simp add: presentable_def)
    from Cons.IH [OF this] False show ?thesis by auto
  qed
qed (simp add: values_of_def)

lemma presented_names:
  assumes "List.member presenter_ignored (to_ascii_lowercase k)"
  shows "values_of (filter presentable fs) k = []"
  using assms by (auto simp: values_of_def presentable_def eq_ignore_ascii_case_def filter_empty_conv)

lemma error_names_only:
  assumes "\<not> eq_ignore_ascii_case ''content-type'' k" "\<not> eq_ignore_ascii_case ''allow'' k"
    "\<not> eq_ignore_ascii_case ''content-length'' k"
  shows "values_of (error_fields policy s @ error_length_fields s is_head policy) k = []"
  using assms by (auto simp: values_of_def error_fields_def error_length_fields_def content_length_field_def filter_empty_conv)

lemma error_length_value:
  "values_of (error_fields policy s @ error_length_fields s is_head policy) ''content-length'' =
     (if permits_payload_body s then [dec (length (error_payload s is_head policy))] else [])"
proof -
  have "\<not> eq_ignore_ascii_case ''content-type'' ''content-length''" "\<not> eq_ignore_ascii_case ''allow'' ''content-length''"
    by (simp_all add: rust_eval)
  then show ?thesis
    by (simp add: values_of_def error_fields_def error_length_fields_def content_length_field_def error_payload_length)
qed

lemma error_payload_bound: "length (error_payload s is_head policy) \<le> MAX_RUNTIME_REJECTION_BODY_BYTES"
proof (cases "canonical_reason s")
  case (Some reason)
  then have "(s, reason) \<in> set reason_table" by (auto simp: canonical_reason_def dest: map_of_SomeD)
  moreover have "list_all (\<lambda>(s, r). length (dec s @ '' '' @ r) < 64) reason_table" by (simp add: rust_eval)
  ultimately have "length (dec s @ '' '' @ reason) < 64" by (auto simp: list_all_iff)
  with Some show ?thesis by (simp add: error_text_def error_payload_def MAX_RUNTIME_REJECTION_BODY_BYTES_def)
qed (simp add: error_text_def error_payload_def)

definition runtime_names :: "string list" where
  [rust_eval]: "runtime_names =
     [''transfer-encoding'', ''connection'', ''keep-alive'', ''upgrade'', ''trailer'', ''date'', ''server'']"

lemma runtime_names_apart:
  assumes "k \<in> set runtime_names"
  shows "List.member presenter_ignored (to_ascii_lowercase k)" "\<not> eq_ignore_ascii_case ''content-type'' k"
    "\<not> eq_ignore_ascii_case ''allow'' k" "\<not> eq_ignore_ascii_case ''content-length'' k"
proof -
  have "list_all (\<lambda>k. List.member presenter_ignored (to_ascii_lowercase k) \<and> \<not> eq_ignore_ascii_case ''content-type'' k
      \<and> \<not> eq_ignore_ascii_case ''allow'' k \<and> \<not> eq_ignore_ascii_case ''content-length'' k) runtime_names"
    by (simp add: rust_eval)
  then show "List.member presenter_ignored (to_ascii_lowercase k)" "\<not> eq_ignore_ascii_case ''content-type'' k"
    "\<not> eq_ignore_ascii_case ''allow'' k" "\<not> eq_ignore_ascii_case ''content-length'' k"
    using assms by (auto simp: list_all_iff)
qed

text \<open>The framing that every runtime rejection has, presented or not.\<close>

definition rejection_framed :: "'h hyper_api \<Rightarrow> nat \<Rightarrow> bool \<Rightarrow> 'h hyper_response \<Rightarrow> bool" where
  "rejection_framed hy status is_head r \<longleftrightarrow>
     hr_status r = status
     \<and> (\<exists>body. hr_body r = WireBytes body \<and> length body \<le> MAX_RUNTIME_REJECTION_BODY_BYTES
          \<and> (is_head \<or> \<not> permits_payload_body status \<longrightarrow> body = [])
          \<and> (permits_payload_body status \<and> \<not> is_head \<longrightarrow>
               hm_get_all hy (hr_headers r) ''content-length'' = [dec (length body)]))
     \<and> (\<forall>k\<in>set runtime_names.
          hm_get_all hy (hr_headers r) k = [])"

lemma error_payload_none: "is_head \<or> \<not> permits_payload_body s \<Longrightarrow> error_payload s is_head policy = []"
  by (auto simp: error_payload_def)

lemma fallback_framed:
  assumes "hyper_laws hy" "100 \<le> status" "status \<le> 599"
  obtains r where "wire_error hy status is_head policy = Some r" "rejection_framed hy status is_head r"
proof -
  have s: "canonical_status status = status" using assms by (simp add: canonical_status_def status_new_def)
  obtain m where "wire_error hy status is_head policy =
      Some \<lparr>hr_status = status, hr_headers = m, hr_body = WireBytes (error_payload status is_head policy)\<rparr>"
    and m: "\<And>k. hm_get_all hy m k = values_of (error_fields policy status @ error_length_fields status is_head policy) k"
    using wire_error_Some [OF assms(1), of status is_head policy] unfolding s by blast
  moreover have "hm_get_all hy m k = []"
    if "k \<in> set runtime_names" for k
    using runtime_names_apart [OF that] unfolding m by (intro error_names_only)
  moreover have "hm_get_all hy m ''content-length'' = (if permits_payload_body status then [dec (length (error_payload status is_head policy))] else [])"
    by (simp only: m error_length_value)
  ultimately show thesis
    by (intro that [of "\<lparr>hr_status = status, hr_headers = m, hr_body = WireBytes (error_payload status is_head policy)\<rparr>"])
      (auto simp: rejection_framed_def error_payload_bound error_payload_none)
qed

lemma presented_framed:
  assumes "hyper_laws hy" "100 \<le> status" "status \<le> 599"
    and fs: "present_fields hy (take 65 fs) (hm_new hy) 0 = Some m"
    and len: "length body \<le> MAX_RUNTIME_REJECTION_BODY_BYTES"
  shows "rejection_framed hy status is_head
    \<lparr>hr_status = status,
     hr_headers = presented_length hy status (length body)
       (if is_head \<or> (\<not> is_head \<and> permits_payload_body status) then length body else 0) m,
     hr_body = WireBytes (if \<not> is_head \<and> permits_payload_body status then body else [])\<rparr>"
proof -
  have k: "hm_get_all hy m k = []" if "List.member presenter_ignored (to_ascii_lowercase k)" for k
    using present_fields_Some [OF assms(1) fs] that by (simp add: presented_names hyper_reads [OF assms(1)])
  have v: "hv_from_str hy (dec n) = Some (dec n)" for n
    by (rule hyper_conversions(7) [OF assms(1)], rule list.pred_mono_strong [OF dec_digits])
      (auto simp: printable_ascii_def is_ascii_digit_def)
  have "hm_get_all hy (presented_length hy status a n m) k = []"
    if "k \<in> set runtime_names" for k a n
  proof -
    from runtime_names_apart [OF that] show ?thesis using k [of k] by (simp add: presented_length_def v hyper_reads [OF assms(1)] Let_def)
  qed
  moreover have "hm_get_all hy (presented_length hy status a n m) ''content-length'' = [dec n]" if "permits_payload_body status" for a n
    using that by (auto simp: presented_length_def v hyper_reads [OF assms(1)] Let_def permits_payload_body_def)
  ultimately show ?thesis using len by (auto simp: rejection_framed_def)
qed

section \<open>Lemmas on the privacy policy\<close>

lemma remove_all_reads:
  assumes "hyper_laws hy"
  shows "hm_get_all hy (remove_all hy ns m) k =
    (if list_ex (\<lambda>n. eq_ignore_ascii_case n k) ns then [] else hm_get_all hy m k)"
  by (induction ns arbitrary: m) (auto simp: hyper_reads [OF assms])

definition dates_printable :: "httpdate \<Rightarrow> bool" where
  "dates_printable dt \<longleftrightarrow> (\<forall>t. list_all printable_ascii (hd_fmt dt t))"

definition server_printable :: "response_policy \<Rightarrow> bool" where
  [rust_eval]: "server_printable policy \<longleftrightarrow>
     (case rp_server_identification policy of Some s \<Rightarrow> list_all printable_ascii s | None \<Rightarrow> True)"

lemma server_date_apart:
  "\<not> eq_ignore_ascii_case ''server'' ''date''" "\<not> eq_ignore_ascii_case ''date'' ''server''"
  "\<not> eq_ignore_ascii_case ''server'' ''last-modified''" "\<not> eq_ignore_ascii_case ''date'' ''last-modified''"
  "\<not> eq_ignore_ascii_case ''last-modified'' ''date''" "\<not> eq_ignore_ascii_case ''last-modified'' ''server''"
  by (simp_all add: rust_eval)

lemma finalize_server_reads:
  assumes "hyper_laws hy" "server_printable policy"
  shows "hm_get_all hy (finalize_server hy policy owned m) k =
    (if owned \<and> eq_ignore_ascii_case ''server'' k then case_option [] (\<lambda>s. [s]) (rp_server_identification policy)
     else hm_get_all hy m k)"
  using assms(2) by (auto simp: finalize_server_def server_printable_def hyper_reads [OF assms(1)]
      hyper_conversions(7) [OF assms(1)] Let_def split: option.splits)

lemma finalize_date_reads:
  assumes "hyper_laws hy" "dates_printable dt"
  shows "hm_get_all hy (finalize_date hy dt now external m) k =
    (if \<not> external \<and> eq_ignore_ascii_case ''date'' k then case_option [] (\<lambda>t. [hd_fmt dt t]) now else hm_get_all hy m k)"
  using assms(2) by (auto simp: finalize_date_def dates_printable_def hyper_reads [OF assms(1)]
      hyper_conversions(7) [OF assms(1)] Let_def split: option.splits)

lemma drop_future_reads:
  assumes "hyper_laws hy"
  shows "\<not> eq_ignore_ascii_case ''last-modified'' k \<Longrightarrow>
      hm_get_all hy (drop_future_last_modified hy dt m) k = hm_get_all hy m k"
    and "hm_get_all hy (drop_future_last_modified hy dt m) k \<in> {[], hm_get_all hy m k}"
    and "Option.bind (hm_get hy (drop_future_last_modified hy dt m) ''date'') (header_date hy dt) = Some date \<Longrightarrow>
      Option.bind (hm_get hy (drop_future_last_modified hy dt m) ''last-modified'') (header_date hy dt) = Some lm \<Longrightarrow>
      lm \<le> date"
proof -
  show "\<not> eq_ignore_ascii_case ''last-modified'' k \<Longrightarrow>
      hm_get_all hy (drop_future_last_modified hy dt m) k = hm_get_all hy m k"
    by (auto simp: drop_future_last_modified_def hyper_reads [OF assms] split: option.splits)
  show "hm_get_all hy (drop_future_last_modified hy dt m) k \<in> {[], hm_get_all hy m k}"
    by (auto simp: drop_future_last_modified_def hyper_reads [OF assms] split: option.splits)
  let ?date = "Option.bind (hm_get hy m ''date'') (header_date hy dt)"
  let ?lm = "Option.bind (hm_get hy m ''last-modified'') (header_date hy dt)"
  assume d: "Option.bind (hm_get hy (drop_future_last_modified hy dt m) ''date'') (header_date hy dt) = Some date"
    and l: "Option.bind (hm_get hy (drop_future_last_modified hy dt m) ''last-modified'') (header_date hy dt) = Some lm"
  show "lm \<le> date"
  proof (cases "\<exists>a b. ?date = Some a \<and> ?lm = Some b \<and> b > a")
    case True
    then have "drop_future_last_modified hy dt m = hm_remove hy m ''last-modified''"
      by (auto simp: drop_future_last_modified_def)
    with l show ?thesis by (simp add: hyper_reads [OF assms])
  next
    case False
    then have "drop_future_last_modified hy dt m = m"
      by (auto simp: drop_future_last_modified_def split: option.splits)
    with False d l show ?thesis by auto
  qed
qed

lemma validated_names:
  "validate_stripped_names ns = Inr () \<Longrightarrow> List.member blocked_stripped_headers (to_ascii_lowercase k) \<Longrightarrow>
   \<not> list_ex (\<lambda>n. eq_ignore_ascii_case n k) ns"
  by (induction ns)
    (auto simp: result_inv validate_stripped_header_name_def header_name_new_Inr eq_ignore_ascii_case_def split: if_splits)

text \<open>What the policy leaves of the fields when the runtime owns them.\<close>

definition privacy_applied ::
  "'h hyper_api \<Rightarrow> httpdate \<Rightarrow> date_clock \<Rightarrow> response_policy \<Rightarrow> 'h \<Rightarrow> 'h \<Rightarrow> bool" where
  "privacy_applied hy dt clock policy m m' \<longleftrightarrow>
     hm_get_all hy m' ''date'' = (case date_now clock (rp_date_policy policy) of Some t \<Rightarrow> [hd_fmt dt t] | None \<Rightarrow> [])
     \<and> hm_get_all hy m' ''server'' = (case rp_server_identification policy of Some s \<Rightarrow> [s] | None \<Rightarrow> [])
     \<and> (\<forall>n\<in>set (rp_stripped_response_headers policy). \<not> eq_ignore_ascii_case n ''server'' \<longrightarrow> hm_get_all hy m' n = [])
     \<and> (\<forall>date lm. Option.bind (hm_get hy m' ''date'') (header_date hy dt) = Some date
          \<and> Option.bind (hm_get hy m' ''last-modified'') (header_date hy dt) = Some lm \<longrightarrow> lm \<le> date)
     \<and> (\<forall>k. \<not> list_ex (\<lambda>n. eq_ignore_ascii_case n k) (''date'' # ''server'' # ''last-modified'' # rp_stripped_response_headers policy)
          \<longrightarrow> hm_get_all hy m' k = hm_get_all hy m k)
     \<and> (\<forall>k\<in>set blocked_stripped_headers - {''date''}. hm_get_all hy m' k = hm_get_all hy m k)"

lemma blocked_apart:
  assumes "k \<in> set blocked_stripped_headers - {''date''}"
  shows "List.member blocked_stripped_headers (to_ascii_lowercase k)" "\<not> eq_ignore_ascii_case ''date'' k"
    "\<not> eq_ignore_ascii_case ''server'' k" "\<not> eq_ignore_ascii_case ''last-modified'' k"
proof -
  have "list_all (\<lambda>k. k = ''date'' \<or> List.member blocked_stripped_headers (to_ascii_lowercase k) \<and> \<not> eq_ignore_ascii_case ''date'' k
      \<and> \<not> eq_ignore_ascii_case ''server'' k \<and> \<not> eq_ignore_ascii_case ''last-modified'' k) blocked_stripped_headers"
    by (simp add: rust_eval)
  then show "List.member blocked_stripped_headers (to_ascii_lowercase k)" "\<not> eq_ignore_ascii_case ''date'' k"
    "\<not> eq_ignore_ascii_case ''server'' k" "\<not> eq_ignore_ascii_case ''last-modified'' k"
    using assms by (auto simp: list_all_iff)
qed

lemma owned_reads:
  fixes hy :: "'h hyper_api"
  assumes laws: "hyper_laws hy" and dt: "dates_printable dt" and policy: "server_printable policy"
    "validate_stripped_names (rp_stripped_response_headers policy) = Inr ()"
  shows "privacy_applied hy dt clock policy m
    (drop_future_last_modified hy dt (finalize_date hy dt (date_now clock (rp_date_policy policy)) False
       (finalize_server hy policy True (remove_all hy (rp_stripped_response_headers policy) m))))"
    (is "privacy_applied _ _ _ _ _ ?m'")
proof -
  have reads: "hm_get_all hy ?m' k =
      (if eq_ignore_ascii_case ''date'' k then case_option [] (\<lambda>t. [hd_fmt dt t]) (date_now clock (rp_date_policy policy))
       else if eq_ignore_ascii_case ''server'' k then case_option [] (\<lambda>s. [s]) (rp_server_identification policy)
       else if list_ex (\<lambda>n. eq_ignore_ascii_case n k) (rp_stripped_response_headers policy) then []
       else hm_get_all hy m k)" if "\<not> eq_ignore_ascii_case ''last-modified'' k" for k
    using that by (simp add: drop_future_reads(1) [OF laws] finalize_date_reads [OF laws dt]
        finalize_server_reads [OF laws policy(1)] remove_all_reads [OF laws])
  have blocked: "hm_get_all hy ?m' k = hm_get_all hy m k" if "k \<in> set blocked_stripped_headers - {''date''}" for k
    using blocked_apart [OF that] validated_names [OF policy(2)] by (simp add: reads)
  have stripped: "hm_get_all hy ?m' n = []"
    if "n \<in> set (rp_stripped_response_headers policy)" "\<not> eq_ignore_ascii_case n ''server''" for n
  proof (cases "eq_ignore_ascii_case ''last-modified'' n")
    case True
    then have "\<not> eq_ignore_ascii_case ''date'' n"
      using server_date_apart(4) eq_ignore_ascii_case_sym eq_ignore_ascii_case_trans by blast
    moreover have "list_ex (\<lambda>x. eq_ignore_ascii_case x n) (rp_stripped_response_headers policy)"
      using that by (auto simp: list_ex_iff intro!: bexI [of _ n])
    ultimately show ?thesis
      using that(2) drop_future_reads(2) [OF laws, of dt "finalize_date hy dt (date_now clock (rp_date_policy policy)) False
         (finalize_server hy policy True (remove_all hy (rp_stripped_response_headers policy) m))" n]
      by (simp add: finalize_date_reads [OF laws dt] finalize_server_reads [OF laws policy(1)] remove_all_reads [OF laws]
          eq_ignore_ascii_case_sym)
  next
    case False
    have "\<not> eq_ignore_ascii_case n ''date''"
      using that(1) validated_names [OF policy(2), of "''date''"] by (auto simp: list_ex_iff rust_eval)
    with False that show ?thesis by (auto simp: reads eq_ignore_ascii_case_sym list_ex_iff)
  qed
  show ?thesis
    unfolding privacy_applied_def
    using blocked stripped drop_future_reads(3) [OF laws]
    by (intro conjI) (auto simp: reads server_date_apart list_ex_iff)
qed

section \<open>Properties\<close>

text \<open>
  C22: The privacy policy at the response boundary, for every response of the runtime itself and, where
  the runtime owns the response metadata (it does under a policy projected from a configuration; with
  external ownership a service's own date and server stay), for every response of a service.  Under a
  validated policy with a printable server identification, and with printable dates, whatever fields the
  response has, after finalisation it carries exactly the runtime's \<^verbatim>\<open>Date\<close> (or none when it is
  suppressed), exactly the configured \<^verbatim>\<open>Server\<close> (or none, also when \<^verbatim>\<open>server\<close> is denylisted: the
  configured one is inserted after the denylist), none of the other denylisted fields, and no
  \<^verbatim>\<open>Last-Modified\<close> later than its date; every other field, and in particular all framing, is as it
  was; status and body are unchanged.
\<close>

theorem finalized_privacy:
  fixes hy :: "'h hyper_api"
  assumes "hyper_laws hy" "dates_printable dt" "server_printable (h1_response_policy config)"
    and "response_policy_validate (h1_response_policy config) = Inr ()"
    and "provenance = RuntimeProvenance \<or> h1_response_metadata_ownership config = metadata_eggserve_owned"
  shows "\<exists>m. finalize_runtime_response hy dt clock config provenance r = Some (r\<lparr>hr_headers := m\<rparr>)
    \<and> privacy_applied hy dt clock (h1_response_policy config) (hr_headers r) m"
proof -
  have "validate_stripped_names (rp_stripped_response_headers (h1_response_policy config)) = Inr ()"
    using assms(4) by (auto simp: response_policy_validate_def result_inv)
  from owned_reads [OF assms(1-3) this, of clock "hr_headers r"] assms(5) show ?thesis
    by (cases provenance) (auto simp: finalize_runtime_response_def Let_def metadata_eggserve_owned_def)
qed

lemma runtime_rejection_framed:
  fixes hy :: "'h hyper_api"
  assumes "hyper_laws hy" "100 \<le> status" "status \<le> 599"
  obtains r where "present_runtime_rejection hy status kind is_head policy = Some r" "rejection_framed hy status is_head r"
proof -
  obtain f where f: "wire_error hy status is_head (rp_error_policy (h1_response_policy policy)) = Some f"
      "rejection_framed hy status is_head f"
    using fallback_framed [OF assms] by blast
  have s: "status_new status = Inr status" using assms by (simp add: status_new_def)
  have "\<exists>r. present_runtime_rejection hy status kind is_head policy = Some r \<and> rejection_framed hy status is_head r"
    using f presented_framed [OF assms]
    by (auto simp: present_runtime_rejection_def s Let_def split: option.splits)
  with that show thesis by blast
qed

text \<open>
  C23: Every rejection the runtime writes is well framed, whatever an embedding application's
  presenter returns (nothing, a panic, oversized or invalid fields, framing fields of its own): the
  builder does not panic, the status is the runtime's, the body is at most 64 KiB and empty for HEAD
  and for statuses without payload, its length is the one \<^verbatim>\<open>Content-Length\<close> field, and no framing,
  connection, date or server field of the presenter gets through.
\<close>

theorem rejections_framed:
  fixes hy :: "'h hyper_api"
  assumes "hyper_laws hy" "100 \<le> status" "status \<le> 599"
  shows "\<exists>r. present_runtime_rejection hy status kind is_head policy = Some r \<and> rejection_framed hy status is_head r"
  using runtime_rejection_framed [OF assms] by blast

text \<open>
  C24: Every failure of a request body is answered.  The response is built and well framed, its status
  is 400, 408, 413 or 500 (the internal 499 never reaches the wire), and the connection is closed and
  the body cancelled exactly when the failure leaves the position on the wire unknown, that is for
  every failure except the three consumption mistakes of a service.
\<close>

theorem body_failures_answered:
  fixes hy :: "'h hyper_api"
  assumes "hyper_laws hy"
  shows "\<exists>r. body_error_to_response hy err head policy = Some r
    \<and> rejection_framed hy (hr_status r) (method_is_head (rq_method head)) r
    \<and> hr_status r \<in> {400, 408, 413, 500}
    \<and> ld_cancel_request_body (body_error_disposition err) = (err \<notin> {AlreadyConsumed, MixedConsumptionMode, TrailersNotReady})
    \<and> hm_get_all hy (hr_headers (apply_http1_disposition hy r (body_error_disposition err))) ''connection'' =
        (if err \<in> {AlreadyConsumed, MixedConsumptionMode, TrailersNotReady} then [] else [''close''])"
proof -
  let ?s = "wire_status (unat (to_status_code err))"
  have st: "?s \<in> {400, 408, 413, 500}" by (cases err) (simp_all add: wire_status_def)
  then have bounds: "100 \<le> ?s" "?s \<le> 599" by auto
  then have h: "hyper_status hy ?s = ?s" by (simp add: hyper_status_def hyper_conversions(9) [OF assms])
  obtain r where r: "body_error_to_response hy err head policy = Some r" "rejection_framed hy ?s (method_is_head (rq_method head)) r"
    using runtime_rejection_framed [OF assms bounds] unfolding body_error_to_response_def Let_def h by blast
  then have "hm_get_all hy (hr_headers r) ''connection'' = []" "hr_status r = ?s"
    by (auto simp: rejection_framed_def runtime_names_def)
  with r st show ?thesis
    by (cases err) (auto simp: body_error_disposition_def apply_http1_disposition_def close_and_cancel_body_def KEEP_ALIVE_def
        hyper_reads [OF assms])
qed

section \<open>Presenter limits\<close>

text \<open>
  Ignored fields use up the window of 65 fields, so a field after it is lost without the fallback
  that the comment in \<^verbatim>\<open>connection/response.rs\<close> describes; and some hop-by-hop fields are not ignored.
\<close>

definition plain_field :: "string \<Rightarrow> string \<Rightarrow> header_field" where
  [rust_eval]: "plain_field n v = \<lparr>hf_name = HeaderName n, hf_value = HeaderValue v\<rparr>"

lemma presentation_truncated:
  "present_fields hy (take 65 (replicate 65 (plain_field ''connection'' ''close'') @ fs)) (hm_new hy) 0 = Some (hm_new hy)"
proof -
  have "to_ascii_lowercase ''connection'' \<in> set presenter_ignored" by (simp add: rust_eval)
  then have "present_fields hy (replicate n (plain_field ''connection'' ''close'')) m 0 = Some m" for n m
    by (induction n) (simp_all add: plain_field_def)
  then show ?thesis by simp
qed

lemma hop_by_hop_presented:
  "presentable (plain_field ''te'' v) \<and> is_hop_by_hop_header ''te''
   \<and> presentable (plain_field ''proxy-authenticate'' v) \<and> is_hop_by_hop_header ''proxy-authenticate''"
  by (simp add: rust_eval)

text \<open>
  A runtime error for HEAD is built without its text, so it announces the length zero, not the
  length that GET announces.
\<close>

lemma head_error_length:
  fixes hy :: "'h hyper_api"
  assumes "hyper_laws hy"
  shows "\<exists>get head. wire_error hy 404 False ErrorMinimal = Some get \<and> wire_error hy 404 True ErrorMinimal = Some head
    \<and> hm_get_all hy (hr_headers get) ''content-length'' = [''14''] \<and> hm_get_all hy (hr_headers head) ''content-length'' = [''0'']"
proof -
  have "canonical_status 404 = 404" "permits_payload_body 404"
    "dec (length (error_payload 404 False ErrorMinimal)) = ''14''" "dec (length (error_payload 404 True ErrorMinimal)) = ''0''"
    by (simp_all add: rust_eval)
  then show ?thesis
    using wire_error_Some [OF assms, of 404 False ErrorMinimal] wire_error_Some [OF assms, of 404 True ErrorMinimal]
    by (metis error_length_value hyper_response.select_convs(2))
qed

section \<open>Witnesses\<close>

text \<open>The default policy of a connection, with a presenter that sets framing fields of its own.\<close>

definition hostile_presenter :: rejection_presenter where
  [rust_eval]: "hostile_presenter rejection =
     Some (Some \<lparr>ep_headers = [plain_field ''X-Brand'' ''a'', plain_field ''Content-Length'' ''9''], ep_body = ''no''\<rparr>)"

definition sample_policy :: h1_connection_policy where
  [rust_eval]: "sample_policy =
     \<lparr>h1_header_read_timeout = DEFAULT_HEADER_READ_TIMEOUT, h1_connection_total_timeout = 0,
      h1_handler_timeout = DEFAULT_HANDLER_TIMEOUT, h1_body_read_timeout = DEFAULT_BODY_READ_TIMEOUT,
      h1_graceful_shutdown_timeout = DEFAULT_GRACEFUL_SHUTDOWN_TIMEOUT,
      h1_response_policy = response_policy_default\<lparr>rp_stripped_response_headers := [''x-powered-by'']\<rparr>,
      h1_max_request_body_bytes = 0, h1_max_buf_size = MIN_MAX_BUF_SIZE, h1_max_headers = 100,
      h1_max_header_bytes = MAX_MAX_HEADER_BYTES, h1_max_request_target_bytes = MAX_MAX_REQUEST_TARGET_BYTES,
      h1_http1_request_target_mode = OriginOnly, h1_policy_ownership = eggserve_owned,
      h1_request_header_bytes_owner = EggServe, h1_response_metadata_ownership = metadata_eggserve_owned,
      h1_admission_ownership = admission_eggserve_owned, h1_keep_alive_idle_timeout = 1,
      h1_max_requests_per_connection = None, h1_response_write_timeout = 1,
      h1_trusted_proxy = trusted_proxy_default, h1_stream_chunk_size = DEFAULT_STREAM_CHUNK_SIZE,
      h1_runtime_rejection_presenter = Some hostile_presenter\<rparr>"

theorem rejections_framed_witness:
  "\<exists>r. present_runtime_rejection list_hyper 413 RequestBodyTooLargeKind False sample_policy = Some r
     \<and> rejection_framed list_hyper 413 False r"
  using rejections_framed [OF list_hyper_laws, of 413 RequestBodyTooLargeKind False sample_policy] by simp

lemma rejection_presented:
  "present_runtime_rejection list_hyper 413 RequestBodyTooLargeKind False sample_policy =
     Some \<lparr>hr_status = 413, hr_headers = [(''x-brand'', ''a''), (''content-length'', ''2'')], hr_body = WireBytes ''no''\<rparr>"
  by (simp add: present_runtime_rejection_def rust_eval)

definition sample_head :: request_head where
  [rust_eval]: "sample_head = request_head_new (Method ''POST'')
     \<lparr>rt_raw = ''/'', rt_form = OriginForm, rt_scheme = None, rt_authority = None, rt_path_start = 0, rt_path_end = 1,
      rt_query_start = None\<rparr> Http11 []"

theorem body_failures_answered_witness:
  "\<exists>r. body_error_to_response list_hyper ReadTimeout
        sample_head sample_policy = Some r
     \<and> hr_status r \<in> {400, 408, 413, 500}
     \<and> hm_get_all list_hyper (hr_headers (apply_http1_disposition list_hyper r (body_error_disposition ReadTimeout)))
         ''connection'' = [''close'']"
  using body_failures_answered [OF list_hyper_laws, of ReadTimeout
      sample_head sample_policy]
  by auto

theorem finalized_privacy_witness:
  "\<exists>m. finalize_runtime_response list_hyper sample_dates (\<lambda>_. 7) sample_policy ServiceProvenance
        \<lparr>hr_status = 200, hr_headers = [(''date'', ''x''), (''x-powered-by'', ''y'')], hr_body = WireBytes []\<rparr> =
      Some \<lparr>hr_status = 200, hr_headers = m, hr_body = WireBytes []\<rparr>
     \<and> hm_get_all list_hyper m ''date'' = [''T''] \<and> hm_get_all list_hyper m ''x-powered-by'' = []"
proof -
  have "server_printable (h1_response_policy sample_policy)" "response_policy_validate (h1_response_policy sample_policy) = Inr ()"
    by (simp_all add: rust_eval)
  moreover have "dates_printable sample_dates" by (simp add: dates_printable_def sample_dates_def rust_eval)
  moreover have "h1_response_metadata_ownership sample_policy = metadata_eggserve_owned" by (simp add: sample_policy_def)
  ultimately show ?thesis
    using finalized_privacy [OF list_hyper_laws, of sample_dates sample_policy ServiceProvenance "\<lambda>_. 7"
        "\<lparr>hr_status = 200, hr_headers = [(''date'', ''x''), (''x-powered-by'', ''y'')], hr_body = WireBytes []\<rparr>"]
    by (auto simp: privacy_applied_def sample_policy_def response_policy_default_def date_now_def sample_dates_def rust_eval)
qed

end
