(* ===== verification/Connection_Activity.thy ===== *)
theory Connection_Activity
  imports Runtime_Response
begin

text \<open>
  The activity of one connection: \<^verbatim>\<open>connection/activity.rs\<close>, the registry of \<^verbatim>\<open>connection/lifecycle.rs\<close>
  and the supervision of \<^verbatim>\<open>connection/deferred_body.rs\<close>, in \<^verbatim>\<open>eggserve-server/src\<close>.

  An \<open>instant\<close> is a number of nanoseconds; the reading of the clock is the argument \<open>now\<close>.  A semaphore
  is the number of its free permits, \<open>ca_notified\<close> the permit that \<^verbatim>\<open>notify_one\<close> leaves for the driver.
  No code that holds the lock of the activity state panics, so it is never poisoned.  A request that a
  weak reference points to is looked up in a store, where a dropped one is \<open>None\<close>.
\<close>

section \<open>Activity\<close>

type_synonym instant = nat

record connection_activity =
  ca_start :: instant
  ca_ops :: ops_context
  ca_last_activity :: instant
  ca_last_write :: instant
  ca_in_flight :: u64
  ca_outstanding :: u64
  ca_completed :: u64
  ca_deferred :: u64
  ca_body_timeout_fired :: bool
  ca_notified :: bool
  ca_tunnels :: nat
  ca_tunnels_started :: bool

definition activity_new :: "ops_context \<Rightarrow> instant \<Rightarrow> connection_activity" where
  [rust_eval]: "activity_new ctx now =
     \<lparr>ca_start = now, ca_ops = ctx, ca_last_activity = now, ca_last_write = now, ca_in_flight = 0, ca_outstanding = 0,
      ca_completed = 0, ca_deferred = 0, ca_body_timeout_fired = False, ca_notified = False, ca_tunnels = 0,
      ca_tunnels_started = False\<rparr>"

definition notify_driver :: "connection_activity \<Rightarrow> connection_activity" where
  [rust_eval]: "notify_driver a = a\<lparr>ca_notified := True\<rparr>"

definition touch :: "instant \<Rightarrow> connection_activity \<Rightarrow> connection_activity" where
  [rust_eval]: "touch now a = a\<lparr>ca_last_activity := now\<rparr>"

definition request_started :: "connection_activity \<Rightarrow> ops_world \<Rightarrow> connection_activity \<times> ops_world" where
  [rust_eval]: "request_started a w =
     (notify_driver (a\<lparr>ca_in_flight := ca_in_flight a + 1\<rparr>),
      ops_count (ca_ops a) (oc_active_service_requests_update (\<lambda>n. n + 1)) w)"

definition request_finished_without_service ::
  "instant \<Rightarrow> connection_activity \<Rightarrow> ops_world \<Rightarrow> connection_activity \<times> ops_world" where
  [rust_eval]: "request_finished_without_service now a w =
     (notify_driver (touch now (a\<lparr>ca_in_flight := ca_in_flight a - 1\<rparr>)),
      ops_count (ca_ops a) (oc_active_service_requests_update (\<lambda>n. n - 1)) w)"

definition record_write :: "instant \<Rightarrow> nat \<Rightarrow> connection_activity \<Rightarrow> connection_activity" where
  [rust_eval]: "record_write now bytes a =
     (if bytes = 0 then a else a\<lparr>ca_last_write := now, ca_last_activity := now\<rparr>)"

definition record_read :: "instant \<Rightarrow> nat \<Rightarrow> connection_activity \<Rightarrow> connection_activity" where
  [rust_eval]: "record_read now bytes a = (if bytes = 0 then a else touch now a)"

definition response_started :: "instant \<Rightarrow> connection_activity \<Rightarrow> connection_activity" where
  [rust_eval]: "response_started now a =
     notify_driver (a\<lparr>ca_outstanding := ca_outstanding a + 1, ca_last_write := now, ca_last_activity := now\<rparr>)"

text \<open>\<^verbatim>\<open>fetch_sub\<close> that is undone when the counter was zero.\<close>

definition sub_or_restore :: "u64 \<Rightarrow> u64" where
  [rust_eval]: "sub_or_restore n = (if n = 0 then (n - 1) + 1 else n - 1)"

definition response_finished :: "instant \<Rightarrow> connection_activity \<Rightarrow> connection_activity" where
  [rust_eval]: "response_finished now a =
     notify_driver (touch now (a\<lparr>ca_outstanding := sub_or_restore (ca_outstanding a)\<rparr>))"

definition deferred_started :: "connection_activity \<Rightarrow> connection_activity" where
  [rust_eval]: "deferred_started a = notify_driver (a\<lparr>ca_deferred := ca_deferred a + 1\<rparr>)"

definition deferred_finished :: "instant \<Rightarrow> connection_activity \<Rightarrow> connection_activity" where
  [rust_eval]: "deferred_finished now a =
     notify_driver (touch now (a\<lparr>ca_deferred := sub_or_restore (ca_deferred a)\<rparr>))"

definition fire_body_timeout :: "connection_activity \<Rightarrow> connection_activity" where
  [rust_eval]: "fire_body_timeout a = notify_driver (a\<lparr>ca_body_timeout_fired := True\<rparr>)"

definition take_body_timeout :: "connection_activity \<Rightarrow> bool \<times> connection_activity" where
  [rust_eval]: "take_body_timeout a = (ca_body_timeout_fired a, a\<lparr>ca_body_timeout_fired := False\<rparr>)"

definition spawn_tunnel :: "connection_activity \<Rightarrow> connection_activity" where
  [rust_eval]: "spawn_tunnel a = a\<lparr>ca_tunnels_started := True, ca_tunnels := ca_tunnels a + 1\<rparr>"

definition tunnel_count :: "connection_activity \<Rightarrow> nat" where
  [rust_eval]: "tunnel_count a = (if \<not> ca_tunnels_started a then 0 else ca_tunnels a)"

text \<open>
  Draining the tunnels: \<open>joins\<close> are the moments at which tasks end on their own, in order; tasks that
  are left at the deadline are aborted.  \<open>None\<close> is a wait without end.
\<close>

fun join_tunnels ::
  "instant option \<Rightarrow> instant \<Rightarrow> instant list \<Rightarrow> connection_activity \<Rightarrow> (bool \<times> connection_activity) option" where
  "join_tunnels deadline now joins a =
     (if (case deadline of Some at \<Rightarrow> at \<le> now | None \<Rightarrow> False) then Some (False, a\<lparr>ca_tunnels := 0\<rparr>)
      else if ca_tunnels a = 0 then Some (True, a)
      else case joins of
        [] \<Rightarrow> (case deadline of Some at \<Rightarrow> Some (False, a\<lparr>ca_tunnels := 0\<rparr>) | None \<Rightarrow> None)
      | j # js \<Rightarrow>
          if (case deadline of Some at \<Rightarrow> at \<le> j | None \<Rightarrow> False) then Some (False, a\<lparr>ca_tunnels := 0\<rparr>)
          else join_tunnels deadline (max now j) js (a\<lparr>ca_tunnels := ca_tunnels a - 1\<rparr>))"

declare join_tunnels.simps [simp del]

definition drain_tunnels ::
  "instant option \<Rightarrow> instant \<Rightarrow> instant list \<Rightarrow> connection_activity \<Rightarrow> (bool \<times> connection_activity) option" where
  [rust_eval]: "drain_tunnels deadline now joins a =
     (if \<not> ca_tunnels_started a then Some (True, a) else join_tunnels deadline now joins a)"

section \<open>The guard of a request\<close>

definition emit_for :: "custom_sinks \<Rightarrow> ops_context \<Rightarrow> u64 \<Rightarrow> severity \<Rightarrow> event_kind \<Rightarrow> string \<Rightarrow> ops_world \<Rightarrow> ops_world" where
  [rust_eval]: "emit_for cs ctx conn_id sev kind message w =
     (let (ev, w) = event_now sev kind message w in ops_emit cs ctx (event_connection_id conn_id ev) w)"

record in_flight_guard =
  ig_service_permit :: bool
  ig_finished :: bool

definition guard_new :: "connection_activity \<Rightarrow> ops_world \<Rightarrow> in_flight_guard \<times> connection_activity \<times> ops_world" where
  [rust_eval]: "guard_new a w =
     (let (a, w) = request_started a w in (\<lparr>ig_service_permit = False, ig_finished = False\<rparr>, a, w))"

text \<open>\<open>True\<close> is the answer that the service is saturated; the caller presents the rejection.\<close>

definition admit ::
  "custom_sinks \<Rightarrow> nat option \<Rightarrow> u64 \<Rightarrow> connection_activity \<Rightarrow> in_flight_guard \<Rightarrow> ops_world
   \<Rightarrow> bool \<times> nat option \<times> in_flight_guard \<times> ops_world" where
  [rust_eval]: "admit cs semaphore conn_id a g w =
     (case semaphore of
        None \<Rightarrow> (False, None, g, w)
      | Some (Suc n) \<Rightarrow> (False, Some n, g\<lparr>ig_service_permit := True\<rparr>, w)
      | Some 0 \<Rightarrow>
          (let w = ops_count (ca_ops a) (oc_service_admission_rejected_update (\<lambda>n. n + 1)) w
           in (True, Some 0, g, emit_for cs (ca_ops a) conn_id Warn ServiceAdmissionRejected
                 ''service saturated: in-flight request limit'' w)))"

definition release_permit :: "in_flight_guard \<Rightarrow> nat option \<Rightarrow> nat option" where
  [rust_eval]: "release_permit g semaphore = (if ig_service_permit g then map_option Suc semaphore else semaphore)"

text \<open>The accounting of \<^verbatim>\<open>InFlightGuard::finish\<close>, then the finalised response.\<close>

definition finish_accounts ::
  "custom_sinks \<Rightarrow> h1_connection_policy \<Rightarrow> u64 \<Rightarrow> instant \<Rightarrow> lifecycle_disposition \<Rightarrow> in_flight_guard \<Rightarrow> nat option
   \<Rightarrow> connection_activity \<Rightarrow> ops_world \<Rightarrow> lifecycle_disposition \<times> nat option \<times> connection_activity \<times> ops_world" where
  [rust_eval]: "finish_accounts cs config conn_id now disposition g semaphore a w =
     (let semaphore = release_permit g semaphore;
          (a, w) = request_finished_without_service now a w;
          completed = ca_completed a + 1;
          a = a\<lparr>ca_completed := completed\<rparr>;
          reached = (case h1_max_requests_per_connection config of Some limit \<Rightarrow> completed \<ge> limit | None \<Rightarrow> False);
          w = (if reached then
                 emit_for cs (ca_ops a) conn_id Debug MaxRequestsClose
                   ''max requests per connection reached; closing after response''
                   (ops_count (ca_ops a) (oc_max_requests_closes_update (\<lambda>n. n + 1)) w)
               else w);
          disposition = (if reached then with_transport_termination (with_graceful_drain close_after_response)
                         else disposition)
      in (disposition, semaphore, response_started now a, w))"

definition guard_finish ::
  "'h runtime_env \<Rightarrow> date_clock \<Rightarrow> h1_connection_policy \<Rightarrow> u64 \<Rightarrow> instant \<Rightarrow> lifecycle_disposition \<Rightarrow> provenance
   \<Rightarrow> 'h hyper_response \<Rightarrow> in_flight_guard \<Rightarrow> nat option \<Rightarrow> connection_activity \<Rightarrow> ops_world
   \<Rightarrow> ('h hyper_response option \<times> lifecycle_disposition) \<times> nat option \<times> connection_activity \<times> ops_world" where
  [rust_eval]: "guard_finish env clock config conn_id now disposition provenance r g semaphore a w =
     (let (disposition, semaphore, a, w) = finish_accounts (re_sinks env) config conn_id now disposition g semaphore a w
      in ((finalize_runtime_response (re_hyper env) (re_dates env) clock config provenance r, disposition), semaphore, a, w))"

definition guard_drop ::
  "instant \<Rightarrow> in_flight_guard \<Rightarrow> nat option \<Rightarrow> connection_activity \<Rightarrow> ops_world \<Rightarrow> nat option \<times> connection_activity \<times> ops_world" where
  [rust_eval]: "guard_drop now g semaphore a w =
     (if ig_finished g then (semaphore, a, w)
      else let (a, w) = request_finished_without_service now a w in (release_permit g semaphore, a, w))"

section \<open>Tracked bodies\<close>

text \<open>What the wrapped body answers to a poll; the flag of a tracked body is \<^verbatim>\<open>done\<close>.\<close>

datatype inner_poll = InnerPending | InnerFrame | InnerFailed | InnerEnd

definition tracked_finish :: "instant \<Rightarrow> bool \<Rightarrow> connection_activity \<Rightarrow> bool \<times> connection_activity" where
  [rust_eval]: "tracked_finish now finished a = (True, if finished then a else response_finished now a)"

fun tracked_poll :: "instant \<Rightarrow> inner_poll \<Rightarrow> bool \<Rightarrow> connection_activity \<Rightarrow> bool \<times> connection_activity" where
  "tracked_poll now InnerEnd finished a = tracked_finish now finished a"
| "tracked_poll now InnerFailed finished a = tracked_finish now finished a"
| "tracked_poll now InnerFrame finished a = (finished, a)"
| "tracked_poll now InnerPending finished a = (finished, a)"

definition tracked_drop :: "instant \<Rightarrow> bool \<Rightarrow> connection_activity \<Rightarrow> connection_activity" where
  [rust_eval]: "tracked_drop now finished a = snd (tracked_finish now finished a)"

section \<open>Requests of a connection\<close>

type_synonym request_store = "nat \<Rightarrow> request_shared option"

definition register_request :: "request_store \<Rightarrow> nat \<Rightarrow> nat list \<Rightarrow> nat list" where
  [rust_eval]: "register_request store r rs = filter (\<lambda>i. store i \<noteq> None) rs @ [r]"

fun reason_text :: "cancellation_reason \<Rightarrow> string" where
  "reason_text PeerDisconnected = ''peer disconnected''"
| "reason_text ServerShutdown = ''server shutdown''"
| "reason_text ConnectionTimeout = ''connection timeout''"
| "reason_text cancellation_reason.TransportFailure = ''transport failure''"

definition cancel_shared_with_observability ::
  "custom_sinks \<Rightarrow> ops_context \<Rightarrow> u64 \<Rightarrow> cancellation_reason \<Rightarrow> request_shared \<Rightarrow> ops_world
   \<Rightarrow> bool \<times> request_shared \<times> ops_world" where
  [rust_eval]: "cancel_shared_with_observability cs ctx conn_id reason s w =
     (if is_cancelled s then (False, s, w)
      else
        (True, cancel reason s,
         if reason = PeerDisconnected then
           emit_for cs ctx conn_id Debug RequestLifecyclePeerDisconnect ''request lifecycle peer disconnect''
             (ops_count ctx (oc_lifecycle_peer_disconnects_update (\<lambda>n. n + 1)) w)
         else
           emit_for cs ctx conn_id Debug RequestLifecycleRuntimeCancel (''request lifecycle cancelled: '' @ reason_text reason)
             (ops_count ctx (oc_lifecycle_runtime_cancels_update (\<lambda>n. n + 1)) w)))"

fun cancel_all ::
  "custom_sinks \<Rightarrow> ops_context \<Rightarrow> u64 \<Rightarrow> cancellation_reason \<Rightarrow> nat list \<Rightarrow> request_store \<Rightarrow> ops_world
   \<Rightarrow> request_store \<times> ops_world" where
  "cancel_all cs ctx conn_id reason [] store w = (store, w)"
| "cancel_all cs ctx conn_id reason (i # is) store w =
     (case store i of
        None \<Rightarrow> cancel_all cs ctx conn_id reason is store w
      | Some s \<Rightarrow>
          (let (_, s, w) = cancel_shared_with_observability cs ctx conn_id reason s w
           in cancel_all cs ctx conn_id reason is (store(i \<mapsto> s)) w))"

section \<open>Deferred bodies\<close>

text \<open>The watchdog when its deadline passes, and the tracker when the body has reached a terminal state.\<close>

definition watchdog_expires ::
  "custom_sinks \<Rightarrow> ops_context \<Rightarrow> u64 \<Rightarrow> request_shared \<Rightarrow> connection_activity \<Rightarrow> ops_world
   \<Rightarrow> request_shared \<times> connection_activity \<times> ops_world" where
  [rust_eval]: "watchdog_expires cs ctx conn_id s a w =
     (if is_body_active s then
        let (s, _) = mark_failed_with_reason ConnectionTimeout s;
            w = ops_count ctx (oc_body_read_timeouts_update (\<lambda>n. n + 1)) w;
            w = ops_count ctx (oc_deferred_body_timeouts_update (\<lambda>n. n + 1)) w;
            w = emit_for cs ctx conn_id Warn BodyReadTimeout ''deferred body read timeout'' w;
            w = emit_for cs ctx conn_id Warn DeferredBodyTimeout ''deferred body read timeout; closing connection'' w
        in (s, fire_body_timeout a, w)
      else (s, a, w))"

definition tracker_ends ::
  "custom_sinks \<Rightarrow> ops_context \<Rightarrow> u64 \<Rightarrow> instant \<Rightarrow> request_shared \<Rightarrow> connection_activity \<Rightarrow> ops_world
   \<Rightarrow> connection_activity \<times> ops_world" where
  [rust_eval]: "tracker_ends cs ctx conn_id now s a w =
     (deferred_finished now a,
      case body_state s of
        Complete \<Rightarrow>
          emit_for cs ctx conn_id Debug DeferredBodyCompleted ''deferred body completed after response-start''
            (ops_count ctx (oc_deferred_bodies_completed_update (\<lambda>n. n + 1)) w)
      | Abandoned \<Rightarrow>
          emit_for cs ctx conn_id Debug DeferredBodyAbandoned
            ''deferred body abandoned/failed after response-start; connection will close''
            (ops_count ctx (oc_deferred_bodies_abandoned_update (\<lambda>n. n + 1)) w)
      | Failed \<Rightarrow>
          emit_for cs ctx conn_id Debug DeferredBodyAbandoned
            ''deferred body abandoned/failed after response-start; connection will close''
            (ops_count ctx (oc_deferred_bodies_abandoned_update (\<lambda>n. n + 1)) w)
      | Active \<Rightarrow> w)"


section \<open>The live objects of a connection\<close>

text \<open>
  Which guards, tracked bodies and deferred bodies of a connection are alive, and the events that make
  and end them; a guard is consumed by \<^verbatim>\<open>finish\<close>, every object is dropped once.  A process has fewer
  live objects than addresses.  \<open>am_tunnels\<close> are the tunnel tasks of the \<^verbatim>\<open>JoinSet\<close>, \<open>True\<close> while the
  task runs: one that has ended stays in the set, and in its count, until the driver drains the set.
\<close>

record activity_machine =
  am_activity :: connection_activity
  am_semaphore :: "nat option"
  am_guards :: "in_flight_guard list"
  am_bodies :: "bool list"
  am_trackers :: "request_shared list"
  am_tunnels :: "bool list"
  am_world :: ops_world

datatype activity_event =
    RequestArrives
  | AdmitRequest nat
  | FinishRequest nat lifecycle_disposition
  | AbandonRequest nat
  | PollBody nat inner_poll
  | DropBody nat
  | DeferBody request_shared
  | WatchdogExpires nat
  | DeferredEnds nat
  | BytesRead nat
  | BytesWritten nat
  | TunnelSpawned
  | TunnelEnds nat

definition live_objects :: "activity_machine \<Rightarrow> nat" where
  [rust_eval]: "live_objects m = length (am_guards m) + length (am_bodies m) + length (am_trackers m)"

definition remove_nth :: "nat \<Rightarrow> 'a list \<Rightarrow> 'a list" where
  [rust_eval]: "remove_nth i xs = take i xs @ drop (Suc i) xs"

fun activity_step ::
  "custom_sinks \<Rightarrow> h1_connection_policy \<Rightarrow> u64 \<Rightarrow> instant \<times> activity_event \<Rightarrow> activity_machine \<Rightarrow> activity_machine option" where
  "activity_step cs config conn_id (now, RequestArrives) m =
     (if live_objects m < 2 ^ 63 then
        let (g, a, w) = guard_new (am_activity m) (am_world m)
        in Some (m\<lparr>am_activity := a, am_guards := am_guards m @ [g], am_world := w\<rparr>)
      else None)"
| "activity_step cs config conn_id (now, AdmitRequest i) m =
     (if i < length (am_guards m) \<and> \<not> ig_service_permit (am_guards m ! i) then
        let (_, sem, g, w) = admit cs (am_semaphore m) conn_id (am_activity m) (am_guards m ! i) (am_world m)
        in Some (m\<lparr>am_semaphore := sem, am_guards := (am_guards m)[i := g], am_world := w\<rparr>)
      else None)"
| "activity_step cs config conn_id (now, FinishRequest i d) m =
     (if i < length (am_guards m) then
        let (_, sem, a, w) =
              finish_accounts cs config conn_id now d (am_guards m ! i) (am_semaphore m) (am_activity m) (am_world m)
        in Some (m\<lparr>am_activity := a, am_semaphore := sem, am_guards := remove_nth i (am_guards m),
                   am_bodies := am_bodies m @ [False], am_world := w\<rparr>)
      else None)"
| "activity_step cs config conn_id (now, AbandonRequest i) m =
     (if i < length (am_guards m) then
        let (sem, a, w) = guard_drop now (am_guards m ! i) (am_semaphore m) (am_activity m) (am_world m)
        in Some (m\<lparr>am_activity := a, am_semaphore := sem, am_guards := remove_nth i (am_guards m), am_world := w\<rparr>)
      else None)"
| "activity_step cs config conn_id (now, PollBody i p) m =
     (if i < length (am_bodies m) then
        let (finished, a) = tracked_poll now p (am_bodies m ! i) (am_activity m)
        in Some (m\<lparr>am_activity := a, am_bodies := (am_bodies m)[i := finished]\<rparr>)
      else None)"
| "activity_step cs config conn_id (now, DropBody i) m =
     (if i < length (am_bodies m) then
        Some (m\<lparr>am_activity := tracked_drop now (am_bodies m ! i) (am_activity m), am_bodies := remove_nth i (am_bodies m)\<rparr>)
      else None)"
| "activity_step cs config conn_id (now, DeferBody s) m =
     (if live_objects m < 2 ^ 63 then
        Some (m\<lparr>am_activity := deferred_started (am_activity m), am_trackers := am_trackers m @ [s]\<rparr>)
      else None)"
| "activity_step cs config conn_id (now, WatchdogExpires i) m =
     (if i < length (am_trackers m) then
        let (s, a, w) = watchdog_expires cs (ca_ops (am_activity m)) conn_id (am_trackers m ! i) (am_activity m) (am_world m)
        in Some (m\<lparr>am_activity := a, am_trackers := (am_trackers m)[i := s], am_world := w\<rparr>)
      else None)"
| "activity_step cs config conn_id (now, DeferredEnds i) m =
     (if i < length (am_trackers m) \<and> is_body_terminal (am_trackers m ! i) then
        let (a, w) = tracker_ends cs (ca_ops (am_activity m)) conn_id now (am_trackers m ! i) (am_activity m) (am_world m)
        in Some (m\<lparr>am_activity := a, am_trackers := remove_nth i (am_trackers m), am_world := w\<rparr>)
      else None)"
| "activity_step cs config conn_id (now, BytesRead n) m = Some (m\<lparr>am_activity := record_read now n (am_activity m)\<rparr>)"
| "activity_step cs config conn_id (now, BytesWritten n) m = Some (m\<lparr>am_activity := record_write now n (am_activity m)\<rparr>)"
| "activity_step cs config conn_id (now, TunnelSpawned) m =
     Some (m\<lparr>am_activity := spawn_tunnel (am_activity m), am_tunnels := am_tunnels m @ [True]\<rparr>)"
| "activity_step cs config conn_id (now, TunnelEnds i) m =
     (if i < length (am_tunnels m) \<and> am_tunnels m ! i then Some (m\<lparr>am_tunnels := (am_tunnels m)[i := False]\<rparr>) else None)"

definition activity_start :: "ops_context \<Rightarrow> instant \<Rightarrow> nat option \<Rightarrow> ops_world \<Rightarrow> activity_machine" where
  [rust_eval]: "activity_start ctx now semaphore w =
     \<lparr>am_activity = activity_new ctx now, am_semaphore = semaphore, am_guards = [], am_bodies = [], am_trackers = [],
      am_tunnels = [], am_world = w\<rparr>"

section \<open>Invariant\<close>

definition active_requests :: "ops_context \<Rightarrow> ops_world \<Rightarrow> u64" where
  [rust_eval]: "active_requests ctx w = oc_active_service_requests (ow_counters w (ctx_id ctx))"

definition activity_inv :: "ops_context \<Rightarrow> nat option \<Rightarrow> u64 \<Rightarrow> activity_machine \<Rightarrow> bool" where
  "activity_inv ctx capacity base m \<longleftrightarrow>
     ca_ops (am_activity m) = ctx
     \<and> ca_in_flight (am_activity m) = of_nat (length (am_guards m))
     \<and> ca_outstanding (am_activity m) = of_nat (length (filter Not (am_bodies m)))
     \<and> ca_deferred (am_activity m) = of_nat (length (am_trackers m))
     \<and> active_requests ctx (am_world m) = base + of_nat (length (am_guards m))
     \<and> live_objects m \<le> 2 ^ 63
     \<and> list_all (\<lambda>g. \<not> ig_finished g) (am_guards m)
     \<and> (am_semaphore m = None \<longrightarrow> \<not> list_ex ig_service_permit (am_guards m))
     \<and> map_option (\<lambda>n. n + length (filter ig_service_permit (am_guards m))) (am_semaphore m) = capacity"

lemma remove_nth_length: "i < length xs \<Longrightarrow> length xs = Suc (length (remove_nth i xs))"
  by (auto simp: remove_nth_def)

lemma remove_nth_filter:
  assumes "i < length xs"
  shows "length (filter P xs) = length (filter P (remove_nth i xs)) + (if P (xs ! i) then 1 else 0)"
proof -
  have "length (filter P (take i xs @ xs ! i # drop (Suc i) xs)) =
      length (filter P (remove_nth i xs)) + (if P (xs ! i) then 1 else 0)"
    by (simp add: remove_nth_def)
  then show ?thesis by (simp only: id_take_nth_drop [OF assms, symmetric])
qed

lemma remove_nth_set: "set (remove_nth i xs) \<subseteq> set xs"
  by (auto simp: remove_nth_def dest: in_set_takeD in_set_dropD)

lemma update_filter:
  assumes "i < length xs"
  shows "length (filter P (xs[i := x])) + (if P (xs ! i) then 1 else 0) = length (filter P xs) + (if P x then 1 else 0)"
  by (subst (2) id_take_nth_drop [OF assms]) (simp add: upd_conv_take_nth_drop [OF assms])

lemma emit_for_active [simp]: "active_requests ctx (emit_for cs ctx' conn_id sev kind message w) = active_requests ctx w"
proof -
  have "oc_active_service_requests (ow_counters (ops_emit cs ctx' ev v) (ctx_id ctx)) =
      oc_active_service_requests (ow_counters v (ctx_id ctx))" for ev v
    using ops_emit_counters [of cs ctx' ev v "ctx_id ctx"] by auto
  then show ?thesis by (simp add: active_requests_def emit_for_def event_now_def)
qed

lemma count_active:
  "active_requests ctx (ops_count ctx (oc_active_service_requests_update f) w) = f (active_requests ctx w)"
  "active_requests ctx (ops_count ctx (oc_service_admission_rejected_update f) w) = active_requests ctx w"
  "active_requests ctx (ops_count ctx (oc_max_requests_closes_update f) w) = active_requests ctx w"
  "active_requests ctx (ops_count ctx (oc_body_read_timeouts_update f) w) = active_requests ctx w"
  "active_requests ctx (ops_count ctx (oc_deferred_body_timeouts_update f) w) = active_requests ctx w"
  "active_requests ctx (ops_count ctx (oc_deferred_bodies_completed_update f) w) = active_requests ctx w"
  "active_requests ctx (ops_count ctx (oc_deferred_bodies_abandoned_update f) w) = active_requests ctx w"
  by (simp_all add: active_requests_def ops_count_def with_counters_def)


lemmas activity_defs =
  guard_new_def request_started_def request_finished_without_service_def touch_def notify_driver_def admit_def
  release_permit_def finish_accounts_def guard_drop_def response_started_def response_finished_def tracked_finish_def
  tracked_drop_def deferred_started_def deferred_finished_def record_read_def record_write_def fire_body_timeout_def

lemma sub_or_restore_of_nat:
  assumes "Suc n \<le> 2 ^ 63"
  shows "sub_or_restore (of_nat (Suc n)) = of_nat n"
proof -
  have "unat (of_nat (Suc n) :: u64) = Suc n"
    using assms by (simp add: unat_of_nat take_bit_nat_eq_self del: of_nat_Suc)
  then have "(of_nat (Suc n) :: u64) \<noteq> 0" by auto
  then show ?thesis by (simp add: sub_or_restore_def)
qed

lemma inv_arrives:
  "activity_inv ctx c b m \<Longrightarrow> activity_step cs config conn_id (now, RequestArrives) m = Some m' \<Longrightarrow> activity_inv ctx c b m'"
  by (auto simp: activity_inv_def activity_defs count_active live_objects_def Let_def algebra_simps split: if_splits)

lemma inv_admit:
  assumes "activity_inv ctx c b m" "activity_step cs config conn_id (now, AdmitRequest i) m = Some m'"
  shows "activity_inv ctx c b m'"
proof -
  have i: "i < length (am_guards m)" "\<not> ig_service_permit (am_guards m ! i)" using assms(2) by (auto split: if_splits)
  let ?g = "am_guards m ! i"
  show ?thesis
  proof (cases "\<exists>n. am_semaphore m = Some (Suc n)")
    case True
    then obtain n where n: "am_semaphore m = Some (Suc n)" by blast
    have "m' = m\<lparr>am_semaphore := Some n, am_guards := (am_guards m)[i := ?g\<lparr>ig_service_permit := True\<rparr>]\<rparr>"
      using assms(2) i n by (simp add: admit_def)
    moreover have "length (filter ig_service_permit ((am_guards m)[i := ?g\<lparr>ig_service_permit := True\<rparr>])) =
        Suc (length (filter ig_service_permit (am_guards m)))"
      using update_filter [OF i(1), of ig_service_permit "?g\<lparr>ig_service_permit := True\<rparr>"] i(2) by simp
    ultimately show ?thesis
      using assms(1) i n by (auto simp: activity_inv_def live_objects_def list_all_length nth_list_update)
  next
    case False
    then show ?thesis
      using assms i
      by (auto simp: admit_def activity_inv_def live_objects_def count_active Let_def split: option.splits nat.splits)
  qed
qed

lemma release_permit_capacity:
  assumes "i < length gs" "sem = None \<longrightarrow> \<not> list_ex ig_service_permit gs"
  shows "map_option (\<lambda>n. n + length (filter ig_service_permit (remove_nth i gs))) (release_permit (gs ! i) sem) =
      map_option (\<lambda>n. n + length (filter ig_service_permit gs)) sem"
    and "release_permit (gs ! i) sem = None \<longrightarrow> \<not> list_ex ig_service_permit (remove_nth i gs)"
  using remove_nth_filter [OF assms(1), of ig_service_permit] assms(2) remove_nth_set [of i gs]
  by (cases sem; auto simp: release_permit_def list_ex_iff)+

lemma guard_removed:
  assumes "i < length gs" "list_all (\<lambda>g. \<not> ig_finished g) gs"
  shows "list_all (\<lambda>g. \<not> ig_finished g) (remove_nth i gs)" "of_nat (length gs) - 1 = (of_nat (length (remove_nth i gs)) :: u64)"
    "length gs = Suc (length (remove_nth i gs))"
  using assms remove_nth_set [of i gs] remove_nth_length [OF assms(1)] by (auto simp: list_all_iff)

lemma finish_accounts_fields:
  assumes "finish_accounts cs config conn_id now d g sem a w = (d', sem', a', w')"
  shows "sem' = release_permit g sem" "ca_ops a' = ca_ops a" "ca_in_flight a' = ca_in_flight a - 1"
    "ca_outstanding a' = ca_outstanding a + 1" "ca_deferred a' = ca_deferred a" "ca_completed a' = ca_completed a + 1"
    "active_requests (ca_ops a) w' = active_requests (ca_ops a) w - 1"
  using assms
  by (auto simp: finish_accounts_def request_finished_without_service_def response_started_def touch_def
      notify_driver_def count_active Let_def split: if_splits)

lemma inv_finish:
  assumes "activity_inv ctx c b m" "activity_step cs config conn_id (now, FinishRequest i d) m = Some m'"
  shows "activity_inv ctx c b m'"
proof -
  have i: "i < length (am_guards m)" using assms(2) by (auto split: if_splits)
  obtain d' sem a w where f: "finish_accounts cs config conn_id now d (am_guards m ! i) (am_semaphore m) (am_activity m) (am_world m)
      = (d', sem, a, w)" by (metis prod_cases4)
  then have m': "m' = m\<lparr>am_activity := a, am_semaphore := sem, am_guards := remove_nth i (am_guards m),
      am_bodies := am_bodies m @ [False], am_world := w\<rparr>"
    using assms(2) i by simp
  note inv = assms(1) [unfolded activity_inv_def]
  have g: "list_all (\<lambda>g. \<not> ig_finished g) (am_guards m)" "am_semaphore m = None \<longrightarrow> \<not> list_ex ig_service_permit (am_guards m)"
    using inv by auto
  show ?thesis
    using inv guard_removed [OF i g(1)] release_permit_capacity [OF i g(2)] finish_accounts_fields [OF f]
    unfolding activity_inv_def m' live_objects_def by (auto simp: algebra_simps)
qed

lemma inv_abandon:
  assumes "activity_inv ctx c b m" "activity_step cs config conn_id (now, AbandonRequest i) m = Some m'"
  shows "activity_inv ctx c b m'"
proof -
  have i: "i < length (am_guards m)" using assms(2) by (auto split: if_splits)
  note inv = assms(1) [unfolded activity_inv_def]
  have g: "list_all (\<lambda>g. \<not> ig_finished g) (am_guards m)" "am_semaphore m = None \<longrightarrow> \<not> list_ex ig_service_permit (am_guards m)"
    using inv by auto
  have "\<not> ig_finished (am_guards m ! i)" using g(1) i by (simp add: list_all_length)
  then show ?thesis
    using assms(2) i inv guard_removed [OF i g(1)] release_permit_capacity [OF i g(2)]
    by (auto simp: activity_inv_def guard_drop_def request_finished_without_service_def touch_def
        notify_driver_def count_active live_objects_def Let_def algebra_simps split: if_splits)
qed

lemma tracked_poll_cases:
  "tracked_poll now p finished a = (finished, a) \<or> tracked_poll now p finished a = (True, if finished then a else response_finished now a)"
  by (cases p) (simp_all add: tracked_finish_def)

lemma response_finished_fields [simp]:
  "ca_ops (response_finished now a) = ca_ops a" "ca_in_flight (response_finished now a) = ca_in_flight a"
  "ca_deferred (response_finished now a) = ca_deferred a"
  "ca_outstanding (response_finished now a) = sub_or_restore (ca_outstanding a)"
  by (simp_all add: response_finished_def touch_def notify_driver_def)

lemma unfinished_bound:
  assumes "activity_inv ctx c b m"
  shows "length (filter Not (am_bodies m)) \<le> 2 ^ 63"
proof -
  have "live_objects m \<le> 2 ^ 63" using assms by (simp add: activity_inv_def)
  then show ?thesis using length_filter_le [of Not "am_bodies m"] unfolding live_objects_def by linarith
qed

lemma inv_poll:
  assumes "activity_inv ctx c b m" "activity_step cs config conn_id (now, PollBody i p) m = Some m'"
  shows "activity_inv ctx c b m'"
proof -
  have i: "i < length (am_bodies m)" using assms(2) by (auto split: if_splits)
  note inv = assms(1) [unfolded activity_inv_def]
  consider "m' = m"
    | "\<not> am_bodies m ! i" "m' = m\<lparr>am_activity := response_finished now (am_activity m), am_bodies := (am_bodies m)[i := True]\<rparr>"
  proof (cases "tracked_poll now p (am_bodies m ! i) (am_activity m) = (am_bodies m ! i, am_activity m)")
    case True
    then have "m' = m" using assms(2) i by simp
    then show ?thesis by (rule that(1))
  next
    case False
    then show ?thesis using that(2) assms(2) i tracked_poll_cases [of now p "am_bodies m ! i" "am_activity m"]
      by (cases "am_bodies m ! i") auto
  qed
  then show ?thesis
  proof cases
    case 2
    have "length (filter Not (am_bodies m)) = Suc (length (filter Not ((am_bodies m)[i := True])))"
      using update_filter [OF i, of Not True] 2(1) by simp
    then show ?thesis
      using inv sub_or_restore_of_nat [of "length (filter Not ((am_bodies m)[i := True]))"] unfinished_bound [OF assms(1)]
      unfolding activity_inv_def 2(2) live_objects_def by simp
  qed (simp add: assms(1))
qed

lemma inv_drop:
  assumes "activity_inv ctx c b m" "activity_step cs config conn_id (now, DropBody i) m = Some m'"
  shows "activity_inv ctx c b m'"
proof -
  have i: "i < length (am_bodies m)" using assms(2) by (auto split: if_splits)
  note inv = assms(1) [unfolded activity_inv_def]
  note bodies = remove_nth_filter [OF i, of Not] remove_nth_length [OF i]
  have bound: "length (filter Not (am_bodies m)) \<le> 2 ^ 63" by (rule unfinished_bound [OF assms(1)])
  show ?thesis
  proof (cases "am_bodies m ! i")
    case True
    then have "m' = m\<lparr>am_bodies := remove_nth i (am_bodies m)\<rparr>"
      using assms(2) i by (simp add: tracked_drop_def tracked_finish_def)
    then show ?thesis using inv bodies True unfolding activity_inv_def live_objects_def by simp
  next
    case False
    then have m': "m' = m\<lparr>am_activity := response_finished now (am_activity m), am_bodies := remove_nth i (am_bodies m)\<rparr>"
      using assms(2) i by (simp add: tracked_drop_def tracked_finish_def)
    show ?thesis
      using inv bodies False bound sub_or_restore_of_nat [of "length (filter Not (remove_nth i (am_bodies m)))"]
      unfolding activity_inv_def live_objects_def m' by simp
  qed
qed

lemma tracker_ends_world: "active_requests ctx (snd (tracker_ends cs ctx conn_id now s a w)) = active_requests ctx w"
  by (simp add: tracker_ends_def count_active split: body_lifecycle_state.splits)

lemma watchdog_fields:
  "watchdog_expires cs ctx conn_id s a w = (s', a', w') \<Longrightarrow>
   a' \<in> {a, fire_body_timeout a} \<and> active_requests ctx w' = active_requests ctx w"
  by (auto simp: watchdog_expires_def count_active Let_def split: if_splits prod.splits)

lemma inv_deferred:
  assumes "activity_inv ctx c b m" "activity_step cs config conn_id (now, e) m = Some m'"
    and "e = DeferBody s \<or> e = WatchdogExpires i \<or> e = DeferredEnds i"
  shows "activity_inv ctx c b m'"
  using assms(3)
proof (elim disjE)
  assume "e = DeferBody s"
  then show ?thesis using assms(1,2)
    by (auto simp: activity_inv_def deferred_started_def notify_driver_def live_objects_def algebra_simps split: if_splits)
next
  assume "e = WatchdogExpires i"
  then show ?thesis using assms(1,2)
    by (auto simp: activity_inv_def fire_body_timeout_def notify_driver_def live_objects_def
        dest!: watchdog_fields split: if_splits prod.splits)
next
  assume e: "e = DeferredEnds i"
  then have i: "i < length (am_trackers m)" using assms(2) by (auto split: if_splits)
  show ?thesis
    using assms(1,2) e sub_or_restore_of_nat [of "length (remove_nth i (am_trackers m))"] remove_nth_length [OF i]
      tracker_ends_world [of ctx cs conn_id now "am_trackers m ! i" "am_activity m" "am_world m"]
    by (auto simp: activity_inv_def tracker_ends_def deferred_finished_def touch_def notify_driver_def live_objects_def
        split: if_splits)
qed

lemma inv_bytes:
  "activity_inv ctx c b m \<Longrightarrow> e = BytesRead n \<or> e = BytesWritten n \<Longrightarrow>
   activity_step cs config conn_id (now, e) m = Some m' \<Longrightarrow> activity_inv ctx c b m'"
  by (auto simp: activity_inv_def record_read_def record_write_def touch_def live_objects_def)

lemma inv_tunnels:
  "activity_inv ctx c b m \<Longrightarrow> e = TunnelSpawned \<or> e = TunnelEnds i \<Longrightarrow>
   activity_step cs config conn_id (now, e) m = Some m' \<Longrightarrow> activity_inv ctx c b m'"
  by (auto simp: activity_inv_def spawn_tunnel_def live_objects_def split: if_splits)

lemma activity_step_inv:
  assumes "activity_inv ctx c b m" "activity_step cs config conn_id ev m = Some m'"
  shows "activity_inv ctx c b m'"
proof (cases ev)
  case (Pair now e)
  then have step: "activity_step cs config conn_id (now, e) m = Some m'" using assms(2) by simp
  note deferred = inv_deferred [OF assms(1) step] and bytes = inv_bytes [OF assms(1) _ step]
    and tunnels = inv_tunnels [OF assms(1) _ step]
  show ?thesis
  proof (cases e)
    case RequestArrives with step show ?thesis using inv_arrives [OF assms(1)] by simp
  next
    case AdmitRequest with step show ?thesis using inv_admit [OF assms(1)] by simp
  next
    case FinishRequest with step show ?thesis using inv_finish [OF assms(1)] by simp
  next
    case AbandonRequest with step show ?thesis using inv_abandon [OF assms(1)] by simp
  next
    case PollBody with step show ?thesis using inv_poll [OF assms(1)] by simp
  next
    case DropBody with step show ?thesis using inv_drop [OF assms(1)] by simp
  qed (use deferred bytes tunnels in auto)
qed

interpretation activity: event_machine "activity_step cs config conn_id" "activity_inv ctx c b" for cs config conn_id ctx c b
  using activity_step_inv by unfold_locales

lemma activity_start_inv: "activity_inv ctx sem (active_requests ctx w) (activity_start ctx now sem w)"
  by (cases sem) (simp_all add: activity_inv_def activity_start_def activity_new_def live_objects_def)

definition is_finish :: "instant \<times> activity_event \<Rightarrow> bool" where
  [rust_eval]: "is_finish e = (case snd e of FinishRequest _ _ \<Rightarrow> True | _ \<Rightarrow> False)"

lemma completed_step:
  assumes "activity_step cs config conn_id e m = Some m'"
  shows "ca_completed (am_activity m') = ca_completed (am_activity m) + (if is_finish e then 1 else 0)"
proof (cases e)
  case (Pair now ev)
  show ?thesis
  proof (cases ev)
    case (FinishRequest i d)
    then show ?thesis using assms Pair finish_accounts_fields(6)
      by (auto simp: is_finish_def split: if_splits prod.splits)
  next
    case (PollBody i p)
    then show ?thesis using assms Pair tracked_poll_cases [of now p "am_bodies m ! i" "am_activity m"]
      by (auto simp: is_finish_def response_finished_def touch_def notify_driver_def split: if_splits)
  next
    case (WatchdogExpires i)
    then show ?thesis using assms Pair
      by (auto simp: is_finish_def fire_body_timeout_def notify_driver_def dest!: watchdog_fields split: if_splits prod.splits)
  qed (use assms Pair in \<open>auto simp: is_finish_def activity_defs spawn_tunnel_def tracker_ends_def Let_def split: if_splits prod.splits\<close>)
qed

section \<open>Tunnels and silence\<close>

text \<open>The tunnels a connection counts are the tasks of its set.\<close>

lemma tunnel_count_step:
  assumes "activity_step cs config conn_id e m = Some m'"
    and "ca_tunnels (am_activity m) = length (am_tunnels m) \<and> (am_tunnels m \<noteq> [] \<longrightarrow> ca_tunnels_started (am_activity m))"
  shows "ca_tunnels (am_activity m') = length (am_tunnels m') \<and> (am_tunnels m' \<noteq> [] \<longrightarrow> ca_tunnels_started (am_activity m'))"
proof (cases e)
  case (Pair now ev)
  show ?thesis
  proof (cases ev)
    case (PollBody i p)
    then show ?thesis using assms Pair tracked_poll_cases [of now p "am_bodies m ! i" "am_activity m"]
      by (auto simp: response_finished_def touch_def notify_driver_def split: if_splits)
  next
    case (WatchdogExpires i)
    then show ?thesis using assms Pair
      by (auto simp: fire_body_timeout_def notify_driver_def dest!: watchdog_fields split: if_splits prod.splits)
  next
    case (TunnelEnds i)
    then show ?thesis using assms Pair by (cases "am_tunnels m = []") (auto split: if_splits)
  qed (use assms Pair in \<open>auto simp: activity_defs spawn_tunnel_def tracker_ends_def Let_def split: if_splits prod.splits\<close>)
qed

interpretation tunnels: event_machine "activity_step cs config conn_id"
  "\<lambda>m. ca_tunnels (am_activity m) = length (am_tunnels m) \<and> (am_tunnels m \<noteq> [] \<longrightarrow> ca_tunnels_started (am_activity m))"
  for cs config conn_id
  by unfold_locales (rule tunnel_count_step)

lemma run_tunnel_count:
  assumes "run_events (activity_step cs config conn_id) es (activity_start ctx now semaphore w) = Some m"
  shows "tunnel_count (am_activity m) = length (am_tunnels m)"
  using tunnels.run_inv [OF assms] by (auto simp: tunnel_count_def activity_start_def activity_new_def)

text \<open>The events that are activity of the connection: bytes on the wire, the end of a request or of a deferred body.\<close>

fun is_activity :: "activity_event \<Rightarrow> bool" where
  "is_activity (BytesRead n) \<longleftrightarrow> 0 < n"
| "is_activity (BytesWritten n) \<longleftrightarrow> 0 < n"
| "is_activity (FinishRequest _ _) \<longleftrightarrow> True"
| "is_activity (AbandonRequest _) \<longleftrightarrow> True"
| "is_activity (DeferredEnds _) \<longleftrightarrow> True"
| "is_activity _ \<longleftrightarrow> False"

lemma last_activity_step:
  assumes "activity_step cs config conn_id (t, e) m = Some m'" "activity_inv ctx c b m"
  shows "ca_last_activity (am_activity m') = (if is_activity e then t else ca_last_activity (am_activity m))
    \<or> ca_last_activity (am_activity m') = t"
proof (cases e)
  case (PollBody i p)
  then show ?thesis using assms tracked_poll_cases [of t p "am_bodies m ! i" "am_activity m"]
    by (auto simp: response_finished_def touch_def notify_driver_def split: if_splits)
next
  case (WatchdogExpires i)
  then show ?thesis using assms
    by (auto simp: fire_body_timeout_def notify_driver_def dest!: watchdog_fields split: if_splits prod.splits)
next
  case (AbandonRequest i)
  then have "\<not> ig_finished (am_guards m ! i)"
    using assms by (auto simp: activity_inv_def list_all_length split: if_splits)
  with AbandonRequest show ?thesis using assms(1) by (auto simp: activity_defs Let_def split: if_splits prod.splits)
qed (use assms in \<open>auto simp: activity_defs spawn_tunnel_def tracker_ends_def Let_def split: if_splits prod.splits\<close>)

text \<open>On a clock that does not go back, no activity is later than the time the connection remembers.\<close>

lemma run_last_activity:
  assumes "run_events (activity_step cs config conn_id) es m = Some m'" "activity_inv ctx c b m"
    and "sorted (ca_last_activity (am_activity m) # map fst es)"
  shows "ca_last_activity (am_activity m) \<le> ca_last_activity (am_activity m')
    \<and> (\<forall>(t, e)\<in>set es. is_activity e \<longrightarrow> t \<le> ca_last_activity (am_activity m'))"
  using assms
proof (induction es arbitrary: m)
  case (Cons ev es)
  obtain t e where ev: "ev = (t, e)" by fastforce
  from Cons.prems(1) obtain n where n: "activity_step cs config conn_id (t, e) m = Some n"
    "run_events (activity_step cs config conn_id) es n = Some m'" unfolding ev by (rule run_events_ConsE)
  have last: "ca_last_activity (am_activity n) = (if is_activity e then t else ca_last_activity (am_activity m))
      \<or> ca_last_activity (am_activity n) = t"
    by (rule last_activity_step [OF n(1) Cons.prems(2)])
  have s: "ca_last_activity (am_activity m) \<le> t" "sorted (t # map fst es)" "sorted (ca_last_activity (am_activity m) # map fst es)"
    using Cons.prems(3) ev by auto
  then have "sorted (ca_last_activity (am_activity n) # map fst es)" using last by (auto split: if_splits)
  from Cons.IH [OF n(2) activity_step_inv [OF Cons.prems(2) n(1)] this] last s(1) ev show ?case
    by (auto split: if_splits)
qed simp

section \<open>Cancelling the requests of a connection\<close>

lemma cancel_shared_cancels:
  assumes "cancel_shared_with_observability cs ctx conn_id reason s w = (fresh, s', w')"
  shows "is_cancelled s'" "is_cancelled s \<Longrightarrow> s' = s" "\<not> is_cancelled s \<Longrightarrow> s' = cancel reason s"
  using assms
  by (auto simp: cancel_shared_with_observability_def is_cancelled_def cancel_def Let_def split: if_splits prod.splits)

text \<open>Every live request of the registry is cancelled, the first reason wins, and no other request is touched.\<close>

lemma cancel_all_cancels:
  assumes "cancel_all cs ctx conn_id reason rs store w = (store', w')"
  shows "store' i = (if i \<in> set rs then map_option (\<lambda>s. if is_cancelled s then s else cancel reason s) (store i) else store i)"
  using assms
proof (induction rs arbitrary: store w)
  case (Cons r rs)
  show ?case
  proof (cases "store r")
    case None
    then show ?thesis using Cons by auto
  next
    case (Some s)
    obtain fresh s' v where c: "cancel_shared_with_observability cs ctx conn_id reason s w = (fresh, s', v)"
      by (metis prod_cases3)
    have s': "s' = (if is_cancelled s then s else cancel reason s)" "is_cancelled s'"
      using cancel_shared_cancels [OF c] by auto
    have "cancel_all cs ctx conn_id reason rs (store(r \<mapsto> s')) v = (store', w')" using Cons.prems Some c by simp
    from Cons.IH [OF this] show ?thesis using Some s' by (cases "i = r") (auto split: if_splits)
  qed
qed simp

lemma registered_live: "r \<in> set (register_request store r rs)" "\<lbrakk>i \<in> set rs; store i \<noteq> None\<rbrakk> \<Longrightarrow> i \<in> set (register_request store r rs)"
  by (auto simp: register_request_def)

section \<open>Properties\<close>

text \<open>
  C16: The accounting of a connection is exact, whatever order its requests, responses and deferred
  bodies end in and however they end (finished, abandoned, failed, dropped mid-stream).  In every
  reachable state the in-flight counter is the number of requests in the pipeline, the outstanding
  counter the number of response bodies not yet ended, the deferred counter the number of bodies a
  service still owns, and the gauge of the process moved with them; every service permit is free or
  held by exactly one request in the pipeline; and every finished request was counted toward the
  limit of the connection once.
\<close>

theorem activity_accounted:
  assumes "run_events (activity_step cs config conn_id) es (activity_start ctx now semaphore w) = Some m"
  shows "unat (ca_in_flight (am_activity m)) = length (am_guards m)
    \<and> unat (ca_outstanding (am_activity m)) = length (filter Not (am_bodies m))
    \<and> unat (ca_deferred (am_activity m)) = length (am_trackers m)
    \<and> active_requests ctx (am_world m) = active_requests ctx w + of_nat (length (am_guards m))
    \<and> map_option (\<lambda>n. n + length (filter ig_service_permit (am_guards m))) (am_semaphore m) = semaphore
    \<and> ca_completed (am_activity m) = of_nat (length (filter is_finish es))"
proof -
  have inv: "activity_inv ctx semaphore (active_requests ctx w) m"
    using activity.run_inv [OF assms activity_start_inv] .
  have "unat (of_nat n :: u64) = n" if "n \<le> 2 ^ 63" for n
    using that by (simp add: unat_of_nat take_bit_nat_eq_self)
  moreover have "length (am_guards m) \<le> 2 ^ 63" "length (am_trackers m) \<le> 2 ^ 63"
    using inv by (auto simp: activity_inv_def live_objects_def)
  moreover have "ca_completed (am_activity m) = 0 + of_nat (length (filter is_finish es))"
    using run_events_count [where f = "\<lambda>m. ca_completed (am_activity m)" and g = "\<lambda>e. if is_finish e then 1 else 0",
        OF completed_step assms]
    by (simp add: sum_list_indicator activity_start_def activity_new_def)
  ultimately show ?thesis using inv unfinished_bound [OF inv] by (simp add: activity_inv_def)
qed

theorem activity_accounted_witness:
  "\<exists>m. run_events (activity_step sample_sinks sample_policy 1)
        [(1, RequestArrives), (2, AdmitRequest 0), (3, FinishRequest 0 KEEP_ALIVE), (4, RequestArrives), (5, DropBody 0)]
        (activity_start sample_context 0 (Some 1) sample_world) = Some m
     \<and> unat (ca_in_flight (am_activity m)) = 1 \<and> unat (ca_outstanding (am_activity m)) = 0
     \<and> am_semaphore m = Some 1 \<and> ca_completed (am_activity m) = 1"
proof -
  let ?es = "[(1, RequestArrives), (2, AdmitRequest 0), (3, FinishRequest 0 KEEP_ALIVE), (4, RequestArrives), (5, DropBody 0)]"
  obtain m where m: "run_events (activity_step sample_sinks sample_policy 1) ?es
        (activity_start sample_context 0 (Some 1) sample_world) = Some m"
      and "length (am_guards m) = 1" "am_bodies m = []" "filter ig_service_permit (am_guards m) = []"
    by (simp add: activity_start_def live_objects_def activity_defs remove_nth_def sample_policy_def Let_def)
  with activity_accounted [OF m] show ?thesis
    by (cases "am_semaphore m") (auto simp: is_finish_def)
qed

end
