(* ===== verification/Connection_Driver.thy ===== *)
theory Connection_Driver
  imports Connection_Activity
begin

text \<open>
  The driver of one HTTP/1 connection, \<^verbatim>\<open>connection/driver.rs\<close> in \<^verbatim>\<open>eggserve-server/src\<close>: the deadlines,
  the loop that waits for the connection, a shutdown, a change of activity or the next deadline, and
  the classification of the end.

  The connection itself is Hyper's: how it ends (\<open>conn_result\<close>) and whether it drains within the budget
  after a graceful shutdown are inputs of the model.  So is what the tasks of the connection do whenever
  the driver polls it, in its wait and in the drain of a graceful close: any change of the activity, and
  any sequence of \<open>request_event\<close>s, in which requests come up, register, are marked or cancelled, and go.
  Once the connection has ended only its tunnels are left, which register no request and cannot undo a
  cancellation.  An instant has no upper bound, so \<^verbatim>\<open>checked_add\<close> always succeeds.
\<close>

section \<open>Configuration of the connection\<close>

definition MAX_POST_SHUTDOWN_DRAIN :: duration where
  [rust_eval]: "MAX_POST_SHUTDOWN_DRAIN = from_secs 5"

definition post_shutdown_drain_budget :: "h1_connection_policy \<Rightarrow> duration" where
  [rust_eval]: "post_shutdown_drain_budget config = min (h1_graceful_shutdown_timeout config) MAX_POST_SHUTDOWN_DRAIN"

record builder_settings =
  bs_header_read_timeout :: duration
  bs_max_buf_size :: nat
  bs_max_headers :: nat
  bs_auto_date_header :: bool

definition hyper_builder :: "h1_connection_policy \<Rightarrow> builder_settings" where
  [rust_eval]: "hyper_builder config =
     \<lparr>bs_header_read_timeout = h1_header_read_timeout config,
      bs_max_buf_size = max (h1_max_buf_size config) MIN_MAX_BUF_SIZE,
      bs_max_headers = h1_max_headers config, bs_auto_date_header = False\<rparr>"

fun min_deadline :: "instant option \<Rightarrow> instant option \<Rightarrow> instant option" where
  "min_deadline (Some a) (Some b) = Some (min a b)"
| "min_deadline (Some a) None = Some a"
| "min_deadline None (Some b) = Some b"
| "min_deadline None None = None"

section \<open>Outcomes\<close>

datatype connection_outcome =
    NormalEnd | ClientErrorEnd | HeaderTimeoutEnd | IdleTimeoutEnd | WriteTimeoutEnd | TotalTimeoutEnd | ShutdownEnd | InternalEnd

definition outcome_is_clean :: "connection_outcome \<Rightarrow> bool" where
  [rust_eval]: "outcome_is_clean oc \<longleftrightarrow> oc \<in> {NormalEnd, ShutdownEnd, IdleTimeoutEnd}"

fun outcome_text :: "connection_outcome \<Rightarrow> string" where
  "outcome_text NormalEnd = ''normal''"
| "outcome_text ClientErrorEnd = ''client-error''"
| "outcome_text HeaderTimeoutEnd = ''header-timeout''"
| "outcome_text IdleTimeoutEnd = ''idle-timeout''"
| "outcome_text WriteTimeoutEnd = ''write-timeout''"
| "outcome_text TotalTimeoutEnd = ''total-timeout''"
| "outcome_text ShutdownEnd = ''shutdown''"
| "outcome_text InternalEnd = ''internal''"

text \<open>How Hyper's connection future ends: the class of its error and its text.\<close>

datatype conn_result = ConnOk | ConnErr (err_timeout: bool) (err_parse: bool) (err_text: string)

text \<open>The requests of a connection: its registry, and what the registered references point to.\<close>

type_synonym conn_requests = "nat list \<times> request_store"

datatype request_event =
    RequestCreated nat request_shared
  | RequestRegistered nat
  | RequestCalled nat lifecycle_op
  | RequestDropped nat

fun request_step :: "request_event \<Rightarrow> conn_requests \<Rightarrow> conn_requests" where
  "request_step (RequestCreated i s) (rs, store) = (rs, store(i \<mapsto> s))"
| "request_step (RequestRegistered i) (rs, store) = (register_request store i rs, store)"
| "request_step (RequestCalled i op) (rs, store) = (rs, store(i := map_option (apply_op op) (store i)))"
| "request_step (RequestDropped i) (rs, store) = (rs, store(i := None))"

definition cancel_requests ::
  "custom_sinks \<Rightarrow> ops_context \<Rightarrow> u64 \<Rightarrow> cancellation_reason \<Rightarrow> conn_requests \<Rightarrow> ops_world \<Rightarrow> conn_requests \<times> ops_world" where
  [rust_eval]: "cancel_requests cs ctx conn_id reason rq w =
     (let (store, w) = cancel_all cs ctx conn_id reason (fst rq) (snd rq) w in ((fst rq, store), w))"

text \<open>
  A graceful close polls the connection until it ends or the drain budget is used up: whether it ends in
  time, and what its tasks do meanwhile.
\<close>

record close_run =
  cl_drains :: bool
  cl_activity :: "connection_activity \<Rightarrow> connection_activity"
  cl_requests :: "request_event list"

definition graceful_close ::
  "custom_sinks \<Rightarrow> ops_context \<Rightarrow> u64 \<Rightarrow> close_run \<Rightarrow> connection_activity \<Rightarrow> conn_requests \<Rightarrow> ops_world
   \<Rightarrow> connection_activity \<times> conn_requests \<times> ops_world" where
  [rust_eval]: "graceful_close cs ctx conn_id close a rq w =
     (cl_activity close a, fold request_step (cl_requests close) rq,
      if cl_drains close then w
      else emit_for cs ctx conn_id Debug ClientDisconnect ''post-shutdown drain budget expired; closing connection'' w)"

definition finish_conn_result ::
  "custom_sinks \<Rightarrow> ops_context \<Rightarrow> u64 \<Rightarrow> conn_result \<Rightarrow> ops_world \<Rightarrow> connection_outcome \<times> ops_world" where
  [rust_eval]: "finish_conn_result cs ctx conn_id result w =
     (case result of
        ConnOk \<Rightarrow> (NormalEnd, emit_for cs ctx conn_id Debug KeepAliveClosed ''connection closed'' w)
      | ConnErr is_timeout is_parse e \<Rightarrow>
          (let header_timeout = is_timeout;
               parse_error = (\<not> header_timeout \<and> is_parse);
               w = (if header_timeout then ops_count ctx (oc_header_timeouts_update (\<lambda>n. n + 1)) w
                    else if parse_error then ops_count ctx (oc_parser_rejects_update (\<lambda>n. n + 1)) w
                    else w);
               w = emit_for cs ctx conn_id (if header_timeout then Warn else Debug)
                     (if header_timeout then HeaderTimeout else if parse_error then ParserRejection else ClientDisconnect)
                     (if header_timeout then ''header read timeout''
                      else if parse_error then sanitize_text_field (''parser rejection: '' @ e)
                      else ''connection error: '' @ e) w
           in (if header_timeout then HeaderTimeoutEnd else ClientErrorEnd, w)))"

section \<open>The deadlines\<close>

definition total_deadline :: "h1_connection_policy \<Rightarrow> connection_activity \<Rightarrow> instant option" where
  [rust_eval]: "total_deadline config a =
     (if h1_connection_total_timeout config \<noteq> 0 then Some (ca_start a + h1_connection_total_timeout config) else None)"

definition connection_idle :: "connection_activity \<Rightarrow> bool" where
  [rust_eval]: "connection_idle a \<longleftrightarrow>
     ca_in_flight a = 0 \<and> ca_outstanding a = 0 \<and> ca_deferred a = 0 \<and> \<not> tunnel_count a > 0"

definition idle_deadline_owned :: "h1_connection_policy \<Rightarrow> bool" where
  [rust_eval]: "idle_deadline_owned config \<longleftrightarrow> po_keep_alive_idle_deadline (h1_policy_ownership config) = EggServe"

definition write_deadline_owned :: "h1_connection_policy \<Rightarrow> bool" where
  [rust_eval]: "write_deadline_owned config \<longleftrightarrow> po_response_write_progress_deadline (h1_policy_ownership config) = EggServe"


definition idle_expired :: "h1_connection_policy \<Rightarrow> instant \<Rightarrow> connection_activity \<Rightarrow> bool" where
  [rust_eval]: "idle_expired config now a \<longleftrightarrow>
     connection_idle a \<and> idle_deadline_owned config \<and> now - ca_last_activity a \<ge> h1_keep_alive_idle_timeout config"

definition write_stalled :: "h1_connection_policy \<Rightarrow> instant \<Rightarrow> connection_activity \<Rightarrow> bool" where
  [rust_eval]: "write_stalled config now a \<longleftrightarrow>
     write_deadline_owned config \<and> ca_outstanding a > 0 \<and> now - ca_last_write a \<ge> h1_response_write_timeout config"

definition next_wake :: "h1_connection_policy \<Rightarrow> connection_activity \<Rightarrow> instant option" where
  [rust_eval]: "next_wake config a =
     (let wake = total_deadline config a;
          wake = (if connection_idle a \<and> idle_deadline_owned config
                  then min_deadline wake (Some (ca_last_activity a + h1_keep_alive_idle_timeout config)) else wake)
      in if ca_outstanding a > 0 \<and> write_deadline_owned config
         then min_deadline wake (Some (ca_last_write a + h1_response_write_timeout config)) else wake)"

section \<open>The loop\<close>

text \<open>The event at the start of a connection without any deadline of the runtime.\<close>

definition drive_start :: "custom_sinks \<Rightarrow> h1_connection_policy \<Rightarrow> u64 \<Rightarrow> connection_activity \<Rightarrow> ops_world \<Rightarrow> ops_world" where
  [rust_eval]: "drive_start cs config conn_id a w =
     (if total_deadline config a = None \<and> po_keep_alive_idle_deadline (h1_policy_ownership config) = External
         \<and> po_response_write_progress_deadline (h1_policy_ownership config) = External
      then emit_for cs (ca_ops a) conn_id Warn ConnectionTotalTimeout
             ''connection has no EggServe-owned deadline (ZERO total + all-External); hanging handlers have no backstop'' w
      else w)"

text \<open>\<^verbatim>\<open>drain_tunnels(Some(Instant::now()))\<close>: what is left is aborted.\<close>

definition abort_tunnels :: "instant \<Rightarrow> connection_activity \<Rightarrow> connection_activity" where
  [rust_eval]: "abort_tunnels now a = (case drain_tunnels (Some now) now [] a of Some (_, a) \<Rightarrow> a | None \<Rightarrow> a)"

datatype driver_turn = TurnCloses connection_outcome | TurnWaits "instant option"

text \<open>The body of the loop up to the wait; \<open>close\<close> is the graceful close when this turn closes the connection.\<close>

definition drive_turn ::
  "custom_sinks \<Rightarrow> h1_connection_policy \<Rightarrow> u64 \<Rightarrow> instant \<Rightarrow> close_run \<Rightarrow> connection_activity \<Rightarrow> conn_requests \<Rightarrow> ops_world
   \<Rightarrow> driver_turn \<times> connection_activity \<times> conn_requests \<times> ops_world" where
  [rust_eval]: "drive_turn cs config conn_id now close a rq w =
     (let ctx = ca_ops a in
      if (case total_deadline config a of Some deadline \<Rightarrow> now \<ge> deadline | None \<Rightarrow> False) then
        (let w = ops_count ctx (oc_connection_total_timeouts_update (\<lambda>n. n + 1)) w;
             w = emit_for cs ctx conn_id Warn ConnectionTotalTimeout ''connection total timeout'' w;
             (rq, w) = cancel_requests cs ctx conn_id ConnectionTimeout rq w;
             (a, rq, w) = graceful_close cs ctx conn_id close a rq w
         in (TurnCloses TotalTimeoutEnd, abort_tunnels now a, rq, w))
      else
        let (fired, a) = take_body_timeout a in
        if fired then
          (let (a, rq, w) = graceful_close cs ctx conn_id close a rq w;
               (rq, w) = cancel_requests cs ctx conn_id ConnectionTimeout rq w
           in (TurnCloses ClientErrorEnd, abort_tunnels now a, rq, w))
        else if idle_expired config now a then
          (let w = ops_count ctx (oc_keepalive_idle_timeouts_update (\<lambda>n. n + 1)) w;
               w = emit_for cs ctx conn_id Debug KeepAliveIdleTimeout ''keep-alive idle timeout'' w;
               (a, rq, w) = graceful_close cs ctx conn_id close a rq w
           in (TurnCloses IdleTimeoutEnd, abort_tunnels now a, rq, w))
        else if write_stalled config now a then
          (let w = ops_count ctx (oc_write_stall_timeouts_update (\<lambda>n. n + 1)) w;
               w = emit_for cs ctx conn_id Warn WriteStallTimeout ''response write stall timeout'' w;
               (rq, w) = cancel_requests cs ctx conn_id ConnectionTimeout rq w;
               (a, rq, w) = graceful_close cs ctx conn_id close a rq w
           in (TurnCloses WriteTimeoutEnd, abort_tunnels now a, rq, w))
        else (TurnWaits (next_wake config a), a, rq, w))"

text \<open>
  What ends the wait, and when.  When the connection ends with tunnels running, either they end (at the
  moments \<open>joins\<close>) or a shutdown comes first, at \<open>at\<close>; on a shutdown \<open>at\<close> is the moment after the connection has drained.
\<close>

datatype driver_input =
    ConnectionEnds conn_result "instant list"
  | ConnectionEndsThenShutdown conn_result instant "instant list"
  | ShutdownRequested instant "instant list"
  | ActivityChanged
  | SleepElapsed

definition connection_ended ::
  "custom_sinks \<Rightarrow> u64 \<Rightarrow> conn_result \<Rightarrow> connection_activity \<Rightarrow> conn_requests \<Rightarrow> ops_world
   \<Rightarrow> connection_outcome \<times> conn_requests \<times> ops_world" where
  [rust_eval]: "connection_ended cs conn_id result a rq w =
     (let (outcome, w) = finish_conn_result cs (ca_ops a) conn_id result w;
          (rq, w) =
            (if outcome = ClientErrorEnd then cancel_requests cs (ca_ops a) conn_id PeerDisconnected rq w
             else if outcome = HeaderTimeoutEnd then cancel_requests cs (ca_ops a) conn_id ConnectionTimeout rq w
             else (rq, w))
      in (outcome, rq, w))"

definition shutdown_tunnels ::
  "h1_connection_policy \<Rightarrow> instant \<Rightarrow> instant list \<Rightarrow> connection_activity \<Rightarrow> connection_activity" where
  [rust_eval]: "shutdown_tunnels config now joins a =
     (case drain_tunnels (Some (now + post_shutdown_drain_budget config)) now joins a of Some (_, a) \<Rightarrow> a | None \<Rightarrow> a)"

datatype driver_step =
    DriverEnds connection_outcome connection_activity conn_requests ops_world
  | DriverContinues
  | DriverHangs

definition drive_input ::
  "custom_sinks \<Rightarrow> h1_connection_policy \<Rightarrow> u64 \<Rightarrow> instant \<Rightarrow> driver_input \<Rightarrow> close_run \<Rightarrow> connection_activity \<Rightarrow> conn_requests
   \<Rightarrow> ops_world \<Rightarrow> driver_step" where
  [rust_eval]: "drive_input cs config conn_id now input close a rq w =
     (case input of
        ConnectionEnds result joins \<Rightarrow>
          (let (outcome, rq, w) = connection_ended cs conn_id result a rq w in
           if tunnel_count a > 0 then
             (case drain_tunnels (total_deadline config a) now joins a of
                None \<Rightarrow> DriverHangs
              | Some (True, a) \<Rightarrow> DriverEnds outcome a rq w
              | Some (False, a) \<Rightarrow>
                  (let (rq, w) = cancel_requests cs (ca_ops a) conn_id ConnectionTimeout rq w
                   in DriverEnds TotalTimeoutEnd a rq w))
           else DriverEnds outcome a rq w)
      | ConnectionEndsThenShutdown result at joins \<Rightarrow>
          (let (outcome, rq, w) = connection_ended cs conn_id result a rq w in
           if tunnel_count a > 0 then
             (let (rq, w) = cancel_requests cs (ca_ops a) conn_id ServerShutdown rq w
              in DriverEnds ShutdownEnd (shutdown_tunnels config at joins a) rq w)
           else DriverEnds outcome a rq w)
      | ShutdownRequested at joins \<Rightarrow>
          (let ctx = ca_ops a;
               (rq, w) = cancel_requests cs ctx conn_id ServerShutdown rq w;
               (a, rq, w) = graceful_close cs ctx conn_id close a rq w
           in DriverEnds ShutdownEnd (shutdown_tunnels config at joins a) rq w)
      | ActivityChanged \<Rightarrow> DriverContinues
      | SleepElapsed \<Rightarrow> DriverContinues)"

text \<open>
  The loop over its rounds: the moment of the round, what the tasks of the connection do during its wait,
  what ends the wait and when, and the graceful close if this round closes the connection.
\<close>

record driver_round =
  dr_now :: instant
  dr_activity :: "connection_activity \<Rightarrow> connection_activity"
  dr_requests :: "request_event list"
  dr_input :: driver_input
  dr_input_at :: instant
  dr_close :: close_run

fun drive_connection ::
  "custom_sinks \<Rightarrow> h1_connection_policy \<Rightarrow> u64 \<Rightarrow> driver_round list \<Rightarrow> connection_activity \<Rightarrow> conn_requests \<Rightarrow> ops_world
   \<Rightarrow> (connection_outcome \<times> connection_activity \<times> conn_requests \<times> ops_world) option" where
  "drive_connection cs config conn_id [] a rq w = None"
| "drive_connection cs config conn_id (r # rs) a rq w =
     (case drive_turn cs config conn_id (dr_now r) (dr_close r) a rq w of
        (TurnCloses oc, a, rq, w) \<Rightarrow> Some (oc, a, rq, w)
      | (TurnWaits wake, a, rq, w) \<Rightarrow>
          (let a = dr_activity r a; rq = fold request_step (dr_requests r) rq in
           case drive_input cs config conn_id (dr_input_at r) (dr_input r) (dr_close r) a rq w of
             DriverEnds oc a rq w \<Rightarrow> Some (oc, a, rq, w)
           | DriverContinues \<Rightarrow> drive_connection cs config conn_id rs
               (if dr_input r = ActivityChanged then a\<lparr>ca_notified := False\<rparr> else a) rq w
           | DriverHangs \<Rightarrow> None))"

text \<open>The driver: the check at the start, then the loop.\<close>

definition run_driver ::
  "custom_sinks \<Rightarrow> h1_connection_policy \<Rightarrow> u64 \<Rightarrow> driver_round list \<Rightarrow> connection_activity \<Rightarrow> conn_requests \<Rightarrow> ops_world
   \<Rightarrow> (connection_outcome \<times> connection_activity \<times> conn_requests \<times> ops_world) option" where
  [rust_eval]: "run_driver cs config conn_id rounds a rq w =
     drive_connection cs config conn_id rounds a rq (drive_start cs config conn_id a w)"

section \<open>Lemmas\<close>

lemma min_deadline_Some: "min_deadline x (Some b) = Some (case x of Some a \<Rightarrow> min a b | None \<Rightarrow> b)"
  by (cases x) auto

text \<open>The deadlines that apply to a connection in its present state.\<close>

definition applicable_deadlines :: "h1_connection_policy \<Rightarrow> connection_activity \<Rightarrow> instant list" where
  [rust_eval]: "applicable_deadlines config a =
     (if h1_connection_total_timeout config \<noteq> 0 then [ca_start a + h1_connection_total_timeout config] else [])
     @ (if connection_idle a \<and> idle_deadline_owned config then [ca_last_activity a + h1_keep_alive_idle_timeout config] else [])
     @ (if ca_outstanding a > 0 \<and> write_deadline_owned config then [ca_last_write a + h1_response_write_timeout config] else [])"

lemma next_wake_exact:
  "next_wake config a = (if applicable_deadlines config a = [] then None else Some (Min (set (applicable_deadlines config a))))"
  by (auto simp: next_wake_def applicable_deadlines_def total_deadline_def min_deadline_Some Let_def min.commute min.left_commute)

lemma abort_tunnels_none: "tunnel_count (abort_tunnels now a) = 0"
  by (simp add: abort_tunnels_def drain_tunnels_def tunnel_count_def join_tunnels.simps)

lemma fired_irrelevant [simp]:
  "idle_expired config now (a\<lparr>ca_body_timeout_fired := x\<rparr>) = idle_expired config now a"
  "write_stalled config now (a\<lparr>ca_body_timeout_fired := x\<rparr>) = write_stalled config now a"
  "next_wake config (a\<lparr>ca_body_timeout_fired := x\<rparr>) = next_wake config a"
  by (simp_all add: idle_expired_def write_stalled_def next_wake_def connection_idle_def tunnel_count_def total_deadline_def Let_def)

definition total_expired :: "h1_connection_policy \<Rightarrow> instant \<Rightarrow> connection_activity \<Rightarrow> bool" where
  [rust_eval]: "total_expired config now a \<longleftrightarrow>
     (case total_deadline config a of Some deadline \<Rightarrow> now \<ge> deadline | None \<Rightarrow> False)"

text \<open>The decision of a turn, without its effects.\<close>

lemma drive_turn_decision:
  "fst (drive_turn cs config conn_id now close a rq w) =
     (if total_expired config now a then TurnCloses TotalTimeoutEnd
      else if ca_body_timeout_fired a then TurnCloses ClientErrorEnd
      else if idle_expired config now a then TurnCloses IdleTimeoutEnd
      else if write_stalled config now a then TurnCloses WriteTimeoutEnd
      else TurnWaits (next_wake config a))"
  by (simp add: drive_turn_def total_expired_def take_body_timeout_def graceful_close_def Let_def split: prod.splits)

lemma drive_turn_waits:
  assumes "drive_turn cs config conn_id now close a rq w = (TurnWaits wake, a', rq', w')"
  shows "wake = next_wake config a" "a' = a" "rq' = rq" "w' = w" "\<not> ca_body_timeout_fired a"
    "\<not> idle_expired config now a" "\<not> write_stalled config now a" "\<not> total_expired config now a"
proof -
  have "fst (drive_turn cs config conn_id now close a rq w) = TurnWaits wake" using assms by simp
  then show c: "wake = next_wake config a" "\<not> ca_body_timeout_fired a" "\<not> idle_expired config now a"
    "\<not> write_stalled config now a" "\<not> total_expired config now a"
    unfolding drive_turn_decision by (auto split: if_splits)
  then have "drive_turn cs config conn_id now close a rq w = (TurnWaits wake, a, rq, w)"
    by (simp add: drive_turn_def total_expired_def take_body_timeout_def Let_def)
  with assms show "a' = a" "rq' = rq" "w' = w" by auto
qed

text \<open>A deadline that has passed closes the connection.\<close>

lemma deadline_passed:
  assumes "d \<in> set (applicable_deadlines config a)" "d \<le> now"
  shows "total_expired config now a \<or> idle_expired config now a \<or> write_stalled config now a"
  using assms
  by (auto simp: applicable_deadlines_def total_expired_def idle_expired_def write_stalled_def total_deadline_def
      split: if_splits)

text \<open>A connection whose idle time has passed was silent for that time.\<close>

lemma idle_silence:
  assumes "run_events (activity_step cs config conn_id) es (activity_start ctx start semaphore w) = Some m"
    and "sorted (start # map fst es @ [now])" and "idle_expired config now (am_activity m)"
  shows "start + h1_keep_alive_idle_timeout config \<le> now
    \<and> (\<forall>(t, e)\<in>set es. is_activity e \<longrightarrow> t + h1_keep_alive_idle_timeout config \<le> now)"
proof -
  let ?last = "ca_last_activity (am_activity m)"
  have start: "ca_last_activity (am_activity (activity_start ctx start semaphore w)) = start"
    by (simp add: activity_start_def activity_new_def)
  have "sorted (start # map fst es)" using assms(2) by (auto simp: sorted_append)
  then have last: "start \<le> ?last \<and> (\<forall>(t, e)\<in>set es. is_activity e \<longrightarrow> t \<le> ?last)"
    using run_last_activity [OF assms(1) activity_start_inv] unfolding start by blast
  have past: "start \<le> now" "\<forall>(t, e)\<in>set es. t \<le> now" using assms(2) by (auto simp: sorted_append)
  have expired: "h1_keep_alive_idle_timeout config \<le> now - ?last" using assms(3) by (simp add: idle_expired_def)
  have wait: "t + h1_keep_alive_idle_timeout config \<le> now" if "t \<le> ?last" "t \<le> now" for t
    using that expired by linarith
  then show ?thesis using last past by fastforce
qed

section \<open>Properties\<close>

text \<open>
  C17: The deadlines of a connection are exact.  A round that waits found no deadline passed that
  applies (total lifetime, idle time of an idle connection, write progress of an unfinished
  response), it waits exactly until the earliest of them, and when nothing happens until then the
  connection is closed in that round, whenever it comes; only with no applicable deadline does it
  wait without one.
\<close>

theorem deadlines_exact:
  assumes "drive_turn cs config conn_id now close a rq w = (TurnWaits wake, a', rq', w')"
  shows "(\<forall>d\<in>set (applicable_deadlines config a). now < d)
    \<and> wake = (if applicable_deadlines config a = [] then None else Some (Min (set (applicable_deadlines config a))))
    \<and> (\<forall>t later close' rq'' w''. wake = Some t \<and> t \<le> later \<longrightarrow>
         (\<exists>oc\<in>{TotalTimeoutEnd, IdleTimeoutEnd, WriteTimeoutEnd}.
            fst (drive_turn cs config conn_id later close' a' rq'' w'') = TurnCloses oc))"
proof -
  note waits = drive_turn_waits [OF assms]
  have now: "now < d" if "d \<in> set (applicable_deadlines config a)" for d
    using deadline_passed [OF that, of now] waits(6-8) by (auto simp: not_le [symmetric])
  have closes: "\<exists>oc\<in>{TotalTimeoutEnd, IdleTimeoutEnd, WriteTimeoutEnd}.
      fst (drive_turn cs config conn_id later close' a' rq'' w'') = TurnCloses oc"
    if "wake = Some t" "t \<le> later" for t later close' rq'' w''
  proof -
    have "t \<in> set (applicable_deadlines config a)"
      using that(1) unfolding waits(1) next_wake_exact by (auto split: if_splits intro!: Min_in)
    with that(2) have "total_expired config later a \<or> idle_expired config later a \<or> write_stalled config later a"
      using deadline_passed by blast
    then show ?thesis using waits(2,5) by (auto simp: drive_turn_decision)
  qed
  show ?thesis using now closes waits(1) next_wake_exact by blast
qed

text \<open>
  C18: The idle timer never cuts off work.  When the driver of a connection closes it as idle, whatever
  its requests and tunnels did before, no request is in the pipeline, every response body has ended, no
  service holds a request body past its return, no tunnel was started (a tunnel counts from its start,
  also when its task has ended), and for the whole idle time before the close the connection was silent:
  not a byte was read or written and no request or deferred body ended.  The clock does not go back.
\<close>

theorem idle_close_safe:
  assumes "run_events (activity_step cs config conn_id) es (activity_start ctx start semaphore w) = Some m"
    and "sorted (start # map fst es @ [now])"
    and "drive_turn cs config conn_id now close (am_activity m) rq w' = (TurnCloses IdleTimeoutEnd, a', rq', w'')"
  shows "am_guards m = [] \<and> list_all (\<lambda>finished. finished) (am_bodies m) \<and> am_trackers m = [] \<and> am_tunnels m = []
    \<and> start + h1_keep_alive_idle_timeout config \<le> now
    \<and> (\<forall>(t, e)\<in>set es. is_activity e \<longrightarrow> t + h1_keep_alive_idle_timeout config \<le> now)"
proof -
  have inv: "activity_inv ctx semaphore (active_requests ctx w) m"
    using activity.run_inv [OF assms(1) activity_start_inv] .
  have "fst (drive_turn cs config conn_id now close (am_activity m) rq w') = TurnCloses IdleTimeoutEnd"
    using assms(3) by simp
  then have idle: "idle_expired config now (am_activity m)" by (auto simp: drive_turn_decision split: if_splits)
  have "tunnel_count (am_activity m) = 0" using idle by (simp add: idle_expired_def connection_idle_def)
  then have tunnels: "am_tunnels m = []" by (simp add: run_tunnel_count [OF assms(1)])
  have zero: "n = 0" if "(of_nat n :: u64) = 0" "n \<le> 2 ^ 63" for n
  proof -
    have "unat (of_nat n :: u64) = n" using that(2) by (simp add: unat_of_nat take_bit_nat_eq_self)
    with that(1) show ?thesis by simp
  qed
  have "length (am_guards m) \<le> 2 ^ 63" "length (am_trackers m) \<le> 2 ^ 63"
    using inv by (auto simp: activity_inv_def live_objects_def)
  moreover have "(of_nat (length (am_guards m)) :: u64) = 0" "(of_nat (length (am_trackers m)) :: u64) = 0"
      "(of_nat (length (filter Not (am_bodies m))) :: u64) = 0"
    using idle inv unfolding idle_expired_def connection_idle_def activity_inv_def by simp_all
  ultimately have "length (am_guards m) = 0" "length (am_trackers m) = 0" "length (filter Not (am_bodies m)) = 0"
    using zero unfinished_bound [OF inv] by blast+
  then have "am_guards m = [] \<and> list_all (\<lambda>finished. finished) (am_bodies m) \<and> am_trackers m = []"
    by (auto simp: filter_empty_conv list_all_iff)
  then show ?thesis using tunnels idle_silence [OF assms(1,2) idle] by simp
qed

lemma join_tunnels_zero: "join_tunnels deadline now joins a = Some (b, a') \<Longrightarrow> ca_tunnels a' = 0"
proof (induction joins arbitrary: now a)
  case Nil
  then show ?case by (auto simp: join_tunnels.simps [of deadline now "[]"] split: if_splits option.splits)
next
  case (Cons j js)
  then show ?case
    by (auto simp: join_tunnels.simps [of deadline now "j # js"] simp del: One_nat_def split: if_splits)
qed

lemma join_tunnels_ends: "join_tunnels (Some at) now joins a \<noteq> None"
proof (induction joins arbitrary: now a)
  case Nil
  show ?case by (cases "at \<le> now"; cases "ca_tunnels a = 0") (simp_all add: join_tunnels.simps [of "Some at" now "[]"])
next
  case (Cons j js)
  then show ?case
    by (cases "at \<le> now"; cases "ca_tunnels a = 0"; cases "at \<le> j") (simp_all only: join_tunnels.simps [of "Some at" now "j # js"]
        option.case list.case if_True if_False option.distinct not_False_eq_True simp_thms)
qed

lemma drain_tunnels_none:
  "drain_tunnels deadline now joins a = Some (b, a') \<Longrightarrow> tunnel_count a' = 0"
  by (auto simp: drain_tunnels_def tunnel_count_def dest: join_tunnels_zero split: if_splits)

lemma shutdown_tunnels_none: "tunnel_count (shutdown_tunnels config now joins a) = 0"
proof -
  have "drain_tunnels (Some (now + post_shutdown_drain_budget config)) now joins a \<noteq> None"
    using join_tunnels_ends by (cases "ca_tunnels_started a") (simp_all add: drain_tunnels_def)
  then obtain b a' where "drain_tunnels (Some (now + post_shutdown_drain_budget config)) now joins a = Some (b, a')"
    by auto
  then show ?thesis by (simp add: shutdown_tunnels_def drain_tunnels_none)
qed

text \<open>Every request of the registry that is still there is cancelled, but for those in \<open>late\<close>.\<close>

definition cancelled_except :: "nat set \<Rightarrow> conn_requests \<Rightarrow> bool" where
  "cancelled_except late rq \<longleftrightarrow> (\<forall>i\<in>set (fst rq) - late. \<forall>s. snd rq i = Some s \<longrightarrow> is_cancelled s)"

text \<open>The requests that came up or registered in a sequence of events.\<close>

fun event_request :: "request_event \<Rightarrow> nat set" where
  "event_request (RequestCreated i _) = {i}"
| "event_request (RequestRegistered i) = {i}"
| "event_request _ = {}"

definition late_requests :: "request_event list \<Rightarrow> nat set" where
  [rust_eval]: "late_requests es = \<Union> (set (map event_request es))"

lemma cancelled_except_mono: "cancelled_except late rq \<Longrightarrow> late \<subseteq> late' \<Longrightarrow> cancelled_except late' rq"
  by (auto simp: cancelled_except_def)

lemma cancel_requests_all:
  assumes "cancel_requests cs ctx conn_id reason rq w = (rq', w')"
  shows "cancelled_except late rq'"
proof -
  obtain store where c: "cancel_all cs ctx conn_id reason (fst rq) (snd rq) w = (store, w')" "rq' = (fst rq, store)"
    using assms by (auto simp: cancel_requests_def split: prod.splits)
  have "is_cancelled (cancel reason s)" for s by (simp add: is_cancelled_def cancel_def Let_def split: prod.splits)
  then have "is_cancelled (if is_cancelled s then s else cancel reason s)" for s by simp
  then show ?thesis using cancel_all_cancels [OF c(1)] c(2)
    by (auto simp: cancelled_except_def simp del: if_split_eq1 split del: if_split)
qed

lemma apply_op_cancelled: "is_cancelled s \<Longrightarrow> is_cancelled (apply_op op s)"
proof (cases op)
  case (Mark e)
  moreover assume "is_cancelled s"
  ultimately show ?thesis using apply_event_active(4) [of s e] apply_event_terminal [of s e]
    by (cases "is_body_active s") (auto simp: is_cancelled_def)
qed (simp add: is_cancelled_def)

lemma request_step_cancelled:
  assumes "cancelled_except late rq" "event_request e \<subseteq> late"
  shows "cancelled_except late (request_step e rq)"
  using assms
  by (cases rq; cases e) (auto simp: cancelled_except_def register_request_def apply_op_cancelled)

lemma request_run_cancelled:
  "cancelled_except late rq \<Longrightarrow> late_requests es \<subseteq> late \<Longrightarrow> cancelled_except late (fold request_step es rq)"
proof (induction es arbitrary: rq)
  case (Cons e es)
  then show ?case using request_step_cancelled [of late rq e] by (simp add: late_requests_def)
qed simp

lemma graceful_close_cancelled:
  assumes "graceful_close cs ctx conn_id close a rq w = (a', rq', w')" "cancelled_except {} rq"
  shows "cancelled_except (late_requests (cl_requests close)) rq'"
  using assms request_run_cancelled [OF cancelled_except_mono [OF assms(2)]] by (auto simp: graceful_close_def)

text \<open>The outcomes for which the requests are cancelled before the connection is closed.\<close>

definition close_after_cancel :: "connection_outcome \<Rightarrow> bool" where
  [rust_eval]: "close_after_cancel oc \<longleftrightarrow> oc \<in> {TotalTimeoutEnd, WriteTimeoutEnd, ShutdownEnd}"

definition requests_released :: "connection_outcome \<Rightarrow> close_run \<Rightarrow> conn_requests \<Rightarrow> bool" where
  "requests_released oc close rq \<longleftrightarrow>
     (oc \<notin> {NormalEnd, IdleTimeoutEnd} \<longrightarrow>
      cancelled_except (if close_after_cancel oc then late_requests (cl_requests close) else {}) rq)"

lemma drive_turn_closes:
  assumes "drive_turn cs config conn_id now close a rq w = (TurnCloses oc, a', rq', w')"
  shows "tunnel_count a' = 0" "requests_released oc close rq'"
  using assms
  by (auto simp: drive_turn_def take_body_timeout_def abort_tunnels_none requests_released_def close_after_cancel_def Let_def
      dest: cancel_requests_all [where late = "{}"] intro: graceful_close_cancelled split: if_splits prod.splits)

lemma connection_ended_cancels:
  assumes "connection_ended cs conn_id result a rq w = (oc, rq', w')"
  shows "oc \<noteq> NormalEnd \<Longrightarrow> cancelled_except late rq'" "\<not> close_after_cancel oc"
  using assms
  by (auto simp: connection_ended_def finish_conn_result_def close_after_cancel_def Let_def
      dest: cancel_requests_all split: if_splits prod.splits conn_result.splits)

lemma drive_input_ends:
  assumes "drive_input cs config conn_id now input close a rq w = DriverEnds oc a' rq' w'"
  shows "tunnel_count a' = 0 \<and> requests_released oc close rq'"
proof (cases input)
  case (ConnectionEnds result joins)
  obtain oc1 rq1 w1 where c: "connection_ended cs conn_id result a rq w = (oc1, rq1, w1)" by (metis prod_cases3)
  show ?thesis using assms ConnectionEnds c connection_ended_cancels [OF c]
    by (auto simp: drive_input_def requests_released_def dest: drain_tunnels_none cancel_requests_all
        split: if_splits option.splits bool.splits prod.splits)
next
  case (ConnectionEndsThenShutdown result at joins)
  obtain oc1 rq1 w1 where c: "connection_ended cs conn_id result a rq w = (oc1, rq1, w1)" by (metis prod_cases3)
  show ?thesis using assms ConnectionEndsThenShutdown c connection_ended_cancels [OF c]
    by (auto simp: drive_input_def shutdown_tunnels_none requests_released_def dest: cancel_requests_all
        split: if_splits prod.splits)
next
  case (ShutdownRequested at joins)
  then show ?thesis using assms
    by (auto simp: drive_input_def shutdown_tunnels_none requests_released_def close_after_cancel_def Let_def
        dest: cancel_requests_all [where late = "{}"] intro: graceful_close_cancelled split: prod.splits)
qed (use assms in \<open>simp_all add: drive_input_def\<close>)

lemma driver_releases:
  assumes "drive_connection cs config conn_id rounds a rq w = Some (oc, a', rq', w')"
  shows "tunnel_count a' = 0 \<and> (\<exists>pre r post. rounds = pre @ r # post
    \<and> drive_connection cs config conn_id pre a rq w = None \<and> requests_released oc (dr_close r) rq')"
  using assms
proof (induction rounds arbitrary: a rq w)
  case (Cons r rounds)
  obtain t a1 rq1 w1 where t: "drive_turn cs config conn_id (dr_now r) (dr_close r) a rq w = (t, a1, rq1, w1)"
    by (metis prod_cases4)
  have first: ?case if "tunnel_count a' = 0" "requests_released oc (dr_close r) rq'"
    using that by (intro conjI exI [of _ "[]"] exI [of _ r] exI [of _ rounds]) auto
  show ?case
  proof (cases t)
    case (TurnCloses oc1)
    then show ?thesis using Cons.prems t drive_turn_closes [OF t [unfolded TurnCloses]] by (intro first) auto
  next
    case (TurnWaits wake)
    let ?a = "dr_activity r a1" and ?rq = "fold request_step (dr_requests r) rq1"
    show ?thesis
    proof (cases "drive_input cs config conn_id (dr_input_at r) (dr_input r) (dr_close r) ?a ?rq w1")
      case (DriverEnds oc2 a2 rq2 w2)
      then show ?thesis using Cons.prems t TurnWaits drive_input_ends [OF DriverEnds] by (intro first) auto
    next
      case DriverContinues
      then have step: "drive_connection cs config conn_id (r # rest) a rq w = drive_connection cs config conn_id rest
          (if dr_input r = ActivityChanged then ?a\<lparr>ca_notified := False\<rparr> else ?a) ?rq w1" for rest
        using t TurnWaits by (simp add: Let_def)
      from Cons.IH [OF Cons.prems [unfolded step]] obtain pre r' post where zero: "tunnel_count a' = 0"
        and "rounds = pre @ r' # post" "drive_connection cs config conn_id (r # pre) a rq w = None"
          "requests_released oc (dr_close r') rq'"
        unfolding step by blast
      then have "\<exists>pre r' post. r # rounds = pre @ r' # post \<and> drive_connection cs config conn_id pre a rq w = None
         \<and> requests_released oc (dr_close r') rq'"
        by (intro exI [of _ "r # pre"] exI [of _ r'] exI [of _ post]) simp
      with zero show ?thesis by blast
    next
      case DriverHangs
      then show ?thesis using Cons.prems t TurnWaits by simp
    qed
  qed
qed simp

text \<open>
  C19: Nothing outlives a connection but a request that comes up in its last moments.  However the driver of a
  connection ends, by the client, a timeout, a shutdown, after any number of rounds and whatever the
  other tasks did meanwhile, also while the connection drains, no tunnel of the connection is left
  running; and unless the connection ended in order or as idle every request of its registry that is
  still alive has been cancelled, so that no task waits for it in vain, except, when a total or write
  timeout or a shutdown closed it, one that came up or registered during the drain of that close in the last
  round (no earlier round ended the driver).
\<close>

theorem connection_end_releases:
  assumes "drive_connection cs config conn_id rounds a rq w = Some (oc, a', (rs', store'), w')"
  shows "tunnel_count a' = 0
    \<and> (\<exists>pre r post. rounds = pre @ r # post \<and> drive_connection cs config conn_id pre a rq w = None
         \<and> (oc \<notin> {NormalEnd, IdleTimeoutEnd} \<longrightarrow>
            (\<forall>i\<in>set rs'. \<forall>s. store' i = Some s \<longrightarrow> is_cancelled s
               \<or> oc \<in> {TotalTimeoutEnd, WriteTimeoutEnd, ShutdownEnd} \<and> i \<in> late_requests (cl_requests (dr_close r)))))"
proof -
  obtain pre r post where "tunnel_count a' = 0" "rounds = pre @ r # post"
    "drive_connection cs config conn_id pre a rq w = None" "requests_released oc (dr_close r) (rs', store')"
    using driver_releases [OF assms] by blast
  then show ?thesis
    by (intro conjI exI [of _ pre] exI [of _ r] exI [of _ post])
      (auto simp: requests_released_def cancelled_except_def close_after_cancel_def split: if_splits)
qed

section \<open>Witnesses\<close>

definition fresh_activity :: connection_activity where
  [rust_eval]: "fresh_activity = activity_new sample_context 0"

definition idle_close :: close_run where
  [rust_eval]: "idle_close = \<lparr>cl_drains = True, cl_activity = (\<lambda>a. a), cl_requests = []\<rparr>"

lemma fresh_turn:
  "drive_turn sample_sinks sample_policy 1 0 close fresh_activity rq sample_world =
     (TurnWaits (Some 1), fresh_activity, rq, sample_world)"
  by (simp add: drive_turn_def fresh_activity_def activity_new_def sample_policy_def total_deadline_def take_body_timeout_def
      idle_expired_def write_stalled_def next_wake_def connection_idle_def tunnel_count_def idle_deadline_owned_def eggserve_owned_def)

theorem deadlines_exact_witness:
  "drive_turn sample_sinks sample_policy 1 0 idle_close fresh_activity ([], \<lambda>_. None) sample_world =
     (TurnWaits (Some 1), fresh_activity, ([], \<lambda>_. None), sample_world)
   \<and> (\<exists>oc\<in>{TotalTimeoutEnd, IdleTimeoutEnd, WriteTimeoutEnd}.
        fst (drive_turn sample_sinks sample_policy 1 9 idle_close fresh_activity ([], \<lambda>_. None) sample_world) = TurnCloses oc)"
proof -
  have "(1 :: nat) \<le> 9" by simp
  with deadlines_exact [OF fresh_turn] fresh_turn show ?thesis by blast
qed

theorem idle_close_safe_witness:
  "\<exists>m. run_events (activity_step sample_sinks sample_policy 1)
        [(1, BytesRead 40), (1, RequestArrives), (3, FinishRequest 0 KEEP_ALIVE), (4, PollBody 0 InnerEnd)]
        (activity_start sample_context 0 None sample_world) = Some m
     \<and> (\<exists>a rq w. drive_turn sample_sinks sample_policy 1 9 idle_close (am_activity m) ([], \<lambda>_. None) sample_world =
          (TurnCloses IdleTimeoutEnd, a, rq, w))
     \<and> am_guards m = [] \<and> am_trackers m = [] \<and> am_tunnels m = [] \<and> 3 + h1_keep_alive_idle_timeout sample_policy \<le> 9"
proof -
  let ?es = "[(1, BytesRead 40), (1, RequestArrives), (3, FinishRequest 0 KEEP_ALIVE), (4, PollBody 0 InnerEnd)]"
  obtain m where m: "run_events (activity_step sample_sinks sample_policy 1) ?es
        (activity_start sample_context 0 None sample_world) = Some m"
      and a: "am_activity m = (activity_new sample_context 0)\<lparr>ca_last_activity := 4, ca_last_write := 3, ca_notified := True,
        ca_completed := 1\<rparr>"
    by (simp add: activity_start_def live_objects_def activity_defs remove_nth_def sample_policy_def activity_new_def
        sub_or_restore_def Let_def)
  have "fst (drive_turn sample_sinks sample_policy 1 9 idle_close (am_activity m) ([], \<lambda>_. None) sample_world) = TurnCloses IdleTimeoutEnd"
    by (simp add: a drive_turn_decision activity_new_def sample_policy_def total_expired_def total_deadline_def idle_expired_def
        connection_idle_def tunnel_count_def idle_deadline_owned_def eggserve_owned_def)
  then obtain a' rq w where c: "drive_turn sample_sinks sample_policy 1 9 idle_close (am_activity m) ([], \<lambda>_. None) sample_world =
      (TurnCloses IdleTimeoutEnd, a', rq, w)" by (metis prod.collapse)
  have "sorted ((0 :: instant) # map fst ?es @ [9])" by simp
  from idle_close_safe [OF m this c] m c show ?thesis by (intro exI [of _ m]) auto
qed

definition sample_round :: "request_event list \<Rightarrow> driver_round" where
  [rust_eval]: "sample_round late =
     \<lparr>dr_now = 0, dr_activity = spawn_tunnel, dr_requests = [RequestCreated 7 new_active, RequestRegistered 7],
      dr_input = ShutdownRequested 0 [], dr_input_at = 0,
      dr_close = \<lparr>cl_drains = True, cl_activity = (\<lambda>a. a), cl_requests = late\<rparr>\<rparr>"

lemma sample_round_ends:
  obtains a rq w where "drive_connection sample_sinks sample_policy 1 [sample_round late] fresh_activity ([], \<lambda>_. None) sample_world
      = Some (ShutdownEnd, a, fold request_step late rq, w)" "fst rq = [7]"
proof -
  obtain rq1 w1 where c: "cancel_requests sample_sinks (ca_ops (spawn_tunnel fresh_activity)) 1 ServerShutdown
      ([7], [7 \<mapsto> new_active]) sample_world = (rq1, w1)" by (metis surj_pair)
  then have "fst rq1 = [7]" by (auto simp: cancel_requests_def split: prod.splits)
  then show thesis
    by (intro that [of _ rq1])
      (simp_all add: sample_round_def fresh_turn c drive_input_def graceful_close_def register_request_def Let_def)
qed

theorem connection_end_releases_witness:
  "\<exists>a rs store w. drive_connection sample_sinks sample_policy 1 [sample_round []] fresh_activity ([], \<lambda>_. None) sample_world =
       Some (ShutdownEnd, a, (rs, store), w)
     \<and> rs = [7] \<and> tunnel_count a = 0 \<and> (\<forall>s. store 7 = Some s \<longrightarrow> is_cancelled s)"
proof -
  obtain a rq w where d: "drive_connection sample_sinks sample_policy 1 [sample_round []] fresh_activity ([], \<lambda>_. None) sample_world =
      Some (ShutdownEnd, a, (fst rq, snd rq), w)" and rs: "fst rq = [7]"
    by (rule sample_round_ends [of "[]"]) (metis fold_simps(1) prod.collapse)
  from connection_end_releases [OF d] obtain pre r post where "tunnel_count a = 0" "[sample_round []] = pre @ r # post"
    "\<forall>i\<in>set (fst rq). \<forall>s. snd rq i = Some s \<longrightarrow> is_cancelled s \<or> i \<in> late_requests (cl_requests (dr_close r))"
    by blast
  with d rs show ?thesis
    by (intro exI [of _ a] exI [of _ "fst rq"] exI [of _ "snd rq"] exI [of _ w])
      (auto simp: Cons_eq_append_conv sample_round_def late_requests_def)
qed

text \<open>
  The exception is real: a request whose body is still read into memory when the driver cancels the
  requests registers during the drain and is never cancelled.
\<close>

lemma late_request_uncancelled:
  "\<exists>a rs store w. drive_connection sample_sinks sample_policy 1
        [sample_round [RequestCreated 9 new_complete, RequestRegistered 9]] fresh_activity ([], \<lambda>_. None) sample_world =
       Some (ShutdownEnd, a, (rs, store), w)
     \<and> 9 \<in> set rs \<and> store 9 = Some new_complete \<and> \<not> is_cancelled new_complete"
proof -
  obtain a rq w where d: "drive_connection sample_sinks sample_policy 1
        [sample_round [RequestCreated 9 new_complete, RequestRegistered 9]] fresh_activity ([], \<lambda>_. None) sample_world =
      Some (ShutdownEnd, a, fold request_step [RequestCreated 9 new_complete, RequestRegistered 9] rq, w)"
    using sample_round_ends by metis
  then show ?thesis
    by (cases rq) (simp add: registered_live is_cancelled_def new_complete_def new_shared_def)
qed

end
