(* ===== verification/Tunnel_Exec.thy ===== *)
theory Tunnel_Exec
  imports Connection_Driver
begin

text \<open>
  Tunnel execution: the server-owned half of \<^verbatim>\<open>eggserve-server/src/tunnel.rs\<close>: the one-shot state that the
  capability of a service shares with the pipeline, the handshake response, admission and the tracked task.

  The transport handoff \<^verbatim>\<open>OnUpgrade\<close> and the handler of the application are values of any type.  The
  sidecar is \<open>None\<close> when its lock is poisoned, and otherwise the staged acceptance, if any.

  \<^verbatim>\<open>accept\<close> reads the commitment, claims the tunnel and stages its acceptance in separate atomic accesses,
  and a service may call it from a task of its own, which runs beside the pipeline's commitment of the
  answer and its look at the sidecar.  \<open>accept_atomic\<close> is one such access, \<open>tunnel_step\<close> the interleaving of
  any number of calls with the pipeline, and \<open>tunnel_accept\<close> the call that nothing interrupts.
\<close>

section \<open>One-shot state\<close>

record tunnel_shared =
  ts_committed :: bool
  ts_accepted :: bool

definition tunnel_shared_new :: tunnel_shared where
  [rust_eval]: "tunnel_shared_new = \<lparr>ts_committed = False, ts_accepted = False\<rparr>"

definition tunnel_mark_committed :: "tunnel_shared \<Rightarrow> tunnel_shared" where
  [rust_eval]: "tunnel_mark_committed s = s\<lparr>ts_committed := True\<rparr>"

definition try_accept :: "tunnel_shared \<Rightarrow> bool \<times> tunnel_shared" where
  [rust_eval]: "try_accept s = (if ts_accepted s then (False, s) else (True, s\<lparr>ts_accepted := True\<rparr>))"

record ('u, 'k) tunnel_acceptance =
  ta_handler :: 'k
  ta_upgrade :: "'u option"
  ta_kind :: tunnel_kind

type_synonym ('u, 'k) sidecar = "('u, 'k) tunnel_acceptance option option"

record 'u tunnel_capability =
  tc_request :: tunnel_request
  tc_upgrade :: "'u option"

section \<open>The handshake\<close>

fun handshake_status :: "tunnel_kind \<Rightarrow> status_code" where
  "handshake_status Http1Upgrade = 101"
| "handshake_status ConnectKind = 200"
| "handshake_status ExtendedConnect = 200"

definition is_upgrade_field :: "header_field \<Rightarrow> bool" where
  [rust_eval]: "is_upgrade_field f \<longleftrightarrow>
     eq_ignore_ascii_case (name_str (hf_name f)) ''upgrade'' \<or> eq_ignore_ascii_case (name_str (hf_name f)) ''connection''"

text \<open>The fields of the runtime on an HTTP/1 upgrade.\<close>

definition upgrade_fields :: "tunnel_request \<Rightarrow> header_block \<Rightarrow> tunnel_error + header_block" where
  [rust_eval]: "upgrade_fields request headers =
     and_then (ok_or (TunnelInvalidHeader InvalidValue) (tr_protocol request)) (\<lambda>protocol.
     let headers = block_retain (\<lambda>f. \<not> is_upgrade_field f) headers in
     and_then (map_err (\<lambda>_. TunnelInvalidHeader InvalidName) (header_name_new ''upgrade'')) (\<lambda>n.
     and_then (map_err (\<lambda>_. TunnelInvalidHeader InvalidValue) (header_value_from_bytes (protocol_str protocol))) (\<lambda>v.
     let headers = block_push headers n v in
     and_then (map_err (\<lambda>_. TunnelInvalidHeader InvalidName) (header_name_new ''connection'')) (\<lambda>n.
     and_then (map_err (\<lambda>_. TunnelInvalidHeader InvalidValue) (header_value_from_bytes ''upgrade'')) (\<lambda>v.
     Inr (block_push headers n v))))))"

definition build_handshake_response :: "tunnel_request \<Rightarrow> header_block \<Rightarrow> tunnel_error + response" where
  [rust_eval]: "build_handshake_response request headers =
     and_then (validate_handshake_headers headers) (\<lambda>headers.
     and_then (if tr_kind request = Http1Upgrade then upgrade_fields request headers else Inr headers) (\<lambda>headers.
     and_then (map_err (\<lambda>_. TunnelForbiddenHeader ''invalid tunnel status'')
       (builder_body RBEmpty (builder_status (handshake_status (tr_kind request)) response_builder_new))) (\<lambda>response.
     Inr (with_headers_mut (\<lambda>b. fold (\<lambda>f b. block_push b (hf_name f) (hf_value f)) headers b) response))))"

definition acceptance_of :: "'u tunnel_capability \<Rightarrow> 'k \<Rightarrow> ('u, 'k) tunnel_acceptance" where
  [rust_eval]: "acceptance_of cap handler =
     \<lparr>ta_handler = handler, ta_upgrade = tc_upgrade cap, ta_kind = tr_kind (tc_request cap)\<rparr>"

text \<open>A call of accept by its accesses: it reads the commitment, builds the response, claims, stages.\<close>

datatype accept_pc =
    AcceptLoads
  | AcceptBuilds
  | AcceptClaims response
  | AcceptStages response
  | AcceptReturned "tunnel_error + response"

fun accept_atomic ::
  "'u tunnel_capability \<Rightarrow> header_block \<Rightarrow> 'k \<Rightarrow> accept_pc \<Rightarrow> tunnel_shared \<Rightarrow> ('u, 'k) sidecar
   \<Rightarrow> accept_pc \<times> tunnel_shared \<times> ('u, 'k) sidecar" where
  "accept_atomic cap headers handler AcceptLoads s side =
     (if ts_committed s then AcceptReturned (Inl TunnelAfterCommit) else AcceptBuilds, s, side)"
| "accept_atomic cap headers handler AcceptBuilds s side =
     (case build_handshake_response (tc_request cap) headers of
        Inl e \<Rightarrow> AcceptReturned (Inl e)
      | Inr response \<Rightarrow> AcceptClaims response, s, side)"
| "accept_atomic cap headers handler (AcceptClaims response) s side =
     (let (claimed, s) = try_accept s
      in (if claimed then AcceptStages response else AcceptReturned (Inl AlreadyAccepted), s, side))"
| "accept_atomic cap headers handler (AcceptStages response) s side =
     (case side of
        None \<Rightarrow> (AcceptReturned (Inl AlreadyAccepted), s, side)
      | Some _ \<Rightarrow> (AcceptReturned (Inr response), s, Some (Some (acceptance_of cap handler))))"
| "accept_atomic cap headers handler (AcceptReturned result) s side = (AcceptReturned result, s, side)"

definition tunnel_accept ::
  "'u tunnel_capability \<Rightarrow> header_block \<Rightarrow> 'k \<Rightarrow> tunnel_shared \<Rightarrow> ('u, 'k) sidecar
   \<Rightarrow> (tunnel_error + response) \<times> tunnel_shared \<times> ('u, 'k) sidecar" where
  [rust_eval]: "tunnel_accept cap headers handler s side =
     (if ts_committed s then (Inl TunnelAfterCommit, s, side)
      else case build_handshake_response (tc_request cap) headers of
        Inl e \<Rightarrow> (Inl e, s, side)
      | Inr response \<Rightarrow>
          (let (claimed, s) = try_accept s in
           if \<not> claimed then (Inl AlreadyAccepted, s, side)
           else case side of
             None \<Rightarrow> (Inl AlreadyAccepted, s, side)
           | Some _ \<Rightarrow> (Inr response, s, Some (Some (acceptance_of cap handler)))))"

text \<open>
  Calls of accept beside the pipeline, which commits the answer when the service has returned (or was given
  up) and then either takes what is staged or answers without looking.
\<close>

datatype ('u, 'k) pipe_pc =
    PipeCalls
  | PipeCommitted
  | PipeTook "('u, 'k) tunnel_acceptance option"
  | PipePoisoned
  | PipeAnswered

record ('u, 'k) tunnel_race =
  tx_shared :: tunnel_shared
  tx_side :: "('u, 'k) sidecar"
  tx_pc :: "nat \<Rightarrow> accept_pc"
  tx_pipe :: "('u, 'k) pipe_pc"

definition tunnel_race_start :: "('u, 'k) tunnel_race" where
  [rust_eval]: "tunnel_race_start =
     \<lparr>tx_shared = tunnel_shared_new, tx_side = Some None, tx_pc = (\<lambda>_. AcceptLoads), tx_pipe = PipeCalls\<rparr>"

datatype tunnel_event = CallerStep nat | PipeCommits | PipeTakes | PipeAnswers

fun tunnel_step ::
  "'u tunnel_capability \<Rightarrow> (nat \<Rightarrow> header_block) \<Rightarrow> (nat \<Rightarrow> 'k) \<Rightarrow> tunnel_event
   \<Rightarrow> ('u, 'k) tunnel_race \<Rightarrow> ('u, 'k) tunnel_race option" where
  "tunnel_step cap headers handlers (CallerStep c) x =
     (case tx_pc x c of
        AcceptReturned _ \<Rightarrow> None
      | pc \<Rightarrow>
          (let (pc, s, side) = accept_atomic cap (headers c) (handlers c) pc (tx_shared x) (tx_side x)
           in Some (x\<lparr>tx_shared := s, tx_side := side, tx_pc := (tx_pc x)(c := pc)\<rparr>)))"
| "tunnel_step cap headers handlers PipeCommits x =
     (case tx_pipe x of
        PipeCalls \<Rightarrow> Some (x\<lparr>tx_shared := tunnel_mark_committed (tx_shared x), tx_pipe := PipeCommitted\<rparr>)
      | _ \<Rightarrow> None)"
| "tunnel_step cap headers handlers PipeTakes x =
     (case tx_pipe x of
        PipeCommitted \<Rightarrow>
          (case tx_side x of
             None \<Rightarrow> Some (x\<lparr>tx_pipe := PipePoisoned\<rparr>)
           | Some staged \<Rightarrow> Some (x\<lparr>tx_side := Some None, tx_pipe := PipeTook staged\<rparr>))
      | _ \<Rightarrow> None)"
| "tunnel_step cap headers handlers PipeAnswers x =
     (case tx_pipe x of PipeCommitted \<Rightarrow> Some (x\<lparr>tx_pipe := PipeAnswered\<rparr>) | _ \<Rightarrow> None)"

section \<open>Admission and execution\<close>

text \<open>\<open>False\<close> is the refusal of a saturated server; the spawned task is counted by the activity.\<close>

definition admit_and_spawn ::
  "custom_sinks \<Rightarrow> ops_context \<Rightarrow> u64 \<Rightarrow> nat option \<Rightarrow> connection_activity \<Rightarrow> ops_world
   \<Rightarrow> bool \<times> nat option \<times> connection_activity \<times> ops_world" where
  [rust_eval]: "admit_and_spawn cs ctx conn_id semaphore a w =
     (case semaphore of
        None \<Rightarrow> (True, None, spawn_tunnel a, w)
      | Some (Suc n) \<Rightarrow> (True, Some n, spawn_tunnel a, w)
      | Some 0 \<Rightarrow>
          (let w = ops_count ctx (oc_tunnels_rejected_update (\<lambda>n. n + 1)) w
           in (False, Some 0, a, emit_for cs ctx conn_id Warn TunnelRejected ''tunnel saturated: active tunnel limit'' w)))"

text \<open>How the tracked task ends: the upgrade fails, the handler returns or panics, the request is
  cancelled, or the task is aborted while it waits for the upgrade or while the handler runs.\<close>

datatype tunnel_end = UpgradeFails | HandlerEnds | RequestCancelled | AbortedWaiting | AbortedRunning

definition run_tunnel ::
  "custom_sinks \<Rightarrow> ops_context \<Rightarrow> u64 \<Rightarrow> tunnel_end \<Rightarrow> ('u, 'k) tunnel_acceptance \<Rightarrow> ops_world \<Rightarrow> ops_world" where
  [rust_eval]: "run_tunnel cs ctx conn_id ending acceptance w =
     (case ta_upgrade acceptance of
        None \<Rightarrow>
          emit_for cs ctx conn_id Warn TunnelUpgradeFailed ''tunnel upgrade unavailable''
            (ops_count ctx (oc_tunnel_upgrade_failures_update (\<lambda>n. n + 1)) w)
      | Some _ \<Rightarrow>
          if ending = AbortedWaiting then w
          else if ending = UpgradeFails then
            emit_for cs ctx conn_id Debug TunnelUpgradeFailed ''tunnel upgrade failed''
              (ops_count ctx (oc_tunnel_upgrade_failures_update (\<lambda>n. n + 1)) w)
          else
            let w = ops_count ctx (oc_tunnels_accepted_update (\<lambda>n. n + 1)) w;
                w = ops_count ctx (oc_active_tunnels_update (\<lambda>n. n + 1)) w;
                w = emit_for cs ctx conn_id Info TunnelAccepted
                      (''tunnel accepted: '' @ tunnel_kind_str (ta_kind acceptance)) w;
                w = (if ending = AbortedRunning then w
                     else emit_for cs ctx conn_id Debug TunnelClosed
                            (''tunnel closed: '' @ tunnel_kind_str (ta_kind acceptance)) w)
            in ops_count ctx (oc_active_tunnels_update (\<lambda>n. n - 1)) w)"

section \<open>Lemmas\<close>

lemma push_all: "fold (\<lambda>f b. block_push b (hf_name f) (hf_value f)) fs b = b @ (fs :: header_block)"
  by (induction fs arbitrary: b) (simp_all add: block_push_def)

definition plain :: "string \<Rightarrow> string \<Rightarrow> header_field" where
  [rust_eval]: "plain n v = \<lparr>hf_name = HeaderName n, hf_value = HeaderValue v\<rparr>"

lemma upgrade_fields_Inr:
  assumes "upgrade_fields request headers = Inr b"
  shows "\<exists>p v. tr_protocol request = Some p \<and> header_value_from_bytes (protocol_str p) = Inr v
    \<and> b = filter (\<lambda>f. \<not> is_upgrade_field f) headers
        @ [\<lparr>hf_name = HeaderName ''upgrade'', hf_value = v\<rparr>, plain ''connection'' ''upgrade'']"
  using assms
  by (auto simp: upgrade_fields_def block_push_def block_retain_def plain_def header_name_new_def
      header_value_from_bytes_def result_inv Let_def rust_eval split: if_splits)

lemma validated_handshake:
  assumes "validate_handshake_headers headers = Inr b"
  shows "b = filter (\<lambda>f. \<not> is_hop_by_hop_header (name_str (hf_name f))) headers"
    "length b \<le> MAX_TUNNEL_HEADER_COUNT" "trailer_block_bytes b \<le> MAX_TUNNEL_HEADER_BYTES"
    "block_get_all headers ''content-length'' = []" "block_get_all headers ''transfer-encoding'' = []"
  using assms
  by (auto simp: validate_handshake_headers_def block_retain_def block_contains_def block_get_all_def Let_def
      list_ex_iff filter_empty_conv split: if_splits)

lemma hop_names:
  "eq_ignore_ascii_case n ''upgrade'' \<Longrightarrow> is_hop_by_hop_header n"
  "eq_ignore_ascii_case n ''connection'' \<Longrightarrow> is_hop_by_hop_header n"
  by (auto simp: is_hop_by_hop_header_def)

lemma upgrade_fields_hop: "is_upgrade_field f \<Longrightarrow> is_hop_by_hop_header (name_str (hf_name f))"
  by (auto simp: is_upgrade_field_def hop_names)

text \<open>A valid protocol name is sent as it is.\<close>

lemma protocol_value:
  assumes "protocol_new (protocol_str p) = Inr p" "header_value_from_bytes (protocol_str p) = Inr v"
  shows "v = HeaderValue (protocol_str p)"
proof -
  have ok: "\<forall>c\<in>set (protocol_str p). \<not> is_ows c"
    using assms(1) by (auto simp: protocol_new_Inr list_all_iff is_tchar_def is_ows_def ascii_class)
  then have "dropWhile is_ows (protocol_str p) = protocol_str p" "dropWhile is_ows (rev (protocol_str p)) = rev (protocol_str p)"
    by (auto simp: dropWhile_eq_self_iff hd_rev)
  then have "trim_ows (protocol_str p) = protocol_str p" by (simp add: trim_ows_eq trim_matches_ows_def)
  with header_value_trimmed [OF assms(2)] show ?thesis by simp
qed

definition handshake_for :: "tunnel_request \<Rightarrow> header_block \<Rightarrow> response \<Rightarrow> bool" where
  [rust_eval]: "handshake_for request headers r \<longleftrightarrow>
     rh_status (rsp_head r) = (if tr_kind request = Http1Upgrade then 101 else 200) \<and> rsp_body r = Some RBEmpty
     \<and> block_get_all (rh_headers (rsp_head r)) ''upgrade'' =
         (if tr_kind request = Http1Upgrade then [HeaderValue (protocol_str (the (tr_protocol request)))] else [])
     \<and> block_get_all (rh_headers (rsp_head r)) ''connection'' =
         (if tr_kind request = Http1Upgrade then [HeaderValue ''upgrade''] else [])
     \<and> block_get_all (rh_headers (rsp_head r)) ''content-length'' = []
     \<and> block_get_all (rh_headers (rsp_head r)) ''transfer-encoding'' = []
     \<and> filter (\<lambda>f. \<not> is_hop_by_hop_header (name_str (hf_name f))) (rh_headers (rsp_head r)) =
       filter (\<lambda>f. \<not> is_hop_by_hop_header (name_str (hf_name f))) headers
     \<and> length (filter (\<lambda>f. \<not> is_hop_by_hop_header (name_str (hf_name f))) headers) \<le> MAX_TUNNEL_HEADER_COUNT"

definition valid_protocol :: "tunnel_request \<Rightarrow> bool" where
  [rust_eval]: "valid_protocol request \<longleftrightarrow>
     (case tr_protocol request of Some p \<Rightarrow> protocol_new (protocol_str p) = Inr p | None \<Rightarrow> True)"

lemma not_hop_values:
  assumes "\<forall>f\<in>set b. \<not> is_hop_by_hop_header (name_str (hf_name f))"
  shows "block_get_all b ''upgrade'' = []" "block_get_all b ''connection'' = []" "block_get_all b ''transfer-encoding'' = []"
  using assms
  by (auto simp: block_get_all_def filter_empty_conv field_matches_def is_hop_by_hop_header_def)

lemma get_all_append: "block_get_all (b @ c) n = block_get_all b n @ block_get_all c n"
  by (simp add: block_get_all_def)

lemma get_all_filter: "block_get_all b n = [] \<Longrightarrow> block_get_all (filter P b) n = []"
  by (auto simp: block_get_all_def filter_empty_conv)

lemma upgrade_tail:
  assumes "fs = [\<lparr>hf_name = HeaderName ''upgrade'', hf_value = v\<rparr>, plain ''connection'' ''upgrade'']"
  shows "block_get_all fs ''upgrade'' = [v]" "block_get_all fs ''connection'' = [HeaderValue ''upgrade'']"
    "block_get_all fs ''content-length'' = []" "block_get_all fs ''transfer-encoding'' = []"
    "filter (\<lambda>f. \<not> is_hop_by_hop_header (name_str (hf_name f))) fs = []"
  unfolding assms
  by (simp_all add: block_get_all_def field_matches_def eq_ignore_ascii_case_def to_ascii_lowercase_def plain_def
      to_ascii_lowercase_char_def ascii_class is_hop_by_hop_header_def)

lemma handshake_sound:
  assumes "build_handshake_response request headers = Inr r" "valid_protocol request"
  shows "handshake_for request headers r"
proof -
  let ?b = "filter (\<lambda>f. \<not> is_hop_by_hop_header (name_str (hf_name f))) headers"
  from assms(1) obtain b fs where v: "validate_handshake_headers headers = Inr b"
    and fs: "(if tr_kind request = Http1Upgrade then upgrade_fields request b else Inr b) = Inr fs"
    and r: "r = \<lparr>rsp_head = \<lparr>rh_status = handshake_status (tr_kind request), rh_headers = fs\<rparr>, rsp_body = Some RBEmpty,
        rsp_normalized = False\<rparr>"
    by (auto simp: build_handshake_response_def builder_body_def builder_status_def response_builder_new_def
        with_headers_mut_def push_all block_new_def result_inv)
  note ok = validated_handshake [OF v]
  have b: "b = ?b" by (rule ok(1))
  have hop: "\<forall>f\<in>set b. \<not> is_hop_by_hop_header (name_str (hf_name f))" unfolding b by simp
  have cl: "block_get_all b ''content-length'' = []" unfolding b using get_all_filter [OF ok(4)] .
  show ?thesis
  proof (cases "tr_kind request = Http1Upgrade")
    case True
    then obtain p v where p: "tr_protocol request = Some p" and v: "header_value_from_bytes (protocol_str p) = Inr v"
      and f: "fs = filter (\<lambda>f. \<not> is_upgrade_field f) b @ [\<lparr>hf_name = HeaderName ''upgrade'', hf_value = v\<rparr>, plain ''connection'' ''upgrade'']"
      using upgrade_fields_Inr [of request b fs] fs by auto
    have same: "filter (\<lambda>f. \<not> is_upgrade_field f) b = b"
      using hop upgrade_fields_hop by (auto simp: filter_id_conv)
    have "v = HeaderValue (protocol_str p)" using protocol_value [OF _ v] assms(2) p by (simp add: valid_protocol_def)
    then show ?thesis using True p cl not_hop_values [OF hop] ok(2) hop upgrade_tail [OF refl, of v]
      unfolding handshake_for_def r f same b [symmetric] by (simp add: get_all_append filter_id_conv)
  next
    case False
    have "fs = b" using False fs by simp
    moreover have "handshake_status (tr_kind request) = 200" using False by (cases "tr_kind request") simp_all
    ultimately show ?thesis using False cl not_hop_values [OF hop] hop ok(2) unfolding handshake_for_def r b [symmetric] by (simp add: filter_id_conv)
  qed
qed

text \<open>The call that nothing interrupts is its accesses in a row.\<close>

lemma tunnel_accept_uninterrupted:
  "((\<lambda>(pc, s, side). accept_atomic cap headers handler pc s side) ^^ 4) (AcceptLoads, s, side) =
     (case tunnel_accept cap headers handler s side of (result, s', side') \<Rightarrow> (AcceptReturned result, s', side'))"
  by (cases "ts_committed s"; cases "build_handshake_response (tc_request cap) headers"; cases side)
    (simp_all add: numeral_eq_Suc tunnel_accept_def try_accept_def)

text \<open>The gauge of active tunnels is balanced however the task ends, and every task that got a transport or
  failed to is counted once, as accepted or as failed.\<close>

definition tunnel_gauges :: "ops_context \<Rightarrow> ops_world \<Rightarrow> u64 \<times> u64 \<times> u64" where
  [rust_eval]: "tunnel_gauges ctx w =
     (let c = ow_counters w (ctx_id ctx) in (oc_active_tunnels c, oc_tunnels_accepted c, oc_tunnel_upgrade_failures c))"

lemma emit_for_tunnels [simp]: "tunnel_gauges ctx (emit_for cs ctx' conn_id sev kind message w) = tunnel_gauges ctx w"
proof -
  have "tunnel_gauges ctx (ops_emit cs ctx' ev v) = tunnel_gauges ctx v" for ev v
    using ops_emit_counters [of cs ctx' ev v "ctx_id ctx"] by (auto simp: tunnel_gauges_def Let_def)
  then show ?thesis by (simp add: emit_for_def event_now_def tunnel_gauges_def [of _ "_\<lparr>ow_ticks := _\<rparr>"]) (simp add: tunnel_gauges_def)
qed

lemma tunnel_gauges_count:
  "tunnel_gauges ctx (ops_count ctx (oc_active_tunnels_update f) w) = (case tunnel_gauges ctx w of (a, b, c) \<Rightarrow> (f a, b, c))"
  "tunnel_gauges ctx (ops_count ctx (oc_tunnels_accepted_update f) w) = (case tunnel_gauges ctx w of (a, b, c) \<Rightarrow> (a, f b, c))"
  "tunnel_gauges ctx (ops_count ctx (oc_tunnel_upgrade_failures_update f) w) = (case tunnel_gauges ctx w of (a, b, c) \<Rightarrow> (a, b, f c))"
  by (simp_all add: tunnel_gauges_def ops_count_def with_counters_def Let_def)

lemma run_tunnel_balanced:
  "tunnel_gauges ctx (run_tunnel cs ctx conn_id ending acceptance w) =
     (case tunnel_gauges ctx w of (active, accepted, failed) \<Rightarrow>
        (active,
         accepted + (if ta_upgrade acceptance \<noteq> None \<and> ending \<in> {HandlerEnds, RequestCancelled, AbortedRunning} then 1 else 0),
         failed + (if ta_upgrade acceptance = None \<or> ending = UpgradeFails then 1 else 0)))"
  by (cases ending; cases "ta_upgrade acceptance")
    (simp_all add: run_tunnel_def Let_def tunnel_gauges_count split: prod.splits)

section \<open>Calls and the pipeline, interleaved\<close>

fun accept_claimed :: "accept_pc \<Rightarrow> bool" where
  "accept_claimed (AcceptStages _) \<longleftrightarrow> True"
| "accept_claimed (AcceptReturned (Inr _)) \<longleftrightarrow> True"
| "accept_claimed _ \<longleftrightarrow> False"

text \<open>What a call may have come to, given what the others and the pipeline did.\<close>

definition call_inv ::
  "'u tunnel_capability \<Rightarrow> (nat \<Rightarrow> header_block) \<Rightarrow> (nat \<Rightarrow> 'k) \<Rightarrow> ('u, 'k) tunnel_race \<Rightarrow> nat \<Rightarrow> bool" where
  "call_inv cap headers handlers x c \<longleftrightarrow>
     (case tx_pc x c of
        AcceptLoads \<Rightarrow> True
      | AcceptBuilds \<Rightarrow> True
      | AcceptClaims r \<Rightarrow> build_handshake_response (tc_request cap) (headers c) = Inr r
      | AcceptStages r \<Rightarrow> build_handshake_response (tc_request cap) (headers c) = Inr r
      | AcceptReturned (Inr r) \<Rightarrow>
          build_handshake_response (tc_request cap) (headers c) = Inr r
          \<and> (tx_side x = Some (Some (acceptance_of cap (handlers c)))
             \<or> tx_pipe x = PipeTook (Some (acceptance_of cap (handlers c))))
      | AcceptReturned (Inl e) \<Rightarrow>
          e = TunnelAfterCommit \<and> ts_committed (tx_shared x) \<or> e = AlreadyAccepted \<and> (\<exists>d. d \<noteq> c \<and> accept_claimed (tx_pc x d))
          \<or> build_handshake_response (tc_request cap) (headers c) = Inl e)"

definition has_returned_for :: "'u tunnel_capability \<Rightarrow> (nat \<Rightarrow> 'k) \<Rightarrow> ('u, 'k) tunnel_race \<Rightarrow> ('u, 'k) tunnel_acceptance \<Rightarrow> bool" where
  "has_returned_for cap handlers x a \<longleftrightarrow> (\<exists>c r. tx_pc x c = AcceptReturned (Inr r) \<and> a = acceptance_of cap (handlers c))"

definition tunnel_inv ::
  "'u tunnel_capability \<Rightarrow> (nat \<Rightarrow> header_block) \<Rightarrow> (nat \<Rightarrow> 'k) \<Rightarrow> ('u, 'k) tunnel_race \<Rightarrow> bool" where
  "tunnel_inv cap headers handlers x \<longleftrightarrow>
     tx_side x \<noteq> None
     \<and> (ts_accepted (tx_shared x) \<longleftrightarrow> (\<exists>c. accept_claimed (tx_pc x c)))
     \<and> (\<forall>c d. accept_claimed (tx_pc x c) \<and> accept_claimed (tx_pc x d) \<longrightarrow> c = d)
     \<and> (\<forall>c. call_inv cap headers handlers x c)
     \<and> (\<forall>a. tx_side x = Some (Some a) \<or> tx_pipe x = PipeTook (Some a) \<longrightarrow> has_returned_for cap handlers x a)"

lemma tunnel_inv_start: "tunnel_inv cap headers handlers tunnel_race_start"
  by (simp add: tunnel_inv_def tunnel_race_start_def tunnel_shared_new_def call_inv_def)

lemma returned_claimed:
  assumes "has_returned_for cap handlers x a"
  obtains c r where "accept_claimed (tx_pc x c)" "tx_pc x c = AcceptReturned (Inr r)"
  using assms by (auto simp: has_returned_for_def)

text \<open>A step that neither claims nor stages concerns its own call only.\<close>

lemma tunnel_inv_local:
  assumes "tunnel_inv cap headers handlers x" "\<not> accept_claimed (tx_pc x c)" "\<not> accept_claimed pc"
    and "call_inv cap headers handlers (x\<lparr>tx_pc := (tx_pc x)(c := pc)\<rparr>) c"
  shows "tunnel_inv cap headers handlers (x\<lparr>tx_pc := (tx_pc x)(c := pc)\<rparr>)"
proof -
  let ?x = "x\<lparr>tx_pc := (tx_pc x)(c := pc)\<rparr>"
  have same: "accept_claimed (tx_pc ?x d) = accept_claimed (tx_pc x d)" for d using assms(2,3) by simp
  have "call_inv cap headers handlers ?x d" for d
  proof (cases "d = c")
    case False
    then have "tx_pc ?x d = tx_pc x d" by simp
    moreover have "call_inv cap headers handlers x d" using assms(1) by (simp add: tunnel_inv_def)
    ultimately show ?thesis unfolding call_inv_def same by (auto split: accept_pc.splits sum.splits)
  qed (use assms(4) in simp)
  moreover have "has_returned_for cap handlers ?x a" if a: "has_returned_for cap handlers x a" for a
  proof -
    obtain d r where d: "tx_pc x d = AcceptReturned (Inr r)" "a = acceptance_of cap (handlers d)"
      using a by (auto simp: has_returned_for_def)
    then have "d \<noteq> c" using assms(2) by auto
    with d show ?thesis unfolding has_returned_for_def by (intro exI [of _ d] exI [of _ r]) simp
  qed
  ultimately show ?thesis using assms(1) unfolding tunnel_inv_def same by auto
qed

lemma tunnel_inv_claims:
  assumes "tunnel_inv cap headers handlers x" "tx_pc x c = AcceptClaims r" "\<not> ts_accepted (tx_shared x)"
  shows "tunnel_inv cap headers handlers
    (x\<lparr>tx_shared := (tx_shared x)\<lparr>ts_accepted := True\<rparr>, tx_pc := (tx_pc x)(c := AcceptStages r)\<rparr>)"
    (is "tunnel_inv _ _ _ ?x")
proof -
  have none: "\<not> accept_claimed (tx_pc x d)" for d using assms(1,3) by (simp add: tunnel_inv_def)
  have call: "call_inv cap headers handlers x d" for d using assms(1) by (simp add: tunnel_inv_def)
  have "call_inv cap headers handlers ?x d" for d
    using call [of d] call [of c] none assms(2)
    by (cases "d = c") (auto simp: call_inv_def split: accept_pc.splits sum.splits)
  moreover have "\<not> has_returned_for cap handlers x a" for a using none by (metis returned_claimed)
  ultimately show ?thesis using assms(1) none by (auto simp: tunnel_inv_def)
qed

lemma tunnel_inv_stages:
  assumes "tunnel_inv cap headers handlers x" "tx_pc x c = AcceptStages r"
  shows "tunnel_inv cap headers handlers
    (x\<lparr>tx_side := Some (Some (acceptance_of cap (handlers c))), tx_pc := (tx_pc x)(c := AcceptReturned (Inr r))\<rparr>)"
    (is "tunnel_inv _ _ _ ?x")
proof -
  have same: "accept_claimed (tx_pc ?x d) = accept_claimed (tx_pc x d)" for d using assms(2) by simp
  have one: "d = c" if "accept_claimed (tx_pc x d)" for d using assms that by (simp add: tunnel_inv_def)
  then have none: "\<not> has_returned_for cap handlers x a" for a
    using assms(2) by (metis accept_pc.distinct(19) returned_claimed)
  have call: "call_inv cap headers handlers x d" for d using assms(1) by (simp add: tunnel_inv_def)
  have "call_inv cap headers handlers ?x d" for d
  proof (cases "d = c")
    case True
    then show ?thesis using call [of c] assms(2) by (simp add: call_inv_def)
  next
    case False
    then have pc: "tx_pc ?x d = tx_pc x d" and unclaimed: "\<not> accept_claimed (tx_pc x d)" using one by auto
    show ?thesis using call [of d] unclaimed unfolding call_inv_def pc same
      by (auto split: accept_pc.splits sum.splits)
  qed
  moreover have "has_returned_for cap handlers ?x (acceptance_of cap (handlers c))"
    unfolding has_returned_for_def by (intro exI [of _ c] exI [of _ r]) simp
  ultimately show ?thesis using assms(1) none unfolding tunnel_inv_def same by auto
qed

lemma tunnel_inv_pipe:
  assumes "tunnel_inv cap headers handlers x" "e \<in> {PipeCommits, PipeTakes, PipeAnswers}"
    and "tunnel_step cap headers handlers e x = Some x'"
  shows "tunnel_inv cap headers handlers x'"
proof -
  have pc: "tx_pc x' = tx_pc x" "ts_accepted (tx_shared x') = ts_accepted (tx_shared x)"
    using assms(2,3) by (auto simp: tunnel_mark_committed_def split: pipe_pc.splits option.splits)
  have side: "tx_side x' \<noteq> None"
    using assms by (auto simp: tunnel_inv_def split: pipe_pc.splits option.splits)
  have moved: "tx_side x = Some (Some a) \<or> tx_pipe x = PipeTook (Some a) \<longleftrightarrow> tx_side x' = Some (Some a) \<or> tx_pipe x' = PipeTook (Some a)" for a
    using assms(2,3) by (auto split: pipe_pc.splits option.splits)
  have "ts_committed (tx_shared x) \<longrightarrow> ts_committed (tx_shared x')"
    using assms(2,3) by (auto simp: tunnel_mark_committed_def split: pipe_pc.splits option.splits)
  then have "call_inv cap headers handlers x' c" if "call_inv cap headers handlers x c" for c
    using that moved unfolding call_inv_def pc by (auto split: accept_pc.splits sum.splits)
  then show ?thesis using assms(1) side moved unfolding tunnel_inv_def has_returned_for_def pc by blast
qed

lemma tunnel_inv_caller:
  assumes "tunnel_inv cap headers handlers x" "tunnel_step cap headers handlers (CallerStep c) x = Some x'"
  shows "tunnel_inv cap headers handlers x'"
proof -
  have side: "tx_side x \<noteq> None" and call: "call_inv cap headers handlers x c"
    and accepted: "ts_accepted (tx_shared x) \<longleftrightarrow> (\<exists>d. accept_claimed (tx_pc x d))"
    using assms(1) by (simp_all add: tunnel_inv_def)
  note inv_local = tunnel_inv_local [OF assms(1), of c]
  show ?thesis
  proof (cases "tx_pc x c")
    case AcceptLoads
    then show ?thesis using assms(2) inv_local [of AcceptBuilds] inv_local [of "AcceptReturned (Inl TunnelAfterCommit)"]
      by (auto simp: call_inv_def split: if_splits)
  next
    case AcceptBuilds
    then show ?thesis using assms(2) inv_local
      by (auto simp: call_inv_def split: sum.splits)
  next
    case (AcceptClaims r)
    show ?thesis
    proof (cases "ts_accepted (tx_shared x)")
      case True
      then obtain d where d: "accept_claimed (tx_pc x d)" using accepted by blast
      with AcceptClaims have "d \<noteq> c" by auto
      with d have "call_inv cap headers handlers (x\<lparr>tx_pc := (tx_pc x)(c := AcceptReturned (Inl AlreadyAccepted))\<rparr>) c"
        by (auto simp: call_inv_def)
      with True AcceptClaims show ?thesis using assms(2) inv_local [of "AcceptReturned (Inl AlreadyAccepted)"]
        by (auto simp: try_accept_def)
    next
      case False
      then show ?thesis using AcceptClaims assms(2) tunnel_inv_claims [OF assms(1)] by (auto simp: try_accept_def)
    qed
  next
    case (AcceptStages r)
    then show ?thesis using assms(2) side tunnel_inv_stages [OF assms(1)] by auto
  qed (use assms(2) in simp)
qed

interpretation tunnel: event_machine "tunnel_step cap headers handlers" "tunnel_inv cap headers handlers"
  for cap headers handlers
proof
  fix e x x' assume i: "tunnel_inv cap headers handlers x" and s: "tunnel_step cap headers handlers e x = Some x'"
  show "tunnel_inv cap headers handlers x'"
    using tunnel_inv_caller [OF i] tunnel_inv_pipe [OF i _ s] s by (cases e) auto
qed

text \<open>A call that starts after the commitment can only fail.\<close>

definition starts_late :: "nat \<Rightarrow> ('u, 'k) tunnel_race \<Rightarrow> bool" where
  "starts_late c x \<longleftrightarrow>
     ts_committed (tx_shared x) \<and> tx_pc x c \<in> {AcceptLoads, AcceptReturned (Inl TunnelAfterCommit)}"

lemma accept_atomic_committed:
  "accept_atomic cap h k pc s side = (pc', s', side') \<Longrightarrow> ts_committed s' = ts_committed s"
  by (cases pc) (auto simp: try_accept_def split: if_splits option.splits)

interpretation late: event_machine "tunnel_step cap headers handlers" "starts_late c" for cap headers handlers c
proof
  fix e x x' assume late: "starts_late c x" and s: "tunnel_step cap headers handlers e x = Some x'"
  show "starts_late c x'"
  proof (cases e)
    case (CallerStep d)
    obtain pc s1 side where a: "accept_atomic cap (headers d) (handlers d) (tx_pc x d) (tx_shared x) (tx_side x) = (pc, s1, side)"
      by (metis prod_cases3)
    have "x' = x\<lparr>tx_shared := s1, tx_side := side, tx_pc := (tx_pc x)(d := pc)\<rparr>"
      using s CallerStep a by (auto split: accept_pc.splits)
    moreover have "ts_committed s1" using accept_atomic_committed [OF a] late by (simp add: starts_late_def)
    moreover have "pc = AcceptReturned (Inl TunnelAfterCommit)" if "d = c"
      using that a late by (auto simp: starts_late_def)
    ultimately show ?thesis using late by (auto simp: starts_late_def)
  qed (use late s in \<open>auto simp: starts_late_def tunnel_mark_committed_def split: pipe_pc.splits option.splits\<close>)
qed

lemma call_not_started:
  "run_events (tunnel_step cap headers handlers) es x = Some x' \<Longrightarrow> CallerStep c \<notin> set es \<Longrightarrow> tx_pc x' c = tx_pc x c"
proof (induction es arbitrary: x)
  case (Cons e es)
  from Cons.prems(1) obtain y where y: "tunnel_step cap headers handlers e x = Some y"
    "run_events (tunnel_step cap headers handlers) es y = Some x'" by (rule run_events_ConsE)
  have "tx_pc y c = tx_pc x c"
    using y(1) Cons.prems(2)
    by (cases e) (auto split: accept_pc.splits pipe_pc.splits option.splits prod.splits)
  then show ?case using Cons.IH [OF y(2)] Cons.prems(2) by simp
qed simp

lemma late_call_fails:
  assumes "run_events (tunnel_step cap headers handlers) (pre @ PipeCommits # post) tunnel_race_start = Some x"
    and "CallerStep c \<notin> set pre"
  shows "starts_late c x"
proof -
  obtain y z where y: "run_events (tunnel_step cap headers handlers) pre tunnel_race_start = Some y"
    and z: "tunnel_step cap headers handlers PipeCommits y = Some z"
    and x: "run_events (tunnel_step cap headers handlers) post z = Some x"
    using assms(1) by (auto simp: run_events_append Option.bind_eq_Some_conv)
  have "tx_pc y c = AcceptLoads" using call_not_started [OF y assms(2)] by (simp add: tunnel_race_start_def)
  then have "starts_late c z" using z
    by (auto simp: starts_late_def tunnel_mark_committed_def split: pipe_pc.splits)
  then show ?thesis by (rule late.run_inv [OF x])
qed

section \<open>Properties\<close>

text \<open>
  C9: A tunnel is accepted at most once, and its handshake is sound.  Whatever tasks of the service call
  accept, and however their accesses fall between those of the pipeline: at most one call succeeds; what is
  staged or taken by the pipeline is the acceptance of that call, with its handler and the
  transport of the request; its response is 101 for an upgrade and 200 for CONNECT with an empty body,
  exactly one runtime-owned \<^verbatim>\<open>Upgrade\<close> and \<^verbatim>\<open>Connection\<close> field on an upgrade and none otherwise, no framing
  fields, and the application's other fields unchanged and bounded.  A call fails only for its
  fields, because another one claimed the tunnel, or because the answer is committed; and a call that
  starts after the commitment of the answer always fails.
\<close>

theorem tunnel_accepted_once:
  assumes "run_events (tunnel_step cap headers handlers) es tunnel_race_start = Some x" "valid_protocol (tc_request cap)"
  shows "(\<forall>c d r r'. tx_pc x c = AcceptReturned (Inr r) \<and> tx_pc x d = AcceptReturned (Inr r') \<longrightarrow> c = d)
    \<and> (\<forall>c r. tx_pc x c = AcceptReturned (Inr r) \<longrightarrow> handshake_for (tc_request cap) (headers c) r
         \<and> (tx_side x = Some (Some (acceptance_of cap (handlers c)))
            \<or> tx_pipe x = PipeTook (Some (acceptance_of cap (handlers c)))))
    \<and> (\<forall>a. tx_side x = Some (Some a) \<or> tx_pipe x = PipeTook (Some a) \<longrightarrow>
         (\<exists>c r. tx_pc x c = AcceptReturned (Inr r) \<and> a = acceptance_of cap (handlers c)))
    \<and> (\<forall>c e. tx_pc x c = AcceptReturned (Inl e) \<longrightarrow>
         e = TunnelAfterCommit \<and> ts_committed (tx_shared x)
         \<or> e = AlreadyAccepted \<and> (\<exists>d. d \<noteq> c \<and> accept_claimed (tx_pc x d))
         \<or> build_handshake_response (tc_request cap) (headers c) = Inl e)
    \<and> (\<forall>pre post c. es = pre @ PipeCommits # post \<and> CallerStep c \<notin> set pre \<longrightarrow>
         tx_pc x c \<in> {AcceptLoads, AcceptReturned (Inl TunnelAfterCommit)})"
proof -
  have inv: "tunnel_inv cap headers handlers x" by (rule tunnel.run_inv [OF assms(1) tunnel_inv_start])
  have one: "accept_claimed (tx_pc x c) \<Longrightarrow> accept_claimed (tx_pc x d) \<Longrightarrow> c = d" for c d
    using inv by (simp add: tunnel_inv_def)
  have call: "call_inv cap headers handlers x c" for c using inv by (simp add: tunnel_inv_def)
  have "c = d" if "tx_pc x c = AcceptReturned (Inr r)" "tx_pc x d = AcceptReturned (Inr r')" for c d r r'
    using one [of c d] that by simp
  moreover have "handshake_for (tc_request cap) (headers c) r
      \<and> (tx_side x = Some (Some (acceptance_of cap (handlers c)))
         \<or> tx_pipe x = PipeTook (Some (acceptance_of cap (handlers c))))"
    if "tx_pc x c = AcceptReturned (Inr r)" for c r
    using call [of c] that handshake_sound [OF _ assms(2)] by (simp add: call_inv_def)
  moreover have "\<exists>c r. tx_pc x c = AcceptReturned (Inr r) \<and> a = acceptance_of cap (handlers c)"
    if "tx_side x = Some (Some a) \<or> tx_pipe x = PipeTook (Some a)" for a
    using inv that by (auto simp: tunnel_inv_def has_returned_for_def)
  moreover have "e = TunnelAfterCommit \<and> ts_committed (tx_shared x)
         \<or> e = AlreadyAccepted \<and> (\<exists>d. d \<noteq> c \<and> accept_claimed (tx_pc x d))
         \<or> build_handshake_response (tc_request cap) (headers c) = Inl e"
    if "tx_pc x c = AcceptReturned (Inl e)" for c e
    using call [of c] that by (simp add: call_inv_def)
  moreover have "tx_pc x c \<in> {AcceptLoads, AcceptReturned (Inl TunnelAfterCommit)}"
    if "es = pre @ PipeCommits # post" "CallerStep c \<notin> set pre" for pre post c
    using late_call_fails [OF assms(1) [unfolded that(1)] that(2)] by (simp add: starts_late_def)
  ultimately show ?thesis by blast
qed

definition websocket_capability :: "unit tunnel_capability" where
  [rust_eval]: "websocket_capability =
     \<lparr>tc_request = \<lparr>tr_kind = Http1Upgrade, tr_protocol = Some (ProtocolName ''websocket''), tr_authority = None\<rparr>,
      tc_upgrade = Some ()\<rparr>"

definition websocket_headers :: header_block where
  [rust_eval]: "websocket_headers = [plain ''sec-websocket-accept'' ''x'']"

lemma websocket_builds:
  obtains r where "build_handshake_response (tc_request websocket_capability) websocket_headers = Inr r"
  by (simp add: rust_eval Let_def)

theorem tunnel_accepted_once_witness:
  "\<exists>x r. run_events (tunnel_step websocket_capability (\<lambda>_. websocket_headers) (\<lambda>c. c))
        [CallerStep 0, CallerStep 0, CallerStep 1, CallerStep 0, CallerStep 0, PipeCommits, CallerStep 2, PipeTakes]
        tunnel_race_start = Some x
     \<and> tx_pc x 0 = AcceptReturned (Inr r) \<and> handshake_for (tc_request websocket_capability) websocket_headers r
     \<and> tx_pipe x = PipeTook (Some (acceptance_of websocket_capability 0))
     \<and> tx_pc x 2 = AcceptReturned (Inl TunnelAfterCommit)"
proof -
  let ?pre = "[CallerStep 0, CallerStep 0, CallerStep 1, CallerStep 0, CallerStep 0]" and ?post = "[CallerStep 2, PipeTakes]"
  have v: "valid_protocol (tc_request websocket_capability)" by (simp add: rust_eval)
  obtain r where r: "build_handshake_response (tc_request websocket_capability) websocket_headers = Inr r"
    by (rule websocket_builds)
  obtain x where x: "run_events (tunnel_step websocket_capability (\<lambda>_. websocket_headers) (\<lambda>c. c))
        (?pre @ PipeCommits # ?post) tunnel_race_start = Some x"
      and p: "tx_pc x 0 = AcceptReturned (Inr r)" "tx_pipe x = PipeTook (Some (acceptance_of websocket_capability 0))"
        "tx_pc x 2 = AcceptReturned (Inl TunnelAfterCommit)"
    by (simp add: tunnel_race_start_def tunnel_shared_new_def tunnel_mark_committed_def try_accept_def r)
  from tunnel_accepted_once [OF x v] p x show ?thesis by (intro exI [of _ x] exI [of _ r]) simp
qed

text \<open>
  The commitment does not stop a call that read it before.  A task that passes the check, is overtaken by the
  commitment and then claims and stages before the pipeline looks at the sidecar has its tunnel accepted
  after the commitment.
\<close>

lemma accepted_after_commit:
  "\<exists>x r. run_events (tunnel_step websocket_capability (\<lambda>_. websocket_headers) (\<lambda>c. c))
        [CallerStep 0, PipeCommits, CallerStep 0, CallerStep 0, CallerStep 0, PipeTakes] tunnel_race_start = Some x
     \<and> tx_pc x 0 = AcceptReturned (Inr r) \<and> tx_pipe x = PipeTook (Some (acceptance_of websocket_capability 0))"
proof -
  obtain r where "build_handshake_response (tc_request websocket_capability) websocket_headers = Inr r"
    by (rule websocket_builds)
  then show ?thesis
    by (simp add: tunnel_race_start_def tunnel_shared_new_def tunnel_mark_committed_def try_accept_def)
qed

end
