(* ===== verification/Connection_Context.thy ===== *)
theory Connection_Context
  imports Tunnel_Exec
begin

text \<open>
  The context of a connection, \<^verbatim>\<open>eggserve-server/src/connection/context.rs\<close>, and the policy for forwarding
  headers, \<^verbatim>\<open>apply_forwarded_policy\<close> of \<^verbatim>\<open>connection/pipeline.rs\<close>.

  \<open>socket_addr_text\<close> is the \<^verbatim>\<open>Display\<close> form of the standard library (a socket address of the model has no
  scope).  The shutdown token is a flag; that its waiters wake is the argument of \<open>Request_Lifecycle\<close> for
  the same check, register, check again loop.
\<close>

section \<open>Text of addresses\<close>

text \<open>The first longest run of zero segments: its start and its length.\<close>

fun zero_run :: "nat list \<Rightarrow> nat \<Rightarrow> nat \<times> nat \<Rightarrow> nat \<times> nat \<Rightarrow> nat \<times> nat" where
  "zero_run [] i current longest = longest"
| "zero_run (segment # segments) i (start, len) longest =
     (if segment = 0 then
        let current = (if len = 0 then (i, 1) else (start, len + 1));
            longest = (if snd current > snd longest then current else longest)
        in zero_run segments (i + 1) current longest
      else zero_run segments (i + 1) (0, 0) longest)"

definition ipv6_text :: "ipv6 \<Rightarrow> string" where
  [rust_eval]: "ipv6_text a =
     (let ss = ipv6_segments a in
      if take 6 ss = [0, 0, 0, 0, 0, 0xFFFF] then ''::ffff:'' @ ipv4_str (of_nat (unat a mod 2 ^ 32))
      else
        let (start, len) = zero_run ss 0 (0, 0) (0, 0) in
        if len > 1 then segments_text (take start ss) @ ''::'' @ segments_text (drop (start + len) ss)
        else segments_text ss)"

definition socket_addr_text :: "socket_addr \<Rightarrow> string" where
  [rust_eval]: "socket_addr_text a =
     (case sa_ip a of
        V4 ip \<Rightarrow> ipv4_str ip @ '':'' @ dec (unat (sa_port a))
      | V6 ip \<Rightarrow> ''['' @ ipv6_text ip @ '']:'' @ dec (unat (sa_port a)))"

section \<open>The context\<close>

record connection_context =
  cc_local_addr :: "socket_addr option"
  cc_remote_addr :: "socket_addr option"
  cc_scheme :: scheme
  cc_tls :: "tls_info option"
  cc_proxy_source :: "socket_addr option"
  cc_proxy_destination :: "socket_addr option"
  cc_proxy_provenance :: "proxy_source_kind option"

definition cc_new :: "socket_addr option \<Rightarrow> socket_addr option \<Rightarrow> scheme \<Rightarrow> tls_info option \<Rightarrow> connection_context" where
  [rust_eval]: "cc_new local remote s tls =
     \<lparr>cc_local_addr = local, cc_remote_addr = remote, cc_scheme = s, cc_tls = tls, cc_proxy_source = None,
      cc_proxy_destination = None, cc_proxy_provenance = None\<rparr>"

definition for_tcp :: "socket_addr \<Rightarrow> socket_addr \<Rightarrow> tls_info option \<Rightarrow> connection_context" where
  [rust_eval]: "for_tcp local remote tls = cc_new (Some local) (Some remote) (if tls \<noteq> None then Https else Http) tls"

definition for_quic :: "socket_addr \<Rightarrow> socket_addr \<Rightarrow> tls_info \<Rightarrow> connection_context" where
  [rust_eval]: "for_quic local remote tls = cc_new (Some local) (Some remote) Https (Some tls)"

definition for_non_socket :: "scheme \<Rightarrow> tls_info option \<Rightarrow> connection_context" where
  [rust_eval]: "for_non_socket s tls = cc_new None None s tls"

definition for_unix :: connection_context where
  [rust_eval]: "for_unix = cc_new None None Http None"

definition cc_with_proxy_endpoints ::
  "socket_addr option \<Rightarrow> socket_addr option \<Rightarrow> proxy_source_kind \<Rightarrow> connection_context \<Rightarrow> connection_context" where
  [rust_eval]: "cc_with_proxy_endpoints source destination kind c =
     c\<lparr>cc_proxy_source := source, cc_proxy_destination := destination, cc_proxy_provenance := Some kind\<rparr>"

definition cc_socket_endpoints :: "connection_context \<Rightarrow> socket_endpoints option" where
  [rust_eval]: "cc_socket_endpoints c =
     (case (cc_local_addr c, cc_remote_addr c) of
        (Some l, Some r) \<Rightarrow> Some \<lparr>se_local = l, se_remote = r\<rparr>
      | _ \<Rightarrow> None)"

definition cc_has_socket_endpoints :: "connection_context \<Rightarrow> bool" where
  [rust_eval]: "cc_has_socket_endpoints c \<longleftrightarrow> cc_local_addr c \<noteq> None \<and> cc_remote_addr c \<noteq> None"

definition cc_connection_info :: "connection_context \<Rightarrow> connection_info" where
  [rust_eval]: "cc_connection_info c =
     \<lparr>ci_local_addr = cc_local_addr c, ci_remote_addr = cc_remote_addr c, ci_scheme = cc_scheme c, ci_tls = cc_tls c,
      ci_proxy_source = cc_proxy_source c, ci_proxy_destination = cc_proxy_destination c,
      ci_proxy_provenance = cc_proxy_provenance c, ci_effective_client = cc_proxy_source c,
      ci_effective_scheme = None, ci_effective_authority = None, ci_forwarded_provenance = None\<rparr>"

section \<open>Forwarding headers\<close>

fun source_kind_text :: "proxy_source_kind \<Rightarrow> string" where
  "source_kind_text ProxyV1 = ''proxy_v1''"
| "source_kind_text ProxyV2 = ''proxy_v2''"
| "source_kind_text ForwardedKind = ''forwarded''"
| "source_kind_text LegacyForwarded = ''legacy_forwarded''"

fun rejection_category :: "forwarded_rejection \<Rightarrow> severity \<times> string" where
  "rejection_category UntrustedPeer = (Debug, ''untrusted_peer'')"
| "rejection_category ForwardingDisabled = (Debug, ''disabled'')"
| "rejection_category ForwardedConflict = (Warn, ''conflict'')"
| "rejection_category ForwardedTooLarge = (Warn, ''too_large'')"
| "rejection_category ForwardedTooMany = (Warn, ''too_many'')"
| "rejection_category ForwardedInvalid = (Warn, ''invalid'')"

definition trusted_transport :: "h1_connection_policy \<Rightarrow> connection_context \<Rightarrow> bool" where
  [rust_eval]: "trusted_transport config context =
     (case cc_remote_addr context of
        Some peer \<Rightarrow> is_trusted_peer (h1_trusted_proxy config) peer
      | None \<Rightarrow> tp_trust_unix (h1_trusted_proxy config))"

definition peer_text :: "connection_context \<Rightarrow> string" where
  [rust_eval]: "peer_text context =
     (case cc_remote_addr context of Some a \<Rightarrow> socket_addr_text a | None \<Rightarrow> ''unix-or-opaque'')"

definition or_none :: "string option \<Rightarrow> string" where
  [rust_eval]: "or_none v = (case v of Some s \<Rightarrow> s | None \<Rightarrow> ''none'')"

definition forwarded_accepted_event ::
  "connection_context \<Rightarrow> u64 \<Rightarrow> forwarded_effective \<Rightarrow> ops_world \<Rightarrow> event \<times> ops_world" where
  [rust_eval]: "forwarded_accepted_event context conn_id e w =
     (let (ev, w) = event_now Debug ForwardedMetadataAccepted
            (''forwarded metadata accepted ('' @ source_kind_text (fe_provenance e) @ '')'') w;
          ev = event_connection_id conn_id ev;
          ev = event_field (FStr ''peer'' (peer_text context)) ev;
          ev = event_field (FStr ''source'' (source_kind_text (fe_provenance e))) ev;
          ev = event_field (FStr ''effective_client'' (or_none (map_option socket_addr_text (fe_client e)))) ev;
          ev = event_field (FStr ''effective_scheme'' (or_none (map_option scheme_str (fe_scheme e)))) ev;
          ev = event_field (FStr ''effective_authority'' (or_none (map_option authority_str (fe_authority e)))) ev
      in (ev, w))"

definition forwarded_rejected_event ::
  "connection_context \<Rightarrow> u64 \<Rightarrow> forwarded_rejection \<Rightarrow> ops_world \<Rightarrow> event \<times> ops_world" where
  [rust_eval]: "forwarded_rejected_event context conn_id rejection w =
     (let (sev, category) = rejection_category rejection;
          (ev, w) = event_now sev ForwardedMetadataRejected (''forwarded metadata rejected: '' @ category) w;
          ev = event_connection_id conn_id ev;
          ev = event_field (FStr ''peer'' (peer_text context)) ev;
          ev = event_field (FStr ''category'' category) ev
      in (ev, w))"

definition apply_forwarded_policy ::
  "custom_sinks \<Rightarrow> ops_context \<Rightarrow> connection_info \<Rightarrow> request_head \<Rightarrow> h1_connection_policy \<Rightarrow> connection_context \<Rightarrow> u64
   \<Rightarrow> ops_world \<Rightarrow> connection_info \<times> ops_world" where
  [rust_eval]: "apply_forwarded_policy cs ctx base head config context conn_id w =
     (if forwarded_is_disabled (tp_forwarded (h1_trusted_proxy config)) then (base, w)
      else
        case derive_forwarded_effective (rq_headers head) (tp_forwarded (h1_trusted_proxy config))
               (trusted_transport config context) of
          Inr None \<Rightarrow> (base, w)
        | Inr (Some e) \<Rightarrow>
            (let w = ops_count ctx (oc_forwarded_accepted_update (\<lambda>n. n + 1)) w;
                 (ev, w) = forwarded_accepted_event context conn_id e w
             in (with_forwarded_effective e base, ops_emit cs ctx ev w))
        | Inl rejection \<Rightarrow>
            (let w = ops_count ctx (oc_forwarded_rejected_update (\<lambda>n. n + 1)) w;
                 (ev, w) = forwarded_rejected_event context conn_id rejection w
             in (base, ops_emit cs ctx ev w)))"

section \<open>Lemmas\<close>

lemma address_texts:
  "socket_addr_text \<lparr>sa_ip = V6 1, sa_port = 80\<rparr> = ''[::1]:80''"
  "socket_addr_text \<lparr>sa_ip = V6 0x20010DB8000000000000000000000001, sa_port = 443\<rparr> = ''[2001:db8::1]:443''"
  by (simp_all add: rust_eval upt_rec hex_text.simps Let_def)

lemma forwarded_policy_cases:
  assumes "apply_forwarded_policy cs ctx base head config context conn_id w = (info, w')"
  shows "info = base
      \<and> \<not> (\<exists>e. derive_forwarded_effective (rq_headers head) (tp_forwarded (h1_trusted_proxy config)) (trusted_transport config context)
             = Inr (Some e) \<and> \<not> forwarded_is_disabled (tp_forwarded (h1_trusted_proxy config)))
    \<or> (\<exists>e. info = with_forwarded_effective e base \<and> \<not> forwarded_is_disabled (tp_forwarded (h1_trusted_proxy config))
      \<and> derive_forwarded_effective (rq_headers head) (tp_forwarded (h1_trusted_proxy config)) (trusted_transport config context) = Inr (Some e))"
  using assms
  by (auto simp: apply_forwarded_policy_def Let_def split: if_splits sum.splits option.splits prod.splits)

text \<open>The bytes of the forwarding headers that a configuration reads.\<close>

definition forwarding_bytes :: "forwarded_config \<Rightarrow> header_block \<Rightarrow> nat" where
  [rust_eval]: "forwarding_bytes c h =
     values_bytes ((if fc_standard c then block_get_all h ''forwarded'' else [])
       @ (if fc_legacy c then block_get_all h ''x-forwarded-for'' @ block_get_all h ''x-forwarded-proto''
            @ block_get_all h ''x-forwarded-host'' else []))"

lemma derived_only_from_trusted:
  assumes "derive_forwarded_effective h c trusted = Inr (Some e)"
  shows "trusted" "\<not> (fc_standard c \<and> fc_legacy c \<and> both_families h)" "forwarding_bytes c h \<le> fc_max_bytes c"
  using assms by (auto simp: derive_forwarded_effective_def both_families_def forwarding_bytes_def Let_def split: if_splits)

lemma forwarded_keeps_observed:
  "ci_local_addr (with_forwarded_effective e i) = ci_local_addr i"
  "ci_remote_addr (with_forwarded_effective e i) = ci_remote_addr i"
  "ci_scheme (with_forwarded_effective e i) = ci_scheme i"
  "ci_tls (with_forwarded_effective e i) = ci_tls i"
  "ci_proxy_source (with_forwarded_effective e i) = ci_proxy_source i"
  by (simp_all add: with_forwarded_effective_def)

lemma forwarded_keeps_client:
  "cc_proxy_source context \<noteq> None \<Longrightarrow>
   effective_client_addr (with_forwarded_effective e (cc_connection_info context)) = cc_proxy_source context"
  by (auto simp: with_forwarded_effective_def effective_client_addr_def cc_connection_info_def)

lemma context_info:
  "ci_local_addr (cc_connection_info context) = cc_local_addr context"
  "ci_remote_addr (cc_connection_info context) = cc_remote_addr context"
  "ci_scheme (cc_connection_info context) = cc_scheme context"
  "ci_tls (cc_connection_info context) = cc_tls context"
  "ci_proxy_source (cc_connection_info context) = cc_proxy_source context"
  "cc_proxy_source context \<noteq> None \<Longrightarrow> effective_client_addr (cc_connection_info context) = cc_proxy_source context"
  by (auto simp: effective_client_addr_def cc_connection_info_def)


definition direct_context :: connection_context where
  [rust_eval]: "direct_context = for_tcp \<lparr>sa_ip = V4 1, sa_port = 80\<rparr> \<lparr>sa_ip = V4 2, sa_port = 9\<rparr> None"

definition forwarding_policy :: h1_connection_policy where
  [rust_eval]: "forwarding_policy = sample_policy\<lparr>h1_trusted_proxy := trusted_proxy_default
     \<lparr>tp_peers := [\<lparr>ipp_network = V4 0, ipp_len = 0\<rparr>],
      tp_forwarded := default_forwarded_config\<lparr>fc_standard := True, fc_legacy := True\<rparr>\<rparr>\<rparr>"

definition conflicting_head :: request_head where
  [rust_eval]: "conflicting_head = sample_head\<lparr>rq_headers :=
     [\<lparr>hf_name = HeaderName ''Forwarded'', hf_value = HeaderValue ''for=1.2.3.4''\<rparr>,
      \<lparr>hf_name = HeaderName ''X-Forwarded-Proto'', hf_value = HeaderValue ''https''\<rparr>]\<rparr>"


end
