(* ===== verification/Pipeline.thy ===== *)
theory Pipeline
  imports Connection_Context
begin

text \<open>
  The request pipeline of HTTP/1: \<^verbatim>\<open>eggserve-server/src/connection/pipeline.rs\<close>, which composes the intake of a
  request, the policy for forwarding headers, the framing and body checks, the service call, the
  normalisation and conversion of its response, and the accounting of the connection.

  A service is application code: its body policy and what a call does within its time are the fields of the
  record \<open>service\<close>.  A call that outlasts its time is dropped; \<open>sr_body\<close> is the lifecycle of the request body once
  the call and everything it owned is gone.  The objects that tasks share (semaphores, registry, counters,
  spawned supervisors) are the fields of \<open>pipeline_world\<close>.  In a result, the outer \<open>None\<close> is a call or a read of
  the body without a deadline that never ends, and a missing response is a panic of the conversion.  A call of
  \<^verbatim>\<open>accept\<close> happens here before the service returns (\<open>sr_accept\<close>); one that runs beside the pipeline in a task of the
  service is the subject of \<open>Tunnel_Exec\<close>.
\<close>

section \<open>Services\<close>

datatype call_end = CallReturns "service_error + response" | CallPanics "string option" | CallElapsed

record 'k service_run =
  sr_end :: call_end
  sr_body :: request_shared
  sr_interim :: "interim_inner option"
  sr_accept :: "(header_block \<times> 'k) option"

record ('u, 'k) service =
  svc_policy :: "request_head \<Rightarrow> request_body_policy"
  svc_call :: "request \<Rightarrow> 'u tunnel_capability option \<Rightarrow> duration option \<Rightarrow> 'k service_run"

record ('u, 'k) pipeline_state =
  pl_service :: "('u, 'k) service"
  pl_config :: h1_connection_policy
  pl_stream_chunk_size :: nat
  pl_handler_timeout :: "duration option"
  pl_body_read_timeout :: "duration option"
  pl_max_body_bytes :: "u64 option"
  pl_context :: connection_context
  pl_conn_id :: u64
  pl_ops :: ops_context

record ('u, 'k) pipeline_world =
  pw_activity :: connection_activity
  pw_service_permits :: "nat option"
  pw_file_permits :: nat
  pw_tunnel_permits :: "nat option"
  pw_tunnels :: "('u, 'k) tunnel_acceptance list"
  pw_registry :: "nat list"
  pw_requests :: request_store
  pw_trackers :: "nat list"
  pw_watchdogs :: "(nat \<times> instant) list"
  pw_ops :: ops_world

definition emit_plain :: "custom_sinks \<Rightarrow> ops_context \<Rightarrow> severity \<Rightarrow> event_kind \<Rightarrow> string \<Rightarrow> ops_world \<Rightarrow> ops_world" where
  [rust_eval]: "emit_plain cs ctx sev kind message w =
     (let (ev, w) = event_now sev kind message w in ops_emit cs ctx ev w)"

section \<open>Trailers\<close>

definition h1_trailers_allowed :: "request_head \<Rightarrow> bool" where
  [rust_eval]: "h1_trailers_allowed head =
     (case rq_version head of
        Http11 \<Rightarrow>
          (case block_get_first (rq_headers head) ''te'' of
             None \<Rightarrow> False
           | Some te \<Rightarrow>
               (case header_value_to_str te of
                  Inl _ \<Rightarrow> False
                | Inr t \<Rightarrow> list_ex (\<lambda>token. eq_ignore_ascii_case token ''trailers'') (map trim (split_char CHR '','' t))))
      | _ \<Rightarrow> False)"

text \<open>The response to convert, and whether its head declares trailers.\<close>

definition h1_trailer_policy ::
  "custom_sinks \<Rightarrow> ops_context \<Rightarrow> u64 \<Rightarrow> bool \<Rightarrow> bool \<Rightarrow> response \<Rightarrow> ops_world \<Rightarrow> response \<times> bool \<times> ops_world" where
  [rust_eval]: "h1_trailer_policy cs ctx conn_id is_head trailer_allowed canonical w =
     (if \<not> has_response_trailers canonical then (canonical, False, w)
      else if is_head \<or> \<not> permits_payload_body (rh_status (rsp_head canonical)) then
        (strip_response_trailers canonical, False,
         emit_for cs ctx conn_id Debug ResponseTrailerSuppressed ''response trailers suppressed for HEAD/body-forbidden response'' w)
      else if \<not> trailer_allowed then
        (strip_response_trailers canonical, False,
         emit_for cs ctx conn_id Debug ResponseTrailerSuppressed ''response trailers suppressed by H1 policy'' w)
      else if response_trailer_declaration canonical = None then
        (strip_response_trailers canonical, False,
         emit_for cs ctx conn_id Debug ResponseTrailerSuppressed ''response trailers suppressed without head-time declaration'' w)
      else (canonical, True, w))"

section \<open>The service call\<close>

type_synonym 'h answer = "('h hyper_response \<times> provenance) option"

definition runtime_answer :: "'h hyper_response option \<Rightarrow> 'h answer" where
  [rust_eval]: "runtime_answer r = map_option (\<lambda>r. (r, RuntimeProvenance)) r"

definition error_policy_of :: "('u, 'k) pipeline_state \<Rightarrow> error_representation_policy" where
  [rust_eval]: "error_policy_of pl = rp_error_policy (h1_response_policy (pl_config pl))"

definition with_files :: "nat option \<Rightarrow> ops_world \<Rightarrow> ('u, 'k) pipeline_world \<Rightarrow> ('u, 'k) pipeline_world" where
  [rust_eval]: "with_files permits ow w =
     w\<lparr>pw_file_permits := (case permits of Some n \<Rightarrow> n | None \<Rightarrow> pw_file_permits w), pw_ops := ow\<rparr>"

definition convert_handshake_without_normalization ::
  "'h runtime_env \<Rightarrow> ('u, 'k) pipeline_state \<Rightarrow> response \<Rightarrow> ('u, 'k) pipeline_world \<Rightarrow> 'h answer \<times> ('u, 'k) pipeline_world" where
  [rust_eval]: "convert_handshake_without_normalization env pl canonical w =
     (case to_hyper env canonical (pl_stream_chunk_size pl) (Some (pl_ops pl)) None (Some (pw_file_permits w)) (pw_ops w) of
        (Inr response, permits, ow) \<Rightarrow> (Some (response, ServiceProvenance), with_files permits ow w)
      | (Inl FileStreamLimit, permits, ow) \<Rightarrow>
          (runtime_answer (service_unavailable_with_policy (re_hyper env) (error_policy_of pl)), with_files permits ow w)
      | (Inl _, permits, ow) \<Rightarrow>
          (runtime_answer (internal_error_with_policy (re_hyper env) (error_policy_of pl)), with_files permits ow w))"

definition owned_tunnels :: "('u, 'k) pipeline_state \<Rightarrow> ('u, 'k) pipeline_world \<Rightarrow> nat option" where
  [rust_eval]: "owned_tunnels pl w =
     (if ao_tunnels (h1_admission_ownership (pl_config pl)) = AdmissionEggServe then pw_tunnel_permits w else None)"

definition accept_handshake ::
  "'h runtime_env \<Rightarrow> ('u, 'k) pipeline_state \<Rightarrow> bool \<Rightarrow> response \<Rightarrow> ('u, 'k) tunnel_acceptance \<Rightarrow> ('u, 'k) pipeline_world
   \<Rightarrow> 'h answer \<times> ('u, 'k) pipeline_world" where
  [rust_eval]: "accept_handshake env pl is_head canonical acceptance w =
     (let (admitted, sem, a, ow) =
            admit_and_spawn (re_sinks env) (pl_ops pl) (pl_conn_id pl) (owned_tunnels pl w) (pw_activity w) (pw_ops w);
          w = w\<lparr>pw_activity := a, pw_ops := ow,
                pw_tunnel_permits := (if owned_tunnels pl w = None then pw_tunnel_permits w else sem)\<rparr>
      in if \<not> admitted then
           (runtime_answer (present_runtime_rejection (re_hyper env) 503 TunnelAdmissionSaturatedKind is_head (pl_config pl)), w)
         else convert_handshake_without_normalization env pl canonical (w\<lparr>pw_tunnels := pw_tunnels w @ [acceptance]\<rparr>))"

definition call_returned ::
  "'h runtime_env \<Rightarrow> ('u, 'k) pipeline_state \<Rightarrow> system_time \<Rightarrow> bool \<Rightarrow> bool \<Rightarrow> ('u, 'k) sidecar \<Rightarrow> response
   \<Rightarrow> ('u, 'k) pipeline_world \<Rightarrow> 'h answer \<times> ('u, 'k) pipeline_world" where
  [rust_eval]: "call_returned env pl now is_head trailer_allowed side canonical w =
     (let (canonical, synthesize, ow) =
            h1_trailer_policy (re_sinks env) (pl_ops pl) (pl_conn_id pl) is_head trailer_allowed canonical (pw_ops w);
          w = w\<lparr>pw_ops := ow\<rparr>
      in case side of
           None \<Rightarrow>
             (runtime_answer (internal_error_with_policy (re_hyper env) (error_policy_of pl)),
              w\<lparr>pw_ops := emit_for (re_sinks env) (pl_ops pl) (pl_conn_id pl) Error ServiceErrorEvent
                  ''tunnel sidecar lock poisoned; failing closed'' (pw_ops w)\<rparr>)
         | Some (Some acceptance) \<Rightarrow> accept_handshake env pl is_head canonical acceptance w
         | Some None \<Rightarrow>
             (let (r, permits, ow) = normalize_then_convert env canonical is_head synthesize (pl_stream_chunk_size pl)
                    (error_policy_of pl) now (Some (pl_ops pl)) (pw_file_permits w) (pw_ops w)
              in (r, with_files permits ow w)))"

definition call_failed ::
  "'h runtime_env \<Rightarrow> ('u, 'k) pipeline_state \<Rightarrow> bool \<Rightarrow> service_error \<Rightarrow> ('u, 'k) pipeline_world
   \<Rightarrow> 'h answer \<times> ('u, 'k) pipeline_world" where
  [rust_eval]: "call_failed env pl is_head err w =
     (runtime_answer (service_error_to_response (re_hyper env) err is_head (pl_config pl)),
      w\<lparr>pw_ops := emit_for (re_sinks env) (pl_ops pl) (pl_conn_id pl)
          (if service_is_panic err \<or> \<not> service_is_timeout err then Error else Warn) ServiceErrorEvent
          (sanitize_text_field (service_error_text err)) (pw_ops w)\<rparr>)"

definition call_elapsed ::
  "'h runtime_env \<Rightarrow> ('u, 'k) pipeline_state \<Rightarrow> bool \<Rightarrow> bool \<Rightarrow> request_shared \<Rightarrow> ('u, 'k) pipeline_world
   \<Rightarrow> 'h answer \<times> request_shared \<times> ('u, 'k) pipeline_world" where
  [rust_eval]: "call_elapsed env pl is_head streamed shared w =
     (if streamed \<and> is_body_active shared \<and> pl_body_read_timeout pl \<noteq> None then
        (runtime_answer (service_error_to_response (re_hyper env) (service_timeout ''body read timeout'') is_head (pl_config pl)),
         fst (mark_failed shared),
         w\<lparr>pw_ops := emit_plain (re_sinks env) (pl_ops pl) Warn BodyReadTimeout ''body read timeout''
             (ops_count (pl_ops pl) (oc_body_read_timeouts_update (\<lambda>n. n + 1)) (pw_ops w))\<rparr>)
      else
        (runtime_answer (service_error_to_response (re_hyper env) (service_timeout ''handler timed out'') is_head (pl_config pl)),
         shared,
         w\<lparr>pw_ops := emit_plain (re_sinks env) (pl_ops pl) Warn ServiceTimeout ''handler timed out'' (pw_ops w)\<rparr>))"

definition contain_service_panic :: "string option \<Rightarrow> service_error" where
  [rust_eval]: "contain_service_panic payload =
     service_panic (case payload of Some message \<Rightarrow> message | None \<Rightarrow> ''service panicked'')"

record 'h invocation =
  iv_answer :: "'h answer"
  iv_body :: request_shared
  iv_interim :: "interim_inner option"
  iv_tunnel :: "tunnel_shared option"

definition owned_service :: "('u, 'k) pipeline_state \<Rightarrow> ('u, 'k) pipeline_world \<Rightarrow> nat option" where
  [rust_eval]: "owned_service pl w =
     (if ao_service_calls (h1_admission_ownership (pl_config pl)) = AdmissionEggServe then pw_service_permits w else None)"

definition set_service ::
  "('u, 'k) pipeline_state \<Rightarrow> nat option \<Rightarrow> ('u, 'k) pipeline_world \<Rightarrow> ('u, 'k) pipeline_world" where
  [rust_eval]: "set_service pl sem w = (if owned_service pl w = None then w else w\<lparr>pw_service_permits := sem\<rparr>)"

text \<open>What the service did with its capability, before the answer is committed.\<close>

definition staged_acceptance ::
  "'u tunnel_capability option \<Rightarrow> 'k service_run \<Rightarrow> tunnel_shared option \<times> ('u, 'k) sidecar" where
  [rust_eval]: "staged_acceptance capability run =
     (case capability of
        None \<Rightarrow> (None, Some None)
      | Some cap \<Rightarrow>
          (case sr_accept run of
             None \<Rightarrow> (Some tunnel_shared_new, Some None)
           | Some (headers, handler) \<Rightarrow>
               (let (_, s, side) = tunnel_accept cap headers handler tunnel_shared_new (Some None) in (Some s, side))))"

definition settle_call ::
  "'h runtime_env \<Rightarrow> ('u, 'k) pipeline_state \<Rightarrow> system_time \<Rightarrow> request_head \<Rightarrow> bool \<Rightarrow> duration option \<Rightarrow> 'k service_run
   \<Rightarrow> ('u, 'k) sidecar \<Rightarrow> ('u, 'k) pipeline_world \<Rightarrow> ('h answer \<times> request_shared \<times> ('u, 'k) pipeline_world) option" where
  [rust_eval]: "settle_call env pl now head streamed timeout run side w =
     (let is_head = is_head_request head in
      case sr_end run of
        CallReturns (Inr canonical) \<Rightarrow>
          (let (answer, w) = call_returned env pl now is_head (h1_trailers_allowed head) side canonical w
           in Some (answer, sr_body run, w))
      | CallReturns (Inl err) \<Rightarrow> (let (answer, w) = call_failed env pl is_head err w in Some (answer, sr_body run, w))
      | CallPanics payload \<Rightarrow>
          (let (answer, w) = call_failed env pl is_head (contain_service_panic payload) w in Some (answer, sr_body run, w))
      | CallElapsed \<Rightarrow> (if timeout = None then None else Some (call_elapsed env pl is_head streamed (sr_body run) w)))"

definition invoke_service ::
  "'h runtime_env \<Rightarrow> ('u, 'k) pipeline_state \<Rightarrow> system_time \<Rightarrow> request \<Rightarrow> 'u tunnel_capability option \<Rightarrow> bool
   \<Rightarrow> duration option \<Rightarrow> in_flight_guard \<Rightarrow> ('u, 'k) pipeline_world
   \<Rightarrow> ('h invocation \<times> in_flight_guard \<times> ('u, 'k) pipeline_world) option" where
  [rust_eval]: "invoke_service env pl now request capability streamed timeout g w =
     (let is_head = is_head_request (req_head request);
          (saturated, sem, g, ow) =
            admit (re_sinks env) (owned_service pl w) (pl_conn_id pl) (pw_activity w) g (pw_ops w);
          w = set_service pl sem (w\<lparr>pw_ops := ow\<rparr>)
      in if saturated then
           Some
             (\<lparr>iv_answer = runtime_answer
                 (present_runtime_rejection (re_hyper env) 503 ServiceAdmissionSaturatedKind is_head (pl_config pl)),
               iv_body = rb_shared (drop_body (req_body request)),
               iv_interim = map_option mark_committed (rc_interim (req_context request)),
               iv_tunnel = map_option (\<lambda>_. tunnel_mark_committed tunnel_shared_new) capability\<rparr>, g, w)
         else
           let run = svc_call (pl_service pl) request capability timeout;
               (shared, side) = staged_acceptance capability run
           in map_option (\<lambda>(answer, body, w).
                (\<lparr>iv_answer = answer, iv_body = body, iv_interim = map_option mark_committed (sr_interim run),
                  iv_tunnel = map_option tunnel_mark_committed shared\<rparr>, g, w))
              (settle_call env pl now (req_head request) streamed timeout run side w))"

section \<open>Requests\<close>

text \<open>
  What arrives: the request, the frames of its body and whether the body is known to be at its end, the
  transport handoff, the identity of the lifecycle that is allocated for it, whether a buffered read
  stalls (past its deadline, or forever where it has none), and the readings of the clocks.
\<close>

record 'u request_input =
  in_request :: wire_request
  in_frames :: "wire_frame list"
  in_end_stream :: bool
  in_upgrade :: "'u option"
  in_id :: nat
  in_read_stalls :: bool
  in_started :: instant
  in_deferred_at :: instant
  in_finished :: instant
  in_now :: system_time

definition to_str_of :: "'h runtime_env \<Rightarrow> bytes \<Rightarrow> string option" where
  [rust_eval]: "to_str_of env v = hv_to_str (re_hyper env) v"

definition trace_refused :: "(bytes \<Rightarrow> string option) \<Rightarrow> wire_headers \<Rightarrow> request_head \<Rightarrow> bool" where
  [rust_eval]: "trace_refused to_str headers head \<longleftrightarrow>
     method_str (rq_method head) = ''TRACE''
     \<and> ((case Option.bind (wh_get headers ''content-length'') to_str of
           Some s \<Rightarrow> (case digits_u64 s of Some n \<Rightarrow> n > 0 | None \<Rightarrow> False)
         | None \<Rightarrow> False)
        \<or> rq_version head \<noteq> Http2 \<and> wh_contains headers ''transfer-encoding'')"

text \<open>The loop over the \<^verbatim>\<open>Expect\<close> fields: whether one asks for 100-continue, and whether one is unknown.\<close>

fun scan_expects :: "(bytes \<Rightarrow> string option) \<Rightarrow> bytes list \<Rightarrow> bool \<Rightarrow> bool \<times> bool" where
  "scan_expects to_str [] continue = (continue, False)"
| "scan_expects to_str (v # vs) continue =
     (let s = (case to_str v of Some s \<Rightarrow> trim s | None \<Rightarrow> []) in
      if to_str v = None \<or> \<not> eq_ignore_ascii_case s ''100-continue'' \<and> s \<noteq> [] then (continue, True)
      else scan_expects to_str vs (continue \<or> eq_ignore_ascii_case s ''100-continue''))"

record screened =
  sc_head :: request_head
  sc_info :: connection_info
  sc_policy :: request_body_policy
  sc_declared :: "u64 option"
  sc_has_body :: bool

type_synonym 'h refusal = "'h hyper_response option \<times> lifecycle_disposition"

definition framing_refused ::
  "'h runtime_env \<Rightarrow> ('u, 'k) pipeline_state \<Rightarrow> request_head \<Rightarrow> service_error \<Rightarrow> ops_world \<Rightarrow> 'h refusal \<times> ops_world" where
  [rust_eval]: "framing_refused env pl head err w =
     ((service_error_to_response (re_hyper env) err (is_head_request head) (pl_config pl), KEEP_ALIVE),
      emit_for (re_sinks env) (pl_ops pl) (pl_conn_id pl) Debug ParserRejection (''parser rejection: '' @ service_error_text err)
        (ops_count (pl_ops pl) (oc_parser_rejects_update (\<lambda>n. n + 1)) w))"

definition length_refused ::
  "'h runtime_env \<Rightarrow> ('u, 'k) pipeline_state \<Rightarrow> request_head \<Rightarrow> u64 \<Rightarrow> u64 \<Rightarrow> ops_world \<Rightarrow> 'h refusal \<times> ops_world" where
  [rust_eval]: "length_refused env pl head len limit w =
     (let w = ops_count (pl_ops pl) (oc_body_rejections_update (\<lambda>n. n + 1)) w;
          (ev, w) = event_now Debug BodyPolicyRejection ''body too large'' w;
          ev = event_field (FU64 ''limit_bytes'' limit)
                 (event_field (FU64 ''declared_bytes'' len) (event_connection_id (pl_conn_id pl) ev));
          err = DeclaredLengthTooLarge len limit
      in ((body_error_to_response (re_hyper env) err head (pl_config pl), body_error_disposition err),
          ops_emit (re_sinks env) (pl_ops pl) ev w))"

definition rejected_413 :: "'h runtime_env \<Rightarrow> ('u, 'k) pipeline_state \<Rightarrow> request_head \<Rightarrow> 'h refusal" where
  [rust_eval]: "rejected_413 env pl head =
     (present_runtime_rejection (re_hyper env) 413 RequestBodyRejectedKind (is_head_request head) (pl_config pl),
      close_and_cancel_body)"

text \<open>From the framing check to the reject policy, on a head that is accepted.\<close>

definition screen_body ::
  "'h runtime_env \<Rightarrow> ('u, 'k) pipeline_state \<Rightarrow> wire_headers \<Rightarrow> request_head \<Rightarrow> connection_info \<Rightarrow> request_body_policy \<Rightarrow> ops_world
   \<Rightarrow> ('h refusal + screened) \<times> ops_world" where
  [rust_eval]: "screen_body env pl headers head info policy w =
     (case validate_body_framing (to_str_of env) headers of
        Inl err \<Rightarrow> (let (r, w) = framing_refused env pl head err w in (Inl r, w))
      | Inr _ \<Rightarrow>
          (let declared = declared_length (to_str_of env) headers;
               (continue, unknown) = scan_expects (to_str_of env) (wh_get_all headers ''expect'') False;
               has_body = request_has_body (to_str_of env) headers;
               over = (case (declared, policy_max_bytes policy) of
                         (Some len, Some limit) \<Rightarrow> if len > limit then Some (len, limit) else None
                       | _ \<Rightarrow> None)
           in case over of
                Some (len, limit) \<Rightarrow> (let (r, w) = length_refused env pl head len limit w in (Inl r, w))
              | None \<Rightarrow>
                  if unknown then
                    (Inl (expectation_failed_with_policy (re_hyper env) False (error_policy_of pl), KEEP_ALIVE),
                     emit_for (re_sinks env) (pl_ops pl) (pl_conn_id pl) Debug ExpectationFailed ''unknown Expect header'' w)
                  else if policy = RejectBody \<and> continue then
                    (Inl (rejected_413 env pl head),
                     emit_for (re_sinks env) (pl_ops pl) (pl_conn_id pl) Debug BodyPolicyRejection
                       ''100-continue rejected by body policy''
                       (ops_count (pl_ops pl) (oc_body_rejections_update (\<lambda>n. n + 1)) w))
                  else if policy = RejectBody \<and> has_body then
                    (Inl (rejected_413 env pl head),
                     emit_for (re_sinks env) (pl_ops pl) (pl_conn_id pl) Debug ServiceInvocationSuppressed
                       ''service invocation suppressed: body rejected by policy''
                       (emit_for (re_sinks env) (pl_ops pl) (pl_conn_id pl) Debug BodyPolicyRejection
                          ''request body rejected by policy''
                          (ops_count (pl_ops pl) (oc_body_rejections_update (\<lambda>n. n + 1)) w)))
                  else
                    (Inr \<lparr>sc_head = head, sc_info = info, sc_policy = policy, sc_declared = declared, sc_has_body = has_body\<rparr>, w)))"

definition target_ceiling :: "h1_connection_policy \<Rightarrow> nat option" where
  [rust_eval]: "target_ceiling config =
     (if po_request_target_ceiling (h1_policy_ownership config) = EggServe then Some (h1_max_request_target_bytes config) else None)"

definition header_ceiling :: "h1_connection_policy \<Rightarrow> nat option" where
  [rust_eval]: "header_ceiling config =
     (if h1_request_header_bytes_owner config = EggServe then Some (h1_max_header_bytes config) else None)"

definition screen_request ::
  "'h runtime_env \<Rightarrow> ('u, 'k) pipeline_state \<Rightarrow> wire_request \<Rightarrow> ops_world \<Rightarrow> ('h refusal + screened) \<times> ops_world" where
  [rust_eval]: "screen_request env pl r w =
     (let config = pl_config pl;
          (converted, w) = convert_request_head (re_sinks env) (to_str_of env) r (target_ceiling config)
            (h1_http1_request_target_mode config) (header_ceiling config) (cc_scheme (pl_context pl)) (pl_conn_id pl) (pl_ops pl) w
      in case converted of
           Inl e \<Rightarrow> (Inl (service_error_to_response (re_hyper env) e False config, KEEP_ALIVE), w)
         | Inr head \<Rightarrow>
             if trace_refused (to_str_of env) (wr_headers r) head then
               (Inl (bad_request_with_policy (re_hyper env) False (error_policy_of pl), close_and_cancel_body), w)
             else
               let (info, w) = apply_forwarded_policy (re_sinks env) (pl_ops pl) (cc_connection_info (pl_context pl)) head config
                     (pl_context pl) (pl_conn_id pl) w;
                   policy = select_body_policy_with_ceiling (svc_policy (pl_service pl) head) (pl_max_body_bytes pl)
               in screen_body env pl (wr_headers r) head info policy w)"

definition request_body_of :: "request_body_policy \<Rightarrow> u64 option \<Rightarrow> wire_frame list \<Rightarrow> bool \<Rightarrow> request_body" where
  [rust_eval]: "request_body_of policy declared frames end_stream =
     (case policy_max_bytes policy of
        None \<Rightarrow> body_empty
      | Some max_bytes \<Rightarrow>
          if end_stream then body_empty
          else
            let (stream, slot) = wrap_incoming_body_with_trailers frames
            in from_incoming_with_shared_and_wire_slot stream declared max_bytes new_active slot)"

text \<open>The body a service gets: read in full under the buffer policy.\<close>

definition buffered_body :: "bytes \<Rightarrow> u64 \<Rightarrow> trailers option \<Rightarrow> request_body" where
  [rust_eval]: "buffered_body data limit t =
     (case t of Some t \<Rightarrow> from_bytes_with_trailers data limit t | None \<Rightarrow> from_bytes data limit)"

definition acquire_body ::
  "'h runtime_env \<Rightarrow> ('u, 'k) pipeline_state \<Rightarrow> 'u request_input \<Rightarrow> screened \<Rightarrow> ops_world
   \<Rightarrow> (('h refusal + request_body) \<times> ops_world) option" where
  [rust_eval]: "acquire_body env pl input sc w =
     (let body = request_body_of (sc_policy sc) (sc_declared sc) (in_frames input) (in_end_stream input);
          failed = (\<lambda>err disposition. Inl (body_error_to_response (re_hyper env) err (sc_head sc) (pl_config pl), disposition))
      in case sc_policy sc of
           BufferBody limit \<Rightarrow>
             if in_read_stalls input then
               (case pl_body_read_timeout pl of
                  None \<Rightarrow> None
                | Some _ \<Rightarrow>
                    Some (failed ReadTimeout close_and_cancel_body,
                      emit_plain (re_sinks env) (pl_ops pl) Warn BodyReadTimeout ''body read timeout''
                        (ops_count (pl_ops pl) (oc_body_read_timeouts_update (\<lambda>n. n + 1)) w)))
             else
               Some (case snd (read_all_with_trailers body) of
                  Inl err \<Rightarrow> (failed err (body_error_disposition err), w)
                | Inr (data, t) \<Rightarrow> (Inr (buffered_body data limit t), w))
         | _ \<Rightarrow> Some (Inr body, w))"

definition build_request_with_tunnel ::
  "request_head \<Rightarrow> request_body \<Rightarrow> connection_info \<Rightarrow> (tunnel_request \<times> 'u) option \<Rightarrow> request \<times> 'u tunnel_capability option" where
  [rust_eval]: "build_request_with_tunnel head body info candidate =
     (case candidate of
        None \<Rightarrow> (request_new head body info, None)
      | Some (intent, upgrade) \<Rightarrow>
          (request_new_with_context head body
             (with_tunnel_request intent (context_new_with_version info (rb_shared body) (rq_version head))),
           Some \<lparr>tc_request = intent, tc_upgrade = Some upgrade\<rparr>))"

section \<open>The handler\<close>

definition finish_answer ::
  "'h runtime_env \<Rightarrow> date_clock \<Rightarrow> ('u, 'k) pipeline_state \<Rightarrow> instant \<Rightarrow> lifecycle_disposition \<Rightarrow> 'h answer
   \<Rightarrow> in_flight_guard \<Rightarrow> ('u, 'k) pipeline_world \<Rightarrow> 'h hyper_response option \<times> ('u, 'k) pipeline_world" where
  [rust_eval]: "finish_answer env clock pl now disposition answer g w =
     (case answer of
        None \<Rightarrow>
          (let (sem, a, ow) = guard_drop now g (owned_service pl w) (pw_activity w) (pw_ops w)
           in (None, set_service pl sem (w\<lparr>pw_activity := a, pw_ops := ow\<rparr>)))
      | Some (response, provenance) \<Rightarrow>
          (let ((r, d), sem, a, ow) = guard_finish env clock (pl_config pl) (pl_conn_id pl) now disposition provenance response g
                 (owned_service pl w) (pw_activity w) (pw_ops w)
           in (map_option (\<lambda>r. apply_http1_disposition (re_hyper env) r d) r,
               set_service pl sem (w\<lparr>pw_activity := a, pw_ops := ow\<rparr>))))"

fun effective_timeout :: "duration option \<Rightarrow> duration option \<Rightarrow> duration option" where
  "effective_timeout (Some body) (Some handler) = Some (min body handler)"
| "effective_timeout (Some body) None = Some body"
| "effective_timeout None (Some handler) = Some handler"
| "effective_timeout None None = None"

text \<open>The service keeps the body: it is supervised from now on.\<close>

definition delegate_body ::
  "'h runtime_env \<Rightarrow> ('u, 'k) pipeline_state \<Rightarrow> 'u request_input \<Rightarrow> ('u, 'k) pipeline_world \<Rightarrow> ('u, 'k) pipeline_world" where
  [rust_eval]: "delegate_body env pl input w =
     w\<lparr>pw_ops := emit_for (re_sinks env) (pl_ops pl) (pl_conn_id pl) Debug DeferredBodyDelegated
          ''request body delegated past service return''
          (ops_count (pl_ops pl) (oc_deferred_bodies_delegated_update (\<lambda>n. n + 1)) (pw_ops w)),
       pw_activity := deferred_started (pw_activity w),
       pw_trackers := pw_trackers w @ [in_id input],
       pw_watchdogs := pw_watchdogs w @
         (case pl_body_read_timeout pl of
            Some timeout \<Rightarrow> [(in_id input, max (in_started input + timeout) (in_deferred_at input))]
          | None \<Rightarrow> [])\<rparr>"

text \<open>The disposition after the call, from the lifecycle of a streamed body.\<close>

definition settle_body ::
  "'h runtime_env \<Rightarrow> ('u, 'k) pipeline_state \<Rightarrow> 'u request_input \<Rightarrow> bool \<Rightarrow> request_shared \<Rightarrow> ('u, 'k) pipeline_world
   \<Rightarrow> lifecycle_disposition \<times> ('u, 'k) pipeline_world" where
  [rust_eval]: "settle_body env pl input streamed shared w =
     (if \<not> streamed then (KEEP_ALIVE, w)
      else case body_state shared of
        Complete \<Rightarrow> (KEEP_ALIVE, w)
      | Active \<Rightarrow> (KEEP_ALIVE, delegate_body env pl input w)
      | _ \<Rightarrow>
          (close_and_cancel_body,
           w\<lparr>pw_ops := emit_for (re_sinks env) (pl_ops pl) (pl_conn_id pl) Debug IncompleteBodyClose
               ''service returned with abandoned/failed body; connection will close'' (pw_ops w)\<rparr>))"

definition serve_screened ::
  "'h runtime_env \<Rightarrow> date_clock \<Rightarrow> ('u, 'k) pipeline_state \<Rightarrow> 'u request_input \<Rightarrow> screened \<Rightarrow> request_body \<Rightarrow> in_flight_guard
   \<Rightarrow> ('u, 'k) pipeline_world \<Rightarrow> ('h hyper_response option \<times> 'h invocation \<times> ('u, 'k) pipeline_world) option" where
  [rust_eval]: "serve_screened env clock pl input sc body g w =
     (let candidate = classify_tunnel (sc_head sc) (sc_has_body sc) (in_upgrade input);
          streamed = (case sc_policy sc of StreamBody _ \<Rightarrow> True | _ \<Rightarrow> False);
          timeout = (if streamed then effective_timeout (pl_body_read_timeout pl) (pl_handler_timeout pl) else pl_handler_timeout pl);
          store = (pw_requests w)(in_id input \<mapsto> rb_shared body);
          w = w\<lparr>pw_requests := store, pw_registry := register_request store (in_id input) (pw_registry w)\<rparr>;
          (request, capability) = build_request_with_tunnel (sc_head sc) body (sc_info sc) candidate
      in case invoke_service env pl (in_now input) request capability streamed timeout g w of
           None \<Rightarrow> None
         | Some (iv, g, w) \<Rightarrow>
             (let w = w\<lparr>pw_requests := (pw_requests w)(in_id input \<mapsto> iv_body iv)\<rparr>;
                  (disposition, w) = settle_body env pl input streamed (iv_body iv) w;
                  (r, w) = finish_answer env clock pl (in_finished input) disposition (iv_answer iv) g w
              in Some (r, iv, w)))"

definition handle_request ::
  "'h runtime_env \<Rightarrow> date_clock \<Rightarrow> ('u, 'k) pipeline_state \<Rightarrow> 'u request_input \<Rightarrow> ('u, 'k) pipeline_world
   \<Rightarrow> ('h hyper_response option \<times> ('u, 'k) pipeline_world) option" where
  [rust_eval]: "handle_request env clock pl input w =
     (let (g, a, ow) = guard_new (pw_activity w) (pw_ops w);
          w = w\<lparr>pw_activity := a\<rparr>;
          refused = (\<lambda>(r, disposition) ow. Some (finish_answer env clock pl (in_finished input) disposition
            (runtime_answer r) g (w\<lparr>pw_ops := ow\<rparr>)))
      in case screen_request env pl (in_request input) ow of
           (Inl refusal, ow) \<Rightarrow> refused refusal ow
         | (Inr sc, ow) \<Rightarrow>
             (case acquire_body env pl input sc ow of
                None \<Rightarrow> None
              | Some (Inl refusal, ow) \<Rightarrow> refused refusal ow
              | Some (Inr body, ow) \<Rightarrow>
                  map_option (\<lambda>(r, _, w). (r, w)) (serve_screened env clock pl input sc body g (w\<lparr>pw_ops := ow\<rparr>))))"

section \<open>What is screened\<close>

lemma hyper_to_str: "hyper_laws (re_hyper env) \<Longrightarrow> to_str_identity (to_str_of env)"
  unfolding to_str_identity_def to_str_of_def using hyper_conversions(5) by blast

definition expect_fine :: "(bytes \<Rightarrow> string option) \<Rightarrow> bytes \<Rightarrow> bool" where
  [rust_eval]: "expect_fine to_str v \<longleftrightarrow>
     (case to_str v of Some s \<Rightarrow> trim s = [] \<or> eq_ignore_ascii_case (trim s) ''100-continue'' | None \<Rightarrow> False)"

definition asks_continue :: "(bytes \<Rightarrow> string option) \<Rightarrow> bytes \<Rightarrow> bool" where
  [rust_eval]: "asks_continue to_str v \<longleftrightarrow>
     (case to_str v of Some s \<Rightarrow> eq_ignore_ascii_case (trim s) ''100-continue'' | None \<Rightarrow> False)"

lemma scan_expects_exact:
  "scan_expects to_str vs c = (continue, unknown) \<Longrightarrow>
   unknown = (\<exists>v\<in>set vs. \<not> expect_fine to_str v)
   \<and> (\<not> unknown \<longrightarrow> continue = (c \<or> (\<exists>v\<in>set vs. asks_continue to_str v)))"
proof (induction vs arbitrary: c)
  case (Cons v vs)
  show ?case
  proof (cases "expect_fine to_str v")
    case True
    then obtain s where s: "to_str v = Some s" "trim s = [] \<or> eq_ignore_ascii_case (trim s) ''100-continue''"
      by (auto simp: expect_fine_def split: option.splits)
    then have "scan_expects to_str vs (c \<or> asks_continue to_str v) = (continue, unknown)"
      using Cons.prems by (auto simp: asks_continue_def Let_def)
    from Cons.IH [OF this] show ?thesis using True by auto
  next
    case False
    then show ?thesis using Cons.prems by (auto simp: expect_fine_def Let_def split: option.splits if_splits)
  qed
qed simp

lemma screen_body_Inr:
  assumes "screen_body env pl headers head info policy w = (Inr sc, w')"
  shows "validate_body_framing (to_str_of env) headers = Inr ()" "w' = w"
    "sc = \<lparr>sc_head = head, sc_info = info, sc_policy = policy, sc_declared = declared_length (to_str_of env) headers,
      sc_has_body = request_has_body (to_str_of env) headers\<rparr>"
    "\<lbrakk>sc_declared sc = Some len; policy_max_bytes policy = Some limit\<rbrakk> \<Longrightarrow> len \<le> limit"
    "\<forall>v\<in>set (wh_get_all headers ''expect''). expect_fine (to_str_of env) v"
    "policy = RejectBody \<Longrightarrow> \<not> sc_has_body sc \<and> (\<forall>v\<in>set (wh_get_all headers ''expect''). \<not> asks_continue (to_str_of env) v)"
proof -
  obtain continue unknown where e: "scan_expects (to_str_of env) (wh_get_all headers ''expect'') False = (continue, unknown)"
    by (metis surj_pair)
  note exact = scan_expects_exact [OF e]
  note d = assms [unfolded screen_body_def e Let_def prod.case]
  show "validate_body_framing (to_str_of env) headers = Inr ()" "w' = w"
    "sc = \<lparr>sc_head = head, sc_info = info, sc_policy = policy, sc_declared = declared_length (to_str_of env) headers,
      sc_has_body = request_has_body (to_str_of env) headers\<rparr>"
    using d by (auto split: sum.splits option.splits prod.splits if_splits)
  show "\<lbrakk>sc_declared sc = Some len; policy_max_bytes policy = Some limit\<rbrakk> \<Longrightarrow> len \<le> limit"
    using d by (auto split: sum.splits option.splits prod.splits if_splits)
  have "\<not> unknown" using d by (auto split: sum.splits option.splits prod.splits if_splits)
  then show "\<forall>v\<in>set (wh_get_all headers ''expect''). expect_fine (to_str_of env) v" using exact by blast
  show "policy = RejectBody \<Longrightarrow> \<not> sc_has_body sc \<and> (\<forall>v\<in>set (wh_get_all headers ''expect''). \<not> asks_continue (to_str_of env) v)"
    using d exact \<open>\<not> unknown\<close> by (auto split: sum.splits option.splits prod.splits if_splits)
qed

lemma screen_request_Inr:
  assumes "screen_request env pl r w = (Inr sc, w')"
  obtains info w1 w2 where "convert_head (to_str_of env) r (target_ceiling (pl_config pl)) (h1_http1_request_target_mode (pl_config pl))
      (header_ceiling (pl_config pl)) (cc_scheme (pl_context pl)) = Inr (sc_head sc)"
    "\<not> trace_refused (to_str_of env) (wr_headers r) (sc_head sc)"
    "apply_forwarded_policy (re_sinks env) (pl_ops pl) (cc_connection_info (pl_context pl)) (sc_head sc) (pl_config pl)
       (pl_context pl) (pl_conn_id pl) w1 = (info, w2)"
    "screen_body env pl (wr_headers r) (sc_head sc) info
       (select_body_policy_with_ceiling (svc_policy (pl_service pl) (sc_head sc)) (pl_max_body_bytes pl)) w2 = (Inr sc, w')"
proof -
  obtain c w1 where c: "convert_request_head (re_sinks env) (to_str_of env) r (target_ceiling (pl_config pl))
      (h1_http1_request_target_mode (pl_config pl)) (header_ceiling (pl_config pl)) (cc_scheme (pl_context pl)) (pl_conn_id pl)
      (pl_ops pl) w = (c, w1)" by (metis surj_pair)
  note d = assms [unfolded screen_request_def Let_def c prod.case]
  obtain head where head: "c = Inr head" using d by (cases c) auto
  have conv: "convert_head (to_str_of env) r (target_ceiling (pl_config pl)) (h1_http1_request_target_mode (pl_config pl))
      (header_ceiling (pl_config pl)) (cc_scheme (pl_context pl)) = Inr head"
    using c head by (auto simp: convert_request_head_def split: sum.splits prod.splits)
  obtain info w2 where f: "apply_forwarded_policy (re_sinks env) (pl_ops pl) (cc_connection_info (pl_context pl)) head (pl_config pl)
       (pl_context pl) (pl_conn_id pl) w1 = (info, w2)" by (metis surj_pair)
  have t: "\<not> trace_refused (to_str_of env) (wr_headers r) head"
    and b: "screen_body env pl (wr_headers r) head info
       (select_body_policy_with_ceiling (svc_policy (pl_service pl) head) (pl_max_body_bytes pl)) w2 = (Inr sc, w')"
    using d head f by (auto split: if_splits)
  have "sc_head sc = head" using screen_body_Inr(3) [OF b] by simp
  with that conv t f b show ?thesis by blast
qed

lemma policy_below_ceiling:
  assumes "policy_max_bytes (select_body_policy_with_ceiling p c) = Some l"
  shows "\<exists>m. policy_max_bytes p = Some m \<and> l \<le> m \<and> (\<forall>ceiling. c = Some ceiling \<longrightarrow> l \<le> ceiling)"
  using assms
  by (cases p) (auto simp: select_body_policy_with_ceiling_def Let_def split: option.splits if_splits)

text \<open>On framing that was accepted, the declared length is what the check for TRACE reads.\<close>

lemma declared_digits:
  assumes "header_map_laws h" "validate_body_framing to_str h = Inr ()" "declared_length to_str h = Some n"
  shows "\<exists>s. Option.bind (wh_get h ''content-length'') to_str = Some s \<and> digits_u64 s = Some n"
proof -
  obtain v where v: "wh_get h ''content-length'' = Some v" using assms(3) by (cases "wh_get h ''content-length''") (auto simp: declared_length_def)
  have get: "wh_get h ''content-length'' = (case wh_get_all h ''content-length'' of [] \<Rightarrow> None | v # _ \<Rightarrow> Some v)"
    using assms(1) by (simp add: header_map_laws_def to_ascii_lowercase_def to_ascii_lowercase_char_def ascii_class)
  obtain vs where vs: "wh_get_all h ''content-length'' = v # vs" using v get by (cases "wh_get_all h ''content-length''") auto
  have first: "\<exists>n c. scan_content_lengths us (k, Some f, b) = (n, Some f, c)" for us k f b
    by (induction us arbitrary: k b) auto
  obtain k c where "scan_content_lengths (v # vs) (0, None, False) = (k, Some v, c)" using first [of vs 1 v False] by auto
  then obtain s where s: "to_str v = Some s" "digits_u64 s \<noteq> None"
    using assms(2) vs by (auto simp: validate_body_framing_def split: if_splits option.splits)
  then have "digits_u64 s = parse_u64 s" by (auto simp: digits_u64_def split: if_splits)
  then show ?thesis using assms(3) v s by (simp add: declared_length_def)
qed

lemma trace_without_body:
  assumes "header_map_laws h" "validate_body_framing to_str h = Inr ()" "\<not> trace_refused to_str h head"
    and "method_str (rq_method head) = ''TRACE''" "rq_version head \<noteq> Http2"
  shows "\<not> request_has_body to_str h"
proof -
  have "n = 0" if "declared_length to_str h = Some n" for n
    using declared_digits [OF assms(1,2) that] assms(3,4) by (auto simp: trace_refused_def word_gt_0)
  then show ?thesis using assms(3-5) by (auto simp: request_has_body_def trace_refused_def word_gt_0 split: option.splits)
qed

section \<open>Every branch has an answer\<close>

lemma wire_error_total: "hyper_laws hy \<Longrightarrow> wire_error hy status is_head policy \<noteq> None"
  by (rule wire_error_Some [of hy status is_head policy]) simp_all

lemma rejection_total: "hyper_laws hy \<Longrightarrow> present_runtime_rejection hy status kind is_head policy \<noteq> None"
  using wire_error_total [of hy status is_head]
  by (auto simp: present_runtime_rejection_def Let_def split: option.splits)

lemma error_responses_total:
  assumes "hyper_laws hy"
  shows "service_error_to_response hy err is_head policy \<noteq> None" "body_error_to_response hy e head policy \<noteq> None"
    "internal_error_with_policy hy ep \<noteq> None" "service_unavailable_with_policy hy ep \<noteq> None"
    "bad_request_with_policy hy b ep \<noteq> None" "expectation_failed_with_policy hy b ep \<noteq> None"
  using rejection_total [OF assms] wire_error_total [OF assms]
  by (simp_all add: service_error_to_response_def body_error_to_response_def internal_error_with_policy_def
      service_unavailable_with_policy_def bad_request_with_policy_def expectation_failed_with_policy_def Let_def)

definition has_answer :: "'h answer \<Rightarrow> bool" where
  [rust_eval]: "has_answer answer = (answer \<noteq> None)"

lemma has_answer_simps: "has_answer (runtime_answer r) \<longleftrightarrow> r \<noteq> None" "has_answer (Some a)"
  by (simp_all add: has_answer_def runtime_answer_def)

text \<open>A response whose length is representable and whose declared trailers are field values.\<close>

definition sendable :: "response \<Rightarrow> bool" where
  [rust_eval]: "sendable r \<longleftrightarrow>
     (case rsp_body r of Some b \<Rightarrow> body_length_of b \<noteq> None | None \<Rightarrow> True)
     \<and> (case response_trailer_declaration r of
          Some d \<Rightarrow> (case header_value_from_bytes (declaration_header_value d) of Inr _ \<Rightarrow> True | Inl _ \<Rightarrow> False)
        | None \<Rightarrow> True)"

lemma strip_sendable: "sendable r \<Longrightarrow> sendable (strip_response_trailers r)"
  by (auto simp: sendable_def strip_response_trailers_def body_length_of_def response_trailer_declaration_def
      take_trailer_declaration_def take_trailer_future_def split: option.splits response_body.splits)

lemma trailer_policy_sendable:
  "h1_trailer_policy cs ctx conn_id is_head allowed r w = (r', synthesize, w') \<Longrightarrow> sendable r \<Longrightarrow> sendable r'"
  by (auto simp: h1_trailer_policy_def strip_sendable split: if_splits)

lemma normalize_total: "sendable r \<Longrightarrow> normalize_response r is_head \<noteq> None"
  by (auto simp: sendable_def normalize_response_def Let_def body_length_of_def split: option.splits response_body.splits)

lemma normalize_declaration:
  assumes "normalize_response r is_head = Some (Inr r')" "response_trailer_declaration r' = Some d"
  shows "response_trailer_declaration r = Some d"
  using assms
  by (auto simp: normalize_response_def response_trailer_declaration_def Let_def result_inv
      split: if_splits option.splits response_body.splits body_length.splits)

lemma synthesize_total:
  assumes "sendable r" "normalize_response r is_head = Some (Inr r')"
  shows "synthesize_trailer b r' \<noteq> None"
proof (cases "response_trailer_declaration r'")
  case (Some d)
  with normalize_declaration [OF assms(2)] have "response_trailer_declaration r = Some d" .
  then obtain v where v: "header_value_from_bytes (declaration_header_value d) = Inr v"
    using assms(1) by (auto simp: sendable_def split: sum.splits)
  have "header_name_new ''trailer'' = Inr (HeaderName ''trailer'')" by (simp add: rust_eval)
  with v Some show ?thesis by (simp add: synthesize_trailer_def block_push_bytes_def ok_value_def)
qed (simp add: synthesize_trailer_def)

lemma normalize_then_convert_total:
  fixes env :: "'h runtime_env"
  assumes "hyper_laws (re_hyper env)" "sendable r"
    and "normalize_then_convert env r is_head b chunk ep now ctx permits w = (answer, permits', w')"
  shows "has_answer answer"
proof -
  note errors = error_responses_total [OF assms(1)]
  obtain res where n: "normalize_response r is_head = Some res" using normalize_total [OF assms(2)] by auto
  show ?thesis
  proof (cases res)
    case (Inl e)
    then show ?thesis using assms(3) n errors by (auto simp: normalize_then_convert_def has_answer_def Let_def)
  next
    case (Inr r')
    obtain r2 where "synthesize_trailer b r' = Some r2" using synthesize_total [OF assms(2), of is_head r' b] n Inr by auto
    then show ?thesis using assms(3) n Inr errors
      by (auto simp: normalize_then_convert_def has_answer_def Let_def split: prod.splits sum.splits response_construction_error.splits)
  qed
qed

lemma finalize_total:
  fixes hy :: "'h hyper_api"
  assumes "hyper_laws hy"
  shows "finalize_runtime_response hy dt clock config provenance r \<noteq> None"
  using error_responses_total(3) [OF assms] by (auto simp: finalize_runtime_response_def Let_def)

lemma handshake_conversion_total:
  fixes env :: "'h runtime_env"
  assumes "hyper_laws (re_hyper env)"
  shows "has_answer (fst (convert_handshake_without_normalization env pl canonical w))"
  using error_responses_total(3,4) [OF assms]
  by (auto simp: convert_handshake_without_normalization_def has_answer_simps
      split: prod.splits sum.splits response_construction_error.splits)

lemma accept_handshake_total:
  fixes env :: "'h runtime_env"
  assumes "hyper_laws (re_hyper env)"
  shows "has_answer (fst (accept_handshake env pl is_head canonical acceptance w))"
  using rejection_total [OF assms] handshake_conversion_total [OF assms]
  by (auto simp: accept_handshake_def has_answer_simps Let_def split: prod.splits)

lemma call_returned_total:
  fixes env :: "'h runtime_env"
  assumes "hyper_laws (re_hyper env)" "sendable canonical"
  shows "has_answer (fst (call_returned env pl now is_head allowed side canonical w))"
proof -
  obtain c b ow where p: "h1_trailer_policy (re_sinks env) (pl_ops pl) (pl_conn_id pl) is_head allowed canonical (pw_ops w) = (c, b, ow)"
    by (metis prod_cases3)
  note c = trailer_policy_sendable [OF p assms(2)]
  show ?thesis
    using error_responses_total(3) [OF assms(1)] accept_handshake_total [OF assms(1)] normalize_then_convert_total [OF assms(1) c]
    by (auto simp: call_returned_def p has_answer_simps Let_def split: option.splits prod.splits)
qed

section \<open>Accounting of a request\<close>

text \<open>The counters of the connection are untouched, and every new tunnel task is counted.\<close>

definition quiet :: "('u, 'k) pipeline_world \<Rightarrow> ('u, 'k) pipeline_world \<Rightarrow> bool" where
  [rust_eval]: "quiet w w' \<longleftrightarrow>
     ca_in_flight (pw_activity w') = ca_in_flight (pw_activity w)
     \<and> ca_outstanding (pw_activity w') = ca_outstanding (pw_activity w)
     \<and> ca_completed (pw_activity w') = ca_completed (pw_activity w)
     \<and> ca_deferred (pw_activity w') = ca_deferred (pw_activity w)
     \<and> pw_trackers w' = pw_trackers w \<and> pw_watchdogs w' = pw_watchdogs w
     \<and> ca_tunnels (pw_activity w') + length (pw_tunnels w) = ca_tunnels (pw_activity w) + length (pw_tunnels w')"

lemma with_files_quiet: "quiet w (with_files p ow w)" "pw_service_permits (with_files p ow w) = pw_service_permits w"
  by (simp_all add: quiet_def with_files_def)

lemma handshake_quiet:
  assumes "convert_handshake_without_normalization env pl canonical w = (answer, w')"
  shows "quiet w w'" "pw_service_permits w' = pw_service_permits w"
  using assms
  by (auto simp: convert_handshake_without_normalization_def with_files_quiet
      split: prod.splits sum.splits response_construction_error.splits)

lemma accept_handshake_quiet:
  assumes "accept_handshake env pl is_head canonical acceptance w = (answer, w')"
  shows "quiet w w'" "pw_service_permits w' = pw_service_permits w"
proof -
  obtain ok sem a ow where ad: "admit_and_spawn (re_sinks env) (pl_ops pl) (pl_conn_id pl) (owned_tunnels pl w) (pw_activity w)
      (pw_ops w) = (ok, sem, a, ow)" by (metis prod_cases4)
  then have a: "a = (if ok then spawn_tunnel (pw_activity w) else pw_activity w)"
    by (auto simp: admit_and_spawn_def Let_def split: option.splits nat.splits)
  let ?w = "w\<lparr>pw_activity := a, pw_ops := ow, pw_tunnel_permits := (if owned_tunnels pl w = None then pw_tunnel_permits w else sem)\<rparr>"
  have "quiet w w' \<and> pw_service_permits w' = pw_service_permits w"
  proof (cases ok)
    case True
    then have "convert_handshake_without_normalization env pl canonical (?w\<lparr>pw_tunnels := pw_tunnels w @ [acceptance]\<rparr>) = (answer, w')"
      using assms ad by (simp add: accept_handshake_def Let_def)
    from handshake_quiet [OF this] show ?thesis using True by (simp add: quiet_def a spawn_tunnel_def)
  next
    case False
    then have "w' = ?w" using assms ad by (simp add: accept_handshake_def Let_def)
    with False show ?thesis by (simp add: quiet_def a)
  qed
  then show "quiet w w'" "pw_service_permits w' = pw_service_permits w" by simp_all
qed

lemma call_returned_quiet:
  assumes "call_returned env pl now is_head allowed side canonical w = (answer, w')"
  shows "quiet w w'" "pw_service_permits w' = pw_service_permits w"
proof -
  obtain c b ow where p: "h1_trailer_policy (re_sinks env) (pl_ops pl) (pl_conn_id pl) is_head allowed canonical (pw_ops w) = (c, b, ow)"
    by (metis prod_cases3)
  let ?w = "w\<lparr>pw_ops := ow\<rparr>"
  note d = assms [unfolded call_returned_def p Let_def prod.case]
  have "quiet ?w w' \<and> pw_service_permits w' = pw_service_permits ?w"
  proof (cases side)
    case None
    then show ?thesis using d by (auto simp: quiet_def)
  next
    case (Some s)
    then show ?thesis using d
      by (cases s) (auto simp: with_files_quiet dest: accept_handshake_quiet split: prod.splits)
  qed
  then show "quiet w w'" "pw_service_permits w' = pw_service_permits w" by (simp_all add: quiet_def)
qed

lemma call_failures_quiet:
  "call_failed env pl is_head err w = (answer, w') \<Longrightarrow> quiet w w' \<and> pw_service_permits w' = pw_service_permits w"
  "call_elapsed env pl is_head streamed shared w = (answer, shared', w') \<Longrightarrow> quiet w w' \<and> pw_service_permits w' = pw_service_permits w"
  by (auto simp: call_failed_def call_elapsed_def quiet_def split: if_splits)

text \<open>The time of a call is over only if it has one, and its response can be sent.\<close>

definition call_sound :: "duration option \<Rightarrow> 'k service_run \<Rightarrow> bool" where
  [rust_eval]: "call_sound timeout run \<longleftrightarrow>
     (case sr_end run of CallElapsed \<Rightarrow> timeout \<noteq> None | CallReturns (Inr canonical) \<Rightarrow> sendable canonical | _ \<Rightarrow> True)"

lemma admit_books:
  assumes "admit cs sem conn_id a g w = (saturated, sem', g', w')" "\<not> ig_service_permit g" "\<not> ig_finished g"
  shows "release_permit g' sem' = sem" "\<not> ig_finished g'" "sem' = None \<longleftrightarrow> sem = None"
  using assms by (auto simp: admit_def release_permit_def Let_def split: option.splits nat.splits)

lemma service_after:
  assumes "admit cs (owned_service pl w) conn_id a g ow = (saturated, sem, g', ow')" "\<not> ig_service_permit g" "\<not> ig_finished g"
    and "w1 = set_service pl sem (w\<lparr>pw_ops := ow'\<rparr>)" "pw_service_permits w2 = pw_service_permits w1"
  shows "release_permit g' (owned_service pl w2) = owned_service pl w" "\<not> ig_finished g'"
    "owned_service pl w = None \<Longrightarrow> pw_service_permits w2 = pw_service_permits w"
    "owned_service pl w2 = None \<longleftrightarrow> owned_service pl w = None"
  using admit_books [OF assms(1-3)] assms(4,5)
  by (auto simp: owned_service_def set_service_def release_permit_def split: if_splits)

lemma quiet_ops: "quiet (w\<lparr>pw_ops := ow\<rparr>) w' = quiet w w'" "quiet (set_service pl sem w) w' = quiet w w'"
  by (simp_all add: quiet_def set_service_def)

lemma settle_call_quiet:
  assumes "settle_call env pl now head streamed timeout run side w = Some (answer, body, w')"
  shows "quiet w w' \<and> pw_service_permits w' = pw_service_permits w"
  using assms
  by (auto simp: settle_call_def Let_def dest: call_failures_quiet call_returned_quiet
      split: call_end.splits sum.splits prod.splits if_splits)

lemma invoke_books:
  assumes "invoke_service env pl now request capability streamed timeout g w = Some (iv, g', w')"
    and "\<not> ig_service_permit g" "\<not> ig_finished g"
  shows "quiet w w'" "release_permit g' (owned_service pl w') = owned_service pl w" "\<not> ig_finished g'"
    "owned_service pl w = None \<Longrightarrow> pw_service_permits w' = pw_service_permits w"
    "owned_service pl w' = None \<longleftrightarrow> owned_service pl w = None"
proof -
  obtain saturated sem g1 ow where ad: "admit (re_sinks env) (owned_service pl w) (pl_conn_id pl) (pw_activity w) g (pw_ops w) =
      (saturated, sem, g1, ow)" by (metis prod_cases4)
  let ?w = "set_service pl sem (w\<lparr>pw_ops := ow\<rparr>)"
  let ?run = "svc_call (pl_service pl) request capability timeout"
  note d = assms(1) [unfolded invoke_service_def Let_def ad prod.case]
  have "g' = g1 \<and> quiet ?w w' \<and> pw_service_permits w' = pw_service_permits ?w"
  proof (cases saturated)
    case True
    then show ?thesis using d by (auto simp: quiet_def)
  next
    case False
    obtain shared side where s: "staged_acceptance capability ?run = (shared, side)" by (metis surj_pair)
    show ?thesis using d False s by (auto dest: settle_call_quiet)
  qed
  then have w': "g' = g1" "quiet ?w w'" "pw_service_permits w' = pw_service_permits ?w" by auto
  show "quiet w w'" using w'(2) by (simp add: quiet_ops)
  note s = service_after [OF ad assms(2,3) refl w'(3)]
  show "release_permit g' (owned_service pl w') = owned_service pl w" "\<not> ig_finished g'" using s(1,2) w'(1) by simp_all
  show "owned_service pl w = None \<Longrightarrow> pw_service_permits w' = pw_service_permits w"
    "owned_service pl w' = None \<longleftrightarrow> owned_service pl w = None"
    using s(3,4) by simp_all
qed

lemma call_failures_total:
  fixes env :: "'h runtime_env"
  assumes "hyper_laws (re_hyper env)"
  shows "has_answer (fst (call_failed env pl is_head err w))" "has_answer (fst (call_elapsed env pl is_head streamed shared w))"
  using error_responses_total(1) [OF assms] by (simp_all add: call_failed_def call_elapsed_def has_answer_simps)

lemma settle_call_total:
  fixes env :: "'h runtime_env"
  assumes "hyper_laws (re_hyper env)" "call_sound timeout run"
  obtains answer body w' where "settle_call env pl now head streamed timeout run side w = Some (answer, body, w')" "has_answer answer"
proof -
  note failures = call_failures_total [OF assms(1)] and returned = call_returned_total [OF assms(1)]
  let ?is_head = "is_head_request head"
  have "\<exists>answer body w'. settle_call env pl now head streamed timeout run side w = Some (answer, body, w') \<and> has_answer answer"
  proof (cases "sr_end run")
    case (CallReturns r)
    show ?thesis
    proof (cases r)
      case (Inl err)
      obtain x y where "call_failed env pl ?is_head err w = (x, y)" by (metis surj_pair)
      with failures(1) [of pl ?is_head err w] CallReturns Inl show ?thesis by (simp add: settle_call_def)
    next
      case (Inr canonical)
      obtain x y where "call_returned env pl now ?is_head (h1_trailers_allowed head) side canonical w = (x, y)" by (metis surj_pair)
      with returned [of canonical pl now ?is_head "h1_trailers_allowed head" side w] CallReturns Inr assms(2)
      show ?thesis by (simp add: settle_call_def call_sound_def)
    qed
  next
    case (CallPanics m)
    obtain x y where "call_failed env pl ?is_head (contain_service_panic m) w = (x, y)" by (metis surj_pair)
    with failures(1) [of pl ?is_head "contain_service_panic m" w] CallPanics show ?thesis by (simp add: settle_call_def)
  next
    case CallElapsed
    obtain x y z where "call_elapsed env pl ?is_head streamed (sr_body run) w = (x, y, z)" by (metis prod_cases3)
    with failures(2) [of pl ?is_head streamed "sr_body run" w] CallElapsed assms(2)
    show ?thesis by (auto simp: settle_call_def call_sound_def)
  qed
  with that show thesis by blast
qed

lemma invoke_total:
  fixes env :: "'h runtime_env"
  assumes "hyper_laws (re_hyper env)" "call_sound timeout (svc_call (pl_service pl) request capability timeout)"
  obtains iv g' w' where "invoke_service env pl now request capability streamed timeout g w = Some (iv, g', w')" "has_answer (iv_answer iv)"
proof -
  obtain saturated sem g1 ow where ad: "admit (re_sinks env) (owned_service pl w) (pl_conn_id pl) (pw_activity w) g (pw_ops w) =
      (saturated, sem, g1, ow)" by (metis prod_cases4)
  let ?run = "svc_call (pl_service pl) request capability timeout"
  let ?w = "set_service pl sem (w\<lparr>pw_ops := ow\<rparr>)"
  obtain shared side where s: "staged_acceptance capability ?run = (shared, side)" by (metis surj_pair)
  obtain answer body w' where c: "settle_call env pl now (req_head request) streamed timeout ?run side ?w = Some (answer, body, w')"
      "has_answer answer"
    by (rule settle_call_total [OF assms])
  have "\<exists>iv g' w'. invoke_service env pl now request capability streamed timeout g w = Some (iv, g', w') \<and> has_answer (iv_answer iv)"
    using rejection_total [OF assms(1)] c by (cases saturated) (simp_all add: invoke_service_def ad s has_answer_simps)
  with that show thesis by blast
qed

lemma settle_books:
  assumes "settle_body env pl input streamed shared w = (d, w')"
  shows "pw_service_permits w' = pw_service_permits w" "ca_in_flight (pw_activity w') = ca_in_flight (pw_activity w)"
    "ca_outstanding (pw_activity w') = ca_outstanding (pw_activity w)" "ca_completed (pw_activity w') = ca_completed (pw_activity w)"
    "ca_tunnels (pw_activity w') = ca_tunnels (pw_activity w)" "pw_tunnels w' = pw_tunnels w"
    "\<exists>ids. pw_trackers w' = pw_trackers w @ ids \<and> ca_deferred (pw_activity w') = ca_deferred (pw_activity w) + of_nat (length ids)"
  using assms
  by (auto simp: settle_body_def delegate_body_def deferred_started_def notify_driver_def
      split: if_splits body_lifecycle_state.splits)

lemma finish_books:
  fixes env :: "'h runtime_env"
  assumes "finish_answer env clock pl now d answer g w = (r, w')" "has_answer answer" "hyper_laws (re_hyper env)"
  shows "\<exists>x. r = Some x" "ca_in_flight (pw_activity w') = ca_in_flight (pw_activity w) - 1"
    "ca_outstanding (pw_activity w') = ca_outstanding (pw_activity w) + 1"
    "ca_completed (pw_activity w') = ca_completed (pw_activity w) + 1"
    "ca_deferred (pw_activity w') = ca_deferred (pw_activity w)" "pw_trackers w' = pw_trackers w"
    "ca_tunnels (pw_activity w') = ca_tunnels (pw_activity w)" "pw_tunnels w' = pw_tunnels w"
    "pw_service_permits w' = (if owned_service pl w = None then pw_service_permits w else release_permit g (owned_service pl w))"
proof -
  obtain response provenance where a: "answer = Some (response, provenance)" using assms(2) by (auto simp: has_answer_def)
  obtain d' sem a' ow where f: "finish_accounts (re_sinks env) (pl_config pl) (pl_conn_id pl) now d g (owned_service pl w) (pw_activity w)
      (pw_ops w) = (d', sem, a', ow)" by (metis prod_cases4)
  have t: "ca_tunnels a' = ca_tunnels (pw_activity w)"
    using f by (auto simp: finish_accounts_def request_finished_without_service_def response_started_def touch_def notify_driver_def
        Let_def split: if_splits)
  have o: "owned_service pl (w\<lparr>pw_activity := a', pw_ops := ow\<rparr>) = owned_service pl w" by (simp add: owned_service_def)
  have w': "w' = set_service pl sem (w\<lparr>pw_activity := a', pw_ops := ow\<rparr>)"
    and r: "r = map_option (\<lambda>r. apply_http1_disposition (re_hyper env) r d')
      (finalize_runtime_response (re_hyper env) (re_dates env) clock (pl_config pl) provenance response)"
    using assms(1) unfolding finish_answer_def guard_finish_def a f by (simp_all add: Let_def)
  show "\<exists>x. r = Some x" using r finalize_total [OF assms(3)] by auto
  note fields = finish_accounts_fields [OF f]
  show "ca_in_flight (pw_activity w') = ca_in_flight (pw_activity w) - 1"
    "ca_outstanding (pw_activity w') = ca_outstanding (pw_activity w) + 1"
    "ca_completed (pw_activity w') = ca_completed (pw_activity w) + 1"
    "ca_deferred (pw_activity w') = ca_deferred (pw_activity w)" "pw_trackers w' = pw_trackers w"
    "ca_tunnels (pw_activity w') = ca_tunnels (pw_activity w)" "pw_tunnels w' = pw_tunnels w"
    "pw_service_permits w' = (if owned_service pl w = None then pw_service_permits w else release_permit g (owned_service pl w))"
    using fields t by (simp_all add: w' set_service_def o)
qed

lemma screen_refusal_total:
  fixes env :: "'h runtime_env"
  assumes "hyper_laws (re_hyper env)" "screen_request env pl r w = (Inl (x, d), w')"
  shows "has_answer (runtime_answer x)"
proof -
  note errors = error_responses_total [OF assms(1)] rejection_total [OF assms(1)]
  have body: "has_answer (runtime_answer y)" if "screen_body env pl headers head info policy v = (Inl (y, e), v')"
    for y e headers head info policy v v'
    using that errors
    by (auto simp: screen_body_def framing_refused_def length_refused_def rejected_413_def has_answer_simps Let_def
        split: sum.splits option.splits prod.splits if_splits)
  show ?thesis
    using assms(2) errors
    by (auto simp: screen_request_def has_answer_simps Let_def dest: body split: sum.splits prod.splits if_splits)
qed

lemma acquire_refusal_total:
  fixes env :: "'h runtime_env"
  assumes "hyper_laws (re_hyper env)" "acquire_body env pl input sc w = Some (Inl (x, d), w')"
  shows "has_answer (runtime_answer x)"
  using assms(2) error_responses_total(2) [OF assms(1)]
  by (auto simp: acquire_body_def has_answer_simps Let_def
      split: request_body_policy.splits sum.splits prod.splits option.splits if_splits)

text \<open>A read of the body that has a deadline ends, and one without is taken to end.\<close>

definition read_ends :: "('u, 'k) pipeline_state \<Rightarrow> 'u request_input \<Rightarrow> bool" where
  [rust_eval]: "read_ends pl input \<longleftrightarrow> pl_body_read_timeout pl \<noteq> None \<or> \<not> in_read_stalls input"

lemma acquire_ends: "read_ends pl input \<Longrightarrow> acquire_body env pl input sc w \<noteq> None"
  by (auto simp: acquire_body_def read_ends_def Let_def split: request_body_policy.splits)

text \<open>The books of a connection after one more answer: what the pipeline took is returned.\<close>

definition answered :: "u64 \<Rightarrow> ('u, 'k) pipeline_world \<Rightarrow> ('u, 'k) pipeline_world \<Rightarrow> bool" where
  [rust_eval]: "answered released w w' \<longleftrightarrow>
     ca_in_flight (pw_activity w') = ca_in_flight (pw_activity w) - released
     \<and> ca_outstanding (pw_activity w') = ca_outstanding (pw_activity w) + 1
     \<and> ca_completed (pw_activity w') = ca_completed (pw_activity w) + 1
     \<and> pw_service_permits w' = pw_service_permits w
     \<and> take (length (pw_trackers w)) (pw_trackers w') = pw_trackers w
     \<and> ca_deferred (pw_activity w') = ca_deferred (pw_activity w) + of_nat (length (pw_trackers w') - length (pw_trackers w))
     \<and> ca_tunnels (pw_activity w') + length (pw_tunnels w) = ca_tunnels (pw_activity w) + length (pw_tunnels w')"

lemma serve_books:
  fixes env :: "'h runtime_env"
  assumes "hyper_laws (re_hyper env)" "\<not> ig_service_permit g" "\<not> ig_finished g"
    and "\<forall>request capability timeout. call_sound timeout (svc_call (pl_service pl) request capability timeout)"
  shows "\<exists>r iv w'. serve_screened env clock pl input sc body g w = Some (Some r, iv, w') \<and> answered 1 w w'"
proof -
  define streamed where "streamed = (case sc_policy sc of StreamBody _ \<Rightarrow> True | _ \<Rightarrow> False)"
  define timeout where "timeout = (if streamed then effective_timeout (pl_body_read_timeout pl) (pl_handler_timeout pl) else pl_handler_timeout pl)"
  define store where "store = (pw_requests w)(in_id input \<mapsto> rb_shared body)"
  define w1 where "w1 = w\<lparr>pw_requests := store, pw_registry := register_request store (in_id input) (pw_registry w)\<rparr>"
  obtain request capability where b: "build_request_with_tunnel (sc_head sc) body (sc_info sc)
      (classify_tunnel (sc_head sc) (sc_has_body sc) (in_upgrade input)) = (request, capability)" by (metis surj_pair)
  obtain iv g' w2 where i: "invoke_service env pl (in_now input) request capability streamed timeout g w1 = Some (iv, g', w2)"
      "has_answer (iv_answer iv)"
    by (rule invoke_total [OF assms(1) assms(4) [rule_format]])
  define w3 where "w3 = w2\<lparr>pw_requests := (pw_requests w2)(in_id input \<mapsto> iv_body iv)\<rparr>"
  obtain d w4 where s: "settle_body env pl input streamed (iv_body iv) w3 = (d, w4)" by (metis surj_pair)
  obtain r w5 where f: "finish_answer env clock pl (in_finished input) d (iv_answer iv) g' w4 = (r, w5)" by (metis surj_pair)
  note inv = invoke_books [OF i(1) assms(2,3)] and set = settle_books [OF s] and fin = finish_books [OF f i(2) assms(1)]
  obtain x where x: "r = Some x" using fin(1) by blast
  have run: "serve_screened env clock pl input sc body g w = Some (Some x, iv, w5)"
    unfolding serve_screened_def Let_def streamed_def [symmetric] timeout_def [symmetric] store_def [symmetric] w1_def [symmetric] b
    by (simp add: i(1) w3_def [symmetric] s f x)
  have own: "owned_service pl w4 = owned_service pl w2" "owned_service pl w1 = owned_service pl w"
    using set(1) by (simp_all add: owned_service_def w3_def w1_def)
  have "pw_service_permits w5 = pw_service_permits w"
  proof (cases "owned_service pl w = None")
    case True
    then show ?thesis using fin(9) inv(4,5) own set(1) by (simp add: w1_def w3_def)
  next
    case False
    then show ?thesis using fin(9) inv(2,5) own by (auto simp: owned_service_def split: if_splits)
  qed
  moreover obtain ids where "pw_trackers w4 = pw_trackers w3 @ ids"
      "ca_deferred (pw_activity w4) = ca_deferred (pw_activity w3) + of_nat (length ids)" using set(7) by blast
  ultimately have "answered 1 w w5"
    using inv(1) set(2-6) fin(2-8) by (simp add: answered_def quiet_def w1_def w3_def)
  with run show ?thesis by blast
qed

lemma handle_answered:
  fixes env :: "'h runtime_env"
  assumes "hyper_laws (re_hyper env)"
    and "\<forall>request capability timeout. call_sound timeout (svc_call (pl_service pl) request capability timeout)"
    and "read_ends pl input"
  shows "\<exists>r w'. handle_request env clock pl input w = Some (Some r, w') \<and> answered 0 w w'"
proof -
  obtain g a ow where g: "guard_new (pw_activity w) (pw_ops w) = (g, a, ow)" by (metis prod_cases3)
  have fresh: "\<not> ig_service_permit g" "\<not> ig_finished g" "ca_in_flight a = ca_in_flight (pw_activity w) + 1"
      "ca_outstanding a = ca_outstanding (pw_activity w)" "ca_completed a = ca_completed (pw_activity w)"
      "ca_deferred a = ca_deferred (pw_activity w)" "ca_tunnels a = ca_tunnels (pw_activity w)"
    using g by (auto simp: guard_new_def request_started_def notify_driver_def)
  let ?w = "\<lambda>v. w\<lparr>pw_activity := a, pw_ops := v\<rparr>"
  have step: "answered 0 w w'" if "answered 1 (?w v) w'" for v w'
    using that fresh by (simp add: answered_def)
  have refused: "\<exists>r w'. Some (finish_answer env clock pl (in_finished input) d (runtime_answer x) g (?w v)) = Some (Some r, w') \<and> answered 0 w w'"
    if "has_answer (runtime_answer x)" for x d v
  proof -
    obtain r w' where f: "finish_answer env clock pl (in_finished input) d (runtime_answer x) g (?w v) = (r, w')" by (metis surj_pair)
    note fin = finish_books [OF f that assms(1)]
    have "pw_service_permits w' = pw_service_permits w" using fin(9) fresh(1) by (simp add: release_permit_def owned_service_def split: if_splits)
    then have "answered 1 (?w v) w'" using fin(2-8) by (simp add: answered_def)
    with fin(1) f step show ?thesis by auto
  qed
  note d = handle_request_def [of env clock pl input w, unfolded Let_def g prod.case]
  show ?thesis
  proof (cases "screen_request env pl (in_request input) ow")
    case (Pair s ow1)
    show ?thesis
    proof (cases s)
      case (Inl x)
      obtain y e where x: "x = (y, e)" by (metis surj_pair)
      have "screen_request env pl (in_request input) ow = (Inl (y, e), ow1)" using Pair Inl x by simp
      from this refused [OF screen_refusal_total [OF assms(1) this]] show ?thesis unfolding d by simp
    next
      case (Inr sc)
      obtain b ow2 where acq: "acquire_body env pl input sc ow1 = Some (b, ow2)"
        using acquire_ends [OF assms(3), of env sc ow1] by auto
      show ?thesis
      proof (cases b)
        case (Inl x)
        obtain y e where x: "x = (y, e)" by (metis surj_pair)
        have "acquire_body env pl input sc ow1 = Some (Inl (y, e), ow2)" using acq Inl x by simp
        from this refused [OF acquire_refusal_total [OF assms(1) this]] Pair Inr show ?thesis unfolding d by simp
      next
        case (Inr body)
        obtain r iv w' where "serve_screened env clock pl input sc body g (?w ow2) = Some (Some r, iv, w')" "answered 1 (?w ow2) w'"
          using serve_books [OF assms(1) fresh(1,2) assms(2)] by blast
        then show ?thesis using Pair \<open>s = Inr sc\<close> acq Inr step unfolding d by auto
      qed
    qed
  qed
qed

lemma finish_closes:
  fixes env :: "'h runtime_env"
  assumes "hyper_laws (re_hyper env)" "ld_close_after_response d"
    and "finish_answer env clock pl now d answer g w = (Some r, w')"
  shows "hm_get_all (re_hyper env) (hr_headers r) ''connection'' = [''close'']"
proof -
  obtain response provenance where a: "answer = Some (response, provenance)"
    using assms(3) by (cases answer) (auto simp: finish_answer_def split: prod.splits)
  obtain d' sem a' ow where f: "finish_accounts (re_sinks env) (pl_config pl) (pl_conn_id pl) now d g (owned_service pl w) (pw_activity w)
      (pw_ops w) = (d', sem, a', ow)" by (metis prod_cases4)
  have "ld_close_after_response d'"
    using f assms(2) by (auto simp: finish_accounts_def with_transport_termination_def with_graceful_drain_def close_after_response_def
        KEEP_ALIVE_def Let_def split: if_splits prod.splits)
  moreover obtain r0 where "r = apply_http1_disposition (re_hyper env) r0 d'"
    using assms(3) unfolding finish_answer_def guard_finish_def a f by (auto simp: Let_def)
  ultimately show ?thesis
    by (simp add: apply_http1_disposition_def hyper_reads [OF assms(1)] eq_ignore_ascii_case_def)
qed

lemma serve_screened_Some:
  assumes "serve_screened env clock pl input sc body g w = Some (r, iv, w')"
  obtains request capability streamed timeout w1 g' w2 d w3 where
    "streamed = (case sc_policy sc of StreamBody _ \<Rightarrow> True | _ \<Rightarrow> False)"
    "invoke_service env pl (in_now input) request capability streamed timeout g w1 = Some (iv, g', w2)"
    "settle_body env pl input streamed (iv_body iv) (w2\<lparr>pw_requests := (pw_requests w2)(in_id input \<mapsto> iv_body iv)\<rparr>) = (d, w3)"
    "finish_answer env clock pl (in_finished input) d (iv_answer iv) g' w3 = (r, w')"
  using assms unfolding serve_screened_def Let_def by (auto split: prod.splits option.splits)

text \<open>After a call no interim response and no tunnel can follow the answer.\<close>

lemma invoke_commits:
  assumes "invoke_service env pl now request capability streamed timeout g w = Some (iv, g', w')"
  shows "(\<forall>i. iv_interim iv = Some i \<longrightarrow> ii_committed i) \<and> (\<forall>s. iv_tunnel iv = Some s \<longrightarrow> ts_committed s)"
  using assms
  by (auto simp: invoke_service_def mark_committed_def tunnel_mark_committed_def Let_def split: prod.splits if_splits)

text \<open>Trailers are sent only when they are negotiated and declared.\<close>

lemma trailers_negotiated:
  assumes "h1_trailer_policy cs ctx conn_id is_head allowed r w = (r', synthesize, w')"
  shows "has_response_trailers r' \<longleftrightarrow> synthesize"
    "synthesize \<Longrightarrow> r' = r \<and> allowed \<and> \<not> is_head \<and> permits_payload_body (rh_status (rsp_head r)) \<and> response_trailer_declaration r \<noteq> None"
  using assms
  by (auto simp: h1_trailer_policy_def strip_response_trailers_def has_response_trailers_def stream_has_trailers_def
      take_trailer_declaration_def take_trailer_future_def split: if_splits option.splits response_body.splits)

text \<open>
  A call that is dropped while it still owns a network body leaves the body abandoned before the pipeline
  looks at it, so that the slow body is reported as a slow handler.
\<close>

lemma slow_body_reported_as_handler:
  assumes "rb_inner b = Some (Incoming s)"
  shows "call_elapsed env pl is_head streamed (rb_shared (drop_body b)) w =
    (runtime_answer (service_error_to_response (re_hyper env) (service_timeout ''handler timed out'') is_head (pl_config pl)),
     rb_shared (drop_body b),
     w\<lparr>pw_ops := emit_plain (re_sinks env) (pl_ops pl) Warn ServiceTimeout ''handler timed out'' (pw_ops w)\<rparr>)"
proof -
  have "\<not> is_body_active (rb_shared (drop_body b))"
    using assms by (auto simp: drop_body_def is_body_active_def mark_abandoned_def compare_exchange_def Let_def
        cancel_def notify_body_def body_state_def state_from_u8_def split: if_splits prod.splits)
  then show ?thesis by (simp add: call_elapsed_def)
qed

section \<open>Properties\<close>

text \<open>
  C6: Only validated requests reach a service.  A request that passes the screening has the head that the
  intake accepted within the owned ceilings, framing that is not ambiguous, a declared length within the
  limit of the service and the ceiling of the server, no expectation other than 100-continue, and,
  where the policy is to reject bodies (or the method is TRACE), no body and no wish to send one; its
  connection metadata have the endpoints and scheme of the transport.
\<close>

theorem screened_request_sound:
  fixes env :: "'h runtime_env"
  assumes "header_map_laws (wr_headers r)" and "screen_request env pl r w = (Inr sc, w')"
  shows "convert_head (to_str_of env) r (target_ceiling (pl_config pl)) (h1_http1_request_target_mode (pl_config pl))
       (header_ceiling (pl_config pl)) (cc_scheme (pl_context pl)) = Inr (sc_head sc)
    \<and> validate_body_framing (to_str_of env) (wr_headers r) = Inr ()
    \<and> sc_declared sc = declared_length (to_str_of env) (wr_headers r)
    \<and> sc_has_body sc = request_has_body (to_str_of env) (wr_headers r)
    \<and> (\<forall>limit. policy_max_bytes (sc_policy sc) = Some limit \<longrightarrow>
         (\<forall>len. sc_declared sc = Some len \<longrightarrow> len \<le> limit)
         \<and> (\<exists>m. policy_max_bytes (svc_policy (pl_service pl) (sc_head sc)) = Some m \<and> limit \<le> m)
         \<and> (\<forall>ceiling. pl_max_body_bytes pl = Some ceiling \<longrightarrow> limit \<le> ceiling))
    \<and> (\<forall>v\<in>set (wh_get_all (wr_headers r) ''expect''). expect_fine (to_str_of env) v)
    \<and> (sc_policy sc = RejectBody \<longrightarrow>
         \<not> sc_has_body sc \<and> (\<forall>v\<in>set (wh_get_all (wr_headers r) ''expect''). \<not> asks_continue (to_str_of env) v))
    \<and> (method_str (rq_method (sc_head sc)) = ''TRACE'' \<and> rq_version (sc_head sc) \<noteq> Http2 \<longrightarrow> \<not> sc_has_body sc)
    \<and> ci_remote_addr (sc_info sc) = cc_remote_addr (pl_context pl) \<and> ci_scheme (sc_info sc) = cc_scheme (pl_context pl)"
proof -
  let ?policy = "select_body_policy_with_ceiling (svc_policy (pl_service pl) (sc_head sc)) (pl_max_body_bytes pl)"
  from assms(2) obtain info w1 w2 where
      c: "convert_head (to_str_of env) r (target_ceiling (pl_config pl)) (h1_http1_request_target_mode (pl_config pl))
      (header_ceiling (pl_config pl)) (cc_scheme (pl_context pl)) = Inr (sc_head sc)"
    and t: "\<not> trace_refused (to_str_of env) (wr_headers r) (sc_head sc)"
    and f: "apply_forwarded_policy (re_sinks env) (pl_ops pl) (cc_connection_info (pl_context pl)) (sc_head sc) (pl_config pl)
       (pl_context pl) (pl_conn_id pl) w1 = (info, w2)"
    and b: "screen_body env pl (wr_headers r) (sc_head sc) info ?policy w2 = (Inr sc, w')"
    by (rule screen_request_Inr)
  note ok = screen_body_Inr [OF b]
  have sc: "sc_policy sc = ?policy" "sc_info sc = info" "sc_declared sc = declared_length (to_str_of env) (wr_headers r)"
      "sc_has_body sc = request_has_body (to_str_of env) (wr_headers r)"
    using ok(3) by (metis screened.select_convs)+
  have "ci_remote_addr info = cc_remote_addr (pl_context pl)" "ci_scheme info = cc_scheme (pl_context pl)"
    using forwarded_policy_cases [OF f] by (auto simp: cc_connection_info_def with_forwarded_effective_def)
  then show ?thesis
    using c ok(1,4-6) sc policy_below_ceiling trace_without_body [OF assms(1) ok(1) t] by (simp add: sc) blast
qed

text \<open>
  C5: Every request whose body read and service call end is answered once and leaves nothing behind.
  Whatever a request is and whatever the service does with it (refuse, fail, panic, outlast its time, keep
  the body, take over the connection), provided that a call without a deadline ends, that the read of a
  buffered body without a deadline ends, and that the length of the response is
  representable, the pipeline produces one response; afterwards the count of requests in flight and the free
  service permits are as before, one more response is outstanding and one more request counted, every body
  the service kept has its tracker and is counted as deferred, and every tunnel task is counted.
\<close>

theorem request_answered_once:
  fixes env :: "'h runtime_env"
  assumes "hyper_laws (re_hyper env)"
    and "\<forall>request capability timeout. call_sound timeout (svc_call (pl_service pl) request capability timeout)"
    and "read_ends pl input"
  shows "\<exists>r w'. handle_request env clock pl input w = Some (Some r, w') \<and> answered 0 w w'"
  using handle_answered [OF assms] .

text \<open>
  C8: No unread body is mistaken for the next request.  When the call of a service on a streamed body is over,
  a body that was dropped unread or failed closes the connection with the response, a body that the
  service kept is supervised until it ends, with the rest of its time as deadline, and only a complete body
  leaves the connection open without more; and no interim response or tunnel can follow the answer.
\<close>

theorem unread_body_closes:
  fixes env :: "'h runtime_env"
  assumes "hyper_laws (re_hyper env)" "sc_policy sc = StreamBody limit"
    and "serve_screened env clock pl input sc body g w = Some (Some r, iv, w')"
  shows "(body_state (iv_body iv) \<in> {Abandoned, Failed} \<longrightarrow>
           hm_get_all (re_hyper env) (hr_headers r) ''connection'' = [''close''])
    \<and> (body_state (iv_body iv) = Active \<longrightarrow> in_id input \<in> set (pw_trackers w')
        \<and> (\<forall>t. pl_body_read_timeout pl = Some t \<longrightarrow>
             (in_id input, max (in_started input + t) (in_deferred_at input)) \<in> set (pw_watchdogs w')))
    \<and> pw_requests w' (in_id input) = Some (iv_body iv)
    \<and> (\<forall>i. iv_interim iv = Some i \<longrightarrow> ii_committed i) \<and> (\<forall>s. iv_tunnel iv = Some s \<longrightarrow> ts_committed s)"
proof -
  from assms(3) obtain request capability timeout w1 g' w2 d w3 where
      i: "invoke_service env pl (in_now input) request capability True timeout g w1 = Some (iv, g', w2)"
    and s: "settle_body env pl input True (iv_body iv) (w2\<lparr>pw_requests := (pw_requests w2)(in_id input \<mapsto> iv_body iv)\<rparr>) = (d, w3)"
    and f: "finish_answer env clock pl (in_finished input) d (iv_answer iv) g' w3 = (Some r, w')"
    by (rule serve_screened_Some) (use assms(2) in auto)
  have same: "pw_trackers w' = pw_trackers w3" "pw_watchdogs w' = pw_watchdogs w3" "pw_requests w' = pw_requests w3"
    using f by (auto simp: finish_answer_def set_service_def Let_def split: option.splits prod.splits if_splits)
  have "ld_close_after_response d" if "body_state (iv_body iv) \<in> {Abandoned, Failed}"
    using s that by (auto simp: settle_body_def close_and_cancel_body_def)
  then have closes: "body_state (iv_body iv) \<in> {Abandoned, Failed} \<longrightarrow> hm_get_all (re_hyper env) (hr_headers r) ''connection'' = [''close'']"
    using finish_closes [OF assms(1) _ f] by blast
  have "pw_requests w3 (in_id input) = Some (iv_body iv)"
    using s by (auto simp: settle_body_def delegate_body_def split: body_lifecycle_state.splits)
  moreover have "body_state (iv_body iv) = Active \<longrightarrow> in_id input \<in> set (pw_trackers w3)
        \<and> (\<forall>t. pl_body_read_timeout pl = Some t \<longrightarrow>
             (in_id input, max (in_started input + t) (in_deferred_at input)) \<in> set (pw_watchdogs w3))"
    using s by (auto simp: settle_body_def delegate_body_def)
  ultimately show ?thesis using closes invoke_commits [OF i] by (simp add: same)
qed

lemma finish_runtime_status:
  fixes env :: "'h runtime_env"
  assumes "finish_answer env clock pl now d (runtime_answer (Some x)) g w = (Some r, w')"
  shows "hr_status r = hr_status x"
  using assms
  by (auto simp: finish_answer_def runtime_answer_def guard_finish_def finalize_runtime_response_def apply_http1_disposition_def
      Let_def split: prod.splits if_splits)

lemma screen_body_rejects:
  assumes "validate_body_framing (to_str_of env) headers = Inr ()"
    and "\<forall>v\<in>set (wh_get_all headers ''expect''). expect_fine (to_str_of env) v"
    and "request_has_body (to_str_of env) headers \<or> (\<exists>v\<in>set (wh_get_all headers ''expect''). asks_continue (to_str_of env) v)"
  shows "\<exists>w'. screen_body env pl headers head info RejectBody w = (Inl (rejected_413 env pl head), w')"
proof -
  obtain continue unknown where e: "scan_expects (to_str_of env) (wh_get_all headers ''expect'') False = (continue, unknown)"
    by (metis surj_pair)
  from scan_expects_exact [OF e] assms(2,3) have "\<not> unknown" "request_has_body (to_str_of env) headers \<or> continue" by auto
  then show ?thesis using assms(1)
    by (cases "declared_length (to_str_of env) headers"; cases continue) (simp_all add: screen_body_def e Let_def)
qed

lemma service_update_fields:
  "pl_service (pl\<lparr>pl_service := svc\<rparr>) = svc" "pl_config (pl\<lparr>pl_service := svc\<rparr>) = pl_config pl"
  "pl_max_body_bytes (pl\<lparr>pl_service := svc\<rparr>) = pl_max_body_bytes pl" "pl_context (pl\<lparr>pl_service := svc\<rparr>) = pl_context pl"
  "pl_conn_id (pl\<lparr>pl_service := svc\<rparr>) = pl_conn_id pl" "pl_ops (pl\<lparr>pl_service := svc\<rparr>) = pl_ops pl"
  by simp_all

lemma service_irrelevant:
  fixes env :: "'h runtime_env"
  shows "finish_answer env clock (pl\<lparr>pl_service := svc\<rparr>) now d answer g w = finish_answer env clock pl now d answer g w"
  unfolding finish_answer_def owned_service_def set_service_def service_update_fields ..

lemma screening_ignores_calls:
  assumes "svc_policy svc = svc_policy (pl_service pl)"
  shows "screen_request env (pl\<lparr>pl_service := svc\<rparr>) r w = screen_request env pl r w"
  unfolding screen_request_def screen_body_def framing_refused_def length_refused_def rejected_413_def error_policy_of_def
    service_update_fields assms ..

text \<open>
  C7: A body that the policy rejects never reaches the service.  When the effective policy for a valid request
  is to reject bodies and the request carries one, or asks with \<^verbatim>\<open>Expect: 100-continue\<close> to send one, it is
  answered with 413 and \<^verbatim>\<open>Connection: close\<close>, so that the unread bytes are not read as a request, and
  the answer and all its effects are the same whatever the service would do when called.
\<close>

theorem rejected_body_refused:
  fixes env :: "'h runtime_env"
  assumes "hyper_laws (re_hyper env)"
    and "convert_head (to_str_of env) (in_request input) (target_ceiling (pl_config pl)) (h1_http1_request_target_mode (pl_config pl))
      (header_ceiling (pl_config pl)) (cc_scheme (pl_context pl)) = Inr head"
    and "\<not> trace_refused (to_str_of env) (wr_headers (in_request input)) head"
    and "validate_body_framing (to_str_of env) (wr_headers (in_request input)) = Inr ()"
    and "select_body_policy_with_ceiling (svc_policy (pl_service pl) head) (pl_max_body_bytes pl) = RejectBody"
    and "\<forall>v\<in>set (wh_get_all (wr_headers (in_request input)) ''expect''). expect_fine (to_str_of env) v"
    and "request_has_body (to_str_of env) (wr_headers (in_request input))
      \<or> (\<exists>v\<in>set (wh_get_all (wr_headers (in_request input)) ''expect''). asks_continue (to_str_of env) v)"
  shows "\<exists>r w'. handle_request env clock pl input w = Some (Some r, w') \<and> hr_status r = 413
    \<and> hm_get_all (re_hyper env) (hr_headers r) ''connection'' = [''close'']
    \<and> (\<forall>svc. svc_policy svc = svc_policy (pl_service pl) \<longrightarrow>
         handle_request env clock (pl\<lparr>pl_service := svc\<rparr>) input w = Some (Some r, w'))"
proof -
  obtain g a ow where g: "guard_new (pw_activity w) (pw_ops w) = (g, a, ow)" by (metis prod_cases3)
  obtain info ow1 where f: "apply_forwarded_policy (re_sinks env) (pl_ops pl) (cc_connection_info (pl_context pl)) head (pl_config pl)
       (pl_context pl) (pl_conn_id pl) ow = (info, ow1)" by (metis surj_pair)
  obtain ow2 where b: "screen_body env pl (wr_headers (in_request input)) head info RejectBody ow1 = (Inl (rejected_413 env pl head), ow2)"
    using screen_body_rejects [OF assms(4,6,7)] by blast
  have s: "screen_request env pl (in_request input) ow = (Inl (rejected_413 env pl head), ow2)"
    using assms(2,3,5) f b by (simp add: screen_request_def convert_request_head_def)
  obtain x where x: "present_runtime_rejection (re_hyper env) 413 RequestBodyRejectedKind (is_head_request head) (pl_config pl) = Some x"
      "hr_status x = 413"
    by (rule runtime_rejection_framed [OF assms(1), of 413 RequestBodyRejectedKind "is_head_request head" "pl_config pl"])
      (simp_all add: rejection_framed_def)
  let ?w = "w\<lparr>pw_activity := a, pw_ops := ow2\<rparr>"
  obtain y w' where fin: "finish_answer env clock pl (in_finished input) close_and_cancel_body (runtime_answer (Some x)) g ?w = (y, w')"
    by (metis surj_pair)
  obtain r where r: "y = Some r" using finish_books(1) [OF fin _ assms(1)] by (auto simp: has_answer_simps)
  have "ld_close_after_response close_and_cancel_body" by (simp add: close_and_cancel_body_def)
  note closes = finish_closes [OF assms(1) this fin [unfolded r]]
  have run: "handle_request env clock (pl\<lparr>pl_service := svc\<rparr>) input w = Some (Some r, w')" if "svc_policy svc = svc_policy (pl_service pl)" for svc
    using s x fin r by (simp add: handle_request_def g screening_ignores_calls [OF that] rejected_413_def service_irrelevant)
  from run [of "pl_service pl"] have "handle_request env clock pl input w = Some (Some r, w')" by simp
  with run closes finish_runtime_status [OF fin [unfolded r]] x(2) show ?thesis by auto
qed

section \<open>Witnesses\<close>

definition sample_env :: "(string \<times> bytes) list runtime_env" where
  [rust_eval]: "sample_env = \<lparr>re_sinks = sample_sinks, re_hyper = list_hyper, re_dates = sample_dates, re_producers = (\<lambda>_. ([], 0, TrailersPanic))\<rparr>"

text \<open>A service that streams bodies, refuses every request and drops its body.\<close>

definition refusing_service :: "(unit, nat) service" where
  [rust_eval]: "refusing_service =
     \<lparr>svc_policy = (\<lambda>head. if method_str (rq_method head) = ''POST'' then StreamBody 100 else RejectBody),
      svc_call = (\<lambda>request capability timeout.
        \<lparr>sr_end = CallReturns (Inl (service_rejected 404 ''no'')), sr_body = rb_shared (drop_body (req_body request)),
         sr_interim = rc_interim (req_context request), sr_accept = None\<rparr>)\<rparr>"

definition sample_pipeline :: "(unit, nat) pipeline_state" where
  [rust_eval]: "sample_pipeline =
     \<lparr>pl_service = refusing_service, pl_config = sample_policy, pl_stream_chunk_size = 8, pl_handler_timeout = Some 5,
      pl_body_read_timeout = Some 9, pl_max_body_bytes = Some 50, pl_context = direct_context, pl_conn_id = 1,
      pl_ops = sample_context\<rparr>"

definition sample_pipeline_world :: "(unit, nat) pipeline_world" where
  [rust_eval]: "sample_pipeline_world =
     \<lparr>pw_activity = activity_new sample_context 0, pw_service_permits = Some 1, pw_file_permits = 1, pw_tunnel_permits = None,
      pw_tunnels = [], pw_registry = [], pw_requests = (\<lambda>_. None), pw_trackers = [], pw_watchdogs = [], pw_ops = sample_world\<rparr>"

definition sample_input :: "(string \<times> bytes) list \<Rightarrow> unit request_input" where
  [rust_eval]: "sample_input hs =
     \<lparr>in_request = sample_wire_request\<lparr>wr_headers := list_headers hs\<rparr>, in_frames = [DataFrame ''abc''], in_end_stream = False,
      in_upgrade = None, in_id = 7, in_read_stalls = False, in_started = 0, in_deferred_at = 3, in_finished = 4, in_now = 5\<rparr>"

lemma sample_calls: "\<forall>request capability timeout. call_sound timeout (svc_call (pl_service sample_pipeline) request capability timeout)"
  by (simp add: call_sound_def sample_pipeline_def refusing_service_def)

lemma sample_read: "read_ends sample_pipeline (sample_input hs)"
  by (simp add: read_ends_def sample_input_def)

lemma sample_env_laws: "hyper_laws (re_hyper sample_env)"
  by (simp add: sample_env_def list_hyper_laws)

theorem request_answered_once_witness:
  "\<exists>r w'. handle_request sample_env (\<lambda>_. 7) sample_pipeline (sample_input []) sample_pipeline_world = Some (Some r, w')
     \<and> ca_in_flight (pw_activity w') = 0 \<and> ca_completed (pw_activity w') = 1 \<and> pw_service_permits w' = Some 1"
proof -
  obtain r w' where "handle_request sample_env (\<lambda>_. 7) sample_pipeline (sample_input []) sample_pipeline_world = Some (Some r, w')"
      "answered 0 sample_pipeline_world w'"
    using request_answered_once [OF sample_env_laws sample_calls sample_read] by blast
  then show ?thesis by (simp add: answered_def sample_pipeline_world_def activity_new_def)
qed

lemma sample_head_of:
  assumes "hs = [] \<or> hs = [(''content-length'', ''3'')]"
  shows "\<exists>head. convert_head (to_str_of sample_env) (in_request (sample_input hs)) (target_ceiling (pl_config sample_pipeline))
      (h1_http1_request_target_mode (pl_config sample_pipeline)) (header_ceiling (pl_config sample_pipeline))
      (cc_scheme (pl_context sample_pipeline)) = Inr head \<and> rq_method head = Method ''GET''"
proof -
  let ?r = "in_request (sample_input hs)" and ?c = "pl_config sample_pipeline"
  have "collect_head_fields (header_ceiling ?c) 0 block_new (wh_iter (wr_headers ?r)) \<in> range Inr"
    using assms by (elim disjE) (simp_all add: rust_eval Let_def)
  moreover have "head_authority (to_str_of sample_env) ?r = Inr None"
    using assms by (elim disjE) (simp_all add: rust_eval Let_def)
  moreover have "head_target ?r (Method ''GET'') Http11 = Inr (parse_origin_form ''/a?b'')" by (simp add: rust_eval Let_def)
  moreover have "check_target_form ?r (Method ''GET'') Http11 (h1_http1_request_target_mode ?c) (cc_scheme (pl_context sample_pipeline)) = Inr ()"
    "check_target_length ?r (target_ceiling ?c) = Inr ()" "head_method (wr_method ?r) = Inr (Method ''GET'')" "head_version (wr_version ?r) = Inr Http11"
    by (simp_all add: rust_eval Let_def)
  ultimately show ?thesis by (auto simp: convert_head_def request_head_new_with_authority_def)
qed

theorem rejected_body_refused_witness:
  "\<exists>r w'. handle_request sample_env (\<lambda>_. 7) sample_pipeline (sample_input [(''content-length'', ''3'')]) sample_pipeline_world = Some (Some r, w')
     \<and> hr_status r = 413 \<and> hm_get_all list_hyper (hr_headers r) ''connection'' = [''close'']"
proof -
  let ?i = "sample_input [(''content-length'', ''3'')]"
  obtain head where h: "convert_head (to_str_of sample_env) (in_request ?i) (target_ceiling (pl_config sample_pipeline))
      (h1_http1_request_target_mode (pl_config sample_pipeline)) (header_ceiling (pl_config sample_pipeline))
      (cc_scheme (pl_context sample_pipeline)) = Inr head" "rq_method head = Method ''GET''"
    using sample_head_of by blast
  have t: "\<not> trace_refused (to_str_of sample_env) (wr_headers (in_request ?i)) head" using h(2) by (simp add: trace_refused_def)
  have f: "validate_body_framing (to_str_of sample_env) (wr_headers (in_request ?i)) = Inr ()" by (simp add: rust_eval Let_def)
  have p: "select_body_policy_with_ceiling (svc_policy (pl_service sample_pipeline) head) (pl_max_body_bytes sample_pipeline) = RejectBody"
    using h(2) by (simp add: sample_pipeline_def refusing_service_def select_body_policy_with_ceiling_def)
  have e: "\<forall>v\<in>set (wh_get_all (wr_headers (in_request ?i)) ''expect''). expect_fine (to_str_of sample_env) v"
    by (simp add: rust_eval Let_def)
  have b: "request_has_body (to_str_of sample_env) (wr_headers (in_request ?i))
      \<or> (\<exists>v\<in>set (wh_get_all (wr_headers (in_request ?i)) ''expect''). asks_continue (to_str_of sample_env) v)"
    by (simp add: rust_eval Let_def)
  have "re_hyper sample_env = list_hyper" by (simp add: sample_env_def)
  with rejected_body_refused [OF sample_env_laws h(1) t f p e b, of "\<lambda>_. 7" sample_pipeline_world] show ?thesis by auto
qed

theorem screened_request_sound_witness:
  "\<exists>sc w'. screen_request sample_env sample_pipeline (in_request (sample_input [])) sample_world = (Inr sc, w')
     \<and> sc_policy sc = RejectBody \<and> \<not> sc_has_body sc \<and> ci_remote_addr (sc_info sc) = cc_remote_addr direct_context"
proof -
  let ?r = "in_request (sample_input [])"
  obtain head where h: "convert_head (to_str_of sample_env) ?r (target_ceiling (pl_config sample_pipeline))
      (h1_http1_request_target_mode (pl_config sample_pipeline)) (header_ceiling (pl_config sample_pipeline))
      (cc_scheme (pl_context sample_pipeline)) = Inr head" "rq_method head = Method ''GET''"
    using sample_head_of by blast
  have t: "\<not> trace_refused (to_str_of sample_env) (wr_headers ?r) head" using h(2) by (simp add: trace_refused_def)
  obtain info w1 where f: "apply_forwarded_policy (re_sinks sample_env) (pl_ops sample_pipeline) (cc_connection_info (pl_context sample_pipeline))
      head (pl_config sample_pipeline) (pl_context sample_pipeline) (pl_conn_id sample_pipeline) sample_world = (info, w1)" by (metis surj_pair)
  have p: "select_body_policy_with_ceiling (svc_policy (pl_service sample_pipeline) head) (pl_max_body_bytes sample_pipeline) = RejectBody"
    using h(2) by (simp add: sample_pipeline_def refusing_service_def select_body_policy_with_ceiling_def)
  obtain sc w2 where b: "screen_body sample_env sample_pipeline (wr_headers ?r) head info RejectBody w1 = (Inr sc, w2)" "sc_policy sc = RejectBody"
    by (simp add: screen_body_def validate_body_framing_def declared_length_def request_has_body_def sample_input_def list_headers_def Let_def)
  have s: "screen_request sample_env sample_pipeline ?r sample_world = (Inr sc, w2)"
    using h t f p b by (simp add: screen_request_def convert_request_head_def)
  have l: "header_map_laws (wr_headers ?r)" by (simp add: sample_input_def list_headers_laws)
  have "pl_context sample_pipeline = direct_context" by (simp add: sample_pipeline_def)
  with screened_request_sound [OF l s] s b(2) show ?thesis by auto
qed

definition posted :: screened where
  [rust_eval]: "posted = \<lparr>sc_head = sample_head, sc_info = cc_connection_info direct_context, sc_policy = StreamBody 50, sc_declared = Some 3,
     sc_has_body = True\<rparr>"

theorem unread_body_closes_witness:
  "\<exists>r iv w'. serve_screened sample_env (\<lambda>_. 7) sample_pipeline (sample_input []) posted
        (request_body_of (StreamBody 50) (Some 3) [DataFrame ''abc''] False) \<lparr>ig_service_permit = False, ig_finished = False\<rparr>
        sample_pipeline_world = Some (Some r, iv, w')
     \<and> hm_get_all list_hyper (hr_headers r) ''connection'' = [''close'']"
proof -
  let ?b = "request_body_of (StreamBody 50) (Some 3) [DataFrame ''abc''] False"
  let ?g = "\<lparr>ig_service_permit = False, ig_finished = False\<rparr>"
  obtain r iv w' where s: "serve_screened sample_env (\<lambda>_. 7) sample_pipeline (sample_input []) posted ?b ?g sample_pipeline_world = Some (Some r, iv, w')"
    using serve_books [OF sample_env_laws _ _ sample_calls, of ?g] by (metis in_flight_guard.select_convs)
  have "body_state (rb_shared (drop_body ?b)) = Abandoned" by (simp add: rust_eval Let_def)
  moreover obtain request capability streamed timeout w1 g' w2 where
    "invoke_service sample_env sample_pipeline (in_now (sample_input [])) request capability streamed timeout ?g w1 = Some (iv, g', w2)"
    "req_body request = ?b"
    using s unfolding serve_screened_def Let_def
    by (auto simp: build_request_with_tunnel_def request_new_def request_new_with_context_def split: prod.splits option.splits)
  then have "iv_body iv = rb_shared (drop_body ?b)"
    by (auto simp: invoke_service_def settle_call_def sample_pipeline_def refusing_service_def Let_def split: prod.splits if_splits)
  ultimately have "body_state (iv_body iv) \<in> {Abandoned, Failed}" by simp
  moreover have "sc_policy posted = StreamBody 50" by (simp add: posted_def)
  moreover have "re_hyper sample_env = list_hyper" by (simp add: sample_env_def)
  ultimately show ?thesis using unread_body_closes [OF sample_env_laws _ s] s by auto
qed

end
