(* ===== verification/Core_Config.thy ===== *)
theory Core_Config
  imports Config Static_Service
begin

text \<open>
  The configuration of the compatibility runtime: \<^verbatim>\<open>limits.rs\<close>, \<^verbatim>\<open>config.rs\<close> and
  \<^verbatim>\<open>server/static_service.rs\<close> of \<^verbatim>\<open>eggserve-core/src\<close>.

  The limits extend the shared values of \<open>Runtime_Limits\<close> by the budgets of static serving; the operator's
  response metadata is validated before a service is built from it.  The service is the one of
  \<open>Static_Service\<close>, built from a validated configuration.  A \<^verbatim>\<open>usize\<close> is a \<^typ>\<open>nat\<close>; where the code adds
  lengths with \<^verbatim>\<open>checked_add\<close> the bound is written out.
\<close>

section \<open>Limits\<close>

definition MAX_LISTING_RESPONSE_BYTES :: nat where
  [rust_eval]: "MAX_LISTING_RESPONSE_BYTES = 10 * 1024 * 1024"

definition MAX_LISTING_ENTRIES :: nat where
  [rust_eval]: "MAX_LISTING_ENTRIES = 10 * 1024 * 1024"

definition DEFAULT_MAX_EXTRA_HEADERS :: nat where
  [rust_eval]: "DEFAULT_MAX_EXTRA_HEADERS = 32"

definition DEFAULT_MAX_EXTRA_HEADER_BYTES :: nat where
  [rust_eval]: "DEFAULT_MAX_EXTRA_HEADER_BYTES = 8 * 1024"

record limits =
  lm_max_connections :: nat
  lm_max_file_streams :: nat
  lm_max_request_body_bytes :: u64
  lm_header_read_timeout :: duration
  lm_tls_handshake_timeout :: duration
  lm_connection_total_timeout :: duration
  lm_handler_timeout :: duration
  lm_body_read_timeout :: duration
  lm_graceful_shutdown_timeout :: duration
  lm_max_listing_entries :: nat
  lm_max_listing_response_bytes :: nat
  lm_stream_chunk_size :: nat
  lm_max_extra_headers :: nat
  lm_max_extra_header_bytes :: nat
  lm_max_buf_size :: nat
  lm_max_headers :: nat
  lm_max_header_bytes :: nat
  lm_max_request_target_bytes :: nat
  lm_max_in_flight_requests :: nat
  lm_keep_alive_idle_timeout :: duration
  lm_max_requests_per_connection :: "u64 option"
  lm_response_write_timeout :: duration

definition limits_default :: limits where
  [rust_eval]: "limits_default =
     \<lparr>lm_max_connections = DEFAULT_MAX_CONNECTIONS,
      lm_max_file_streams = DEFAULT_MAX_FILE_STREAMS,
      lm_max_request_body_bytes = DEFAULT_MAX_REQUEST_BODY_BYTES,
      lm_header_read_timeout = DEFAULT_HEADER_READ_TIMEOUT,
      lm_tls_handshake_timeout = DEFAULT_TLS_HANDSHAKE_TIMEOUT,
      lm_connection_total_timeout = DEFAULT_CONNECTION_TOTAL_TIMEOUT,
      lm_handler_timeout = DEFAULT_HANDLER_TIMEOUT,
      lm_body_read_timeout = DEFAULT_BODY_READ_TIMEOUT,
      lm_graceful_shutdown_timeout = DEFAULT_GRACEFUL_SHUTDOWN_TIMEOUT,
      lm_max_listing_entries = DEFAULT_MAX_LISTING_ENTRIES,
      lm_max_listing_response_bytes = DEFAULT_MAX_LISTING_RESPONSE_BYTES,
      lm_stream_chunk_size = DEFAULT_STREAM_CHUNK_SIZE,
      lm_max_extra_headers = DEFAULT_MAX_EXTRA_HEADERS,
      lm_max_extra_header_bytes = DEFAULT_MAX_EXTRA_HEADER_BYTES,
      lm_max_buf_size = DEFAULT_MAX_BUF_SIZE,
      lm_max_headers = DEFAULT_MAX_HEADERS,
      lm_max_header_bytes = DEFAULT_MAX_HEADER_BYTES,
      lm_max_request_target_bytes = DEFAULT_MAX_REQUEST_TARGET_BYTES,
      lm_max_in_flight_requests = DEFAULT_MAX_IN_FLIGHT_REQUESTS,
      lm_keep_alive_idle_timeout = DEFAULT_KEEP_ALIVE_IDLE_TIMEOUT,
      lm_max_requests_per_connection = None,
      lm_response_write_timeout = DEFAULT_RESPONSE_WRITE_TIMEOUT\<rparr>"

text \<open>\<^verbatim>\<open>From<&Limits> for SharedRuntimeValues\<close>: static serving has no tunnel budget of its own.\<close>

definition limits_shared :: "limits \<Rightarrow> shared_runtime_values" where
  [rust_eval]: "limits_shared l =
     \<lparr>sv_max_connections = lm_max_connections l,
      sv_max_file_streams = lm_max_file_streams l,
      sv_max_request_body_bytes = lm_max_request_body_bytes l,
      sv_header_read_timeout = lm_header_read_timeout l,
      sv_tls_handshake_timeout = lm_tls_handshake_timeout l,
      sv_connection_total_timeout = lm_connection_total_timeout l,
      sv_handler_timeout = lm_handler_timeout l,
      sv_body_read_timeout = lm_body_read_timeout l,
      sv_graceful_shutdown_timeout = lm_graceful_shutdown_timeout l,
      sv_stream_chunk_size = lm_stream_chunk_size l,
      sv_max_buf_size = lm_max_buf_size l,
      sv_max_headers = lm_max_headers l,
      sv_max_header_bytes = lm_max_header_bytes l,
      sv_max_request_target_bytes = lm_max_request_target_bytes l,
      sv_max_in_flight_requests = lm_max_in_flight_requests l,
      sv_keep_alive_idle_timeout = lm_keep_alive_idle_timeout l,
      sv_max_requests_per_connection = lm_max_requests_per_connection l,
      sv_response_write_timeout = lm_response_write_timeout l,
      sv_max_active_tunnels = DEFAULT_MAX_ACTIVE_TUNNELS\<rparr>"

text \<open>A \<^verbatim>\<open>LimitsError\<close> has the three parts of a violation, and its text.\<close>

definition check_budget :: "nat \<Rightarrow> string \<Rightarrow> string \<Rightarrow> nat \<Rightarrow> violation list" where
  [rust_eval]: "check_budget upper note field n =
     (if n = 0 then check_that False field ''0'' ''> 0''
      else check_that (n \<le> upper) field (dec n) (''<= '' @ dec upper @ note))"

definition limits_validate :: "nat \<Rightarrow> limits \<Rightarrow> violation list + unit" where
  [rust_eval]: "limits_validate max_permits l =
     (let errors = shared_validate max_permits (limits_shared l)
        @ check_budget MAX_LISTING_RESPONSE_BYTES '' (10 MiB)'' ''max_listing_response_bytes'' (lm_max_listing_response_bytes l)
        @ check_budget MAX_LISTING_ENTRIES '' (entries)'' ''max_listing_entries'' (lm_max_listing_entries l)
      in if errors = [] then Inr () else Inl errors)"

section \<open>Static metadata\<close>

definition representation_owned :: "string list" where
  [rust_eval]: "representation_owned =
     [''content-length'', ''date'', ''server'', ''content-type'', ''content-range'', ''accept-ranges'', ''etag'',
      ''last-modified'', ''x-content-type-options'']"

definition validate_extra_header :: "string \<times> string \<Rightarrow> string + unit" where
  [rust_eval]: "validate_extra_header nv =
     (let (name, v) = nv in
      and_then (map_err (\<lambda>e. ''invalid extra response header: '' @ header_error_text e) (header_name_new name)) (\<lambda>_.
      and_then (map_err (\<lambda>e. ''invalid extra response header: '' @ header_error_text e) (header_value_from_bytes v)) (\<lambda>canonical.
      if value_bytes canonical = [] then
        Inl (''invalid extra response header: value for '' @ name @ '' must contain non-whitespace'')
      else
        let lower = to_ascii_lowercase name in
        if is_hop_by_hop_header lower \<or> lower \<in> set representation_owned then
          Inl (''extra response header is runtime- or representation-owned: '' @ name)
        else Inr ())))"

fun validate_extra_headers :: "(string \<times> string) list \<Rightarrow> string + unit" where
  "validate_extra_headers [] = Inr ()"
| "validate_extra_headers (h # hs) = and_then (validate_extra_header h) (\<lambda>_. validate_extra_headers hs)"

text \<open>\<^verbatim>\<open>try_fold\<close> over the lengths with \<^verbatim>\<open>checked_add\<close>.\<close>

fun header_bytes_total :: "nat \<Rightarrow> (string \<times> string) list \<Rightarrow> nat option" where
  "header_bytes_total acc [] = Some acc"
| "header_bytes_total acc ((name, v) # hs) =
     Option.bind (Option.bind (checked_add_usize acc (length name)) (\<lambda>acc. checked_add_usize acc (length v)))
       (\<lambda>acc. header_bytes_total acc hs)"

definition validate_static_metadata_with_limits ::
  "string \<Rightarrow> (string \<times> string) list \<Rightarrow> nat \<Rightarrow> nat \<Rightarrow> string + unit" where
  [rust_eval]: "validate_static_metadata_with_limits default_content_type extra max_extra_headers max_extra_header_bytes =
     and_then (map_err (\<lambda>e. ''invalid default content type: '' @ header_error_text e)
         (header_value_from_bytes default_content_type)) (\<lambda>content_type.
      if value_bytes content_type = [] then
        Inl ''default content type must be a non-empty value without CR/LF/NUL''
      else if length extra > max_extra_headers then
        Inl (''too many extra response headers: maximum is '' @ dec max_extra_headers)
      else if (case header_bytes_total 0 extra of None \<Rightarrow> True | Some n \<Rightarrow> n > max_extra_header_bytes) then
        Inl (''extra response headers exceed maximum size of '' @ dec max_extra_header_bytes @ '' bytes'')
      else validate_extra_headers extra)"

definition validate_static_metadata :: "string \<Rightarrow> (string \<times> string) list \<Rightarrow> string + unit" where
  [rust_eval]: "validate_static_metadata default_content_type extra =
     validate_static_metadata_with_limits default_content_type extra
       (lm_max_extra_headers limits_default) (lm_max_extra_header_bytes limits_default)"

section \<open>The serving configuration\<close>

record serve_config =
  sc_bind :: socket_addr
  sc_root :: string
  sc_limits :: limits
  sc_static_policy :: static_policy
  sc_default_content_type :: string
  sc_extra_response_headers :: "(string \<times> string) list"
  sc_error_policy :: error_representation_policy

definition serve_config_default :: serve_config where
  [rust_eval]: "serve_config_default =
     \<lparr>sc_bind = \<lparr>sa_ip = V4 0x7F000001, sa_port = 8000\<rparr>, sc_root = ''.'', sc_limits = limits_default,
      sc_static_policy = static_policy_safe_default, sc_default_content_type = ''application/octet-stream'',
      sc_extra_response_headers = [], sc_error_policy = ErrorMinimal\<rparr>"

text \<open>\<^verbatim>\<open>IpAddr::is_unspecified\<close> and \<^verbatim>\<open>is_loopback\<close>.\<close>

fun is_unspecified :: "ip_addr \<Rightarrow> bool" where
  "is_unspecified (V4 a) \<longleftrightarrow> a = 0"
| "is_unspecified (V6 a) \<longleftrightarrow> a = 0"

fun is_loopback :: "ip_addr \<Rightarrow> bool" where
  "is_loopback (V4 a) \<longleftrightarrow> unat a div 2 ^ 24 = 127"
| "is_loopback (V6 a) \<longleftrightarrow> a = 1"

record startup_summary =
  sm_bind_is_unspecified :: bool
  sm_directory_listing_enabled :: bool
  sm_symlinks_followed :: bool
  sm_dotfiles_served :: bool
  sm_max_connections :: nat
  sm_max_file_streams :: nat

definition startup_summary_of :: "serve_config \<Rightarrow> startup_summary" where
  [rust_eval]: "startup_summary_of c =
     \<lparr>sm_bind_is_unspecified = is_unspecified (sa_ip (sc_bind c)),
      sm_directory_listing_enabled = (sp_directory_listing (sc_static_policy c) = ListingEnabled),
      sm_symlinks_followed = (sp_symlinks (sc_static_policy c) = SymlinkPolicyFollow),
      sm_dotfiles_served = (sp_dotfiles (sc_static_policy c) = ServeDotfiles),
      sm_max_connections = lm_max_connections (sc_limits c),
      sm_max_file_streams = lm_max_file_streams (sc_limits c)\<rparr>"

section \<open>The compatibility static service\<close>

datatype state_error = InvalidInput string | StateIo io_error

record serve_state =
  sst_config :: serve_config
  sst_secure_root :: secure_root

definition serve_state_new :: "'w os \<Rightarrow> serve_config \<Rightarrow> 'w \<Rightarrow> (state_error + serve_state) \<times> 'w" where
  [rust_eval]: "serve_state_new os config w =
     (case validate_static_metadata_with_limits (sc_default_content_type config) (sc_extra_response_headers config)
             (lm_max_extra_headers (sc_limits config)) (lm_max_extra_header_bytes (sc_limits config)) of
        Inl message \<Rightarrow> (Inl (InvalidInput message), w)
      | Inr _ \<Rightarrow>
          (case secure_root_new os (sc_root config) (sc_static_policy config) w of
             (Inl e, w) \<Rightarrow> (Inl (StateIo e), w)
           | (Inr root, w) \<Rightarrow> (Inr \<lparr>sst_config = config, sst_secure_root = root\<rparr>, w)))"

definition from_state :: "serve_state \<Rightarrow> static_service" where
  [rust_eval]: "from_state state =
     (let config = sst_config state in
      \<lparr>ss_root = sst_secure_root state, ss_default_content_type = sc_default_content_type config,
       ss_extra_response_headers = sc_extra_response_headers config, ss_error_policy = sc_error_policy config,
       ss_max_listing_entries = lm_max_listing_entries (sc_limits config),
       ss_max_listing_response_bytes = lm_max_listing_response_bytes (sc_limits config)\<rparr>)"

text \<open>The result carries the event the construction emits.\<close>

definition root_initialized :: "(u64 \<times> nat) option \<Rightarrow> event" where
  [rust_eval]: "root_initialized clock = event_new clock Info RootInitialized ''root initialized''"

definition from_serve_config ::
  "'w os \<Rightarrow> (u64 \<times> nat) option \<Rightarrow> serve_config \<Rightarrow> 'w \<Rightarrow> (state_error + static_service \<times> event) \<times> 'w" where
  [rust_eval]: "from_serve_config os clock config w =
     (case serve_state_new os config w of
        (Inl e, w) \<Rightarrow> (Inl e, w)
      | (Inr state, w) \<Rightarrow> (Inr (from_state state, root_initialized clock), w))"

section \<open>What validation admits\<close>

definition limits_ok :: "nat \<Rightarrow> limits \<Rightarrow> bool" where
  [rust_eval]: "limits_ok max_permits l \<longleftrightarrow> shared_ok max_permits (limits_shared l)
     \<and> 0 < lm_max_listing_response_bytes l \<and> lm_max_listing_response_bytes l \<le> MAX_LISTING_RESPONSE_BYTES
     \<and> 0 < lm_max_listing_entries l \<and> lm_max_listing_entries l \<le> MAX_LISTING_ENTRIES"

lemma check_budget_Nil: "check_budget upper note field n = [] \<longleftrightarrow> 0 < n \<and> n \<le> upper"
  by (simp add: check_budget_def check_that_def)

lemma limits_validate_ok: "limits_validate max_permits l = Inr () \<longleftrightarrow> limits_ok max_permits l"
  by (auto simp: limits_validate_def Let_def shared_validate_Nil check_budget_Nil limits_ok_def)

lemma limits_default_ok: "64 \<le> max_permits \<Longrightarrow> limits_ok max_permits limits_default"
  by (simp add: rust_eval)

text \<open>The static budgets leave the shared values alone.\<close>

lemma limits_default_shared: "limits_shared limits_default = shared_default"
  by (simp add: limits_shared_def limits_default_def shared_default_def)

text \<open>A header field an operator may add: a token, a value with content, and a name nobody else owns.\<close>

definition operator_header :: "string \<times> string \<Rightarrow> bool" where
  [rust_eval]: "operator_header nv \<longleftrightarrow>
     (let (name, v) = nv in
      is_ok (header_name_new name) \<and> list_all value_byte_ok v \<and> trim_ows v \<noteq> []
      \<and> \<not> is_hop_by_hop_header name \<and> to_ascii_lowercase name \<notin> set representation_owned)"

definition metadata_ok :: "nat \<Rightarrow> nat \<Rightarrow> string \<Rightarrow> (string \<times> string) list \<Rightarrow> bool" where
  [rust_eval]: "metadata_ok count_limit byte_limit content_type extra \<longleftrightarrow>
     list_all value_byte_ok content_type \<and> trim_ows content_type \<noteq> []
     \<and> length extra \<le> count_limit
     \<and> (\<Sum>(name, v)\<leftarrow>extra. length name + length v) \<le> min byte_limit usize_max
     \<and> list_all operator_header extra"

lemma header_value_ok: "header_value_from_bytes v = Inr c \<longleftrightarrow> list_all value_byte_ok v \<and> c = HeaderValue (trim_ows v)"
  by (auto simp: header_value_from_bytes_def validate_header_value_bytes_def and_then_def)

lemma lowercase_idem: "to_ascii_lowercase (to_ascii_lowercase s) = to_ascii_lowercase s"
  by (simp add: to_ascii_lowercase_def)

lemma hop_by_hop_lower: "is_hop_by_hop_header (to_ascii_lowercase name) = is_hop_by_hop_header name"
  by (simp add: is_hop_by_hop_header_def eq_ignore_ascii_case_def lowercase_idem)

lemma validate_extra_header_ok: "validate_extra_header nv = Inr () \<longleftrightarrow> operator_header nv"
  by (cases nv; cases "header_name_new (fst nv)"; cases "header_value_from_bytes (snd nv)")
    (auto simp: validate_extra_header_def operator_header_def Let_def and_then_def map_err_def is_ok_def
      hop_by_hop_lower header_value_from_bytes_def validate_header_value_bytes_def split: if_splits)

lemma validate_extra_headers_ok: "validate_extra_headers hs = Inr () \<longleftrightarrow> list_all operator_header hs"
proof (induction hs)
  case (Cons h hs)
  then show ?case
    by (cases "validate_extra_header h") (auto simp: and_then_def validate_extra_header_ok [symmetric])
qed simp

lemma header_bytes_total_eq:
  "acc \<le> usize_max \<Longrightarrow> header_bytes_total acc hs =
     (let n = acc + (\<Sum>(name, v)\<leftarrow>hs. length name + length v) in if n \<le> usize_max then Some n else None)"
proof (induction acc hs rule: header_bytes_total.induct)
  case (2 acc name v hs)
  show ?case
  proof (cases "acc + length name + length v \<le> usize_max")
    case True
    then have "checked_add_usize acc (length name) = Some (acc + length name)"
      "checked_add_usize (acc + length name) (length v) = Some (acc + length name + length v)"
      by (simp_all add: checked_add_usize_def)
    then show ?thesis using 2 True by (simp add: Let_def add.assoc)
  qed (auto simp: checked_add_usize_def Let_def)
qed simp

lemma metadata_validated:
  "validate_static_metadata_with_limits ct hs n b = Inr () \<longleftrightarrow> metadata_ok n b ct hs"
  by (cases "header_value_from_bytes ct")
    (auto simp: validate_static_metadata_with_limits_def metadata_ok_def and_then_def map_err_def
      validate_extra_headers_ok header_value_ok header_bytes_total_eq Let_def header_value_from_bytes_def
      validate_header_value_bytes_def split: if_splits)

text \<open>So the fields the response plan and the transport own stay theirs.\<close>

lemma operator_header_not_owned:
  assumes "operator_header (name, v)" and "owned \<in> set representation_owned"
  shows "\<not> eq_ignore_ascii_case name owned"
proof
  assume "eq_ignore_ascii_case name owned"
  then have "to_ascii_lowercase name = to_ascii_lowercase owned" by (simp add: eq_ignore_ascii_case_def)
  moreover have "list_all (\<lambda>s. to_ascii_lowercase s = s) representation_owned" by (simp add: rust_eval)
  ultimately show False using assms by (auto simp: operator_header_def list_all_iff)
qed

section \<open>Services built from a configuration\<close>

lemma from_serve_config_ok:
  assumes "from_serve_config os clock config w = (Inr (svc, ev), w')"
  shows "metadata_ok (lm_max_extra_headers (sc_limits config)) (lm_max_extra_header_bytes (sc_limits config))
      (sc_default_content_type config) (sc_extra_response_headers config)"
    and "secure_root_new os (sc_root config) (sc_static_policy config) w = (Inr (ss_root svc), w')"
    and "ss_default_content_type svc = sc_default_content_type config"
    and "ss_extra_response_headers svc = sc_extra_response_headers config"
    and "ss_max_listing_entries svc = lm_max_listing_entries (sc_limits config)"
    and "ss_max_listing_response_bytes svc = lm_max_listing_response_bytes (sc_limits config)"
  using assms unfolding metadata_validated [symmetric]
  by (auto simp: from_serve_config_def serve_state_new_def from_state_def Let_def split: sum.splits prod.splits)

lemma secure_root_policy: "secure_root_new os root policy w = (Inr r, w') \<Longrightarrow> sr_policy r = policy"
  by (auto simp: secure_root_new_def elim!: on_ok_cases)

text \<open>Invalid metadata is refused before the filesystem is touched.\<close>

lemma invalid_metadata_refused:
  assumes "\<not> metadata_ok (lm_max_extra_headers (sc_limits config)) (lm_max_extra_header_bytes (sc_limits config))
      (sc_default_content_type config) (sc_extra_response_headers config)"
  shows "\<exists>message. from_serve_config os clock config w = (Inl (InvalidInput message), w)"
proof -
  obtain m where "validate_static_metadata_with_limits (sc_default_content_type config) (sc_extra_response_headers config)
      (lm_max_extra_headers (sc_limits config)) (lm_max_extra_header_bytes (sc_limits config)) = Inl m"
    using assms unfolding metadata_validated [symmetric] by (metis old.unit.exhaust sum.exhaust)
  then show ?thesis by (simp add: from_serve_config_def serve_state_new_def)
qed

text \<open>The operator's headers cannot break the equality of the heads of HEAD and GET.\<close>

lemma configured_head_mirrored:
  assumes "from_serve_config os clock config w0 = (Inr (svc, ev), w1)"
    and "rq_method (req_head req) = Method ''GET''"
    and "head = req\<lparr>req_head := (req_head req)\<lparr>rq_method := Method ''HEAD''\<rparr>\<rparr>"
  shows "heads (fst (respond os dt svc head w)) = heads (fst (respond os dt svc req w))
    \<and> no_bytes (fst (respond os dt svc head w))"
proof -
  have "list_all operator_header (ss_extra_response_headers svc)"
    using from_serve_config_ok(1,4) [OF assms(1)] by (simp add: metadata_ok_def)
  moreover have "''content-length'' \<in> set representation_owned" by (simp add: representation_owned_def)
  ultimately have "list_all (\<lambda>(name, v). \<not> eq_ignore_ascii_case name ''content-length'') (ss_extra_response_headers svc)"
    by (auto simp: list_all_iff dest: operator_header_not_owned)
  then show ?thesis unfolding assms(3) using head_mirrored [OF assms(2), of svc os dt w] by simp
qed

end
