(* ===== verification/Cli_Args.thy ===== *)
theory Cli_Args
  imports Core_Config Connection_Context "HOL-Library.Product_Lexorder"
begin

text \<open>
  The command line: \<^verbatim>\<open>eggserve-bin/src/args.rs\<close>, and what \<^verbatim>\<open>run_cli\<close> of \<^verbatim>\<open>eggserve-bin/src/lib.rs\<close> makes of it.

  The loop of \<^verbatim>\<open>parse_from\<close> is a recursion over the arguments that are left.  Its \<^verbatim>\<open>_seen\<close> variables are the
  list \<open>ps_seen\<close> of the flags whose variable is set; the limits that may be overridden are grouped in one
  record, shared by the loop and by \<open>args\<close>.  The features of the build are an argument, and so is the
  resolver of host names with the text of its error; the errors of the standard library's parsers have the
  texts of the library.
\<close>

section \<open>The parsed command line\<close>

record features =
  ft_tls :: bool
  ft_http3 :: bool

datatype cli_log_format = LogText | LogJson | LogNone

record limit_options =
  lo_max_connections :: "nat option"
  lo_max_file_streams :: "nat option"
  lo_max_in_flight_requests :: "nat option"
  lo_header_read_timeout :: "duration option"
  lo_connection_total_timeout :: "duration option"
  lo_handler_timeout :: "duration option"
  lo_body_read_timeout :: "duration option"
  lo_keep_alive_idle_timeout :: "duration option"
  lo_max_requests_per_connection :: "u64 option option"
  lo_response_write_timeout :: "duration option"
  lo_max_buf_size :: "nat option"
  lo_max_headers :: "nat option"
  lo_max_header_bytes :: "nat option"
  lo_max_request_target_bytes :: "nat option"

record args =
  ar_bind :: socket_addr
  ar_root :: string
  ar_directory_listing :: directory_listing_policy
  ar_symlinks :: symlink_policy
  ar_dotfiles :: serve_dotfile_policy
  ar_default_content_type :: string
  ar_extra_response_headers :: "(string \<times> string) list"
  ar_log_format :: cli_log_format
  ar_quiet :: bool
  ar_options :: limit_options
  ar_tls_cert :: "string option"
  ar_tls_key :: "string option"
  ar_http3 :: bool

section \<open>Values of flags\<close>

definition ticked :: "string \<Rightarrow> string" where
  [rust_eval]: "ticked s = [CHR 0x27] @ s @ [CHR 0x27]"

definition flag_like :: "string \<Rightarrow> bool" where
  [rust_eval]: "flag_like v \<longleftrightarrow> starts_with v ''-'' \<and> v \<noteq> ''-''"

definition require_value :: "string \<Rightarrow> string list \<Rightarrow> string + string \<times> string list" where
  [rust_eval]: "require_value flag rest =
     (case rest of
        [] \<Rightarrow> Inl (flag @ '' requires an argument'')
      | v # rest \<Rightarrow>
          if flag_like v then Inl (flag @ '' requires an argument (found flag '' @ ticked v @ '')'')
          else Inr (v, rest))"

definition VALUE_FLAGS :: "string list" where
  [rust_eval]: "VALUE_FLAGS =
     [''directory'', ''bind'', ''port'', ''addr'', ''log-format'', ''max-connections'', ''max-file-streams'',
      ''max-in-flight-requests'', ''header-timeout'', ''connection-total-timeout'', ''handler-timeout'',
      ''body-read-timeout'', ''keep-alive-idle-timeout'', ''max-requests-per-connection'',
      ''response-write-timeout'', ''max-buf-size'', ''max-headers'', ''max-header-bytes'',
      ''max-request-target-bytes'', ''content-type'', ''header'', ''tls-cert'', ''tls-key'']"

definition BOOLEAN_FLAGS :: "string list" where
  [rust_eval]: "BOOLEAN_FLAGS =
     [''public'', ''directory-listing'', ''follow-symlinks'', ''allow-dotfiles'', ''quiet'', ''help'', ''version'',
      ''http3'']"

text \<open>\<^verbatim>\<open>strip_prefix("--")\<close>, then \<^verbatim>\<open>split_once('=')\<close>.\<close>

fun attached_value :: "string \<Rightarrow> (string \<times> string) option" where
  "attached_value (a # b # long_arg) =
     (if a = CHR ''-'' \<and> b = CHR ''-'' then split_once_char CHR ''='' long_arg else None)"
| "attached_value _ = None"

definition expand_arg :: "string \<Rightarrow> string + string list" where
  [rust_eval]: "expand_arg arg =
     (case attached_value arg of
        None \<Rightarrow> Inr [arg]
      | Some (name, v) \<Rightarrow>
          if name = ''header'' then
            (case split_once_char CHR ''='' v of
               Some (header_name, header_value) \<Rightarrow> Inr [''--header'', header_name, header_value]
             | None \<Rightarrow> Inr [''--header'', v])
          else if name \<in> set VALUE_FLAGS then Inr [''--'' @ name, v]
          else if name \<in> set BOOLEAN_FLAGS then Inl (''--'' @ name @ '' does not take a value'')
          else Inr [arg])"

fun expand_attached_long_values :: "string list \<Rightarrow> string + string list" where
  "expand_attached_long_values [] = Inr []"
| "expand_attached_long_values (arg # args) =
     (if arg = ''--'' then Inr (arg # args)
      else and_then (expand_arg arg) (\<lambda>ts. and_then (expand_attached_long_values args) (\<lambda>us. Inr (ts @ us))))"

section \<open>Addresses to bind\<close>

text \<open>\<^verbatim>\<open>SocketAddr::from_str\<close>; the scope of an IPv6 address is read and not kept, as only the address is used.\<close>

definition read_port :: "string \<Rightarrow> (nat \<times> string) option" where
  [rust_eval]: "read_port s = Option.bind (read_char CHR '':'' s) (\<lambda>s. read_number 10 (length s) True 16 s)"

definition read_socket_v4 :: "string \<Rightarrow> (socket_addr \<times> string) option" where
  [rust_eval]: "read_socket_v4 s =
     Option.bind (read_ipv4 s) (\<lambda>(ip, s).
     Option.bind (read_port s) (\<lambda>(port, s). Some (\<lparr>sa_ip = V4 ip, sa_port = of_nat port\<rparr>, s)))"

definition skip_scope :: "string \<Rightarrow> string" where
  [rust_eval]: "skip_scope s =
     (case Option.bind (read_char CHR ''%'' s) (\<lambda>s. read_number 10 (length s) True 32 s) of
        Some (_, s) \<Rightarrow> s
      | None \<Rightarrow> s)"

definition read_socket_v6 :: "string \<Rightarrow> (socket_addr \<times> string) option" where
  [rust_eval]: "read_socket_v6 s =
     Option.bind (read_char CHR ''['' s) (\<lambda>s.
     Option.bind (read_ipv6 s) (\<lambda>(ip, s).
     Option.bind (read_char CHR '']'' (skip_scope s)) (\<lambda>s.
     Option.bind (read_port s) (\<lambda>(port, s). Some (\<lparr>sa_ip = V6 ip, sa_port = of_nat port\<rparr>, s)))))"

definition parse_socket_addr :: "string \<Rightarrow> socket_addr option" where
  [rust_eval]: "parse_socket_addr =
     parse_with (\<lambda>s. case read_socket_v4 s of Some r \<Rightarrow> Some r | None \<Rightarrow> read_socket_v6 s)"

fun ip_text :: "ip_addr \<Rightarrow> string" where
  "ip_text (V4 a) = ipv4_str a"
| "ip_text (V6 a) = ipv6_text a"

definition count_char :: "char \<Rightarrow> string \<Rightarrow> nat" where
  [rust_eval]: "count_char c s = length (filter (\<lambda>x. x = c) s)"

definition split_bind_host_port :: "string \<Rightarrow> (string \<times> u16 option) option" where
  [rust_eval]: "split_bind_host_port v =
     (if starts_with v ''['' then
        Option.bind (find_char v CHR '']'') (\<lambda>close.
          let host = take (close - 1) (drop 1 v);
              rest = drop (close + 1) v
          in if rest = [] then Some (host, None)
             else Option.bind (strip_prefix_char CHR '':'' rest) (\<lambda>digits.
                  Option.bind (parse_unsigned 16 digits) (\<lambda>port. Some (host, Some (of_nat port)))))
      else if count_char CHR '':'' v > 1 then None
      else
        case split_once_char CHR '':'' v of
          Some (host, digits) \<Rightarrow>
            Option.bind (parse_unsigned 16 digits) (\<lambda>port.
              Some (if host = [] then ''0.0.0.0'' else host, Some (of_nat port)))
        | None \<Rightarrow> if v \<noteq> [] then Some (v, None) else None)"

fun is_ipv4 :: "ip_addr \<Rightarrow> bool" where
  "is_ipv4 (V4 _) = True"
| "is_ipv4 (V6 _) = False"

definition bind_rank :: "socket_addr \<Rightarrow> bool \<times> bool \<times> string" where
  [rust_eval]: "bind_rank a = (\<not> is_loopback (sa_ip a), \<not> is_ipv4 (sa_ip a), ip_text (sa_ip a))"

definition select_bind_ip :: "socket_addr list \<Rightarrow> ip_addr option" where
  [rust_eval]: "select_bind_ip addresses =
     (case sort_key bind_rank addresses of [] \<Rightarrow> None | a # _ \<Rightarrow> Some (sa_ip a))"

type_synonym resolver = "string \<Rightarrow> u16 \<Rightarrow> string + socket_addr list"

definition resolve_bind_ip :: "resolver \<Rightarrow> string \<Rightarrow> u16 \<Rightarrow> string + ip_addr" where
  [rust_eval]: "resolve_bind_ip to_socket_addrs bind_host bind_port =
     (case parse_ip bind_host of
        Some ip \<Rightarrow> Inr ip
      | None \<Rightarrow>
          and_then (map_err (\<lambda>e. ''failed to resolve bind host '' @ ticked bind_host @ '': '' @ e)
              (to_socket_addrs bind_host bind_port)) (\<lambda>addresses.
            ok_or (''bind host '' @ ticked bind_host @ '' did not resolve'') (select_bind_ip addresses)))"

section \<open>The state of the loop\<close>

record parse_state =
  ps_bind_host :: string
  ps_bind_port :: u16
  ps_root :: "string option"
  ps_port_from_flag :: bool
  ps_seen :: "string list"
  ps_public :: bool
  ps_directory_listing :: directory_listing_policy
  ps_symlinks :: symlink_policy
  ps_dotfiles :: serve_dotfile_policy
  ps_log_format :: cli_log_format
  ps_quiet :: bool
  ps_options :: limit_options
  ps_default_content_type :: string
  ps_extra_response_headers :: "(string \<times> string) list"
  ps_tls_cert :: "string option"
  ps_tls_key :: "string option"
  ps_http3 :: bool
  ps_positional :: "string list"

definition no_options :: limit_options where
  [rust_eval]: "no_options =
     \<lparr>lo_max_connections = None, lo_max_file_streams = None, lo_max_in_flight_requests = None,
      lo_header_read_timeout = None, lo_connection_total_timeout = None, lo_handler_timeout = None,
      lo_body_read_timeout = None, lo_keep_alive_idle_timeout = None, lo_max_requests_per_connection = None,
      lo_response_write_timeout = None, lo_max_buf_size = None, lo_max_headers = None,
      lo_max_header_bytes = None, lo_max_request_target_bytes = None\<rparr>"

definition parse_start :: parse_state where
  [rust_eval]: "parse_start =
     \<lparr>ps_bind_host = ''127.0.0.1'', ps_bind_port = 8000, ps_root = None, ps_port_from_flag = False, ps_seen = [],
      ps_public = False, ps_directory_listing = ListingDisabled, ps_symlinks = SymlinkPolicyDenied,
      ps_dotfiles = ServeDotfilesDenied, ps_log_format = LogText, ps_quiet = False, ps_options = no_options,
      ps_default_content_type = ''application/octet-stream'', ps_extra_response_headers = [], ps_tls_cert = None,
      ps_tls_key = None, ps_http3 = False, ps_positional = []\<rparr>"

text \<open>One arm of the \<^verbatim>\<open>match\<close>: the arguments and the state after it.\<close>

type_synonym arm = "string + string list \<times> parse_state"

definition once :: "string \<Rightarrow> parse_state \<Rightarrow> string + parse_state" where
  [rust_eval]: "once flag st =
     (if flag \<in> set (ps_seen st) then Inl (flag @ '' may only be specified once'')
      else Inr (st\<lparr>ps_seen := flag # ps_seen st\<rparr>))"

definition switch :: "string \<Rightarrow> string list \<Rightarrow> (parse_state \<Rightarrow> parse_state) \<Rightarrow> parse_state \<Rightarrow> arm" where
  [rust_eval]: "switch flag rest f st = and_then (once flag st) (\<lambda>st. Inr (rest, f st))"

definition with_value :: "string \<Rightarrow> string list \<Rightarrow> (string \<Rightarrow> parse_state \<Rightarrow> string + parse_state) \<Rightarrow> parse_state \<Rightarrow> arm" where
  [rust_eval]: "with_value flag rest k st =
     and_then (once flag st) (\<lambda>st.
     and_then (require_value flag rest) (\<lambda>(v, rest).
     and_then (k v st) (\<lambda>st. Inr (rest, st))))"

section \<open>Address flags\<close>

definition port_twice :: string where
  [rust_eval]: "port_twice = ''port may only be specified once (via --port, --addr, or --bind HOST:PORT)''"

definition bind_target :: "string \<Rightarrow> string + string \<times> u16 option" where
  [rust_eval]: "bind_target addr =
     (case parse_socket_addr addr of
        Some parsed \<Rightarrow> Inr (ip_text (sa_ip parsed), Some (sa_port parsed))
      | None \<Rightarrow>
          (case parse_ip addr of
             Some ip \<Rightarrow> Inr (ip_text ip, None)
           | None \<Rightarrow> ok_or (''invalid bind address '' @ ticked addr @ '': expected HOST or HOST:PORT'')
               (split_bind_host_port addr)))"

definition bind_arm :: "string list \<Rightarrow> parse_state \<Rightarrow> arm" where
  [rust_eval]: "bind_arm rest st =
     (if ''--bind'' \<in> set (ps_seen st) then Inl ''--bind may only be specified once''
      else if ''--addr'' \<in> set (ps_seen st) then Inl ''--bind and --addr cannot be used together''
      else and_then (require_value ''--bind'' rest) (\<lambda>(addr, rest).
        and_then (bind_target addr) (\<lambda>(host, port).
          if port \<noteq> None \<and> ps_port_from_flag st then Inl port_twice
          else
            let st = st\<lparr>ps_seen := ''--bind'' # ps_seen st, ps_bind_host := host\<rparr> in
            Inr (rest, case port of
                         Some p \<Rightarrow> st\<lparr>ps_bind_port := p, ps_port_from_flag := True\<rparr>
                       | None \<Rightarrow> st))))"

definition port_arm :: "string list \<Rightarrow> parse_state \<Rightarrow> arm" where
  [rust_eval]: "port_arm rest st =
     (if ''--addr'' \<in> set (ps_seen st) then
        Inl ''--port cannot be used with --addr (the port is set in --addr HOST:PORT)''
      else if ps_port_from_flag st then Inl port_twice
      else and_then (require_value ''--port'' rest) (\<lambda>(port_str, rest).
        and_then (ok_or (''invalid port '' @ ticked port_str @ '': must be between 0 and 65535'')
            (parse_unsigned 16 port_str)) (\<lambda>port.
          Inr (rest, st\<lparr>ps_bind_port := of_nat port, ps_port_from_flag := True\<rparr>))))"

definition addr_error :: "string \<Rightarrow> string" where
  [rust_eval]: "addr_error addr =
     ''invalid address '' @ ticked addr @ '': invalid socket address syntax''
     @ (if count_char CHR '':'' addr > 1 \<and> \<not> starts_with addr ''['' then
          '' (for IPv6 with a port, use the bracketed form: [::1]:8080)'' else [])"

definition addr_arm :: "string list \<Rightarrow> parse_state \<Rightarrow> arm" where
  [rust_eval]: "addr_arm rest st =
     (if ''--bind'' \<in> set (ps_seen st) then Inl ''--bind and --addr cannot be used together''
      else if ''--addr'' \<in> set (ps_seen st) then Inl ''--addr may only be specified once''
      else if ps_port_from_flag st then Inl ''--addr cannot be used with --port (the port is already set)''
      else and_then (require_value ''--addr'' rest) (\<lambda>(addr, rest).
        and_then (ok_or (addr_error addr) (parse_socket_addr addr)) (\<lambda>parsed.
          Inr (rest, st\<lparr>ps_seen := ''--addr'' # ps_seen st, ps_bind_host := ip_text (sa_ip parsed),
                        ps_bind_port := sa_port parsed, ps_port_from_flag := True\<rparr>))))"

definition address_arms :: "string \<Rightarrow> string list \<Rightarrow> parse_state \<Rightarrow> arm option" where
  [rust_eval]: "address_arms flag rest st =
     (if flag = ''--directory'' then
        Some (with_value ''--directory'' rest (\<lambda>dir st. Inr (st\<lparr>ps_root := Some dir\<rparr>)) st)
      else if flag = ''--bind'' then Some (bind_arm rest st)
      else if flag = ''--port'' then Some (port_arm rest st)
      else if flag = ''--addr'' then Some (addr_arm rest st)
      else None)"

section \<open>Switches and the log format\<close>

definition log_format_arg :: "string \<Rightarrow> parse_state \<Rightarrow> string + parse_state" where
  [rust_eval]: "log_format_arg fmt st =
     (if fmt = ''text'' then Inr (st\<lparr>ps_log_format := LogText\<rparr>)
      else if fmt = ''json'' then Inr (st\<lparr>ps_log_format := LogJson\<rparr>)
      else if fmt = ''none'' then Inr (st\<lparr>ps_log_format := LogNone\<rparr>)
      else Inl (''invalid log format '' @ ticked fmt @ '': expected text, json, or none''))"

definition policy_arms :: "string \<Rightarrow> string list \<Rightarrow> parse_state \<Rightarrow> arm option" where
  [rust_eval]: "policy_arms flag rest st =
     (if flag = ''--public'' then Some (switch flag rest (\<lambda>st. st\<lparr>ps_public := True\<rparr>) st)
      else if flag = ''--directory-listing'' then
        Some (switch flag rest (\<lambda>st. st\<lparr>ps_directory_listing := ListingEnabled\<rparr>) st)
      else if flag = ''--follow-symlinks'' then
        Some (switch flag rest (\<lambda>st. st\<lparr>ps_symlinks := SymlinkPolicyFollow\<rparr>) st)
      else if flag = ''--allow-dotfiles'' then
        Some (switch flag rest (\<lambda>st. st\<lparr>ps_dotfiles := ServeDotfiles\<rparr>) st)
      else if flag = ''--log-format'' then Some (with_value flag rest log_format_arg st)
      else if flag = ''--quiet'' then Some (switch flag rest (\<lambda>st. st\<lparr>ps_quiet := True\<rparr>) st)
      else None)"

section \<open>Limit flags\<close>

text \<open>The text of a \<^verbatim>\<open>ParseIntError\<close>: digits are read one by one, and the first failure is reported.\<close>

fun int_error_scan :: "nat \<Rightarrow> nat \<Rightarrow> string \<Rightarrow> string" where
  "int_error_scan bits acc [] = ''invalid digit found in string''"
| "int_error_scan bits acc (c # s) =
     (if \<not> is_ascii_digit c then ''invalid digit found in string''
      else if 10 * acc + (byte c - 48) \<ge> 2 ^ bits then ''number too large to fit in target type''
      else int_error_scan bits (10 * acc + (byte c - 48)) s)"

definition parse_int_error :: "nat \<Rightarrow> string \<Rightarrow> string" where
  [rust_eval]: "parse_int_error bits s =
     (if s = [] then ''cannot parse integer from empty string''
      else int_error_scan bits 0 (if hd s = CHR ''+'' then tl s else s))"

definition number_arg :: "string \<Rightarrow> string \<Rightarrow> string + nat" where
  [rust_eval]: "number_arg name v =
     ok_or (''invalid '' @ name @ '' '' @ ticked v @ '': '' @ parse_int_error 64 v) (parse_unsigned 64 v)"

definition positive_arg ::
  "string \<Rightarrow> (nat \<Rightarrow> limit_options \<Rightarrow> limit_options) \<Rightarrow> string \<Rightarrow> parse_state \<Rightarrow> string + parse_state" where
  [rust_eval]: "positive_arg name update v st =
     and_then (number_arg name v) (\<lambda>n.
       if n = 0 then Inl (''--'' @ name @ '' must be greater than 0'')
       else Inr (st\<lparr>ps_options := update n (ps_options st)\<rparr>))"

definition plain_arg ::
  "string \<Rightarrow> (nat \<Rightarrow> limit_options \<Rightarrow> limit_options) \<Rightarrow> string \<Rightarrow> parse_state \<Rightarrow> string + parse_state" where
  [rust_eval]: "plain_arg name update v st =
     and_then (number_arg name v) (\<lambda>n. Inr (st\<lparr>ps_options := update n (ps_options st)\<rparr>))"

definition capacity_arms :: "string \<Rightarrow> string list \<Rightarrow> parse_state \<Rightarrow> arm option" where
  [rust_eval]: "capacity_arms flag rest st =
     (if flag = ''--max-connections'' then
        Some (with_value flag rest (positive_arg ''max-connections'' (\<lambda>n o'. o'\<lparr>lo_max_connections := Some n\<rparr>)) st)
      else if flag = ''--max-file-streams'' then
        Some (with_value flag rest (positive_arg ''max-file-streams'' (\<lambda>n o'. o'\<lparr>lo_max_file_streams := Some n\<rparr>)) st)
      else if flag = ''--max-in-flight-requests'' then
        Some (with_value flag rest
          (positive_arg ''max-in-flight-requests'' (\<lambda>n o'. o'\<lparr>lo_max_in_flight_requests := Some n\<rparr>)) st)
      else None)"

definition timeout_arms :: "string \<Rightarrow> string list \<Rightarrow> parse_state \<Rightarrow> arm option" where
  [rust_eval]: "timeout_arms flag rest st =
     (if flag = ''--header-timeout'' then
        Some (with_value flag rest (plain_arg ''header-timeout''
          (\<lambda>secs o'. o'\<lparr>lo_header_read_timeout := Some (from_secs secs)\<rparr>)) st)
      else if flag = ''--connection-total-timeout'' then
        Some (with_value flag rest (plain_arg ''connection-total-timeout''
          (\<lambda>secs o'. o'\<lparr>lo_connection_total_timeout := Some (from_secs secs)\<rparr>)) st)
      else if flag = ''--handler-timeout'' then
        Some (with_value flag rest (plain_arg ''handler-timeout''
          (\<lambda>secs o'. o'\<lparr>lo_handler_timeout := Some (from_secs secs)\<rparr>)) st)
      else if flag = ''--body-read-timeout'' then
        Some (with_value flag rest (plain_arg ''body-read-timeout''
          (\<lambda>secs o'. o'\<lparr>lo_body_read_timeout := Some (from_secs secs)\<rparr>)) st)
      else if flag = ''--keep-alive-idle-timeout'' then
        Some (with_value flag rest (plain_arg ''keep-alive-idle-timeout''
          (\<lambda>secs o'. o'\<lparr>lo_keep_alive_idle_timeout := Some (from_secs secs)\<rparr>)) st)
      else None)"

definition request_arms :: "string \<Rightarrow> string list \<Rightarrow> parse_state \<Rightarrow> arm option" where
  [rust_eval]: "request_arms flag rest st =
     (if flag = ''--max-requests-per-connection'' then
        Some (with_value flag rest (plain_arg ''max-requests-per-connection''
          (\<lambda>n o'. o'\<lparr>lo_max_requests_per_connection := Some (if n = 0 then None else Some (of_nat n))\<rparr>)) st)
      else if flag = ''--response-write-timeout'' then
        Some (with_value flag rest (plain_arg ''response-write-timeout''
          (\<lambda>secs o'. o'\<lparr>lo_response_write_timeout := Some (from_secs secs)\<rparr>)) st)
      else if flag = ''--max-buf-size'' then
        Some (with_value flag rest (plain_arg ''max-buf-size'' (\<lambda>n o'. o'\<lparr>lo_max_buf_size := Some n\<rparr>)) st)
      else if flag = ''--max-headers'' then
        Some (with_value flag rest (plain_arg ''max-headers'' (\<lambda>n o'. o'\<lparr>lo_max_headers := Some n\<rparr>)) st)
      else if flag = ''--max-header-bytes'' then
        Some (with_value flag rest (plain_arg ''max-header-bytes'' (\<lambda>n o'. o'\<lparr>lo_max_header_bytes := Some n\<rparr>)) st)
      else if flag = ''--max-request-target-bytes'' then
        Some (with_value flag rest (plain_arg ''max-request-target-bytes''
          (\<lambda>n o'. o'\<lparr>lo_max_request_target_bytes := Some n\<rparr>)) st)
      else None)"

section \<open>Metadata, TLS and the rest\<close>

definition header_arm :: "string list \<Rightarrow> parse_state \<Rightarrow> arm" where
  [rust_eval]: "header_arm rest st =
     and_then (require_value ''--header'' rest) (\<lambda>(name, rest).
     and_then (require_value ''--header'' rest) (\<lambda>(v, rest).
       Inr (rest, st\<lparr>ps_extra_response_headers := ps_extra_response_headers st @ [(name, v)]\<rparr>)))"

definition tls_arm :: "features \<Rightarrow> string \<Rightarrow> string list \<Rightarrow> (string \<Rightarrow> parse_state \<Rightarrow> parse_state) \<Rightarrow> parse_state \<Rightarrow> arm" where
  [rust_eval]: "tls_arm ft flag rest update st =
     (if ft_tls ft then with_value flag rest (\<lambda>path st. Inr (update path st)) st
      else Inl (flag @ '' requires the CLI to be built with the '' @ ticked ''tls'' @ '' feature''))"

definition http3_arm :: "string list \<Rightarrow> parse_state \<Rightarrow> arm" where
  [rust_eval]: "http3_arm rest st =
     (if ps_http3 st then Inl ''--http3 may only be specified once'' else Inr (rest, st\<lparr>ps_http3 := True\<rparr>))"

definition other_arms :: "features \<Rightarrow> string \<Rightarrow> string list \<Rightarrow> parse_state \<Rightarrow> arm" where
  [rust_eval]: "other_arms ft flag rest st =
     (if flag = ''--content-type'' then
        with_value flag rest (\<lambda>v st. Inr (st\<lparr>ps_default_content_type := v\<rparr>)) st
      else if flag = ''-H'' \<or> flag = ''--header'' then header_arm rest st
      else if flag = ''--tls-cert'' then tls_arm ft flag rest (\<lambda>path st. st\<lparr>ps_tls_cert := Some path\<rparr>) st
      else if flag = ''--tls-key'' then tls_arm ft flag rest (\<lambda>path st. st\<lparr>ps_tls_key := Some path\<rparr>) st
      else if flag = ''--http3'' \<and> ft_http3 ft then http3_arm rest st
      else if flag = ''--help'' \<or> flag = ''-h'' then Inl ''help''
      else if flag = ''--version'' \<or> flag = ''-V'' then Inl ''version''
      else if starts_with flag ''-'' then Inl (''unknown flag: '' @ flag)
      else Inr (rest, st\<lparr>ps_positional := ps_positional st @ [flag]\<rparr>))"

text \<open>The arms in the order of the source; the first group that knows the flag decides.\<close>

definition first_of :: "'a option list \<Rightarrow> 'a \<Rightarrow> 'a" where
  [rust_eval]: "first_of os d = foldr (\<lambda>o' r. case o' of Some a \<Rightarrow> a | None \<Rightarrow> r) os d"

definition parse_arm :: "features \<Rightarrow> string \<Rightarrow> string list \<Rightarrow> parse_state \<Rightarrow> arm" where
  [rust_eval]: "parse_arm ft flag rest st =
     first_of [address_arms flag rest st, policy_arms flag rest st, capacity_arms flag rest st,
               timeout_arms flag rest st, request_arms flag rest st] (other_arms ft flag rest st)"

section \<open>What an arm consumes and changes\<close>

text \<open>The number of values a flag takes, and the switches that widen what is served.\<close>

definition arity :: "string \<Rightarrow> nat" where
  [rust_eval]: "arity flag =
     (if flag = ''-H'' \<or> flag = ''--header'' then 2
      else if flag \<in> (@) ''--'' ` set VALUE_FLAGS then 1 else 0)"

definition switches :: "parse_state \<Rightarrow> bool \<times> bool \<times> bool \<times> bool" where
  "switches st = (ps_public st, ps_directory_listing st = ListingEnabled, ps_symlinks st = SymlinkPolicyFollow,
     ps_dotfiles st = ServeDotfiles)"

definition consumes :: "nat \<Rightarrow> string list \<Rightarrow> string list \<Rightarrow> bool" where
  "consumes n rest rest' \<longleftrightarrow> n \<le> length rest \<and> rest' = drop n rest \<and> list_all (\<lambda>v. \<not> flag_like v) (take n rest)"

lemma require_value_ok: "require_value flag rest = Inr (v, rest') \<longleftrightarrow> rest = v # rest' \<and> \<not> flag_like v"
  by (auto simp: require_value_def split: list.splits)

lemma and_then_ok: "and_then r f = Inr y \<longleftrightarrow> (\<exists>x. r = Inr x \<and> f x = Inr y)"
  by (cases r) (auto simp: and_then_def)

lemma ok_or_ok: "ok_or e r = Inr y \<longleftrightarrow> r = Some y"
  by (cases r) (auto simp: ok_or_def)

lemma once_ok: "once flag st = Inr st' \<longleftrightarrow> flag \<notin> set (ps_seen st) \<and> st' = st\<lparr>ps_seen := flag # ps_seen st\<rparr>"
  by (auto simp: once_def)

lemma consumes_1: "consumes (Suc 0) (v # rest') rest' \<longleftrightarrow> \<not> flag_like v"
  by (simp add: consumes_def)

lemma consumes_0 [simp]: "consumes 0 rest rest' \<longleftrightarrow> rest' = rest"
  by (simp add: consumes_def)

text \<open>An arm that takes one value and leaves the switches alone.\<close>

definition value_arm :: "string list \<Rightarrow> parse_state \<Rightarrow> arm \<Rightarrow> bool" where
  "value_arm rest st r \<longleftrightarrow> (\<forall>rest' st'. r = Inr (rest', st') \<longrightarrow> consumes 1 rest rest' \<and> switches st' = switches st)"

lemma with_value_arm:
  assumes "\<And>v st st'. k v st = Inr st' \<Longrightarrow> switches st' = switches st"
  shows "value_arm rest st (with_value flag rest k st)"
  using assms
  by (fastforce simp: value_arm_def with_value_def and_then_ok require_value_ok once_ok consumes_1 switches_def)

lemma option_args:
  "positive_arg name update v st = Inr st' \<Longrightarrow> switches st' = switches st"
  "plain_arg name update v st = Inr st' \<Longrightarrow> switches st' = switches st"
  "log_format_arg v st = Inr st' \<Longrightarrow> switches st' = switches st"
  by (auto simp: positive_arg_def plain_arg_def log_format_arg_def and_then_ok switches_def split: if_splits)

lemma address_value_arms:
  "value_arm rest st (bind_arm rest st)" "value_arm rest st (port_arm rest st)" "value_arm rest st (addr_arm rest st)"
  by (auto simp: value_arm_def bind_arm_def port_arm_def addr_arm_def and_then_ok require_value_ok consumes_1 switches_def
      Let_def split: if_splits option.splits)

lemma grouped_value_arms:
  "address_arms flag rest st = Some r \<Longrightarrow> value_arm rest st r"
  "capacity_arms flag rest st = Some r \<Longrightarrow> value_arm rest st r"
  "timeout_arms flag rest st = Some r \<Longrightarrow> value_arm rest st r"
  "request_arms flag rest st = Some r \<Longrightarrow> value_arm rest st r"
  by (auto simp: address_arms_def capacity_arms_def timeout_arms_def request_arms_def
      intro!: with_value_arm address_value_arms split: if_splits dest: option_args)
    (simp add: switches_def)

lemma grouped_arity:
  "address_arms flag rest st = Some r \<Longrightarrow> arity flag = 1"
  "capacity_arms flag rest st = Some r \<Longrightarrow> arity flag = 1"
  "timeout_arms flag rest st = Some r \<Longrightarrow> arity flag = 1"
  "request_arms flag rest st = Some r \<Longrightarrow> arity flag = 1"
  by (auto simp: address_arms_def capacity_arms_def timeout_arms_def request_arms_def arity_def VALUE_FLAGS_def
      split: if_splits)

text \<open>The effect of a flag on the switches.\<close>

definition switched :: "string \<Rightarrow> parse_state \<Rightarrow> bool \<times> bool \<times> bool \<times> bool" where
  "switched flag st =
     (ps_public st \<or> flag = ''--public'', ps_directory_listing st = ListingEnabled \<or> flag = ''--directory-listing'',
      ps_symlinks st = SymlinkPolicyFollow \<or> flag = ''--follow-symlinks'', ps_dotfiles st = ServeDotfiles \<or> flag = ''--allow-dotfiles'')"

definition arm_ok :: "string \<Rightarrow> string list \<Rightarrow> parse_state \<Rightarrow> arm \<Rightarrow> bool" where
  "arm_ok flag rest st r \<longleftrightarrow>
     (\<forall>rest' st'. r = Inr (rest', st') \<longrightarrow> consumes (arity flag) rest rest' \<and> switches st' = switched flag st)"

lemma arity_switch:
  "arity ''--public'' = 0" "arity ''--directory-listing'' = 0" "arity ''--follow-symlinks'' = 0"
  "arity ''--allow-dotfiles'' = 0" "arity ''--quiet'' = 0" "arity ''--http3'' = 0" "arity ''--log-format'' = 1"
  "arity ''--content-type'' = 1" "arity ''--tls-cert'' = 1" "arity ''--tls-key'' = 1" "arity ''--header'' = 2" "arity ''-H'' = 2"
  by (simp_all add: arity_def VALUE_FLAGS_def)

lemma value_arm_switched:
  assumes "value_arm rest st r" and "arity flag = 1"
  shows "arm_ok flag rest st r"
proof -
  have "flag \<notin> {''--public'', ''--directory-listing'', ''--follow-symlinks'', ''--allow-dotfiles''}"
    using assms(2) arity_switch(1-4) by (metis insertE singletonD zero_neq_one)
  then show ?thesis using assms by (simp add: arm_ok_def value_arm_def switched_def switches_def)
qed

lemma switch_arm:
  assumes "arity flag = 0" and "\<And>st. switches (f st) = switched flag st"
  shows "arm_ok flag rest st (switch flag rest f st)"
  using assms by (auto simp: arm_ok_def switch_def and_then_ok once_ok switched_def switches_def)

lemma policy_arms_ok:
  assumes "policy_arms flag rest st = Some r"
  shows "arm_ok flag rest st r"
proof -
  have sw: "arm_ok ''--public'' rest st (switch ''--public'' rest (\<lambda>st. st\<lparr>ps_public := True\<rparr>) st)"
    "arm_ok ''--directory-listing'' rest st (switch ''--directory-listing'' rest (\<lambda>st. st\<lparr>ps_directory_listing := ListingEnabled\<rparr>) st)"
    "arm_ok ''--follow-symlinks'' rest st (switch ''--follow-symlinks'' rest (\<lambda>st. st\<lparr>ps_symlinks := SymlinkPolicyFollow\<rparr>) st)"
    "arm_ok ''--allow-dotfiles'' rest st (switch ''--allow-dotfiles'' rest (\<lambda>st. st\<lparr>ps_dotfiles := ServeDotfiles\<rparr>) st)"
    "arm_ok ''--quiet'' rest st (switch ''--quiet'' rest (\<lambda>st. st\<lparr>ps_quiet := True\<rparr>) st)"
    by (rule switch_arm; simp add: arity_switch switches_def switched_def)+
  have "arm_ok ''--log-format'' rest st (with_value ''--log-format'' rest log_format_arg st)"
    by (rule value_arm_switched [OF with_value_arm arity_switch(7)]) (rule option_args)
  with sw show ?thesis using assms unfolding policy_arms_def by (auto split: if_splits)
qed

lemma header_arm_ok:
  assumes "flag = ''-H'' \<or> flag = ''--header''"
  shows "arm_ok flag rest st (header_arm rest st)"
  using assms
  by (auto simp: arm_ok_def header_arm_def and_then_ok require_value_ok consumes_def arity_switch switched_def switches_def)

lemma tls_arm_ok:
  assumes "arity flag = 1" and "\<And>v st. switches (update v st) = switches st"
  shows "arm_ok flag rest st (tls_arm ft flag rest update st)"
proof (cases "ft_tls ft")
  case True
  then show ?thesis using assms by (auto simp: tls_arm_def intro!: value_arm_switched with_value_arm)
qed (simp add: tls_arm_def arm_ok_def)

lemma positional_arity: "\<not> starts_with s ''-'' \<Longrightarrow> arity s = 0"
  by (auto simp: arity_def starts_with_def)

lemma content_type_arm_ok:
  "arm_ok ''--content-type'' rest st (with_value ''--content-type'' rest (\<lambda>v st. Inr (st\<lparr>ps_default_content_type := v\<rparr>)) st)"
  by (rule value_arm_switched [OF with_value_arm arity_switch(8)]) (auto simp: switches_def)

lemma tls_arms_ok:
  "arm_ok ''--tls-cert'' rest st (tls_arm ft ''--tls-cert'' rest (\<lambda>path st. st\<lparr>ps_tls_cert := Some path\<rparr>) st)"
  "arm_ok ''--tls-key'' rest st (tls_arm ft ''--tls-key'' rest (\<lambda>path st. st\<lparr>ps_tls_key := Some path\<rparr>) st)"
  by (rule tls_arm_ok [OF arity_switch(9)] tls_arm_ok [OF arity_switch(10)]; simp add: switches_def)+

lemma http3_arm_ok: "arm_ok ''--http3'' rest st (http3_arm rest st)"
  by (simp add: arm_ok_def http3_arm_def arity_switch switches_def switched_def)

lemmas other_value_arms = content_type_arm_ok tls_arms_ok http3_arm_ok

lemma positional_ok:
  assumes "\<not> starts_with flag ''-''"
  shows "arm_ok flag rest st (Inr (rest, st\<lparr>ps_positional := ps_positional st @ [flag]\<rparr>))"
  using assms positional_arity [OF assms] by (auto simp: arm_ok_def switches_def switched_def starts_with_def)

lemma error_arm_ok: "arm_ok flag rest st (Inl e)"
  by (simp add: arm_ok_def)

lemma other_arms_ok: "arm_ok flag rest st (other_arms ft flag rest st)"
  unfolding other_arms_def
  using other_value_arms [of rest st] by (auto intro!: header_arm_ok positional_ok error_arm_ok)

lemma first_of_simps [simp]:
  "first_of [] d = d" "first_of (Some a # os) d = a" "first_of (None # os) d = first_of os d"
  by (simp_all add: first_of_def)

lemma first_of_cases:
  assumes "P d" and "\<And>a. Some a \<in> set os \<Longrightarrow> P a"
  shows "P (first_of os d)"
  using assms(2)
proof (induction os)
  case (Cons o' os)
  then show ?case by (cases o') auto
qed (simp add: assms(1))

lemma parse_arm_ok: "arm_ok flag rest st (parse_arm ft flag rest st)"
  unfolding parse_arm_def
proof (rule first_of_cases [where P = "arm_ok flag rest st", OF other_arms_ok])
  fix r
  assume "Some r \<in> set [address_arms flag rest st, policy_arms flag rest st, capacity_arms flag rest st,
    timeout_arms flag rest st, request_arms flag rest st]"
  then consider "address_arms flag rest st = Some r" | "policy_arms flag rest st = Some r"
    | "capacity_arms flag rest st = Some r" | "timeout_arms flag rest st = Some r" | "request_arms flag rest st = Some r"
    by (auto simp: eq_commute)
  then show "arm_ok flag rest st r"
    by cases (blast intro: value_arm_switched policy_arms_ok dest: grouped_value_arms grouped_arity)+
qed

lemmas parse_armD = parse_arm_ok [unfolded arm_ok_def, rule_format]

section \<open>The loop\<close>

lemma arm_shrinks: "parse_arm ft flag rest st = Inr (rest', st') \<Longrightarrow> length rest' \<le> length rest"
  by (drule parse_armD) (simp add: consumes_def)

text \<open>After \<^verbatim>\<open>--\<close> every argument is positional.\<close>

function parse_options :: "features \<Rightarrow> string list \<Rightarrow> parse_state \<Rightarrow> string + parse_state" where
  "parse_options ft [] st = Inr st"
| "parse_options ft (arg # rest) st =
     (if arg = ''--'' then Inr (st\<lparr>ps_positional := ps_positional st @ rest\<rparr>)
      else
        case parse_arm ft arg rest st of
          Inl e \<Rightarrow> Inl e
        | Inr (rest, st) \<Rightarrow> parse_options ft rest st)"
  by pat_completeness auto
termination
  by (relation "measure (\<lambda>(ft, args, st). length args)") (auto dest!: arm_shrinks)

section \<open>The whole parser\<close>

definition all_digits :: "string \<Rightarrow> bool" where
  [rust_eval]: "all_digits s \<longleftrightarrow> s \<noteq> [] \<and> list_all is_ascii_digit s"

definition port_like :: "string \<Rightarrow> bool" where
  [rust_eval]: "port_like pos \<longleftrightarrow>
     (let trimmed = trim pos;
          padded_port_like = (all_digits trimmed \<and> trimmed \<noteq> pos);
          signed_port_like = (length trimmed > 1 \<and> (starts_with trimmed ''+'' \<or> starts_with trimmed ''-'')
            \<and> all_digits (drop 1 trimmed))
      in padded_port_like \<or> signed_port_like)"

definition place_directory :: "string \<Rightarrow> string option \<Rightarrow> string + string option" where
  [rust_eval]: "place_directory pos root =
     (case root of
        None \<Rightarrow> Inr (Some pos)
      | Some _ \<Rightarrow> Inl (''too many positional arguments: '' @ ticked pos))"

fun place_positionals :: "string list \<Rightarrow> u16 \<Rightarrow> bool \<Rightarrow> string option \<Rightarrow> string + u16 \<times> string option" where
  "place_positionals [] port port_from_flag root = Inr (port, root)"
| "place_positionals (pos # rest) port port_from_flag root =
     (if \<not> port_from_flag \<and> port_like pos then
        Inl (''invalid positional port '' @ ticked pos @ '': must be a decimal number between 0 and 65535'')
      else
        case (if port_from_flag then None else parse_unsigned 16 pos) of
          Some p \<Rightarrow> place_positionals rest (of_nat p) True root
        | None \<Rightarrow>
            if \<not> port_from_flag \<and> all_digits pos then
              Inl (''invalid positional port '' @ ticked pos @ '': must be between 0 and 65535 (use `--directory ''
                @ pos @ ''` if this is a directory name)'')
            else and_then (place_directory pos root) (\<lambda>root. place_positionals rest port port_from_flag root))"

definition tls_paths :: "features \<Rightarrow> parse_state \<Rightarrow> string + string option \<times> string option" where
  [rust_eval]: "tls_paths ft st =
     (if \<not> ft_tls ft then Inr (None, None)
      else
        case (ps_tls_cert st, ps_tls_key st) of
          (Some cert, None) \<Rightarrow> Inr (Some cert, Some cert)
        | (None, Some _) \<Rightarrow> Inl ''--tls-key requires --tls-cert to be provided''
        | pair \<Rightarrow> Inr pair)"

definition finish_parse :: "features \<Rightarrow> resolver \<Rightarrow> parse_state \<Rightarrow> string + args" where
  [rust_eval]: "finish_parse ft to_socket_addrs st =
     and_then (place_positionals (ps_positional st) (ps_bind_port st) (ps_port_from_flag st) (ps_root st)) (\<lambda>(port, root).
     and_then (resolve_bind_ip to_socket_addrs (ps_bind_host st) port) (\<lambda>bind_ip.
       if \<not> ps_public st \<and> is_unspecified bind_ip then
         Inl (''binding to '' @ ip_text bind_ip @ '' requires --public to acknowledge public exposure intent'')
       else
         and_then (validate_static_metadata (ps_default_content_type st) (ps_extra_response_headers st)) (\<lambda>_.
         and_then (tls_paths ft st) (\<lambda>(cert, key).
           Inr \<lparr>ar_bind = \<lparr>sa_ip = bind_ip, sa_port = port\<rparr>,
                ar_root = (case root of None \<Rightarrow> ''.'' | Some r \<Rightarrow> r),
                ar_directory_listing = ps_directory_listing st, ar_symlinks = ps_symlinks st,
                ar_dotfiles = ps_dotfiles st, ar_default_content_type = ps_default_content_type st,
                ar_extra_response_headers = ps_extra_response_headers st, ar_log_format = ps_log_format st,
                ar_quiet = ps_quiet st, ar_options = ps_options st, ar_tls_cert = cert, ar_tls_key = key,
                ar_http3 = ps_http3 st\<rparr>))))"

definition parse_from :: "features \<Rightarrow> resolver \<Rightarrow> string list \<Rightarrow> string + args" where
  [rust_eval]: "parse_from ft to_socket_addrs argv =
     and_then (expand_attached_long_values argv) (\<lambda>argv.
     and_then (parse_options ft argv parse_start) (finish_parse ft to_socket_addrs))"

section \<open>The configuration of a command line\<close>

definition args_static_policy :: "args \<Rightarrow> static_policy" where
  [rust_eval]: "args_static_policy a =
     \<lparr>sp_directory_listing = ar_directory_listing a, sp_symlinks = ar_symlinks a, sp_dotfiles = ar_dotfiles a,
      sp_static_metadata = metadata_policy_standard\<rparr>"

definition or_given :: "'a option \<Rightarrow> 'a \<Rightarrow> 'a" where
  [rust_eval]: "or_given given d = (case given of Some v \<Rightarrow> v | None \<Rightarrow> d)"

definition override :: "limit_options \<Rightarrow> limits \<Rightarrow> limits" where
  [rust_eval]: "override opts l = l
     \<lparr>lm_max_connections := or_given (lo_max_connections opts) (lm_max_connections l),
      lm_max_file_streams := or_given (lo_max_file_streams opts) (lm_max_file_streams l),
      lm_max_in_flight_requests := or_given (lo_max_in_flight_requests opts) (lm_max_in_flight_requests l),
      lm_header_read_timeout := or_given (lo_header_read_timeout opts) (lm_header_read_timeout l),
      lm_connection_total_timeout := or_given (lo_connection_total_timeout opts) (lm_connection_total_timeout l),
      lm_handler_timeout := or_given (lo_handler_timeout opts) (lm_handler_timeout l),
      lm_body_read_timeout := or_given (lo_body_read_timeout opts) (lm_body_read_timeout l),
      lm_keep_alive_idle_timeout := or_given (lo_keep_alive_idle_timeout opts) (lm_keep_alive_idle_timeout l),
      lm_max_requests_per_connection := or_given (lo_max_requests_per_connection opts) (lm_max_requests_per_connection l),
      lm_response_write_timeout := or_given (lo_response_write_timeout opts) (lm_response_write_timeout l),
      lm_max_buf_size := or_given (lo_max_buf_size opts) (lm_max_buf_size l),
      lm_max_headers := or_given (lo_max_headers opts) (lm_max_headers l),
      lm_max_header_bytes := or_given (lo_max_header_bytes opts) (lm_max_header_bytes l),
      lm_max_request_target_bytes := or_given (lo_max_request_target_bytes opts) (lm_max_request_target_bytes l)\<rparr>"

fun join_texts :: "string \<Rightarrow> string list \<Rightarrow> string" where
  "join_texts sep [] = []"
| "join_texts sep [s] = s"
| "join_texts sep (s # ss) = s @ sep @ join_texts sep ss"

definition args_limits :: "nat \<Rightarrow> args \<Rightarrow> string + limits" where
  [rust_eval]: "args_limits max_permits a =
     (let l = override (ar_options a) limits_default in
      and_then (map_err (\<lambda>errs. join_texts ''; '' (map violation_text errs)) (limits_validate max_permits l)) (\<lambda>_. Inr l))"

text \<open>
  \<^verbatim>\<open>run_cli\<close> up to the construction of the server: the exit code of a command line that starts no server, or
  the configuration and the sink of its log.
\<close>

definition cli_sink :: "args \<Rightarrow> log_sink" where
  [rust_eval]: "cli_sink a =
     (let quiet = (ar_quiet a \<or> ar_log_format a = LogNone) in
      case ar_log_format a of
        LogNone \<Rightarrow> NopLogSink
      | LogJson \<Rightarrow> if quiet then FilteredLogSink (StderrLogSink JsonFormat) Warn else StderrLogSink JsonFormat
      | LogText \<Rightarrow> if quiet then FilteredLogSink (StderrLogSink TextFormat) Warn else StderrLogSink TextFormat)"

definition cli_config :: "features \<Rightarrow> resolver \<Rightarrow> nat \<Rightarrow> string list \<Rightarrow> int + serve_config \<times> log_sink" where
  [rust_eval]: "cli_config ft to_socket_addrs max_permits argv =
     (case parse_from ft to_socket_addrs argv of
        Inl e \<Rightarrow> Inl (if e = ''help'' \<or> e = ''version'' then 0 else 1)
      | Inr a \<Rightarrow>
          (case args_limits max_permits a of
             Inl _ \<Rightarrow> Inl 1
           | Inr l \<Rightarrow>
               Inr (\<lparr>sc_bind = ar_bind a, sc_root = ar_root a, sc_limits = l, sc_static_policy = args_static_policy a,
                     sc_default_content_type = ar_default_content_type a,
                     sc_extra_response_headers = ar_extra_response_headers a, sc_error_policy = ErrorMinimal\<rparr>,
                    cli_sink a)))"

section \<open>Which flags were given\<close>

text \<open>An argument before \<^verbatim>\<open>--\<close>.\<close>

definition given :: "string \<Rightarrow> string list \<Rightarrow> bool" where
  [rust_eval]: "given flag argv \<longleftrightarrow> flag \<in> set (takeWhile (\<lambda>a. a \<noteq> ''--'') argv)"

lemma given_simps [simp]:
  "\<not> given flag []" "given flag (a # argv) \<longleftrightarrow> a \<noteq> ''--'' \<and> (a = flag \<or> given flag argv)"
  by (auto simp: given_def)

lemma dashes_flag_like [simp]: "flag_like ''--''"
  by (simp add: flag_like_def starts_with_def)

lemma given_values:
  assumes "list_all (\<lambda>v. \<not> flag_like v) vs" and "flag_like flag"
  shows "given flag (vs @ rest) = given flag rest"
  using assms by (induction vs) auto

lemma given_consumed:
  assumes "consumes n rest rest'" and "flag_like flag"
  shows "given flag rest' = given flag rest"
  using given_values [of "take n rest" flag "drop n rest"] assms by (simp add: consumes_def)

definition given_switches :: "string list \<Rightarrow> parse_state \<Rightarrow> bool \<times> bool \<times> bool \<times> bool" where
  "given_switches argv st =
     (ps_public st \<or> given ''--public'' argv, ps_directory_listing st = ListingEnabled \<or> given ''--directory-listing'' argv,
      ps_symlinks st = SymlinkPolicyFollow \<or> given ''--follow-symlinks'' argv,
      ps_dotfiles st = ServeDotfiles \<or> given ''--allow-dotfiles'' argv)"

lemma switches_flag_like:
  "flag_like ''--public''" "flag_like ''--directory-listing''" "flag_like ''--follow-symlinks''"
  "flag_like ''--allow-dotfiles''"
  by (simp_all add: flag_like_def starts_with_def)

lemma parse_options_switches:
  "parse_options ft argv st = Inr st' \<Longrightarrow> switches st' = given_switches argv st"
proof (induction ft argv st arbitrary: st' rule: parse_options.induct)
  case (2 ft arg rest st)
  show ?case
  proof (cases "arg = ''--''")
    case False
    then obtain rest1 st1 where arm: "parse_arm ft arg rest st = Inr (rest1, st1)"
      and loop: "parse_options ft rest1 st1 = Inr st'"
      using 2(2) by (auto split: sum.splits)
    have "switches st1 = switched arg st" "consumes (arity arg) rest rest1" using parse_armD [OF arm] by simp_all
    moreover have "switches st' = given_switches rest1 st1" using 2(1) [OF False arm] loop by blast
    ultimately show ?thesis
      using False by (simp add: given_switches_def switched_def switches_def given_consumed switches_flag_like disj_assoc)
  qed (use 2(2) in \<open>auto simp: given_switches_def switches_def\<close>)
qed (auto simp: given_switches_def switches_def)

text \<open>A command line in which every flag has its values.\<close>

fun tidy :: "string list \<Rightarrow> bool" where
  "tidy [] = True"
| "tidy (a # rest) \<longleftrightarrow> a = ''--'' \<or> (consumes (arity a) rest (drop (arity a) rest) \<and> tidy rest)"

lemma value_arity:
  assumes "\<not> flag_like v"
  shows "arity v = 0"
proof (cases "v = ''-''")
  case True
  then show ?thesis by (auto simp: arity_def)
next
  case False
  then show ?thesis using assms by (simp add: flag_like_def positional_arity)
qed

lemma tidy_values: "list_all (\<lambda>v. \<not> flag_like v) vs \<Longrightarrow> tidy (vs @ rest) = tidy rest"
  by (induction vs) (auto simp: value_arity)

lemma tidy_attached:
  assumes "tidy (t # vs @ us)" and "t \<noteq> ''--''" and "length vs \<le> arity t"
  shows "list_all (\<lambda>v. \<not> flag_like v) vs" and "tidy us"
proof -
  show "list_all (\<lambda>v. \<not> flag_like v) vs" using assms by (simp add: consumes_def)
  then show "tidy us" using assms tidy_values [of vs us] by simp
qed

lemma parse_options_tidy: "parse_options ft argv st = Inr st' \<Longrightarrow> tidy argv"
proof (induction ft argv st arbitrary: st' rule: parse_options.induct)
  case (2 ft arg rest st)
  show ?case
  proof (cases "arg = ''--''")
    case False
    then obtain rest1 st1 where arm: "parse_arm ft arg rest st = Inr (rest1, st1)"
      and loop: "parse_options ft rest1 st1 = Inr st'"
      using 2(2) by (auto split: sum.splits)
    have c: "consumes (arity arg) rest rest1" using parse_armD [OF arm] by simp
    moreover have "tidy rest1" using 2(1) [OF False arm] loop by blast
    ultimately have "tidy (take (arity arg) rest @ drop (arity arg) rest)"
      by (subst tidy_values) (simp_all add: consumes_def)
    then show ?thesis using c by (auto simp: consumes_def)
  qed simp
qed simp

text \<open>Expanding attached values gives no flag that was not there.\<close>

lemma expand_arg_cases:
  assumes "expand_arg a = Inr ts"
  shows "ts = [a] \<or> (\<exists>t vs. ts = t # vs \<and> t \<in> (@) ''--'' ` set VALUE_FLAGS \<and> length vs \<le> arity t
    \<and> attached_value a \<noteq> None)"
proof (cases "attached_value a")
  case (Some p)
  obtain name v where p: "p = (name, v)" by (cases p)
  have "''header'' \<in> set VALUE_FLAGS" by (simp add: VALUE_FLAGS_def)
  then have "''--header'' \<in> (@) ''--'' ` set VALUE_FLAGS" by force
  moreover have "length [x] \<le> arity (''--'' @ name)" if "name \<in> set VALUE_FLAGS" for x :: string
    using that by (simp add: arity_def)
  ultimately show ?thesis
    using assms Some p unfolding expand_arg_def
    by (auto simp: arity_switch split: option.splits prod.splits if_splits)
qed (use assms in \<open>simp add: expand_arg_def\<close>)

lemma arity_dashes: "arity ''--'' = 0"
  by (auto simp: arity_def VALUE_FLAGS_def)

definition plain_switch :: "string \<Rightarrow> bool" where
  "plain_switch f \<longleftrightarrow> flag_like f \<and> attached_value f = None \<and> arity f = 0"

lemma plain_switches:
  "plain_switch ''--public''" "plain_switch ''--directory-listing''" "plain_switch ''--follow-symlinks''"
  "plain_switch ''--allow-dotfiles''"
  by (simp_all add: plain_switch_def switches_flag_like arity_switch)

lemma given_expanded:
  assumes "expand_attached_long_values argv = Inr ex" and "tidy ex" and "plain_switch f"
  shows "given f ex = given f argv"
  using assms
proof (induction argv arbitrary: ex)
  case (Cons a argv)
  show ?case
  proof (cases "a = ''--''")
    case False
    obtain ts us where ts: "expand_arg a = Inr ts" and us: "expand_attached_long_values argv = Inr us" and ex: "ex = ts @ us"
      using Cons.prems(1) False by (auto simp: and_then_ok)
    have step: "given f us = given f argv" if "tidy us" using Cons.IH [OF us that Cons.prems(3)] .
    show ?thesis
    proof (cases "ts = [a]")
      case True
      then show ?thesis using Cons.prems(2) ex False step by simp
    next
      case attached: False
      then obtain t vs where t: "ts = t # vs" "t \<in> (@) ''--'' ` set VALUE_FLAGS" "length vs \<le> arity t" "attached_value a \<noteq> None"
        using expand_arg_cases [OF ts] by blast
      then have "0 < arity t" by (auto simp: arity_def)
      then have "t \<noteq> ''--''" "t \<noteq> f" "a \<noteq> f" using Cons.prems(3) t(4) by (auto simp: plain_switch_def arity_dashes)
      moreover have "list_all (\<lambda>v. \<not> flag_like v) vs" "tidy us"
        using tidy_attached [of t vs us] Cons.prems(2) ex t(1,3) \<open>t \<noteq> ''--''\<close> by simp_all
      ultimately show ?thesis
        using step given_values [of vs f us] Cons.prems(3) ex t(1) False by (simp add: plain_switch_def)
    qed
  qed (use Cons.prems in simp)
qed simp

section \<open>What a command line exposes\<close>

lemma parse_from_switches:
  assumes "parse_from ft r argv = Inr a"
  obtains st where "switches st = given_switches argv parse_start" and "finish_parse ft r st = Inr a"
proof -
  obtain ex st where ex: "expand_attached_long_values argv = Inr ex" and st: "parse_options ft ex parse_start = Inr st"
    and a: "finish_parse ft r st = Inr a"
    using assms by (auto simp: parse_from_def and_then_ok)
  have "given_switches ex parse_start = given_switches argv parse_start"
    unfolding given_switches_def given_expanded [OF ex parse_options_tidy [OF st] plain_switches(1)]
      given_expanded [OF ex parse_options_tidy [OF st] plain_switches(2)]
      given_expanded [OF ex parse_options_tidy [OF st] plain_switches(3)]
      given_expanded [OF ex parse_options_tidy [OF st] plain_switches(4)] ..
  with that parse_options_switches [OF st] a show thesis by metis
qed

lemma finish_parse_ok:
  assumes "finish_parse ft r st = Inr a"
  shows "is_unspecified (sa_ip (ar_bind a)) \<longrightarrow> ps_public st"
    and "ar_directory_listing a = ps_directory_listing st" "ar_symlinks a = ps_symlinks st" "ar_dotfiles a = ps_dotfiles st"
    and "metadata_ok DEFAULT_MAX_EXTRA_HEADERS DEFAULT_MAX_EXTRA_HEADER_BYTES (ar_default_content_type a) (ar_extra_response_headers a)"
  using assms unfolding metadata_validated [symmetric]
  by (auto simp: finish_parse_def and_then_ok validate_static_metadata_def limits_default_def split: if_splits)

lemma parse_from_exposure:
  assumes "parse_from ft r argv = Inr a"
  shows "is_unspecified (sa_ip (ar_bind a)) \<Longrightarrow> given ''--public'' argv"
    and "ar_directory_listing a = ListingEnabled \<longleftrightarrow> given ''--directory-listing'' argv"
    and "ar_symlinks a = SymlinkPolicyFollow \<longleftrightarrow> given ''--follow-symlinks'' argv"
    and "ar_dotfiles a = ServeDotfiles \<longleftrightarrow> given ''--allow-dotfiles'' argv"
    and "metadata_ok DEFAULT_MAX_EXTRA_HEADERS DEFAULT_MAX_EXTRA_HEADER_BYTES (ar_default_content_type a) (ar_extra_response_headers a)"
proof -
  obtain st where "switches st = given_switches argv parse_start" and fin: "finish_parse ft r st = Inr a"
    by (rule parse_from_switches [OF assms])
  then have "ps_public st = given ''--public'' argv" "(ps_directory_listing st = ListingEnabled) = given ''--directory-listing'' argv"
    "(ps_symlinks st = SymlinkPolicyFollow) = given ''--follow-symlinks'' argv" "(ps_dotfiles st = ServeDotfiles) = given ''--allow-dotfiles'' argv"
    by (simp_all add: switches_def given_switches_def parse_start_def)
  then show "is_unspecified (sa_ip (ar_bind a)) \<Longrightarrow> given ''--public'' argv"
    "ar_directory_listing a = ListingEnabled \<longleftrightarrow> given ''--directory-listing'' argv"
    "ar_symlinks a = SymlinkPolicyFollow \<longleftrightarrow> given ''--follow-symlinks'' argv"
    "ar_dotfiles a = ServeDotfiles \<longleftrightarrow> given ''--allow-dotfiles'' argv"
    "metadata_ok DEFAULT_MAX_EXTRA_HEADERS DEFAULT_MAX_EXTRA_HEADER_BYTES (ar_default_content_type a) (ar_extra_response_headers a)"
    using finish_parse_ok [OF fin] by simp_all
qed

lemma cli_config_ok:
  assumes "cli_config ft r m argv = Inr (config, sink)"
  obtains a where "parse_from ft r argv = Inr a" and "sc_bind config = ar_bind a"
    and "sc_static_policy config = args_static_policy a" and "sc_default_content_type config = ar_default_content_type a"
    and "sc_extra_response_headers config = ar_extra_response_headers a"
    and "sc_limits config = override (ar_options a) limits_default" and "limits_ok m (sc_limits config)"
  using assms unfolding limits_validate_ok [symmetric]
  by (auto simp: cli_config_def args_limits_def Let_def and_then_def map_err_def split: sum.splits)

lemma override_keeps:
  "lm_max_extra_headers (override opts l) = lm_max_extra_headers l"
  "lm_max_extra_header_bytes (override opts l) = lm_max_extra_header_bytes l"
  "lm_max_request_body_bytes (override opts l) = lm_max_request_body_bytes l"
  by (simp_all add: override_def)

text \<open>Among the addresses of a host name, a loopback address is preferred.\<close>

lemma select_bind_ip_cases: "select_bind_ip [] = None" "as \<noteq> [] \<Longrightarrow> \<exists>a\<in>set as. select_bind_ip as = Some (sa_ip a)"
proof -
  assume "as \<noteq> []"
  then obtain b bs where "sort_key bind_rank as = b # bs" by (metis list.exhaust length_0_conv length_sort)
  then show "\<exists>a\<in>set as. select_bind_ip as = Some (sa_ip a)"
    by (metis select_bind_ip_def list.simps(5) list.set_intros(1) set_sort)
qed (simp add: select_bind_ip_def)

lemma select_bind_ip_loopback:
  assumes "select_bind_ip as = Some ip" and "a \<in> set as" and "is_loopback (sa_ip a)"
  shows "is_loopback ip"
proof -
  obtain b bs where s: "sort_key bind_rank as = b # bs" and ip: "ip = sa_ip b"
    using assms(1) by (auto simp: select_bind_ip_def split: list.splits)
  have "sorted (map bind_rank (b # bs))" unfolding s [symmetric] by (rule sorted_sort_key)
  moreover have "a \<in> set (b # bs)" using assms(2) unfolding s [symmetric] by simp
  ultimately have "bind_rank b \<le> bind_rank a" by auto
  then show ?thesis using assms(3) ip by (auto simp: bind_rank_def less_eq_prod_def)
qed

lemma cli_config_exposure:
  assumes "cli_config ft to_socket_addrs max_permits argv = Inr (config, sink)"
  shows "is_unspecified (sa_ip (sc_bind config)) \<Longrightarrow> given ''--public'' argv"
    and "sp_directory_listing (sc_static_policy config) = ListingEnabled \<longleftrightarrow> given ''--directory-listing'' argv"
    and "sp_symlinks (sc_static_policy config) = SymlinkPolicyFollow \<longleftrightarrow> given ''--follow-symlinks'' argv"
    and "sp_dotfiles (sc_static_policy config) = ServeDotfiles \<longleftrightarrow> given ''--allow-dotfiles'' argv"
    and "limits_ok max_permits (sc_limits config)" and "lm_max_request_body_bytes (sc_limits config) = 0"
    and "metadata_ok 32 8192 (sc_default_content_type config) (sc_extra_response_headers config)"
proof -
  obtain a where a: "parse_from ft to_socket_addrs argv = Inr a" and c: "sc_bind config = ar_bind a"
    "sc_static_policy config = args_static_policy a" "sc_default_content_type config = ar_default_content_type a"
    "sc_extra_response_headers config = ar_extra_response_headers a"
    "sc_limits config = override (ar_options a) limits_default" "limits_ok max_permits (sc_limits config)"
    by (rule cli_config_ok [OF assms])
  note e = parse_from_exposure [OF a]
  show "is_unspecified (sa_ip (sc_bind config)) \<Longrightarrow> given ''--public'' argv" using e(1) c(1) by simp
  show "sp_directory_listing (sc_static_policy config) = ListingEnabled \<longleftrightarrow> given ''--directory-listing'' argv"
    "sp_symlinks (sc_static_policy config) = SymlinkPolicyFollow \<longleftrightarrow> given ''--follow-symlinks'' argv"
    "sp_dotfiles (sc_static_policy config) = ServeDotfiles \<longleftrightarrow> given ''--allow-dotfiles'' argv"
    using e(2-4) c(2) by (simp_all add: args_static_policy_def)
  show "limits_ok max_permits (sc_limits config)" by fact
  show "lm_max_request_body_bytes (sc_limits config) = 0"
    using c(5) by (simp add: override_keeps limits_default_def DEFAULT_MAX_REQUEST_BODY_BYTES_def)
  show "metadata_ok 32 8192 (sc_default_content_type config) (sc_extra_response_headers config)"
    using e(5) c(3,4) by (simp add: DEFAULT_MAX_EXTRA_HEADERS_def DEFAULT_MAX_EXTRA_HEADER_BYTES_def)
qed

text \<open>
  a command line exposes nothing it does not name.  A server is configured to listen on an unspecified
  address only when \<^verbatim>\<open>--public\<close> stands on the command line, and it lists directories, follows symbolic links
  or serves dotfiles exactly when the flag for it does; a flag counts before \<^verbatim>\<open>--\<close> only, and a flag smuggled
  in as the value of another (\<^verbatim>\<open>--directory=--public\<close>) does not.  The limits are within the bounds of the
  runtime, the budgets no flag can set keep their defaults, and the headers of the operator are within their
  budgets, well formed, and none that the runtime or the representation owns.
\<close>

lemma configuration_explicit:
  assumes "cli_config ft to_socket_addrs max_permits argv = Inr (config, sink)"
  shows "(is_unspecified (sa_ip (sc_bind config)) \<longrightarrow> given ''--public'' argv)
    \<and> (sp_directory_listing (sc_static_policy config) = ListingEnabled \<longleftrightarrow> given ''--directory-listing'' argv)
    \<and> (sp_symlinks (sc_static_policy config) = SymlinkPolicyFollow \<longleftrightarrow> given ''--follow-symlinks'' argv)
    \<and> (sp_dotfiles (sc_static_policy config) = ServeDotfiles \<longleftrightarrow> given ''--allow-dotfiles'' argv)
    \<and> limits_ok max_permits (sc_limits config)
    \<and> lm_max_request_body_bytes (sc_limits config) = 0
    \<and> metadata_ok 32 8192 (sc_default_content_type config) (sc_extra_response_headers config)"
  using cli_config_exposure [OF assms] by simp

definition sample_argv :: "string list" where
  [rust_eval]: "sample_argv =
     [''--bind=0.0.0.0'', ''--public'', ''--allow-dotfiles'', ''-H'', ''x-frame-options'', ''DENY'', ''--max-headers=50'',
      ''8080'', ''--'', ''--follow-symlinks'']"

definition no_resolver :: resolver where
  [rust_eval]: "no_resolver host port = Inl ''no resolver''"

definition sample_options :: parse_state where
  [rust_eval]: "sample_options = parse_start\<lparr>ps_bind_host := ''0.0.0.0'',
      ps_seen := [''--max-headers'', ''--allow-dotfiles'', ''--public'', ''--bind''], ps_public := True, ps_dotfiles := ServeDotfiles,
      ps_extra_response_headers := [(''x-frame-options'', ''DENY'')], ps_options := no_options\<lparr>lo_max_headers := Some 50\<rparr>,
      ps_positional := [''8080'', ''--follow-symlinks'']\<rparr>"

lemma sample_parsed: 
  "bind_target ''0.0.0.0'' = Inr (''0.0.0.0'', None)"
  "resolve_bind_ip no_resolver ''0.0.0.0'' 8080 = Inr (V4 0)"
  by code_simp+

lemma sample_placed:
  "place_positionals [''8080'', ''--follow-symlinks''] 8000 False None = Inr (8080, Some ''--follow-symlinks'')"
  by (simp add: rust_eval)

text \<open>The two positional slots may be filled in either order.\<close>

lemma positional_order_free: "place_positionals [''srv'', ''8080''] 8000 False None = Inr (8080, Some ''srv'')"
  by (simp add: rust_eval)

lemma sample_expanded: "expand_attached_long_values sample_argv = Inr
    [''--bind'', ''0.0.0.0'', ''--public'', ''--allow-dotfiles'', ''-H'', ''x-frame-options'', ''DENY'', ''--max-headers'', ''50'',
     ''8080'', ''--'', ''--follow-symlinks'']"
  by (simp add: rust_eval)

lemma sample_looped: "and_then (expand_attached_long_values sample_argv)
    (\<lambda>argv. parse_options \<lparr>ft_tls = False, ft_http3 = False\<rparr> argv parse_start) = Inr sample_options"
  unfolding sample_expanded using sample_parsed(1) by (simp add: rust_eval del: bind_target_def)

lemma sample_metadata: "validate_static_metadata ''application/octet-stream'' [(''x-frame-options'', ''DENY'')] = Inr ()"
  by (simp add: rust_eval)

lemma sample_limits: "limits_validate 100 (override (no_options\<lparr>lo_max_headers := Some 50\<rparr>) limits_default) = Inr ()"
  unfolding limits_validate_ok by (simp add: rust_eval)

lemma sample_finished: "\<exists>a. finish_parse \<lparr>ft_tls = False, ft_http3 = False\<rparr> no_resolver sample_options = Inr a
   \<and> ar_bind a = \<lparr>sa_ip = V4 0, sa_port = 8080\<rparr> \<and> ar_root a = ''--follow-symlinks''
   \<and> ar_options a = no_options\<lparr>lo_max_headers := Some 50\<rparr>"
  using sample_parsed(2) sample_placed sample_metadata
  by (simp add: finish_parse_def sample_options_def parse_start_def and_then_def tls_paths_def)

lemma sample_configured:
  "\<exists>config sink. cli_config \<lparr>ft_tls = False, ft_http3 = False\<rparr> no_resolver 100 sample_argv = Inr (config, sink)
     \<and> sc_bind config = \<lparr>sa_ip = V4 0, sa_port = 8080\<rparr> \<and> sc_root config = ''--follow-symlinks''
     \<and> lm_max_headers (sc_limits config) = 50"
proof -
  obtain a where a: "finish_parse \<lparr>ft_tls = False, ft_http3 = False\<rparr> no_resolver sample_options = Inr a"
    "ar_bind a = \<lparr>sa_ip = V4 0, sa_port = 8080\<rparr>" "ar_root a = ''--follow-symlinks''"
    "ar_options a = no_options\<lparr>lo_max_headers := Some 50\<rparr>"
    using sample_finished by blast
  have "parse_from \<lparr>ft_tls = False, ft_http3 = False\<rparr> no_resolver sample_argv = Inr a"
    using sample_looped a(1) by (auto simp: parse_from_def and_then_ok)
  then show ?thesis using a(2-4) sample_limits by (simp add: cli_config_def args_limits_def and_then_def map_err_def Let_def override_def or_given_def)
qed

lemma configuration_explicit_witness:
  "\<exists>config sink. cli_config \<lparr>ft_tls = False, ft_http3 = False\<rparr> no_resolver 100 sample_argv = Inr (config, sink)
     \<and> is_unspecified (sa_ip (sc_bind config)) \<and> given ''--public'' sample_argv
     \<and> sp_dotfiles (sc_static_policy config) = ServeDotfiles \<and> sp_symlinks (sc_static_policy config) \<noteq> SymlinkPolicyFollow
     \<and> limits_ok 100 (sc_limits config) \<and> lm_max_headers (sc_limits config) = 50"
proof -
  obtain config sink where c: "cli_config \<lparr>ft_tls = False, ft_http3 = False\<rparr> no_resolver 100 sample_argv = Inr (config, sink)"
    and b: "sc_bind config = \<lparr>sa_ip = V4 0, sa_port = 8080\<rparr>" "lm_max_headers (sc_limits config) = 50"
    using sample_configured by blast
  have "given ''--allow-dotfiles'' sample_argv" "\<not> given ''--follow-symlinks'' sample_argv"
    by (simp_all add: sample_argv_def)
  then show ?thesis using configuration_explicit [OF c] b c by auto
qed

text \<open>
  The guard for public addresses knows the two unspecified addresses only: the wildcard address of IPv4 in its
  IPv6-mapped form passes without \<^verbatim>\<open>--public\<close>.
\<close>

lemma mapped_wildcard:
  "parse_ip ''::ffff:0.0.0.0'' = Some (V6 0xFFFF00000000)" "parse_socket_addr ''::ffff:0.0.0.0'' = None"
  "ip_text (V6 0xFFFF00000000) = ''::ffff:0.0.0.0''"
proof -
  have five: "replicate 5 (0 :: nat) = [0, 0, 0, 0, 0]" by (simp add: numeral_eq_Suc)
  have "be_bytes 4 0 = [CHR 0x00, CHR 0x00, CHR 0x00, CHR 0x00]" by (simp add: four)
  then have "ipv4_str 0 = ''0.0.0.0''" by (simp add: rust_eval dec.simps)
  then show "ip_text (V6 0xFFFF00000000) = ''::ffff:0.0.0.0''" by (simp add: ipv6_text_def ipv6_segments_def upt_rec Let_def)
  show "parse_ip ''::ffff:0.0.0.0'' = Some (V6 0xFFFF00000000)" by (simp add: rust_eval four five)
  show "parse_socket_addr ''::ffff:0.0.0.0'' = None" by (simp add: rust_eval four)
qed

lemma mapped_wildcard_unguarded:
  "\<exists>a. parse_from ft no_resolver [''--bind'', ''::ffff:0.0.0.0''] = Inr a \<and> ar_bind a = \<lparr>sa_ip = V6 0xFFFF00000000, sa_port = 8000\<rparr>"
proof -
  have "validate_static_metadata ''application/octet-stream'' [] = Inr ()" by (simp add: rust_eval)
  moreover have "parse_options ft [''--bind'', ''::ffff:0.0.0.0''] parse_start =
      Inr (parse_start\<lparr>ps_seen := [''--bind''], ps_bind_host := ''::ffff:0.0.0.0''\<rparr>)"
    using mapped_wildcard by (simp add: parse_arm_def address_arms_def bind_arm_def bind_target_def and_then_def
        require_value_def flag_like_def starts_with_def Let_def parse_start_def)
  ultimately show ?thesis
    using mapped_wildcard(1)
    by (simp add: parse_from_def expand_arg_def and_then_def finish_parse_def parse_start_def resolve_bind_ip_def tls_paths_def)
qed

end
