(* ===== verification/Spec2Isabelle.thy ===== *)
theory Spec2Isabelle
  imports Static_Service Accept_Loop Intake_Variants Pipeline Cli_Args
begin

text \<open>
  EggServe: a verification development of the static-file HTTP server in \<^verbatim>\<open>src/crates\<close>.

  \<^bold>\<open>The program.\<close>  A command line becomes a configuration (\<^verbatim>\<open>eggserve-bin\<close>, \<^verbatim>\<open>eggserve-core\<close>); the accept loop of
  the runtime (\<^verbatim>\<open>eggserve-server\<close>) admits connections within its permits and gives each to a driver, which
  enforces its deadlines; Hyper parses HTTP/1 on the connection and calls the request pipeline; the pipeline
  checks the request, builds the protocol-independent values of \<^verbatim>\<open>eggserve-primitives\<close>, calls a service, and
  normalises and converts its response; the static service (\<^verbatim>\<open>eggserve-static\<close>) is the service the executable
  runs: it confines the path, resolves it below a pinned root, plans the response and opens the file.
  \<^verbatim>\<open>eggserve-core\<close> is the older runtime for HTTP/1 and HTTP/2 on the same values, \<^verbatim>\<open>eggserve-h3\<close> the one for HTTP/3.

  \<^bold>\<open>The theories\<close>, from the bottom; each opens with its sources and its conventions.
  \<^item> \<open>Rust_Prelude\<close>: strings as bytes, \<^verbatim>\<open>Result\<close> as a sum, words, UTF-8, decimal numbers, the collection
    \<open>rust_eval\<close> by which concrete inputs are evaluated.  \<open>Interfaces\<close> and \<open>Machines\<close>: the contracts, as locales.
  \<^item> Values (\<^verbatim>\<open>eggserve-primitives/src/primitives\<close>): \<open>Request_Target\<close> (\<^verbatim>\<open>request_target.rs\<close>, \<^verbatim>\<open>authority.rs\<close>),
    \<open>Http_Types\<close> (\<^verbatim>\<open>method.rs\<close>, \<^verbatim>\<open>version.rs\<close>, \<^verbatim>\<open>http.rs\<close>, \<^verbatim>\<open>policy.rs\<close>, \<^verbatim>\<open>response.rs\<close>), \<open>Header_Block\<close>,
    \<open>Trailers\<close>, \<open>Body_Source\<close> (\<^verbatim>\<open>body.rs\<close>), \<open>Canonical_Response\<close> (\<^verbatim>\<open>canonical/*\<close>, \<^verbatim>\<open>response_stream.rs\<close>),
    \<open>Interim\<close>, \<open>Tunnel_Intent\<close> (\<^verbatim>\<open>tunnel.rs\<close>), \<open>Request_Lifecycle\<close>, \<open>Request_Body\<close>, \<open>Ip_Address\<close> and \<open>Proxy\<close>
    (\<^verbatim>\<open>proxy.rs\<close>), \<open>Request_Context\<close> (\<^verbatim>\<open>request_head.rs\<close>, \<^verbatim>\<open>connection_info.rs\<close>, \<^verbatim>\<open>request_context.rs\<close>,
    \<^verbatim>\<open>request.rs\<close>).
  \<^item> Static serving (\<^verbatim>\<open>eggserve-static/src\<close>): \<open>Confined_Path\<close> (\<^verbatim>\<open>path/*\<close>), \<open>Planner\<close> (\<^verbatim>\<open>planner.rs\<close>), \<open>Static_Fs\<close>
    (\<^verbatim>\<open>fs/mod.rs\<close>, \<^verbatim>\<open>fs/unix.rs\<close>, \<^verbatim>\<open>secure_root.rs\<close>, \<^verbatim>\<open>mime.rs\<close>), \<open>Static_Service\<close> (\<^verbatim>\<open>lib.rs\<close>).
  \<^item> Runtime (\<^verbatim>\<open>eggserve-server/src\<close>): \<open>Service_Contract\<close> (\<^verbatim>\<open>service.rs\<close>), \<open>Civil_Time\<close>, \<open>Ops_Events\<close> and \<open>Ops\<close>
    (\<^verbatim>\<open>ops/*\<close>), \<open>Accept_Loop\<close> (\<^verbatim>\<open>accept_error.rs\<close>, \<^verbatim>\<open>errors.rs\<close>, \<^verbatim>\<open>lib.rs\<close>), \<open>Request_Intake\<close>
    (\<^verbatim>\<open>connection/request.rs\<close>), \<open>Runtime_Limits\<close>, \<open>Config\<close> (\<^verbatim>\<open>config.rs\<close>, \<^verbatim>\<open>response_policy.rs\<close>,
    \<^verbatim>\<open>rejection.rs\<close>), \<open>Hyper_Api\<close>, \<open>Stream_Adapter\<close>, \<open>File_Stream\<close> and \<open>Runtime_Response\<close> (\<^verbatim>\<open>adapters.rs\<close>,
    \<^verbatim>\<open>response.rs\<close>, \<^verbatim>\<open>connection/response.rs\<close>), \<open>Connection_Activity\<close> (\<^verbatim>\<open>connection/activity.rs\<close>,
    \<^verbatim>\<open>lifecycle.rs\<close>, \<^verbatim>\<open>deferred_body.rs\<close>), \<open>Connection_Driver\<close> (\<^verbatim>\<open>connection/driver.rs\<close>), \<open>Tunnel_Exec\<close>
    (\<^verbatim>\<open>tunnel.rs\<close>), \<open>Connection_Context\<close> (\<^verbatim>\<open>connection/context.rs\<close>), \<open>Pipeline\<close> (\<^verbatim>\<open>connection/pipeline.rs\<close>).
  \<^item> Other runtimes and the executable: \<open>Intake_Variants\<close> (\<^verbatim>\<open>request.rs\<close> of \<^verbatim>\<open>eggserve-core\<close> and \<^verbatim>\<open>eggserve-h3\<close>),
    \<open>Core_Config\<close> (\<^verbatim>\<open>limits.rs\<close>, \<^verbatim>\<open>config.rs\<close> and \<^verbatim>\<open>server/static_service.rs\<close> of \<^verbatim>\<open>eggserve-core\<close>), \<open>Cli_Args\<close>
    (\<^verbatim>\<open>args.rs\<close> and the first half of \<^verbatim>\<open>run_cli\<close> of \<^verbatim>\<open>eggserve-bin\<close>).

  \<^bold>\<open>How code becomes definitions.\<close>  A struct is a record, an enum a datatype, \<^verbatim>\<open>u16\<close> and \<^verbatim>\<open>u64\<close> are words,
  \<^verbatim>\<open>usize\<close> is a natural number with its bound written out where the code depends on it, and a \<^verbatim>\<open>Duration\<close> or an
  \<^verbatim>\<open>Instant\<close> is a number of nanoseconds.  An error is the left side of a sum; a panic that the code could reach
  is \<open>None\<close>, and theorems show where it is not reached.  Shared objects behind \<^verbatim>\<open>Arc\<close> live in an explicit world
  that operations take and return.  An asynchronous function is the sequence of the moments at which it acts:
  what another task, the peer or a timer does in between is an input, an event or a step.  Concurrency that
  matters is modelled as such: the lifecycle of a request as a step relation between an ending thread and
  waiting tasks, the accept loop and the activity of a connection as machines over their events.

  \<^bold>\<open>What is shown.\<close>
  \<^item> Confinement: what an admitted path can name (\<open>Confined_Path\<close>), what resolution can reach under any
    concurrent change of the filesystem and exactly what it gives on a filesystem at rest (\<open>Static_Fs\<close>, a
    refinement of tree lookup), what the service serves (\<open>Static_Service\<close>), and the same for a whole command
    line (below).
  \<^item> Requests: soundness of accepted targets, heads and framing, equivalence of the two intakes, the HTTP/3
    rules, body reading that is exact and bounded, lifecycles that end once and wake their waiters (with the
    interleaving in which a wake-up is lost), trailers, proxies.
  \<^item> Responses: the planner is total and consistent, HEAD mirrors GET through the service, normalisation keeps
    the framing, streamed and file bodies deliver the announced bytes or fail, rejections are framed, the
    privacy policy is final.
  \<^item> Runtime: permits, counters and tasks of connections and requests balance on every path (\<open>Accept_Loop\<close>,
    \<open>Connection_Activity\<close>, \<open>Tunnel_Exec\<close>, \<open>Pipeline\<close>), deadlines fire exactly, idle connections close safely,
    the drain ends, each request gets one answer, an unread body closes the connection.
  \<^item> Configuration and observation: admitted limits are within their bounds, a command line exposes nothing it
    does not name, an event line can be read back.

  \<^bold>\<open>Locales.\<close>  \<open>canonical_text\<close> is interpreted on authorities, methods, header names and values, trailer
  declarations and protocol names; \<open>header_store\<close> on the header block and the response plan; \<open>one_shot\<close> on the
  body lifecycle and its cancellation; \<open>event_machine\<close> on the accept loop and the activity of a connection;
  \<open>draining_machine\<close> on the accept loop.

  \<^bold>\<open>Arguments that stand for other code\<close>, with the hypotheses about them: the operating system \<open>os\<close>
  (\<open>openat_nofollow\<close>, \<open>dup_aliases\<close>, \<open>at_rest\<close>), the reads of an open file (\<open>reads_content\<close>, \<open>reads_progress\<close>),
  dates of the \<^verbatim>\<open>httpdate\<close> crate (\<open>dates_printable\<close>), Hyper's header map and request (\<open>hyper_laws\<close>,
  \<open>header_map_laws\<close>, \<open>to_str_identity\<close>), the texts of I/O and proxy errors, custom log sinks, the wall clock,
  the size of a semaphore, the resolver of host names, the producer of a streamed body, how Hyper's connection
  ends, and the service of the pipeline with what it does to the objects it is given (\<open>call_sound\<close>).  Each
  property with such a hypothesis has a witness on a concrete instance.

  \<^bold>\<open>Bounds and fuel.\<close>  All recursions are total; there is no fuel except where a run is bounded by its input:
  producers, events and rounds of the driver are lists.  That streams end and that the drain ends is proved
  from a measure, for every input.  Counters wrap in the model as in the code; the invariants on them assume
  fewer than \<open>2 ^ 63\<close> live objects.

  \<^bold>\<open>Not modelled.\<close>  The Windows build of the filesystem (\<^verbatim>\<open>fs/windows.rs\<close>, \<^verbatim>\<open>fs/dirbuf.rs\<close>: handles and buffers of
  the platform's interface); TLS (\<^verbatim>\<open>eggnet-tls\<close>) and QUIC (\<^verbatim>\<open>eggserve-h3\<close> apart from its request conversion),
  which configure and drive third-party stacks; the Python bindings; adapters to Hyper and Tower, sockets,
  signals and the process around \<^verbatim>\<open>run_cli\<close>; the compatibility runtime of \<^verbatim>\<open>eggserve-core/src/server\<close> apart from its
  intake and its configuration: its connection code is an earlier copy of the one modelled from
  \<^verbatim>\<open>eggserve-server\<close>.  \<^verbatim>\<open>Debug\<close> and most \<^verbatim>\<open>Display\<close> output, plain accessors and poisoned locks are left out.
\<close>

section \<open>From the command line to the file\<close>


text \<open>A root directory that can be opened by its path, and the service of the empty command line on it.\<close>

definition rooted_os :: "unit os" where
  [rust_eval]: "rooted_os = sample_os
     \<lparr>os_canonicalize := \<lambda>w p. (Inr ''/srv'', w), os_metadata := \<lambda>w p. (Inr (ft_md sample_tree 0), w),
      os_open := \<lambda>w p flags. (Inr 0, w)\<rparr>"

lemma rooted_os_laws: "openat_nofollow rooted_os (tree_entry sample_tree)" "dup_aliases rooted_os (tree_entry sample_tree)"
proof -
  have "os_openat rooted_os = os_openat sample_os" "os_dup rooted_os = os_dup sample_os" by (simp_all add: rooted_os_def)
  moreover have "openat_nofollow sample_os (tree_entry sample_tree)" "dup_aliases sample_os (tree_entry sample_tree)"
    unfolding sample_os_def by (rule tree_os_nofollow, rule tree_os_dup_aliases)
  ultimately show "openat_nofollow rooted_os (tree_entry sample_tree)" "dup_aliases rooted_os (tree_entry sample_tree)"
    unfolding openat_nofollow_def dup_aliases_def by simp_all
qed

lemma plain_configured:
  "cli_config \<lparr>ft_tls = False, ft_http3 = False\<rparr> no_resolver 100 [] = Inr (serve_config_default, StderrLogSink TextFormat)"
proof -
  have "resolve_bind_ip no_resolver ''127.0.0.1'' 8000 = Inr (V4 0x7F000001)"
    by (simp add: resolve_bind_ip_def parse_ip_def parse_with_def read_ipv4_def four read_number_def read_char_def to_digit_def
        octets_value_def)
  moreover have "validate_static_metadata ''application/octet-stream'' [] = Inr ()" by (simp add: rust_eval)
  moreover have "override no_options limits_default = limits_default"
    by (simp add: override_def no_options_def or_given_def)
  moreover have "limits_validate 100 limits_default = Inr ()"
    unfolding limits_validate_ok by (rule limits_default_ok) simp
  ultimately show ?thesis
    by (simp add: cli_config_def parse_from_def parse_start_def finish_parse_def and_then_def tls_paths_def
        args_limits_def args_static_policy_def map_err_def Let_def serve_config_default_def static_policy_safe_default_def
        cli_sink_def)
qed

definition rooted_service :: static_service where
  [rust_eval]: "rooted_service =
     \<lparr>ss_root = \<lparr>sr_pinned = \<lparr>pr_canonical_root = ''/srv'', pr_root_fd = 0\<rparr>, sr_policy = static_policy_safe_default\<rparr>,
      ss_default_content_type = ''application/octet-stream'', ss_extra_response_headers = [], ss_error_policy = ErrorMinimal,
      ss_max_listing_entries = 4096, ss_max_listing_response_bytes = 1048576\<rparr>"

lemma rooted_service_built:
  "from_serve_config rooted_os None serve_config_default () = (Inr (rooted_service, root_initialized None), ())"
proof -
  have "secure_root_new rooted_os ''.'' static_policy_safe_default () = (Inr (ss_root rooted_service), ())"
    by (simp add: rooted_os_def sample_tree_def rooted_service_def secure_root_new_def pinned_root_new_def os_is_dir_def on_ok_def
        md_is_dir_def file_type_def S_IFMT_def S_IFDIR_def)
  moreover have "validate_static_metadata_with_limits ''application/octet-stream'' [] 32 8192 = Inr ()"
    by (simp add: rust_eval)
  ultimately show ?thesis
    by (simp add: from_serve_config_def serve_state_new_def serve_config_default_def from_state_def rooted_service_def
        limits_default_def DEFAULT_MAX_EXTRA_HEADERS_def DEFAULT_MAX_EXTRA_HEADER_BYTES_def DEFAULT_MAX_LISTING_ENTRIES_def DEFAULT_MAX_LISTING_RESPONSE_BYTES_def)
qed

lemma rooted_answer: "\<exists>r src. respond rooted_os sample_dates rooted_service (sample_request ''GET'' ''/pub/a.txt'') () = (Some (Inr r), ())
   \<and> rsp_body r = Some (RBFile src)"
  by (simp add: rust_eval Let_def metadata.defs)


end
